(* ===== verification/Prelude.thy ===== *)
theory Prelude
  imports Main "HOL-Library.AList"
begin

text \<open>
  What every component shares: hash maps as association lists, the state-machine
  interface used by the components with state, and the development's collections of
  rewrite rules.

  A Rust \<open>HashMap\<close> or \<open>DashMap\<close> is an association list with distinct keys. Lookup is
  \<open>map_of\<close>, insertion overwrites in place or appends, removal drops the key. The order
  of the list stands for the map's iteration order, which the program never relies on.
\<close>

named_theorems hmap_simps \<open>lookup, domain and distinctness of the hash-map operations\<close>
named_theorems step_simps \<open>one rule per operation of a state machine\<close>

section \<open>Hash maps\<close>

type_synonym ('k, 'v) hmap = "('k \<times> 'v) list"

definition hm_empty :: "('k, 'v) hmap" where
  "hm_empty = []"

definition hm_get :: "('k, 'v) hmap \<Rightarrow> 'k \<Rightarrow> 'v option" where
  "hm_get m k = map_of m k"

definition hm_put :: "'k \<Rightarrow> 'v \<Rightarrow> ('k, 'v) hmap \<Rightarrow> ('k, 'v) hmap" where
  "hm_put k v m = AList.update k v m"

definition hm_del :: "'k \<Rightarrow> ('k, 'v) hmap \<Rightarrow> ('k, 'v) hmap" where
  "hm_del k m = AList.delete k m"

definition hm_keys :: "('k, 'v) hmap \<Rightarrow> 'k list" where
  "hm_keys m = map fst m"

definition hm_vals :: "('k, 'v) hmap \<Rightarrow> 'v list" where
  "hm_vals m = map snd m"

definition hm_ok :: "('k, 'v) hmap \<Rightarrow> bool" where
  "hm_ok m = distinct (hm_keys m)"

lemma hm_get_empty [simp, hmap_simps]: "hm_get hm_empty k = None"
  by (simp add: hm_get_def hm_empty_def)

lemma hm_get_put [simp, hmap_simps]:
  "hm_get (hm_put k v m) k' = (if k' = k then Some v else hm_get m k')"
  by (simp add: hm_get_def hm_put_def update_conv')

lemma hm_get_del [simp, hmap_simps]:
  "hm_get (hm_del k m) k' = (if k' = k then None else hm_get m k')"
  by (simp add: hm_get_def hm_del_def delete_conv')

lemma hm_ok_empty [simp, hmap_simps]: "hm_ok hm_empty"
  by (simp add: hm_ok_def hm_keys_def hm_empty_def)

lemma hm_ok_put [simp, hmap_simps]: "hm_ok m \<Longrightarrow> hm_ok (hm_put k v m)"
  by (simp add: hm_ok_def hm_keys_def hm_put_def distinct_update)

lemma hm_ok_del [simp, hmap_simps]: "hm_ok m \<Longrightarrow> hm_ok (hm_del k m)"
  by (simp add: hm_ok_def hm_keys_def hm_del_def distinct_delete)

lemma hm_keys_iff: "k \<in> set (hm_keys m) \<longleftrightarrow> hm_get m k \<noteq> None"
  by (simp add: hm_keys_def hm_get_def map_of_eq_None_iff)

lemma hm_vals_iff: "hm_ok m \<Longrightarrow> v \<in> set (hm_vals m) \<longleftrightarrow> (\<exists>k. hm_get m k = Some v)"
  by (force simp: hm_ok_def hm_keys_def hm_vals_def hm_get_def image_iff dest: map_of_SomeD)

lemma hm_length_put:
  "length (hm_put k v m) = (if hm_get m k = None then Suc (length m) else length m)"
  by (induction m) (auto simp: hm_put_def hm_get_def)

lemma hm_length_del_le: "length (hm_del k m) \<le> length m"
  by (simp add: hm_del_def length_delete_le)

lemma hm_length_del_less: "hm_get m k \<noteq> None \<Longrightarrow> length (hm_del k m) < length m"
  by (induction m) (auto simp: hm_del_def hm_get_def AList.delete_eq le_imp_less_Suc length_filter_le)

lemma hm_set_del: "set (hm_del k m) = {e \<in> set m. fst e \<noteq> k}"
  by (auto simp: hm_del_def AList.delete_eq)

lemma hm_mem_get: "hm_ok m \<Longrightarrow> (k, v) \<in> set m \<longleftrightarrow> hm_get m k = Some v"
  by (auto simp: hm_ok_def hm_keys_def hm_get_def dest: map_of_SomeD)

text \<open>
  The map interface the components are clients of: a lookup that sees the last write to
  its key and no other write, and an invariant every operation keeps.
\<close>

locale keyed_store =
  fixes get :: "'m \<Rightarrow> 'k \<Rightarrow> 'v option"
    and put :: "'k \<Rightarrow> 'v \<Rightarrow> 'm \<Rightarrow> 'm"
    and del :: "'k \<Rightarrow> 'm \<Rightarrow> 'm"
    and ok :: "'m \<Rightarrow> bool"
  assumes get_put: "get (put k v m) k' = (if k' = k then Some v else get m k')"
    and get_del: "get (del k m) k' = (if k' = k then None else get m k')"
    and ok_put: "ok m \<Longrightarrow> ok (put k v m)"
    and ok_del: "ok m \<Longrightarrow> ok (del k m)"
begin

lemma get_fold_del: "get (fold del ks m) k = (if k \<in> set ks then None else get m k)"
  by (induction ks arbitrary: m) (auto simp: get_del)

lemma ok_fold_del: "ok m \<Longrightarrow> ok (fold del ks m)"
  by (induction ks arbitrary: m) (auto simp: ok_del)

lemma get_fold_put:
  "distinct (map fst kvs) \<Longrightarrow>
    get (fold (\<lambda>(k, v). put k v) kvs m) k =
      (case map_of kvs k of Some v \<Rightarrow> Some v | None \<Rightarrow> get m k)"
proof (induction kvs arbitrary: m)
  case Nil
  then show ?case by simp
next
  case (Cons kv kvs)
  obtain a b where kv: "kv = (a, b)" by (cases kv)
  from Cons.prems have "a \<notin> fst ` set kvs" by (simp add: kv)
  then have "map_of kvs a = None" by (simp add: map_of_eq_None_iff)
  with Cons kv show ?case by (auto simp: get_put split: option.splits)
qed

lemma ok_fold_put: "ok m \<Longrightarrow> ok (fold (\<lambda>(k, v). put k v) kvs m)"
  by (induction kvs arbitrary: m) (auto simp: ok_put)

end

interpretation hm: keyed_store hm_get hm_put hm_del hm_ok
  by unfold_locales (simp_all add: hmap_simps)

section \<open>State machines\<close>

text \<open>
  A component behind one lock is a step function over its events. What holds at the
  start and is kept by each admissible step holds after every admissible run.
\<close>

locale machine =
  fixes step :: "'e \<Rightarrow> 's \<Rightarrow> 's"
    and admissible :: "'e \<Rightarrow> bool"
    and inv :: "'s \<Rightarrow> bool"
  assumes step_inv: "admissible e \<Longrightarrow> inv s \<Longrightarrow> inv (step e s)"
begin

lemma run_inv: "list_all admissible es \<Longrightarrow> inv s \<Longrightarrow> inv (fold step es s)"
  by (induction es arbitrary: s) (auto simp: step_inv)

end

text \<open>A machine with a counter that no step turns back.\<close>

locale counting_machine = machine +
  fixes clock :: "'b \<Rightarrow> nat"
  assumes step_clock: "admissible e \<Longrightarrow> inv s \<Longrightarrow> clock s \<le> clock (step e s)"
begin

lemma run_clock: "list_all admissible es \<Longrightarrow> inv s \<Longrightarrow> clock s \<le> clock (fold step es s)"
proof (induction es arbitrary: s)
  case Nil
  then show ?case by simp
next
  case (Cons e es)
  then have "admissible e" "list_all admissible es" by simp_all
  with Cons have "clock (step e s) \<le> clock (fold step es (step e s))"
    by (simp add: step_inv)
  with step_clock [OF \<open>admissible e\<close> Cons.prems(2)] show ?case by simp
qed

end

section \<open>Lists\<close>

lemma length_filter_split:
  "length (filter P xs) + length (filter (\<lambda>x. \<not> P x) xs) = length xs"
  by (rule sum_length_filter_compl)

lemma filter_filter_disj:
  "filter (\<lambda>x. \<not> P x) (filter (\<lambda>x. \<not> Q x) xs) = filter (\<lambda>x. \<not> (P x \<or> Q x)) xs"
  by (induction xs) auto

lemma foldl_snoc_induct [case_names Nil snoc]:
  assumes "P []" and "\<And>x xs. P xs \<Longrightarrow> P (xs @ [x])"
  shows "P xs"
  using assms by (rule rev_induct)

end
