(* ===== verification/Rust_Text.thy ===== *)
theory Rust_Text
  imports Prelude "HOL-Library.Sublist" "HOL-Library.List_Lexorder" "HOL-Library.Char_ord"
begin

text \<open>
  The operations of Rust's \<open>str\<close> the program uses. A \<open>str\<close> is its UTF-8 byte string, a HOL
  \<^typ>\<open>string\<close> (a HOL \<^typ>\<open>char\<close> is one byte), so lengths and offsets are byte counts as in
  the source. Operations that work on characters go through \<open>utf8_chars\<close>, which cuts the
  byte string at every byte that starts a character. \<open>cmp\<close> on \<open>str\<close> is the
  lexicographic order on bytes, the order of \<open>HOL-Library.List_Lexorder\<close>.
\<close>

section \<open>Characters of a byte string\<close>

definition is_cont_byte :: "char \<Rightarrow> bool" where
  "is_cont_byte c \<longleftrightarrow> 128 \<le> (of_char c :: nat) \<and> (of_char c :: nat) < 192"

function utf8_chars :: "string \<Rightarrow> string list" where
  "utf8_chars [] = []"
| "utf8_chars (c # cs) = (c # takeWhile is_cont_byte cs) # utf8_chars (dropWhile is_cont_byte cs)"
  by pat_completeness auto
termination
  by (relation "measure length") (simp_all add: length_dropWhile_le le_imp_less_Suc)

lemma concat_utf8_chars [simp]: "concat (utf8_chars s) = s"
  by (induction s rule: utf8_chars.induct) auto

lemma utf8_chars_inj: "utf8_chars s = utf8_chars t \<Longrightarrow> s = t"
  by (metis concat_utf8_chars)

lemma utf8_chars_eq_Nil [simp]: "utf8_chars s = [] \<longleftrightarrow> s = []"
  by (cases s) auto

definition is_ascii :: "char \<Rightarrow> bool" where
  "is_ascii c \<longleftrightarrow> (of_char c :: nat) < 128"

lemma utf8_chars_ascii: "list_all is_ascii s \<Longrightarrow> utf8_chars s = map (\<lambda>c. [c]) s"
proof (induction s rule: utf8_chars.induct)
  case (2 c cs)
  then have "takeWhile is_cont_byte cs = []" "dropWhile is_cont_byte cs = cs"
    by (cases cs; auto simp: is_cont_byte_def is_ascii_def)+
  with 2 show ?case by simp
qed simp

text \<open>
  \<open>char::is_whitespace\<close>: the characters with the Unicode property \<open>White_Space\<close>, as
  UTF-8 byte strings.
\<close>

definition byte :: "nat \<Rightarrow> char" where
  "byte n = char_of n"

definition is_whitespace :: "string \<Rightarrow> bool" where
  "is_whitespace ch \<longleftrightarrow>
     (case ch of
        [c] \<Rightarrow> let n = (of_char c :: nat) in (9 \<le> n \<and> n \<le> 13) \<or> n = 32
      | [a, b] \<Rightarrow> let m = (of_char a :: nat); n = (of_char b :: nat)
                in m = 194 \<and> (n = 133 \<or> n = 160)
      | [a, b, c] \<Rightarrow>
          let l = (of_char a :: nat); m = (of_char b :: nat); n = (of_char c :: nat)
          in (l = 225 \<and> m = 154 \<and> n = 128)
             \<or> (l = 226 \<and> m = 128 \<and> ((128 \<le> n \<and> n \<le> 138) \<or> n = 168 \<or> n = 169 \<or> n = 175))
             \<or> (l = 226 \<and> m = 129 \<and> n = 159)
             \<or> (l = 227 \<and> m = 128 \<and> n = 128)
      | _ \<Rightarrow> False)"

definition str_trim :: "string \<Rightarrow> string" where
  "str_trim s =
     concat (rev (dropWhile is_whitespace (rev (dropWhile is_whitespace (utf8_chars s)))))"

definition str_any_whitespace :: "string \<Rightarrow> bool" where
  "str_any_whitespace s \<longleftrightarrow> list_ex is_whitespace (utf8_chars s)"

text \<open>\<open>split_whitespace\<close>: the maximal runs of characters that are not whitespace.\<close>

fun ws_words :: "string list \<Rightarrow> string \<Rightarrow> string list" where
  "ws_words [] w = (if w = [] then [] else [w])"
| "ws_words (ch # chs) w =
     (if is_whitespace ch then (if w = [] then ws_words chs [] else w # ws_words chs [])
      else ws_words chs (w @ ch))"

definition split_whitespace :: "string \<Rightarrow> string list" where
  "split_whitespace s = ws_words (utf8_chars s) []"

section \<open>Splitting and joining on a byte\<close>

text \<open>
  \<open>str::split\<close> with an ASCII character: one more piece than there are separators, and
  never no piece.
\<close>

fun split_on :: "char \<Rightarrow> string \<Rightarrow> string list" where
  "split_on c [] = [[]]"
| "split_on c (x # xs) =
     (if x = c then [] # split_on c xs
      else (case split_on c xs of [] \<Rightarrow> [[x]] | p # ps \<Rightarrow> (x # p) # ps))"

fun join :: "string \<Rightarrow> string list \<Rightarrow> string" where
  "join sep [] = []"
| "join sep [x] = x"
| "join sep (x # y # ys) = x @ sep @ join sep (y # ys)"

lemma split_on_not_Nil [simp]: "split_on c s \<noteq> []"
  by (cases s) (auto split: list.splits)

lemma split_on_no_sep: "c \<notin> set s \<Longrightarrow> split_on c s = [s]"
  by (induction s) auto

lemma split_on_append: "c \<notin> set p \<Longrightarrow> split_on c (p @ c # s) = p # split_on c s"
  by (induction p) auto

lemma split_on_join:
  "ps \<noteq> [] \<Longrightarrow> \<forall>p \<in> set ps. c \<notin> set p \<Longrightarrow> split_on c (join [c] ps) = ps"
  by (induction "[c]" ps rule: join.induct) (auto simp: split_on_no_sep split_on_append)

lemma join_Cons_piece: "join sep ((x # p) # ps) = x # join sep (p # ps)"
  by (cases ps) simp_all

lemma join_Nil_piece: "ps \<noteq> [] \<Longrightarrow> join sep ([] # ps) = sep @ join sep ps"
  by (cases ps) simp_all

lemma join_split_on: "join [c] (split_on c s) = s"
proof (induction s)
  case Nil
  show ?case by simp
next
  case (Cons x xs)
  then obtain p ps where "split_on c xs = p # ps" by (cases "split_on c xs") auto
  with Cons show ?case by (simp add: join_Cons_piece join_Nil_piece)
qed

lemma set_join: "set (join sep ps) \<subseteq> set sep \<union> \<Union> (set ` set ps)"
  by (induction sep ps rule: join.induct) auto

lemma split_on_pieces: "p \<in> set (split_on c s) \<Longrightarrow> c \<notin> set p"
  by (induction s arbitrary: p) (auto split: if_splits list.splits)

lemma split_on_subset: "p \<in> set (split_on c s) \<Longrightarrow> set p \<subseteq> set s"
proof (induction s arbitrary: p)
  case (Cons x s)
  then show ?case by (cases "split_on c s") (force split: if_splits)+
qed simp

lemma split_on_piece_free:
  "split_on c s = ps \<Longrightarrow> p \<in> set ps \<Longrightarrow> d \<notin> set s \<or> d = c \<Longrightarrow> d \<notin> set p"
  using split_on_pieces split_on_subset by blast

definition split_once :: "char \<Rightarrow> string \<Rightarrow> (string \<times> string) option" where
  "split_once c s =
     (if c \<in> set s then Some (takeWhile (\<lambda>x. x \<noteq> c) s, tl (dropWhile (\<lambda>x. x \<noteq> c) s)) else None)"

lemma split_once_append [simp]: "c \<notin> set p \<Longrightarrow> split_once c (p @ c # s) = Some (p, s)"
  by (auto simp: split_once_def takeWhile_append dropWhile_append)

lemma split_once_None [simp]: "split_once c s = None \<longleftrightarrow> c \<notin> set s"
  by (simp add: split_once_def)

lemma split_once_Some:
  "split_once c s = Some (p, r) \<Longrightarrow> s = p @ c # r \<and> c \<notin> set p"
proof (induction s arbitrary: p)
  case (Cons x s)
  then show ?case
    by (cases "x = c"; cases "c \<in> set s")
       (auto simp: split_once_def split: if_splits)
qed (simp add: split_once_def)

section \<open>Prefixes, suffixes and search\<close>

definition starts_with :: "string \<Rightarrow> string \<Rightarrow> bool" where
  "starts_with p s = prefix p s"

definition ends_with :: "string \<Rightarrow> string \<Rightarrow> bool" where
  "ends_with p s = suffix p s"

definition strip_prefix :: "string \<Rightarrow> string \<Rightarrow> string option" where
  "strip_prefix p s = (if prefix p s then Some (drop (length p) s) else None)"

definition strip_suffix :: "string \<Rightarrow> string \<Rightarrow> string option" where
  "strip_suffix p s = (if suffix p s then Some (take (length s - length p) s) else None)"

lemma strip_prefix_append [simp]: "strip_prefix p (p @ s) = Some s"
  by (simp add: strip_prefix_def)

lemma strip_prefix_Some: "strip_prefix p s = Some r \<longleftrightarrow> s = p @ r"
  by (auto simp: strip_prefix_def prefix_def)

definition str_contains :: "string \<Rightarrow> string \<Rightarrow> bool" where
  "str_contains p s = sublist p s"

text \<open>\<open>str::rfind\<close> with a string: the offset of the last occurrence.\<close>

fun rfind :: "string \<Rightarrow> string \<Rightarrow> nat option" where
  "rfind p [] = (if p = [] then Some 0 else None)"
| "rfind p (x # xs) =
     (case rfind p xs of
        Some i \<Rightarrow> Some (Suc i)
      | None \<Rightarrow> if prefix p (x # xs) then Some 0 else None)"

lemma rfind_append:
  assumes "rfind p (tl (p @ s)) = None" and "p \<noteq> []"
  shows "rfind p (b @ p @ s) = Some (length b)"
proof (induction b)
  case Nil
  from assms(2) obtain c cs where p: "p = c # cs" by (cases p) auto
  with assms(1) show ?case by auto
next
  case (Cons x b)
  then show ?case by simp
qed

lemma rfind_None: "rfind p s = None \<longleftrightarrow> \<not> sublist p s"
  by (induction s) (auto simp: sublist_Cons_right split: option.splits)

definition trim_end_byte :: "char \<Rightarrow> string \<Rightarrow> string" where
  "trim_end_byte c s = rev (dropWhile (\<lambda>x. x = c) (rev s))"

lemma trim_end_byte_snoc [simp]: "trim_end_byte c (s @ [c]) = trim_end_byte c s"
  by (simp add: trim_end_byte_def)

lemma trim_end_byte_Nil [simp]: "trim_end_byte c [] = []"
  by (simp add: trim_end_byte_def)

section \<open>ASCII case\<close>

definition ascii_lower :: "char \<Rightarrow> char" where
  "ascii_lower c =
     (let n = (of_char c :: nat) in if 65 \<le> n \<and> n \<le> 90 then char_of (n + 32) else c)"

definition to_ascii_lowercase :: "string \<Rightarrow> string" where
  "to_ascii_lowercase s = map ascii_lower s"

definition eq_ignore_ascii_case :: "string \<Rightarrow> string \<Rightarrow> bool" where
  "eq_ignore_ascii_case a b \<longleftrightarrow> to_ascii_lowercase a = to_ascii_lowercase b"

section \<open>Decimal numbers\<close>

definition digit_char :: "nat \<Rightarrow> char" where
  "digit_char d = char_of (48 + d)"

fun show_nat :: "nat \<Rightarrow> string" where
  "show_nat n = (if n < 10 then [digit_char n] else show_nat (n div 10) @ [digit_char (n mod 10)])"

declare show_nat.simps [simp del]

definition is_digit :: "char \<Rightarrow> bool" where
  "is_digit c \<longleftrightarrow> 48 \<le> (of_char c :: nat) \<and> (of_char c :: nat) \<le> 57"

definition digit_val :: "char \<Rightarrow> nat" where
  "digit_val c = of_char c - 48"

definition read_digits :: "string \<Rightarrow> nat" where
  "read_digits s = foldl (\<lambda>n c. 10 * n + digit_val c) 0 s"

text \<open>
  \<open>u32::from_str\<close> (and any other unsigned width): an optional plus sign, at least one
  digit, nothing else, and a value that fits.
\<close>

definition parse_unsigned :: "nat \<Rightarrow> string \<Rightarrow> nat option" where
  "parse_unsigned bound s =
     (let ds = (case s of c # cs \<Rightarrow> if c = CHR ''+'' then cs else s | [] \<Rightarrow> [])
      in if ds \<noteq> [] \<and> list_all is_digit ds \<and> read_digits ds < bound
         then Some (read_digits ds) else None)"

lemma of_char_digit: "d < 10 \<Longrightarrow> (of_char (digit_char d) :: nat) = 48 + d"
  by (simp add: digit_char_def)

lemma digit_val_char [simp]: "d < 10 \<Longrightarrow> digit_val (digit_char d) = d"
  by (simp add: digit_val_def of_char_digit)

lemma is_digit_char [simp]: "d < 10 \<Longrightarrow> is_digit (digit_char d)"
  by (simp add: is_digit_def of_char_digit)

lemma read_digits_snoc [simp]: "read_digits (s @ [c]) = 10 * read_digits s + digit_val c"
  by (simp add: read_digits_def)

lemma show_nat_digits: "list_all is_digit (show_nat n)"
proof (induction n rule: show_nat.induct)
  case (1 n)
  then show ?case by (cases "n < 10") (simp_all add: show_nat.simps [of n])
qed

lemma read_show_nat [simp]: "read_digits (show_nat n) = n"
proof (induction n rule: show_nat.induct)
  case (1 n)
  show ?case
  proof (cases "n < 10")
    case True
    then show ?thesis by (simp add: show_nat.simps [of n] read_digits_def)
  next
    case False
    with 1 show ?thesis by (simp add: show_nat.simps [of n])
  qed
qed

lemma show_nat_not_Nil [simp]: "show_nat n \<noteq> []"
  by (subst show_nat.simps) simp

lemma digit_not:
  "is_digit c \<Longrightarrow> c \<noteq> CHR '':''" "is_digit c \<Longrightarrow> c \<noteq> CHR ''+''"
  by (auto simp: is_digit_def)

lemma colon_notin_show_nat [simp]: "CHR '':'' \<notin> set (show_nat n)"
  using show_nat_digits [of n] digit_not(1) by (auto simp: list_all_iff)

lemma parse_show_nat: "n < bound \<Longrightarrow> parse_unsigned bound (show_nat n) = Some n"
proof -
  assume n: "n < bound"
  obtain c cs where s: "show_nat n = c # cs" by (cases "show_nat n") auto
  with show_nat_digits [of n] have d: "is_digit c" "list_all is_digit (c # cs)" by auto
  with digit_not(2) have "c \<noteq> CHR ''+''" by blast
  moreover have "read_digits (c # cs) = n" using read_show_nat [of n] by (simp add: s)
  ultimately show ?thesis using n d by (simp add: parse_unsigned_def s Let_def)
qed

lemma show_nat_inj: "show_nat m = show_nat n \<Longrightarrow> m = n"
  by (metis read_show_nat)

section \<open>Codecs for text segments\<close>

text \<open>
  Two parts of the program escape free text so that it can be joined with a separator
  and split again: the scopes of an intent and the fields of a global node id. What they
  need of the escape is a left inverse, and that its image is free of the separator.
\<close>

locale segment_codec =
  fixes enc :: "string \<Rightarrow> string" and dec :: "string \<Rightarrow> string"
  assumes dec_enc: "dec (enc s) = s"
begin

lemma enc_inj: "enc s = enc t \<longleftrightarrow> s = t"
  by (metis dec_enc)

lemma map_dec_enc: "map dec (map enc ss) = ss"
  by (simp add: map_idI dec_enc)

end

locale separated_codec = segment_codec +
  fixes sep :: char
  assumes sep_free: "sep \<notin> set (enc s)"
begin

lemma split_join_enc: "ss \<noteq> [] \<Longrightarrow> split_on sep (join [sep] (map enc ss)) = map enc ss"
  by (rule split_on_join) (auto simp: sep_free)

lemma decode_joined: "ss \<noteq> [] \<Longrightarrow> map dec (split_on sep (join [sep] (map enc ss))) = ss"
  using split_join_enc [of ss] map_dec_enc [of ss] by simp

lemma join_enc_inj:
  assumes "ss \<noteq> []" and "ts \<noteq> []"
    and "join [sep] (map enc ss) = join [sep] (map enc ts)"
  shows "ss = ts"
  using assms by (metis decode_joined)

end

end
