(* ===== verification/Contract_Model.thy ===== *)
theory Contract_Model
  imports Rust_Text
begin

text \<open>
  The contract vocabulary of \<^verbatim>\<open>src/src/server/federation/contracts/model.rs\<close>: the facts a
  sensor attaches to a graph node, the derived contract key with its wire form and its
  parser, and JSON paths with theirs; and the repository id of
  \<^verbatim>\<open>src/src/server/federation/repo_id.rs\<close> they are keyed by.
  A Rust \<open>Result\<close> is a sum, the error on the left; each formatted error message is one
  constructor of \<open>key_error\<close>.
\<close>

section \<open>Repository ids\<close>

datatype repo_id = RepoId (repo_str: string)

datatype id_error = InvalidRepoId string | InvalidGlobalId string

definition repo_id_new :: "string \<Rightarrow> id_error + repo_id" where
  "repo_id_new s =
     (if s = [] \<or> CHR '':'' \<in> set s \<or> CHR ''/'' \<in> set s then Inl (InvalidRepoId s)
      else Inr (RepoId s))"

definition repo_ok :: "repo_id \<Rightarrow> bool" where
  "repo_ok r \<longleftrightarrow> repo_id_new (repo_str r) = Inr r"

lemma repo_ok_iff: "repo_ok (RepoId s) \<longleftrightarrow> s \<noteq> [] \<and> CHR '':'' \<notin> set s \<and> CHR ''/'' \<notin> set s"
  by (simp add: repo_ok_def repo_id_new_def)

lemma repo_id_new_ok: "repo_id_new s = Inr r \<Longrightarrow> repo_ok r"
  by (auto simp: repo_ok_def repo_id_new_def split: if_splits)

section \<open>Facts\<close>

datatype http_method = Get | Post | Put | Patch | Delete | Head | Options | Any

datatype method_spec = Known http_method | Unknown

datatype provider_origin = Code | OpenApi

datatype rpc_system = Grpc

datatype graphql_op = GQuery | GMutation | GSubscription

datatype host_part = HostNone | HostLiteral string | HostEnv "string list" | HostExpr string

record normalized_url =
  nu_host :: host_part
  nu_template :: "string option"

record symbol_key =
  sk_repo :: repo_id
  sk_path :: string
  sk_container :: "string option"
  sk_name :: string

datatype contract_key =
    KHttp method_spec string
  | KTopic string string
  | KRpc rpc_system string string
  | KGraphql graphql_op string
  | KWebSocket string
  | KTable string

record provider_fact =
  pf_method :: http_method
  pf_template :: string
  pf_handler :: "symbol_key option"
  pf_operation_id :: "string option"
  pf_origin :: provider_origin

record rpc_provider_fact =
  rp_system :: rpc_system
  rp_service :: string
  rp_method :: string
  rp_request_type :: string
  rp_response_type :: string
  rp_handler :: "symbol_key option"

record rpc_consumer_fact =
  rc_system :: rpc_system
  rc_service :: string
  rc_method :: string
  rc_channel_target :: "string option"
  rc_channel_host_part :: host_part

datatype rpc_handler_origin = CppRegister | JavaGrpcService | GoRegister | PythonServicer

record rpc_handler_fact =
  rh_rpc_service :: contract_key
  rh_handler_function :: symbol_key
  rh_origin :: rpc_handler_origin

record graphql_provider_fact =
  gp_op :: graphql_op
  gp_field :: string
  gp_return_type :: string

record graphql_consumer_fact =
  gc_op :: graphql_op
  gc_field :: string

datatype graphql_handler_origin = Apollo | GraphqlJava | Gqlgen | Strawberry | Graphene

record graphql_handler_fact =
  gh_graphql_field :: contract_key
  gh_handler_function :: symbol_key
  gh_origin :: graphql_handler_origin

record websocket_provider_fact =
  wp_route :: string
  wp_handler :: "symbol_key option"

record websocket_consumer_fact =
  wc_url :: normalized_url
  wc_route :: string

record websocket_handler_fact =
  wh_route :: string
  wh_handler :: symbol_key

record client_site =
  cs_path :: string
  cs_line :: nat

record base_origin =
  bo_client :: string
  bo_module :: string
  bo_site :: client_site

datatype call_via = ViaLibrary string | ViaReceiver string string "base_origin option"

record consumer_fact =
  cf_method :: method_spec
  cf_url :: normalized_url
  cf_via :: call_via
  cf_url_expr :: string
  cf_reads_complete :: bool

datatype topic_consumer_kind = TSubscription | TScheduled

record topic_consumer_fact =
  tc_broker :: string
  tc_name :: string
  tc_kind :: topic_consumer_kind

datatype field_read_origin = FieldAccess | FieldGraphqlConsumer

datatype path_segment = Name string | ArrayItems | MapValues

type_synonym json_path = "path_segment list"

record field_read_fact =
  fr_chain :: json_path
  fr_exact :: bool
  fr_origin :: field_read_origin

record table_fact =
  tb_service :: string
  tb_name :: string

record table_consumer_fact =
  tf_tables :: "string list"

datatype type_desc = TString | TInteger | TNumber | TBoolean | TObject | TArray type_desc | TUnknown

record field_meta =
  fm_ty :: type_desc
  fm_required :: bool
  fm_nullable :: bool
  fm_enum_values :: "string list option"

datatype payload_direction = Request | Response | Payload

datatype entry_kind = HttpHandler | Scheduled | Cli | MainEntry

record source_site =
  ss_path :: string
  ss_line :: nat

datatype contract_fact =
    Provider provider_fact
  | Consumer consumer_fact
  | SchemaFact payload_direction
  | FieldFact field_meta
  | FieldRead field_read_fact
  | TopicConsumer topic_consumer_fact
  | TableFact table_fact
  | RpcProvider rpc_provider_fact
  | RpcConsumer rpc_consumer_fact
  | RpcHandler rpc_handler_fact
  | GraphqlProvider graphql_provider_fact
  | GraphqlConsumer graphql_consumer_fact
  | GraphqlHandler graphql_handler_fact
  | WebSocketProvider websocket_provider_fact
  | WebSocketConsumer websocket_consumer_fact
  | WebSocketHandler websocket_handler_fact
  | TableConsumer table_consumer_fact

definition consumer_keys :: "contract_fact \<Rightarrow> contract_key list" where
  "consumer_keys f =
     (case f of
        Consumer c \<Rightarrow>
          (case nu_template (cf_url c) of
             Some template \<Rightarrow> [KHttp (cf_method c) template]
           | None \<Rightarrow> [])
      | TopicConsumer t \<Rightarrow> [KTopic (tc_broker t) (tc_name t)]
      | RpcConsumer r \<Rightarrow> [KRpc (rc_system r) (rc_service r) (rc_method r)]
      | GraphqlConsumer g \<Rightarrow> [KGraphql (gc_op g) (gc_field g)]
      | WebSocketConsumer w \<Rightarrow> [KWebSocket (wc_route w)]
      | TableConsumer t \<Rightarrow> map KTable (tf_tables t)
      | _ \<Rightarrow> [])"

section \<open>Contract keys on the wire\<close>

datatype key_error =
    MalformedHttp string | UnknownMethod string
  | EmptyTopicPart string | AmbiguousTopic string | TopicPartCount string nat | MalformedTopic string
  | EmptyRpcPart string | AmbiguousRpc string | RpcPartCount string nat | UnknownRpcSystem string
  | MalformedRpc string
  | MalformedGraphql string | UnknownGraphqlOp string
  | EmptyWebsocketRoute string | EmptyWsRoute string | EmptyTableName string
  | UnknownKeyKind string

fun http_method_label :: "http_method \<Rightarrow> string" where
  "http_method_label Get = ''GET''"
| "http_method_label Post = ''POST''"
| "http_method_label Put = ''PUT''"
| "http_method_label Patch = ''PATCH''"
| "http_method_label Delete = ''DELETE''"
| "http_method_label Head = ''HEAD''"
| "http_method_label Options = ''OPTIONS''"
| "http_method_label Any = ''ANY''"

fun method_label :: "method_spec \<Rightarrow> string" where
  "method_label (Known m) = http_method_label m"
| "method_label Unknown = ''UNKNOWN''"

definition http_method_parse :: "string \<Rightarrow> http_method option" where
  "http_method_parse label =
     (if label = ''GET'' then Some Get
      else if label = ''POST'' then Some Post
      else if label = ''PUT'' then Some Put
      else if label = ''PATCH'' then Some Patch
      else if label = ''DELETE'' then Some Delete
      else if label = ''HEAD'' then Some Head
      else if label = ''OPTIONS'' then Some Options
      else if label = ''ANY'' then Some Any
      else None)"

definition parse_method_label :: "string \<Rightarrow> method_spec option" where
  "parse_method_label s =
     (if s = ''UNKNOWN'' then Some Unknown else map_option Known (http_method_parse s))"

fun graphql_op_str :: "graphql_op \<Rightarrow> string" where
  "graphql_op_str GQuery = ''query''"
| "graphql_op_str GMutation = ''mutation''"
| "graphql_op_str GSubscription = ''subscription''"

fun wire_form :: "contract_key \<Rightarrow> string" where
  "wire_form (KHttp method template) = ''http:'' @ method_label method @ '' '' @ template"
| "wire_form (KTopic broker name) = ''topic:'' @ broker @ ''/'' @ name"
| "wire_form (KRpc _ service method) = ''rpc:'' @ service @ ''/'' @ method"
| "wire_form (KGraphql op field) = ''graphql:'' @ graphql_op_str op @ '':'' @ field"
| "wire_form (KWebSocket route) = ''websocket:'' @ route"
| "wire_form (KTable name) = ''table:'' @ name"

fun key_leaf :: "contract_key \<Rightarrow> string" where
  "key_leaf (KHttp _ template) = template"
| "key_leaf (KTopic _ name) = name"
| "key_leaf (KRpc _ _ method) = method"
| "key_leaf (KGraphql _ field) = field"
| "key_leaf (KWebSocket route) = route"
| "key_leaf (KTable name) = name"

fun key_kind :: "contract_key \<Rightarrow> string" where
  "key_kind (KHttp _ _) = ''http''"
| "key_kind (KTopic _ _) = ''topic''"
| "key_kind (KRpc _ _ _) = ''rpc''"
| "key_kind (KGraphql _ _) = ''graphql''"
| "key_kind (KWebSocket _) = ''websocket''"
| "key_kind (KTable _) = ''table''"

fun is_self_service :: "contract_key \<Rightarrow> string \<Rightarrow> bool" where
  "is_self_service (KRpc _ service _) caller = (service = caller)"
| "is_self_service _ caller = False"

definition parse_topic_body :: "string \<Rightarrow> string \<Rightarrow> key_error + contract_key" where
  "parse_topic_body full body =
     (case split_once (CHR ''/'') body of
        Some (broker, name) \<Rightarrow>
          (if broker = [] \<or> name = [] then Inl (EmptyTopicPart full)
           else if CHR '':'' \<in> set broker then Inl (AmbiguousTopic full)
           else Inr (KTopic broker name))
      | None \<Rightarrow>
          (if CHR '':'' \<in> set body then
             (case split_on (CHR '':'') body of
                [broker, name] \<Rightarrow>
                  (if broker = [] \<or> name = [] then Inl (EmptyTopicPart full)
                   else Inr (KTopic broker name))
              | parts \<Rightarrow> Inl (TopicPartCount full (length parts)))
           else Inl (MalformedTopic full)))"

definition parse_rpc_body :: "string \<Rightarrow> string \<Rightarrow> key_error + contract_key" where
  "parse_rpc_body full body =
     (case split_once (CHR ''/'') body of
        Some (service, method) \<Rightarrow>
          (if service = [] \<or> method = [] then Inl (EmptyRpcPart full)
           else if CHR '':'' \<in> set service then Inl (AmbiguousRpc full)
           else Inr (KRpc Grpc service method))
      | None \<Rightarrow>
          (if CHR '':'' \<in> set body then
             (case split_on (CHR '':'') body of
                [system, service, method] \<Rightarrow>
                  (if system = [] \<or> service = [] \<or> method = [] then Inl (EmptyRpcPart full)
                   else if system = ''grpc'' then Inr (KRpc Grpc service method)
                   else Inl (UnknownRpcSystem system))
              | parts \<Rightarrow> Inl (RpcPartCount full (length parts)))
           else Inl (MalformedRpc full)))"

definition parse_http_body :: "string \<Rightarrow> string \<Rightarrow> key_error + contract_key" where
  "parse_http_body full rest =
     (case split_once (CHR '' '') rest of
        None \<Rightarrow> Inl (MalformedHttp full)
      | Some (method_str, template) \<Rightarrow>
          (case parse_method_label method_str of
             None \<Rightarrow> Inl (UnknownMethod method_str)
           | Some method \<Rightarrow> Inr (KHttp method template)))"

definition parse_graphql_body :: "string \<Rightarrow> string \<Rightarrow> key_error + contract_key" where
  "parse_graphql_body full rest =
     (case split_once (CHR '':'') rest of
        None \<Rightarrow> Inl (MalformedGraphql full)
      | Some (op_str, field) \<Rightarrow>
          (if op_str = ''query'' then Inr (KGraphql GQuery field)
           else if op_str = ''mutation'' then Inr (KGraphql GMutation field)
           else if op_str = ''subscription'' then Inr (KGraphql GSubscription field)
           else Inl (UnknownGraphqlOp op_str)))"

definition parse_key :: "string \<Rightarrow> key_error + contract_key" where
  "parse_key s =
     (case strip_prefix ''http:'' s of Some rest \<Rightarrow> parse_http_body s rest
      | None \<Rightarrow>
     (case strip_prefix ''topic:'' s of Some rest \<Rightarrow> parse_topic_body s rest
      | None \<Rightarrow>
     (case strip_prefix ''rpc:'' s of Some rest \<Rightarrow> parse_rpc_body s rest
      | None \<Rightarrow>
     (case strip_prefix ''graphql:'' s of Some rest \<Rightarrow> parse_graphql_body s rest
      | None \<Rightarrow>
     (case strip_prefix ''websocket:'' s of
        Some route \<Rightarrow> if route = [] then Inl (EmptyWebsocketRoute s) else Inr (KWebSocket route)
      | None \<Rightarrow>
     (case strip_prefix ''ws:'' s of
        Some route \<Rightarrow> if route = [] then Inl (EmptyWsRoute s) else Inr (KWebSocket route)
      | None \<Rightarrow>
     (case strip_prefix ''table:'' s of
        Some name \<Rightarrow> if name = [] then Inl (EmptyTableName s) else Inr (KTable name)
      | None \<Rightarrow> Inl (UnknownKeyKind s))))))))"

text \<open>
  The keys whose wire form names them: the parts the grammar needs are present, and the
  first component of a slash form is free of both separators.
\<close>

fun key_wire_ok :: "contract_key \<Rightarrow> bool" where
  "key_wire_ok (KHttp _ _) = True"
| "key_wire_ok (KTopic broker name) =
     (broker \<noteq> [] \<and> name \<noteq> [] \<and> CHR ''/'' \<notin> set broker \<and> CHR '':'' \<notin> set broker)"
| "key_wire_ok (KRpc _ service method) =
     (service \<noteq> [] \<and> method \<noteq> [] \<and> CHR ''/'' \<notin> set service \<and> CHR '':'' \<notin> set service)"
| "key_wire_ok (KGraphql _ _) = True"
| "key_wire_ok (KWebSocket route) = (route \<noteq> [])"
| "key_wire_ok (KTable name) = (name \<noteq> [])"

lemma parse_method_label_label [simp]: "parse_method_label (method_label m) = Some m"
proof (cases m)
  case (Known h)
  then show ?thesis by (cases h) (simp_all add: parse_method_label_def http_method_parse_def)
qed (simp add: parse_method_label_def)

lemma method_label_no_space [simp]: "CHR '' '' \<notin> set (method_label m)"
proof (cases m)
  case (Known h)
  then show ?thesis by (cases h) simp_all
qed simp

lemma graphql_op_no_colon [simp]: "CHR '':'' \<notin> set (graphql_op_str op)"
  by (cases op) simp_all

lemma parse_http_body_wire [simp]:
  "parse_http_body full (method_label m @ CHR '' '' # t) = Inr (KHttp m t)"
  by (simp add: parse_http_body_def)

lemma parse_graphql_body_wire [simp]:
  "parse_graphql_body full (graphql_op_str op @ CHR '':'' # f) = Inr (KGraphql op f)"
  by (cases op) (simp_all add: parse_graphql_body_def split_once_def)

lemma strip_prefix_Cons [simp]:
  "strip_prefix (a # p) (b # s) = (if a = b then strip_prefix p s else None)"
  "strip_prefix [] s = Some s"
  "strip_prefix (a # p) [] = None"
  by (auto simp: strip_prefix_def)

lemma parse_key_wire:
  assumes "key_wire_ok k"
  shows "parse_key (wire_form k) = Inr k"
proof (cases k)
  case (KRpc sys service mthd)
  with assms show ?thesis by (cases sys) (simp add: parse_key_def parse_rpc_body_def)
qed (use assms in \<open>simp_all add: parse_key_def parse_topic_body_def\<close>)

lemma parse_topic_body_ok:
  assumes "parse_topic_body full body = Inr k"
  shows "key_wire_ok k"
proof (cases "split_once (CHR ''/'') body")
  case None
  then have slash: "CHR ''/'' \<notin> set body" by simp
  from assms None obtain b n where ps: "split_on (CHR '':'') body = [b, n]"
    and k: "k = KTopic b n" "b \<noteq> []" "n \<noteq> []"
    by (auto simp: parse_topic_body_def split: if_splits list.splits)
  with slash split_on_piece_free [OF ps, of b] show ?thesis by auto
next
  case (Some bn)
  with assms split_once_Some [of "CHR ''/''" body] show ?thesis
    by (cases bn) (auto simp: parse_topic_body_def split: if_splits)
qed

lemma parse_rpc_body_ok:
  assumes "parse_rpc_body full body = Inr k"
  shows "key_wire_ok k"
proof (cases "split_once (CHR ''/'') body")
  case None
  then have slash: "CHR ''/'' \<notin> set body" by simp
  from assms None obtain y b n where ps: "split_on (CHR '':'') body = [y, b, n]"
    and k: "k = KRpc Grpc b n" "b \<noteq> []" "n \<noteq> []"
    by (auto simp: parse_rpc_body_def split: if_splits list.splits)
  with slash split_on_piece_free [OF ps, of b] show ?thesis by auto
next
  case (Some bn)
  with assms split_once_Some [of "CHR ''/''" body] show ?thesis
    by (cases bn) (auto simp: parse_rpc_body_def split: if_splits)
qed

lemma parse_http_body_ok: "parse_http_body full body = Inr k \<Longrightarrow> key_wire_ok k"
  by (auto simp: parse_http_body_def split: option.splits)

lemma parse_graphql_body_ok: "parse_graphql_body full body = Inr k \<Longrightarrow> key_wire_ok k"
  by (auto simp: parse_graphql_body_def split: option.splits if_splits)

lemmas parse_body_ok = parse_http_body_ok parse_topic_body_ok parse_rpc_body_ok parse_graphql_body_ok

lemma parse_key_ok: "parse_key s = Inr k \<Longrightarrow> key_wire_ok k"
  unfolding parse_key_def
  by (auto dest: parse_body_ok split: option.splits if_splits)

section \<open>JSON paths on the wire\<close>

text \<open>
  Every character the two routines look at is ASCII, so reading byte by byte is reading
  character by character: the bytes of a longer character all take the last branch.
\<close>

datatype path_error = TrailingEscape | UnescapedBracket | UnescapedBrace

definition path_special :: "char \<Rightarrow> bool" where
  "path_special c \<longleftrightarrow>
     c = CHR ''.'' \<or> c = CHR ''['' \<or> c = CHR '']'' \<or> c = CHR ''{'' \<or> c = CHR ''}'' \<or> c = CHR 0x5C"

definition escape_rest :: "string \<Rightarrow> string" where
  "escape_rest cs = concat (map (\<lambda>c. if path_special c then [CHR 0x5C, c] else [c]) cs)"

fun escape_name :: "string \<Rightarrow> string" where
  "escape_name [] = []"
| "escape_name (c # cs) =
     (if c = CHR ''$'' \<and> c # cs \<noteq> ''$query'' then [CHR 0x5C] else []) @ c # escape_rest cs"

fun show_segs :: "bool \<Rightarrow> json_path \<Rightarrow> string" where
  "show_segs first [] = []"
| "show_segs first (Name s # p) = (if first then [] else ''.'') @ escape_name s @ show_segs False p"
| "show_segs first (ArrayItems # p) = ''[]'' @ show_segs False p"
| "show_segs first (MapValues # p) = (if first then [] else ''.'') @ ''{}'' @ show_segs False p"

definition show_path :: "json_path \<Rightarrow> string" where
  "show_path p = show_segs True p"

definition flush_name :: "string \<Rightarrow> json_path \<Rightarrow> json_path" where
  "flush_name current segments = (if current = [] then segments else segments @ [Name current])"

fun scan_path :: "string \<Rightarrow> string \<Rightarrow> json_path \<Rightarrow> path_error + json_path" where
  "scan_path [] current segments = Inr (flush_name current segments)"
| "scan_path (c # cs) current segments =
     (if c = CHR 0x5C then
        (case cs of [] \<Rightarrow> Inl TrailingEscape
         | esc # cs' \<Rightarrow> scan_path cs' (current @ [esc]) segments)
      else if c = CHR ''.'' then scan_path cs [] (flush_name current segments)
      else if c = CHR ''['' then
        (case cs of [] \<Rightarrow> scan_path cs (current @ [c]) segments
         | d # cs' \<Rightarrow>
             if d = CHR '']'' then scan_path cs' [] (flush_name current segments @ [ArrayItems])
             else scan_path cs (current @ [c]) segments)
      else if c = CHR '']'' then Inl UnescapedBracket
      else if c = CHR ''{'' then
        (case cs of [] \<Rightarrow> scan_path cs (current @ [c]) segments
         | d # cs' \<Rightarrow>
             if d = CHR ''}'' then scan_path cs' [] (flush_name current segments @ [MapValues])
             else scan_path cs (current @ [c]) segments)
      else if c = CHR ''}'' then Inl UnescapedBrace
      else scan_path cs (current @ [c]) segments)"

definition parse_path :: "string \<Rightarrow> path_error + json_path" where
  "parse_path s = (if s = [] then Inr [] else scan_path s [] [])"

text \<open>
  The names the printed form keeps apart: not empty, and not beginning with one of the
  four characters the parser gives a meaning that \<open>escape_name\<close> leaves bare in first
  position.
\<close>

fun segment_ok :: "path_segment \<Rightarrow> bool" where
  "segment_ok (Name []) = False"
| "segment_ok (Name (c # cs)) =
     (c \<noteq> CHR ''.'' \<and> c \<noteq> CHR '']'' \<and> c \<noteq> CHR ''}'' \<and> c \<noteq> CHR 0x5C)"
| "segment_ok _ = True"

definition path_ok :: "json_path \<Rightarrow> bool" where
  "path_ok p = list_all segment_ok p"

lemma hd_escape_rest:
  "escape_rest cs @ rest = d # u \<Longrightarrow> cs \<noteq> [] \<Longrightarrow> d \<noteq> CHR '']'' \<and> d \<noteq> CHR ''}''"
  by (cases cs) (auto simp: escape_rest_def path_special_def split: if_splits)

declare scan_path.simps [simp del]

lemma scan_first:
  assumes "c \<noteq> CHR ''.''" "c \<noteq> CHR '']''" "c \<noteq> CHR ''}''" "c \<noteq> CHR 0x5C"
    and "\<And>d u. t = d # u \<Longrightarrow> d \<noteq> CHR '']'' \<and> d \<noteq> CHR ''}''"
  shows "scan_path (c # t) current segs = scan_path t (current @ [c]) segs"
  using assms by (subst scan_path.simps) (auto split: list.split)

lemma scan_escaped: "scan_path (CHR 0x5C # c # t) current segs = scan_path t (current @ [c]) segs"
  by (subst scan_path.simps) simp

lemma scan_dot: "scan_path (CHR ''.'' # t) current segs = scan_path t [] (flush_name current segs)"
  by (subst scan_path.simps) simp

lemma scan_array:
  "scan_path (CHR ''['' # CHR '']'' # t) current segs
     = scan_path t [] (flush_name current segs @ [ArrayItems])"
  by (subst scan_path.simps) simp

lemma scan_map:
  "scan_path (CHR ''{'' # CHR ''}'' # t) current segs
     = scan_path t [] (flush_name current segs @ [MapValues])"
  by (subst scan_path.simps) simp

lemma scan_Nil: "scan_path [] current segs = Inr (flush_name current segs)"
  by (simp add: scan_path.simps)

lemmas scan_steps = scan_escaped scan_dot scan_array scan_map scan_Nil

lemma scan_escape_rest [simp]:
  "scan_path (escape_rest cs @ rest) current segs = scan_path rest (current @ cs) segs"
proof (induction cs arbitrary: current)
  case (Cons c cs)
  show ?case
  proof (cases "path_special c")
    case True
    with Cons show ?thesis by (simp add: escape_rest_def scan_escaped)
  next
    case False
    then have "scan_path (c # t) current segs = scan_path t (current @ [c]) segs" for t
      by (subst scan_path.simps) (auto simp: path_special_def split: list.split)
    with False Cons show ?thesis by (simp add: escape_rest_def)
  qed
qed (simp add: escape_rest_def)

lemma scan_escape_name:
  assumes ok: "segment_ok (Name s)"
    and rest: "rest = [] \<or> hd rest = CHR ''.'' \<or> hd rest = CHR ''[''"
  shows "scan_path (escape_name s @ rest) [] segs = scan_path rest s segs"
proof -
  from ok obtain c cs where s: "s = c # cs" by (cases s) auto
  have tail: "d \<noteq> CHR '']'' \<and> d \<noteq> CHR ''}''" if "escape_rest cs @ rest = d # u" for d u
    using rest hd_escape_rest [OF that] that by (cases cs) (auto simp: escape_rest_def)
  from ok s have "scan_path (c # escape_rest cs @ rest) [] segs = scan_path rest (c # cs) segs"
    by (subst scan_first) (auto dest: tail)
  then show ?thesis by (simp add: s scan_escaped)
qed

lemma show_segs_hd:
  "show_segs False p = [] \<or> hd (show_segs False p) = CHR ''.'' \<or> hd (show_segs False p) = CHR ''[''"
  by (cases "(False, p)" rule: show_segs.cases) simp_all

lemma scan_show_segs:
  "path_ok p \<Longrightarrow> scan_path (show_segs False p) current segs = Inr (flush_name current segs @ p)"
proof (induction p arbitrary: current segs)
  case (Cons seg p)
  then have ok: "segment_ok seg" and p: "path_ok p" by (simp_all add: path_ok_def)
  show ?case
  proof (cases seg)
    case (Name s)
    with ok have "s \<noteq> []" by auto
    with Name ok Cons.IH [OF p] scan_escape_name [OF _ show_segs_hd] show ?thesis
      by (simp add: flush_name_def scan_steps)
  qed (use Cons.IH [OF p] in \<open>simp_all add: flush_name_def scan_steps\<close>)
qed (simp add: scan_steps)

lemma show_path_nonempty: "path_ok p \<Longrightarrow> p \<noteq> [] \<Longrightarrow> show_path p \<noteq> []"
  unfolding show_path_def path_ok_def
  by (cases "(True, p)" rule: show_segs.cases) (auto elim: segment_ok.elims)

lemma parse_show_path_ok:
  assumes "path_ok p"
  shows "parse_path (show_path p) = Inr p"
proof (cases p)
  case Nil
  then show ?thesis by (simp add: parse_path_def show_path_def)
next
  case (Cons seg q)
  with assms have ok: "segment_ok seg" and q: "path_ok q" by (simp_all add: path_ok_def)
  have "scan_path (show_path p) [] [] = Inr p"
  proof (cases seg)
    case (Name s)
    with ok have "s \<noteq> []" by auto
    with Name ok scan_escape_name [OF _ show_segs_hd] show ?thesis
      by (simp add: show_path_def Cons scan_show_segs [OF q] flush_name_def)
  qed (simp_all add: show_path_def Cons scan_show_segs [OF q] flush_name_def scan_steps)
  with show_path_nonempty [OF assms] Cons show ?thesis by (simp add: parse_path_def)
qed

section \<open>Service names\<close>

definition is_lower_or_digit :: "char \<Rightarrow> bool" where
  "is_lower_or_digit c \<longleftrightarrow> (97 \<le> (of_char c :: nat) \<and> (of_char c :: nat) \<le> 122) \<or> is_digit c"

fun service_name_is_valid :: "string \<Rightarrow> bool" where
  "service_name_is_valid [] = False"
| "service_name_is_valid (c # cs) =
     (is_lower_or_digit c
      \<and> list_all (\<lambda>c. is_lower_or_digit c \<or> c = CHR ''_'' \<or> c = CHR ''-'') cs)"

lemma service_name_wire_ok:
  assumes "service_name_is_valid s" and "method \<noteq> []"
  shows "key_wire_ok (KRpc Grpc s method)"
proof -
  from assms(1) obtain c cs where s: "s = c # cs" by (cases s) auto
  have plain: "x \<noteq> CHR '':'' \<and> x \<noteq> CHR ''/''" if "is_lower_or_digit x" for x
    using that by (auto simp: is_lower_or_digit_def is_digit_def)
  with assms s show ?thesis by (auto simp: list_all_iff)
qed

end
