(* ===== verification/Schema.thy ===== *)
theory Schema
  imports Contract_Model Complex_Main
begin

text \<open>
  The graph's vocabulary, \<^verbatim>\<open>src/src/server/schema.rs\<close>: node and edge types with their
  capability tables, nodes, edges and provenance, and the construction of node ids.
  \<open>f32\<close> and \<open>f64\<close> values are rationals: no operation below depends on rounding. A UUID is
  its hyphenated text, and \<open>Uuid::new_v5\<close> (third-party) is a parameter \<open>v5\<close>.
\<close>

section \<open>Node types\<close>

datatype node_type =
      NT_File | NT_Namespace | NT_Module | NT_Package | NT_Class | NT_Interface | NT_Struct
    | NT_Enum | NT_Trait | NT_Function | NT_Method | NT_Property | NT_Variable | NT_Constant
    | NT_HttpRoute | NT_Topic | NT_Resource | NT_Schema | NT_HttpClientCall | NT_Field
    | NT_FieldRef | NT_Synthetic | NT_Table

definition all_node_types :: "node_type list" where
  "all_node_types =
     [NT_File, NT_Namespace, NT_Module, NT_Package, NT_Class, NT_Interface, NT_Struct,
     NT_Enum, NT_Trait, NT_Function, NT_Method, NT_Property, NT_Variable, NT_Constant,
     NT_HttpRoute, NT_Topic, NT_Resource, NT_Schema, NT_HttpClientCall, NT_Field, NT_FieldRef,
     NT_Synthetic, NT_Table]"

fun node_type_name :: "node_type \<Rightarrow> string" where
  "node_type_name NT_File = ''File''"
| "node_type_name NT_Namespace = ''Namespace''"
| "node_type_name NT_Module = ''Module''"
| "node_type_name NT_Package = ''Package''"
| "node_type_name NT_Class = ''Class''"
| "node_type_name NT_Interface = ''Interface''"
| "node_type_name NT_Struct = ''Struct''"
| "node_type_name NT_Enum = ''Enum''"
| "node_type_name NT_Trait = ''Trait''"
| "node_type_name NT_Function = ''Function''"
| "node_type_name NT_Method = ''Method''"
| "node_type_name NT_Property = ''Property''"
| "node_type_name NT_Variable = ''Variable''"
| "node_type_name NT_Constant = ''Constant''"
| "node_type_name NT_HttpRoute = ''HttpRoute''"
| "node_type_name NT_Topic = ''Topic''"
| "node_type_name NT_Resource = ''Resource''"
| "node_type_name NT_Schema = ''Schema''"
| "node_type_name NT_HttpClientCall = ''HttpClientCall''"
| "node_type_name NT_Field = ''Field''"
| "node_type_name NT_FieldRef = ''FieldRef''"
| "node_type_name NT_Synthetic = ''Synthetic''"
| "node_type_name NT_Table = ''Table''"

fun node_type_is_indexed :: "node_type \<Rightarrow> bool" where
  "node_type_is_indexed NT_Resource = False"
| "node_type_is_indexed _ = True"

fun node_type_properties :: "node_type \<Rightarrow> string list" where
  "node_type_properties NT_File = [''path'', ''language'']"
| "node_type_properties NT_Function = [''name'', ''path'', ''signature'']"
| "node_type_properties NT_Method = [''name'', ''path'', ''signature'']"
| "node_type_properties _ = [''name'', ''path'']"

fun node_type_labels :: "node_type \<Rightarrow> string list" where
  "node_type_labels NT_File = []"
| "node_type_labels NT_Function = [''test'', ''deprecated'']"
| "node_type_labels NT_Method = [''test'', ''deprecated'']"
| "node_type_labels NT_Class = [''test'', ''deprecated'']"
| "node_type_labels NT_Struct = [''test'', ''deprecated'']"
| "node_type_labels NT_Enum = [''test'', ''deprecated'']"
| "node_type_labels NT_Trait = [''test'', ''deprecated'']"
| "node_type_labels _ = []"

definition is_type_level_target :: "node_type \<Rightarrow> bool" where
  "is_type_level_target t \<longleftrightarrow>
     t \<in> set [NT_Struct, NT_Enum, NT_Trait, NT_Class, NT_Interface]"

lemma all_node_types_complete [simp]: "t \<in> set all_node_types"
  by (cases t) (simp_all add: all_node_types_def)

lemma distinct_node_type_names: "distinct (map node_type_name all_node_types)"
  by (simp add: all_node_types_def)

lemma node_type_name_inj [simp]: "node_type_name s = node_type_name t \<longleftrightarrow> s = t"
  using distinct_node_type_names all_node_types_complete [of s] all_node_types_complete [of t]
  by (auto simp: distinct_map inj_on_def)

lemma node_type_name_no_colon [simp]: "CHR '':'' \<notin> set (node_type_name t)"
  by (cases t) simp_all

section \<open>Edge types\<close>

datatype edge_type =
      ET_Contains | ET_Calls | ET_Uses | ET_Implements | ET_Imports | ET_CoChangedWith
    | ET_Pattern | ET_CallsHttp | ET_Produces | ET_Consumes | ET_DeployedTo
    | ET_CrossRepoSameSymbol | ET_DynamicDispatch | ET_BusTopic | ET_RouteMatches
    | ET_RuntimeCall | ET_SendsHttp | ET_RequestSchema | ET_ResponseSchema | ET_PayloadSchema
    | ET_HasField | ET_ReadsField | ET_ReadsFrom | ET_Binds | ET_ReadsTable | ET_WritesTable
    | ET_CallsGraphql

definition all_edge_types :: "edge_type list" where
  "all_edge_types =
     [ET_Contains, ET_Calls, ET_Uses, ET_Implements, ET_Imports, ET_CoChangedWith, ET_Pattern,
     ET_CallsHttp, ET_Produces, ET_Consumes, ET_DeployedTo, ET_CrossRepoSameSymbol,
     ET_DynamicDispatch, ET_BusTopic, ET_RouteMatches, ET_RuntimeCall, ET_SendsHttp,
     ET_RequestSchema, ET_ResponseSchema, ET_PayloadSchema, ET_HasField, ET_ReadsField,
     ET_ReadsFrom, ET_Binds, ET_ReadsTable, ET_WritesTable, ET_CallsGraphql]"

fun edge_type_name :: "edge_type \<Rightarrow> string" where
  "edge_type_name ET_Contains = ''Contains''"
| "edge_type_name ET_Calls = ''Calls''"
| "edge_type_name ET_Uses = ''Uses''"
| "edge_type_name ET_Implements = ''Implements''"
| "edge_type_name ET_Imports = ''Imports''"
| "edge_type_name ET_CoChangedWith = ''CoChangedWith''"
| "edge_type_name ET_Pattern = ''Pattern''"
| "edge_type_name ET_CallsHttp = ''CallsHttp''"
| "edge_type_name ET_Produces = ''Produces''"
| "edge_type_name ET_Consumes = ''Consumes''"
| "edge_type_name ET_DeployedTo = ''DeployedTo''"
| "edge_type_name ET_CrossRepoSameSymbol = ''CrossRepoSameSymbol''"
| "edge_type_name ET_DynamicDispatch = ''DynamicDispatch''"
| "edge_type_name ET_BusTopic = ''BusTopic''"
| "edge_type_name ET_RouteMatches = ''RouteMatches''"
| "edge_type_name ET_RuntimeCall = ''RuntimeCall''"
| "edge_type_name ET_SendsHttp = ''SendsHttp''"
| "edge_type_name ET_RequestSchema = ''RequestSchema''"
| "edge_type_name ET_ResponseSchema = ''ResponseSchema''"
| "edge_type_name ET_PayloadSchema = ''PayloadSchema''"
| "edge_type_name ET_HasField = ''HasField''"
| "edge_type_name ET_ReadsField = ''ReadsField''"
| "edge_type_name ET_ReadsFrom = ''ReadsFrom''"
| "edge_type_name ET_Binds = ''Binds''"
| "edge_type_name ET_ReadsTable = ''ReadsTable''"
| "edge_type_name ET_WritesTable = ''WritesTable''"
| "edge_type_name ET_CallsGraphql = ''CallsGraphql''"

fun edge_type_is_indexed :: "edge_type \<Rightarrow> bool" where
  "edge_type_is_indexed ET_Imports = False"
| "edge_type_is_indexed ET_DeployedTo = False"
| "edge_type_is_indexed _ = True"

fun edge_source_types :: "edge_type \<Rightarrow> node_type list" where
  "edge_source_types ET_Contains = [NT_File, NT_Module, NT_Namespace]"
| "edge_source_types ET_Calls = [NT_Function, NT_Method]"
| "edge_source_types ET_Uses = [NT_Function, NT_Method]"
| "edge_source_types ET_Implements = [NT_Class, NT_Struct]"
| "edge_source_types ET_Imports = [NT_File]"
| "edge_source_types ET_Pattern = [NT_File]"
| "edge_source_types ET_CoChangedWith = [NT_File]"
| "edge_source_types ET_CallsHttp = [NT_HttpRoute]"
| "edge_source_types ET_CallsGraphql = [NT_Module]"
| "edge_source_types ET_Produces = [NT_Function, NT_Method]"
| "edge_source_types ET_Consumes = [NT_Function, NT_Method]"
| "edge_source_types ET_DeployedTo = [NT_Resource]"
| "edge_source_types ET_CrossRepoSameSymbol = [NT_Function, NT_Method]"
| "edge_source_types ET_DynamicDispatch = [NT_Function, NT_Method, NT_File, NT_Module]"
| "edge_source_types ET_BusTopic = [NT_Function, NT_Method, NT_File, NT_Module]"
| "edge_source_types ET_RouteMatches = [NT_HttpRoute]"
| "edge_source_types ET_RuntimeCall = [NT_Function, NT_Method]"
| "edge_source_types ET_SendsHttp = [NT_Function, NT_Method, NT_File, NT_Module]"
| "edge_source_types ET_RequestSchema = [NT_HttpRoute, NT_Module]"
| "edge_source_types ET_ResponseSchema = [NT_HttpRoute, NT_Module]"
| "edge_source_types ET_PayloadSchema = [NT_Topic]"
| "edge_source_types ET_HasField = [NT_Schema]"
| "edge_source_types ET_ReadsField = [NT_Function, NT_Method]"
| "edge_source_types ET_ReadsFrom = [NT_FieldRef]"
| "edge_source_types ET_Binds = [NT_HttpClientCall, NT_FieldRef, NT_Topic]"
| "edge_source_types ET_ReadsTable = [NT_Function, NT_Method, NT_File, NT_Module]"
| "edge_source_types ET_WritesTable = [NT_Function, NT_Method, NT_File, NT_Module]"

fun edge_target_types :: "edge_type \<Rightarrow> node_type list" where
  "edge_target_types ET_Contains =
     [NT_Function, NT_Method, NT_Class, NT_Struct, NT_Enum, NT_Trait]"
| "edge_target_types ET_Calls = [NT_Function, NT_Method]"
| "edge_target_types ET_Uses = [NT_Class, NT_Struct, NT_Enum, NT_Variable, NT_Constant]"
| "edge_target_types ET_Implements = [NT_Interface, NT_Trait]"
| "edge_target_types ET_Imports = [NT_File]"
| "edge_target_types ET_CoChangedWith = [NT_File]"
| "edge_target_types ET_Pattern = [NT_File]"
| "edge_target_types ET_CallsHttp = [NT_Function, NT_Method]"
| "edge_target_types ET_CallsGraphql = [NT_Function, NT_Method]"
| "edge_target_types ET_Produces = [NT_Topic]"
| "edge_target_types ET_Consumes = [NT_Topic]"
| "edge_target_types ET_DeployedTo = [NT_Resource]"
| "edge_target_types ET_CrossRepoSameSymbol = [NT_Function, NT_Method]"
| "edge_target_types ET_DynamicDispatch = [NT_Function, NT_Method]"
| "edge_target_types ET_BusTopic = [NT_Topic, NT_Function, NT_Method]"
| "edge_target_types ET_RouteMatches = [NT_Function, NT_Method]"
| "edge_target_types ET_RuntimeCall = [NT_Function, NT_Method]"
| "edge_target_types ET_SendsHttp = [NT_HttpClientCall]"
| "edge_target_types ET_RequestSchema = [NT_Schema]"
| "edge_target_types ET_ResponseSchema = [NT_Schema]"
| "edge_target_types ET_PayloadSchema = [NT_Schema]"
| "edge_target_types ET_HasField = [NT_Field]"
| "edge_target_types ET_ReadsField = [NT_FieldRef]"
| "edge_target_types ET_ReadsFrom = [NT_HttpClientCall, NT_Function, NT_Method]"
| "edge_target_types ET_Binds = [NT_HttpRoute, NT_Field, NT_Topic]"
| "edge_target_types ET_ReadsTable = [NT_Table]"
| "edge_target_types ET_WritesTable = [NT_Table]"

lemma all_edge_types_complete [simp]: "e \<in> set all_edge_types"
  by (cases e) (simp_all add: all_edge_types_def)

lemma distinct_edge_type_names: "distinct (map edge_type_name all_edge_types)"
  by (simp add: all_edge_types_def)

lemma edge_type_name_inj [simp]: "edge_type_name d = edge_type_name e \<longleftrightarrow> d = e"
  using distinct_edge_type_names all_edge_types_complete [of d] all_edge_types_complete [of e]
  by (auto simp: distinct_map inj_on_def)

section \<open>Nodes and edges\<close>

type_synonym f32 = rat

datatype static_source = TreeSitter | Lsp | Regex

datatype edge_provenance =
    Static static_source
  | Heuristic string f32
  | Runtime string int
  | Confirmed string

datatype route_match = RM_Exact | RM_Pattern | RM_PrefixStripped

record edge_detail =
  ed_route_match :: "route_match option"
  ed_stripped_prefix :: "string option"

record graph_node =
  gn_id :: string
  gn_type :: node_type
  gn_name :: string
  gn_path :: string
  gn_line_start :: "nat option"
  gn_line_end :: "nat option"
  gn_signature :: "string option"
  gn_docstring :: "string option"
  gn_embedding :: "string option"
  gn_fan_in :: "nat option"
  gn_fan_out :: "nat option"
  gn_calls_in :: "nat option"
  gn_calls_out :: "nat option"
  gn_anchor_score :: "f32 option"
  gn_depth_from_main :: "nat option"
  gn_co_change_count :: "nat option"
  gn_is_deprecated :: bool
  gn_label :: "string option"
  gn_container :: "string option"
  gn_last_lsp_sync :: "int option"
  gn_last_git_sync :: "int option"
  gn_commit_hash :: "string option"
  gn_is_hydrated :: bool
  gn_repo_id :: "string option"
  gn_contract :: "contract_fact list"
  gn_entry :: "entry_kind option"

record graph_edge =
  ge_type :: edge_type
  ge_source_id :: string
  ge_target_id :: string
  ge_weight :: "f32 option"
  ge_cross_repo :: bool
  ge_provenance :: "edge_provenance option"
  ge_site :: "source_site option"
  ge_detail :: "edge_detail option"

section \<open>Node identity\<close>

text \<open>
  The text a node id is the version-5 UUID of: the namespace, the type, the path, the
  name and, for nodes with a location, the first line.
\<close>

definition id_input :: "string \<Rightarrow> node_type \<Rightarrow> string \<Rightarrow> string \<Rightarrow> nat option \<Rightarrow> string" where
  "id_input namespace t path name line_start =
     (case line_start of
        Some line \<Rightarrow> join '':'' [namespace, node_type_name t, path, name, show_nat line]
      | None \<Rightarrow> join '':'' [namespace, node_type_name t, path, name])"

definition generate_id ::
    "(string \<Rightarrow> string \<Rightarrow> string) \<Rightarrow> node_type \<Rightarrow> string \<Rightarrow> string \<Rightarrow> nat option \<Rightarrow> string \<Rightarrow> string" where
  "generate_id v5 t path name line_start namespace =
     v5 namespace (id_input namespace t path name line_start)"

definition node_new_in ::
    "(string \<Rightarrow> string \<Rightarrow> string) \<Rightarrow> node_type \<Rightarrow> string \<Rightarrow> string \<Rightarrow> string \<Rightarrow> graph_node" where
  "node_new_in v5 t name path namespace =
     \<lparr>gn_id = generate_id v5 t path name None namespace, gn_type = t, gn_name = name,
      gn_path = path, gn_line_start = None, gn_line_end = None, gn_signature = None,
      gn_docstring = None, gn_embedding = None, gn_fan_in = None, gn_fan_out = None,
      gn_calls_in = None, gn_calls_out = None, gn_anchor_score = None,
      gn_depth_from_main = None, gn_co_change_count = None, gn_is_deprecated = False,
      gn_label = None, gn_container = None, gn_last_lsp_sync = None,
      gn_last_git_sync = None, gn_commit_hash = None, gn_is_hydrated = True,
      gn_repo_id = None, gn_contract = [], gn_entry = None\<rparr>"

definition with_location_in ::
    "(string \<Rightarrow> string \<Rightarrow> string) \<Rightarrow> graph_node \<Rightarrow> nat \<Rightarrow> nat \<Rightarrow> string \<Rightarrow> graph_node" where
  "with_location_in v5 n line_start line_end namespace =
     n\<lparr>gn_line_start := Some line_start, gn_line_end := Some line_end,
       gn_id := generate_id v5 (gn_type n) (gn_path n) (gn_name n) (Some line_start) namespace\<rparr>"

definition query_label :: "graph_node \<Rightarrow> string option" where
  "query_label n = (if gn_is_deprecated n then Some ''deprecated'' else gn_label n)"

definition edge_new :: "edge_type \<Rightarrow> string \<Rightarrow> string \<Rightarrow> graph_edge" where
  "edge_new t source target =
     \<lparr>ge_type = t, ge_source_id = source, ge_target_id = target, ge_weight = None,
      ge_cross_repo = False, ge_provenance = Some (Static TreeSitter), ge_site = None,
      ge_detail = None\<rparr>"

definition edge_new_heuristic ::
    "edge_type \<Rightarrow> string \<Rightarrow> string \<Rightarrow> string \<Rightarrow> f32 \<Rightarrow> graph_edge" where
  "edge_new_heuristic t source target detector confidence =
     \<lparr>ge_type = t, ge_source_id = source, ge_target_id = target, ge_weight = Some confidence,
      ge_cross_repo = False, ge_provenance = Some (Heuristic detector confidence),
      ge_site = None, ge_detail = None\<rparr>"

lemma id_input_inj:
  assumes "id_input ns t p n l = id_input ns' t' p' n' l'"
    and free: "CHR '':'' \<notin> set ns" "CHR '':'' \<notin> set ns'" "CHR '':'' \<notin> set p"
      "CHR '':'' \<notin> set p'" "CHR '':'' \<notin> set n" "CHR '':'' \<notin> set n'"
  shows "ns = ns' \<and> t = t' \<and> p = p' \<and> n = n' \<and> l = l'"
proof -
  define parts where "parts ns t p n l =
      [ns, node_type_name t, p, n] @ (case l of None \<Rightarrow> [] | Some k \<Rightarrow> [show_nat k])"
    for ns t p n and l :: "nat option"
  have split: "split_on (CHR '':'') (id_input ns t p n l) = parts ns t p n l"
    if "CHR '':'' \<notin> set ns" "CHR '':'' \<notin> set p" "CHR '':'' \<notin> set n" for ns t p n l
  proof -
    have "id_input ns t p n l = join '':'' (parts ns t p n l)"
      by (cases l) (simp_all add: id_input_def parts_def)
    moreover have "\<forall>q \<in> set (parts ns t p n l). CHR '':'' \<notin> set q"
      using that by (cases l) (auto simp: parts_def)
    moreover have "parts ns t p n l \<noteq> []" by (simp add: parts_def)
    ultimately show ?thesis using split_on_join by metis
  qed
  from assms have "parts ns t p n l = parts ns' t' p' n' l'"
    using split [of ns p n t l] split [of ns' p' n' t' l'] by simp
  then show ?thesis by (cases l; cases l') (auto simp: parts_def dest: show_nat_inj)
qed

text \<open>Without the colon condition two different symbols share an id.\<close>

lemma id_input_ambiguous:
  "id_input ns t p ''f:7'' None = id_input ns t p ''f'' (Some 7)"
  by (simp add: id_input_def) code_simp

end
