(* ===== verification/Sensor_Owner.thy ===== *)
theory Sensor_Owner
  imports Schema
begin

text \<open>
  Which sensor owns a node: \<open>sensor_owner_of\<close> and \<open>derive_owner\<close> of
  \<^verbatim>\<open>src/src/server/graph/mod.rs\<close>, with the name prefixes of
  \<^verbatim>\<open>src/src/server/sensors/util.rs\<close>. Ownership decides what a rescan by a sensor deletes.
  The arms of the source's \<open>match\<close> are tried in order, so the model is a chain of
  conditionals in the same order; the debug-only assertion is the release build's
  \<open>None\<close>.
\<close>

datatype sensor_owner =
    HttpSensor | OpenApiSensor | HttpClientSensor | FieldAccessSensor | EntryPointSensor
  | EventSensor | SqlSensor | DjangoOrmSensor | ProtoSensor | GraphqlSensor
  | GrpcProviderSensor | GrpcConsumerSensor | GrpcHandlerLinkSensor
  | GraphqlProviderSensor | GraphqlConsumerSensor | GraphqlResolverLinkSensor
  | WebSocketSensor

definition sql_read_prefix :: string where "sql_read_prefix = ''sql-read:''"
definition orm_read_prefix :: string where "orm_read_prefix = ''orm-read:''"
definition django_table_mark :: string where "django_table_mark = ''orm:django''"
definition topic_read_prefix :: string where "topic_read_prefix = ''topic-read:''"
definition rust_rpc_prefix :: string where "rust_rpc_prefix = ''rpc-call:rust:''"

fun is_table :: "contract_fact option \<Rightarrow> bool" where
  "is_table (Some (TableFact _)) = True"
| "is_table _ = False"

fun is_table_consumer :: "contract_fact option \<Rightarrow> bool" where
  "is_table_consumer (Some (TableConsumer _)) = True"
| "is_table_consumer _ = False"

fun is_field :: "contract_fact option \<Rightarrow> bool" where
  "is_field (Some (FieldFact _)) = True"
| "is_field _ = False"

fun is_schema_fact :: "contract_fact option \<Rightarrow> bool" where
  "is_schema_fact (Some (SchemaFact _)) = True"
| "is_schema_fact _ = False"

text \<open>The schema and field arms: the file's extension says which sensor minted it.\<close>

definition schema_file_owner :: "string \<Rightarrow> sensor_owner" where
  "schema_file_owner path =
     (if ends_with ''.proto'' path then GrpcProviderSensor
      else if ends_with ''.graphql'' path \<or> ends_with ''.gql'' path then GraphqlProviderSensor
      else if ends_with ''.avsc'' path \<or> ends_with ''.schema.json'' path then EventSensor
      else OpenApiSensor)"

text \<open>The arms from RpcProvider on that look at the fact first.\<close>

definition late_owner :: "graph_node \<Rightarrow> contract_fact option \<Rightarrow> sensor_owner option" where
  "late_owner node cf =
     (case cf of
        Some (RpcConsumer _) \<Rightarrow> Some GrpcConsumerSensor
      | Some (GraphqlProvider _) \<Rightarrow> Some GraphqlProviderSensor
      | Some (GraphqlHandler _) \<Rightarrow> Some GraphqlResolverLinkSensor
      | Some (GraphqlConsumer _) \<Rightarrow> Some GraphqlConsumerSensor
      | Some (WebSocketProvider _) \<Rightarrow> Some WebSocketSensor
      | Some (WebSocketHandler _) \<Rightarrow> Some WebSocketSensor
      | Some (WebSocketConsumer _) \<Rightarrow> Some WebSocketSensor
      | _ \<Rightarrow>
        if gn_type node = NT_FieldRef
           \<and> (case cf of Some (FieldRead r) \<Rightarrow> fr_origin r = FieldGraphqlConsumer | _ \<Rightarrow> False)
        then Some GraphqlConsumerSensor
        else if gn_type node = NT_Module \<and> cf = None \<and> ends_with ''.proto'' (gn_path node)
        then Some ProtoSensor
        else if (gn_type node = NT_Interface \<or> gn_type node = NT_Module) \<and> cf = None
                \<and> (ends_with ''.graphql'' (gn_path node) \<or> ends_with ''.gql'' (gn_path node))
        then Some GraphqlSensor
        else if gn_type node = NT_HttpClientCall then Some HttpClientSensor
        else if gn_type node = NT_FieldRef then Some FieldAccessSensor
        else if gn_type node = NT_Topic then Some EventSensor
        else None)"

definition derive_owner :: "graph_node \<Rightarrow> contract_fact option \<Rightarrow> sensor_owner option" where
  "derive_owner node cf =
     (case (gn_type node, cf) of
        (NT_HttpRoute, Some (Provider p)) \<Rightarrow>
          (case pf_origin p of Code \<Rightarrow> Some HttpSensor | OpenApi \<Rightarrow> Some OpenApiSensor)
      | _ \<Rightarrow>
        if gn_type node = NT_Schema \<and> is_schema_fact cf
        then Some (schema_file_owner (gn_path node))
        else if gn_type node = NT_Field \<and> is_field cf
        then Some (schema_file_owner (gn_path node))
        else if gn_type node = NT_Function \<and> starts_with topic_read_prefix (gn_name node)
        then Some EventSensor
        else if gn_type node = NT_Table \<and> gn_signature node = Some django_table_mark
        then Some DjangoOrmSensor
        else if is_table_consumer cf \<and> starts_with orm_read_prefix (gn_name node)
        then Some DjangoOrmSensor
        else if gn_type node = NT_Table \<or> is_table cf then Some SqlSensor
        else if is_table_consumer cf \<and> starts_with sql_read_prefix (gn_name node)
        then Some SqlSensor
        else (case cf of
                Some (RpcProvider _) \<Rightarrow> Some GrpcProviderSensor
              | Some (RpcHandler _) \<Rightarrow> Some GrpcHandlerLinkSensor
              | _ \<Rightarrow>
                if gn_type node = NT_Function \<and> starts_with rust_rpc_prefix (gn_name node)
                then Some GrpcConsumerSensor
                else late_owner node cf))"

fun owner_of_facts ::
    "graph_node \<Rightarrow> contract_fact list \<Rightarrow> sensor_owner option \<Rightarrow> sensor_owner option" where
  "owner_of_facts node [] owner = owner"
| "owner_of_facts node (cf # cfs) owner =
     (case derive_owner node (Some cf) of
        None \<Rightarrow> owner_of_facts node cfs owner
      | Some o' \<Rightarrow>
          (case owner of
             None \<Rightarrow> owner_of_facts node cfs (Some o')
           | Some prev \<Rightarrow> if prev = o' then owner_of_facts node cfs owner else None))"

definition sensor_owner_of :: "graph_node \<Rightarrow> sensor_owner option" where
  "sensor_owner_of node =
     (let owner = owner_of_facts node (gn_contract node) None in
      if gn_contract node = [] then derive_owner node None else owner)"

text \<open>
  A node with an owner has no fact that another sensor would claim: a sensor's rescan never
  deletes a node carrying another sensor's fact.
\<close>

lemma owner_of_facts_agree:
  assumes "owner_of_facts node cfs owner = Some w"
  shows "(owner = None \<or> owner = Some w)
    \<and> (\<forall>f \<in> set cfs. \<forall>v. derive_owner node (Some f) = Some v \<longrightarrow> v = w)"
  using assms
proof (induction cfs arbitrary: owner)
  case (Cons f cfs)
  show ?case
  proof (cases "derive_owner node (Some f)")
    case None
    with Cons show ?thesis by simp
  next
    case (Some v)
    with Cons.prems have "owner = None \<or> owner = Some v"
      and "owner_of_facts node cfs (Some v) = Some w"
      by (auto split: option.splits if_splits)
    with Cons.IH [of "Some v"] Some show ?thesis by auto
  qed
qed simp

lemma owner_of_facts_witness:
  "owner_of_facts node cfs None = Some w \<Longrightarrow> \<exists>f \<in> set cfs. derive_owner node (Some f) = Some w"
proof (induction cfs)
  case (Cons f cfs)
  then show ?case using owner_of_facts_agree [of node cfs "derive_owner node (Some f)" w]
    by (auto split: option.splits)
qed simp

end
