(* ===== verification/Store.thy ===== *)
theory Store
  imports Sensor_Owner
begin

text \<open>
  The graph database of \<^verbatim>\<open>src/src/server/graph/mod.rs\<close>: one graph behind a lock, the three
  secondary indexes kept beside it, and every mutator. A mutator takes the database and
  returns its \<open>Result\<close> with the database it leaves, so that what a failing call has
  already changed is visible.

  \<open>petgraph\<close> is third-party. What the model takes from it as a parameter is the choice it
  is free to make: which unused index a new node gets and in which order a node's edges
  are visited. Both may depend on the history, for which the graph carries a tick.
\<close>

section \<open>The stable graph\<close>

type_synonym edge_rec = "nat \<times> nat \<times> graph_edge"

datatype direction = Outgoing | Incoming

record petgraph =
  pg_alloc :: "nat \<Rightarrow> nat list \<Rightarrow> nat"
  pg_rank :: "nat \<Rightarrow> direction \<Rightarrow> nat \<Rightarrow> nat \<Rightarrow> nat"

text \<open>
  \<open>pg_alloc\<close> picks the index of a new node, and is relied on to pick one not in use;
  \<open>pg_rank\<close> ranks the edges of a node by position, so that a visit is a permutation of
  them whatever the ranks are.
\<close>

definition petgraph_ok :: "petgraph \<Rightarrow> bool" where
  "petgraph_ok pg \<longleftrightarrow> (\<forall>t used. pg_alloc pg t used \<notin> set used)"

record pgraph =
  g_nodes :: "(nat \<times> graph_node) list"
  g_edges :: "edge_rec list"
  g_tick :: nat

definition g_empty :: pgraph where
  "g_empty = \<lparr>g_nodes = [], g_edges = [], g_tick = 0\<rparr>"

definition g_node :: "pgraph \<Rightarrow> nat \<Rightarrow> graph_node option" where
  "g_node g i = map_of (g_nodes g) i"

definition g_add_node :: "petgraph \<Rightarrow> graph_node \<Rightarrow> pgraph \<Rightarrow> nat \<times> pgraph" where
  "g_add_node pg n g =
     (let i = pg_alloc pg (g_tick g) (map fst (g_nodes g)) in
      (i, g\<lparr>g_nodes := insort_key fst (i, n) (g_nodes g), g_tick := Suc (g_tick g)\<rparr>))"

definition g_set_node :: "nat \<Rightarrow> graph_node \<Rightarrow> pgraph \<Rightarrow> pgraph" where
  "g_set_node i n g =
     g\<lparr>g_nodes := map (\<lambda>(j, m). if j = i then (j, n) else (j, m)) (g_nodes g)\<rparr>"

definition g_remove_node :: "nat \<Rightarrow> pgraph \<Rightarrow> pgraph" where
  "g_remove_node i g =
     g\<lparr>g_nodes := filter (\<lambda>(j, _). j \<noteq> i) (g_nodes g),
       g_edges := filter (\<lambda>(s, t, _). s \<noteq> i \<and> t \<noteq> i) (g_edges g),
       g_tick := Suc (g_tick g)\<rparr>"

definition g_add_edge :: "nat \<Rightarrow> nat \<Rightarrow> graph_edge \<Rightarrow> pgraph \<Rightarrow> pgraph" where
  "g_add_edge s t e g = g\<lparr>g_edges := g_edges g @ [(s, t, e)], g_tick := Suc (g_tick g)\<rparr>"

definition edges_directed :: "petgraph \<Rightarrow> pgraph \<Rightarrow> nat \<Rightarrow> direction \<Rightarrow> edge_rec list" where
  "edges_directed pg g i dir =
     map snd (sort_key (\<lambda>(p, _). pg_rank pg (g_tick g) dir i p)
       (enumerate 0
         (filter (\<lambda>(s, t, _). (case dir of Outgoing \<Rightarrow> s | Incoming \<Rightarrow> t) = i) (g_edges g))))"

definition edges_connecting :: "pgraph \<Rightarrow> nat \<Rightarrow> nat \<Rightarrow> graph_edge list" where
  "edges_connecting g s t =
     map (\<lambda>(_, _, e). e) (filter (\<lambda>(s', t', _). s' = s \<and> t' = t) (g_edges g))"

definition node_weights :: "pgraph \<Rightarrow> graph_node list" where
  "node_weights g = map snd (g_nodes g)"

definition edge_weights :: "pgraph \<Rightarrow> graph_edge list" where
  "edge_weights g = map (\<lambda>(_, _, e). e) (g_edges g)"

section \<open>The database\<close>

datatype graph_op =
    UpsertNode graph_node
  | UpsertEdge graph_edge
  | RemoveNodesByIds "string list"
  | RemoveEdges "(string \<times> string \<times> edge_type) list"
  | CommitIndexMap nat

datatype db_error =
    ReadOnly
  | WalAppend
  | SourceNotFound string
  | TargetNotFound string
  | IndexPanic

record graph_db =
  db_graph :: pgraph
  db_index :: "(string, nat) hmap"
  db_paths :: "(string, nat list) hmap"
  db_names :: "(string, nat list) hmap"
  db_last_commit :: "string option"
  db_wal_replaying :: bool
  db_wal :: "graph_op list"
  db_wal_broken :: bool
  db_persistent :: bool
  db_read_only :: bool
  db_pending_external :: "graph_edge list"
  db_write_passes :: nat
  db_cochange_failure :: "string option"
  db_calls_published :: "string option"

text \<open>
  \<open>db_wal\<close> is the sequence of operations the log has accepted; its bytes are the subject of
  the log theory. \<open>db_wal_broken\<close> is the environment: whether the next write to the log
  fails. \<open>IndexPanic\<close> is the panic of \<open>graph[idx]\<close> on an index with no node.
\<close>

type_synonym 'a db_result = "(db_error + 'a) \<times> graph_db"

definition db_empty :: "bool \<Rightarrow> bool \<Rightarrow> graph_db" where
  "db_empty persistent read_only =
     \<lparr>db_graph = g_empty, db_index = hm_empty, db_paths = hm_empty, db_names = hm_empty,
      db_last_commit = None, db_wal_replaying = False, db_wal = [], db_wal_broken = False,
      db_persistent = persistent, db_read_only = read_only, db_pending_external = [],
      db_write_passes = 0, db_cochange_failure = None, db_calls_published = None\<rparr>"

definition wal_enabled :: "graph_db \<Rightarrow> bool" where
  "wal_enabled d \<longleftrightarrow> db_persistent d \<and> \<not> db_wal_replaying d"

definition log_ops :: "graph_op list \<Rightarrow> graph_db \<Rightarrow> unit db_result" where
  "log_ops ops d =
     (if ops = [] \<or> \<not> wal_enabled d then (Inr (), d)
      else if db_wal_broken d then (Inl WalAppend, d)
      else (Inr (), d\<lparr>db_wal := db_wal d @ ops\<rparr>))"

definition log_op :: "graph_op \<Rightarrow> graph_db \<Rightarrow> unit db_result" where
  "log_op op d = log_ops [op] d"

text \<open>The two shapes in which a mutator reports an early return.\<close>

definition db_bind :: "'a db_result \<Rightarrow> ('a \<Rightarrow> graph_db \<Rightarrow> 'b db_result) \<Rightarrow> 'b db_result" where
  "db_bind r f = (case r of (Inl e, d) \<Rightarrow> (Inl e, d) | (Inr x, d) \<Rightarrow> f x d)"

definition check_writable :: "graph_db \<Rightarrow> unit db_result" where
  "check_writable d = (if db_read_only d then (Inl ReadOnly, d) else (Inr (), d))"

section \<open>The path and name indexes\<close>

definition idx_list :: "('k, nat list) hmap \<Rightarrow> 'k \<Rightarrow> nat list" where
  "idx_list m k = (case hm_get m k of Some is \<Rightarrow> is | None \<Rightarrow> [])"

definition idx_push :: "'k \<Rightarrow> nat \<Rightarrow> ('k, nat list) hmap \<Rightarrow> ('k, nat list) hmap" where
  "idx_push k i m = hm_put k (idx_list m k @ [i]) m"

definition idx_drop :: "'k \<Rightarrow> nat \<Rightarrow> ('k, nat list) hmap \<Rightarrow> ('k, nat list) hmap" where
  "idx_drop k i m =
     (case hm_get m k of
        None \<Rightarrow> m
      | Some is \<Rightarrow>
          let is' = filter (\<lambda>j. j \<noteq> i) is in if is' = [] then hm_del k m else hm_put k is' m)"

section \<open>Inserting nodes\<close>

text \<open>The part of \<open>upsert_node\<close> and of the batch loop after the log write.\<close>

definition add_node :: "petgraph \<Rightarrow> graph_node \<Rightarrow> graph_db \<Rightarrow> graph_db" where
  "add_node pg n d =
     (let (i, g) = g_add_node pg n (db_graph d) in
      d\<lparr>db_graph := g,
        db_index := hm_put (gn_id n) i (db_index d),
        db_paths := idx_push (gn_path n) i (db_paths d),
        db_names := idx_push (gn_name n) i (db_names d)\<rparr>)"

definition put_node :: "petgraph \<Rightarrow> graph_node \<Rightarrow> graph_db \<Rightarrow> unit db_result" where
  "put_node pg n d =
     (case hm_get (db_index d) (gn_id n) of
        Some i \<Rightarrow>
          (case g_node (db_graph d) i of
             None \<Rightarrow> (Inl IndexPanic, d)
           | Some existing \<Rightarrow>
               (Inr (),
                if gn_is_hydrated n \<or> \<not> gn_is_hydrated existing
                then d\<lparr>db_graph := g_set_node i n (db_graph d)\<rparr> else d))
      | None \<Rightarrow> (Inr (), add_node pg n d))"

primrec put_nodes :: "petgraph \<Rightarrow> graph_node list \<Rightarrow> graph_db \<Rightarrow> unit db_result" where
  "put_nodes pg [] d = (Inr (), d)"
| "put_nodes pg (n # ns) d = db_bind (put_node pg n d) (\<lambda>_. put_nodes pg ns)"

definition upsert_node :: "petgraph \<Rightarrow> graph_node \<Rightarrow> graph_db \<Rightarrow> unit db_result" where
  "upsert_node pg n d =
     db_bind (check_writable d) (\<lambda>_ d.
     db_bind (log_op (UpsertNode n) d) (\<lambda>_ d.
     put_node pg n d))"

definition insert_nodes_batch :: "petgraph \<Rightarrow> graph_node list \<Rightarrow> graph_db \<Rightarrow> unit db_result" where
  "insert_nodes_batch pg ns d =
     db_bind (check_writable d) (\<lambda>_ d.
     db_bind (log_ops (map UpsertNode ns) d) (\<lambda>_ d.
     put_nodes pg ns d))"

section \<open>Removing nodes and edges\<close>

text \<open>
  \<open>remove_nodes_by_ids\<close> works in two passes: the first takes the nodes out of the graph and
  remembers where they were filed, the second clears the indexes.
\<close>

primrec take_nodes ::
    "string list \<Rightarrow> graph_db \<Rightarrow> nat \<Rightarrow> (string \<times> string \<times> nat) list \<Rightarrow>
     graph_db \<times> nat \<times> (string \<times> string \<times> nat) list" where
  "take_nodes [] d removed cleared = (d, removed, cleared)"
| "take_nodes (nid # ids) d removed cleared =
     (case hm_get (db_index d) nid of
        None \<Rightarrow> take_nodes ids d removed cleared
      | Some i \<Rightarrow>
          (case g_node (db_graph d) i of
             None \<Rightarrow> take_nodes ids d removed cleared
           | Some n \<Rightarrow>
               take_nodes ids (d\<lparr>db_graph := g_remove_node i (db_graph d)\<rparr>) (Suc removed)
                 (cleared @ [(gn_path n, gn_name n, i)])))"

definition clear_indexes ::
    "string list \<Rightarrow> (string \<times> string \<times> nat) list \<Rightarrow> graph_db \<Rightarrow> graph_db" where
  "clear_indexes ids cleared d =
     d\<lparr>db_index := fold hm_del ids (db_index d),
       db_paths := fold (\<lambda>(p, _, i). idx_drop p i) cleared (db_paths d),
       db_names := fold (\<lambda>(_, n, i). idx_drop n i) cleared (db_names d)\<rparr>"

definition remove_nodes_by_ids :: "string list \<Rightarrow> graph_db \<Rightarrow> nat db_result" where
  "remove_nodes_by_ids ids d =
     db_bind (check_writable d) (\<lambda>_ d.
     db_bind (log_op (RemoveNodesByIds ids) d) (\<lambda>_ d.
       let (d', removed, cleared) = take_nodes ids d 0 [] in
       (Inr removed, clear_indexes ids cleared d')))"

definition edge_endpoints :: "graph_edge \<Rightarrow> string \<times> string \<times> edge_type" where
  "edge_endpoints e = (ge_source_id e, ge_target_id e, ge_type e)"

definition remove_edges :: "graph_edge list \<Rightarrow> graph_db \<Rightarrow> nat db_result" where
  "remove_edges es d =
     (let endpoints = map edge_endpoints es in
      db_bind (check_writable d) (\<lambda>_ d.
      db_bind (log_op (RemoveEdges endpoints) d) (\<lambda>_ d.
        let hit = (\<lambda>(_, _, w). edge_endpoints w \<in> set endpoints);
            kept = filter (\<lambda>x. \<not> hit x) (g_edges (db_graph d)) in
        (Inr (length (filter hit (g_edges (db_graph d)))),
         d\<lparr>db_graph := (db_graph d)\<lparr>g_edges := kept, g_tick := Suc (g_tick (db_graph d))\<rparr>\<rparr>))))"

section \<open>Replacing the nodes of a path\<close>

text \<open>
  \<open>replace_nodes_inner\<close>, split at its inner loops. \<open>drop_old\<close> goes over the indices filed
  under one path: namespace nodes are kept, the others leave the graph, the id index and
  the name index, and the edges into them from files outside the pass are remembered.
\<close>

primrec drop_old ::
    "petgraph \<Rightarrow> bool \<Rightarrow> string set \<Rightarrow> nat list \<Rightarrow> nat list \<Rightarrow> graph_edge list \<Rightarrow> string list \<Rightarrow>
     graph_db \<Rightarrow> nat list \<times> graph_edge list \<times> string list \<times> graph_db" where
  "drop_old pg drop_ns replaced [] kept preserved removed d = (kept, preserved, removed, d)"
| "drop_old pg drop_ns replaced (i # is) kept preserved removed d =
     (case g_node (db_graph d) i of
        None \<Rightarrow> drop_old pg drop_ns replaced is kept preserved removed d
      | Some n \<Rightarrow>
          if gn_type n = NT_Namespace \<and> \<not> drop_ns
          then drop_old pg drop_ns replaced is (kept @ [i]) preserved removed d
          else
            let incoming =
                  filter (\<lambda>(s, _, _).
                      case g_node (db_graph d) s of
                        Some src \<Rightarrow> gn_path src \<notin> replaced | None \<Rightarrow> False)
                    (edges_directed pg (db_graph d) i Incoming);
                d' = d\<lparr>db_graph := g_remove_node i (db_graph d),
                       db_index := hm_del (gn_id n) (db_index d),
                       db_names := idx_drop (gn_name n) i (db_names d)\<rparr> in
            drop_old pg drop_ns replaced is kept (preserved @ map (\<lambda>(_, _, e). e) incoming)
              (removed @ [gn_id n]) d')"

text \<open>
  \<open>add_fresh\<close> adds the path's new nodes, each id once; a node still indexed under its id (a
  kept namespace) is refreshed in place.
\<close>

primrec add_fresh ::
    "petgraph \<Rightarrow> graph_node list \<Rightarrow> string set \<Rightarrow> nat list \<Rightarrow> graph_db \<Rightarrow> nat list \<times> graph_db" where
  "add_fresh pg [] seen fresh d = (fresh, d)"
| "add_fresh pg (n # ns) seen fresh d =
     (if gn_id n \<in> seen then add_fresh pg ns seen fresh d
      else
        (case hm_get (db_index d) (gn_id n) of
           Some i \<Rightarrow>
             (case g_node (db_graph d) i of
                Some w \<Rightarrow>
                  if gn_id w = gn_id n
                  then add_fresh pg ns (insert (gn_id n) seen)
                         (if i \<in> set fresh then fresh else fresh @ [i])
                         (d\<lparr>db_graph := g_set_node i n (db_graph d)\<rparr>)
                  else (let (j, g) = g_add_node pg n (db_graph d) in
                        add_fresh pg ns (insert (gn_id n) seen) (fresh @ [j])
                          (d\<lparr>db_graph := g, db_index := hm_put (gn_id n) j (db_index d),
                             db_names := idx_push (gn_name n) j (db_names d)\<rparr>))
              | None \<Rightarrow> (let (j, g) = g_add_node pg n (db_graph d) in
                        add_fresh pg ns (insert (gn_id n) seen) (fresh @ [j])
                          (d\<lparr>db_graph := g, db_index := hm_put (gn_id n) j (db_index d),
                             db_names := idx_push (gn_name n) j (db_names d)\<rparr>)))
         | None \<Rightarrow> (let (j, g) = g_add_node pg n (db_graph d) in
                        add_fresh pg ns (insert (gn_id n) seen) (fresh @ [j])
                          (d\<lparr>db_graph := g, db_index := hm_put (gn_id n) j (db_index d),
                             db_names := idx_push (gn_name n) j (db_names d)\<rparr>))))"

primrec replace_paths ::
    "petgraph \<Rightarrow> bool \<Rightarrow> string set \<Rightarrow> graph_node list \<Rightarrow> string list \<Rightarrow>
     (string \<times> nat list) list \<Rightarrow> graph_edge list \<Rightarrow> string list \<Rightarrow> graph_db \<Rightarrow>
     (string \<times> nat list) list \<times> graph_edge list \<times> string list \<times> graph_db" where
  "replace_paths pg drop_ns replaced nodes [] entries preserved removed d =
     (entries, preserved, removed, d)"
| "replace_paths pg drop_ns replaced nodes (p # ps) entries preserved removed d =
     (let (kept, preserved', removed', d1) =
            drop_old pg drop_ns replaced (idx_list (db_paths d) p) [] preserved removed d;
          (fresh, d2) = add_fresh pg (filter (\<lambda>n. gn_path n = p) nodes) {} kept d1 in
      replace_paths pg drop_ns replaced nodes ps (entries @ [(p, fresh)]) preserved' removed' d2)"

text \<open>The incoming edges are put back where both ends are still indexed.\<close>

definition restore_edge :: "graph_edge \<Rightarrow> graph_db \<Rightarrow> graph_db" where
  "restore_edge e d =
     (case (hm_get (db_index d) (ge_source_id e), hm_get (db_index d) (ge_target_id e)) of
        (Some s, Some t) \<Rightarrow>
          if list_ex (\<lambda>w. ge_type w = ge_type e) (edges_connecting (db_graph d) s t) then d
          else d\<lparr>db_graph := g_add_edge s t e (db_graph d)\<rparr>
      | _ \<Rightarrow> d)"

definition put_entry :: "string \<times> nat list \<Rightarrow> (string, nat list) hmap \<Rightarrow> (string, nat list) hmap" where
  "put_entry e m = (if snd e = [] then hm_del (fst e) m else hm_put (fst e) (snd e) m)"

definition replace_nodes_inner ::
    "petgraph \<Rightarrow> string list \<Rightarrow> graph_node list \<Rightarrow> bool \<Rightarrow> graph_db \<Rightarrow> nat db_result" where
  "replace_nodes_inner pg paths nodes drop_ns d =
     db_bind (check_writable d) (\<lambda>_ d.
       let (entries, preserved, removed, d1) =
             replace_paths pg drop_ns (set paths) nodes (remdups (sort paths)) [] [] [] d;
           d2 = fold restore_edge preserved d1;
           d3 = d2\<lparr>db_paths := fold put_entry entries (db_paths d2)\<rparr> in
       (Inr (length removed), d3))"

definition replace_nodes_for_paths ::
    "petgraph \<Rightarrow> string list \<Rightarrow> graph_node list \<Rightarrow> graph_db \<Rightarrow> nat db_result" where
  "replace_nodes_for_paths pg paths nodes d = replace_nodes_inner pg paths nodes False d"

text \<open>
  \<open>prune_orphans\<close>: the directories of the tracked files are collected walking up from each
  file and stopping at the first directory already known.
\<close>

lemma rfind_less: "rfind p s = Some i \<Longrightarrow> p \<noteq> [] \<Longrightarrow> i < length s"
  by (induction s arbitrary: i) (auto split: option.splits if_splits)

function add_dirs :: "string \<Rightarrow> string list \<Rightarrow> string list" where
  "add_dirs dir live =
     (case rfind ''/'' dir of
        None \<Rightarrow> live
      | Some i \<Rightarrow>
          if take i dir \<in> set live then live else add_dirs (take i dir) (take i dir # live))"
  by pat_completeness auto
termination
  by (relation "measure (\<lambda>(dir, _). length dir)") (auto dest: rfind_less)

declare add_dirs.simps [simp del]

definition live_dirs :: "string list \<Rightarrow> string list" where
  "live_dirs tracked = fold add_dirs tracked []"

primrec prune_keys ::
    "petgraph \<Rightarrow> string list \<Rightarrow> string list \<Rightarrow> nat \<Rightarrow> graph_db \<Rightarrow> nat db_result" where
  "prune_keys pg live [] removed d = (Inr removed, d)"
| "prune_keys pg live (key # keys) removed d =
     db_bind (replace_nodes_inner pg [key] [] (key \<notin> set live) d)
       (\<lambda>n. prune_keys pg live keys (removed + n))"

definition prune_orphans :: "petgraph \<Rightarrow> string list \<Rightarrow> graph_db \<Rightarrow> nat db_result" where
  "prune_orphans pg tracked d =
     db_bind (check_writable d) (\<lambda>_ d.
       prune_keys pg (live_dirs tracked)
         (sort (filter (\<lambda>k. k \<notin> set tracked) (hm_keys (db_paths d)))) 0 d)"

section \<open>Edges\<close>

definition site_is_identity :: "edge_type \<Rightarrow> bool" where
  "site_is_identity t \<longleftrightarrow> t = ET_Produces \<or> t = ET_Consumes"

definition same_edge_identity :: "graph_edge \<Rightarrow> graph_edge \<Rightarrow> bool" where
  "same_edge_identity existing incoming \<longleftrightarrow>
     ge_type existing = ge_type incoming
     \<and> (site_is_identity (ge_type incoming) \<longrightarrow> ge_site existing = ge_site incoming)"

definition edge_identity_key :: "graph_edge \<Rightarrow> edge_type \<times> string \<times> string \<times> source_site option" where
  "edge_identity_key e =
     (ge_type e, ge_source_id e, ge_target_id e,
      if site_is_identity (ge_type e) then ge_site e else None)"

definition edge_ends :: "graph_edge \<Rightarrow> graph_db \<Rightarrow> db_error + (nat \<times> nat)" where
  "edge_ends e d =
     (case hm_get (db_index d) (ge_source_id e) of
        None \<Rightarrow> Inl (SourceNotFound (ge_source_id e))
      | Some s \<Rightarrow>
          (case hm_get (db_index d) (ge_target_id e) of
             None \<Rightarrow> Inl (TargetNotFound (ge_target_id e))
           | Some t \<Rightarrow> Inr (s, t)))"

definition insert_edge :: "graph_edge \<Rightarrow> graph_db \<Rightarrow> unit db_result" where
  "insert_edge e d =
     db_bind (check_writable d) (\<lambda>_ d.
       case edge_ends e d of
         Inl err \<Rightarrow> (Inl err, d)
       | Inr (s, t) \<Rightarrow>
           db_bind (log_op (UpsertEdge e) d) (\<lambda>_ d.
             (Inr (), d\<lparr>db_graph := g_add_edge s t e (db_graph d)\<rparr>)))"

definition edge_exists :: "graph_db \<Rightarrow> nat \<Rightarrow> nat \<Rightarrow> graph_edge \<Rightarrow> bool" where
  "edge_exists d s t e =
     list_ex (\<lambda>w. same_edge_identity w e) (edges_connecting (db_graph d) s t)"

definition set_embedding :: "string \<Rightarrow> string \<Rightarrow> graph_db \<Rightarrow> bool db_result" where
  "set_embedding nid embedding d =
     db_bind (check_writable d) (\<lambda>_ d.
       case hm_get (db_index d) nid of
         None \<Rightarrow> (Inr False, d)
       | Some i \<Rightarrow>
           (case g_node (db_graph d) i of
              Some n \<Rightarrow>
                if gn_id n = nid
                then (Inr True, d\<lparr>db_graph :=
                        g_set_node i (n\<lparr>gn_embedding := Some embedding\<rparr>) (db_graph d)\<rparr>)
                else (Inr False, d)
            | None \<Rightarrow> (Inr False, d)))"

definition set_entry :: "string \<Rightarrow> entry_kind \<Rightarrow> graph_db \<Rightarrow> bool db_result" where
  "set_entry nid kind d =
     db_bind (check_writable d) (\<lambda>_ d.
       case hm_get (db_index d) nid of
         None \<Rightarrow> (Inr False, d)
       | Some i \<Rightarrow>
           (case g_node (db_graph d) i of
              Some n \<Rightarrow> (Inr True, d\<lparr>db_graph :=
                          g_set_node i (n\<lparr>gn_entry := Some kind\<rparr>) (db_graph d)\<rparr>)
            | None \<Rightarrow> (Inr False, d)))"

text \<open>One edge of \<open>insert_edges_batch\<close>; the counter is the number of dropped edges.\<close>

definition batch_edge :: "graph_edge \<Rightarrow> graph_db \<times> nat \<Rightarrow> graph_db \<times> nat" where
  "batch_edge e = (\<lambda>(d, dropped).
     (case (hm_get (db_index d) (ge_source_id e), hm_get (db_index d) (ge_target_id e)) of
        (Some s, Some t) \<Rightarrow>
          (if edge_exists d s t e then d
           else d\<lparr>db_graph := g_add_edge s t e (db_graph d)\<rparr>, dropped)
      | (Some _, None) \<Rightarrow>
          (d\<lparr>db_pending_external := db_pending_external d @ [e]\<rparr>, dropped)
      | (None, _) \<Rightarrow> (d, Suc dropped)))"

definition both_local :: "graph_db \<Rightarrow> graph_edge \<Rightarrow> bool" where
  "both_local d e \<longleftrightarrow>
     hm_get (db_index d) (ge_source_id e) \<noteq> None \<and> hm_get (db_index d) (ge_target_id e) \<noteq> None"

definition insert_edges_batch :: "graph_edge list \<Rightarrow> graph_db \<Rightarrow> nat db_result" where
  "insert_edges_batch es d =
     db_bind (check_writable d) (\<lambda>_ d.
     db_bind (log_ops (map UpsertEdge (filter (both_local d) es)) d) (\<lambda>_ d.
       let (d', dropped) = fold batch_edge es (d, 0) in (Inr dropped, d')))"

definition take_pending_external_edges :: "graph_db \<Rightarrow> graph_edge list \<times> graph_db" where
  "take_pending_external_edges d = (db_pending_external d, d\<lparr>db_pending_external := []\<rparr>)"

definition upsert_edge :: "graph_edge \<Rightarrow> graph_db \<Rightarrow> unit db_result" where
  "upsert_edge e d =
     (case (hm_get (db_index d) (ge_source_id e), hm_get (db_index d) (ge_target_id e)) of
        (Some s, Some t) \<Rightarrow> if edge_exists d s t e then (Inr (), d) else insert_edge e d
      | _ \<Rightarrow> insert_edge e d)"

primrec resolve_edges ::
    "graph_edge list \<Rightarrow> graph_db \<Rightarrow> edge_rec list \<Rightarrow> db_error + edge_rec list" where
  "resolve_edges [] d resolved = Inr resolved"
| "resolve_edges (e # es) d resolved =
     (case edge_ends e d of
        Inl err \<Rightarrow> Inl err
      | Inr (s, t) \<Rightarrow> resolve_edges es d (resolved @ [(s, t, e)]))"

fun edges_to_insert ::
    "edge_rec list \<Rightarrow> (edge_type \<times> string \<times> string \<times> source_site option) set \<Rightarrow> graph_db \<Rightarrow>
     edge_rec list" where
  "edges_to_insert [] seen d = []"
| "edges_to_insert ((s, t, e) # rs) seen d =
     (if edge_identity_key e \<in> seen then edges_to_insert rs seen d
      else if edge_exists d s t e then edges_to_insert rs (insert (edge_identity_key e) seen) d
      else (s, t, e) # edges_to_insert rs (insert (edge_identity_key e) seen) d)"

definition upsert_edges_batch_strict :: "graph_edge list \<Rightarrow> graph_db \<Rightarrow> unit db_result" where
  "upsert_edges_batch_strict es d =
     db_bind (check_writable d) (\<lambda>_ d.
       if es = [] then (Inr (), d)
       else
         (case resolve_edges es d [] of
            Inl err \<Rightarrow> (Inl err, d)
          | Inr resolved \<Rightarrow>
              let to_insert = edges_to_insert resolved {} d in
              if to_insert = [] then (Inr (), d)
              else db_bind (log_ops (map (\<lambda>(_, _, e). UpsertEdge e) to_insert) d) (\<lambda>_ d.
                (Inr (), d\<lparr>db_graph :=
                   fold (\<lambda>(s, t, e). g_add_edge s t e) to_insert (db_graph d)\<rparr>))))"

section \<open>Replacing a sensor's output\<close>

primrec remove_stale ::
    "string list \<Rightarrow> graph_db \<Rightarrow> string list \<Rightarrow> string list \<times> graph_db" where
  "remove_stale [] d removed = (removed, d)"
| "remove_stale (nid # ids) d removed =
     (case hm_get (db_index d) nid of
        None \<Rightarrow> remove_stale ids d removed
      | Some i \<Rightarrow>
          (case g_node (db_graph d) i of
             None \<Rightarrow> remove_stale ids d removed
           | Some n \<Rightarrow>
               remove_stale ids
                 (d\<lparr>db_graph := g_remove_node i (db_graph d),
                    db_index := hm_del nid (db_index d),
                    db_names := idx_drop (gn_name n) i (db_names d),
                    db_paths := idx_drop (gn_path n) i (db_paths d)\<rparr>)
                 (removed @ [nid])))"

definition clear_entries :: "pgraph \<Rightarrow> pgraph" where
  "clear_entries g = g\<lparr>g_nodes := map (\<lambda>(i, n). (i, n\<lparr>gn_entry := None\<rparr>)) (g_nodes g)\<rparr>"

definition replace_sensor_output ::
    "petgraph \<Rightarrow> sensor_owner \<Rightarrow> graph_node list \<Rightarrow> graph_edge list \<Rightarrow> graph_db \<Rightarrow> nat db_result" where
  "replace_sensor_output pg owner nodes edges d =
     db_bind (check_writable d) (\<lambda>_ d.
       let stale = map gn_id (filter (\<lambda>n. sensor_owner_of n = Some owner)
                                (node_weights (db_graph d)));
           (removed, d1) = remove_stale stale d [];
           d2 = (if owner = EntryPointSensor
                 then d1\<lparr>db_graph := clear_entries (db_graph d1)\<rparr> else d1) in
       db_bind (if removed \<noteq> [] then log_op (RemoveNodesByIds removed) d2 else (Inr (), d2)) (\<lambda>_ d.
       db_bind (if nodes \<noteq> [] then insert_nodes_batch pg nodes d else (Inr (), d)) (\<lambda>_ d.
       db_bind (if edges \<noteq> [] then insert_edges_batch edges d else (Inr 0, d)) (\<lambda>_ d.
         (Inr (length removed), d)))))"

section \<open>Whole-database operations\<close>

definition reset :: "graph_db \<Rightarrow> unit db_result" where
  "reset d =
     db_bind (check_writable d) (\<lambda>_ d.
       (Inr (), d\<lparr>db_graph := g_empty, db_index := hm_empty, db_paths := hm_empty,
                  db_pending_external := [], db_last_commit := None,
                  db_cochange_failure := None, db_calls_published := None\<rparr>))"

definition set_last_commit :: "string \<Rightarrow> graph_db \<Rightarrow> unit db_result" where
  "set_last_commit h d =
     db_bind (check_writable d) (\<lambda>_ d. (Inr (), d\<lparr>db_last_commit := Some h\<rparr>))"

definition record_cochange_failure :: "string \<Rightarrow> graph_db \<Rightarrow> graph_db" where
  "record_cochange_failure err d = d\<lparr>db_cochange_failure := Some err\<rparr>"

definition mark_calls_published :: "string \<Rightarrow> graph_db \<Rightarrow> graph_db" where
  "mark_calls_published commit d = d\<lparr>db_calls_published := Some commit\<rparr>"

definition begin_write_pass :: "graph_db \<Rightarrow> graph_db" where
  "begin_write_pass d = d\<lparr>db_write_passes := Suc (db_write_passes d)\<rparr>"

definition end_write_pass :: "graph_db \<Rightarrow> graph_db" where
  "end_write_pass d = d\<lparr>db_write_passes := db_write_passes d - 1\<rparr>"

definition write_pass_active :: "graph_db \<Rightarrow> bool" where
  "write_pass_active d \<longleftrightarrow> 0 < db_write_passes d"

text \<open>Loading a snapshot rebuilds the path and name indexes from the nodes.\<close>

record graph_state =
  gs_graph :: pgraph
  gs_index :: "(string, nat) hmap"
  gs_last_commit :: "string option"
  gs_calls_published :: "string option option"

definition build_state :: "graph_db \<Rightarrow> graph_state" where
  "build_state d =
     \<lparr>gs_graph = db_graph d, gs_index = db_index d, gs_last_commit = db_last_commit d,
      gs_calls_published = Some (db_calls_published d)\<rparr>"

text \<open>\<open>heal_duplicate_ids\<close> of \<^verbatim>\<open>src/src/server/graph/persist.rs\<close>.\<close>

definition move_edge :: "nat \<Rightarrow> edge_rec \<Rightarrow> pgraph \<Rightarrow> pgraph" where
  "move_edge stray = (\<lambda>(from, to, e) g.
     if from = stray \<or> to = stray then g
     else if list_ex (\<lambda>w. ge_type w = ge_type e) (edges_connecting g from to) then g
     else g_add_edge from to e g)"

definition heal_stray :: "petgraph \<Rightarrow> nat \<Rightarrow> graph_state \<Rightarrow> graph_state" where
  "heal_stray pg stray st =
     (case g_node (gs_graph st) stray of
        None \<Rightarrow> st
      | Some n \<Rightarrow>
          let nid = gn_id n;
              keep = (case hm_get (gs_index st) nid of
                        Some k \<Rightarrow> (case g_node (gs_graph st) k of
                                    Some m \<Rightarrow> if gn_id m = nid then Some k else None
                                  | None \<Rightarrow> None)
                      | None \<Rightarrow> None) in
          (case keep of
             None \<Rightarrow> st\<lparr>gs_index := hm_put nid stray (gs_index st)\<rparr>
           | Some k \<Rightarrow>
               let g = gs_graph st;
                   moved = map (\<lambda>(_, t, e). (k, t, e)) (edges_directed pg g stray Outgoing)
                           @ map (\<lambda>(s, _, e). (s, k, e)) (edges_directed pg g stray Incoming) in
               st\<lparr>gs_graph := g_remove_node stray (fold (move_edge stray) moved g)\<rparr>))"

definition heal_duplicate_ids :: "petgraph \<Rightarrow> graph_state \<Rightarrow> graph_state" where
  "heal_duplicate_ids pg st =
     fold (heal_stray pg)
       (map fst (filter (\<lambda>(i, n). hm_get (gs_index st) (gn_id n) \<noteq> Some i) (g_nodes (gs_graph st))))
       st"

definition apply_state_loaded :: "petgraph \<Rightarrow> graph_state \<Rightarrow> graph_db \<Rightarrow> graph_db" where
  "apply_state_loaded pg st0 d =
     (let st = heal_duplicate_ids pg st0; nodes = g_nodes (gs_graph st) in
      d\<lparr>db_graph := gs_graph st,
        db_index := fold (\<lambda>(k, v). hm_put k v) (gs_index st) hm_empty,
        db_paths := fold (\<lambda>(i, n). idx_push (gn_path n) i) nodes hm_empty,
        db_names := fold (\<lambda>(i, n). idx_push (gn_name n) i) nodes hm_empty,
        db_calls_published :=
          (case gs_calls_published st of Some c \<Rightarrow> c | None \<Rightarrow> gs_last_commit st),
        db_last_commit := gs_last_commit st\<rparr>)"

text \<open>One logged operation applied during replay: an edge whose end is gone is skipped.\<close>

definition tolerate :: "'a db_result \<Rightarrow> unit db_result" where
  "tolerate r =
     (case r of
        (Inr _, d) \<Rightarrow> (Inr (), d)
      | (Inl (SourceNotFound _), d) \<Rightarrow> (Inr (), d)
      | (Inl (TargetNotFound _), d) \<Rightarrow> (Inr (), d)
      | (Inl e, d) \<Rightarrow> (Inl e, d))"

definition apply_op :: "petgraph \<Rightarrow> graph_op \<Rightarrow> graph_db \<Rightarrow> unit db_result" where
  "apply_op pg op d =
     (case op of
        UpsertNode n \<Rightarrow> tolerate (upsert_node pg n d)
      | UpsertEdge e \<Rightarrow> tolerate (upsert_edge e d)
      | RemoveNodesByIds ids \<Rightarrow> tolerate (remove_nodes_by_ids ids d)
      | RemoveEdges endpoints \<Rightarrow>
          tolerate (remove_edges (map (\<lambda>(s, t, ty). edge_new ty s t) endpoints) d)
      | CommitIndexMap _ \<Rightarrow> (Inr (), d))"

primrec apply_ops :: "petgraph \<Rightarrow> graph_op list \<Rightarrow> graph_db \<Rightarrow> unit db_result" where
  "apply_ops pg [] d = (Inr (), d)"
| "apply_ops pg (op # ops) d = db_bind (apply_op pg op d) (\<lambda>_. apply_ops pg ops)"

end
