(* ===== verification/Store_Inv.thy ===== *)
theory Store_Inv
  imports Store
begin

text \<open>
  The invariant that ties the three indexes of the graph database to its graph, and that
  every mutator keeps it. \<open>coherent\<close> states it of plain functions, so that the loops of
  \<open>replace_nodes_inner\<close>, which leave the path index behind while they run, can be followed
  with the path function the finished index will have.

  A node id determines the name and the path of its node (the id is the UUID of a text that
  contains both). \<open>who\<close> is that function.
\<close>

section \<open>Coherence\<close>

definition filed :: "pgraph \<Rightarrow> (graph_node \<Rightarrow> string) \<Rightarrow> (string \<Rightarrow> nat list) \<Rightarrow> bool" where
  "filed g f F \<longleftrightarrow>
     (\<forall>k. distinct (F k) \<and> set (F k) = {i. \<exists>n. g_node g i = Some n \<and> f n = k})"

definition edges_ok :: "pgraph \<Rightarrow> bool" where
  "edges_ok g \<longleftrightarrow>
     (\<forall>s t e. (s, t, e) \<in> set (g_edges g) \<longrightarrow>
        map_option gn_id (g_node g s) = Some (ge_source_id e)
        \<and> map_option gn_id (g_node g t) = Some (ge_target_id e))"

definition graph_ok :: "(string \<Rightarrow> string \<times> string) \<Rightarrow> pgraph \<Rightarrow> bool" where
  "graph_ok who g \<longleftrightarrow>
     distinct (map fst (g_nodes g)) \<and> sorted (map fst (g_nodes g)) \<and> edges_ok g
     \<and> (\<forall>i n. g_node g i = Some n \<longrightarrow> who (gn_id n) = (gn_name n, gn_path n))"

definition indexed :: "pgraph \<Rightarrow> (string \<Rightarrow> nat option) \<Rightarrow> bool" where
  "indexed g I \<longleftrightarrow> (\<forall>nid i. I nid = Some i \<longleftrightarrow> map_option gn_id (g_node g i) = Some nid)"

definition coherent ::
    "(string \<Rightarrow> string \<times> string) \<Rightarrow> pgraph \<Rightarrow> (string \<Rightarrow> nat option) \<Rightarrow>
     (string \<Rightarrow> nat list) \<Rightarrow> (string \<Rightarrow> nat list) \<Rightarrow> bool" where
  "coherent who g I P N \<longleftrightarrow>
     graph_ok who g \<and> indexed g I \<and> filed g gn_path P \<and> filed g gn_name N"

lemma coherentI:
  "graph_ok who g \<Longrightarrow> indexed g I \<Longrightarrow> filed g gn_path P \<Longrightarrow> filed g gn_name N \<Longrightarrow>
   coherent who g I P N"
  by (simp add: coherent_def)

lemma coherentD:
  assumes "coherent who g I P N"
  shows "graph_ok who g" "indexed g I" "filed g gn_path P" "filed g gn_name N"
  using assms by (simp_all add: coherent_def)

named_theorems g_simps \<open>the graph operations seen through node lookup\<close>

lemma g_node_empty [simp, g_simps]: "g_node g_empty i = None"
  by (simp add: g_node_def g_empty_def)

lemma map_of_insort:
  "i \<notin> fst ` set xs \<Longrightarrow> map_of (insort_key fst (i, n) xs) = (map_of xs)(i \<mapsto> n)"
proof (induction xs)
  case (Cons x xs)
  then show ?case by (cases x) (auto simp: fun_upd_twist)
qed simp

lemma map_fst_insort: "map fst (insort_key fst (i, n) xs) = insort i (map fst xs)"
  by (induction xs) auto

lemma map_of_map_set:
  "map_of (map (\<lambda>(j, m). if j = i then (j, n) else (j, m)) xs) k =
     (if k = i then map_option (\<lambda>_. n) (map_of xs k) else map_of xs k)"
  by (induction xs) auto

lemma map_of_filter_ne:
  "map_of (filter (\<lambda>(j, _). j \<noteq> i) xs) k = (if k = i then None else map_of xs k)"
  by (induction xs) auto

lemma g_node_add [g_simps]:
  assumes "petgraph_ok pg" and "g_add_node pg n g = (i, g')"
  shows "g_node g i = None"
    and "g_node g' k = (if k = i then Some n else g_node g k)"
    and "g_edges g' = g_edges g"
    and "set (map fst (g_nodes g')) = insert i (set (map fst (g_nodes g)))"
proof -
  from assms(2) have g': "g' = g\<lparr>g_nodes := insort_key fst (i, n) (g_nodes g), g_tick := Suc (g_tick g)\<rparr>"
    and i_def: "i = pg_alloc pg (g_tick g) (map fst (g_nodes g))"
    by (auto simp: g_add_node_def Let_def)
  from assms(1) have "i \<notin> set (map fst (g_nodes g))" unfolding i_def petgraph_ok_def by blast
  then have i: "i \<notin> fst ` set (g_nodes g)" by simp
  from i show "g_node g i = None" by (simp add: g_node_def map_of_eq_None_iff)
  from i g' show "g_node g' k = (if k = i then Some n else g_node g k)"
    by (simp add: g_node_def map_of_insort)
  from g' show "g_edges g' = g_edges g" by simp
  from g' show "set (map fst (g_nodes g')) = insert i (set (map fst (g_nodes g)))"
    by (simp add: set_insort_key)
qed

lemma g_node_set [simp, g_simps]:
  "g_node (g_set_node i n g) k = (if k = i then map_option (\<lambda>_. n) (g_node g k) else g_node g k)"
  by (simp add: g_node_def g_set_node_def map_of_map_set)

lemma g_edges_set [simp, g_simps]: "g_edges (g_set_node i n g) = g_edges g"
  by (simp add: g_set_node_def)

lemma g_keys_set [simp, g_simps]: "map fst (g_nodes (g_set_node i n g)) = map fst (g_nodes g)"
  by (simp add: g_set_node_def comp_def split_beta if_distrib)

lemma g_node_remove [simp, g_simps]:
  "g_node (g_remove_node i g) k = (if k = i then None else g_node g k)"
  by (simp add: g_node_def g_remove_node_def map_of_filter_ne)

lemma g_edges_remove [simp, g_simps]:
  "g_edges (g_remove_node i g) = filter (\<lambda>(s, t, _). s \<noteq> i \<and> t \<noteq> i) (g_edges g)"
  by (simp add: g_remove_node_def)

lemma g_node_add_edge [simp, g_simps]: "g_node (g_add_edge s t e g) k = g_node g k"
  by (simp add: g_node_def g_add_edge_def)

lemma g_edges_add_edge [simp, g_simps]: "g_edges (g_add_edge s t e g) = g_edges g @ [(s, t, e)]"
  by (simp add: g_add_edge_def)

lemma g_nodes_add_edge [simp, g_simps]: "g_nodes (g_add_edge s t e g) = g_nodes g"
  by (simp add: g_add_edge_def)

lemma set_edges_directed:
  "set (edges_directed pg g i dir) =
     {(s, t, e) \<in> set (g_edges g). (case dir of Outgoing \<Rightarrow> s | Incoming \<Rightarrow> t) = i}"
proof -
  have "snd ` set (enumerate 0 xs) = set xs" for xs :: "edge_rec list"
    by (metis map_snd_enumerate set_map)
  then show ?thesis by (auto simp: edges_directed_def)
qed

section \<open>The graph operations keep coherence\<close>

lemma graph_ok_add:
  assumes "petgraph_ok pg" "g_add_node pg n g = (i, g')" "graph_ok who g"
    and "who (gn_id n) = (gn_name n, gn_path n)"
  shows "graph_ok who g'"
proof -
  note add = g_node_add [OF assms(1,2)]
  from assms(2) have g': "g_nodes g' = insort_key fst (i, n) (g_nodes g)"
    by (auto simp: g_add_node_def Let_def)
  from add(1) have "i \<notin> set (map fst (g_nodes g))" by (simp add: g_node_def map_of_eq_None_iff)
  then have "distinct (map fst (g_nodes g'))"
    using assms(3) unfolding g' graph_ok_def
    by (simp add: map_fst_insort distinct_insort)
  moreover from assms(3) have "sorted (map fst (g_nodes g'))"
    unfolding g' graph_ok_def by (simp add: sorted_insort_key)
  moreover from assms(3) add(1) have "edges_ok g'"
    unfolding graph_ok_def edges_ok_def add(3)
    by (auto simp: add(2); metis add(1) option.distinct(1))
  ultimately show ?thesis using assms(3,4) unfolding graph_ok_def by (auto simp: add(2))
qed

lemma graph_ok_set:
  assumes "graph_ok who g" "g_node g i = Some m" "gn_id n = gn_id m"
    and "who (gn_id n) = (gn_name n, gn_path n)"
  shows "graph_ok who (g_set_node i n g)"
proof -
  have "map_option gn_id (g_node (g_set_node i n g) k) = map_option gn_id (g_node g k)" for k
    using assms(2,3) by simp
  moreover from assms have "who (gn_id w) = (gn_name w, gn_path w)"
    if "g_node (g_set_node i n g) k = Some w" for k w
    using that unfolding graph_ok_def by (auto split: if_splits)
  ultimately show ?thesis using assms(1) unfolding graph_ok_def edges_ok_def by simp
qed

lemma sorted_filter_fst: "sorted (map fst xs) \<Longrightarrow> sorted (map fst (filter P xs))"
  by (induction xs) auto

lemma graph_ok_remove:
  assumes "graph_ok who g"
  shows "graph_ok who (g_remove_node i g)"
proof -
  have "distinct (map fst (g_nodes (g_remove_node i g)))"
    using assms by (simp add: graph_ok_def g_remove_node_def distinct_map_filter)
  moreover have "sorted (map fst (g_nodes (g_remove_node i g)))"
    using assms by (simp add: graph_ok_def g_remove_node_def sorted_filter_fst)
  ultimately show ?thesis
    using assms unfolding graph_ok_def edges_ok_def by auto
qed

lemma graph_ok_add_edge:
  assumes "graph_ok who g" "map_option gn_id (g_node g s) = Some (ge_source_id e)"
    and "map_option gn_id (g_node g t) = Some (ge_target_id e)"
  shows "graph_ok who (g_add_edge s t e g)"
  using assms unfolding graph_ok_def edges_ok_def by auto

lemma indexed_add:
  assumes "g_node g i = None" "\<And>k. g_node g' k = (if k = i then Some n else g_node g k)"
    and "indexed g I" "I (gn_id n) = None"
  shows "indexed g' (I(gn_id n \<mapsto> i))"
  using assms unfolding indexed_def by (auto simp: map_option_eq_Some) (metis option.distinct(1))+

lemma indexed_set:
  assumes "indexed g I" "g_node g i = Some m" "gn_id n = gn_id m"
  shows "indexed (g_set_node i n g) I"
  using assms unfolding indexed_def by auto

lemma indexed_remove:
  assumes "indexed g I" "g_node g i = Some m"
  shows "indexed (g_remove_node i g) (I(gn_id m := None))"
proof -
  from assms have i: "I (gn_id m) = Some i" by (simp add: indexed_def)
  have "(I(gn_id m := None)) nid = Some j \<longleftrightarrow>
      map_option gn_id (g_node (g_remove_node i g) j) = Some nid" for nid j
  proof (cases "nid = gn_id m")
    case True
    from assms(1) i have "map_option gn_id (g_node g j) = Some (gn_id m) \<Longrightarrow> j = i"
      unfolding indexed_def by (metis option.inject)
    with True show ?thesis by auto
  next
    case False
    with assms show ?thesis unfolding indexed_def by auto
  qed
  then show ?thesis unfolding indexed_def by blast
qed

lemma indexed_cong: "(\<And>k. g_node g' k = g_node g k) \<Longrightarrow> indexed g I \<Longrightarrow> indexed g' I"
  by (simp add: indexed_def)

lemma filed_add:
  assumes "g_node g i = None" "\<And>k. g_node g' k = (if k = i then Some n else g_node g k)"
    and "filed g f F"
  shows "filed g' f (F(f n := F (f n) @ [i]))"
  unfolding filed_def
proof
  fix k
  from assms(3) have F: "distinct (F k)" "set (F k) = {j. \<exists>n. g_node g j = Some n \<and> f n = k}"
    by (simp_all add: filed_def)
  with assms(1) have "i \<notin> set (F k)" by auto
  with F show "distinct ((F(f n := F (f n) @ [i])) k)
      \<and> set ((F(f n := F (f n) @ [i])) k) = {i. \<exists>n. g_node g' i = Some n \<and> f n = k}"
    using assms(1) by (auto simp: assms(2))
qed

lemma filed_set:
  assumes "filed g f F" "g_node g i = Some m" "f n = f m"
  shows "filed (g_set_node i n g) f F"
  using assms unfolding filed_def by auto

lemma filed_remove:
  assumes "filed g f F" "g_node g i = Some m"
  shows "filed (g_remove_node i g) f (F(f m := filter (\<lambda>j. j \<noteq> i) (F (f m))))"
  using assms unfolding filed_def by auto

lemma filed_cong: "(\<And>k. g_node g' k = g_node g k) \<Longrightarrow> filed g f F \<Longrightarrow> filed g' f F"
  by (simp add: filed_def)

lemma coherent_add:
  assumes "petgraph_ok pg" "g_add_node pg n g = (i, g')" "coherent who g I P N"
    and "who (gn_id n) = (gn_name n, gn_path n)" "I (gn_id n) = None"
  shows "coherent who g' (I(gn_id n \<mapsto> i))
           (P(gn_path n := P (gn_path n) @ [i])) (N(gn_name n := N (gn_name n) @ [i]))"
proof -
  note add = g_node_add [OF assms(1,2)]
  note c = coherentD [OF assms(3)]
  show ?thesis
    by (intro coherentI graph_ok_add [OF assms(1,2) c(1) assms(4)]
        indexed_add [OF add(1,2) c(2) assms(5)] filed_add [OF add(1,2) c(3)]
        filed_add [OF add(1,2) c(4)])
qed

lemma coherent_set:
  assumes "coherent who g I P N" "g_node g i = Some m" "gn_id n = gn_id m"
    and "who (gn_id n) = (gn_name n, gn_path n)"
  shows "coherent who (g_set_node i n g) I P N"
proof -
  note c = coherentD [OF assms(1)]
  from c(1) assms(2-4) have "gn_name n = gn_name m" "gn_path n = gn_path m"
    unfolding graph_ok_def by (metis prod.inject)+
  then show ?thesis
    by (intro coherentI graph_ok_set [OF c(1) assms(2-4)] indexed_set [OF c(2) assms(2,3)]
        filed_set [OF c(3) assms(2)] filed_set [OF c(4) assms(2)])
qed

lemma coherent_remove:
  assumes "coherent who g I P N" "g_node g i = Some m"
  shows "coherent who (g_remove_node i g) (I(gn_id m := None))
           (P(gn_path m := filter (\<lambda>j. j \<noteq> i) (P (gn_path m))))
           (N(gn_name m := filter (\<lambda>j. j \<noteq> i) (N (gn_name m))))"
proof -
  note c = coherentD [OF assms(1)]
  show ?thesis
    by (intro coherentI graph_ok_remove [OF c(1)] indexed_remove [OF c(2) assms(2)]
        filed_remove [OF c(3) assms(2)] filed_remove [OF c(4) assms(2)])
qed

lemma coherent_add_edge:
  assumes "coherent who g I P N" "I (ge_source_id e) = Some s" "I (ge_target_id e) = Some t"
  shows "coherent who (g_add_edge s t e g) I P N"
proof -
  note c = coherentD [OF assms(1)]
  from c(2) assms(2,3) show ?thesis
    by (intro coherentI graph_ok_add_edge [OF c(1)] indexed_cong [OF _ c(2)]
        filed_cong [OF _ c(3)] filed_cong [OF _ c(4)]) (simp_all add: indexed_def)
qed

lemma coherent_edges:
  assumes "coherent who g I P N" "g_nodes g' = g_nodes g" "set (g_edges g') \<subseteq> set (g_edges g)"
  shows "coherent who g' I P N"
proof -
  from assms(2) have node: "g_node g' k = g_node g k" for k by (simp add: g_node_def)
  from assms(1,3) show ?thesis
    unfolding coherent_def graph_ok_def edges_ok_def indexed_def filed_def assms(2) node by blast
qed

section \<open>The indexes as functions\<close>

definition idx_ok :: "(string, nat list) hmap \<Rightarrow> bool" where
  "idx_ok m \<longleftrightarrow> hm_ok m \<and> (\<forall>k. hm_get m k \<noteq> Some [])"

lemma idx_list_empty [simp]: "idx_list hm_empty = (\<lambda>_. [])"
  by (simp add: idx_list_def fun_eq_iff)

lemma idx_ok_empty [simp]: "idx_ok hm_empty"
  by (simp add: idx_ok_def)

lemma idx_list_push [simp]: "idx_list (idx_push k i m) = (idx_list m)(k := idx_list m k @ [i])"
  by (auto simp: idx_list_def idx_push_def fun_eq_iff)

lemma idx_ok_push [simp]: "idx_ok m \<Longrightarrow> idx_ok (idx_push k i m)"
  by (auto simp: idx_ok_def idx_push_def)

lemma idx_list_drop [simp]:
  "idx_list (idx_drop k i m) = (idx_list m)(k := filter (\<lambda>j. j \<noteq> i) (idx_list m k))"
  by (auto simp: idx_list_def idx_drop_def fun_eq_iff Let_def split: option.splits)

lemma idx_ok_drop [simp]: "idx_ok m \<Longrightarrow> idx_ok (idx_drop k i m)"
  by (auto simp: idx_ok_def idx_drop_def Let_def split: option.splits)

lemma idx_list_put_entry [simp]: "idx_list (put_entry e m) = (idx_list m)(fst e := snd e)"
  by (auto simp: idx_list_def put_entry_def fun_eq_iff)

lemma idx_ok_put_entry [simp]: "idx_ok m \<Longrightarrow> idx_ok (put_entry e m)"
  by (auto simp: idx_ok_def put_entry_def)

definition db_ok :: "(string \<Rightarrow> string \<times> string) \<Rightarrow> graph_db \<Rightarrow> bool" where
  "db_ok who d \<longleftrightarrow>
     hm_ok (db_index d) \<and> idx_ok (db_paths d) \<and> idx_ok (db_names d)
     \<and> coherent who (db_graph d) (hm_get (db_index d)) (idx_list (db_paths d)) (idx_list (db_names d))"

lemma db_ok_empty [simp]: "db_ok who (db_empty persistent ro)"
  by (simp add: db_ok_def db_empty_def coherent_def graph_ok_def edges_ok_def indexed_def
      filed_def g_empty_def g_node_def)

end
