(* ===== verification/Store_Ops.thy ===== *)
theory Store_Ops
  imports Store_Inv
begin

text \<open>
  Every mutator of the graph database keeps its indexes coherent, on success and on error,
  whatever part of its work it had done when it returned.
\<close>

definition named_by :: "(string \<Rightarrow> string \<times> string) \<Rightarrow> graph_node \<Rightarrow> bool" where
  "named_by who n \<longleftrightarrow> who (gn_id n) = (gn_name n, gn_path n)"

named_theorems db_simps \<open>the wrappers every mutator starts with\<close>

lemma snd_check_writable [simp, db_simps]: "snd (check_writable d) = d"
  by (simp add: check_writable_def)

lemma snd_db_bind: "Q (snd r) \<Longrightarrow> (\<And>x. fst r = Inr x \<Longrightarrow> Q (snd (f x (snd r)))) \<Longrightarrow> Q (snd (db_bind r f))"
  by (cases r; cases "fst r") (auto simp: db_bind_def)

lemma db_ok_more [simp, db_simps]:
  "db_ok who (d\<lparr>db_wal := w\<rparr>) = db_ok who d"
  "db_ok who (d\<lparr>db_pending_external := p\<rparr>) = db_ok who d"
  "db_ok who (d\<lparr>db_last_commit := c\<rparr>) = db_ok who d"
  "db_ok who (d\<lparr>db_cochange_failure := c\<rparr>) = db_ok who d"
  "db_ok who (d\<lparr>db_calls_published := c\<rparr>) = db_ok who d"
  "db_ok who (d\<lparr>db_write_passes := k\<rparr>) = db_ok who d"
  by (simp_all add: db_ok_def)

lemma db_ok_log [simp, db_simps]: "db_ok who (snd (log_ops ops d)) = db_ok who d"
  by (simp add: log_ops_def)

lemma db_ok_log1 [simp, db_simps]: "db_ok who (snd (log_op op d)) = db_ok who d"
  by (simp add: log_op_def)

text \<open>A guarded mutator: writability, then the log, then the work.\<close>

lemma guarded_ok:
  assumes "db_ok who d" and "\<And>d. db_ok who d \<Longrightarrow> db_ok who (snd (f d))"
  shows "db_ok who (snd (db_bind (check_writable d) (\<lambda>_. f)))"
  by (rule snd_db_bind) (simp_all add: assms)

lemma logged_ok:
  assumes "db_ok who d" and "\<And>d. db_ok who d \<Longrightarrow> db_ok who (snd (f d))"
  shows "db_ok who (snd (db_bind (log_ops ops d) (\<lambda>_. f)))"
  by (rule snd_db_bind) (simp_all add: assms)

section \<open>Nodes\<close>

lemma db_ok_lookup:
  assumes "db_ok who d"
  shows "hm_get (db_index d) nid = Some i \<longleftrightarrow> map_option gn_id (g_node (db_graph d) i) = Some nid"
  using assms by (simp add: db_ok_def coherent_def indexed_def)

lemma db_ok_node:
  assumes "db_ok who d" "hm_get (db_index d) nid = Some i"
  obtains n where "g_node (db_graph d) i = Some n" "gn_id n = nid"
  using assms by (auto simp: db_ok_lookup)

lemma db_ok_named: "db_ok who d \<Longrightarrow> g_node (db_graph d) i = Some n \<Longrightarrow> named_by who n"
  by (auto simp: db_ok_def coherent_def graph_ok_def named_by_def)

lemma db_ok_set_node:
  assumes "db_ok who d" "g_node (db_graph d) i = Some m" "gn_id n = gn_id m" "named_by who n"
  shows "db_ok who (d\<lparr>db_graph := g_set_node i n (db_graph d)\<rparr>)"
  using assms coherent_set [of who "db_graph d" _ _ _ i m n] by (simp add: db_ok_def named_by_def)

lemma db_ok_add_node:
  assumes "petgraph_ok pg" "db_ok who d" "named_by who n" "hm_get (db_index d) (gn_id n) = None"
  shows "db_ok who (add_node pg n d)"
proof -
  obtain i g where add: "g_add_node pg n (db_graph d) = (i, g)" by fastforce
  have "hm_get (hm_put (gn_id n) i (db_index d)) = (hm_get (db_index d))(gn_id n \<mapsto> i)"
    by (simp add: fun_eq_iff)
  with assms coherent_add [OF assms(1) add] show ?thesis
    by (simp add: db_ok_def add_node_def add named_by_def)
qed

lemma put_node_ok:
  assumes "petgraph_ok pg" "db_ok who d" "named_by who n"
  shows "db_ok who (snd (put_node pg n d)) \<and> fst (put_node pg n d) = Inr ()"
proof (cases "hm_get (db_index d) (gn_id n)")
  case None
  with assms show ?thesis by (simp add: put_node_def db_ok_add_node)
next
  case (Some i)
  with assms(2) obtain m where m: "g_node (db_graph d) i = Some m" "gn_id m = gn_id n"
    by (rule db_ok_node)
  with Some assms show ?thesis by (simp add: put_node_def db_ok_set_node)
qed

lemma put_nodes_ok:
  assumes "petgraph_ok pg" "db_ok who d" "\<forall>n \<in> set ns. named_by who n"
  shows "db_ok who (snd (put_nodes pg ns d)) \<and> fst (put_nodes pg ns d) = Inr ()"
  using assms(2,3)
proof (induction ns arbitrary: d)
  case (Cons n ns)
  then have put: "db_ok who (snd (put_node pg n d))" "fst (put_node pg n d) = Inr ()"
    using put_node_ok [OF assms(1)] by auto
  with Cons show ?case by (cases "put_node pg n d") (simp add: db_bind_def)
qed simp

lemma upsert_node_ok:
  "petgraph_ok pg \<Longrightarrow> db_ok who d \<Longrightarrow> named_by who n \<Longrightarrow> db_ok who (snd (upsert_node pg n d))"
  unfolding upsert_node_def log_op_def by (intro guarded_ok logged_ok) (simp_all add: put_node_ok)

lemma insert_nodes_batch_ok:
  "petgraph_ok pg \<Longrightarrow> db_ok who d \<Longrightarrow> \<forall>n \<in> set ns. named_by who n \<Longrightarrow>
    db_ok who (snd (insert_nodes_batch pg ns d))"
  unfolding insert_nodes_batch_def by (intro guarded_ok logged_ok) (simp_all add: put_nodes_ok)

section \<open>Removal\<close>

text \<open>
  One node leaving the graph and all three indexes; the two-pass removal ends where the
  one-pass removal does.
\<close>

definition unfile :: "nat \<Rightarrow> graph_node \<Rightarrow> graph_db \<Rightarrow> graph_db" where
  "unfile i n d =
     d\<lparr>db_graph := g_remove_node i (db_graph d), db_index := hm_del (gn_id n) (db_index d),
       db_names := idx_drop (gn_name n) i (db_names d),
       db_paths := idx_drop (gn_path n) i (db_paths d)\<rparr>"

lemma unfile_ok:
  assumes "db_ok who d" "g_node (db_graph d) i = Some n"
  shows "db_ok who (unfile i n d)"
proof -
  have "hm_get (hm_del (gn_id n) (db_index d)) = (hm_get (db_index d))(gn_id n := None)"
    by (simp add: fun_eq_iff)
  with assms coherent_remove [OF _ assms(2)] show ?thesis by (simp add: db_ok_def unfile_def)
qed

lemma remove_stale_ok: "db_ok who d \<Longrightarrow> db_ok who (snd (remove_stale ids d removed))"
proof (induction ids arbitrary: d removed)
  case (Cons nid ids)
  show ?case
  proof (cases "hm_get (db_index d) nid")
    case None
    with Cons show ?thesis by simp
  next
    case (Some i)
    with Cons.prems obtain n where n: "g_node (db_graph d) i = Some n" "gn_id n = nid"
      by (rule db_ok_node)
    with Some Cons.IH [OF unfile_ok [OF Cons.prems n(1)]] show ?thesis
      by (simp add: unfile_def)
  qed
qed simp

lemma hm_del_absent: "hm_get m k = None \<Longrightarrow> hm_del k m = m"
  by (induction m) (auto simp: hm_del_def hm_get_def split: if_splits)

lemma hm_get_clear:
  "hm_get (db_index (clear_indexes ids c d)) nid =
     (if nid \<in> set ids then None else hm_get (db_index d) nid)"
  by (simp add: clear_indexes_def hm.get_fold_del)

lemma clear_indexes_graph [simp]: "db_graph (clear_indexes ids c d) = db_graph d"
  by (simp add: clear_indexes_def)

lemma clear_indexes_Nil [simp]: "clear_indexes [] [] d = d"
  by (simp add: clear_indexes_def)

lemma clear_indexes_skip:
  assumes "hm_get (db_index (clear_indexes ids c d)) nid = None"
  shows "clear_indexes (ids @ [nid]) c d = clear_indexes ids c d"
  using assms hm_del_absent [of "fold hm_del ids (db_index d)" nid]
  by (simp add: clear_indexes_def)

lemma clear_indexes_unfile:
  "clear_indexes (ids @ [gn_id n]) (c @ [(gn_path n, gn_name n, i)])
     (d\<lparr>db_graph := g_remove_node i (db_graph d)\<rparr>) = unfile i n (clear_indexes ids c d)"
  by (simp add: clear_indexes_def unfile_def)

lemma take_nodes_stale:
  assumes "db_ok who (clear_indexes gone c d)"
    and "\<And>nid i. nid \<in> set gone \<Longrightarrow> hm_get (db_index d) nid = Some i \<Longrightarrow> g_node (db_graph d) i = None"
    and "take_nodes ids d r c = (d', r', c')"
  shows "\<exists>R'. remove_stale ids (clear_indexes gone c d) R = (R', clear_indexes (gone @ ids) c' d')
     \<and> r' + length R = r + length R'"
  using assms
proof (induction ids arbitrary: gone c d r R)
  case (Cons nid ids)
  let ?V = "clear_indexes gone c d"
  show ?case
  proof (cases "hm_get (db_index ?V) nid")
    case None
    then have skip: "clear_indexes (gone @ [nid]) c d = ?V" by (rule clear_indexes_skip)
    have absent: "g_node (db_graph d) i = None" if "hm_get (db_index d) nid = Some i" for i
      using None that Cons.prems(2) by (auto simp: hm_get_clear split: if_splits)
    then have rest: "take_nodes ids d r c = (d', r', c')"
      using Cons.prems(3) by (auto split: option.splits)
    from Cons.IH [of "gone @ [nid]" c d r R] Cons.prems(1,2) absent rest skip None
    show ?thesis by auto
  next
    case (Some i)
    with Cons.prems(1) obtain n where n: "g_node (db_graph d) i = Some n" "gn_id n = nid"
      by (auto elim: db_ok_node)
    from Some have fresh: "nid \<notin> set gone" "hm_get (db_index d) nid = Some i"
      by (auto simp: hm_get_clear split: if_splits)
    let ?d = "d\<lparr>db_graph := g_remove_node i (db_graph d)\<rparr>"
    let ?c = "c @ [(gn_path n, gn_name n, i)]"
    have V: "clear_indexes (gone @ [nid]) ?c ?d = unfile i n ?V"
      using clear_indexes_unfile [of gone n c i d] n(2) by simp
    have "db_ok who (clear_indexes (gone @ [nid]) ?c ?d)"
      unfolding V by (rule unfile_ok) (use Cons.prems(1) n in simp_all)
    moreover have "g_node (db_graph ?d) j = None"
      if "k \<in> set (gone @ [nid])" "hm_get (db_index ?d) k = Some j" for k j
      using that fresh Cons.prems(2) by auto
    moreover have "take_nodes ids ?d (Suc r) ?c = (d', r', c')"
      using Cons.prems(3) fresh n by simp
    ultimately obtain R' where
      "remove_stale ids (unfile i n ?V) (R @ [nid]) = (R', clear_indexes ((gone @ [nid]) @ ids) c' d')"
      "r' + length (R @ [nid]) = Suc r + length R'"
      using Cons.IH [of "gone @ [nid]" ?c ?d "Suc r" "R @ [nid]"] unfolding V by blast
    with Some n show ?thesis by (auto simp: unfile_def)
  qed
qed simp

text \<open>So both removals have one effect and report one count.\<close>

lemma take_nodes_effect:
  assumes "db_ok who d" and "take_nodes ids d 0 [] = (d', r, c)"
  shows "clear_indexes ids c d' = snd (remove_stale ids d [])"
    and "r = length (fst (remove_stale ids d []))"
  using take_nodes_stale [of who "[]" "[]" d ids 0 d' r c "[]"] assms by auto

lemma remove_nodes_effect:
  assumes "db_ok who d"
  shows "db_ok who (let (d', removed, cleared) = take_nodes ids d 0 [] in clear_indexes ids cleared d')"
proof -
  obtain d' r c where t: "take_nodes ids d 0 [] = (d', r, c)" by (metis prod_cases3)
  with take_nodes_effect [OF assms t] remove_stale_ok [OF assms, of ids "[]"] show ?thesis by simp
qed

lemma remove_nodes_by_ids_ok: "db_ok who d \<Longrightarrow> db_ok who (snd (remove_nodes_by_ids ids d))"
  unfolding remove_nodes_by_ids_def log_op_def
  by (intro guarded_ok logged_ok) (use remove_nodes_effect in \<open>auto simp: Let_def split_beta\<close>)

lemma db_ok_edges:
  assumes "db_ok who d" "g_nodes g = g_nodes (db_graph d)" "set (g_edges g) \<subseteq> set (g_edges (db_graph d))"
  shows "db_ok who (d\<lparr>db_graph := g\<rparr>)"
  using assms(1) coherent_edges [OF _ assms(2,3)] by (simp add: db_ok_def)

lemma remove_edges_ok: "db_ok who d \<Longrightarrow> db_ok who (snd (remove_edges es d))"
  unfolding remove_edges_def log_op_def Let_def
  by (intro guarded_ok logged_ok) (auto intro!: db_ok_edges)

section \<open>Edges\<close>

lemma db_ok_add_edge:
  assumes "db_ok who d" "hm_get (db_index d) (ge_source_id e) = Some s"
    and "hm_get (db_index d) (ge_target_id e) = Some t"
  shows "db_ok who (d\<lparr>db_graph := g_add_edge s t e (db_graph d)\<rparr>)"
  using assms coherent_add_edge [of who "db_graph d"] by (simp add: db_ok_def)

lemma edge_ends_Inr:
  "edge_ends e d = Inr (s, t) \<longleftrightarrow>
     hm_get (db_index d) (ge_source_id e) = Some s \<and> hm_get (db_index d) (ge_target_id e) = Some t"
  by (auto simp: edge_ends_def split: option.splits)

lemma log_ops_fields [simp, db_simps]:
  "db_index (snd (log_ops ops d)) = db_index d" "db_graph (snd (log_ops ops d)) = db_graph d"
  "db_paths (snd (log_ops ops d)) = db_paths d" "db_names (snd (log_ops ops d)) = db_names d"
  by (simp_all add: log_ops_def)

lemma insert_edge_ok: "db_ok who d \<Longrightarrow> db_ok who (snd (insert_edge e d))"
  unfolding insert_edge_def
proof (rule guarded_ok)
  fix d :: graph_db
  assume d: "db_ok who d"
  show "db_ok who (snd (case edge_ends e d of Inl err \<Rightarrow> (Inl err, d)
    | Inr (s, t) \<Rightarrow> db_bind (log_op (UpsertEdge e) d)
        (\<lambda>_ d. (Inr (), d\<lparr>db_graph := g_add_edge s t e (db_graph d)\<rparr>))))"
  proof (cases "edge_ends e d")
    case (Inr st)
    then obtain s t where st: "edge_ends e d = Inr (s, t)" by (cases st) auto
    show ?thesis unfolding st log_op_def
      by (simp, rule snd_db_bind)
         (use d st db_ok_add_edge [of who "snd (log_ops [UpsertEdge e] d)" e s t] in
           \<open>simp_all add: edge_ends_Inr\<close>)
  qed (use d in simp)
qed

lemma upsert_edge_ok: "db_ok who d \<Longrightarrow> db_ok who (snd (upsert_edge e d))"
  by (simp add: upsert_edge_def insert_edge_ok split: option.split)

lemma batch_edge_ok: "db_ok who d \<Longrightarrow> db_ok who (fst (batch_edge e (d, k)))"
  by (auto simp: batch_edge_def db_ok_add_edge split: option.splits)

lemma batch_edges_ok: "db_ok who (fst dk) \<Longrightarrow> db_ok who (fst (fold batch_edge es dk))"
proof (induction es arbitrary: dk)
  case (Cons e es)
  then show ?case by (cases dk) (simp add: batch_edge_ok)
qed simp

lemma insert_edges_batch_ok: "db_ok who d \<Longrightarrow> db_ok who (snd (insert_edges_batch es d))"
  unfolding insert_edges_batch_def
proof (rule guarded_ok)
  fix d :: graph_db
  assume "db_ok who d"
  then show "db_ok who (snd (db_bind (log_ops (map UpsertEdge (filter (both_local d) es)) d)
      (\<lambda>_ d. let (d', dropped) = fold batch_edge es (d, 0) in (Inr dropped, d'))))"
    by (rule logged_ok) (use batch_edges_ok in \<open>simp add: Let_def split_beta\<close>)
qed

text \<open>The strict batch adds edges whose ends it has resolved.\<close>

definition resolved_in :: "graph_db \<Rightarrow> edge_rec list \<Rightarrow> bool" where
  "resolved_in d rs \<longleftrightarrow>
     (\<forall>(s, t, e) \<in> set rs. hm_get (db_index d) (ge_source_id e) = Some s
        \<and> hm_get (db_index d) (ge_target_id e) = Some t)"

lemma resolve_edges_in:
  "resolve_edges es d acc = Inr rs \<Longrightarrow> resolved_in d acc \<Longrightarrow> resolved_in d rs"
proof (induction es arbitrary: acc)
  case (Cons e es)
  then obtain s t where st: "edge_ends e d = Inr (s, t)"
    and rest: "resolve_edges es d (acc @ [(s, t, e)]) = Inr rs"
    by (auto split: sum.splits)
  from st Cons.prems(2) have "resolved_in d (acc @ [(s, t, e)])"
    by (auto simp: resolved_in_def edge_ends_Inr)
  with rest show ?case by (rule Cons.IH)
qed simp

lemma edges_to_insert_subset: "set (edges_to_insert rs seen d) \<subseteq> set rs"
  by (induction rs seen d rule: edges_to_insert.induct) auto

lemma add_resolved_ok:
  "db_ok who d \<Longrightarrow> resolved_in d rs \<Longrightarrow>
    db_ok who (d\<lparr>db_graph := fold (\<lambda>(s, t, e). g_add_edge s t e) rs (db_graph d)\<rparr>)"
proof (induction rs arbitrary: d)
  case (Cons r rs)
  obtain s t e where r: "r = (s, t, e)" by (cases r)
  let ?d = "d\<lparr>db_graph := g_add_edge s t e (db_graph d)\<rparr>"
  from Cons.prems r have "db_ok who ?d" "resolved_in ?d rs"
    by (auto simp: resolved_in_def db_ok_add_edge)
  from Cons.IH [OF this] show ?case by (simp add: r)
qed simp

lemma upsert_edges_batch_strict_ok:
  "db_ok who d \<Longrightarrow> db_ok who (snd (upsert_edges_batch_strict es d))"
  unfolding upsert_edges_batch_strict_def
proof (rule guarded_ok, goal_cases)
  case (2 d)
  show ?case
  proof (cases "resolve_edges es d []")
    case (Inr rs)
    then have res: "resolved_in d (edges_to_insert rs {} d)"
      using resolve_edges_in [OF Inr] edges_to_insert_subset [of rs "{}" d]
      by (auto simp: resolved_in_def)
    define ins where "ins = edges_to_insert rs {} d"
    from res have ins: "resolved_in (snd (log_ops ops d)) ins" for ops
      by (simp add: ins_def resolved_in_def)
    have "db_ok who (snd (db_bind (log_ops ops d) (\<lambda>_ d. (Inr (), d\<lparr>db_graph :=
        fold (\<lambda>(s, t, e). g_add_edge s t e) ins (db_graph d)\<rparr>))))" for ops
    proof (rule snd_db_bind)
      show "db_ok who (snd (log_ops ops d))" using 2 by simp
      then show "db_ok who (snd (Inr (), (snd (log_ops ops d))\<lparr>db_graph :=
          fold (\<lambda>(s, t, e). g_add_edge s t e) ins (db_graph (snd (log_ops ops d)))\<rparr>))"
        unfolding snd_conv by (rule add_resolved_ok) (rule ins)
    qed
    then show ?thesis
      unfolding Inr Let_def sum.case ins_def [symmetric] using 2 by (simp split: if_split)
  qed (use 2 in simp)
qed simp

end
