(* ===== verification/Store_Replace.thy ===== *)
theory Store_Replace
  imports Store_Ops
begin

text \<open>
  The re-scan of files keeps the database coherent: \<open>replace_nodes_inner\<close> through its three
  loops, the orphan sweep built on it, the replacement of a sensor's output, the single
  field writes, and loading a snapshot.
\<close>

section \<open>Replacing the nodes of a path\<close>

text \<open>The invariant while the path index lags behind: \<open>P\<close> is the index it will become.\<close>

definition mid_ok :: "(string \<Rightarrow> string \<times> string) \<Rightarrow> graph_db \<Rightarrow> (string \<Rightarrow> nat list) \<Rightarrow> bool" where
  "mid_ok who d P \<longleftrightarrow>
     hm_ok (db_index d) \<and> idx_ok (db_names d)
     \<and> coherent who (db_graph d) (hm_get (db_index d)) P (idx_list (db_names d))"

definition overlay :: "(string \<times> nat list) list \<Rightarrow> (string \<Rightarrow> nat list) \<Rightarrow> string \<Rightarrow> nat list" where
  "overlay es F = fold (\<lambda>e F. F(fst e := snd e)) es F"

lemma overlay_snoc: "overlay (es @ [(p, l)]) F = (overlay es F)(p := l)"
  by (simp add: overlay_def)

lemma overlay_other: "p \<notin> fst ` set es \<Longrightarrow> overlay es F p = F p"
  by (induction es arbitrary: F) (auto simp: overlay_def)

lemma idx_list_put_entries: "idx_list (fold put_entry es m) = overlay es (idx_list m)"
  by (induction es arbitrary: m) (auto simp: overlay_def)

lemma idx_ok_put_entries: "idx_ok m \<Longrightarrow> idx_ok (fold put_entry es m)"
  by (induction es arbitrary: m) auto

lemma mid_ok_filed:
  assumes "mid_ok who d P" "i \<in> set (P p)"
  obtains n where "g_node (db_graph d) i = Some n" "gn_path n = p"
  using assms by (auto simp: mid_ok_def coherent_def filed_def)

lemma mid_ok_distinct: "mid_ok who d P \<Longrightarrow> distinct (P p)"
  by (simp add: mid_ok_def coherent_def filed_def)

lemma mid_ok_remove:
  assumes "mid_ok who d (P(p := kept @ i # is))" "g_node (db_graph d) i = Some n" "gn_path n = p"
  shows "mid_ok who (d\<lparr>db_graph := g_remove_node i (db_graph d),
           db_index := hm_del (gn_id n) (db_index d),
           db_names := idx_drop (gn_name n) i (db_names d)\<rparr>) (P(p := kept @ is))"
proof -
  have "distinct (kept @ i # is)" using mid_ok_distinct [OF assms(1), of p] by simp
  then have "filter (\<lambda>j. j \<noteq> i) kept = kept" "filter (\<lambda>j. j \<noteq> i) is = is"
    by (auto intro!: filter_True)
  then have "filter (\<lambda>j. j \<noteq> i) (kept @ i # is) = kept @ is" by simp
  moreover have "hm_get (hm_del (gn_id n) (db_index d)) = (hm_get (db_index d))(gn_id n := None)"
    by (simp add: fun_eq_iff)
  ultimately show ?thesis
    using assms coherent_remove [OF _ assms(2)] unfolding mid_ok_def by fastforce
qed

lemma drop_old_ok:
  assumes "mid_ok who d (P(p := kept @ is))"
    and "drop_old pg ns rep is kept pr rm d = (kept', pr', rm', d')"
  shows "mid_ok who d' (P(p := kept')) \<and> db_paths d' = db_paths d"
  using assms
proof (induction "is" arbitrary: kept pr rm d)
  case (Cons i "is")
  have "i \<in> set ((P(p := kept @ i # is)) p)" by simp
  with Cons.prems(1) obtain n where n: "g_node (db_graph d) i = Some n" "gn_path n = p"
    by (rule mid_ok_filed)
  show ?case
  proof (cases "gn_type n = NT_Namespace \<and> \<not> ns")
    case True
    from Cons.prems(1) have "mid_ok who d (P(p := (kept @ [i]) @ is))"
      by (simp only: append.assoc append_Cons append_Nil)
    from Cons.IH [OF this] Cons.prems(2) n(1) True show ?thesis by simp
  next
    case False
    from Cons.IH [OF mid_ok_remove [OF Cons.prems(1) n]] Cons.prems(2) n(1) False
    show ?thesis by (fastforce simp: Let_def)
  qed
qed simp

lemma mid_ok_named: "mid_ok who d P \<Longrightarrow> g_node (db_graph d) i = Some n \<Longrightarrow> named_by who n"
  by (auto simp: mid_ok_def coherent_def graph_ok_def named_by_def)

lemma mid_ok_lookup:
  assumes "mid_ok who d P"
  shows "hm_get (db_index d) nid = Some i \<longleftrightarrow> map_option gn_id (g_node (db_graph d) i) = Some nid"
  using assms by (simp add: mid_ok_def coherent_def indexed_def)

lemma mid_ok_set:
  assumes "mid_ok who d P" "g_node (db_graph d) i = Some m" "gn_id n = gn_id m" "named_by who n"
  shows "mid_ok who (d\<lparr>db_graph := g_set_node i n (db_graph d)\<rparr>) P"
  using assms coherent_set [of who "db_graph d" _ _ _ i m n] by (simp add: mid_ok_def named_by_def)

lemma named_by_same: "named_by who n \<Longrightarrow> named_by who m \<Longrightarrow> gn_id n = gn_id m \<Longrightarrow>
    gn_path n = gn_path m \<and> gn_name n = gn_name m"
  by (simp add: named_by_def)

lemma add_fresh_ok:
  assumes "petgraph_ok pg" "\<forall>n \<in> set ns. gn_path n = p \<and> named_by who n"
    and "mid_ok who d (P(p := fresh))" "add_fresh pg ns seen fresh d = (fresh', d')"
  shows "mid_ok who d' (P(p := fresh')) \<and> db_paths d' = db_paths d"
  using assms(2-4)
proof (induction ns arbitrary: seen fresh d)
  case (Cons n ns)
  then have n: "gn_path n = p" "named_by who n" and ns: "\<forall>n \<in> set ns. gn_path n = p \<and> named_by who n"
    by simp_all
  show ?case
  proof (cases "gn_id n \<in> seen")
    case True
    with Cons ns show ?thesis by simp
  next
    case False
    show ?thesis
    proof (cases "hm_get (db_index d) (gn_id n)")
      case None
      obtain i g where add: "g_add_node pg n (db_graph d) = (i, g)" by fastforce
      let ?d = "d\<lparr>db_graph := g, db_index := hm_put (gn_id n) i (db_index d),
        db_names := idx_push (gn_name n) i (db_names d)\<rparr>"
      have "hm_get (hm_put (gn_id n) i (db_index d)) = (hm_get (db_index d))(gn_id n \<mapsto> i)"
        by (simp add: fun_eq_iff)
      with Cons.prems(2) n None coherent_add [OF assms(1) add]
      have "mid_ok who ?d (P(p := fresh @ [i]))"
        unfolding mid_ok_def named_by_def by fastforce
      from Cons.IH [OF ns this] Cons.prems(3) False None add show ?thesis by fastforce
    next
      case (Some i)
      with Cons.prems(2) obtain w where w: "g_node (db_graph d) i = Some w" "gn_id w = gn_id n"
        by (auto simp: mid_ok_lookup)
      with named_by_same [OF n(2) mid_ok_named [OF Cons.prems(2) w(1)]] n
      have "gn_path w = p" by simp
      moreover have "set ((P(p := fresh)) p) = {i. \<exists>n. g_node (db_graph d) i = Some n \<and> gn_path n = p}"
        using Cons.prems(2) unfolding mid_ok_def coherent_def filed_def by blast
      ultimately have mem: "i \<in> set fresh" using w(1) by auto
      let ?d = "d\<lparr>db_graph := g_set_node i n (db_graph d)\<rparr>"
      from Cons.prems(2) w(1) w(2) [symmetric] n(2) have "mid_ok who ?d (P(p := fresh))"
        by (rule mid_ok_set)
      from Cons.IH [OF ns this] Cons.prems(3) False Some w mem show ?thesis by fastforce
    qed
  qed
qed simp

lemma replace_paths_ok:
  assumes "petgraph_ok pg" "\<forall>n \<in> set nodes. named_by who n"
    and "mid_ok who d (overlay es (idx_list (db_paths d)))"
    and "distinct ps" "set ps \<inter> fst ` set es = {}"
    and "replace_paths pg ns rep nodes ps es pr rm d = (es', pr', rm', d')"
  shows "mid_ok who d' (overlay es' (idx_list (db_paths d'))) \<and> db_paths d' = db_paths d"
  using assms(3-6)
proof (induction ps arbitrary: es pr rm d)
  case (Cons p ps)
  let ?F = "idx_list (db_paths d)"
  obtain kept pr1 rm1 d1 where drop:
    "drop_old pg ns rep (?F p) [] pr rm d = (kept, pr1, rm1, d1)"
    by (metis prod_cases4)
  obtain fresh d2 where add:
    "add_fresh pg (filter (\<lambda>n. gn_path n = p) nodes) {} kept d1 = (fresh, d2)"
    by fastforce
  have "overlay es ?F = (overlay es ?F)(p := [] @ ?F p)"
    using Cons.prems(3) by (auto simp: fun_eq_iff overlay_other)
  with Cons.prems(1) have "mid_ok who d ((overlay es ?F)(p := [] @ ?F p))" by simp
  from drop_old_ok [OF this drop] have d1: "mid_ok who d1 ((overlay es ?F)(p := kept))"
    and p1: "db_paths d1 = db_paths d" by auto
  from add_fresh_ok [OF assms(1) _ d1 add] assms(2)
  have "mid_ok who d2 ((overlay es ?F)(p := fresh))" and p2: "db_paths d2 = db_paths d"
    using p1 by auto
  then have "mid_ok who d2 (overlay (es @ [(p, fresh)]) (idx_list (db_paths d2)))"
    by (simp add: overlay_snoc)
  moreover have "distinct ps" "set ps \<inter> fst ` set (es @ [(p, fresh)]) = {}"
    using Cons.prems(2,3) by auto
  moreover have "replace_paths pg ns rep nodes ps (es @ [(p, fresh)]) pr1 rm1 d2 = (es', pr', rm', d')"
    using Cons.prems(4) drop add by simp
  ultimately have "mid_ok who d' (overlay es' (idx_list (db_paths d'))) \<and> db_paths d' = db_paths d2"
    by (rule Cons.IH)
  with p2 show ?case by metis
qed simp

lemma restore_edge_ok: "mid_ok who d P \<Longrightarrow> mid_ok who (restore_edge e d) P"
  using coherent_add_edge [of who "db_graph d" _ P _ e]
  by (auto simp: restore_edge_def mid_ok_def split: option.splits)

lemma restore_edges_ok: "mid_ok who d P \<Longrightarrow> mid_ok who (fold restore_edge es d) P"
  by (induction es arbitrary: d) (auto simp: restore_edge_ok)

lemma restore_edges_paths [simp]: "db_paths (fold restore_edge es d) = db_paths d"
proof (induction es arbitrary: d)
  case (Cons e es)
  have "db_paths (restore_edge e d) = db_paths d"
    by (simp add: restore_edge_def split: option.split)
  with Cons show ?case by simp
qed simp

lemma replace_nodes_inner_ok:
  assumes "petgraph_ok pg" "db_ok who d" "\<forall>n \<in> set nodes. named_by who n"
  shows "db_ok who (snd (replace_nodes_inner pg paths nodes ns d))"
  unfolding replace_nodes_inner_def
proof (rule guarded_ok [OF assms(2)])
  fix d
  assume d: "db_ok who d"
  obtain es pr rm d1 where r:
    "replace_paths pg ns (set paths) nodes (remdups (sort paths)) [] [] [] d = (es, pr, rm, d1)"
    by (metis prod_cases4)
  from d have "mid_ok who d (overlay [] (idx_list (db_paths d)))"
    by (simp add: mid_ok_def db_ok_def overlay_def)
  from replace_paths_ok [OF assms(1,3) this _ _ r]
  have d1: "mid_ok who d1 (overlay es (idx_list (db_paths d1)))" "db_paths d1 = db_paths d" by auto
  let ?d2 = "fold restore_edge pr d1"
  from restore_edges_ok [OF d1(1)] have
    "mid_ok who ?d2 (idx_list (fold put_entry es (db_paths ?d2)))"
    by (simp add: idx_list_put_entries)
  moreover have "idx_ok (fold put_entry es (db_paths ?d2))"
    using d d1(2) by (simp add: idx_ok_put_entries db_ok_def)
  ultimately show "db_ok who (snd (let (entries, preserved, removed, d1) =
             replace_paths pg ns (set paths) nodes (remdups (sort paths)) [] [] [] d;
           d2 = fold restore_edge preserved d1;
           d3 = d2\<lparr>db_paths := fold put_entry entries (db_paths d2)\<rparr> in
       (Inr (length removed), d3)))"
    by (simp add: r Let_def db_ok_def mid_ok_def)
qed

lemma prune_keys_ok:
  "petgraph_ok pg \<Longrightarrow> db_ok who d \<Longrightarrow> db_ok who (snd (prune_keys pg live keys k d))"
proof (induction keys arbitrary: k d)
  case (Cons key keys)
  show ?case
    by simp (rule snd_db_bind, use Cons.prems in \<open>simp add: replace_nodes_inner_ok\<close>,
      use Cons in \<open>simp add: replace_nodes_inner_ok\<close>)
qed simp

lemma prune_orphans_ok:
  "petgraph_ok pg \<Longrightarrow> db_ok who d \<Longrightarrow> db_ok who (snd (prune_orphans pg tracked d))"
  unfolding prune_orphans_def by (rule guarded_ok) (simp_all add: prune_keys_ok)

end
