(* ===== verification/Store_Run.thy ===== *)
theory Store_Run
  imports Store_Replace
begin

text \<open>
  The remaining mutators, the run of any sequence of them as one state machine, and
  loading a snapshot. \<open>reset\<close> is the one operation that breaks the invariant.
\<close>

section \<open>Field writes and sensor output\<close>

lemma db_ok_set_field:
  assumes "db_ok who d" "g_node (db_graph d) i = Some m"
    and "gn_id n = gn_id m" "gn_name n = gn_name m" "gn_path n = gn_path m"
  shows "db_ok who (d\<lparr>db_graph := g_set_node i n (db_graph d)\<rparr>)"
  using db_ok_named [OF assms(1,2)] assms by (intro db_ok_set_node) (simp_all add: named_by_def)

lemma db_ok_bind:
  "db_ok who (snd r) \<Longrightarrow> (\<And>x d. db_ok who d \<Longrightarrow> db_ok who (snd (f x d))) \<Longrightarrow>
    db_ok who (snd (db_bind r f))"
  by (rule snd_db_bind) auto

lemma set_embedding_ok: "db_ok who d \<Longrightarrow> db_ok who (snd (set_embedding nid emb d))"
  unfolding set_embedding_def
  by (rule guarded_ok) (auto simp: db_ok_set_field split: option.split)

lemma set_entry_ok: "db_ok who d \<Longrightarrow> db_ok who (snd (set_entry nid k d))"
  unfolding set_entry_def
  by (rule guarded_ok) (auto simp: db_ok_set_field split: option.split)

lemma map_of_map_snd: "map_of (map (\<lambda>(i, n). (i, h n)) xs) k = map_option h (map_of xs k)"
  by (induction xs) auto

lemma coherent_map:
  assumes "coherent who g I P N"
    and "\<And>n. gn_id (h n) = gn_id n \<and> gn_name (h n) = gn_name n \<and> gn_path (h n) = gn_path n"
  shows "coherent who (g\<lparr>g_nodes := map (\<lambda>(i, n). (i, h n)) (g_nodes g)\<rparr>) I P N"
proof -
  let ?g = "g\<lparr>g_nodes := map (\<lambda>(i, n). (i, h n)) (g_nodes g)\<rparr>"
  have node: "g_node ?g k = map_option h (g_node g k)" for k
    by (simp add: g_node_def map_of_map_snd)
  have id: "map_option gn_id (g_node ?g k) = map_option gn_id (g_node g k)" for k
    by (simp add: node option.map_comp comp_def assms(2))
  have keys: "map fst (g_nodes ?g) = map fst (g_nodes g)" by (simp add: comp_def split_beta)
  note c = coherentD [OF assms(1)]
  from c(1) have "graph_ok who ?g"
    unfolding graph_ok_def edges_ok_def keys id by (auto simp: node assms(2))
  moreover from c(2) have "indexed ?g I" by (simp add: indexed_def id)
  moreover from c(3) have "filed ?g gn_path P" by (auto simp: filed_def node assms(2))
  moreover from c(4) have "filed ?g gn_name N" by (auto simp: filed_def node assms(2))
  ultimately show ?thesis by (rule coherentI)
qed

lemma clear_entries_ok: "db_ok who d \<Longrightarrow> db_ok who (d\<lparr>db_graph := clear_entries (db_graph d)\<rparr>)"
  using coherent_map [of who "db_graph d" _ _ _ "\<lambda>n. n\<lparr>gn_entry := None\<rparr>"]
  by (simp add: db_ok_def clear_entries_def)

lemma replace_sensor_output_ok:
  assumes "petgraph_ok pg" "db_ok who d" "\<forall>n \<in> set nodes. named_by who n"
  shows "db_ok who (snd (replace_sensor_output pg owner nodes edges d))"
  unfolding replace_sensor_output_def
proof (rule guarded_ok [OF assms(2)])
  fix d
  assume d: "db_ok who d"
  obtain rm d1 where r: "remove_stale (map gn_id (filter (\<lambda>n. sensor_owner_of n = Some owner)
      (node_weights (db_graph d)))) d [] = (rm, d1)" by fastforce
  from remove_stale_ok [OF d] r have d1: "db_ok who d1" by (metis snd_conv)
  define d2 where "d2 = (if owner = EntryPointSensor
     then d1\<lparr>db_graph := clear_entries (db_graph d1)\<rparr> else d1)"
  from d1 have d2: "db_ok who d2" by (simp add: d2_def clear_entries_ok)
  show "db_ok who (snd (let stale = map gn_id (filter (\<lambda>n. sensor_owner_of n = Some owner)
                                (node_weights (db_graph d)));
           (removed, d1) = remove_stale stale d [];
           d2 = (if owner = EntryPointSensor
                 then d1\<lparr>db_graph := clear_entries (db_graph d1)\<rparr> else d1) in
       db_bind (if removed \<noteq> [] then log_op (RemoveNodesByIds removed) d2 else (Inr (), d2)) (\<lambda>_ d.
       db_bind (if nodes \<noteq> [] then insert_nodes_batch pg nodes d else (Inr (), d)) (\<lambda>_ d.
       db_bind (if edges \<noteq> [] then insert_edges_batch edges d else (Inr 0, d)) (\<lambda>_ d.
         (Inr (length removed), d))))))"
    unfolding Let_def r split_beta fst_conv snd_conv d2_def [symmetric]
    by (intro db_ok_bind) (simp_all add: d2 assms insert_nodes_batch_ok insert_edges_batch_ok)
qed

section \<open>Runs\<close>

datatype db_event =
    EvUpsertNode graph_node
  | EvInsertNodes "graph_node list"
  | EvReplaceNodes "string list" "graph_node list"
  | EvPruneOrphans "string list"
  | EvRemoveNodes "string list"
  | EvInsertEdge graph_edge
  | EvUpsertEdge graph_edge
  | EvInsertEdges "graph_edge list"
  | EvStrictEdges "graph_edge list"
  | EvRemoveEdges "graph_edge list"
  | EvSensorOutput sensor_owner "graph_node list" "graph_edge list"
  | EvSetEmbedding string string
  | EvSetEntry string entry_kind
  | EvTakePending
  | EvSetLastCommit string

fun db_step :: "petgraph \<Rightarrow> db_event \<Rightarrow> graph_db \<Rightarrow> graph_db" where
  "db_step pg (EvUpsertNode n) d = snd (upsert_node pg n d)"
| "db_step pg (EvInsertNodes ns) d = snd (insert_nodes_batch pg ns d)"
| "db_step pg (EvReplaceNodes ps ns) d = snd (replace_nodes_for_paths pg ps ns d)"
| "db_step pg (EvPruneOrphans tracked) d = snd (prune_orphans pg tracked d)"
| "db_step pg (EvRemoveNodes ids) d = snd (remove_nodes_by_ids ids d)"
| "db_step pg (EvInsertEdge e) d = snd (insert_edge e d)"
| "db_step pg (EvUpsertEdge e) d = snd (upsert_edge e d)"
| "db_step pg (EvInsertEdges es) d = snd (insert_edges_batch es d)"
| "db_step pg (EvStrictEdges es) d = snd (upsert_edges_batch_strict es d)"
| "db_step pg (EvRemoveEdges es) d = snd (remove_edges es d)"
| "db_step pg (EvSensorOutput owner ns es) d = snd (replace_sensor_output pg owner ns es d)"
| "db_step pg (EvSetEmbedding nid emb) d = snd (set_embedding nid emb d)"
| "db_step pg (EvSetEntry nid k) d = snd (set_entry nid k d)"
| "db_step pg EvTakePending d = snd (take_pending_external_edges d)"
| "db_step pg (EvSetLastCommit h) d = snd (set_last_commit h d)"

fun event_nodes :: "db_event \<Rightarrow> graph_node list" where
  "event_nodes (EvUpsertNode n) = [n]"
| "event_nodes (EvInsertNodes ns) = ns"
| "event_nodes (EvReplaceNodes _ ns) = ns"
| "event_nodes (EvSensorOutput _ ns _) = ns"
| "event_nodes _ = []"

definition event_ok :: "petgraph \<Rightarrow> (string \<Rightarrow> string \<times> string) \<Rightarrow> db_event \<Rightarrow> bool" where
  "event_ok pg who ev \<longleftrightarrow> petgraph_ok pg \<and> (\<forall>n \<in> set (event_nodes ev). named_by who n)"

lemma set_last_commit_ok: "db_ok who d \<Longrightarrow> db_ok who (snd (set_last_commit h d))"
  unfolding set_last_commit_def by (rule guarded_ok) simp_all

lemmas mutator_ok =
  upsert_node_ok insert_nodes_batch_ok replace_nodes_inner_ok prune_orphans_ok
  remove_nodes_by_ids_ok insert_edge_ok upsert_edge_ok insert_edges_batch_ok
  upsert_edges_batch_strict_ok remove_edges_ok replace_sensor_output_ok set_embedding_ok
  set_entry_ok set_last_commit_ok

lemma db_step_ok: "event_ok pg who ev \<Longrightarrow> db_ok who d \<Longrightarrow> db_ok who (db_step pg ev d)"
  by (cases ev)
     (simp_all add: event_ok_def mutator_ok replace_nodes_for_paths_def take_pending_external_edges_def)

interpretation db_machine: machine "db_step pg" "event_ok pg who" "db_ok who" for pg who
  by unfold_locales (rule db_step_ok)

section \<open>Loading a snapshot\<close>

lemma push_nodes_list:
  "idx_list (fold (\<lambda>(i, n). idx_push (f n) i) xs m) k =
     idx_list m k @ map fst (filter (\<lambda>(i, n). f n = k) xs)"
  by (induction xs arbitrary: m) auto

lemma push_nodes_ok: "idx_ok m \<Longrightarrow> idx_ok (fold (\<lambda>(i, n). idx_push (f n) i) xs m)"
  by (induction xs arbitrary: m) auto

lemma filed_rebuilt:
  assumes "distinct (map fst (g_nodes g))"
  shows "filed g f (\<lambda>k. map fst (filter (\<lambda>(i, n). f n = k) (g_nodes g)))"
proof -
  have "g_node g i = Some n \<longleftrightarrow> (i, n) \<in> set (g_nodes g)" for i n
    using assms by (auto simp: g_node_def dest: map_of_SomeD)
  with assms show ?thesis by (force simp: filed_def distinct_map_filter)
qed

lemma heal_coherent:
  assumes "graph_ok who g" "indexed g (hm_get m)"
  shows "heal_duplicate_ids pg \<lparr>gs_graph = g, gs_index = m, gs_last_commit = c, gs_calls_published = p\<rparr>
     = \<lparr>gs_graph = g, gs_index = m, gs_last_commit = c, gs_calls_published = p\<rparr>"
proof -
  have "hm_get m (gn_id n) = Some i" if "(i, n) \<in> set (g_nodes g)" for i n
  proof -
    from that assms(1) have "g_node g i = Some n" by (simp add: g_node_def graph_ok_def)
    with assms(2) show ?thesis by (simp add: indexed_def)
  qed
  then have "filter (\<lambda>(i, n). hm_get m (gn_id n) \<noteq> Some i) (g_nodes g) = []"
    by (auto simp: filter_empty_conv)
  then show ?thesis by (simp add: heal_duplicate_ids_def)
qed

lemma load_snapshot_ok:
  assumes "db_ok who d"
  shows "db_ok who (apply_state_loaded pg (build_state d) d0)"
    and "db_graph (apply_state_loaded pg (build_state d) d0) = db_graph d"
    and "hm_get (db_index (apply_state_loaded pg (build_state d) d0)) = hm_get (db_index d)"
proof -
  let ?d = "apply_state_loaded pg (build_state d) d0"
  from assms have g: "graph_ok who (db_graph d)" "indexed (db_graph d) (hm_get (db_index d))"
    and dist: "distinct (map fst (g_nodes (db_graph d)))" and hm: "hm_ok (db_index d)"
    by (simp_all add: db_ok_def coherent_def graph_ok_def)
  have heal: "heal_duplicate_ids pg (build_state d) = build_state d"
    unfolding build_state_def by (rule heal_coherent [OF g])
  show graph: "db_graph ?d = db_graph d"
    unfolding apply_state_loaded_def Let_def heal by (simp add: build_state_def)
  have index: "db_index ?d = fold (\<lambda>(k, v). hm_put k v) (db_index d) hm_empty"
    unfolding apply_state_loaded_def Let_def heal by (simp add: build_state_def)
  from hm have "distinct (map fst (db_index d))" by (simp add: hm_ok_def hm_keys_def)
  then show get: "hm_get (db_index ?d) = hm_get (db_index d)"
    unfolding index by (simp add: fun_eq_iff hm.get_fold_put hm_get_def [of "db_index d"] split: option.split)
  have paths: "idx_list (db_paths ?d) = (\<lambda>k. map fst (filter (\<lambda>(i, n). gn_path n = k) (g_nodes (db_graph d))))"
    and names: "idx_list (db_names ?d) = (\<lambda>k. map fst (filter (\<lambda>(i, n). gn_name n = k) (g_nodes (db_graph d))))"
    unfolding apply_state_loaded_def Let_def heal
    by (simp_all add: build_state_def fun_eq_iff push_nodes_list)
  have "idx_ok (db_paths ?d)" "idx_ok (db_names ?d)"
    unfolding apply_state_loaded_def Let_def by (simp_all add: push_nodes_ok)
  moreover have "hm_ok (db_index ?d)" unfolding index by (simp add: hm.ok_fold_put)
  moreover have "coherent who (db_graph ?d) (hm_get (db_index ?d)) (idx_list (db_paths ?d)) (idx_list (db_names ?d))"
    unfolding graph get paths names using g filed_rebuilt [OF dist] by (auto intro: coherentI)
  ultimately show "db_ok who ?d" by (simp add: db_ok_def)
qed

end
