(* ===== verification/Store_Spec.thy ===== *)
theory Store_Spec
  imports Store_Run "HOL-Library.Multiset"
begin

text \<open>
  What the graph database promises, without indices, indexes and log: a partial map from ids
  to nodes and a multiset of edges. Each logged mutator is shown to implement the abstract
  operations it writes to the log, in their order; replaying the log is then the same
  computation, and recovery after a crash reaches the live state.
\<close>

section \<open>The abstract graph\<close>

record gspec =
  sp_nodes :: "string \<Rightarrow> graph_node option"
  sp_edges :: "graph_edge multiset"

definition abs_db :: "graph_db \<Rightarrow> gspec" where
  "abs_db d =
     \<lparr>sp_nodes = (\<lambda>nid. Option.bind (hm_get (db_index d) nid) (g_node (db_graph d))),
      sp_edges = mset (edge_weights (db_graph d))\<rparr>"

definition spec_put :: "graph_node \<Rightarrow> gspec \<Rightarrow> gspec" where
  "spec_put n s =
     (case sp_nodes s (gn_id n) of
        Some existing \<Rightarrow>
          if gn_is_hydrated n \<or> \<not> gn_is_hydrated existing
          then s\<lparr>sp_nodes := (sp_nodes s)(gn_id n \<mapsto> n)\<rparr> else s
      | None \<Rightarrow> s\<lparr>sp_nodes := (sp_nodes s)(gn_id n \<mapsto> n)\<rparr>)"

definition spec_remove :: "string set \<Rightarrow> gspec \<Rightarrow> gspec" where
  "spec_remove ids s =
     s\<lparr>sp_nodes := (\<lambda>nid. if nid \<in> ids then None else sp_nodes s nid),
       sp_edges := filter_mset (\<lambda>e. ge_source_id e \<notin> ids \<and> ge_target_id e \<notin> ids) (sp_edges s)\<rparr>"

definition spec_remove_edges :: "(string \<times> string \<times> edge_type) set \<Rightarrow> gspec \<Rightarrow> gspec" where
  "spec_remove_edges ends s =
     s\<lparr>sp_edges := filter_mset (\<lambda>e. edge_endpoints e \<notin> ends) (sp_edges s)\<rparr>"

definition spec_has_edge :: "graph_edge \<Rightarrow> gspec \<Rightarrow> bool" where
  "spec_has_edge e s \<longleftrightarrow> (\<exists>w \<in># sp_edges s. edge_identity_key w = edge_identity_key e)"

definition spec_add_edge :: "graph_edge \<Rightarrow> gspec \<Rightarrow> gspec" where
  "spec_add_edge e s =
     (if sp_nodes s (ge_source_id e) = None \<or> sp_nodes s (ge_target_id e) = None
         \<or> spec_has_edge e s
      then s else s\<lparr>sp_edges := add_mset e (sp_edges s)\<rparr>)"

fun spec_op :: "graph_op \<Rightarrow> gspec \<Rightarrow> gspec" where
  "spec_op (UpsertNode n) s = spec_put n s"
| "spec_op (UpsertEdge e) s = spec_add_edge e s"
| "spec_op (RemoveNodesByIds ids) s = spec_remove (set ids) s"
| "spec_op (RemoveEdges ends) s = spec_remove_edges (set ends) s"
| "spec_op (CommitIndexMap _) s = s"

definition spec_ops :: "graph_op list \<Rightarrow> gspec \<Rightarrow> gspec" where
  "spec_ops ops = fold spec_op ops"

lemma spec_ops_simps [simp]:
  "spec_ops [] s = s" "spec_ops (op # ops) s = spec_ops ops (spec_op op s)"
  "spec_ops (ops @ ops') s = spec_ops ops' (spec_ops ops s)"
  by (simp_all add: spec_ops_def)

section \<open>The operations through the abstraction\<close>

lemma abs_fields [simp, db_simps]:
  "abs_db (d\<lparr>db_wal := w\<rparr>) = abs_db d" "abs_db (d\<lparr>db_pending_external := p\<rparr>) = abs_db d"
  "abs_db (d\<lparr>db_last_commit := c\<rparr>) = abs_db d" "abs_db (d\<lparr>db_wal_replaying := b\<rparr>) = abs_db d"
  "abs_db (d\<lparr>db_read_only := b\<rparr>) = abs_db d" "abs_db (d\<lparr>db_wal_broken := b\<rparr>) = abs_db d"
  by (simp_all add: abs_db_def)

lemma abs_log [simp, db_simps]: "abs_db (snd (log_ops ops d)) = abs_db d"
  by (simp add: abs_db_def)

lemma abs_none:
  "db_ok who d \<Longrightarrow> sp_nodes (abs_db d) nid = None \<longleftrightarrow> hm_get (db_index d) nid = None"
  by (cases "hm_get (db_index d) nid") (auto simp: abs_db_def elim: db_ok_node)

lemma abs_node:
  assumes "db_ok who d" "hm_get (db_index d) nid = Some i"
  shows "sp_nodes (abs_db d) nid = g_node (db_graph d) i"
  using assms by (simp add: abs_db_def)

lemma bind_eqI: "(\<And>j. m = Some j \<Longrightarrow> f j = g j) \<Longrightarrow> Option.bind m f = Option.bind m g"
  by (cases m) auto

lemma gspec_eqI: "sp_nodes s = sp_nodes t \<Longrightarrow> sp_edges s = sp_edges t \<Longrightarrow> s = (t :: gspec)"
  by simp

lemma abs_set_node:
  assumes "db_ok who d" "g_node (db_graph d) i = Some m" "gn_id n = gn_id m"
  shows "abs_db (d\<lparr>db_graph := g_set_node i n (db_graph d)\<rparr>)
     = (abs_db d)\<lparr>sp_nodes := (sp_nodes (abs_db d))(gn_id n \<mapsto> n)\<rparr>"
proof (rule gspec_eqI)
  have i: "hm_get (db_index d) (gn_id n) = Some i" using assms by (simp add: db_ok_lookup)
  have other: "j \<noteq> i" if "hm_get (db_index d) nid = Some j" "nid \<noteq> gn_id n" for nid j
    using that assms i by (auto simp: db_ok_lookup [OF assms(1)])
  show "sp_nodes (abs_db (d\<lparr>db_graph := g_set_node i n (db_graph d)\<rparr>))
     = sp_nodes ((abs_db d)\<lparr>sp_nodes := (sp_nodes (abs_db d))(gn_id n \<mapsto> n)\<rparr>)"
    using i assms(2) by (auto simp: abs_db_def fun_eq_iff dest: other intro!: bind_eqI)
qed (simp add: abs_db_def edge_weights_def)

lemma abs_add_node:
  assumes "petgraph_ok pg" "db_ok who d" "hm_get (db_index d) (gn_id n) = None"
  shows "abs_db (add_node pg n d) = (abs_db d)\<lparr>sp_nodes := (sp_nodes (abs_db d))(gn_id n \<mapsto> n)\<rparr>"
proof -
  obtain i g where add: "g_add_node pg n (db_graph d) = (i, g)" by fastforce
  note a = g_node_add [OF assms(1) add]
  have other: "j \<noteq> i" if "hm_get (db_index d) nid = Some j" for nid j
    using that a(1) by (auto simp: db_ok_lookup [OF assms(2)])
  show ?thesis
    by (rule gspec_eqI)
       (auto simp: abs_db_def add_node_def add edge_weights_def a(2,3) fun_eq_iff dest: other
          intro!: bind_eqI)
qed

lemma put_node_refines:
  assumes "petgraph_ok pg" "db_ok who d"
  shows "abs_db (snd (put_node pg n d)) = spec_put n (abs_db d)"
proof (cases "hm_get (db_index d) (gn_id n)")
  case None
  then have "sp_nodes (abs_db d) (gn_id n) = None" by (simp add: abs_none [OF assms(2)])
  with None show ?thesis by (simp add: put_node_def spec_put_def abs_add_node [OF assms])
next
  case (Some i)
  with assms(2) obtain m where m: "g_node (db_graph d) i = Some m" "gn_id m = gn_id n"
    by (rule db_ok_node)
  with Some assms show ?thesis
    by (simp add: put_node_def spec_put_def abs_node [OF assms(2)] abs_set_node [OF assms(2)])
qed

lemma put_nodes_refines:
  assumes "petgraph_ok pg" "db_ok who d" "\<forall>n \<in> set ns. named_by who n"
  shows "abs_db (snd (put_nodes pg ns d)) = spec_ops (map UpsertNode ns) (abs_db d)"
  using assms(2,3)
proof (induction ns arbitrary: d)
  case (Cons n ns)
  then have "fst (put_node pg n d) = Inr ()" "db_ok who (snd (put_node pg n d))"
    using put_node_ok [OF assms(1)] by auto
  then have "abs_db (snd (put_nodes pg ns (snd (put_node pg n d))))
      = spec_ops (map UpsertNode ns) (abs_db (snd (put_node pg n d)))"
    using Cons by simp
  with \<open>fst _ = _\<close> put_node_refines [OF assms(1) Cons.prems(1), of n] show ?case
    by (cases "put_node pg n d") (simp add: db_bind_def)
qed simp

text \<open>Edges: an edge record's ends are the nodes its ids name.\<close>

lemma edge_ids:
  assumes "db_ok who d" "(s, t, e) \<in> set (g_edges (db_graph d))"
  shows "hm_get (db_index d) (ge_source_id e) = Some s" "hm_get (db_index d) (ge_target_id e) = Some t"
  using assms by (auto simp: db_ok_lookup) (auto simp: db_ok_def coherent_def graph_ok_def edges_ok_def)

lemma identity_key_iff:
  "edge_identity_key w = edge_identity_key e \<longleftrightarrow>
     ge_source_id w = ge_source_id e \<and> ge_target_id w = ge_target_id e \<and> same_edge_identity w e"
  by (auto simp: edge_identity_key_def same_edge_identity_def)

lemma edge_exists_refines:
  assumes "db_ok who d" "hm_get (db_index d) (ge_source_id e) = Some s"
    and "hm_get (db_index d) (ge_target_id e) = Some t"
  shows "edge_exists d s t e \<longleftrightarrow> spec_has_edge e (abs_db d)"
proof -
  have ends: "s' = s \<and> t' = t \<longleftrightarrow> ge_source_id w = ge_source_id e \<and> ge_target_id w = ge_target_id e"
    if "(s', t', w) \<in> set (g_edges (db_graph d))" for s' t' w
    using edge_ids [OF assms(1) that] assms(2,3)
    by (metis assms(1) db_ok_lookup option.inject)
  have "edge_exists d s t e \<longleftrightarrow> (\<exists>w. (s, t, w) \<in> set (g_edges (db_graph d)) \<and> same_edge_identity w e)"
    by (force simp: edge_exists_def edges_connecting_def list_ex_iff)
  also have "\<dots> \<longleftrightarrow> (\<exists>s' t' w. (s', t', w) \<in> set (g_edges (db_graph d)) \<and> edge_identity_key w = edge_identity_key e)"
    unfolding identity_key_iff using ends by metis
  also have "\<dots> \<longleftrightarrow> spec_has_edge e (abs_db d)"
    by (force simp: spec_has_edge_def abs_db_def edge_weights_def)
  finally show ?thesis .
qed

lemma g_node_add_edge_fun [simp]: "g_node (g_add_edge s t e g) = g_node g"
  by (rule ext) simp

lemma weights_filter:
  "map (\<lambda>(_, _, e). e) (filter (\<lambda>(_, _, e). Q e) xs) = filter Q (map (\<lambda>(_, _, e). e) xs)"
  by (induction xs) auto

lemma abs_add_edge:
  "abs_db (d\<lparr>db_graph := g_add_edge s t e (db_graph d)\<rparr>)
     = (abs_db d)\<lparr>sp_edges := add_mset e (sp_edges (abs_db d))\<rparr>"
  by (rule gspec_eqI) (simp_all add: abs_db_def edge_weights_def)

lemma batch_edge_refines:
  assumes "db_ok who d"
  shows "abs_db (fst (batch_edge e (d, k))) = spec_add_edge e (abs_db d)"
proof (cases "hm_get (db_index d) (ge_source_id e)")
  case None
  with assms show ?thesis by (simp add: batch_edge_def spec_add_edge_def abs_none [OF assms])
next
  case (Some s)
  show ?thesis
  proof (cases "hm_get (db_index d) (ge_target_id e)")
    case None
    with Some show ?thesis by (simp add: batch_edge_def spec_add_edge_def abs_none [OF assms])
  next
    case (Some t)
    with assms \<open>_ = Some s\<close> show ?thesis
      by (simp add: batch_edge_def spec_add_edge_def abs_none [OF assms]
          edge_exists_refines [OF assms] abs_add_edge)
  qed
qed

lemma batch_edge_index [simp]: "db_index (fst (batch_edge e dk)) = db_index (fst dk)"
  by (cases dk) (simp add: batch_edge_def split: option.split)

lemma batch_edges_refine:
  "db_ok who (fst dk) \<Longrightarrow>
    abs_db (fst (fold batch_edge es dk)) = spec_ops (map UpsertEdge es) (abs_db (fst dk))"
proof (induction es arbitrary: dk)
  case (Cons e es)
  obtain d k where dk: "dk = (d, k)" by (cases dk)
  with Cons.prems have "db_ok who (fst (batch_edge e dk))" by (simp add: batch_edge_ok)
  from Cons.IH [OF this] Cons.prems show ?case by (simp add: dk batch_edge_refines [of who])
qed simp

text \<open>An edge with a missing end is no operation, so logging only the others loses nothing.\<close>

lemma spec_add_edge_nodes [simp]: "sp_nodes (spec_add_edge e s) = sp_nodes s"
  by (simp add: spec_add_edge_def)

lemma spec_add_missing:
  "sp_nodes s (ge_source_id e) = None \<or> sp_nodes s (ge_target_id e) = None \<Longrightarrow> spec_add_edge e s = s"
  by (auto simp: spec_add_edge_def)

lemma spec_edges_filter:
  "(\<And>e. P e \<longleftrightarrow> sp_nodes s (ge_source_id e) \<noteq> None \<and> sp_nodes s (ge_target_id e) \<noteq> None) \<Longrightarrow>
    spec_ops (map UpsertEdge (filter P es)) s = spec_ops (map UpsertEdge es) s"
proof (induction es arbitrary: s)
  case (Cons e es)
  show ?case
  proof (cases "P e")
    case True
    have "spec_ops (map UpsertEdge (filter P es)) (spec_add_edge e s)
        = spec_ops (map UpsertEdge es) (spec_add_edge e s)"
      by (rule Cons.IH) (simp add: Cons.prems)
    with True show ?thesis by simp
  next
    case False
    then have "spec_add_edge e s = s" using Cons.prems spec_add_missing by blast
    with False Cons.IH [OF Cons.prems] show ?thesis by simp
  qed
qed simp

section \<open>Removal through the abstraction\<close>

lemma unfile_refines:
  assumes "db_ok who d" "g_node (db_graph d) i = Some n"
  shows "abs_db (unfile i n d) = spec_remove {gn_id n} (abs_db d)"
proof (rule gspec_eqI)
  have i: "hm_get (db_index d) (gn_id n) = Some i" using assms by (simp add: db_ok_lookup)
  have other: "j \<noteq> i" if "hm_get (db_index d) nid = Some j" "nid \<noteq> gn_id n" for nid j
    using that assms by (auto simp: db_ok_lookup [OF assms(1)])
  show "sp_nodes (abs_db (unfile i n d)) = sp_nodes (spec_remove {gn_id n} (abs_db d))"
    by (auto simp: abs_db_def unfile_def spec_remove_def fun_eq_iff dest: other intro!: bind_eqI)
  have "filter (\<lambda>(s, t, _). s \<noteq> i \<and> t \<noteq> i) (g_edges (db_graph d))
      = filter (\<lambda>(_, _, e). ge_source_id e \<noteq> gn_id n \<and> ge_target_id e \<noteq> gn_id n) (g_edges (db_graph d))"
  proof (rule filter_cong [OF refl])
    fix x assume x: "x \<in> set (g_edges (db_graph d))"
    obtain s t e where ste: "x = (s, t, e)" by (cases x)
    note ends = edge_ids [OF assms(1) x [unfolded ste]]
    from ends i have "s \<noteq> i \<longleftrightarrow> ge_source_id e \<noteq> gn_id n" "t \<noteq> i \<longleftrightarrow> ge_target_id e \<noteq> gn_id n"
      by (metis other option.inject)+
    then show "(case x of (s, t, _) \<Rightarrow> s \<noteq> i \<and> t \<noteq> i) =
        (case x of (_, _, e) \<Rightarrow> ge_source_id e \<noteq> gn_id n \<and> ge_target_id e \<noteq> gn_id n)"
      by (simp add: ste)
  qed
  then show "sp_edges (abs_db (unfile i n d)) = sp_edges (spec_remove {gn_id n} (abs_db d))"
    by (simp add: abs_db_def unfile_def spec_remove_def edge_weights_def weights_filter)
qed

lemma spec_remove_comp: "spec_remove B (spec_remove A s) = spec_remove (A \<union> B) s"
  by (rule gspec_eqI) (auto simp: spec_remove_def fun_eq_iff filter_filter_mset intro: filter_mset_cong)

lemma edges_have_ends:
  assumes "db_ok who d" "e \<in># sp_edges (abs_db d)"
  shows "sp_nodes (abs_db d) (ge_source_id e) \<noteq> None" "sp_nodes (abs_db d) (ge_target_id e) \<noteq> None"
proof -
  from assms(2) obtain s t where "(s, t, e) \<in> set (g_edges (db_graph d))"
    by (auto simp: abs_db_def edge_weights_def)
  from edge_ids [OF assms(1) this] show "sp_nodes (abs_db d) (ge_source_id e) \<noteq> None"
    "sp_nodes (abs_db d) (ge_target_id e) \<noteq> None" by (simp_all add: abs_none [OF assms(1)])
qed

lemma spec_remove_absent:
  assumes "db_ok who d" "hm_get (db_index d) nid = None"
  shows "spec_remove {nid} (abs_db d) = abs_db d"
proof (rule gspec_eqI)
  have none: "sp_nodes (abs_db d) nid = None" using assms(2) by (simp add: abs_none [OF assms(1)])
  then show "sp_nodes (spec_remove {nid} (abs_db d)) = sp_nodes (abs_db d)"
    by (auto simp: spec_remove_def fun_eq_iff)
  have "\<forall>e \<in># sp_edges (abs_db d). ge_source_id e \<noteq> nid \<and> ge_target_id e \<noteq> nid"
    using edges_have_ends [OF assms(1)] none by metis
  then show "sp_edges (spec_remove {nid} (abs_db d)) = sp_edges (abs_db d)"
    by (simp add: spec_remove_def filter_mset_eq_conv)
qed

lemma remove_stale_refines:
  "db_ok who d \<Longrightarrow> abs_db (snd (remove_stale ids d rm)) = spec_remove (set ids) (abs_db d)"
proof (induction ids arbitrary: d rm)
  case Nil
  show ?case by (simp add: spec_remove_def filter_mset_True)
next
  case (Cons nid ids)
  have split: "spec_remove (set (nid # ids)) s = spec_remove (set ids) (spec_remove {nid} s)" for s
    by (simp add: spec_remove_comp)
  show ?case
  proof (cases "hm_get (db_index d) nid")
    case None
    with Cons show ?thesis unfolding split by (simp add: spec_remove_absent [OF Cons.prems])
  next
    case (Some i)
    with Cons.prems obtain n where n: "g_node (db_graph d) i = Some n" "gn_id n = nid"
      by (rule db_ok_node)
    from Some n have "remove_stale (nid # ids) d rm = remove_stale ids (unfile i n d) (rm @ [nid])"
      by (simp add: unfile_def)
    with Cons.IH [OF unfile_ok [OF Cons.prems n(1)]] unfile_refines [OF Cons.prems n(1)] n(2)
    show ?thesis unfolding split by simp
  qed
qed

end
