(* ===== verification/Store_Recovery.thy ===== *)
theory Store_Recovery
  imports Store_Spec
begin

text \<open>
  The log is the change: each logged mutator leaves the abstract graph that the operations
  it has appended to the log describe, so loading the last snapshot and replaying the log
  (\<open>load_from_disk\<close>) reaches the state the database had when it stopped.
\<close>

section \<open>Live mutators against their log entries\<close>

definition accepts :: "graph_db \<Rightarrow> bool" where
  "accepts d \<longleftrightarrow> \<not> db_read_only d \<and> \<not> db_wal_broken d \<and> wal_enabled d"

definition flags :: "graph_db \<Rightarrow> bool \<times> bool \<times> bool \<times> bool \<times> graph_op list" where
  "flags d = (db_read_only d, db_wal_broken d, db_persistent d, db_wal_replaying d, db_wal d)"

named_theorems flag_simps \<open>the steps after the log write leave flags and log alone\<close>

lemma flags_accepts: "flags d = flags d' \<Longrightarrow> accepts d = accepts d' \<and> db_wal d = db_wal d'"
  by (simp add: flags_def accepts_def wal_enabled_def)

lemma flags_fields [simp, flag_simps]:
  "flags (d\<lparr>db_graph := g\<rparr>) = flags d" "flags (d\<lparr>db_index := m\<rparr>) = flags d"
  "flags (d\<lparr>db_names := n\<rparr>) = flags d" "flags (d\<lparr>db_paths := p\<rparr>) = flags d"
  "flags (d\<lparr>db_pending_external := q\<rparr>) = flags d" "flags (d\<lparr>db_last_commit := c\<rparr>) = flags d"
  by (simp_all add: flags_def)

lemma flags_put_node [simp, flag_simps]: "flags (snd (put_node pg n d)) = flags d"
  by (simp add: put_node_def add_node_def split_beta flags_def split: option.split)

lemma flags_put_nodes [simp, flag_simps]: "flags (snd (put_nodes pg ns d)) = flags d"
proof (induction ns arbitrary: d)
  case (Cons n ns)
  have "flags (snd (put_nodes pg ns (snd (put_node pg n d)))) = flags d" using Cons by simp
  moreover have "flags (snd (put_node pg n d)) = flags d" by simp
  ultimately show ?case
    by (cases "put_node pg n d"; cases "fst (put_node pg n d)") (simp_all add: db_bind_def)
qed simp

lemma flags_remove_stale [simp, flag_simps]: "flags (snd (remove_stale ids d rm)) = flags d"
  by (induction ids arbitrary: d rm) (auto simp: flags_def split: option.split)

lemma flags_batch_edge [simp, flag_simps]: "flags (fst (batch_edge e dk)) = flags (fst dk)"
  by (cases dk) (simp add: batch_edge_def split: option.split)

lemma flags_batch_edges [simp, flag_simps]: "flags (fst (fold batch_edge es dk)) = flags (fst dk)"
  by (induction es arbitrary: dk) simp_all

lemma accepts_check [simp]: "accepts d \<Longrightarrow> check_writable d = (Inr (), d)"
  by (simp add: accepts_def check_writable_def)

lemma accepts_log: "accepts d \<Longrightarrow> log_ops ops d = (Inr (), d\<lparr>db_wal := db_wal d @ ops\<rparr>)"
  by (simp add: accepts_def log_ops_def)

lemma accepts_wal [simp]: "accepts (d\<lparr>db_wal := w\<rparr>) = accepts d"
  by (simp add: accepts_def wal_enabled_def)

fun op_ok :: "(string \<Rightarrow> string \<times> string) \<Rightarrow> graph_op \<Rightarrow> bool" where
  "op_ok who (UpsertNode n) = named_by who n"
| "op_ok who _ = True"

text \<open>
  An edge is logged only while both its ends are in the graph, so every edge of a log had
  its ends at that point of the history. \<open>effective\<close> says so of a sequence of operations.
\<close>

fun op_effective :: "graph_op \<Rightarrow> gspec \<Rightarrow> bool" where
  "op_effective (UpsertEdge e) s =
     (sp_nodes s (ge_source_id e) \<noteq> None \<and> sp_nodes s (ge_target_id e) \<noteq> None)"
| "op_effective _ s = True"

primrec effective :: "graph_op list \<Rightarrow> gspec \<Rightarrow> bool" where
  "effective [] s = True"
| "effective (op # ops) s = (op_effective op s \<and> effective ops (spec_op op s))"

lemma effective_append [simp]:
  "effective (xs @ ys) s \<longleftrightarrow> effective xs s \<and> effective ys (spec_ops xs s)"
  by (induction xs arbitrary: s) auto

lemma effective_nodes [simp]: "effective (map UpsertNode ns) s"
  by (induction ns arbitrary: s) auto

lemma effective_edges [simp]:
  "effective (map UpsertEdge es) s \<longleftrightarrow>
     (\<forall>e \<in> set es. sp_nodes s (ge_source_id e) \<noteq> None \<and> sp_nodes s (ge_target_id e) \<noteq> None)"
  by (induction es arbitrary: s) auto

definition logged_as :: "(string \<Rightarrow> string \<times> string) \<Rightarrow> graph_op list \<Rightarrow> graph_db \<Rightarrow> graph_db \<Rightarrow> bool" where
  "logged_as who ops d d' \<longleftrightarrow>
     db_wal d' = db_wal d @ ops \<and> abs_db d' = spec_ops ops (abs_db d) \<and> accepts d'
     \<and> list_all (op_ok who) ops \<and> effective ops (abs_db d)"

lemma logged_as_trans:
  "logged_as who ops d d' \<Longrightarrow> logged_as who ops' d' d'' \<Longrightarrow> logged_as who (ops @ ops') d d''"
  by (simp add: logged_as_def)

lemma logged_as_refl: "accepts d \<Longrightarrow> logged_as who [] d d"
  by (simp add: logged_as_def)

lemma logged_asI:
  assumes "accepts d" "flags d' = flags (d\<lparr>db_wal := db_wal d @ ops\<rparr>)"
    and "abs_db d' = spec_ops ops (abs_db d)" "list_all (op_ok who) ops"
    and "effective ops (abs_db d)"
  shows "logged_as who ops d d'"
  using flags_accepts [OF assms(2)] assms by (simp add: logged_as_def)

lemma insert_nodes_batch_logged:
  assumes "petgraph_ok pg" "db_ok who d" "accepts d" "\<forall>n \<in> set ns. named_by who n"
  shows "logged_as who (map UpsertNode ns) d (snd (insert_nodes_batch pg ns d))"
proof (rule logged_asI [OF assms(3)])
  let ?d = "d\<lparr>db_wal := db_wal d @ map UpsertNode ns\<rparr>"
  have eq: "snd (insert_nodes_batch pg ns d) = snd (put_nodes pg ns ?d)"
    by (simp add: insert_nodes_batch_def accepts_log assms(3) db_bind_def)
  show "flags (snd (insert_nodes_batch pg ns d)) = flags ?d" unfolding eq by simp
  have "db_ok who ?d" using assms(2) by simp
  from put_nodes_refines [OF assms(1) this assms(4)]
  show "abs_db (snd (insert_nodes_batch pg ns d)) = spec_ops (map UpsertNode ns) (abs_db d)"
    unfolding eq by simp
  show "list_all (op_ok who) (map UpsertNode ns)" using assms(4) by (simp add: list_all_iff)
qed simp

lemma upsert_node_batch: "snd (upsert_node pg n d) = snd (insert_nodes_batch pg [n] d)"
  by (simp add: upsert_node_def insert_nodes_batch_def log_op_def)
     (auto simp: db_bind_def split: prod.splits sum.splits)

lemma remove_nodes_by_ids_logged:
  assumes "db_ok who d" "accepts d"
  shows "logged_as who [RemoveNodesByIds ids] d (snd (remove_nodes_by_ids ids d))"
proof (rule logged_asI [OF assms(2)])
  let ?d = "d\<lparr>db_wal := db_wal d @ [RemoveNodesByIds ids]\<rparr>"
  have ok: "db_ok who ?d" using assms(1) by simp
  obtain d' r c where t: "take_nodes ids ?d 0 [] = (d', r, c)" by (metis prod_cases3)
  have "snd (remove_nodes_by_ids ids d) = clear_indexes ids c d'"
    by (simp add: remove_nodes_by_ids_def log_op_def accepts_log assms(2) db_bind_def t)
  also have "\<dots> = snd (remove_stale ids ?d [])" by (rule take_nodes_effect [OF ok t])
  finally have eq: "snd (remove_nodes_by_ids ids d) = snd (remove_stale ids ?d [])" .
  show "flags (snd (remove_nodes_by_ids ids d)) = flags ?d" unfolding eq by simp
  show "abs_db (snd (remove_nodes_by_ids ids d)) = spec_ops [RemoveNodesByIds ids] (abs_db d)"
    unfolding eq by (simp add: remove_stale_refines [OF ok])
qed simp_all

definition drop_edges :: "(string \<times> string \<times> edge_type) set \<Rightarrow> graph_db \<Rightarrow> graph_db" where
  "drop_edges ends d =
     d\<lparr>db_graph := (db_graph d)\<lparr>
         g_edges := filter (\<lambda>(_, _, w). edge_endpoints w \<notin> ends) (g_edges (db_graph d)),
         g_tick := Suc (g_tick (db_graph d))\<rparr>\<rparr>"

lemma drop_edges_refines: "abs_db (drop_edges ends d) = spec_remove_edges ends (abs_db d)"
proof (rule gspec_eqI)
  have "g_node (db_graph (drop_edges ends d)) = g_node (db_graph d)"
    by (simp add: fun_eq_iff g_node_def drop_edges_def)
  then show "sp_nodes (abs_db (drop_edges ends d)) = sp_nodes (spec_remove_edges ends (abs_db d))"
    by (simp add: abs_db_def spec_remove_edges_def) (simp add: drop_edges_def)
  show "sp_edges (abs_db (drop_edges ends d)) = sp_edges (spec_remove_edges ends (abs_db d))"
    by (simp add: abs_db_def drop_edges_def spec_remove_edges_def edge_weights_def weights_filter)
qed

lemma remove_edges_effect:
  assumes "check_writable d = (Inr (), d)"
    and "log_ops [RemoveEdges (map edge_endpoints es)] d = (Inr (), d')"
  shows "\<exists>k. remove_edges es d = (Inr k, drop_edges (set (map edge_endpoints es)) d')"
  using assms
  by (simp add: remove_edges_def log_op_def db_bind_def Let_def case_prod_unfold drop_edges_def)

lemma remove_edges_logged:
  assumes "accepts d"
  shows "logged_as who [RemoveEdges (map edge_endpoints es)] d (snd (remove_edges es d))"
proof (rule logged_asI [OF assms])
  let ?d = "d\<lparr>db_wal := db_wal d @ [RemoveEdges (map edge_endpoints es)]\<rparr>"
  from remove_edges_effect [OF accepts_check [OF assms] accepts_log [OF assms]]
  have eq: "snd (remove_edges es d) = drop_edges (set (map edge_endpoints es)) ?d" by (metis snd_conv)
  show "flags (snd (remove_edges es d)) = flags ?d" unfolding eq by (simp add: drop_edges_def)
  show "abs_db (snd (remove_edges es d)) = spec_ops [RemoveEdges (map edge_endpoints es)] (abs_db d)"
    unfolding eq drop_edges_refines by simp
qed simp_all

lemma both_local_spec:
  assumes "db_ok who d"
  shows "both_local d e \<longleftrightarrow>
     sp_nodes (abs_db d) (ge_source_id e) \<noteq> None \<and> sp_nodes (abs_db d) (ge_target_id e) \<noteq> None"
  by (simp add: both_local_def abs_none [OF assms])

lemma insert_edges_batch_logged:
  assumes "db_ok who d" "accepts d"
  shows "logged_as who (map UpsertEdge (filter (both_local d) es)) d (snd (insert_edges_batch es d))"
proof (rule logged_asI [OF assms(2)])
  let ?ops = "map UpsertEdge (filter (both_local d) es)"
  let ?d = "d\<lparr>db_wal := db_wal d @ ?ops\<rparr>"
  have eq: "snd (insert_edges_batch es d) = fst (fold batch_edge es (?d, 0))"
    by (simp add: insert_edges_batch_def accepts_log assms(2) db_bind_def split_beta)
  show "flags (snd (insert_edges_batch es d)) = flags ?d" unfolding eq by simp
  have "db_ok who (fst (?d, 0 :: nat))" using assms(1) by simp
  from batch_edges_refine [OF this, of es]
  have "abs_db (snd (insert_edges_batch es d)) = spec_ops (map UpsertEdge es) (abs_db d)"
    unfolding eq by simp
  also have "\<dots> = spec_ops ?ops (abs_db d)"
    by (rule spec_edges_filter [symmetric]) (rule both_local_spec [OF assms(1)])
  finally show "abs_db (snd (insert_edges_batch es d)) = spec_ops ?ops (abs_db d)" .
qed (simp_all add: list_all_iff both_local_spec [OF assms(1)])

text \<open>A single edge is the batch of one, except that a missing end is an error.\<close>

lemma upsert_edge_logged:
  assumes "db_ok who d" "accepts d"
  shows "\<exists>ops. logged_as who ops d (snd (upsert_edge e d))"
proof (cases "both_local d e")
  case False
  then have "snd (upsert_edge e d) = d"
    by (auto simp: both_local_def upsert_edge_def insert_edge_def edge_ends_def db_bind_def
        accepts_check [OF assms(2)] split: option.splits)
  with logged_as_refl [OF assms(2)] show ?thesis by auto
next
  case True
  note local = True
  then obtain s t where st: "hm_get (db_index d) (ge_source_id e) = Some s"
    "hm_get (db_index d) (ge_target_id e) = Some t" by (auto simp: both_local_def)
  show ?thesis
  proof (cases "edge_exists d s t e")
    case True
    with st have "snd (upsert_edge e d) = d" by (simp add: upsert_edge_def)
    with logged_as_refl [OF assms(2)] show ?thesis by auto
  next
    case False
    have "snd (upsert_edge e d) = d\<lparr>db_wal := db_wal d @ [UpsertEdge e],
        db_graph := g_add_edge s t e (db_graph d)\<rparr>"
      using st False by (simp add: upsert_edge_def insert_edge_def edge_ends_def db_bind_def
          accepts_log accepts_check assms(2) log_op_def)
    moreover have "spec_add_edge e (abs_db d) = abs_db (d\<lparr>db_graph := g_add_edge s t e (db_graph d)\<rparr>)"
      using False edge_exists_refines [OF assms(1) st] st
      by (simp add: spec_add_edge_def abs_none [OF assms(1)] abs_add_edge)
    ultimately have "logged_as who [UpsertEdge e] d (snd (upsert_edge e d))"
      using local
      by (intro logged_asI [OF assms(2)])
        (simp_all add: both_local_spec [OF assms(1)] flags_def, simp_all add: abs_db_def)
    then show ?thesis by blast
  qed
qed

text \<open>The strict batch: after the filter every edge it adds is new.\<close>

lemma spec_add_new_edges:
  assumes "\<forall>e \<in> set es. sp_nodes s (ge_source_id e) \<noteq> None \<and> sp_nodes s (ge_target_id e) \<noteq> None
      \<and> \<not> spec_has_edge e s"
    and "distinct (map edge_identity_key es)"
  shows "spec_ops (map UpsertEdge es) s = s\<lparr>sp_edges := mset es + sp_edges s\<rparr>"
  using assms
proof (induction es arbitrary: s)
  case (Cons e es)
  then have step: "spec_add_edge e s = s\<lparr>sp_edges := add_mset e (sp_edges s)\<rparr>"
    by (auto simp: spec_add_edge_def)
  have "\<not> spec_has_edge f (s\<lparr>sp_edges := add_mset e (sp_edges s)\<rparr>)" if "f \<in> set es" for f
    using Cons.prems that by (force simp: spec_has_edge_def)
  with Cons show ?case by (simp add: step)
qed simp

lemma edges_to_insert_new:
  "(s', t', e') \<in> set (edges_to_insert rs seen d) \<Longrightarrow>
    \<not> edge_exists d s' t' e' \<and> edge_identity_key e' \<notin> seen"
proof (induction rs seen d rule: edges_to_insert.induct)
  case (2 s t e rs seen d)
  show ?case
  proof (cases "edge_identity_key e \<in> seen")
    case True
    with 2 show ?thesis by simp
  next
    case False
    then show ?thesis using "2.IH"(2,3) "2.prems" by (cases "edge_exists d s t e") auto
  qed
qed simp

lemma edges_to_insert_distinct:
  "distinct (map (\<lambda>(_, _, e). edge_identity_key e) (edges_to_insert rs seen d))"
proof (induction rs seen d rule: edges_to_insert.induct)
  case (2 s t e rs seen d)
  have "edge_identity_key e \<notin> (\<lambda>(_, _, e). edge_identity_key e) `
      set (edges_to_insert rs (insert (edge_identity_key e) seen) d)"
    using edges_to_insert_new [of _ _ _ rs "insert (edge_identity_key e) seen" d] by force
  with 2 show ?case by simp
qed simp

lemma add_edges_abs:
  "abs_db (d\<lparr>db_graph := fold (\<lambda>(s, t, e). g_add_edge s t e) rs (db_graph d)\<rparr>)
     = (abs_db d)\<lparr>sp_edges := mset (map (\<lambda>(_, _, e). e) rs) + sp_edges (abs_db d)\<rparr>"
proof (induction rs arbitrary: d)
  case (Cons r rs)
  obtain s t e where r: "r = (s, t, e)" by (cases r)
  show ?case using Cons.IH [of "d\<lparr>db_graph := g_add_edge s t e (db_graph d)\<rparr>"]
    by (simp add: r abs_add_edge)
qed (simp add: gspec_eqI)

lemma strict_batch_logged:
  assumes "db_ok who d" "accepts d"
  shows "\<exists>ops. logged_as who ops d (snd (upsert_edges_batch_strict es d))"
proof (cases "es = []")
  case True
  then show ?thesis using logged_as_refl [OF assms(2), of who] assms(2)
    by (auto simp: upsert_edges_batch_strict_def db_bind_def)
next
  case False
  show ?thesis
  proof (cases "resolve_edges es d []")
    case (Inl err)
    with False have "snd (upsert_edges_batch_strict es d) = d"
      by (simp add: upsert_edges_batch_strict_def db_bind_def assms(2))
    with logged_as_refl [OF assms(2)] show ?thesis by auto
  next
    case (Inr rs)
    define ins where "ins = edges_to_insert rs {} d"
    define es' where "es' = map (\<lambda>(_, _, e). e) ins"
    let ?d = "d\<lparr>db_wal := db_wal d @ map UpsertEdge es'\<rparr>"
    have ops: "map (\<lambda>(_, _, e). UpsertEdge e) ins = map UpsertEdge es'"
      by (simp add: es'_def comp_def split_beta)
    have eq: "snd (upsert_edges_batch_strict es d)
        = ?d\<lparr>db_graph := fold (\<lambda>(s, t, e). g_add_edge s t e) ins (db_graph ?d)\<rparr>"
      using False Inr unfolding upsert_edges_batch_strict_def Let_def ins_def [symmetric]
      by (simp add: db_bind_def assms(2) accepts_log ops ins_def [symmetric]) (simp add: es'_def)
    have res: "resolved_in d ins"
      using resolve_edges_in [OF Inr] edges_to_insert_subset [of rs "{}" d]
      by (auto simp: resolved_in_def ins_def)
    have new: "\<forall>e \<in> set es'. sp_nodes (abs_db d) (ge_source_id e) \<noteq> None
        \<and> sp_nodes (abs_db d) (ge_target_id e) \<noteq> None \<and> \<not> spec_has_edge e (abs_db d)"
    proof
      fix e assume "e \<in> set es'"
      then obtain s t where e: "(s, t, e) \<in> set ins" by (auto simp: es'_def)
      with res have st: "hm_get (db_index d) (ge_source_id e) = Some s"
        "hm_get (db_index d) (ge_target_id e) = Some t" by (auto simp: resolved_in_def)
      from edges_to_insert_new e have "\<not> edge_exists d s t e" unfolding ins_def by blast
      with edge_exists_refines [OF assms(1) st] st
      show "sp_nodes (abs_db d) (ge_source_id e) \<noteq> None
        \<and> sp_nodes (abs_db d) (ge_target_id e) \<noteq> None \<and> \<not> spec_has_edge e (abs_db d)"
        by (simp add: abs_none [OF assms(1)])
    qed
    have "distinct (map edge_identity_key es')"
      using edges_to_insert_distinct [of rs "{}" d] by (simp add: es'_def ins_def comp_def case_prod_unfold)
    with new have "spec_ops (map UpsertEdge es') (abs_db d)
        = (abs_db d)\<lparr>sp_edges := mset es' + sp_edges (abs_db d)\<rparr>"
      by (rule spec_add_new_edges)
    also have "\<dots> = abs_db (snd (upsert_edges_batch_strict es d))"
      unfolding eq add_edges_abs by (simp add: es'_def)
    finally have "logged_as who (map UpsertEdge es') d (snd (upsert_edges_batch_strict es d))"
      by (intro logged_asI [OF assms(2)]) (use new in \<open>simp_all add: eq list_all_iff\<close>)
    then show ?thesis by blast
  qed
qed

section \<open>A sensor's rescan\<close>

lemma remove_stale_ids:
  "db_ok who d \<Longrightarrow>
    set (fst (remove_stale ids d rm)) = set rm \<union> {nid \<in> set ids. hm_get (db_index d) nid \<noteq> None}"
proof (induction ids arbitrary: d rm)
  case (Cons nid ids)
  show ?case
  proof (cases "hm_get (db_index d) nid")
    case None
    with Cons show ?thesis by auto
  next
    case (Some i)
    with Cons.prems obtain n where n: "g_node (db_graph d) i = Some n" "gn_id n = nid"
      by (rule db_ok_node)
    from Some n have eq: "remove_stale (nid # ids) d rm = remove_stale ids (unfile i n d) (rm @ [nid])"
      by (simp add: unfile_def)
    have "hm_get (db_index (unfile i n d)) k = (if k = nid then None else hm_get (db_index d) k)" for k
      using n(2) by (simp add: unfile_def)
    with Cons.IH [OF unfile_ok [OF Cons.prems n(1)], of "rm @ [nid]"] Some
    show ?thesis unfolding eq by auto
  qed
qed simp

lemma spec_remove_dom:
  assumes "db_ok who d"
  shows "spec_remove A (abs_db d) = spec_remove {nid \<in> A. hm_get (db_index d) nid \<noteq> None} (abs_db d)"
proof (rule gspec_eqI)
  show "sp_nodes (spec_remove A (abs_db d))
      = sp_nodes (spec_remove {nid \<in> A. hm_get (db_index d) nid \<noteq> None} (abs_db d))"
  proof
    fix nid
    show "sp_nodes (spec_remove A (abs_db d)) nid
        = sp_nodes (spec_remove {nid \<in> A. hm_get (db_index d) nid \<noteq> None} (abs_db d)) nid"
      using abs_none [OF assms, of nid] by (auto simp: spec_remove_def)
  qed
  show "sp_edges (spec_remove A (abs_db d))
      = sp_edges (spec_remove {nid \<in> A. hm_get (db_index d) nid \<noteq> None} (abs_db d))"
  proof -
    have "ge_source_id e \<notin> A \<and> ge_target_id e \<notin> A \<longleftrightarrow>
        ge_source_id e \<notin> {nid \<in> A. hm_get (db_index d) nid \<noteq> None}
        \<and> ge_target_id e \<notin> {nid \<in> A. hm_get (db_index d) nid \<noteq> None}"
      if "e \<in># sp_edges (abs_db d)" for e
      using edges_have_ends [OF assms that] abs_none [OF assms] by simp
    then show ?thesis
      unfolding spec_remove_def by (simp del: mem_Collect_eq) (rule filter_mset_cong [OF refl], blast)
  qed
qed

definition owned_ids :: "sensor_owner \<Rightarrow> graph_db \<Rightarrow> string list" where
  "owned_ids owner d =
     map gn_id (filter (\<lambda>n. sensor_owner_of n = Some owner) (node_weights (db_graph d)))"

text \<open>What a sensor brings is stored node by node and edge by edge, whoever the sensor is.\<close>

lemma sensor_batches:
  assumes "petgraph_ok pg" "db_ok who d" "accepts d" "\<forall>n \<in> set nodes. named_by who n"
  shows "\<exists>d1 k d2. (if nodes \<noteq> [] then insert_nodes_batch pg nodes d else (Inr (), d)) = (Inr (), d1)
     \<and> (if edges \<noteq> [] then insert_edges_batch edges d1 else (Inr 0, d1)) = (Inr k, d2)
     \<and> logged_as who (map UpsertNode nodes @ map UpsertEdge (filter (both_local d1) edges)) d d2
     \<and> abs_db d2 = spec_ops (map UpsertNode nodes @ map UpsertEdge edges) (abs_db d)"
proof -
  define d1 where "d1 = (if nodes \<noteq> [] then snd (insert_nodes_batch pg nodes d) else d)"
  have 1: "logged_as who (map UpsertNode nodes) d d1"
    using insert_nodes_batch_logged [OF assms] logged_as_refl [OF assms(3)] by (auto simp: d1_def)
  have ok1: "db_ok who d1" using insert_nodes_batch_ok [OF assms(1,2,4)] assms(2) by (simp add: d1_def)
  from 1 have a1: "accepts d1" by (auto simp: logged_as_def)
  define d2 where "d2 = (if edges \<noteq> [] then snd (insert_edges_batch edges d1) else d1)"
  have 2: "logged_as who (map UpsertEdge (filter (both_local d1) edges)) d1 d2"
    using insert_edges_batch_logged [OF ok1 a1] logged_as_refl [OF a1] by (auto simp: d2_def)
  have nodes: "(if nodes \<noteq> [] then insert_nodes_batch pg nodes d else (Inr (), d)) = (Inr (), d1)"
    using put_nodes_ok [OF assms(1) _ assms(4), of "d\<lparr>db_wal := db_wal d @ map UpsertNode nodes\<rparr>"] assms(2)
    by (auto simp: d1_def insert_nodes_batch_def accepts_log assms(3) db_bind_def prod_eq_iff)
  have edges: "\<exists>k. (if edges \<noteq> [] then insert_edges_batch edges d1 else (Inr 0, d1)) = (Inr k, d2)"
    by (auto simp: d2_def insert_edges_batch_def accepts_log a1 db_bind_def split: prod.split)
  have "abs_db d2 = spec_ops (map UpsertNode nodes @ map UpsertEdge edges) (abs_db d)"
    using 1 2 spec_edges_filter [of "both_local d1" "abs_db d1" edges, OF both_local_spec [OF ok1]]
    by (simp add: logged_as_def)
  then show ?thesis using nodes edges logged_as_trans [OF 1 2] by blast
qed

text \<open>The rescan of the entry points first takes their mark from every node.\<close>

definition spec_unmark :: "sensor_owner \<Rightarrow> gspec \<Rightarrow> gspec" where
  "spec_unmark owner s =
     (if owner = EntryPointSensor
      then s\<lparr>sp_nodes := \<lambda>nid. map_option (\<lambda>n. n\<lparr>gn_entry := None\<rparr>) (sp_nodes s nid)\<rparr> else s)"

definition unmark :: "sensor_owner \<Rightarrow> graph_db \<Rightarrow> graph_db" where
  "unmark owner d = (if owner = EntryPointSensor then d\<lparr>db_graph := clear_entries (db_graph d)\<rparr> else d)"

lemma unmark_effect:
  "abs_db (unmark owner d) = spec_unmark owner (abs_db d)"
  "db_ok who d \<Longrightarrow> db_ok who (unmark owner d)"
  "accepts d \<Longrightarrow> accepts (unmark owner d)"
proof -
  have "g_node (clear_entries g) i = map_option (\<lambda>n. n\<lparr>gn_entry := None\<rparr>) (g_node g i)" for g i
    by (simp add: clear_entries_def g_node_def map_of_map)
  then show "abs_db (unmark owner d) = spec_unmark owner (abs_db d)"
    by (auto simp: unmark_def spec_unmark_def abs_db_def clear_entries_def edge_weights_def fun_eq_iff split: bind_split)
qed (simp_all add: unmark_def clear_entries_ok accepts_def wal_enabled_def)

lemma sensor_rescan_effect:
  assumes "petgraph_ok pg" "db_ok who d" "accepts d" "\<forall>n \<in> set nodes. named_by who n"
  shows "\<exists>d'. replace_sensor_output pg owner nodes edges d
         = (Inr (length (fst (remove_stale (owned_ids owner d) d []))), d')
     \<and> abs_db d' = spec_ops (map UpsertNode nodes @ map UpsertEdge edges)
         (spec_unmark owner (spec_remove (set (owned_ids owner d)) (abs_db d)))
     \<and> accepts d'"
proof -
  obtain rm d1 where r: "remove_stale (owned_ids owner d) d [] = (rm, d1)" by fastforce
  have a1: "accepts d1"
    using flags_accepts [OF flags_remove_stale [of "owned_ids owner d" d "[]"]] assms(3) r by simp
  have ok1: "db_ok who d1" using remove_stale_ok [OF assms(2), of "owned_ids owner d" "[]"] r by simp
  have abs1: "abs_db d1 = spec_remove (set (owned_ids owner d)) (abs_db d)"
    using remove_stale_refines [OF assms(2), of "owned_ids owner d" "[]"] r by simp
  let ?d2 = "unmark owner d1"
  define d3 where "d3 = ?d2\<lparr>db_wal := db_wal ?d2 @ (if rm \<noteq> [] then [RemoveNodesByIds rm] else [])\<rparr>"
  have wal: "(if rm \<noteq> [] then log_op (RemoveNodesByIds rm) ?d2 else (Inr (), ?d2)) = (Inr (), d3)"
    using unmark_effect(3) [OF a1] by (simp add: log_op_def accepts_log d3_def)
  have "db_ok who d3" "accepts d3" using unmark_effect(2) [OF ok1] unmark_effect(3) [OF a1] by (simp_all add: d3_def)
  from sensor_batches [OF assms(1) this assms(4), of edges] obtain d4 k d5 where
    batches: "(if nodes \<noteq> [] then insert_nodes_batch pg nodes d3 else (Inr (), d3)) = (Inr (), d4)"
      "(if edges \<noteq> [] then insert_edges_batch edges d4 else (Inr 0, d4)) = (Inr k, d5)"
    and "abs_db d5 = spec_ops (map UpsertNode nodes @ map UpsertEdge edges) (abs_db d3)"
    and "accepts d5" by (auto simp: logged_as_def)
  moreover have "abs_db d3 = spec_unmark owner (spec_remove (set (owned_ids owner d)) (abs_db d))"
    using unmark_effect(1) [of owner d1] by (simp add: d3_def abs1)
  moreover have "replace_sensor_output pg owner nodes edges d = (Inr (length rm), d5)"
    using wal batches unfolding unmark_def
    by (simp add: replace_sensor_output_def assms(3) db_bind_def owned_ids_def [symmetric] r Let_def del: if_split split del: if_split)
  ultimately show ?thesis by (simp add: r)
qed

lemma sensor_output_logged:
  assumes "petgraph_ok pg" "db_ok who d" "accepts d" "\<forall>n \<in> set nodes. named_by who n"
    and "owner \<noteq> EntryPointSensor"
  shows "\<exists>ops. logged_as who ops d (snd (replace_sensor_output pg owner nodes edges d))"
proof -
  obtain rm d1 where r: "remove_stale (owned_ids owner d) d [] = (rm, d1)" by fastforce
  define log where "log = (if rm \<noteq> [] then [RemoveNodesByIds rm] else [])"
  define d2 where "d2 = d1\<lparr>db_wal := db_wal d1 @ log\<rparr>"
  have f1: "flags d1 = flags d" using flags_remove_stale [of "owned_ids owner d" d "[]"] r by simp
  have a1: "accepts d1" using flags_accepts [OF f1] assms(3) by simp
  have ok1: "db_ok who d1" using remove_stale_ok [OF assms(2), of "owned_ids owner d" "[]"] r by simp
  have abs1: "abs_db d1 = spec_remove (set (owned_ids owner d)) (abs_db d)"
    using remove_stale_refines [OF assms(2), of "owned_ids owner d" "[]"] r by simp
  also have "\<dots> = spec_remove (set rm) (abs_db d)"
    using remove_stale_ids [OF assms(2), of "owned_ids owner d" "[]"]
      spec_remove_dom [OF assms(2), of "set (owned_ids owner d)"] r by simp
  finally have "abs_db d1 = spec_remove (set rm) (abs_db d)" .
  moreover have "spec_remove {} s = s" for s
    by (rule gspec_eqI) (simp_all add: spec_remove_def filter_mset_True)
  ultimately have 1: "logged_as who log d d2"
    using f1 by (intro logged_asI [OF assms(3)]) (auto simp: d2_def log_def flags_def)
  have ok2: "db_ok who d2" and a2: "accepts d2" using ok1 a1 by (simp_all add: d2_def)
  have wal: "(if rm \<noteq> [] then log_op (RemoveNodesByIds rm) d1 else (Inr (), d1)) = (Inr (), d2)"
    by (simp add: log_op_def accepts_log a1 d2_def log_def)
  from sensor_batches [OF assms(1) ok2 a2 assms(4), of edges] obtain d3 k d4 where
    batches: "(if nodes \<noteq> [] then insert_nodes_batch pg nodes d2 else (Inr (), d2)) = (Inr (), d3)"
      "(if edges \<noteq> [] then insert_edges_batch edges d3 else (Inr 0, d3)) = (Inr k, d4)"
    and 2: "logged_as who (map UpsertNode nodes @ map UpsertEdge (filter (both_local d3) edges)) d2 d4" by blast
  have "replace_sensor_output pg owner nodes edges d = (Inr (length rm), d4)"
    using assms(5) wal batches
    by (auto simp: replace_sensor_output_def assms(3) db_bind_def owned_ids_def [symmetric] r Let_def)
  then show ?thesis using logged_as_trans [OF 1 2] by auto
qed

section \<open>Runs, crashes and recovery\<close>

fun is_logged :: "db_event \<Rightarrow> bool" where
  "is_logged (EvReplaceNodes _ _) = False"
| "is_logged (EvPruneOrphans _) = False"
| "is_logged (EvInsertEdge _) = False"
| "is_logged (EvSensorOutput owner _ _) = (owner \<noteq> EntryPointSensor)"
| "is_logged (EvSetEmbedding _ _) = False"
| "is_logged (EvSetEntry _ _) = False"
| "is_logged _ = True"

lemma db_step_logged:
  assumes "event_ok pg who ev" "is_logged ev" "db_ok who d" "accepts d"
  shows "\<exists>ops. logged_as who ops d (db_step pg ev d)"
proof -
  have pg: "petgraph_ok pg" using assms(1) by (simp add: event_ok_def)
  note batch = insert_nodes_batch_logged [OF pg assms(3,4)]
  show ?thesis
  proof (cases ev)
    case (EvUpsertNode n)
    with assms(1) batch [of "[n]"] show ?thesis by (auto simp: event_ok_def upsert_node_batch)
  next
    case (EvSensorOutput owner ns es)
    with assms show ?thesis by (auto simp: event_ok_def intro: sensor_output_logged)
  next
    case EvTakePending
    then have "logged_as who [] d (db_step pg ev d)"
      by (intro logged_asI [OF assms(4)]) (simp_all add: take_pending_external_edges_def flags_def)
    then show ?thesis ..
  next
    case (EvSetLastCommit h)
    then have "logged_as who [] d (db_step pg ev d)"
      by (intro logged_asI [OF assms(4)]) (simp_all add: set_last_commit_def assms(4) db_bind_def flags_def)
    then show ?thesis ..
  qed (use assms batch in \<open>auto simp: event_ok_def intro: upsert_edge_logged strict_batch_logged
        insert_edges_batch_logged remove_edges_logged remove_nodes_by_ids_logged\<close>)
qed

lemma run_logged:
  assumes "list_all (event_ok pg who) es" "list_all is_logged es" "db_ok who d" "accepts d"
  shows "\<exists>ops. logged_as who ops d (fold (db_step pg) es d)"
  using assms
proof (induction es arbitrary: d)
  case Nil
  then show ?case using logged_as_refl by auto
next
  case (Cons ev es)
  then obtain ops where ops: "logged_as who ops d (db_step pg ev d)"
    using db_step_logged [of pg who ev d] by auto
  then have "accepts (db_step pg ev d)" by (simp add: logged_as_def)
  with Cons obtain ops' where "logged_as who ops' (db_step pg ev d) (fold (db_step pg) es (db_step pg ev d))"
    using db_step_ok [of pg who ev d] by auto
  with ops show ?case by (auto dest: logged_as_trans)
qed

text \<open>\<open>load_from_disk\<close>: the snapshot, then the log replayed with logging switched off.\<close>

definition load_from_disk :: "petgraph \<Rightarrow> graph_state \<Rightarrow> graph_op list \<Rightarrow> graph_db \<Rightarrow> unit db_result" where
  "load_from_disk pg st ops d0 =
     (let (r, d) = apply_ops pg ops ((apply_state_loaded pg st d0)\<lparr>db_wal_replaying := True\<rparr>)
      in (r, d\<lparr>db_wal_replaying := False\<rparr>))"

definition replaying :: "graph_db \<Rightarrow> bool" where
  "replaying d \<longleftrightarrow> db_wal_replaying d \<and> \<not> db_read_only d"

lemma replaying_log [simp]: "replaying d \<Longrightarrow> log_ops ops d = (Inr (), d)"
  by (simp add: replaying_def log_ops_def wal_enabled_def)

lemma replaying_check [simp]: "replaying d \<Longrightarrow> check_writable d = (Inr (), d)"
  by (simp add: replaying_def check_writable_def)

lemma flags_replaying: "flags d' = flags d \<Longrightarrow> replaying d' = replaying d"
  by (simp add: flags_def replaying_def)

definition replays :: "(string \<Rightarrow> string \<times> string) \<Rightarrow> graph_op \<Rightarrow> graph_db \<Rightarrow> unit db_result \<Rightarrow> bool" where
  "replays who op d r \<longleftrightarrow>
     fst r = Inr () \<and> abs_db (snd r) = spec_op op (abs_db d) \<and> db_ok who (snd r) \<and> flags (snd r) = flags d"

lemma apply_upsert_edge:
  assumes "db_ok who d" "replaying d"
  shows "replays who (UpsertEdge e) d (tolerate (upsert_edge e d))"
proof (cases "both_local d e")
  case False
  then have "tolerate (upsert_edge e d) = (Inr (), d)"
    using assms(2) by (auto simp: both_local_def upsert_edge_def insert_edge_def edge_ends_def
        tolerate_def db_bind_def split: option.split)
  moreover have "spec_add_edge e (abs_db d) = abs_db d"
    using False both_local_spec [OF assms(1)] spec_add_missing by blast
  ultimately show ?thesis using assms by (simp add: replays_def)
next
  case True
  then obtain s t where st: "hm_get (db_index d) (ge_source_id e) = Some s"
    "hm_get (db_index d) (ge_target_id e) = Some t" by (auto simp: both_local_def)
  then have "tolerate (upsert_edge e d) = (Inr (), fst (batch_edge e (d, 0)))"
    using assms(2) by (simp add: upsert_edge_def insert_edge_def edge_ends_def db_bind_def
        tolerate_def log_op_def batch_edge_def)
  then show ?thesis
    using assms batch_edge_refines [OF assms(1), of e 0] batch_edge_ok [OF assms(1), of e 0]
    by (simp add: replays_def)
qed

lemma apply_op_replays:
  assumes "petgraph_ok pg" "db_ok who d" "replaying d" "op_ok who op"
  shows "replays who op d (apply_op pg op d)"
proof (cases op)
  case (UpsertNode n)
  with assms put_node_ok [of pg who d n] put_node_refines [of pg who d n] flags_put_node [of pg n d]
  show ?thesis
    by (cases "put_node pg n d")
       (auto simp: apply_op_def upsert_node_def log_op_def db_bind_def tolerate_def replays_def)
next
  case (UpsertEdge e)
  with apply_upsert_edge [OF assms(2,3)] show ?thesis by (simp add: apply_op_def)
next
  case (RemoveNodesByIds ids)
  obtain d' r c where t: "take_nodes ids d 0 [] = (d', r, c)" by (metis prod_cases3)
  have "apply_op pg op d = (Inr (), snd (remove_stale ids d []))"
    using RemoveNodesByIds assms(3) take_nodes_effect(1) [OF assms(2) t]
    by (simp add: apply_op_def remove_nodes_by_ids_def log_op_def db_bind_def tolerate_def t)
  with RemoveNodesByIds assms(2,3) remove_stale_ok [OF assms(2)] remove_stale_refines [OF assms(2)]
  show ?thesis by (simp add: replays_def)
next
  case (RemoveEdges ends)
  let ?es = "map (\<lambda>(s, t, ty). edge_new ty s t) ends"
  have ends: "map edge_endpoints ?es = ends"
    by (induction ends) (auto simp: edge_endpoints_def edge_new_def)
  from remove_edges_effect [OF replaying_check replaying_log, OF assms(3,3), of ?es]
  obtain k where eq: "remove_edges ?es d = (Inr k, drop_edges (set ends) d)" unfolding ends by blast
  from remove_edges_ok [OF assms(2), of ?es] have "db_ok who (drop_edges (set ends) d)"
    unfolding eq by simp
  moreover have "flags (drop_edges (set ends) d) = flags d" by (simp add: drop_edges_def)
  ultimately show ?thesis
    by (simp add: RemoveEdges apply_op_def eq tolerate_def replays_def drop_edges_refines)
next
  case (CommitIndexMap k)
  with assms show ?thesis by (simp add: apply_op_def replays_def)
qed

lemma apply_ops_replays:
  assumes "petgraph_ok pg" "db_ok who d" "replaying d" "list_all (op_ok who) ops"
  shows "fst (apply_ops pg ops d) = Inr () \<and> abs_db (snd (apply_ops pg ops d)) = spec_ops ops (abs_db d)
    \<and> db_ok who (snd (apply_ops pg ops d)) \<and> flags (snd (apply_ops pg ops d)) = flags d"
  using assms(2-4)
proof (induction ops arbitrary: d)
  case (Cons op ops)
  then have "replays who op d (apply_op pg op d)" by (intro apply_op_replays assms(1)) simp_all
  then have r: "fst (apply_op pg op d) = Inr ()" "abs_db (snd (apply_op pg op d)) = spec_op op (abs_db d)"
    "db_ok who (snd (apply_op pg op d))" and f: "flags (snd (apply_op pg op d)) = flags d"
    by (simp_all add: replays_def)
  from flags_replaying [OF f] Cons.prems(2) have "replaying (snd (apply_op pg op d))" by simp
  note r = r this
  with Cons.IH [OF r(3,4)] Cons.prems(3) f show ?case
    by (cases "apply_op pg op d") (simp add: db_bind_def)
qed simp

lemma load_abs: "db_ok who d \<Longrightarrow> abs_db (apply_state_loaded pg (build_state d) d0) = abs_db d"
  by (rule gspec_eqI) (simp_all add: abs_db_def load_snapshot_ok)

lemma db_ok_replaying [simp]: "db_ok who (d\<lparr>db_wal_replaying := b\<rparr>) = db_ok who d"
  by (simp add: db_ok_def)

lemma flags_loaded [simp, flag_simps]: "flags (apply_state_loaded pg st d) = flags d"
  by (simp add: apply_state_loaded_def Let_def flags_def)

lemma load_from_disk_abs:
  assumes "petgraph_ok pg" "db_ok who d" "\<not> db_read_only d0" "list_all (op_ok who) ops"
  shows "fst (load_from_disk pg (build_state d) ops d0) = Inr ()
    \<and> abs_db (snd (load_from_disk pg (build_state d) ops d0)) = spec_ops ops (abs_db d)
    \<and> db_ok who (snd (load_from_disk pg (build_state d) ops d0))
    \<and> flags (snd (load_from_disk pg (build_state d) ops d0)) = flags (d0\<lparr>db_wal_replaying := False\<rparr>)"
proof -
  let ?d = "(apply_state_loaded pg (build_state d) d0)\<lparr>db_wal_replaying := True\<rparr>"
  have "replaying ?d" using assms(3) by (simp add: replaying_def apply_state_loaded_def Let_def)
  from apply_ops_replays [OF assms(1) _ this assms(4)] load_snapshot_ok(1) [OF assms(2)]
    load_abs [OF assms(2)] flags_loaded [of pg "build_state d" d0]
  show ?thesis by (simp add: load_from_disk_def split_beta flags_def)
qed

end
