(* ===== verification/Wal.thy ===== *)
theory Wal
  imports Store_Recovery "HOL-Library.Word"
begin

text \<open>
  The write-ahead log of \<^verbatim>\<open>src/src/server/graph/wal.rs\<close> as bytes: the checksum, the frame
  format, replay and repair of a log with a torn tail, and the two log files around a
  checkpoint. \<open>bincode\<close> is third-party: its encoder and decoder for an operation are the
  parameters \<open>enc\<close> and \<open>dec\<close>.
\<close>

unbundle bit_operations_syntax

type_synonym byte = "8 word"
type_synonym bytes = "byte list"

section \<open>CRC-32C\<close>

definition crc_poly :: "32 word" where
  "crc_poly = 0x82f63b78"

definition crc_bit :: "32 word \<Rightarrow> 32 word" where
  "crc_bit crc = (if crc AND 1 \<noteq> 0 then crc_poly XOR drop_bit 1 crc else drop_bit 1 crc)"

definition crc_table :: "32 word list" where
  "crc_table = map (\<lambda>i. (crc_bit ^^ 8) (word_of_nat i)) [0..<256]"

definition crc_byte :: "byte \<Rightarrow> 32 word \<Rightarrow> 32 word" where
  "crc_byte b crc = drop_bit 8 crc XOR crc_table ! unat ((crc XOR ucast b) AND 0xff)"

definition crc32c :: "bytes \<Rightarrow> 32 word" where
  "crc32c data = fold crc_byte data 0xffffffff XOR 0xffffffff"

text \<open>
  The reference is CRC-32C as it is specified, not as it is coded: the message is a polynomial
  over GF(2), its bytes sent least significant bit first, divided by the Castagnoli polynomial
  in a shift register that holds the coefficients of \<open>x\<^sup>3\<^sup>1\<close> down to \<open>x\<^sup>0\<close>; the register
  starts with ones, and the answer is its complement read in reverse. The polynomial is given by its exponents.
\<close>

definition castagnoli :: "nat list" where
  "castagnoli = [28, 27, 26, 25, 23, 22, 20, 19, 18, 14, 13, 11, 10, 9, 8, 6, 0]"

definition divide_bit :: "bool \<Rightarrow> bool list \<Rightarrow> bool list" where
  "divide_bit b register =
     (let feedback = (hd register \<noteq> b) in
      map (\<lambda>i. (tl register @ [False]) ! i \<noteq> (feedback \<and> 31 - i \<in> set castagnoli)) [0..<32])"

definition message_bits :: "bytes \<Rightarrow> bool list" where
  "message_bits data = concat (map (\<lambda>b. map (bit b) [0..<8]) data)"

definition crc32c_ref :: "bytes \<Rightarrow> 32 word" where
  "crc32c_ref data = horner_sum of_bool 2 (map Not (fold divide_bit (message_bits data) (replicate 32 True)))"

lemma and_1_odd: "(w :: 32 word) AND 1 \<noteq> 0 \<longleftrightarrow> bit w 0"
  by (simp add: and_one_eq odd_iff_mod_2_eq_one bit_0)

lemma crc_bit_xor: "crc_bit (a XOR b) = crc_bit a XOR crc_bit b"
  by (cases "bit a 0"; cases "bit b 0")
     (auto simp: crc_bit_def and_1_odd bit_xor_iff intro!: bit_word_eqI simp: bit_drop_bit_eq)

lemma crc_bits_xor: "(crc_bit ^^ k) (a XOR b) = (crc_bit ^^ k) a XOR (crc_bit ^^ k) b"
  by (induction k) (simp_all add: crc_bit_xor)

lemma crc_bits_shift: "(\<And>i. i < k \<Longrightarrow> \<not> bit w i) \<Longrightarrow> (crc_bit ^^ k) w = drop_bit k w"
proof (induction k)
  case (Suc k)
  then have "(crc_bit ^^ k) w = drop_bit k w" by simp
  moreover from Suc.prems [of k] have "\<not> bit (drop_bit k w) 0" by (simp add: bit_drop_bit_eq)
  ultimately have "(crc_bit ^^ Suc k) w = drop_bit 1 (drop_bit k w)"
    by (simp add: crc_bit_def [of "drop_bit k w"] and_1_odd)
  then show ?case by (simp only: drop_bit_drop_bit) simp
qed simp

lemma crc_table_nth: "k < 256 \<Longrightarrow> crc_table ! k = (crc_bit ^^ 8) (word_of_nat k)"
  by (simp add: crc_table_def)

lemma crc_byte_ref: "crc_byte b crc = (crc_bit ^^ 8) (crc XOR ucast b)"
proof -
  let ?x = "crc XOR ucast b :: 32 word"
  have low: "unat (?x AND 0xff) < 256"
    using word_and_le1 [of ?x "0xff"] by (simp add: word_le_nat_alt)
  have split: "?x = (?x AND NOT 0xff) XOR (?x AND 0xff)"
    by (rule bit_word_eqI) (auto simp: bit_simps)
  have ff: "bit (0xff :: 32 word) i \<longleftrightarrow> i < 8" for i
  proof -
    have mask: "(0xff :: 32 word) = mask 8" by (simp add: mask_eq_exp_minus_1)
    show ?thesis unfolding mask bit_mask_iff by (auto simp del: mask_numeral)
  qed
  have "(crc_bit ^^ 8) (?x AND NOT 0xff) = drop_bit 8 (?x AND NOT 0xff)"
  proof (rule crc_bits_shift)
    fix i :: nat assume "i < 8"
    then have "bit (0xff :: 32 word) i" using ff by blast
    then show "\<not> bit (?x AND NOT 0xff) i" unfolding bit_and_iff bit_not_iff by blast
  qed
  also have "\<dots> = drop_bit 8 crc"
  proof (rule bit_word_eqI)
    fix i assume "i < LENGTH(32)"
    have "\<not> bit (0xff :: 32 word) (8 + i)" using ff [of "8 + i"] by simp
    moreover have "\<not> bit b (8 + i)" by (simp add: bit_word.rep_eq)
    ultimately show "bit (drop_bit 8 (?x AND NOT 0xff)) i = bit (drop_bit 8 crc) i"
      unfolding bit_drop_bit_eq comp_def bit_and_iff bit_not_iff bit_xor_iff
      using \<open>i < _\<close> by (auto simp: bit_simps dest: bit_imp_le_length)
  qed
  finally have "(crc_bit ^^ 8) ?x = drop_bit 8 crc XOR (crc_bit ^^ 8) (?x AND 0xff)"
    by (subst split) (simp add: crc_bits_xor)
  with low show ?thesis by (simp add: crc_byte_def crc_table_nth)
qed

text \<open>The register is the running checksum, a byte taken in at once or bit by bit.\<close>

definition crc_feed :: "bool \<Rightarrow> 32 word \<Rightarrow> 32 word" where
  "crc_feed b crc = crc_bit (crc XOR of_bool b)"

definition register :: "32 word \<Rightarrow> bool list" where
  "register crc = map (bit crc) [0..<32]"

lemma crc_poly_castagnoli: "i < 32 \<Longrightarrow> bit crc_poly i \<longleftrightarrow> 31 - i \<in> set castagnoli"
proof -
  have "list_all (\<lambda>i. bit crc_poly i \<longleftrightarrow> 31 - i \<in> set castagnoli) [0..<32]" by code_simp
  then show "i < 32 \<Longrightarrow> ?thesis" by (simp add: list_all_iff)
qed

lemma divide_bit_register: "divide_bit b (register crc) = register (crc_feed b crc)"
proof (rule nth_equalityI)
  fix i assume "i < length (divide_bit b (register crc))"
  then have i: "i < 32" by (simp add: divide_bit_def Let_def)
  have "(tl (register crc) @ [False]) ! i \<longleftrightarrow> bit crc (Suc i)"
    using i by (cases "i = 31") (auto simp: register_def nth_append nth_tl dest: bit_imp_le_length)
  moreover have "hd (register crc) \<longleftrightarrow> bit crc 0" by (simp add: register_def upt_conv_Cons)
  ultimately show "divide_bit b (register crc) ! i = register (crc_feed b crc) ! i"
    using i crc_poly_castagnoli [OF i]
    by (auto simp: divide_bit_def Let_def register_def crc_feed_def crc_bit_def and_1_odd bit_simps)
qed (simp_all add: divide_bit_def Let_def register_def)

lemma divide_bits_register: "fold divide_bit bs (register crc) = register (fold crc_feed bs crc)"
  by (induction bs arbitrary: crc) (simp_all add: divide_bit_register)

lemma crc_feed_bits:
  "k \<le> 8 \<Longrightarrow> fold crc_feed (map (bit (b :: byte)) [0..<k]) crc = (crc_bit ^^ k) (crc XOR take_bit k (ucast b))"
proof (induction k)
  case (Suc k)
  let ?u = "ucast b :: 32 word"
  have bit_k: "bit b k = bit ?u k" using Suc.prems by (simp add: bit_simps)
  have split: "take_bit (Suc k) ?u = take_bit k ?u XOR push_bit k (of_bool (bit ?u k))"
    by (rule bit_word_eqI) (auto simp: bit_simps less_Suc_eq)
  have "(crc_bit ^^ k) (push_bit k (of_bool (bit ?u k))) = drop_bit k (push_bit k (of_bool (bit ?u k)))"
    by (rule crc_bits_shift) (simp add: bit_simps)
  also have "\<dots> = of_bool (bit ?u k)"
    using Suc.prems by (intro bit_word_eqI) (auto simp: bit_simps)
  finally show ?case
    using Suc by (simp add: crc_feed_def bit_k split crc_bits_xor flip: xor.assoc)
qed simp

lemma crc_byte_bits: "crc_byte b crc = fold crc_feed (map (bit b) [0..<8]) crc"
proof -
  have "take_bit 8 (ucast b :: 32 word) = ucast b"
    by (rule bit_word_eqI) (auto simp: bit_simps dest: bit_imp_le_length)
  then show ?thesis unfolding crc_feed_bits [OF order_refl] crc_byte_ref by simp
qed

lemma crc32c_eq_ref: "crc32c data = crc32c_ref data"
proof -
  have "fold crc_byte data crc = fold crc_feed (message_bits data) crc" for crc
    by (induction data arbitrary: crc) (simp_all add: message_bits_def crc_byte_bits)
  then have "fold divide_bit (message_bits data) (register 0xffffffff) = register (fold crc_byte data 0xffffffff)"
    by (simp add: divide_bits_register)
  moreover have "register 0xffffffff = replicate 32 True" by code_simp
  moreover have "horner_sum of_bool 2 (map Not (register w)) = w XOR 0xffffffff" for w
  proof -
    have "map Not (register w) = map (bit (NOT w)) [0..<32]" by (simp add: register_def bit_simps)
    moreover have "(0xffffffff :: 32 word) = - 1" by code_simp
    ultimately show ?thesis
      by (simp only: horner_sum_bit_eq_take_bit bit.xor_one_right) (simp add: take_bit_word_eq_self)
  qed
  ultimately show ?thesis by (simp add: crc32c_def crc32c_ref_def)
qed

section \<open>Frames\<close>

definition le32 :: "32 word \<Rightarrow> bytes" where
  "le32 w = map (\<lambda>k. ucast (drop_bit (8 * k) w)) [0, 1, 2, 3]"

definition of_le32 :: "bytes \<Rightarrow> 32 word" where
  "of_le32 bs = foldr (\<lambda>b acc. ucast b OR push_bit 8 acc) bs 0"

lemma length_le32 [simp]: "length (le32 w) = 4"
  by (simp add: le32_def)

lemma of_le32_le32 [simp]: "of_le32 (le32 w) = w"
proof (rule bit_word_eqI)
  fix n assume "n < LENGTH(32)"
  then consider "n < 8" | "8 \<le> n" "n < 16" | "16 \<le> n" "n < 24" | "24 \<le> n" "n < 32"
    by fastforce
  then show "bit (of_le32 (le32 w)) n = bit w n"
    by cases (auto simp: le32_def of_le32_def bit_simps)
qed

definition wal_cap :: nat where
  "wal_cap = 64 * 1024 * 1024"

definition encode_frame :: "(graph_op \<Rightarrow> bytes) \<Rightarrow> graph_op \<Rightarrow> bytes" where
  "encode_frame enc op =
     (let payload = enc op in
      le32 (word_of_nat (length payload)) @ payload @ le32 (crc32c payload))"

definition encode_frames :: "(graph_op \<Rightarrow> bytes) \<Rightarrow> graph_op list \<Rightarrow> bytes" where
  "encode_frames enc ops = concat (map (encode_frame enc) ops)"

text \<open>
  One turn of the replay loop on what is left of the file. \<open>Torn\<close> is every way out of the
  loop without an error, \<open>TooLong\<close> the frame length over the cap.
\<close>

datatype frame = Frame graph_op bytes | Torn | TooLong

definition read_frame :: "(bytes \<Rightarrow> graph_op option) \<Rightarrow> bytes \<Rightarrow> frame" where
  "read_frame dec bs =
     (if length bs < 4 then Torn
      else
        let len = unat (of_le32 (take 4 bs)); rest = drop 4 bs in
        if wal_cap < len then TooLong
        else if length rest < len then Torn
        else
          let payload = take len rest; rest' = drop len rest in
          if length rest' < 4 then Torn
          else if crc32c payload \<noteq> of_le32 (take 4 rest') then Torn
          else (case dec payload of None \<Rightarrow> Torn | Some op \<Rightarrow> Frame op (drop 4 rest')))"

lemma read_frame_shorter: "read_frame dec bs = Frame op rest \<Longrightarrow> length rest < length bs"
  by (auto simp: read_frame_def Let_def split: if_splits option.splits)

datatype replay_end = Clean | Overlong

text \<open>
  \<open>replay_inner\<close>: the operations in order, the offset of the last good frame's end, and
  how the loop ended.
\<close>

function replay_frames :: "(bytes \<Rightarrow> graph_op option) \<Rightarrow> bytes \<Rightarrow> graph_op list \<times> nat \<times> replay_end" where
  "replay_frames dec bs =
     (case read_frame dec bs of
        Torn \<Rightarrow> ([], 0, Clean)
      | TooLong \<Rightarrow> ([], 0, Overlong)
      | Frame op rest \<Rightarrow>
          let (ops, good, how) = replay_frames dec rest in
          (op # ops, (length bs - length rest) + good, how))"
  by pat_completeness auto
termination
  by (relation "measure (\<lambda>(_, bs). length bs)") (auto dest: read_frame_shorter)

declare replay_frames.simps [simp del]

text \<open>
  What the log relies on of an operation: that the codec reads back what it wrote, and that
  the payload is within the cap.
\<close>

definition fits :: "(graph_op \<Rightarrow> bytes) \<Rightarrow> (bytes \<Rightarrow> graph_op option) \<Rightarrow> graph_op \<Rightarrow> bool" where
  "fits enc dec op \<longleftrightarrow> dec (enc op) = Some op \<and> length (enc op) \<le> wal_cap"

lemma len_word: "n \<le> wal_cap \<Longrightarrow> unat (word_of_nat n :: 32 word) = n"
  by (simp add: unat_of_nat wal_cap_def take_bit_nat_eq_self)

lemma read_encode_frame:
  assumes "fits enc dec op"
  shows "read_frame dec (encode_frame enc op @ rest) = Frame op rest"
proof -
  have "\<not> wal_cap < length (enc op)" using assms by (simp add: fits_def)
  with assms show ?thesis
    by (simp add: read_frame_def encode_frame_def Let_def len_word fits_def)
qed

lemma read_torn_frame:
  assumes "fits enc dec op" "k < length (encode_frame enc op)"
  shows "read_frame dec (take k (encode_frame enc op)) = Torn"
proof (cases "k < 4")
  case True
  then have "length (take k (encode_frame enc op)) < 4" by simp
  then show ?thesis unfolding read_frame_def by (rule if_P)
next
  case False
  let ?p = "enc op"
  have len: "unat (word_of_nat (length ?p) :: 32 word) = length ?p"
    using assms(1) by (simp add: fits_def len_word)
  have take4: "take 4 (take k (encode_frame enc op)) = le32 (word_of_nat (length ?p))"
    using False by (simp add: encode_frame_def Let_def)
  have drop4: "drop 4 (take k (encode_frame enc op)) = take (k - 4) (?p @ le32 (crc32c ?p))"
    using False by (simp add: encode_frame_def Let_def)
  from assms(2) have k: "k < 8 + length ?p" "k \<le> length (encode_frame enc op)"
    by (simp_all add: encode_frame_def Let_def)
  have cap: "\<not> wal_cap < length ?p" using assms(1) by (simp add: fits_def)
  have lk: "\<not> length (take k (encode_frame enc op)) < 4" using False k(2) by simp
  have l4: "length (take (k - 4) (?p @ le32 (crc32c ?p))) = k - 4" using k(1) by simp
  have short: "length (drop (length ?p) (take (k - 4) (?p @ le32 (crc32c ?p)))) < 4"
    using k(1) by simp
  show ?thesis
    unfolding read_frame_def take4 drop4 of_le32_le32 len Let_def if_not_P [OF lk] if_not_P [OF cap]
    by (simp only: if_P [OF short] if_cancel)
qed

lemma replay_append:
  assumes "\<forall>op \<in> set ops. fits enc dec op"
  shows "replay_frames dec (encode_frames enc ops @ tail) =
     (let (ops', good, how) = replay_frames dec tail in
      (ops @ ops', length (encode_frames enc ops) + good, how))"
  using assms
proof (induction ops)
  case Nil
  then show ?case by (simp add: encode_frames_def split_beta)
next
  case (Cons op ops)
  have frames: "encode_frames enc (op # ops) = encode_frame enc op @ encode_frames enc ops"
    by (simp add: encode_frames_def)
  have "read_frame dec (encode_frames enc (op # ops) @ tail) = Frame op (encode_frames enc ops @ tail)"
    using read_encode_frame Cons.prems by (simp add: frames)
  then show ?case
    using Cons by (subst replay_frames.simps) (simp add: frames Let_def split_beta)
qed

lemma replay_Nil: "replay_frames dec [] = ([], 0, Clean)"
  by (subst replay_frames.simps) (simp add: read_frame_def)

lemma replay_Torn: "read_frame dec bs = Torn \<Longrightarrow> replay_frames dec bs = ([], 0, Clean)"
  by (subst replay_frames.simps) simp

lemma replay_all:
  assumes "\<forall>op \<in> set ops. fits enc dec op"
  shows "replay_frames dec (encode_frames enc ops) = (ops, length (encode_frames enc ops), Clean)"
  using replay_append [OF assms, of "[]"] by (simp add: replay_Nil)

text \<open>A crash cuts the file anywhere: what is left is a prefix of the operations.\<close>

lemma encode_frames_append: "encode_frames enc (xs @ ys) = encode_frames enc xs @ encode_frames enc ys"
  by (simp add: encode_frames_def)

lemma cut_frames:
  "k \<le> length (encode_frames enc ops) \<Longrightarrow>
    \<exists>j m. j \<le> length ops \<and> take k (encode_frames enc ops) =
      encode_frames enc (take j ops) @ (if j < length ops then take m (encode_frame enc (ops ! j)) else [])
    \<and> (j < length ops \<longrightarrow> m < length (encode_frame enc (ops ! j)))"
proof (induction ops arbitrary: k)
  case Nil
  then show ?case by (simp add: encode_frames_def)
next
  case (Cons op ops)
  let ?f = "encode_frame enc op"
  have frames: "encode_frames enc (op # xs) = ?f @ encode_frames enc xs" for xs
    by (simp add: encode_frames_def)
  show ?case
  proof (cases "k < length ?f")
    case True
    then have "take k (encode_frames enc (op # ops)) = encode_frames enc (take 0 (op # ops)) @ take k ?f"
      by (simp add: frames encode_frames_def)
    with True show ?thesis by (intro exI [of _ 0] exI [of _ k]) simp
  next
    case False
    with Cons.prems have "k - length ?f \<le> length (encode_frames enc ops)" by (simp add: frames)
    from Cons.IH [OF this] obtain j m where j: "j \<le> length ops"
      "take (k - length ?f) (encode_frames enc ops) = encode_frames enc (take j ops) @
        (if j < length ops then take m (encode_frame enc (ops ! j)) else [])"
      "j < length ops \<longrightarrow> m < length (encode_frame enc (ops ! j))" by blast
    from False have "take k (encode_frames enc (op # ops)) = ?f @ take (k - length ?f) (encode_frames enc ops)"
      by (simp add: frames)
    with j show ?thesis by (intro exI [of _ "Suc j"] exI [of _ m]) (simp add: frames)
  qed
qed

lemma replay_cut:
  assumes "\<forall>op \<in> set ops. fits enc dec op" "k \<le> length (encode_frames enc ops)"
  shows "\<exists>j \<le> length ops.
     replay_frames dec (take k (encode_frames enc ops))
       = (take j ops, length (encode_frames enc (take j ops)), Clean)
     \<and> length (encode_frames enc (take j ops)) \<le> k"
proof -
  from cut_frames [OF assms(2)] obtain j m where j: "j \<le> length ops"
    "take k (encode_frames enc ops) = encode_frames enc (take j ops) @
      (if j < length ops then take m (encode_frame enc (ops ! j)) else [])"
    "j < length ops \<longrightarrow> m < length (encode_frame enc (ops ! j))" by blast
  let ?tail = "if j < length ops then take m (encode_frame enc (ops ! j)) else []"
  have "replay_frames dec ?tail = ([], 0, Clean)"
    using j(3) assms(1) by (auto simp: replay_Nil intro!: replay_Torn read_torn_frame)
  moreover have "\<forall>op \<in> set (take j ops). fits enc dec op"
    using assms(1) by (meson in_set_takeD)
  ultimately have "replay_frames dec (take k (encode_frames enc ops))
      = (take j ops, length (encode_frames enc (take j ops)), Clean)"
    unfolding j(2) by (subst replay_append) simp_all
  moreover have "length (encode_frames enc (take j ops)) \<le> k"
    using arg_cong [OF j(2), of length] assms(2) by simp
  ultimately show ?thesis using j(1) by blast
qed

text \<open>
  An operation over the cap is written without complaint; reading it back is an error, so
  it and everything after it is lost, and the load fails.
\<close>

lemma replay_overlong:
  assumes "wal_cap < length (enc op)" "length (enc op) < 2 ^ 32"
  shows "replay_frames dec (encode_frame enc op @ rest) = ([], 0, Overlong)"
proof -
  have "unat (word_of_nat (length (enc op)) :: 32 word) = length (enc op)"
    using assms(2) by (simp add: unat_of_nat take_bit_nat_eq_self)
  with assms(1) have "read_frame dec (encode_frame enc op @ rest) = TooLong"
    by (simp add: read_frame_def encode_frame_def Let_def)
  then show ?thesis by (subst replay_frames.simps) simp
qed

section \<open>Repair and the two log files\<close>

definition replay_and_repair ::
    "(bytes \<Rightarrow> graph_op option) \<Rightarrow> bytes option \<Rightarrow> graph_op list option \<times> bytes option" where
  "replay_and_repair dec file =
     (case file of
        None \<Rightarrow> (Some [], None)
      | Some bs \<Rightarrow>
          (case replay_frames dec bs of
             (ops, good, Clean) \<Rightarrow> (Some ops, Some (if good < length bs then take good bs else bs))
           | (ops, good, Overlong) \<Rightarrow> (None, Some bs)))"

record log_files =
  lf_prev :: "bytes option"
  lf_live :: "bytes option"

definition log_append :: "(graph_op \<Rightarrow> bytes) \<Rightarrow> graph_op list \<Rightarrow> log_files \<Rightarrow> log_files" where
  "log_append enc ops lf =
     (if ops = [] then lf
      else lf\<lparr>lf_live := Some ((case lf_live lf of Some bs \<Rightarrow> bs | None \<Rightarrow> []) @ encode_frames enc ops)\<rparr>)"

definition rotate :: "log_files \<Rightarrow> log_files" where
  "rotate lf =
     (case lf_live lf of
        None \<Rightarrow> lf
      | Some live \<Rightarrow>
          (case lf_prev lf of
             Some prev \<Rightarrow> \<lparr>lf_prev = Some (prev @ live), lf_live = Some []\<rparr>
           | None \<Rightarrow> \<lparr>lf_prev = Some live, lf_live = None\<rparr>))"

definition discard_prev :: "log_files \<Rightarrow> log_files" where
  "discard_prev lf = lf\<lparr>lf_prev := None\<rparr>"

text \<open>What a load replays: the retired log, then the live one.\<close>

definition load_log :: "(bytes \<Rightarrow> graph_op option) \<Rightarrow> log_files \<Rightarrow> graph_op list option \<times> log_files" where
  "load_log dec lf =
     (case replay_and_repair dec (lf_prev lf) of
        (None, p) \<Rightarrow> (None, lf\<lparr>lf_prev := p\<rparr>)
      | (Some a, p) \<Rightarrow>
          (case replay_and_repair dec (lf_live lf) of
             (None, l) \<Rightarrow> (None, lf\<lparr>lf_prev := p, lf_live := l\<rparr>)
           | (Some b, l) \<Rightarrow> (Some (a @ b), lf\<lparr>lf_prev := p, lf_live := l\<rparr>)))"

text \<open>The files hold whole frames of the given operations.\<close>

definition holds_ops :: "(graph_op \<Rightarrow> bytes) \<Rightarrow> graph_op list \<Rightarrow> bytes option \<Rightarrow> bool" where
  "holds_ops enc ops file \<longleftrightarrow> (case file of None \<Rightarrow> ops = [] | Some bs \<Rightarrow> bs = encode_frames enc ops)"

definition log_holds :: "(graph_op \<Rightarrow> bytes) \<Rightarrow> graph_op list \<Rightarrow> graph_op list \<Rightarrow> log_files \<Rightarrow> bool" where
  "log_holds enc a b lf \<longleftrightarrow> holds_ops enc a (lf_prev lf) \<and> holds_ops enc b (lf_live lf)"

lemma log_append_holds:
  "log_holds enc a b lf \<Longrightarrow> log_holds enc a (b @ ops) (log_append enc ops lf)"
  by (auto simp: log_holds_def holds_ops_def log_append_def encode_frames_def split: option.splits)

lemma rotate_holds: "log_holds enc a b lf \<Longrightarrow> log_holds enc (a @ b) [] (rotate lf)"
  by (auto simp: log_holds_def holds_ops_def rotate_def encode_frames_def split: option.splits)

lemma discard_holds: "log_holds enc a b lf \<Longrightarrow> log_holds enc [] b (discard_prev lf)"
  by (simp add: log_holds_def holds_ops_def discard_prev_def)

lemma replay_and_repair_holds:
  assumes "\<forall>op \<in> set ops. fits enc dec op" "holds_ops enc ops file"
  shows "replay_and_repair dec file = (Some ops, file)"
  using assms replay_all [OF assms(1)]
  by (auto simp: replay_and_repair_def holds_ops_def split: option.splits)

lemma load_log_holds:
  assumes "\<forall>op \<in> set (a @ b). fits enc dec op" "log_holds enc a b lf"
  shows "load_log dec lf = (Some (a @ b), lf)"
proof -
  have "replay_and_repair dec (lf_prev lf) = (Some a, lf_prev lf)"
    and "replay_and_repair dec (lf_live lf) = (Some b, lf_live lf)"
    using assms by (auto simp: log_holds_def intro!: replay_and_repair_holds)
  then show ?thesis by (simp add: load_log_def)
qed

text \<open>After a torn write the repaired file again holds whole frames.\<close>

lemma repair_torn:
  assumes "\<forall>op \<in> set ops. fits enc dec op" "k \<le> length (encode_frames enc ops)"
  shows "\<exists>j \<le> length ops. replay_and_repair dec (Some (take k (encode_frames enc ops)))
     = (Some (take j ops), Some (encode_frames enc (take j ops)))"
proof -
  from replay_cut [OF assms] obtain j where j: "j \<le> length ops"
    "replay_frames dec (take k (encode_frames enc ops))
       = (take j ops, length (encode_frames enc (take j ops)), Clean)"
    "length (encode_frames enc (take j ops)) \<le> k" by blast
  define good where "good = encode_frames enc (take j ops)"
  have ops: "encode_frames enc ops = good @ encode_frames enc (drop j ops)"
    unfolding good_def by (simp flip: encode_frames_append)
  have len: "length (take k (encode_frames enc ops)) = k" using assms(2) by simp
  have "take (length good) (take k (encode_frames enc ops)) = good"
    unfolding ops using j(3) good_def by (simp add: min_def)
  moreover have "take k (encode_frames enc ops) = good" if "\<not> length good < k"
  proof -
    from that j(3) have "k = length good" by (simp add: good_def)
    then show ?thesis unfolding ops by simp
  qed
  ultimately have "replay_and_repair dec (Some (take k (encode_frames enc ops)))
      = (Some (take j ops), Some good)"
    unfolding replay_and_repair_def option.case j(2) good_def [symmetric] prod.case replay_end.case len
    by (auto simp: min_def split: if_splits)
  with j(1) show ?thesis unfolding good_def by blast
qed

section \<open>The writer\<close>

datatype sync_policy = Always | Interval nat | Never

definition default_interval :: nat where
  "default_interval = 100"

definition sync_policy_from_env :: "string option \<Rightarrow> sync_policy" where
  "sync_policy_from_env v =
     (case map_option str_trim v of
        Some s \<Rightarrow>
          if s = ''always'' then Always
          else if s = ''never'' then Never
          else (case parse_unsigned (2 ^ 64) s of
                  Some ms \<Rightarrow> Interval ms | None \<Rightarrow> Interval default_interval)
      | None \<Rightarrow> Interval default_interval)"

text \<open>The writer's bookkeeping; \<open>now\<close> is the clock in milliseconds at the call.\<close>

record wal_writer =
  ww_open :: bool
  ww_policy :: sync_policy
  ww_last_sync :: nat
  ww_unsynced :: bool
  ww_syncs :: nat

definition writer_new :: "sync_policy \<Rightarrow> nat \<Rightarrow> wal_writer" where
  "writer_new policy now =
     \<lparr>ww_open = False, ww_policy = policy, ww_last_sync = now, ww_unsynced = False, ww_syncs = 0\<rparr>"

definition writer_sync :: "nat \<Rightarrow> wal_writer \<Rightarrow> wal_writer" where
  "writer_sync now w =
     (let w' = (if ww_unsynced w
                then w\<lparr>ww_syncs := (if ww_open w then Suc (ww_syncs w) else ww_syncs w),
                       ww_unsynced := False\<rparr>
                else w)
      in w'\<lparr>ww_last_sync := now\<rparr>)"

definition writer_append :: "nat \<Rightarrow> graph_op list \<Rightarrow> wal_writer \<Rightarrow> wal_writer" where
  "writer_append now ops w =
     (if ops = [] then w
      else
        let w' = w\<lparr>ww_open := True, ww_unsynced := True\<rparr>;
            due = (case ww_policy w of
                     Always \<Rightarrow> True | Interval d \<Rightarrow> d \<le> now - ww_last_sync w | Never \<Rightarrow> False)
        in if due then writer_sync now w' else w')"

definition writer_close :: "nat \<Rightarrow> wal_writer \<Rightarrow> wal_writer" where
  "writer_close now w = (writer_sync now w)\<lparr>ww_open := False\<rparr>"

datatype writer_event = WAppend nat "graph_op list" | WSync nat | WClose nat

fun writer_step :: "writer_event \<Rightarrow> wal_writer \<Rightarrow> wal_writer" where
  "writer_step (WAppend now ops) w = writer_append now ops w"
| "writer_step (WSync now) w = writer_sync now w"
| "writer_step (WClose now) w = writer_close now w"

definition writer_ok :: "wal_writer \<Rightarrow> bool" where
  "writer_ok w \<longleftrightarrow> (ww_unsynced w \<longrightarrow> ww_open w \<and> ww_policy w \<noteq> Always)"

interpretation writer: counting_machine writer_step "\<lambda>_. True" writer_ok ww_syncs
proof
  fix e w
  assume "writer_ok w"
  then show "writer_ok (writer_step e w)"
    by (cases e) (auto simp: writer_ok_def writer_append_def writer_sync_def writer_close_def Let_def
        split: sync_policy.splits)
  show "ww_syncs w \<le> ww_syncs (writer_step e w)"
    by (cases e) (auto simp: writer_append_def writer_sync_def writer_close_def Let_def)
qed

end
