(* ===== verification/Checkpoint.thy ===== *)
theory Checkpoint
  imports Wal
begin

text \<open>
  Checkpoints, \<^verbatim>\<open>save_to_disk_sync_mirrored\<close> of \<^verbatim>\<open>src/src/server/graph/mod.rs\<close>: under the graph
  lock the live log is retired, then the snapshot is written while mutators go on logging to
  a fresh file, then the retired log is deleted. A crash in between makes recovery replay
  operations the snapshot already holds, so the theory first proves that replaying them
  again changes nothing.
\<close>

section \<open>Replaying twice\<close>

text \<open>What an operation does to the node of one id.\<close>

fun node_effect :: "string \<Rightarrow> graph_op \<Rightarrow> graph_node option \<Rightarrow> graph_node option" where
  "node_effect nid (UpsertNode n) x =
     (if gn_id n \<noteq> nid then x
      else (case x of
              Some e \<Rightarrow> if gn_is_hydrated n \<or> \<not> gn_is_hydrated e then Some n else x
            | None \<Rightarrow> Some n))"
| "node_effect nid (RemoveNodesByIds ids) x = (if nid \<in> set ids then None else x)"
| "node_effect nid _ x = x"

lemma spec_op_node: "sp_nodes (spec_op op s) nid = node_effect nid op (sp_nodes s nid)"
  by (cases op) (auto simp: spec_put_def spec_add_edge_def spec_remove_def spec_remove_edges_def
      split: option.splits)

lemma spec_ops_node: "sp_nodes (spec_ops ops s) nid = fold (node_effect nid) ops (sp_nodes s nid)"
  by (induction ops arbitrary: s) (simp_all add: spec_op_node)

text \<open>
  A sequence of such effects is the identity, a constant, or the write of an unhydrated node,
  which gives way to a hydrated one.
\<close>

definition weak_write :: "graph_node \<Rightarrow> graph_node option \<Rightarrow> graph_node option" where
  "weak_write m x = (case x of Some e \<Rightarrow> if gn_is_hydrated e then x else Some m | None \<Rightarrow> Some m)"

definition simple_effect :: "(graph_node option \<Rightarrow> graph_node option) \<Rightarrow> bool" where
  "simple_effect F \<longleftrightarrow>
     F = (\<lambda>x. x) \<or> (\<exists>c. F = (\<lambda>_. c)) \<or> (\<exists>m. \<not> gn_is_hydrated m \<and> F = weak_write m)"

lemma node_effect_op:
  "node_effect nid op = (\<lambda>x. x) \<or> (\<exists>c. node_effect nid op = (\<lambda>_. c))
   \<or> (\<exists>m. \<not> gn_is_hydrated m \<and> node_effect nid op = weak_write m)"
proof (cases op)
  case (UpsertNode n)
  then show ?thesis
    by (cases "gn_id n = nid"; cases "gn_is_hydrated n")
       (auto simp: fun_eq_iff weak_write_def split: option.splits)
next
  case (RemoveNodesByIds ids)
  then show ?thesis by (cases "nid \<in> set ids") (auto simp: fun_eq_iff)
qed (auto simp: fun_eq_iff)

lemma weak_weak: "\<not> gn_is_hydrated m \<Longrightarrow> weak_write m' (weak_write m x) = weak_write m' x"
  by (auto simp: weak_write_def split: option.splits)

lemma simple_effect_fold: "simple_effect (fold (node_effect nid) ops)"
proof (induction ops rule: rev_induct)
  case Nil
  then show ?case by (simp add: simple_effect_def id_def)
next
  case (snoc op ops)
  let ?F = "fold (node_effect nid) ops" and ?g = "node_effect nid op"
  have eq: "fold (node_effect nid) (ops @ [op]) = (\<lambda>x. ?g (?F x))" by (simp add: fun_eq_iff)
  from node_effect_op [of nid op] show ?case
  proof (elim disjE exE conjE)
    assume "?g = (\<lambda>x. x)"
    with snoc show ?thesis by (simp add: eq)
  next
    fix c assume "?g = (\<lambda>_. c)"
    then show ?thesis by (simp add: eq simple_effect_def) blast
  next
    fix m' assume g: "\<not> gn_is_hydrated m'" "?g = weak_write m'"
    from snoc show ?thesis unfolding simple_effect_def [of ?F]
    proof (elim disjE exE conjE)
      assume "?F = (\<lambda>x. x)"
      with g show ?thesis by (auto simp: eq simple_effect_def)
    next
      fix c assume "?F = (\<lambda>_. c)"
      with g show ?thesis by (simp add: eq simple_effect_def) blast
    next
      fix m assume "\<not> gn_is_hydrated m" "?F = weak_write m"
      with g show ?thesis by (auto simp: eq simple_effect_def weak_weak)
    qed
  qed
qed

lemma simple_effect_idem: "simple_effect F \<Longrightarrow> F (F x) = F x"
  by (auto simp: simple_effect_def weak_weak)

lemma simple_effect_present: "simple_effect F \<Longrightarrow> F x \<noteq> None \<Longrightarrow> y \<noteq> None \<Longrightarrow> F y \<noteq> None"
  by (auto simp: simple_effect_def weak_write_def split: option.splits)

lemma replay_nodes: "sp_nodes (spec_ops ops (spec_ops ops s)) = sp_nodes (spec_ops ops s)"
  by (simp add: fun_eq_iff spec_ops_node simple_effect_idem [OF simple_effect_fold])

text \<open>A node present at some point and not removed afterwards is present at that point of any replay.\<close>

lemma keeps_node: "\<forall>ids. RemoveNodesByIds ids \<in> set ops \<longrightarrow> nid \<notin> set ids \<Longrightarrow> x \<noteq> None \<Longrightarrow>
    fold (node_effect nid) ops x \<noteq> None"
proof (induction ops arbitrary: x)
  case (Cons op ops)
  have "node_effect nid op x \<noteq> None"
    using Cons.prems by (cases op) (auto split: option.splits)
  with Cons show ?case by simp
qed simp

lemma replay_present:
  assumes "sp_nodes (spec_ops u s) nid \<noteq> None"
    and "\<forall>ids. RemoveNodesByIds ids \<in> set v \<longrightarrow> nid \<notin> set ids"
  shows "sp_nodes (spec_ops u (spec_ops (u @ v) s)) nid \<noteq> None"
proof -
  have "sp_nodes (spec_ops (u @ v) s) nid \<noteq> None"
    using keeps_node [OF assms(2) assms(1) [unfolded spec_ops_node]] by (simp add: spec_ops_node)
  then show ?thesis
    using simple_effect_present [OF simple_effect_fold] assms(1) unfolding spec_ops_node by blast
qed

text \<open>The edges of one identity, and the operations that remove or add them.\<close>

type_synonym edge_key = "edge_type \<times> string \<times> string \<times> source_site option"

definition edges_at :: "edge_key \<Rightarrow> gspec \<Rightarrow> graph_edge multiset" where
  "edges_at k s = filter_mset (\<lambda>e. edge_identity_key e = k) (sp_edges s)"

fun kills :: "edge_key \<Rightarrow> graph_op \<Rightarrow> bool" where
  "kills (t, a, b, _) (RemoveNodesByIds ids) = (a \<in> set ids \<or> b \<in> set ids)"
| "kills (t, a, b, _) (RemoveEdges ends) = ((a, b, t) \<in> set ends)"
| "kills k _ = False"

fun adds :: "edge_key \<Rightarrow> graph_op \<Rightarrow> bool" where
  "adds k (UpsertEdge e) = (edge_identity_key e = k)"
| "adds k _ = False"

lemma filter_mset_none: "filter_mset P M = {#} \<longleftrightarrow> (\<forall>x \<in># M. \<not> P x)"
  by (induction M) auto

lemma filter_mset_within: "(\<And>x. P x \<Longrightarrow> Q x) \<Longrightarrow> filter_mset P (filter_mset Q M) = filter_mset P M"
  by (induction M) auto

lemma edges_at_has: "spec_has_edge e s \<longleftrightarrow> edges_at (edge_identity_key e) s \<noteq> {#}"
  by (auto simp: spec_has_edge_def edges_at_def filter_mset_none)

lemma edges_at_kill: "kills k op \<Longrightarrow> edges_at k (spec_op op s) = {#}"
  by (cases op; cases k)
     (auto simp: edges_at_def spec_remove_def spec_remove_edges_def filter_mset_none
       edge_identity_key_def edge_endpoints_def)

lemma edges_at_keep:
  assumes "\<not> kills k op" "\<not> adds k op"
  shows "edges_at k (spec_op op s) = edges_at k s"
proof (cases op)
  case (UpsertEdge e)
  with assms show ?thesis by (auto simp: spec_add_edge_def edges_at_def)
next
  case (RemoveNodesByIds ids)
  obtain t a b si where "k = (t, a, b, si)" by (cases k)
  with assms RemoveNodesByIds show ?thesis unfolding edges_at_def
    by (simp add: spec_remove_def) (rule filter_mset_within, auto simp: edge_identity_key_def)
next
  case (RemoveEdges ends)
  obtain t a b si where "k = (t, a, b, si)" by (cases k)
  with assms RemoveEdges show ?thesis unfolding edges_at_def
    by (simp add: spec_remove_edges_def)
      (rule filter_mset_within, auto simp: edge_identity_key_def edge_endpoints_def)
qed (auto simp: edges_at_def spec_put_def split: option.splits)

lemma edges_at_add:
  assumes "adds k (UpsertEdge e)"
  shows "edges_at k (spec_op (UpsertEdge e) s) =
    (if edges_at k s = {#} \<and> op_effective (UpsertEdge e) s then {#e#} else edges_at k s)"
  using assms by (auto simp: spec_add_edge_def edges_at_has) (auto simp: edges_at_def)

lemma edges_at_quiet:
  "\<forall>op \<in> set ops. \<not> kills k op \<and> \<not> adds k op \<Longrightarrow> edges_at k (spec_ops ops s) = edges_at k s"
  by (induction ops arbitrary: s) (simp_all add: edges_at_keep)

lemma edges_at_stays:
  "\<forall>op \<in> set ops. \<not> kills k op \<Longrightarrow> edges_at k s \<noteq> {#} \<Longrightarrow> edges_at k (spec_ops ops s) = edges_at k s"
proof (induction ops arbitrary: s)
  case (Cons op ops)
  have "edges_at k (spec_op op s) = edges_at k s"
  proof (cases "adds k op")
    case True
    then obtain e where "op = UpsertEdge e" by (cases op) auto
    with True Cons.prems show ?thesis using edges_at_add [of k e s] by simp
  qed (use Cons.prems in \<open>auto intro: edges_at_keep\<close>)
  with Cons show ?case by simp
qed simp


text \<open>Past the last removal, the first addition decides.\<close>

lemma split_first_add:
  assumes "\<exists>op \<in> set ops. adds k op"
  obtains u e v where "ops = u @ UpsertEdge e # v" "edge_identity_key e = k" "\<forall>op \<in> set u. \<not> adds k op"
proof -
  from split_list_first_prop [OF assms] obtain u op v
    where "ops = u @ op # v" "adds k op" "\<forall>op \<in> set u. \<not> adds k op" by blast
  moreover from this(2) obtain e where "op = UpsertEdge e" "edge_identity_key e = k" by (cases op) auto
  ultimately show ?thesis using that by blast
qed

lemma edges_at_first_add:
  assumes "\<forall>op \<in> set (u @ UpsertEdge e # v). \<not> kills k op" "\<forall>op \<in> set u. \<not> adds k op"
    and "edge_identity_key e = k" "edges_at k s = {#}" "op_effective (UpsertEdge e) (spec_ops u s)"
  shows "edges_at k (spec_ops (u @ UpsertEdge e # v) s) = {#e#}"
proof -
  have "edges_at k (spec_ops u s) = {#}" using edges_at_quiet [of u k s] assms by simp
  then have "edges_at k (spec_op (UpsertEdge e) (spec_ops u s)) = {#e#}"
    using edges_at_add [of k e "spec_ops u s"] assms(3,5) by simp
  with edges_at_stays [of v k "spec_op (UpsertEdge e) (spec_ops u s)"] assms(1) show ?thesis by simp
qed

lemma replay_edges_at:
  assumes "effective ops s"
  shows "edges_at k (spec_ops ops (spec_ops ops s)) = edges_at k (spec_ops ops s)"
proof (cases "\<exists>op \<in> set ops. kills k op")
  case False
  note none = this
  show ?thesis
  proof (cases "edges_at k (spec_ops ops s) = {#}")
    case nonempty: False
    with none show ?thesis by (intro edges_at_stays) auto
  next
    case True
    have "\<forall>op \<in> set ops. \<not> adds k op"
    proof (rule ccontr)
      assume "\<not> ?thesis"
      then obtain u e v where u: "ops = u @ UpsertEdge e # v" "edge_identity_key e = k"
        "\<forall>op \<in> set u. \<not> adds k op" using split_first_add by blast
      have "edges_at k s = {#}" using edges_at_stays [of ops k s] none True by auto
      with edges_at_first_add [of u e v k s] none u assms True show False by simp
    qed
    with none show ?thesis by (intro edges_at_quiet) auto
  qed
next
  case True
  from split_list_last_prop [OF this] obtain pre op post
    where split: "ops = pre @ op # post" "kills k op" "\<forall>op \<in> set post. \<not> kills k op" by blast
  let ?pre = "pre @ [op]"
  have ops: "ops = ?pre @ post" using split(1) by simp
  have kill: "edges_at k (spec_ops ?pre t) = {#}" for t using edges_at_kill [OF split(2)] by simp
  show ?thesis
  proof (cases "\<exists>op \<in> set post. adds k op")
    case False
    then have "edges_at k (spec_ops ops t) = {#}" for t
      using edges_at_quiet [of post k "spec_ops ?pre t"] split(3) kill by (simp add: ops)
    then show ?thesis by simp
  next
    case True
    then obtain u e v where u: "post = u @ UpsertEdge e # v" "edge_identity_key e = k"
      "\<forall>op \<in> set u. \<not> adds k op" using split_first_add by blast
    have eff: "op_effective (UpsertEdge e) (spec_ops (?pre @ u) s)"
      using assms by (simp add: ops u(1))
    have "RemoveNodesByIds ids \<notin> set (UpsertEdge e # v)"
      if "ge_source_id e \<in> set ids \<or> ge_target_id e \<in> set ids" for ids
    proof -
      have "kills k (RemoveNodesByIds ids)" using that by (auto simp: edge_identity_key_def simp flip: u(2))
      with split(3) u(1) show ?thesis by auto
    qed
    then have "op_effective (UpsertEdge e) (spec_ops (?pre @ u) (spec_ops ((?pre @ u) @ UpsertEdge e # v) s))"
      using replay_present [of "?pre @ u" s _ "UpsertEdge e # v"] eff unfolding op_effective.simps by blast
    then have "op_effective (UpsertEdge e) (spec_ops u (spec_ops ?pre (spec_ops ops s)))"
      by (simp add: ops u(1))
    then have "edges_at k (spec_ops ops (spec_ops ops s)) = {#e#}"
      using edges_at_first_add [of u e v k "spec_ops ?pre (spec_ops ops s)"] split(3) u kill
      by (simp add: ops)
    moreover have "edges_at k (spec_ops ops s) = {#e#}"
      using edges_at_first_add [of u e v k "spec_ops ?pre s"] split(3) u kill eff by (simp add: ops)
    ultimately show ?thesis by simp
  qed
qed

lemma edges_by_key:
  assumes "\<And>k. edges_at k s = edges_at k t"
  shows "sp_edges s = sp_edges t"
proof (rule multiset_eqI)
  fix e
  have "count (sp_edges r) e = count (edges_at (edge_identity_key e) r) e" for r
    by (simp add: edges_at_def)
  with assms show "count (sp_edges s) e = count (sp_edges t) e" by metis
qed

text \<open>Replaying a log whose effects are already there changes nothing.\<close>

lemma replay_twice:
  assumes "effective ops s"
  shows "spec_ops ops (spec_ops ops s) = spec_ops ops s"
  by (rule gspec_eqI [OF replay_nodes edges_by_key]) (rule replay_edges_at [OF assms])

section \<open>A database with its files\<close>

text \<open>
  The state: the database in memory, the snapshot and log files on disk, and how far a running
  checkpoint has come. A mutator's operations reach the live log file in the call that
  applies them; \<open>new_ops\<close> are the operations one call has logged. The snapshot file exists
  throughout (\<open>GraphDatabase::new\<close> reads the log only beside a snapshot).
\<close>

datatype checkpoint_phase = Idle | Retired | Written

record stored_db =
  sd_db :: graph_db
  sd_snapshot :: graph_state
  sd_files :: log_files
  sd_phase :: checkpoint_phase

definition new_ops :: "graph_db \<Rightarrow> graph_db \<Rightarrow> graph_op list" where
  "new_ops d d' = drop (length (db_wal d)) (db_wal d')"

definition recovered ::
    "petgraph \<Rightarrow> (bytes \<Rightarrow> graph_op option) \<Rightarrow> stored_db \<Rightarrow> (graph_db \<times> log_files) option" where
  "recovered pg dec s =
     (case load_log dec (sd_files s) of
        (None, _) \<Rightarrow> None
      | (Some ops, files) \<Rightarrow>
          (case load_from_disk pg (sd_snapshot s) ops (db_empty True False) of
             (Inl _, _) \<Rightarrow> None
           | (Inr _, d) \<Rightarrow> Some (d, files)))"

text \<open>
  The steps: a mutator that logs; the three parts of a checkpoint; a checkpoint given up on an
  error; a crash between two steps; a crash while a mutator's frames are being written, which
  leaves \<open>k\<close> bytes of them.
\<close>

inductive stored_step ::
    "petgraph \<Rightarrow> (graph_op \<Rightarrow> bytes) \<Rightarrow> (bytes \<Rightarrow> graph_op option) \<Rightarrow>
     (string \<Rightarrow> string \<times> string) \<Rightarrow> stored_db \<Rightarrow> stored_db \<Rightarrow> bool"
  for pg enc dec who where
  mutate: "event_ok pg who ev \<Longrightarrow> is_logged ev \<Longrightarrow> d' = db_step pg ev (sd_db s) \<Longrightarrow>
    \<forall>op \<in> set (new_ops (sd_db s) d'). fits enc dec op \<Longrightarrow>
    stored_step pg enc dec who s
      (s\<lparr>sd_db := d', sd_files := log_append enc (new_ops (sd_db s) d') (sd_files s)\<rparr>)"
| retire: "sd_phase s = Idle \<Longrightarrow>
    stored_step pg enc dec who s (s\<lparr>sd_files := rotate (sd_files s), sd_phase := Retired\<rparr>)"
| publish: "sd_phase s = Retired \<Longrightarrow>
    stored_step pg enc dec who s (s\<lparr>sd_snapshot := build_state (sd_db s), sd_phase := Written\<rparr>)"
| discard: "sd_phase s = Written \<Longrightarrow>
    stored_step pg enc dec who s (s\<lparr>sd_files := discard_prev (sd_files s), sd_phase := Idle\<rparr>)"
| give_up: "stored_step pg enc dec who s (s\<lparr>sd_phase := Idle\<rparr>)"
| crash: "recovered pg dec s = Some (d, files) \<Longrightarrow>
    stored_step pg enc dec who s (s\<lparr>sd_db := d, sd_files := files, sd_phase := Idle\<rparr>)"
| torn: "event_ok pg who ev \<Longrightarrow> is_logged ev \<Longrightarrow> ops = new_ops (sd_db s) (db_step pg ev (sd_db s)) \<Longrightarrow>
    \<forall>op \<in> set ops. fits enc dec op \<Longrightarrow> k \<le> length (encode_frames enc ops) \<Longrightarrow>
    live = (case lf_live (sd_files s) of Some bs \<Rightarrow> bs | None \<Rightarrow> []) \<Longrightarrow>
    recovered pg dec
      (s\<lparr>sd_files := (sd_files s)\<lparr>lf_live := Some (live @ take k (encode_frames enc ops))\<rparr>\<rparr>)
      = Some (d, files) \<Longrightarrow>
    stored_step pg enc dec who s (s\<lparr>sd_db := d, sd_files := files, sd_phase := Idle\<rparr>)"

inductive_cases stored_stepE: "stored_step pg enc dec who s s'"

definition opened :: "graph_db \<Rightarrow> stored_db" where
  "opened d = \<lparr>sd_db = d, sd_snapshot = build_state d,
     sd_files = \<lparr>lf_prev = None, lf_live = None\<rparr>, sd_phase = Idle\<rparr>"

text \<open>
  The invariant: the two files hold the operations \<open>a @ b\<close>, which were logged one after the
  other from some earlier contents, and applied to the snapshot they give the contents in
  memory; once the new snapshot is written the live file \<open>b\<close> is enough.
\<close>

definition holds_history ::
    "(graph_op \<Rightarrow> bytes) \<Rightarrow> (bytes \<Rightarrow> graph_op option) \<Rightarrow> (string \<Rightarrow> string \<times> string) \<Rightarrow> graph_db \<Rightarrow>
     graph_op list \<Rightarrow> graph_op list \<Rightarrow> stored_db \<Rightarrow> bool" where
  "holds_history enc dec who ds a b s \<longleftrightarrow>
     db_ok who (sd_db s) \<and> accepts (sd_db s) \<and> db_ok who ds \<and> sd_snapshot s = build_state ds
     \<and> log_holds enc a b (sd_files s) \<and> (\<forall>op \<in> set (a @ b). fits enc dec op \<and> op_ok who op)
     \<and> (\<exists>s0. effective (a @ b) s0 \<and> abs_db (sd_db s) = spec_ops (a @ b) s0)
     \<and> abs_db (sd_db s) = spec_ops (a @ b) (abs_db ds)
     \<and> (sd_phase s = Written \<longrightarrow> abs_db (sd_db s) = spec_ops b (abs_db ds))"

definition stored_ok ::
    "(graph_op \<Rightarrow> bytes) \<Rightarrow> (bytes \<Rightarrow> graph_op option) \<Rightarrow> (string \<Rightarrow> string \<times> string) \<Rightarrow>
     stored_db \<Rightarrow> bool" where
  "stored_ok enc dec who s \<longleftrightarrow> (\<exists>ds a b. holds_history enc dec who ds a b s)"

lemma stored_okI: "holds_history enc dec who ds a b s \<Longrightarrow> stored_ok enc dec who s"
  by (auto simp: stored_ok_def)

lemma stored_okE:
  assumes "stored_ok enc dec who s"
  obtains ds a b s0 where "holds_history enc dec who ds a b s" "effective (a @ b) s0"
    "abs_db (sd_db s) = spec_ops (a @ b) s0"
proof -
  from assms obtain ds a b where h: "holds_history enc dec who ds a b s" by (auto simp: stored_ok_def)
  then have "\<exists>s0. effective (a @ b) s0 \<and> abs_db (sd_db s) = spec_ops (a @ b) s0"
    unfolding holds_history_def by (elim conjE)
  with h that show ?thesis by blast
qed

lemma opened_ok: "db_ok who d \<Longrightarrow> accepts d \<Longrightarrow> stored_ok enc dec who (opened d)"
  by (rule stored_okI [of _ _ _ d "[]" "[]"])
     (auto simp: holds_history_def opened_def log_holds_def holds_ops_def)

lemma db_step_new_ops:
  assumes "event_ok pg who ev" "is_logged ev" "db_ok who d" "accepts d"
  shows "logged_as who (new_ops d (db_step pg ev d)) d (db_step pg ev d)"
proof -
  from db_step_logged [OF assms] obtain ops where ops: "logged_as who ops d (db_step pg ev d)" by blast
  then have "db_wal (db_step pg ev d) = db_wal d @ ops" by (simp add: logged_as_def)
  then have "new_ops d (db_step pg ev d) = ops" by (simp add: new_ops_def)
  with ops show ?thesis by simp
qed

text \<open>Recovery of a state whose files hold the operations.\<close>

lemma load_holds:
  assumes "petgraph_ok pg" "db_ok who ds" "sd_snapshot s = build_state ds"
    and "\<forall>op \<in> set ops. op_ok who op" "load_log dec (sd_files s) = (Some ops, files)"
  obtains d where "recovered pg dec s = Some (d, files)" "abs_db d = spec_ops ops (abs_db ds)"
    "db_ok who d" "accepts d"
proof -
  let ?r = "load_from_disk pg (build_state ds) ops (db_empty True False)"
  have ro: "\<not> db_read_only (db_empty True False)" by (simp add: db_empty_def)
  have "list_all (op_ok who) ops" using assms(4) by (simp add: list_all_iff)
  from load_from_disk_abs [OF assms(1,2) ro this]
  have r: "fst ?r = Inr ()" "abs_db (snd ?r) = spec_ops ops (abs_db ds)" "db_ok who (snd ?r)"
    "flags (snd ?r) = flags (db_empty True False)" by (simp_all add: db_empty_def flags_def)
  have "accepts (snd ?r)"
    using flags_accepts [OF r(4)] by (simp add: accepts_def wal_enabled_def db_empty_def)
  moreover have "recovered pg dec s = Some (snd ?r, files)"
    using r(1) by (cases ?r) (simp add: recovered_def assms(3,5))
  ultimately show ?thesis using that r by blast
qed

lemma recovered_holds:
  assumes "petgraph_ok pg" "holds_history enc dec who ds a b s"
  obtains d where "recovered pg dec s = Some (d, sd_files s)" "abs_db d = abs_db (sd_db s)"
    "db_ok who d" "accepts d"
proof -
  from assms(2) have h: "db_ok who ds" "sd_snapshot s = build_state ds" "log_holds enc a b (sd_files s)"
    "\<forall>op \<in> set (a @ b). fits enc dec op" "\<forall>op \<in> set (a @ b). op_ok who op"
    "abs_db (sd_db s) = spec_ops (a @ b) (abs_db ds)" by (simp_all add: holds_history_def)
  from load_holds [OF assms(1) h(1,2,5) load_log_holds [OF h(4,3)]] h(6) that
  show ?thesis by metis
qed

lemma mutate_ok:
  assumes "event_ok pg who ev" "is_logged ev" "d' = db_step pg ev (sd_db s)"
    and "\<forall>op \<in> set (new_ops (sd_db s) d'). fits enc dec op" "stored_ok enc dec who s"
  shows "stored_ok enc dec who
    (s\<lparr>sd_db := d', sd_files := log_append enc (new_ops (sd_db s) d') (sd_files s)\<rparr>)"
proof -
  from assms(5) obtain ds a b where h: "holds_history enc dec who ds a b s" by (auto simp: stored_ok_def)
  let ?ops = "new_ops (sd_db s) d'"
  have s: "db_ok who (sd_db s)" "accepts (sd_db s)" using h by (simp_all add: holds_history_def)
  from db_step_new_ops [OF assms(1,2) s] have "logged_as who ?ops (sd_db s) d'" by (simp add: assms(3))
  then have new: "abs_db d' = spec_ops ?ops (abs_db (sd_db s))" "accepts d'"
    "\<forall>op \<in> set ?ops. op_ok who op" "effective ?ops (abs_db (sd_db s))"
    by (simp_all add: logged_as_def list_all_iff)
  have ok: "db_ok who d'" using db_step_ok [OF assms(1) s(1)] by (simp add: assms(3))
  from h obtain s0 where s0: "effective (a @ b) s0" "abs_db (sd_db s) = spec_ops (a @ b) s0"
    by (auto simp: holds_history_def)
  have "\<exists>s0. effective (a @ b @ ?ops) s0 \<and> abs_db d' = spec_ops (a @ b @ ?ops) s0"
    using s0 new(1,4) by (intro exI [of _ s0]) simp
  moreover have "log_holds enc a (b @ ?ops) (log_append enc ?ops (sd_files s))"
    using h by (intro log_append_holds) (simp add: holds_history_def)
  ultimately show ?thesis
    using h new ok assms(4)
    by (intro stored_okI [of _ _ _ ds a "b @ ?ops"]) (auto simp: holds_history_def)
qed

lemma publish_ok:
  assumes "stored_ok enc dec who s" "sd_phase s = Retired"
  shows "stored_ok enc dec who (s\<lparr>sd_snapshot := build_state (sd_db s), sd_phase := Written\<rparr>)"
proof -
  from stored_okE [OF assms(1)] obtain ds a b s0 where h: "holds_history enc dec who ds a b s"
    and s0: "effective (a @ b) s0" "abs_db (sd_db s) = spec_ops (a @ b) s0" by blast
  have "abs_db (sd_db s) = spec_ops (a @ b) (abs_db (sd_db s))"
    unfolding s0(2) by (rule replay_twice [OF s0(1), symmetric])
  moreover have "abs_db (sd_db s) = spec_ops b (abs_db (sd_db s))"
    using replay_twice [of b "spec_ops a s0"] s0 by simp
  ultimately show ?thesis
    using h s0 by (intro stored_okI [of _ _ _ "sd_db s" a b]) (auto simp: holds_history_def)
qed

lemma reopen_ok:
  assumes "abs_db d = spec_ops (a @ b) (abs_db ds)" "db_ok who d" "accepts d"
    and "db_ok who ds" "log_holds enc a b files" "\<forall>op \<in> set (a @ b). fits enc dec op \<and> op_ok who op"
    and "effective (a @ b) s0" "abs_db d = spec_ops (a @ b) s0"
  shows "stored_ok enc dec who \<lparr>sd_db = d, sd_snapshot = build_state ds, sd_files = files, sd_phase = Idle\<rparr>"
  using assms by (intro stored_okI [of _ _ _ ds a b]) (auto simp: holds_history_def)

lemma stored_eta:
  "s\<lparr>sd_db := d, sd_files := files, sd_phase := Idle\<rparr>
     = \<lparr>sd_db = d, sd_snapshot = sd_snapshot s, sd_files = files, sd_phase = Idle\<rparr>"
  by (cases s) simp

lemma crash_ok:
  assumes "petgraph_ok pg" "stored_ok enc dec who s"
    and "recovered pg dec s = Some (d, files)"
  shows "stored_ok enc dec who (s\<lparr>sd_db := d, sd_files := files, sd_phase := Idle\<rparr>)"
proof -
  from assms(2) obtain ds a b where h: "holds_history enc dec who ds a b s" by (auto simp: stored_ok_def)
  from recovered_holds [OF assms(1) h] assms(3)
  have d: "files = sd_files s" "abs_db d = abs_db (sd_db s)" "db_ok who d" "accepts d" by auto
  from h d(2) obtain s0 where "effective (a @ b) s0" "abs_db d = spec_ops (a @ b) s0"
    by (auto simp: holds_history_def)
  with h d show ?thesis
    unfolding stored_eta by (auto simp: holds_history_def intro!: reopen_ok [of d a b ds])
qed

text \<open>A torn append leaves whole frames of a prefix of the operations.\<close>

lemma repair_to:
  assumes "replay_frames dec file = (ops, length kept, Clean)" "take (length kept) file = kept"
  shows "replay_and_repair dec (Some file) = (Some ops, Some kept)"
proof (cases "length kept < length file")
  case False
  then have "file = kept" using assms(2) by simp
  with assms(1) show ?thesis by (simp add: replay_and_repair_def)
qed (use assms in \<open>simp add: replay_and_repair_def\<close>)

lemma torn_log:
  assumes "log_holds enc a b f" "\<forall>op \<in> set (a @ b). fits enc dec op"
    and "\<forall>op \<in> set ops. fits enc dec op" "k \<le> length (encode_frames enc ops)"
    and "live = (case lf_live f of Some bs \<Rightarrow> bs | None \<Rightarrow> [])"
  obtains j f' where "j \<le> length ops"
    "load_log dec (f\<lparr>lf_live := Some (live @ take k (encode_frames enc ops))\<rparr>) = (Some (a @ b @ take j ops), f')"
    "log_holds enc a (b @ take j ops) f'"
proof -
  have live: "live = encode_frames enc b"
    using assms(1,5) by (auto simp: log_holds_def holds_ops_def encode_frames_def split: option.splits)
  obtain j where j: "j \<le> length ops"
    "replay_frames dec (take k (encode_frames enc ops))
       = (take j ops, length (encode_frames enc (take j ops)), Clean)"
    "length (encode_frames enc (take j ops)) \<le> k" using replay_cut [OF assms(3,4)] by blast
  let ?file = "live @ take k (encode_frames enc ops)"
  let ?kept = "encode_frames enc (b @ take j ops)"
  have "encode_frames enc ops = encode_frames enc (take j ops) @ encode_frames enc (drop j ops)"
    by (simp flip: encode_frames_append)
  then have "take (length (encode_frames enc (take j ops))) (take k (encode_frames enc ops))
      = encode_frames enc (take j ops)" using j(3) by (simp add: min_absorb1)
  then have cut: "take (length ?kept) ?file = ?kept" by (simp add: live encode_frames_append)
  have "replay_frames dec ?file = (b @ take j ops, length ?kept, Clean)"
    using replay_append [of b enc dec "take k (encode_frames enc ops)"] assms(2) j(2)
    by (simp add: live encode_frames_append)
  then have "replay_and_repair dec (Some ?file) = (Some (b @ take j ops), Some ?kept)"
    using cut by (rule repair_to)
  moreover have "replay_and_repair dec (lf_prev f) = (Some a, lf_prev f)"
    using assms(1,2) by (intro replay_and_repair_holds) (auto simp: log_holds_def)
  ultimately have "load_log dec (f\<lparr>lf_live := Some ?file\<rparr>)
      = (Some (a @ b @ take j ops), f\<lparr>lf_live := Some ?kept\<rparr>)"
    by (simp add: load_log_def)
  moreover have "log_holds enc a (b @ take j ops) (f\<lparr>lf_live := Some ?kept\<rparr>)"
    using assms(1) by (simp add: log_holds_def holds_ops_def)
  ultimately show ?thesis using j(1) that by blast
qed

lemma torn_recovers:
  assumes "petgraph_ok pg" "holds_history enc dec who ds a b s"
    and "event_ok pg who ev" "is_logged ev" "ops = new_ops (sd_db s) (db_step pg ev (sd_db s))"
    and "\<forall>op \<in> set ops. fits enc dec op" "k \<le> length (encode_frames enc ops)"
    and "live = (case lf_live (sd_files s) of Some bs \<Rightarrow> bs | None \<Rightarrow> [])"
  obtains j d files where "j \<le> length ops"
    "recovered pg dec
       (s\<lparr>sd_files := (sd_files s)\<lparr>lf_live := Some (live @ take k (encode_frames enc ops))\<rparr>\<rparr>)
       = Some (d, files)"
    "abs_db d = spec_ops (take j ops) (abs_db (sd_db s))"
    "stored_ok enc dec who (s\<lparr>sd_db := d, sd_files := files, sd_phase := Idle\<rparr>)"
proof -
  from assms(2) have h: "db_ok who (sd_db s)" "accepts (sd_db s)" "db_ok who ds"
    "sd_snapshot s = build_state ds" "log_holds enc a b (sd_files s)"
    "\<forall>op \<in> set (a @ b). fits enc dec op" "\<forall>op \<in> set (a @ b). op_ok who op"
    "abs_db (sd_db s) = spec_ops (a @ b) (abs_db ds)" by (simp_all add: holds_history_def)
  from assms(2) obtain s0 where s0: "effective (a @ b) s0" "abs_db (sd_db s) = spec_ops (a @ b) s0"
    by (auto simp: holds_history_def)
  have new: "\<forall>op \<in> set ops. op_ok who op" "effective ops (abs_db (sd_db s))"
    using db_step_new_ops [OF assms(3,4) h(1,2)] unfolding assms(5) [symmetric]
    by (simp_all add: logged_as_def list_all_iff)
  obtain j f' where j: "j \<le> length ops"
    "load_log dec ((sd_files s)\<lparr>lf_live := Some (live @ take k (encode_frames enc ops))\<rparr>)
       = (Some (a @ b @ take j ops), f')" "log_holds enc a (b @ take j ops) f'"
    using torn_log [OF h(5,6) assms(6-8)] by blast
  let ?s = "s\<lparr>sd_files := (sd_files s)\<lparr>lf_live := Some (live @ take k (encode_frames enc ops))\<rparr>\<rparr>"
  have prefix: "effective (take j ops) (abs_db (sd_db s))"
    using new(2) by (metis append_take_drop_id effective_append)
  have all: "\<forall>op \<in> set (a @ b @ take j ops). fits enc dec op \<and> op_ok who op"
    using h(6,7) new(1) assms(6) by (auto dest: in_set_takeD)
  obtain d where d: "recovered pg dec ?s = Some (d, f')"
    "abs_db d = spec_ops (a @ b @ take j ops) (abs_db ds)" "db_ok who d" "accepts d"
    by (rule load_holds [OF assms(1) h(3), of ?s "a @ b @ take j ops" dec f'])
      (use h(4) all j(2) in auto)
  have "stored_ok enc dec who (s\<lparr>sd_db := d, sd_files := f', sd_phase := Idle\<rparr>)"
    unfolding stored_eta h(4)
    by (rule reopen_ok [of d a "b @ take j ops" ds _ _ _ _ s0])
      (use d h(3,8) j(3) all s0 prefix in auto)
  moreover have "abs_db d = spec_ops (take j ops) (abs_db (sd_db s))" using d(2) h(8) by simp
  ultimately show ?thesis using j(1) d(1) that by blast
qed

lemma stored_step_ok:
  assumes "stored_step pg enc dec who s s'" "petgraph_ok pg" "stored_ok enc dec who s"
  shows "stored_ok enc dec who s'"
  using assms(1)
proof cases
  case (mutate ev d')
  then show ?thesis using mutate_ok [of pg who ev d' s enc dec] assms(3) by blast
next
  case retire
  from assms(3) obtain ds a b where "holds_history enc dec who ds a b s" by (auto simp: stored_ok_def)
  then show ?thesis unfolding retire(1)
    by (intro stored_okI [of _ _ _ ds "a @ b" "[]"]) (auto simp: holds_history_def intro: rotate_holds)
next
  case publish
  then show ?thesis using publish_ok [OF assms(3)] by simp
next
  case discard
  from stored_okE [OF assms(3)] obtain ds a b s0 where h: "holds_history enc dec who ds a b s"
    and "effective (a @ b) s0" "abs_db (sd_db s) = spec_ops (a @ b) s0" by blast
  then have "\<exists>s0. effective b s0 \<and> abs_db (sd_db s) = spec_ops b s0"
    by (intro exI [of _ "spec_ops a s0"]) simp
  then show ?thesis unfolding discard(1) using h discard(2)
    by (intro stored_okI [of _ _ _ ds "[]" b]) (auto simp: holds_history_def intro: discard_holds)
next
  case give_up
  from assms(3) obtain ds a b where "holds_history enc dec who ds a b s" by (auto simp: stored_ok_def)
  then show ?thesis unfolding give_up
    by (intro stored_okI [of _ _ _ ds a b]) (auto simp: holds_history_def)
next
  case (crash d files)
  then show ?thesis using crash_ok [OF assms(2,3)] by simp
next
  case (torn ev ops k live d files)
  from assms(3) obtain ds a b where h: "holds_history enc dec who ds a b s" by (auto simp: stored_ok_def)
  from torn_recovers [OF assms(2) h torn(2-7)] torn(8) show ?thesis unfolding torn(1) by auto
qed

lemma stored_run_ok:
  assumes "(stored_step pg enc dec who)\<^sup>*\<^sup>* s s'" "petgraph_ok pg" "stored_ok enc dec who s"
  shows "stored_ok enc dec who s'"
  using assms(1,3) by induction (auto intro: stored_step_ok assms(2))

end
