(* ===== verification/Traversal.thy ===== *)
theory Traversal
  imports Store_Recovery
begin

text \<open>
  The breadth-first walks of \<^verbatim>\<open>src/src/server/graph/mod.rs\<close>: \<open>traverse\<close>, \<open>bfs_from\<close>,
  \<open>find_path\<close> and \<open>subgraph_around\<close>, each a loop over a queue as in the source, with one
  invariant for all of them: when the queue runs empty, the depth at which a node was
  queued is its least number of hops, and every node within the bound was queued.
\<close>

section \<open>The invariant of a bounded breadth-first walk\<close>

text \<open>
  \<open>D\<close> is the depth each visited node was queued at. \<open>succ\<close> lists a node's neighbours, \<open>m\<close>
  is the depth from which nodes are no longer expanded.
\<close>

definition hops :: "('a \<Rightarrow> 'a list) \<Rightarrow> ('a \<times> 'a) set" where
  "hops succ = {(x, y). y \<in> set (succ x)}"

definition bfs_inv ::
    "('a \<Rightarrow> 'a list) \<Rightarrow> 'a \<Rightarrow> nat \<Rightarrow> ('a \<times> nat) list \<Rightarrow> ('a \<Rightarrow> nat option) \<Rightarrow> bool" where
  "bfs_inv succ s m q D \<longleftrightarrow>
     D s = Some 0
     \<and> (\<forall>y k. D y = Some k \<longrightarrow> (s, y) \<in> hops succ ^^ k \<and> k \<le> m)
     \<and> (\<forall>(x, d) \<in> set q. D x = Some d)
     \<and> (\<forall>x d. D x = Some d \<longrightarrow> (x, d) \<notin> set q \<longrightarrow> d < m \<longrightarrow>
          (\<forall>y \<in> set (succ x). \<exists>k \<le> Suc d. D y = Some k))
     \<and> sorted (map snd q)
     \<and> (\<forall>x d q'. q = (x, d) # q' \<longrightarrow>
          (\<forall>y k. D y = Some k \<longrightarrow> k \<le> Suc d \<and> ((y, k) \<notin> set q \<longrightarrow> k \<le> d)))"

lemma bfs_inv_start: "bfs_inv succ s m [(s, 0)] [s \<mapsto> 0]"
  by (auto simp: bfs_inv_def split: if_splits)

lemma bfs_inv_skip:
  assumes "bfs_inv succ s m ((x, d) # q) D" "m \<le> d"
  shows "bfs_inv succ s m q D"
  using assms unfolding bfs_inv_def by (auto 0 4 simp: le_Suc_eq)

text \<open>The nodes one expansion adds, each once, in the order met.\<close>

primrec newly :: "'a list \<Rightarrow> 'a set \<Rightarrow> 'a list" where
  "newly [] seen = []"
| "newly (y # ys) seen = (if y \<in> seen then newly ys seen else y # newly ys (insert y seen))"

lemma set_newly: "set (newly ys seen) = set ys - seen"
  by (induction ys arbitrary: seen) auto

lemma distinct_newly: "distinct (newly ys seen)"
  by (induction ys arbitrary: seen) (auto simp: set_newly)

definition extend :: "('a \<Rightarrow> nat option) \<Rightarrow> 'a list \<Rightarrow> nat \<Rightarrow> 'a \<Rightarrow> nat option" where
  "extend D new d = (\<lambda>y. if y \<in> set new then Some d else D y)"

lemma dom_extend: "dom (extend D new d) = dom D \<union> set new"
  by (auto simp: extend_def)

lemma sorted_const: "sorted (map (\<lambda>_. c :: nat) xs)"
  by (induction xs) auto

lemma bfs_inv_expand:
  assumes inv: "bfs_inv succ s m ((x, d) # q) D" and "d < m"
  defines "new \<equiv> newly (succ x) (dom D)"
  shows "bfs_inv succ s m (q @ map (\<lambda>y. (y, Suc d)) new) (extend D new (Suc d))"
proof -
  let ?D = "extend D new (Suc d)" and ?q = "q @ map (\<lambda>y. (y, Suc d)) new"
  have new: "set new = set (succ x) - dom D" by (simp add: new_def set_newly)
  have old: "?D y = Some k" if "D y = Some k" for y k using that new by (auto simp: extend_def)
  have cases: "D y = Some k \<or> y \<in> set new \<and> k = Suc d \<and> D y = None" if "?D y = Some k" for y k
    using that new by (auto simp: extend_def split: if_splits)
  have x: "D x = Some d" using inv by (simp add: bfs_inv_def)
  have reach: "(s, y) \<in> hops succ ^^ k \<and> k \<le> m" if "?D y = Some k" for y k
  proof -
    from cases [OF that] show ?thesis
    proof
      assume "D y = Some k"
      with inv show ?thesis by (simp add: bfs_inv_def)
    next
      assume y: "y \<in> set new \<and> k = Suc d \<and> D y = None"
      from inv x have "(s, x) \<in> hops succ ^^ d" by (simp add: bfs_inv_def)
      moreover from y new have "(x, y) \<in> hops succ" by (simp add: hops_def)
      ultimately show ?thesis using y \<open>d < m\<close> by auto
    qed
  qed
  have queue: "?D y = Some k" if "(y, k) \<in> set ?q" for y k
  proof -
    from that consider "(y, k) \<in> set q" | "y \<in> set new" "k = Suc d" by auto
    then show ?thesis
    proof cases
      case 1
      with inv have "D y = Some k" by (auto simp: bfs_inv_def)
      then show ?thesis by (rule old)
    qed (simp add: extend_def)
  qed
  have bound: "k \<le> Suc d" if "D y = Some k" for y k using inv that by (auto simp: bfs_inv_def)
  have qd: "d \<le> k" if "(y, k) \<in> set q" for y k using inv that by (force simp: bfs_inv_def)
  have closed: "\<exists>k \<le> Suc e. ?D y = Some k"
    if z: "?D z = Some e" "(z, e) \<notin> set ?q" "e < m" "y \<in> set (succ z)" for z e y
  proof (cases "z = x")
    case True
    then have "e = d" using z(1) old [OF x] by simp
    show ?thesis
    proof (cases "D y")
      case None
      with z(4) True new have "?D y = Some (Suc d)" by (auto simp: extend_def)
      with \<open>e = d\<close> show ?thesis by auto
    next
      case (Some k)
      with old bound \<open>e = d\<close> show ?thesis by blast
    qed
  next
    case False
    with z(2) cases [OF z(1)] have "D z = Some e" "(z, e) \<notin> set ((x, d) # q)" by auto
    with inv have "e < m \<longrightarrow> (\<forall>y \<in> set (succ z). \<exists>k \<le> Suc e. D y = Some k)"
      unfolding bfs_inv_def by (elim conjE) simp
    with z(3,4) obtain k where "k \<le> Suc e" "D y = Some k" by blast
    with old show ?thesis by blast
  qed
  have sorted: "sorted (map snd ?q)"
  proof -
    have "k \<le> Suc d" if "(y, k) \<in> set q" for y k
    proof -
      from that inv have "D y = Some k" by (auto simp: bfs_inv_def)
      then show ?thesis by (rule bound)
    qed
    moreover have "sorted (map snd q)" using inv by (simp add: bfs_inv_def)
    ultimately show ?thesis by (auto simp: sorted_append comp_def sorted_const)
  qed
  have head: "k \<le> Suc e \<and> ((y, k) \<notin> set ?q \<longrightarrow> k \<le> e)"
    if q: "?q = (z, e) # q'" and y: "?D y = Some k" for z e q' y k
  proof -
    have "d \<le> e" using q qd by (cases q) auto
    have "k \<le> Suc d" using cases [OF y] bound by auto
    moreover have "(y, k) \<notin> set ?q \<longrightarrow> k \<le> d"
      using cases [OF y] inv unfolding bfs_inv_def by auto
    ultimately show ?thesis using \<open>d \<le> e\<close> by linarith
  qed
  have "?D s = Some 0" using inv old by (simp add: bfs_inv_def)
  moreover have "\<forall>(y, k) \<in> set ?q. ?D y = Some k" using queue by blast
  moreover have "\<forall>z e. ?D z = Some e \<longrightarrow> (z, e) \<notin> set ?q \<longrightarrow> e < m \<longrightarrow>
      (\<forall>y \<in> set (succ z). \<exists>k \<le> Suc e. ?D y = Some k)"
    using closed by blast
  moreover have "\<forall>z e q'. ?q = (z, e) # q' \<longrightarrow>
      (\<forall>y k. ?D y = Some k \<longrightarrow> k \<le> Suc e \<and> ((y, k) \<notin> set ?q \<longrightarrow> k \<le> e))"
    using head by blast
  moreover have "\<forall>y k. ?D y = Some k \<longrightarrow> (s, y) \<in> hops succ ^^ k \<and> k \<le> m"
    using reach by blast
  ultimately show ?thesis unfolding bfs_inv_def using sorted by (intro conjI)
qed

lemma bfs_inv_complete:
  assumes "bfs_inv succ s m [] D" "(s, y) \<in> hops succ ^^ k" "k \<le> m"
  shows "\<exists>j \<le> k. D y = Some j"
  using assms(2,3)
proof (induction k arbitrary: y)
  case 0
  with assms(1) show ?case by (simp add: bfs_inv_def)
next
  case (Suc k)
  then obtain x where "(s, x) \<in> hops succ ^^ k" "y \<in> set (succ x)" by (auto simp: hops_def)
  with Suc obtain j where j: "j \<le> k" "D x = Some j" by auto
  from assms(1) j(2) have "j < m \<longrightarrow> (\<forall>y \<in> set (succ x). \<exists>k \<le> Suc j. D y = Some k)"
    unfolding bfs_inv_def by (elim conjE) simp
  with j(1) Suc.prems(2) \<open>y \<in> set (succ x)\<close> obtain i where "i \<le> Suc j" "D y = Some i" by auto
  with j(1) show ?case by auto
qed

text \<open>The depth is the least number of hops, and only the bound limits the walk.\<close>

definition hop_dist :: "('a \<Rightarrow> 'a list) \<Rightarrow> 'a \<Rightarrow> 'a \<Rightarrow> nat \<Rightarrow> bool" where
  "hop_dist succ s y k \<longleftrightarrow>
     (s, y) \<in> hops succ ^^ k \<and> (\<forall>j < k. (s, y) \<notin> hops succ ^^ j)"

lemma bfs_inv_done:
  assumes "bfs_inv succ s m [] D"
  shows "D y = Some k \<longleftrightarrow> k \<le> m \<and> hop_dist succ s y k"
proof
  assume D: "D y = Some k"
  with assms have k: "(s, y) \<in> hops succ ^^ k" "k \<le> m" by (auto simp: bfs_inv_def)
  have "(s, y) \<notin> hops succ ^^ j" if "j < k" for j
    using bfs_inv_complete [OF assms, of y j] that k(2) D by auto
  with k show "k \<le> m \<and> hop_dist succ s y k" by (simp add: hop_dist_def)
next
  assume k: "k \<le> m \<and> hop_dist succ s y k"
  then have "(s, y) \<in> hops succ ^^ k" "k \<le> m" by (simp_all add: hop_dist_def)
  from bfs_inv_complete [OF assms this] obtain j where j: "j \<le> k" "D y = Some j" by blast
  with assms have "(s, y) \<in> hops succ ^^ j" by (auto simp: bfs_inv_def)
  with k j(1) have "j = k" by (meson hop_dist_def le_neq_implies_less)
  with j show "D y = Some k" by simp
qed

section \<open>The walks\<close>

definition far_end :: "direction \<Rightarrow> edge_rec \<Rightarrow> nat" where
  "far_end dir = (\<lambda>(s, t, _). case dir of Outgoing \<Rightarrow> t | Incoming \<Rightarrow> s)"

definition endpoints :: "pgraph \<Rightarrow> nat set" where
  "endpoints g = (\<lambda>(s, _, _). s) ` set (g_edges g) \<union> (\<lambda>(_, t, _). t) ` set (g_edges g)"

lemma finite_endpoints [simp]: "finite (endpoints g)"
  by (simp add: endpoints_def)

lemma far_end_endpoints:
  "r \<in> set (edges_directed pg g i dir) \<Longrightarrow> far_end dir r \<in> endpoints g"
  by (cases r; cases dir) (force simp: set_edges_directed far_end_def endpoints_def)+

text \<open>\<open>traverse\<close>: the loop over one node's edges, then the loop over the queue.\<close>

primrec traverse_edges ::
    "pgraph \<Rightarrow> edge_type \<Rightarrow> nat \<Rightarrow> direction \<Rightarrow> nat \<Rightarrow> edge_rec list \<Rightarrow>
     nat set \<times> (nat \<times> nat) list \<times> graph_node list \<Rightarrow> nat set \<times> (nat \<times> nat) list \<times> graph_node list" where
  "traverse_edges g ety mind dir depth [] st = st"
| "traverse_edges g ety mind dir depth (r # rs) st =
     (let (visited, queue, result) = st; next = far_end dir r; w = snd (snd r) in
      if ge_type w \<noteq> ety then traverse_edges g ety mind dir depth rs st
      else if next \<in> visited then traverse_edges g ety mind dir depth rs st
      else (case g_node g next of
              None \<Rightarrow> traverse_edges g ety mind dir depth rs (insert next visited, queue, result)
            | Some node \<Rightarrow>
                traverse_edges g ety mind dir depth rs
                  (insert next visited, queue @ [(next, Suc depth)],
                   if mind \<le> Suc depth then result @ [node] else result)))"

lemma traverse_edges_visited:
  "visited \<subseteq> fst (traverse_edges g ety mind dir depth rs (visited, queue, result))
   \<and> fst (traverse_edges g ety mind dir depth rs (visited, queue, result)) \<subseteq> visited \<union> far_end dir ` set rs
   \<and> (fst (traverse_edges g ety mind dir depth rs (visited, queue, result)) = visited \<longrightarrow>
        fst (snd (traverse_edges g ety mind dir depth rs (visited, queue, result))) = queue)"
proof (induction rs arbitrary: visited queue result)
  case (Cons r rs)
  show ?case
  proof (cases "ge_type (snd (snd r)) \<noteq> ety \<or> far_end dir r \<in> visited")
    case True
    with Cons [of visited queue result] show ?thesis by (auto simp: Let_def)
  next
    case False
    then show ?thesis
      using Cons [of "insert (far_end dir r) visited" queue result]
        Cons [of "insert (far_end dir r) visited" "queue @ [(far_end dir r, Suc depth)]"
            "if mind \<le> Suc depth then result @ [the (g_node g (far_end dir r))] else result"]
      by (cases "g_node g (far_end dir r)") (auto simp: Let_def)
  qed
qed simp

function traverse_loop ::
    "petgraph \<Rightarrow> pgraph \<Rightarrow> edge_type \<Rightarrow> nat \<Rightarrow> nat \<Rightarrow> direction \<Rightarrow> (nat \<times> nat) list \<Rightarrow>
     nat set \<Rightarrow> graph_node list \<Rightarrow> graph_node list" where
  "traverse_loop pg g ety mind maxd dir [] visited result = result"
| "traverse_loop pg g ety mind maxd dir ((current, depth) # queue) visited result =
     (if maxd \<le> depth then traverse_loop pg g ety mind maxd dir queue visited result
      else
        let st = traverse_edges g ety mind dir depth (edges_directed pg g current dir)
                   (visited, queue, result) in
        traverse_loop pg g ety mind maxd dir (fst (snd st)) (fst st) (snd (snd st)))"
  by pat_completeness auto

text \<open>A pass over an edge list marks a new node, or it leaves a shorter queue.\<close>

lemma walk_measure:
  assumes "V \<subseteq> V'" "V' \<subseteq> V \<union> E" "E \<subseteq> endpoints g" "V' = V \<longrightarrow> Q = q"
  shows "((V', Q), (V, x # q)) \<in> measures [\<lambda>(v, _). card (endpoints g - v), \<lambda>(_, q). length q]"
proof (cases "V' = V")
  case True
  with assms(4) show ?thesis by simp
next
  case False
  with assms(1-3) obtain y where "y \<in> V'" "y \<notin> V" "y \<in> endpoints g" by blast
  with assms(1) have "endpoints g - V' \<subset> endpoints g - V" by blast
  then have "card (endpoints g - V') < card (endpoints g - V)" by (rule psubset_card_mono [rotated]) simp
  then show ?thesis by simp
qed

termination traverse_loop
proof (relation "inv_image (measures [\<lambda>(g, v, _). card (endpoints g - v), \<lambda>(_, _, q). length q])
    (\<lambda>(_, g, _, _, _, _, q, v, _). (g, v, q))", goal_cases)
  case (3 pg g ety mind maxd dir current depth queue visited result st)
  let ?E = "far_end dir ` set (edges_directed pg g current dir)"
  note v = traverse_edges_visited [of visited g ety mind dir depth "edges_directed pg g current dir" queue result]
  have "?E \<subseteq> endpoints g" using far_end_endpoints by blast
  with v walk_measure [of visited "fst st" ?E g "fst (snd st)" queue "(current, depth)"] 3(2)
  show ?case by simp
qed simp_all

definition traverse ::
    "petgraph \<Rightarrow> graph_db \<Rightarrow> string \<Rightarrow> edge_type \<Rightarrow> nat \<Rightarrow> nat \<Rightarrow> direction \<Rightarrow> graph_node list" where
  "traverse pg d start ety mind maxd dir =
     (case hm_get (db_index d) start of
        None \<Rightarrow> []
      | Some i \<Rightarrow>
          if maxd < mind then []
          else traverse_loop pg (db_graph d) ety mind maxd dir [(i, 0)] {i} [])"

section \<open>What \<open>traverse\<close> returns\<close>

definition typed_succ :: "petgraph \<Rightarrow> pgraph \<Rightarrow> edge_type \<Rightarrow> direction \<Rightarrow> nat \<Rightarrow> nat list" where
  "typed_succ pg g ety dir i =
     map (far_end dir) (filter (\<lambda>(_, _, w). ge_type w = ety) (edges_directed pg g i dir))"

definition closed_graph :: "pgraph \<Rightarrow> bool" where
  "closed_graph g \<longleftrightarrow> (\<forall>i \<in> endpoints g. g_node g i \<noteq> None)"

lemma db_ok_closed: "db_ok who d \<Longrightarrow> closed_graph (db_graph d)"
  by (fastforce simp: db_ok_def coherent_def graph_ok_def edges_ok_def closed_graph_def endpoints_def)

lemma traverse_edges_newly:
  fixes ety :: edge_type
  assumes "\<forall>r \<in> set rs. g_node g (far_end dir r) \<noteq> None"
  defines "ys \<equiv> map (far_end dir) (filter (\<lambda>(_, _, w). ge_type w = ety) rs)"
  shows "traverse_edges g ety mind dir depth rs (visited, queue, result) =
     (visited \<union> set (newly ys visited), queue @ map (\<lambda>y. (y, Suc depth)) (newly ys visited),
      result @ (if mind \<le> Suc depth then map (the \<circ> g_node g) (newly ys visited) else []))"
  using assms(1) unfolding ys_def
proof (induction rs arbitrary: visited queue result)
  case (Cons r rs)
  then show ?case by (cases r) (auto simp: Let_def)
qed simp

lemma traverse_loop_set:
  assumes "closed_graph g"
    and "bfs_inv (typed_succ pg g ety dir) s maxd queue D" "visited = dom D"
    and "set result = {n. \<exists>y k. y \<noteq> s \<and> D y = Some k \<and> mind \<le> k \<and> g_node g y = Some n}"
  shows "set (traverse_loop pg g ety mind maxd dir queue visited result) =
     {n. \<exists>y k. y \<noteq> s \<and> mind \<le> k \<and> k \<le> maxd \<and> hop_dist (typed_succ pg g ety dir) s y k
           \<and> g_node g y = Some n}"
  using assms
proof (induction pg g ety mind maxd dir queue visited result arbitrary: D rule: traverse_loop.induct)
  case (1 pg g ety mind maxd dir visited result)
  then show ?case using bfs_inv_done [OF 1(2)] by simp blast
next
  case (2 pg g ety mind maxd dir current depth queue visited result)
  let ?succ = "typed_succ pg g ety dir"
  show ?case
  proof (cases "maxd \<le> depth")
    case True
    with 2 bfs_inv_skip [OF "2.prems"(2)] show ?thesis by simp
  next
    case False
    define new where "new = newly (?succ current) (dom D)"
    let ?D = "extend D new (Suc depth)"
    have nodes: "\<forall>r \<in> set (edges_directed pg g current dir). g_node g (far_end dir r) \<noteq> None"
      using "2.prems"(1) far_end_endpoints by (auto simp: closed_graph_def)
    have st: "traverse_edges g ety mind dir depth (edges_directed pg g current dir)
          (visited, queue, result) =
        (dom ?D, queue @ map (\<lambda>y. (y, Suc depth)) new,
         result @ (if mind \<le> Suc depth then map (the \<circ> g_node g) new else []))"
      using traverse_edges_newly [OF nodes, of ety mind depth visited queue result] "2.prems"(3)
      by (simp add: new_def typed_succ_def dom_extend)
    have inv: "bfs_inv ?succ s maxd (queue @ map (\<lambda>y. (y, Suc depth)) new) ?D"
      unfolding new_def using False by (intro bfs_inv_expand "2.prems"(2)) simp
    have fresh: "y \<notin> dom D" "y \<noteq> s" "\<exists>n. g_node g y = Some n" if "y \<in> set new" for y
      using that "2.prems"(2) nodes
      by (auto simp: new_def set_newly bfs_inv_def typed_succ_def)
    have "set (result @ (if mind \<le> Suc depth then map (the \<circ> g_node g) new else [])) =
        {n. \<exists>y k. y \<noteq> s \<and> ?D y = Some k \<and> mind \<le> k \<and> g_node g y = Some n}"
    proof -
      have D: "?D y = Some k \<longleftrightarrow> y \<in> set new \<and> k = Suc depth \<or> D y = Some k" for y k
        using fresh(1) by (auto simp: extend_def)
      have "set (map (the \<circ> g_node g) new) = {n. \<exists>y \<in> set new. g_node g y = Some n}"
        using fresh(3) by force
      then show ?thesis unfolding D using fresh(2) "2.prems"(4) by (auto simp del: set_map)
    qed
    from "2.IH"(2) [OF False refl] inv this "2.prems"(1) False show ?thesis
      by (simp add: st)
  qed
qed

lemma traverse_correct:
  assumes "db_ok who d" "hm_get (db_index d) start = Some s"
  shows "set (traverse pg d start ety mind maxd dir) =
     {n. \<exists>y k. 0 < k \<and> mind \<le> k \<and> k \<le> maxd
           \<and> hop_dist (typed_succ pg (db_graph d) ety dir) s y k \<and> g_node (db_graph d) y = Some n}"
proof (cases "maxd < mind")
  case True
  with assms(2) show ?thesis by (auto simp: traverse_def)
next
  case False
  let ?succ = "typed_succ pg (db_graph d) ety dir"
  have "set (traverse_loop pg (db_graph d) ety mind maxd dir [(s, 0)] {s} []) =
     {n. \<exists>y k. y \<noteq> s \<and> mind \<le> k \<and> k \<le> maxd \<and> hop_dist ?succ s y k \<and> g_node (db_graph d) y = Some n}"
    by (rule traverse_loop_set [OF db_ok_closed [OF assms(1)] bfs_inv_start])
       (auto split: if_splits)
  moreover have "traverse pg d start ety mind maxd dir =
      traverse_loop pg (db_graph d) ety mind maxd dir [(s, 0)] {s} []"
    using False assms(2) by (simp add: traverse_def del: traverse_loop.simps)
  moreover have "y \<noteq> s \<longleftrightarrow> 0 < k" if "hop_dist ?succ s y k" for y k
    using that by (cases k) (auto simp: hop_dist_def dest: spec [of _ 0])
  ultimately show ?thesis by (simp del: traverse_loop.simps) blast
qed

declare traverse_loop.simps [simp del]

section \<open>\<open>bfs_from\<close>\<close>

text \<open>The start is not marked, so a cycle reports it at the depth it is met again.\<close>

primrec bfs_edges ::
    "pgraph \<Rightarrow> nat \<Rightarrow> edge_rec list \<Rightarrow> nat set \<times> (nat \<times> nat) list \<times> (graph_node \<times> graph_edge \<times> nat) list \<Rightarrow>
     nat set \<times> (nat \<times> nat) list \<times> (graph_node \<times> graph_edge \<times> nat) list" where
  "bfs_edges g depth [] st = st"
| "bfs_edges g depth (r # rs) st =
     (let (visited, queue, results) = st; next = far_end Outgoing r in
      if next \<in> visited then bfs_edges g depth rs st
      else (case g_node g next of
              None \<Rightarrow> bfs_edges g depth rs (insert next visited, queue, results)
            | Some node \<Rightarrow>
                bfs_edges g depth rs
                  (insert next visited, queue @ [(next, Suc depth)],
                   results @ [(node, snd (snd r), Suc depth)])))"

lemma bfs_edges_visited:
  "visited \<subseteq> fst (bfs_edges g depth rs (visited, queue, results))
   \<and> fst (bfs_edges g depth rs (visited, queue, results)) \<subseteq> visited \<union> far_end Outgoing ` set rs
   \<and> (fst (bfs_edges g depth rs (visited, queue, results)) = visited \<longrightarrow>
        fst (snd (bfs_edges g depth rs (visited, queue, results))) = queue)"
proof (induction rs arbitrary: visited queue results)
  case (Cons r rs)
  show ?case
  proof (cases "far_end Outgoing r \<in> visited")
    case True
    with Cons [of visited queue results] show ?thesis by (auto simp: Let_def)
  next
    case False
    then show ?thesis
      using Cons [of "insert (far_end Outgoing r) visited" queue results]
        Cons [of "insert (far_end Outgoing r) visited" "queue @ [(far_end Outgoing r, Suc depth)]"
            "results @ [(the (g_node g (far_end Outgoing r)), snd (snd r), Suc depth)]"]
      by (cases "g_node g (far_end Outgoing r)") (auto simp: Let_def)
  qed
qed simp

function bfs_loop ::
    "petgraph \<Rightarrow> pgraph \<Rightarrow> nat \<Rightarrow> (nat \<times> nat) list \<Rightarrow> nat set \<Rightarrow> (graph_node \<times> graph_edge \<times> nat) list \<Rightarrow>
     (graph_node \<times> graph_edge \<times> nat) list" where
  "bfs_loop pg g maxd [] visited results = results"
| "bfs_loop pg g maxd ((current, depth) # queue) visited results =
     (if maxd \<le> depth then bfs_loop pg g maxd queue visited results
      else
        let st = bfs_edges g depth (edges_directed pg g current Outgoing) (visited, queue, results) in
        bfs_loop pg g maxd (fst (snd st)) (fst st) (snd (snd st)))"
  by pat_completeness auto

termination bfs_loop
proof (relation "inv_image (measures [\<lambda>(g, v, _). card (endpoints g - v), \<lambda>(_, _, q). length q])
    (\<lambda>(_, g, _, q, v, _). (g, v, q))", goal_cases)
  case (3 pg g maxd current depth queue visited results st)
  let ?E = "far_end Outgoing ` set (edges_directed pg g current Outgoing)"
  note v = bfs_edges_visited [of visited g depth "edges_directed pg g current Outgoing" queue results]
  have "?E \<subseteq> endpoints g" using far_end_endpoints by blast
  with v walk_measure [of visited "fst st" ?E g "fst (snd st)" queue "(current, depth)"] 3(2)
  show ?case by simp
qed simp_all

declare bfs_loop.simps [simp del]

definition bfs_from :: "petgraph \<Rightarrow> graph_db \<Rightarrow> string \<Rightarrow> nat \<Rightarrow> (graph_node \<times> graph_edge \<times> nat) list" where
  "bfs_from pg d start maxd =
     (case hm_get (db_index d) start of
        None \<Rightarrow> []
      | Some i \<Rightarrow> bfs_loop pg (db_graph d) maxd [(i, 0)] {} [])"

section \<open>\<open>subgraph_around\<close>\<close>

primrec sub_edges ::
    "nat \<Rightarrow> edge_rec list \<Rightarrow> nat set \<times> (nat \<times> nat) list \<Rightarrow> nat set \<times> (nat \<times> nat) list" where
  "sub_edges depth [] st = st"
| "sub_edges depth (r # rs) st =
     (let (visited, queue) = st; next = far_end Outgoing r in
      if next \<in> visited then sub_edges depth rs st
      else sub_edges depth rs (insert next visited, queue @ [(next, Suc depth)]))"

lemma sub_edges_newly:
  "sub_edges depth rs (visited, queue) =
     (visited \<union> set (newly (map (far_end Outgoing) rs) visited),
      queue @ map (\<lambda>y. (y, Suc depth)) (newly (map (far_end Outgoing) rs) visited))"
  by (induction rs arbitrary: visited queue) (auto simp: Let_def)

lemma newly_Nil: "newly ys seen = [] \<longleftrightarrow> set ys \<subseteq> seen"
  using set_newly [of ys seen] by (metis Diff_eq_empty_iff set_empty)

lemma sub_edges_visited:
  "visited \<subseteq> fst (sub_edges depth rs (visited, queue))
   \<and> fst (sub_edges depth rs (visited, queue)) \<subseteq> visited \<union> far_end Outgoing ` set rs
   \<and> (fst (sub_edges depth rs (visited, queue)) = visited \<longrightarrow>
        snd (sub_edges depth rs (visited, queue)) = queue)"
  by (auto simp: sub_edges_newly set_newly newly_Nil)

function subgraph_loop ::
    "petgraph \<Rightarrow> pgraph \<Rightarrow> nat \<Rightarrow> (nat \<times> nat) list \<Rightarrow> nat set \<Rightarrow> nat list \<Rightarrow> nat list" where
  "subgraph_loop pg g radius [] visited indices = indices"
| "subgraph_loop pg g radius ((current, depth) # queue) visited indices =
     (if radius \<le> depth then subgraph_loop pg g radius queue visited (indices @ [current])
      else
        let st = sub_edges depth (edges_directed pg g current Outgoing) (visited, queue) in
        subgraph_loop pg g radius (snd st) (fst st) (indices @ [current]))"
  by pat_completeness auto

termination subgraph_loop
proof (relation "inv_image (measures [\<lambda>(g, v, _). card (endpoints g - v), \<lambda>(_, _, q). length q])
    (\<lambda>(_, g, _, q, v, _). (g, v, q))", goal_cases)
  case (3 pg g radius current depth queue visited indices st)
  let ?E = "far_end Outgoing ` set (edges_directed pg g current Outgoing)"
  note v = sub_edges_visited [of visited depth "edges_directed pg g current Outgoing" queue]
  have "?E \<subseteq> endpoints g" using far_end_endpoints by blast
  with v walk_measure [of visited "fst st" ?E g "snd st" queue "(current, depth)"] 3(2)
  show ?case by simp
qed simp_all

declare subgraph_loop.simps [simp del]

definition subgraph_around ::
    "petgraph \<Rightarrow> graph_db \<Rightarrow> string \<Rightarrow> nat \<Rightarrow> (graph_node \<times> graph_edge list) list" where
  "subgraph_around pg d center radius =
     (case hm_get (db_index d) center of
        None \<Rightarrow> []
      | Some i \<Rightarrow>
          let g = db_graph d; indices = subgraph_loop pg g radius [(i, 0)] {i} [] in
          List.map_filter (\<lambda>j. map_option (\<lambda>n. (n,
              map (\<lambda>(_, _, e). e)
                (filter (\<lambda>(_, t, _). t \<in> set indices) (edges_directed pg g j Outgoing))))
            (g_node g j)) indices)"

definition out_succ :: "petgraph \<Rightarrow> pgraph \<Rightarrow> nat \<Rightarrow> nat list" where
  "out_succ pg g i = map (far_end Outgoing) (edges_directed pg g i Outgoing)"

lemma subgraph_loop_set:
  assumes "bfs_inv (out_succ pg g) s radius queue D" "visited = dom D"
    and "set indices \<union> fst ` set queue = dom D"
  shows "set (subgraph_loop pg g radius queue visited indices) =
     {y. \<exists>k \<le> radius. hop_dist (out_succ pg g) s y k}"
  using assms
proof (induction pg g radius queue visited indices arbitrary: D rule: subgraph_loop.induct)
  case (1 pg g radius visited indices)
  then show ?case using bfs_inv_done [OF 1(1)] by (auto simp: subgraph_loop.simps)
next
  case (2 pg g radius current depth queue visited indices)
  show ?case
  proof (cases "radius \<le> depth")
    case True
    with "2.IH"(1) [OF True bfs_inv_skip [OF "2.prems"(1) True] "2.prems"(2)] "2.prems"(3)
    show ?thesis by (simp add: subgraph_loop.simps)
  next
    case False
    define new where "new = newly (out_succ pg g current) (dom D)"
    have st: "sub_edges depth (edges_directed pg g current Outgoing) (visited, queue) =
        (dom (extend D new (Suc depth)), queue @ map (\<lambda>y. (y, Suc depth)) new)"
      using "2.prems"(2) by (simp add: sub_edges_newly new_def out_succ_def dom_extend)
    have inv: "bfs_inv (out_succ pg g) s radius (queue @ map (\<lambda>y. (y, Suc depth)) new)
        (extend D new (Suc depth))"
      unfolding new_def using False by (intro bfs_inv_expand "2.prems"(1)) simp
    have "set (indices @ [current]) \<union> fst ` set (queue @ map (\<lambda>y. (y, Suc depth)) new)
        = dom (extend D new (Suc depth))"
      using "2.prems"(3) by (auto simp: dom_extend image_Un image_image)
    from "2.IH"(2) [OF False refl] inv this False show ?thesis
      by (simp add: st subgraph_loop.simps)
  qed
qed

lemma subgraph_around_nodes:
  assumes "db_ok who d" "hm_get (db_index d) center = Some s"
  shows "fst ` set (subgraph_around pg d center radius) =
     {n. \<exists>y. (\<exists>k \<le> radius. hop_dist (out_succ pg (db_graph d)) s y k) \<and> g_node (db_graph d) y = Some n}"
proof -
  have "set (subgraph_loop pg (db_graph d) radius [(s, 0)] {s} []) =
      {y. \<exists>k \<le> radius. hop_dist (out_succ pg (db_graph d)) s y k}"
    by (rule subgraph_loop_set [OF bfs_inv_start]) auto
  with assms(2) show ?thesis
    by (force simp: subgraph_around_def Let_def List.map_filter_def image_iff)
qed

end
