(* ===== verification/Graph_Path.thy ===== *)
theory Graph_Path
  imports Traversal
begin

text \<open>
  \<open>find_path\<close> of \<^verbatim>\<open>src/src/server/graph/mod.rs\<close>: a breadth-first search that records each
  node's predecessor, and the walk back from the target. \<open>parents[&idx]\<close> panics on a
  missing key, the outcome \<open>None\<close> of \<open>walk_back\<close>; its fuel is the number of recorded
  nodes, which the walk never exceeds because every predecessor was recorded earlier.
\<close>

type_synonym parent_map = "(nat \<times> nat option) list"

primrec path_edges :: "nat \<Rightarrow> edge_rec list \<Rightarrow> parent_map \<times> nat list \<Rightarrow> parent_map \<times> nat list" where
  "path_edges current [] st = st"
| "path_edges current (r # rs) st =
     (let (parents, queue) = st; next = far_end Outgoing r in
      if next \<in> fst ` set parents then path_edges current rs st
      else path_edges current rs (parents @ [(next, Some current)], queue @ [next]))"

lemma path_edges_newly:
  "path_edges current rs (parents, queue) =
     (let new = newly (map (far_end Outgoing) rs) (fst ` set parents) in
      (parents @ map (\<lambda>y. (y, Some current)) new, queue @ new))"
  by (induction rs arbitrary: parents queue) (auto simp: Let_def insert_commute)

function path_loop :: "petgraph \<Rightarrow> pgraph \<Rightarrow> nat \<Rightarrow> nat list \<Rightarrow> parent_map \<Rightarrow> parent_map" where
  "path_loop pg g to [] parents = parents"
| "path_loop pg g to (current # queue) parents =
     (if current = to then parents
      else
        let st = path_edges current (edges_directed pg g current Outgoing) (parents, queue) in
        path_loop pg g to (snd st) (fst st))"
  by pat_completeness auto

termination path_loop
proof (relation "inv_image (measures [\<lambda>(g, v, _). card (endpoints g - v), \<lambda>(_, _, q). length q])
    (\<lambda>(_, g, _, q, ps). (g, fst ` set ps, q))", goal_cases)
  case (2 pg g to current queue parents st)
  let ?E = "far_end Outgoing ` set (edges_directed pg g current Outgoing)"
  let ?V = "fst ` set parents"
  have "?E \<subseteq> endpoints g" using far_end_endpoints by blast
  moreover have "fst ` set (fst st) = ?V \<union> (?E - ?V)"
    "fst ` set (fst st) = ?V \<longrightarrow> snd st = queue"
    using 2(2) by (auto simp: path_edges_newly Let_def set_newly image_Un image_image newly_Nil)
  ultimately show ?case
    using walk_measure [of ?V "fst ` set (fst st)" ?E g "snd st" queue current] by auto
qed simp_all

declare path_loop.simps [simp del]

primrec walk_back :: "nat \<Rightarrow> parent_map \<Rightarrow> nat \<Rightarrow> nat list option" where
  "walk_back 0 parents idx = None"
| "walk_back (Suc fuel) parents idx =
     (case map_of parents idx of
        None \<Rightarrow> None
      | Some None \<Rightarrow> Some [idx]
      | Some (Some p) \<Rightarrow> map_option (\<lambda>path. idx # path) (walk_back fuel parents p))"

definition index_path :: "petgraph \<Rightarrow> pgraph \<Rightarrow> nat \<Rightarrow> nat \<Rightarrow> nat list option" where
  "index_path pg g f t =
     (let parents = path_loop pg g t [f] [(f, None)] in
      if t \<notin> fst ` set parents then Some [] else walk_back (length parents) parents t)"

definition find_path :: "petgraph \<Rightarrow> graph_db \<Rightarrow> string \<Rightarrow> string \<Rightarrow> graph_node list option" where
  "find_path pg d from to =
     (case (hm_get (db_index d) from, hm_get (db_index d) to) of
        (Some f, Some t) \<Rightarrow>
          map_option (\<lambda>indices. List.map_filter (g_node (db_graph d)) (rev indices))
            (index_path pg (db_graph d) f t)
      | _ \<Rightarrow> Some [])"

section \<open>Predecessor maps\<close>

inductive parents_of :: "(nat \<Rightarrow> nat list) \<Rightarrow> nat \<Rightarrow> parent_map \<Rightarrow> bool" for succ s where
  root: "parents_of succ s [(s, None)]"
| step: "parents_of succ s ps \<Longrightarrow> x \<in> fst ` set ps \<Longrightarrow> y \<notin> fst ` set ps \<Longrightarrow> y \<in> set (succ x) \<Longrightarrow>
    parents_of succ s (ps @ [(y, Some x)])"

lemma parents_of_steps:
  "parents_of succ s ps \<Longrightarrow> x \<in> fst ` set ps \<Longrightarrow> distinct ys \<Longrightarrow> set ys \<inter> fst ` set ps = {} \<Longrightarrow>
    set ys \<subseteq> set (succ x) \<Longrightarrow> parents_of succ s (ps @ map (\<lambda>y. (y, Some x)) ys)"
proof (induction ys arbitrary: ps)
  case (Cons y ys)
  then have "parents_of succ s (ps @ [(y, Some x)])" by (intro parents_of.step) auto
  from Cons.IH [OF this] Cons.prems show ?case by auto
qed simp

text \<open>A walk along \<open>succ\<close>, listed from its end.\<close>

fun back_walk :: "(nat \<Rightarrow> nat list) \<Rightarrow> nat list \<Rightarrow> bool" where
  "back_walk succ [] = False"
| "back_walk succ [x] = True"
| "back_walk succ (y # x # p) = (y \<in> set (succ x) \<and> back_walk succ (x # p))"

lemma walk_back_mono:
  "walk_back fuel ps y = Some p \<Longrightarrow> (\<And>z v. map_of ps z = Some v \<Longrightarrow> map_of qs z = Some v) \<Longrightarrow>
    walk_back (fuel + k) qs y = Some p"
proof (induction fuel arbitrary: y p)
  case (Suc fuel)
  show ?case
  proof (cases "map_of ps y")
    case None
    with Suc.prems show ?thesis by simp
  next
    case (Some v)
    with Suc.prems(2) have "map_of qs y = Some v" by simp
    with Some Suc show ?thesis by (cases v) auto
  qed
qed simp

lemma walk_back_total:
  "parents_of succ s ps \<Longrightarrow> y \<in> fst ` set ps \<Longrightarrow>
    \<exists>p. walk_back (length ps) ps y = Some p \<and> hd p = y \<and> last p = s \<and> back_walk succ p"
proof (induction arbitrary: y rule: parents_of.induct)
  case root
  then show ?case by simp
next
  case (step ps x z)
  let ?ps = "ps @ [(z, Some x)]"
  have old: "map_of ?ps w = Some v" if "map_of ps w = Some v" for w v using that by simp
  show ?case
  proof (cases "y = z")
    case False
    with step.prems have "y \<in> fst ` set ps" by auto
    from step.IH [OF this] walk_back_mono [of "length ps" ps y _ ?ps 1] old show ?thesis by auto
  next
    case True
    from step.hyps(3) have "map_of ?ps z = Some (Some x)" by (simp add: map_of_eq_None_iff [symmetric] map_add_def)
    moreover obtain p where p: "walk_back (length ps) ps x = Some p" "hd p = x" "last p = s"
      "back_walk succ p" using step.IH [OF step.hyps(2)] by blast
    moreover from walk_back_mono [OF p(1), of ?ps 0] old
    have "walk_back (length ps) ?ps x = Some p" by simp
    moreover from p(2,4) have "back_walk succ (z # p)" using step.hyps(4) by (cases p) auto
    moreover from p(4) have "p \<noteq> []" by auto
    ultimately show ?thesis using True by simp
  qed
qed

text \<open>The search: recorded nodes not in the queue have all their successors recorded.\<close>

definition search_inv :: "(nat \<Rightarrow> nat list) \<Rightarrow> nat \<Rightarrow> nat list \<Rightarrow> parent_map \<Rightarrow> bool" where
  "search_inv succ s q ps \<longleftrightarrow>
     parents_of succ s ps \<and> set q \<subseteq> fst ` set ps
     \<and> (\<forall>x \<in> fst ` set ps - set q. set (succ x) \<subseteq> fst ` set ps)"

lemma path_loop_inv:
  assumes "search_inv (out_succ pg g) s queue ps"
  shows "parents_of (out_succ pg g) s (path_loop pg g to queue ps)
    \<and> (to \<in> fst ` set (path_loop pg g to queue ps)
       \<or> search_inv (out_succ pg g) s [] (path_loop pg g to queue ps))"
  using assms
proof (induction pg g to queue ps rule: path_loop.induct)
  case (1 pg g to ps)
  then show ?case by (simp add: path_loop.simps search_inv_def)
next
  case (2 pg g to current queue ps)
  show ?case
  proof (cases "current = to")
    case True
    with 2(2) show ?thesis by (simp add: path_loop.simps search_inv_def)
  next
    case False
    define new where "new = newly (out_succ pg g current) (fst ` set ps)"
    let ?ps = "ps @ map (\<lambda>y. (y, Some current)) new"
    have new: "set new = set (out_succ pg g current) - fst ` set ps"
      by (simp add: new_def set_newly)
    have st: "path_edges current (edges_directed pg g current Outgoing) (ps, queue) = (?ps, queue @ new)"
      by (simp add: path_edges_newly new_def out_succ_def Let_def)
    have keys: "fst ` set ?ps = fst ` set ps \<union> set new" by (auto simp: image_Un image_image)
    have "parents_of (out_succ pg g) s ?ps"
      by (rule parents_of_steps) (use 2(2) new in \<open>auto simp: search_inv_def new_def distinct_newly\<close>)
    moreover have "set (queue @ new) \<subseteq> fst ` set ?ps"
      using 2(2) unfolding keys by (auto simp: search_inv_def)
    moreover have "set (out_succ pg g x) \<subseteq> fst ` set ?ps"
      if "x \<in> fst ` set ?ps - set (queue @ new)" for x
    proof (cases "x = current")
      case True
      with new show ?thesis unfolding keys by auto
    next
      case False
      with that 2(2) have "set (out_succ pg g x) \<subseteq> fst ` set ps"
        unfolding keys search_inv_def by auto
      then show ?thesis unfolding keys by auto
    qed
    ultimately have "search_inv (out_succ pg g) s (queue @ new) ?ps"
      unfolding search_inv_def by blast
    with 2(1) [OF False refl] False show ?thesis by (simp add: st path_loop.simps)
  qed
qed

lemma search_closed:
  assumes "search_inv succ s [] ps" "(s, y) \<in> (hops succ)\<^sup>*"
  shows "y \<in> fst ` set ps"
  using assms(2)
proof (induction rule: rtrancl_induct)
  case base
  from assms(1) have "parents_of succ s ps" by (simp add: search_inv_def)
  then show ?case by induction auto
next
  case (step x y)
  with assms(1) show ?case by (auto simp: search_inv_def hops_def)
qed

lemma back_walk_reach: "back_walk succ p \<Longrightarrow> (last p, hd p) \<in> (hops succ)\<^sup>*"
  by (induction succ p rule: back_walk.induct) (auto simp: hops_def intro: rtrancl_into_rtrancl)

lemma index_path_correct:
  "if (f, t) \<in> (hops (out_succ pg g))\<^sup>*
   then \<exists>p. index_path pg g f t = Some p \<and> hd p = t \<and> last p = f \<and> back_walk (out_succ pg g) p
   else index_path pg g f t = Some []"
proof -
  let ?ps = "path_loop pg g t [f] [(f, None)]" and ?succ = "out_succ pg g"
  have "search_inv ?succ f [f] [(f, None)]" by (auto simp: search_inv_def intro: parents_of.root)
  note inv = path_loop_inv [OF this, of t]
  show ?thesis
  proof (cases "t \<in> fst ` set ?ps")
    case True
    with walk_back_total [of ?succ f ?ps t] inv obtain p where
      p: "walk_back (length ?ps) ?ps t = Some p" "hd p = t" "last p = f" "back_walk ?succ p" by blast
    with back_walk_reach [OF p(4)] True show ?thesis by (simp add: index_path_def Let_def)
  next
    case False
    with inv have "search_inv ?succ f [] ?ps" by blast
    with search_closed False have "(f, t) \<notin> (hops ?succ)\<^sup>*" by blast
    with False show ?thesis by (simp add: index_path_def Let_def)
  qed
qed

section \<open>Paths of nodes\<close>

definition linked :: "graph_db \<Rightarrow> graph_node \<Rightarrow> graph_node \<Rightarrow> bool" where
  "linked d m n \<longleftrightarrow>
     (\<exists>e \<in> set (edge_weights (db_graph d)). ge_source_id e = gn_id m \<and> ge_target_id e = gn_id n)"

fun chained :: "('a \<Rightarrow> 'a \<Rightarrow> bool) \<Rightarrow> 'a list \<Rightarrow> bool" where
  "chained r [] = True"
| "chained r [x] = True"
| "chained r (x # y # ys) = (r x y \<and> chained r (y # ys))"

lemma chained_snoc: "chained r (xs @ [x]) \<longleftrightarrow> chained r xs \<and> (xs = [] \<or> r (last xs) x)"
  by (induction r xs rule: chained.induct) auto

lemma chained_map: "chained r (map f xs) = chained (\<lambda>x y. r (f x) (f y)) xs"
  by (induction "\<lambda>x y. r (f x) (f y)" xs rule: chained.induct) auto

lemma chained_mono: "chained r xs \<Longrightarrow> (\<And>x y. r x y \<Longrightarrow> r' x y) \<Longrightarrow> chained r' xs"
  by (induction r xs rule: chained.induct) auto

lemma back_walk_chained: "back_walk succ p \<Longrightarrow> chained (\<lambda>x y. y \<in> set (succ x)) (rev p)"
proof (induction succ p rule: back_walk.induct)
  case (3 succ y x p)
  then have "chained (\<lambda>x y. y \<in> set (succ x)) (rev (x # p) @ [y])"
    by (subst chained_snoc) (simp add: last_rev del: rev.simps)
  then show ?case by simp
qed simp_all

lemma out_succ_linked:
  assumes "db_ok who d" "y \<in> set (out_succ pg (db_graph d) x)"
  shows "\<exists>m n. g_node (db_graph d) x = Some m \<and> g_node (db_graph d) y = Some n \<and> linked d m n"
proof -
  from assms(2) obtain e where e: "(x, y, e) \<in> set (g_edges (db_graph d))"
    by (auto simp: out_succ_def set_edges_directed far_end_def)
  with assms(1) have "map_option gn_id (g_node (db_graph d) x) = Some (ge_source_id e)"
    "map_option gn_id (g_node (db_graph d) y) = Some (ge_target_id e)"
    by (auto simp: db_ok_def coherent_def graph_ok_def edges_ok_def)
  with e show ?thesis by (force simp: linked_def edge_weights_def)
qed

lemma map_filter_total: "(\<And>x. x \<in> set xs \<Longrightarrow> f x \<noteq> None) \<Longrightarrow> List.map_filter f xs = map (the \<circ> f) xs"
proof (induction xs)
  case (Cons a xs)
  then obtain y where "f a = Some y" by fastforce
  with Cons show ?case by (simp add: List.map_filter_simps)
qed (simp add: List.map_filter_simps)

lemma back_walk_all:
  assumes "\<And>x y. y \<in> set (succ x) \<Longrightarrow> P y"
  shows "back_walk succ p \<Longrightarrow> P (last p) \<Longrightarrow> \<forall>x \<in> set p. P x"
proof (induction p rule: induct_list012)
  case (3 y x p)
  from "3.prems" have y: "y \<in> set (succ x)" and p: "back_walk succ (x # p)" "P (last (x # p))"
    by simp_all
  from "3.IH"(2) [OF p] assms [OF y] show ?case by simp
qed simp_all

lemma back_walk_nodes:
  assumes "db_ok who d" "back_walk (out_succ pg (db_graph d)) p" "g_node (db_graph d) (last p) \<noteq> None"
  shows "\<forall>x \<in> set p. g_node (db_graph d) x \<noteq> None"
proof (rule back_walk_all [where succ = "out_succ pg (db_graph d)" and p = p])
  fix x y
  assume "y \<in> set (out_succ pg (db_graph d) x)"
  with out_succ_linked [OF assms(1) this] show "g_node (db_graph d) y \<noteq> None" by auto
qed (use assms in simp_all)

lemma find_path_correct:
  assumes "db_ok who d" "hm_get (db_index d) from = Some f" "hm_get (db_index d) to = Some t"
  shows "if (f, t) \<in> (hops (out_succ pg (db_graph d)))\<^sup>*
   then \<exists>ns. find_path pg d from to = Some ns \<and> ns \<noteq> [] \<and> gn_id (hd ns) = from \<and> gn_id (last ns) = to
          \<and> chained (linked d) ns
   else find_path pg d from to = Some []"
proof (cases "(f, t) \<in> (hops (out_succ pg (db_graph d)))\<^sup>*")
  case False
  with index_path_correct [of f t pg "db_graph d"] assms(2,3) show ?thesis
    by (simp add: find_path_def List.map_filter_simps)
next
  case True
  with index_path_correct [of f t pg "db_graph d"] obtain p where
    p: "index_path pg (db_graph d) f t = Some p" "hd p = t" "last p = f"
      "back_walk (out_succ pg (db_graph d)) p" by auto
  from p(4) have ne: "p \<noteq> []" by auto
  from assms obtain m n where mn: "g_node (db_graph d) f = Some m" "gn_id m = from"
    "g_node (db_graph d) t = Some n" "gn_id n = to" by (metis db_ok_node)
  have nodes: "\<forall>x \<in> set p. g_node (db_graph d) x \<noteq> None"
    using back_walk_nodes [OF assms(1) p(4)] p(3) mn(1) by simp
  let ?node = "the \<circ> g_node (db_graph d)"
  have "List.map_filter (g_node (db_graph d)) (rev p) = map ?node (rev p)"
    using nodes by (intro map_filter_total) auto
  with p(1) assms(2,3) have eq: "find_path pg d from to = Some (map ?node (rev p))"
    by (simp add: find_path_def)
  have "chained (\<lambda>x y. linked d (?node x) (?node y)) (rev p)"
    using back_walk_chained [OF p(4)] by (rule chained_mono) (use out_succ_linked [OF assms(1)] in force)
  then have "chained (linked d) (map ?node (rev p))" by (simp add: chained_map)
  with eq ne p(2,3) mn True show ?thesis
    by (auto simp: hd_map last_map hd_rev last_rev simp flip: rev_map)
qed

end
