(* ===== verification/Graph_Read.thy ===== *)
theory Graph_Read
  imports Graph_Path "HOL-Library.Product_Lexorder"
begin

text \<open>
  The queries of \<^verbatim>\<open>src/src/server/graph/mod.rs\<close> that read the graph and its indexes: lookup by
  id, name, path, type and location, the edges of a node, the counts, and the anchor
  ranking. Under the coherence invariant the index lookups return what a scan would.
\<close>

section \<open>Lookups\<close>

definition get_node :: "string \<Rightarrow> graph_db \<Rightarrow> graph_node option" where
  "get_node nid d = Option.bind (hm_get (db_index d) nid) (g_node (db_graph d))"

definition has_node :: "string \<Rightarrow> graph_db \<Rightarrow> bool" where
  "has_node nid d \<longleftrightarrow> hm_get (db_index d) nid \<noteq> None"

definition find_all_nodes_by_name :: "string \<Rightarrow> graph_db \<Rightarrow> graph_node list" where
  "find_all_nodes_by_name name d =
     sort_key (\<lambda>n. (gn_path n, gn_id n))
       (List.map_filter (g_node (db_graph d)) (idx_list (db_names d) name))"

definition find_node_by_name :: "string \<Rightarrow> graph_db \<Rightarrow> graph_node option" where
  "find_node_by_name name d =
     (case find_all_nodes_by_name name d of [] \<Rightarrow> None | n # _ \<Rightarrow> Some n)"

definition find_indices_by_name :: "string \<Rightarrow> graph_db \<Rightarrow> nat list" where
  "find_indices_by_name name d = idx_list (db_names d) name"

definition get_nodes_in_path :: "string \<Rightarrow> graph_db \<Rightarrow> graph_node list" where
  "get_nodes_in_path path d = List.map_filter (g_node (db_graph d)) (idx_list (db_paths d) path)"

definition find_node_by_path :: "string \<Rightarrow> graph_db \<Rightarrow> graph_node option" where
  "find_node_by_path path d = (case get_nodes_in_path path d of [] \<Rightarrow> None | n # _ \<Rightarrow> Some n)"

definition has_node_at_path :: "string \<Rightarrow> graph_db \<Rightarrow> bool" where
  "has_node_at_path path d \<longleftrightarrow> idx_list (db_paths d) path \<noteq> []"

definition get_file_node :: "string \<Rightarrow> graph_db \<Rightarrow> graph_node option" where
  "get_file_node path d = List.find (\<lambda>n. gn_type n = NT_File) (get_nodes_in_path path d)"

definition get_nodes_by_type :: "node_type \<Rightarrow> graph_db \<Rightarrow> graph_node list" where
  "get_nodes_by_type t d = filter (\<lambda>n. gn_type n = t) (node_weights (db_graph d))"

definition nodes_of_types :: "node_type list \<Rightarrow> graph_db \<Rightarrow> graph_node list" where
  "nodes_of_types ts d = filter (\<lambda>n. gn_type n \<in> set ts) (node_weights (db_graph d))"

definition find_entry_points :: "graph_db \<Rightarrow> graph_node list" where
  "find_entry_points d =
     filter (\<lambda>n. gn_name n = ''main'' \<or> gn_name n = ''App'') (node_weights (db_graph d))"

text \<open>\<open>min_by_key\<close>: the first of the least elements.\<close>

fun min_by_key :: "('a \<Rightarrow> nat) \<Rightarrow> 'a list \<Rightarrow> 'a option" where
  "min_by_key f [] = None"
| "min_by_key f (x # xs) =
     (case min_by_key f xs of None \<Rightarrow> Some x | Some y \<Rightarrow> if f y < f x then Some y else Some x)"

definition span :: "graph_node \<Rightarrow> nat" where
  "span n = (case gn_line_end n of Some e \<Rightarrow> e | None \<Rightarrow> 0) - (case gn_line_start n of Some s \<Rightarrow> s | None \<Rightarrow> 0)"

definition covers_line :: "nat \<Rightarrow> graph_node \<Rightarrow> bool" where
  "covers_line line n \<longleftrightarrow>
     (case gn_line_start n of Some s \<Rightarrow> s | None \<Rightarrow> 0) \<le> line
     \<and> line \<le> (case gn_line_end n of Some e \<Rightarrow> e | None \<Rightarrow> 0)"

definition get_node_at_location :: "string \<Rightarrow> nat \<Rightarrow> graph_db \<Rightarrow> graph_node option" where
  "get_node_at_location path line d =
     min_by_key span
       (filter (covers_line line) (filter (\<lambda>n. gn_type n \<noteq> NT_File) (get_nodes_in_path path d)))"

section \<open>Edges of a node\<close>

definition get_neighbors ::
    "petgraph \<Rightarrow> string \<Rightarrow> direction \<Rightarrow> graph_db \<Rightarrow> (graph_node \<times> graph_edge) list" where
  "get_neighbors pg nid dir d =
     (case hm_get (db_index d) nid of
        None \<Rightarrow> []
      | Some i \<Rightarrow>
          List.map_filter
            (\<lambda>r. map_option (\<lambda>n. (n, snd (snd r))) (g_node (db_graph d) (far_end dir r)))
            (edges_directed pg (db_graph d) i dir))"

definition edges_of :: "petgraph \<Rightarrow> direction \<Rightarrow> string \<Rightarrow> graph_db \<Rightarrow> graph_edge list" where
  "edges_of pg dir nid d =
     (case hm_get (db_index d) nid of
        None \<Rightarrow> []
      | Some i \<Rightarrow> map (\<lambda>r. snd (snd r)) (edges_directed pg (db_graph d) i dir))"

definition get_edges_from :: "petgraph \<Rightarrow> string \<Rightarrow> graph_db \<Rightarrow> graph_edge list" where
  "get_edges_from pg = edges_of pg Outgoing"

definition get_edges_to :: "petgraph \<Rightarrow> string \<Rightarrow> graph_db \<Rightarrow> graph_edge list" where
  "get_edges_to pg = edges_of pg Incoming"

definition id_at :: "graph_db \<Rightarrow> nat \<Rightarrow> string" where
  "id_at d i = (case g_node (db_graph d) i of Some n \<Rightarrow> gn_id n | None \<Rightarrow> [])"

definition incoming_calls :: "petgraph \<Rightarrow> string \<Rightarrow> graph_db \<Rightarrow> string list" where
  "incoming_calls pg nid d =
     (case hm_get (db_index d) nid of
        None \<Rightarrow> []
      | Some i \<Rightarrow>
          remdups_adj (sort (map (\<lambda>(s, _, _). id_at d s)
            (filter (\<lambda>(_, _, w). ge_type w = ET_Calls) (edges_directed pg (db_graph d) i Incoming)))))"

definition typed_pairs :: "edge_type \<Rightarrow> graph_db \<Rightarrow> (string \<times> string) list" where
  "typed_pairs ty d =
     sort (map (\<lambda>(s, t, _). (id_at d s, id_at d t))
       (filter (\<lambda>(_, _, w). ge_type w = ty) (g_edges (db_graph d))))"

definition calls_http_pairs :: "graph_db \<Rightarrow> (string \<times> string) list" where
  "calls_http_pairs = typed_pairs ET_CallsHttp"

definition calls_graphql_pairs :: "graph_db \<Rightarrow> (string \<times> string) list" where
  "calls_graphql_pairs = typed_pairs ET_CallsGraphql"

definition has_references_from :: "petgraph \<Rightarrow> string \<Rightarrow> graph_db \<Rightarrow> bool" where
  "has_references_from pg nid d =
     list_ex (\<lambda>w. ge_type w = ET_Calls \<or> ge_type w = ET_Uses) (get_edges_from pg nid d)"

section \<open>Counts\<close>

definition get_stats :: "graph_db \<Rightarrow> nat \<times> nat" where
  "get_stats d = (length (g_nodes (db_graph d)), length (g_edges (db_graph d)))"

text \<open>One entry per edge type, present even at zero, then one increment per edge.\<close>

definition edge_counts_by_type :: "graph_db \<Rightarrow> (edge_type, nat) hmap" where
  "edge_counts_by_type d =
     fold (\<lambda>w m. hm_put (ge_type w) (Suc (case hm_get m (ge_type w) of Some k \<Rightarrow> k | None \<Rightarrow> 0)) m)
       (edge_weights (db_graph d))
       (fold (\<lambda>t. hm_put t 0) all_edge_types hm_empty)"

definition file_of :: "graph_db \<Rightarrow> nat \<Rightarrow> nat option" where
  "file_of d i =
     (case g_node (db_graph d) i of
        None \<Rightarrow> None
      | Some n \<Rightarrow>
          List.find (\<lambda>j. map_option gn_type (g_node (db_graph d) j) = Some NT_File)
            (idx_list (db_paths d) (gn_path n)))"

definition call_graph_file_coverage :: "graph_db \<Rightarrow> nat \<times> nat" where
  "call_graph_file_coverage d =
     (let ends = concat (map (\<lambda>(s, t, w).
            if ge_type w = ET_Calls \<or> ge_type w = ET_Uses then [s, t] else []) (g_edges (db_graph d)))
      in (length (remdups (List.map_filter (file_of d) ends)),
          length (filter (\<lambda>n. gn_type n = NT_File) (node_weights (db_graph d)))))"

section \<open>Anchors\<close>

definition is_test_path :: "string \<Rightarrow> bool" where
  "is_test_path path \<longleftrightarrow>
     ''tests'' \<in> set (split_on (CHR ''/'') path)
     \<or> (let stem0 = last (split_on (CHR ''/'') path);
            stem = (case strip_suffix ''.rs'' stem0 of Some s \<Rightarrow> s | None \<Rightarrow> stem0)
        in stem = ''tests'' \<or> ends_with ''_tests'' stem \<or> ends_with ''_test'' stem)"

definition opt_or :: "'a \<Rightarrow> 'a option \<Rightarrow> 'a" where
  "opt_or x v = (case v of Some y \<Rightarrow> y | None \<Rightarrow> x)"

definition anchor_key :: "graph_node \<Rightarrow> f32 \<times> string \<times> string \<times> string" where
  "anchor_key n = (- opt_or 0 (gn_anchor_score n), gn_name n, gn_path n, gn_id n)"

text \<open>
  \<open>f32::log2\<close> is a parameter \<open>log2\<close>: only its sign and its value at one are ever relied on.
\<close>

definition calls_at :: "petgraph \<Rightarrow> pgraph \<Rightarrow> direction \<Rightarrow> nat \<Rightarrow> edge_rec list" where
  "calls_at pg g dir i = filter (\<lambda>(_, _, w). ge_type w = ET_Calls) (edges_directed pg g i dir)"

definition off_tests :: "pgraph \<Rightarrow> direction \<Rightarrow> edge_rec list \<Rightarrow> edge_rec list" where
  "off_tests g dir rs =
     filter (\<lambda>r. case g_node g (far_end dir r) of Some n \<Rightarrow> \<not> is_test_path (gn_path n) | None \<Rightarrow> False) rs"

definition size_factor :: "graph_node \<Rightarrow> f32" where
  "size_factor n =
     (let body_lines = (case (gn_line_start n, gn_line_end n) of
                          (Some s, Some e) \<Rightarrow> of_nat (e - s) + 1 | _ \<Rightarrow> 1)
      in min (body_lines / 8) 1)"

definition anchor_raw :: "(f32 \<Rightarrow> f32) \<Rightarrow> petgraph \<Rightarrow> pgraph \<Rightarrow> nat \<times> graph_node \<Rightarrow> f32" where
  "anchor_raw log2 pg g = (\<lambda>(i, n).
     if is_test_path (gn_path n) then 0
     else if gn_type n = NT_Function \<or> gn_type n = NT_Method then
       let calls_in_unfiltered = length (calls_at pg g Incoming i);
           calls_in = length (off_tests g Incoming (calls_at pg g Incoming i));
           calls_out = length (off_tests g Outgoing (calls_at pg g Outgoing i))
       in if calls_in_unfiltered = 0 then size_factor n * (1 / 2)
          else of_nat calls_in * log2 (1 + of_nat calls_out) * size_factor n
     else 0)"

definition compute_anchor_raws ::
    "(f32 \<Rightarrow> f32) \<Rightarrow> petgraph \<Rightarrow> pgraph \<Rightarrow> (nat \<times> f32) list \<times> f32" where
  "compute_anchor_raws log2 pg g =
     (let raws = map (\<lambda>e. (fst e, anchor_raw log2 pg g e)) (g_nodes g)
      in (raws, fold max (map snd raws) 0))"

definition write_anchor :: "petgraph \<Rightarrow> pgraph \<Rightarrow> f32 \<Rightarrow> nat \<times> f32 \<Rightarrow> pgraph \<Rightarrow> pgraph" where
  "write_anchor pg g0 max_raw = (\<lambda>(i, raw) g.
     let normalized = (if max_raw > 0 then raw / max_raw * 100 else 0) in
     (case g_node g i of
        None \<Rightarrow> g
      | Some n \<Rightarrow>
          g_set_node i
            (n\<lparr>gn_fan_in := Some (length (edges_directed pg g0 i Incoming)),
               gn_fan_out := Some (length (edges_directed pg g0 i Outgoing)),
               gn_calls_in := Some (length (calls_at pg g0 Incoming i)),
               gn_calls_out := Some (length (calls_at pg g0 Outgoing i)),
               gn_anchor_score := Some normalized\<rparr>) g))"

definition calculate_anchor_scores :: "(f32 \<Rightarrow> f32) \<Rightarrow> petgraph \<Rightarrow> graph_db \<Rightarrow> unit db_result" where
  "calculate_anchor_scores log2 pg d =
     db_bind (check_writable d) (\<lambda>_ d.
       let (raws, max_raw) = compute_anchor_raws log2 pg (db_graph d) in
       (Inr (), d\<lparr>db_graph := fold (write_anchor pg (db_graph d) max_raw) raws (db_graph d)\<rparr>))"

fun first_by_name :: "graph_node list \<Rightarrow> string set \<Rightarrow> graph_node list" where
  "first_by_name [] seen = []"
| "first_by_name (n # ns) seen =
     (if gn_name n \<in> seen then first_by_name ns seen
      else n # first_by_name ns (insert (gn_name n) seen))"

definition find_anchors :: "nat \<Rightarrow> graph_db \<Rightarrow> graph_node list" where
  "find_anchors limit d =
     take limit (sort_key anchor_key
       (first_by_name (sort_key anchor_key (node_weights (db_graph d))) {}))"

section \<open>Depths\<close>

text \<open>
  \<open>calculate_depths\<close>: layers from the entry points along \<open>Contains\<close>, at most fifty. A node
  met twice keeps its first depth.
\<close>

primrec visit_layer ::
    "petgraph \<Rightarrow> nat \<Rightarrow> nat list \<Rightarrow> nat set \<times> nat list \<times> pgraph \<Rightarrow> nat set \<times> nat list \<times> pgraph" where
  "visit_layer pg depth [] st = st"
| "visit_layer pg depth (i # is) st =
     (let (visited, next_layer, g) = st in
      if i \<in> visited then visit_layer pg depth is st
      else
        visit_layer pg depth is
          (insert i visited,
           next_layer @ map (far_end Outgoing)
             (filter (\<lambda>(_, _, w). ge_type w = ET_Contains) (edges_directed pg g i Outgoing)),
           case g_node g i of
             Some n \<Rightarrow> g_set_node i (n\<lparr>gn_depth_from_main := Some depth\<rparr>) g | None \<Rightarrow> g))"

function depth_layers :: "petgraph \<Rightarrow> nat \<Rightarrow> nat list \<Rightarrow> nat set \<Rightarrow> pgraph \<Rightarrow> pgraph" where
  "depth_layers pg depth layer visited g =
     (if layer = [] \<or> 50 \<le> depth then g
      else
        let (visited', next_layer, g') = visit_layer pg depth layer (visited, [], g) in
        depth_layers pg (Suc depth) next_layer visited' g')"
  by pat_completeness auto
termination
  by (relation "measure (\<lambda>(_, depth, _). 50 - depth)") auto

declare depth_layers.simps [simp del]

definition calculate_depths :: "petgraph \<Rightarrow> graph_db \<Rightarrow> unit db_result" where
  "calculate_depths pg d =
     db_bind (check_writable d) (\<lambda>_ d.
       let g = (db_graph d)\<lparr>g_nodes :=
             map (\<lambda>(i, n). (i, n\<lparr>gn_depth_from_main := None\<rparr>)) (g_nodes (db_graph d))\<rparr>;
           roots = map fst (filter (\<lambda>(_, n). gn_name n = ''main'' \<or> gn_name n = ''App'') (g_nodes g))
       in (Inr (), d\<lparr>db_graph := depth_layers pg 0 roots {} g\<rparr>))"

section \<open>What the lookups return\<close>

lemma set_map_filter_Some: "set (List.map_filter f xs) = {y. \<exists>x \<in> set xs. f x = Some y}"
  by (induction xs) (auto simp: List.map_filter_simps split: option.split)

lemma node_weights_iff:
  "distinct (map fst (g_nodes g)) \<Longrightarrow> n \<in> set (node_weights g) \<longleftrightarrow> (\<exists>i. g_node g i = Some n)"
  by (force simp: node_weights_def g_node_def dest: map_of_SomeD)

lemma filed_nodes:
  assumes "filed g f F" "distinct (map fst (g_nodes g))"
  shows "set (List.map_filter (g_node g) (F k)) = {n \<in> set (node_weights g). f n = k}"
proof -
  from assms(1) have "set (F k) = {i. \<exists>n. g_node g i = Some n \<and> f n = k}" by (simp add: filed_def)
  then show ?thesis unfolding set_map_filter_Some node_weights_iff [OF assms(2)] by auto
qed

lemma db_ok_filed:
  assumes "db_ok who d"
  shows "filed (db_graph d) gn_path (idx_list (db_paths d))"
    "filed (db_graph d) gn_name (idx_list (db_names d))"
    "distinct (map fst (g_nodes (db_graph d)))"
  using assms by (simp_all add: db_ok_def coherent_def graph_ok_def)

lemma find_by_name_set:
  assumes "db_ok who d"
  shows "set (find_all_nodes_by_name name d) = {n \<in> set (node_weights (db_graph d)). gn_name n = name}"
  using filed_nodes db_ok_filed [OF assms]
  by (simp add: find_all_nodes_by_name_def)

lemma nodes_in_path_set:
  assumes "db_ok who d"
  shows "set (get_nodes_in_path path d) = {n \<in> set (node_weights (db_graph d)). gn_path n = path}"
  using filed_nodes db_ok_filed [OF assms] by (simp add: get_nodes_in_path_def)

lemma min_by_key_None [simp]: "min_by_key f xs = None \<longleftrightarrow> xs = []"
  by (cases xs) (auto split: option.split)

lemma min_by_key_Some:
  "min_by_key f xs = Some x \<Longrightarrow> x \<in> set xs \<and> (\<forall>y \<in> set xs. f x \<le> f y)"
proof (induction xs arbitrary: x)
  case (Cons a xs)
  then show ?case by (cases "min_by_key f xs") (auto split: if_splits)
qed simp

end
