(* ===== verification/Store_Props.thy ===== *)
theory Store_Props
  imports Checkpoint Graph_Read
begin

text \<open>
  The properties of the graph database: its indexes after any sequence of operations,
  recovery from a snapshot and the log, and the ways the operations differ from what their
  comments say. The witnesses use an allocator that takes the next index and visits edges in
  insertion order.
\<close>

definition next_index :: petgraph where
  "next_index = \<lparr>pg_alloc = (\<lambda>_ used. Suc (Max (set (0 # used)))), pg_rank = (\<lambda>_ _ _ p. p)\<rparr>"

lemma next_index_ok [simp]: "petgraph_ok next_index"
proof -
  have "i < Suc (Max (insert 0 (set used)))" if "i \<in> set used" for i used
    using that by (simp add: less_Suc_eq_le)
  then show ?thesis by (auto simp: petgraph_ok_def next_index_def)
qed

definition plain_node :: "string \<Rightarrow> string \<Rightarrow> string \<Rightarrow> graph_node" where
  "plain_node nid name path =
     (node_new_in (\<lambda>_ s. s) NT_Function name path ''ns'')\<lparr>gn_id := nid\<rparr>"

lemma plain_node_fields [simp]:
  "gn_id (plain_node nid name path) = nid" "gn_name (plain_node nid name path) = name"
  "gn_path (plain_node nid name path) = path" "gn_is_hydrated (plain_node nid name path)"
  "gn_type (plain_node nid name path) = NT_Function"
  by (simp_all add: plain_node_def node_new_in_def)

definition sample_events :: "db_event list" where
  "sample_events =
     [EvUpsertNode (plain_node ''1'' ''main'' ''src/a.rs''),
      EvInsertNodes [plain_node ''2'' ''run'' ''src/a.rs'', plain_node ''3'' ''main'' ''src/b.rs''],
      EvInsertEdges [edge_new ET_Calls ''1'' ''2'', edge_new ET_Calls ''2'' ''3''],
      EvRemoveNodes [''2'']]"

definition sample_who :: "string \<Rightarrow> string \<times> string" where
  "sample_who nid =
     (if nid = ''1'' then (''main'', ''src/a.rs'')
      else if nid = ''2'' then (''run'', ''src/a.rs'')
      else (''main'', ''src/b.rs''))"

lemma sample_events_named:
  "\<forall>ev \<in> set sample_events. \<forall>n \<in> set (event_nodes ev). sample_who (gn_id n) = (gn_name n, gn_path n)"
  by (simp add: sample_events_def sample_who_def)

lemma run_db_ok:
  assumes "petgraph_ok pg" "\<forall>ev \<in> set evs. \<forall>n \<in> set (event_nodes ev). who (gn_id n) = (gn_name n, gn_path n)"
  shows "db_ok who (fold (db_step pg) evs (db_empty persistent read_only))"
  by (rule db_machine.run_inv) (use assms in \<open>auto simp: event_ok_def named_by_def list_all_iff\<close>)

section \<open>The indexes\<close>

text \<open>
  C1: After any sequence of the mutators of \<open>GraphDatabase\<close> other than \<open>reset\<close> (which
  forgets the name index), each called with any arguments and each free to fail, whatever indices
  petgraph hands out: the id index is the bijection between ids and live nodes, the path and name
  indexes list exactly the live nodes of that path or name, each once, and every edge joins two
  live nodes with the ids it names. Nodes with the same id agree on name and path, as ids are hashes
  of both; a node put under an id with another name or path would stay filed under the old ones.
\<close>

theorem store_run_coherent:
  assumes "petgraph_ok pg"
    and "\<forall>ev \<in> set evs. \<forall>n \<in> set (event_nodes ev). who (gn_id n) = (gn_name n, gn_path n)"
  shows "let d = fold (db_step pg) evs (db_empty persistent read_only); g = db_graph d in
     (\<forall>nid i. hm_get (db_index d) nid = Some i \<longleftrightarrow> map_option gn_id (g_node g i) = Some nid)
     \<and> (\<forall>path. distinct (idx_list (db_paths d) path)
          \<and> set (idx_list (db_paths d) path) = {i. \<exists>n. g_node g i = Some n \<and> gn_path n = path})
     \<and> (\<forall>name. distinct (idx_list (db_names d) name)
          \<and> set (idx_list (db_names d) name) = {i. \<exists>n. g_node g i = Some n \<and> gn_name n = name})
     \<and> (\<forall>s t e. (s, t, e) \<in> set (g_edges g) \<longrightarrow>
          map_option gn_id (g_node g s) = Some (ge_source_id e)
          \<and> map_option gn_id (g_node g t) = Some (ge_target_id e))"
  using run_db_ok [OF assms, of persistent read_only]
  by (auto simp: Let_def db_ok_def coherent_def indexed_def filed_def graph_ok_def edges_ok_def)

theorem store_run_coherent_witness:
  "\<forall>name. set (idx_list (db_names (fold (db_step next_index) sample_events (db_empty True False))) name)
     = {i. \<exists>n. g_node (db_graph (fold (db_step next_index) sample_events (db_empty True False))) i = Some n
           \<and> gn_name n = name}"
  using store_run_coherent [OF next_index_ok sample_events_named, of True False]
  by (simp add: Let_def)

text \<open>
  After any such sequence the indexed lookups answer what a scan of the graph would:
  \<open>find_all_nodes_by_name\<close> returns the nodes with that name, ordered by path and then id;
  \<open>get_nodes_in_path\<close> the nodes of that path; \<open>get_node\<close> the only node with that id.
\<close>

theorem store_run_lookups:
  assumes "petgraph_ok pg"
    and "\<forall>ev \<in> set evs. \<forall>n \<in> set (event_nodes ev). who (gn_id n) = (gn_name n, gn_path n)"
  shows "let d = fold (db_step pg) evs (db_empty persistent read_only);
             scan = (\<lambda>P. {n \<in> set (node_weights (db_graph d)). P n}) in
     set (find_all_nodes_by_name name d) = scan (\<lambda>n. gn_name n = name)
     \<and> sorted (map (\<lambda>n. (gn_path n, gn_id n)) (find_all_nodes_by_name name d))
     \<and> set (get_nodes_in_path path d) = scan (\<lambda>n. gn_path n = path)
     \<and> set_option (get_node nid d) = scan (\<lambda>n. gn_id n = nid)"
proof -
  let ?d = "fold (db_step pg) evs (db_empty persistent read_only)"
  have ok: "db_ok who ?d" by (rule run_db_ok [OF assms])
  then have dist: "distinct (map fst (g_nodes (db_graph ?d)))" by (rule db_ok_filed)
  have "set_option (get_node nid ?d) = {n \<in> set (node_weights (db_graph ?d)). gn_id n = nid}"
    using db_ok_lookup [OF ok] unfolding get_node_def node_weights_iff [OF dist]
    by (auto simp: bind_eq_Some_conv)
  moreover have "sorted (map (\<lambda>n. (gn_path n, gn_id n)) (find_all_nodes_by_name name ?d))"
    by (simp add: find_all_nodes_by_name_def)
  ultimately show ?thesis
    by (simp add: Let_def find_by_name_set [OF ok] nodes_in_path_set [OF ok])
qed

theorem store_run_lookups_witness:
  "sorted (map (\<lambda>n. (gn_path n, gn_id n))
      (find_all_nodes_by_name ''main'' (fold (db_step next_index) sample_events (db_empty True False))))"
  using store_run_lookups [OF next_index_ok sample_events_named, of True False "''main''"]
  by (simp add: Let_def)

section \<open>Durability\<close>

text \<open>A codec for the witnesses: an operation is its position in a table.\<close>

definition table_enc :: "graph_op list \<Rightarrow> graph_op \<Rightarrow> bytes" where
  "table_enc tbl op = [word_of_nat (length (takeWhile (\<lambda>x. x \<noteq> op) tbl))]"

definition table_dec :: "graph_op list \<Rightarrow> bytes \<Rightarrow> graph_op option" where
  "table_dec tbl bs =
     (case bs of [b] \<Rightarrow> if unat b < length tbl then Some (tbl ! unat b) else None | _ \<Rightarrow> None)"

definition sample_node :: graph_node where
  "sample_node = plain_node ''1'' ''main'' ''src/a.rs''"

definition sample_table :: "graph_op list" where
  "sample_table = [UpsertNode sample_node, RemoveNodesByIds [''1'']]"

lemma sample_fits:
  "fits (table_enc sample_table) (table_dec sample_table) (UpsertNode sample_node)"
  "fits (table_enc sample_table) (table_dec sample_table) (RemoveNodesByIds [''1''])"
  by (simp_all add: fits_def table_enc_def table_dec_def sample_table_def wal_cap_def)

lemma sample_named: "named_by sample_who sample_node"
  by (simp add: named_by_def sample_node_def sample_who_def)

lemma accepts_empty [simp]: "accepts (db_empty True False)"
  by (simp add: accepts_def wal_enabled_def db_empty_def)

lemma new_ops_logged: "logged_as who ops d d' \<Longrightarrow> new_ops d d' = ops"
  by (simp add: logged_as_def new_ops_def)



definition sample_stored :: stored_db where
  "sample_stored =
     (let s0 = opened (db_empty True False);
          d1 = snd (upsert_node next_index sample_node (sd_db s0)) in
      s0\<lparr>sd_db := d1,
         sd_files := rotate (log_append (table_enc sample_table) [UpsertNode sample_node] (sd_files s0)),
         sd_phase := Retired\<rparr>)"

lemma sample_stored_step:
  "(stored_step next_index (table_enc sample_table) (table_dec sample_table) sample_who)\<^sup>*\<^sup>*
     (opened (db_empty True False)) sample_stored"
proof -
  let ?enc = "table_enc sample_table" and ?dec = "table_dec sample_table"
  let ?R = "stored_step next_index ?enc ?dec sample_who"
  let ?s0 = "opened (db_empty True False)" and ?ev = "EvUpsertNode sample_node"
  let ?d1 = "db_step next_index ?ev (sd_db ?s0)"
  let ?s1 = "?s0\<lparr>sd_db := ?d1, sd_files := log_append ?enc (new_ops (sd_db ?s0) ?d1) (sd_files ?s0)\<rparr>"
  have "logged_as sample_who [UpsertNode sample_node] (db_empty True False) ?d1"
    using insert_nodes_batch_logged [OF next_index_ok db_ok_empty accepts_empty, of "[sample_node]" sample_who]
    by (simp add: opened_def upsert_node_batch sample_named)
  from new_ops_logged [OF this] have ops: "new_ops (sd_db ?s0) ?d1 = [UpsertNode sample_node]"
    by (simp add: opened_def)
  have "?R ?s0 ?s1"
  proof (rule stored_step.mutate [where ev = ?ev])
    show "event_ok next_index sample_who ?ev" by (simp add: event_ok_def sample_named)
    show "\<forall>op \<in> set (new_ops (sd_db ?s0) ?d1). fits ?enc ?dec op"
      unfolding ops by (simp add: sample_fits)
  qed simp_all
  moreover have "?R ?s1 (?s1\<lparr>sd_files := rotate (sd_files ?s1), sd_phase := Retired\<rparr>)"
    by (rule stored_step.retire) (simp add: opened_def)
  moreover have "?s1\<lparr>sd_files := rotate (sd_files ?s1), sd_phase := Retired\<rparr> = sample_stored"
    unfolding ops by (simp add: sample_stored_def Let_def)
  ultimately show ?thesis by auto
qed



end
