(* ===== verification/Global_Id.thy ===== *)
theory Global_Id
  imports Schema
begin

text \<open>
  The canonical id of a node across repositories, \<^verbatim>\<open>src/src/server/federation/repo_id.rs\<close>:
  five fields joined with colons, the free-text ones percent-encoded. Both codecs look
  only at ASCII bytes, so they are stated on bytes; every other character is copied.
\<close>

definition encode_segment :: "string \<Rightarrow> string" where
  "encode_segment s =
     concat (map (\<lambda>c. if c = CHR ''%'' then ''%25'' else if c = CHR '':'' then ''%3A'' else [c]) s)"

fun decode_segment :: "string \<Rightarrow> string" where
  "decode_segment [] = []"
| "decode_segment (c # rest) =
     (if prefix ''%25'' (c # rest) then CHR ''%'' # decode_segment (drop 2 rest)
      else if prefix ''%3A'' (c # rest) \<or> prefix ''%3a'' (c # rest)
      then CHR '':'' # decode_segment (drop 2 rest)
      else c # decode_segment rest)"

lemma encode_segment_Cons:
  "encode_segment (c # s) =
     (if c = CHR ''%'' then ''%25'' else if c = CHR '':'' then ''%3A'' else [c]) @ encode_segment s"
  by (simp add: encode_segment_def)

lemma decode_encode_segment: "decode_segment (encode_segment s) = s"
  by (induction s) (auto simp: encode_segment_Cons encode_segment_def)

lemma encode_segment_free: "CHR '':'' \<notin> set (encode_segment s)"
  by (induction s) (auto simp: encode_segment_Cons encode_segment_def)

interpretation gid: separated_codec encode_segment decode_segment "CHR '':''"
  by unfold_locales (simp_all add: decode_encode_segment encode_segment_free)

definition global_id_new ::
    "repo_id \<Rightarrow> node_type \<Rightarrow> string \<Rightarrow> string \<Rightarrow> nat option \<Rightarrow> string" where
  "global_id_new repo kind path name line_start =
     join '':'' [repo_str repo, node_type_name kind, encode_segment path, encode_segment name,
                show_nat (case line_start of Some l \<Rightarrow> l | None \<Rightarrow> 0)]"

definition gid_repo_id :: "string \<Rightarrow> string" where
  "gid_repo_id g = hd (split_on (CHR '':'') g)"

definition gid_parse :: "string \<Rightarrow> id_error + string" where
  "gid_parse s =
     (let parts = split_on (CHR '':'') s in
      if length parts \<noteq> 5 then Inl (InvalidGlobalId s)
      else if \<not> list_ex (\<lambda>k. node_type_name k = parts ! 1) all_node_types
      then Inl (InvalidGlobalId s)
      else if parse_unsigned (2 ^ 32) (parts ! 4) = None then Inl (InvalidGlobalId s)
      else Inr s)"

definition gid_node_kind_str :: "string \<Rightarrow> string option" where
  "gid_node_kind_str g =
     (case split_once (CHR '':'') g of
        None \<Rightarrow> None
      | Some (_, after_repo) \<Rightarrow> map_option fst (split_once (CHR '':'') after_repo))"

definition gid_path :: "string \<Rightarrow> string option" where
  "gid_path g =
     (let parts = split_on (CHR '':'') g in
      if length parts \<noteq> 5 then None else Some (decode_segment (parts ! 2)))"

definition gid_name :: "string \<Rightarrow> string option" where
  "gid_name g =
     (let parts = split_on (CHR '':'') g in
      if length parts \<noteq> 5 then None else Some (decode_segment (parts ! 3)))"

definition gid_line_start :: "string \<Rightarrow> nat option" where
  "gid_line_start g =
     (let parts = split_on (CHR '':'') g in
      if 4 < length parts then parse_unsigned (2 ^ 32) (parts ! 4) else None)"

abbreviation line_value :: "nat option \<Rightarrow> nat" where
  "line_value l \<equiv> case l of Some k \<Rightarrow> k | None \<Rightarrow> 0"

lemma split_global_id:
  assumes "repo_ok repo"
  shows "split_on (CHR '':'') (global_id_new repo kind path name l) =
     [repo_str repo, node_type_name kind, encode_segment path, encode_segment name,
      show_nat (line_value l)]"
proof -
  from assms have "CHR '':'' \<notin> set (repo_str repo)" by (cases repo) (simp add: repo_ok_iff)
  then show ?thesis
    unfolding global_id_new_def by (subst split_on_join) (auto simp: encode_segment_free)
qed

lemmas gid_accessor_defs =
  gid_repo_id_def gid_parse_def gid_path_def gid_name_def gid_line_start_def

lemma gid_kind_new:
  assumes "repo_ok repo"
  shows "gid_node_kind_str (global_id_new repo kind path name l) = Some (node_type_name kind)"
proof -
  from assms have "CHR '':'' \<notin> set (repo_str repo)" by (cases repo) (simp add: repo_ok_iff)
  then show ?thesis by (simp add: gid_node_kind_str_def global_id_new_def)
qed

lemma global_id_fields:
  assumes "repo_ok repo" and "line_value l < 2 ^ 32"
  shows "gid_parse (global_id_new repo kind path name l) = Inr (global_id_new repo kind path name l)
    \<and> gid_repo_id (global_id_new repo kind path name l) = repo_str repo
    \<and> gid_node_kind_str (global_id_new repo kind path name l) = Some (node_type_name kind)
    \<and> gid_path (global_id_new repo kind path name l) = Some path
    \<and> gid_name (global_id_new repo kind path name l) = Some name
    \<and> gid_line_start (global_id_new repo kind path name l) = Some (line_value l)"
  using assms
  by (simp add: gid_accessor_defs split_global_id gid_kind_new decode_encode_segment
      parse_show_nat list_ex_iff Let_def)

lemma global_id_inj:
  assumes "repo_ok repo" and "repo_ok repo'"
    and "global_id_new repo kind path name l = global_id_new repo' kind' path' name' l'"
  shows "repo = repo' \<and> kind = kind' \<and> path = path' \<and> name = name' \<and> line_value l = line_value l'"
  using arg_cong [OF assms(3), of "split_on (CHR '':'')"] assms(1,2)
  by (cases repo; cases repo') (auto simp: split_global_id gid.enc_inj dest: show_nat_inj)

end
