(* ===== verification/Query_Spec.thy ===== *)
theory Query_Spec
  imports Schema
begin

text \<open>
  The query language of \<^verbatim>\<open>src/src/server/query/spec.rs\<close>: selectors with their matching rules
  and their hand-written JSON forms, the glob matcher, the operations, and the named
  queries. A \<open>serde_json::Value\<close> is a value of the datatype \<open>json\<close>; what no selector looks
  into is one constructor.
\<close>

section \<open>Selectors\<close>

datatype json =
    JString string
  | JArray "json list"
  | JObject "(string \<times> json) list"
  | JOther

datatype type_selector = TypeSingle string | TypeOr "string list"

datatype label_selector = LabelSingle string | LabelOr "string list" | LabelNot "string list"

datatype edge_selector = EdgeSingle string | EdgeOr "string list" | EdgeNot "string list"

datatype name_selector =
    NameExact string | NameGlob string | NameStartsWith string | NameEndsWith string

datatype query_direction = QOutgoing | QIncoming | QBoth

datatype depth_spec = DepthSingle nat | DepthRange nat nat

definition to_range :: "depth_spec \<Rightarrow> nat \<times> nat" where
  "to_range d =
     (case d of
        DepthSingle n \<Rightarrow> if n = 0 then (0, 0) else (1, n)
      | DepthRange lo hi \<Rightarrow> (lo, hi))"

fun type_matches :: "type_selector \<Rightarrow> string \<Rightarrow> bool" where
  "type_matches (TypeSingle s) t = (s = t)"
| "type_matches (TypeOr ts) t = (t \<in> set ts)"

definition type_unknown :: "type_selector \<Rightarrow> string list" where
  "type_unknown sel =
     filter (\<lambda>n. n \<notin> set (map node_type_name all_node_types))
       (case sel of TypeSingle s \<Rightarrow> [s] | TypeOr ts \<Rightarrow> ts)"

fun label_matches :: "label_selector \<Rightarrow> string option \<Rightarrow> bool" where
  "label_matches (LabelSingle l) nl = (nl = Some l)"
| "label_matches (LabelOr ls) nl = (case nl of None \<Rightarrow> False | Some l \<Rightarrow> l \<in> set ls)"
| "label_matches (LabelNot ls) nl = (case nl of None \<Rightarrow> True | Some l \<Rightarrow> l \<notin> set ls)"

fun edge_matches :: "edge_selector \<Rightarrow> string \<Rightarrow> bool" where
  "edge_matches (EdgeSingle s) t = (s = t)"
| "edge_matches (EdgeOr ts) t = (t \<in> set ts)"
| "edge_matches (EdgeNot ts) t = (t \<notin> set ts)"

fun edge_named_types :: "edge_selector \<Rightarrow> string list" where
  "edge_named_types (EdgeSingle s) = [s]"
| "edge_named_types (EdgeOr ts) = ts"
| "edge_named_types (EdgeNot ts) = ts"

definition edge_unknown :: "edge_selector \<Rightarrow> string list" where
  "edge_unknown sel =
     filter (\<lambda>n. n \<notin> set (map edge_type_name all_edge_types)) (edge_named_types sel)"

section \<open>Their JSON forms\<close>

datatype selector_error =
    UnknownSelectorKey string | NotAStringList | OneKeyExpected | BadSelectorShape | NotAString string

primrec selector_string_list :: "json list \<Rightarrow> selector_error + string list" where
  "selector_string_list [] = Inr []"
| "selector_string_list (v # vs) =
     (case v of
        JString s \<Rightarrow>
          (case selector_string_list vs of Inl e \<Rightarrow> Inl e | Inr ss \<Rightarrow> Inr (s # ss))
      | _ \<Rightarrow> Inl NotAStringList)"

definition selector_string :: "string \<Rightarrow> json \<Rightarrow> selector_error + string" where
  "selector_string key v = (case v of JString s \<Rightarrow> Inr s | _ \<Rightarrow> Inl (NotAString key))"

definition not_object :: "string list \<Rightarrow> json" where
  "not_object labels = JObject [(''not'', JArray (map JString labels))]"

fun label_to_json :: "label_selector \<Rightarrow> json" where
  "label_to_json (LabelSingle l) = JString l"
| "label_to_json (LabelOr ls) = JArray (map JString ls)"
| "label_to_json (LabelNot ls) = not_object ls"

fun edge_to_json :: "edge_selector \<Rightarrow> json" where
  "edge_to_json (EdgeSingle e) = JString e"
| "edge_to_json (EdgeOr es) = JArray (map JString es)"
| "edge_to_json (EdgeNot es) = not_object es"

fun name_to_json :: "name_selector \<Rightarrow> json" where
  "name_to_json (NameExact v) = JString v"
| "name_to_json (NameGlob v) = JObject [(''glob'', JString v)]"
| "name_to_json (NameStartsWith v) = JObject [(''starts_with'', JString v)]"
| "name_to_json (NameEndsWith v) = JObject [(''ends_with'', JString v)]"

text \<open>The label and edge forms are read alike; \<open>sel_one\<close>, \<open>sel_or\<close> and \<open>sel_not\<close> build the value.\<close>

definition list_selector ::
    "(string \<Rightarrow> 'a) \<Rightarrow> (string list \<Rightarrow> 'a) \<Rightarrow> (string list \<Rightarrow> 'a) \<Rightarrow> json \<Rightarrow> selector_error + 'a" where
  "list_selector sel_one sel_or sel_not v =
     (case v of
        JString s \<Rightarrow> Inr (sel_one s)
      | JArray vs \<Rightarrow> (case selector_string_list vs of Inl e \<Rightarrow> Inl e | Inr ss \<Rightarrow> Inr (sel_or ss))
      | JObject [(key, val)] \<Rightarrow>
          if key \<noteq> ''not'' then Inl (UnknownSelectorKey key)
          else (case val of
                  JArray vs \<Rightarrow> (case selector_string_list vs of Inl e \<Rightarrow> Inl e | Inr ss \<Rightarrow> Inr (sel_not ss))
                | _ \<Rightarrow> Inl NotAStringList)
      | JObject _ \<Rightarrow> Inl OneKeyExpected
      | _ \<Rightarrow> Inl BadSelectorShape)"

definition label_of_json :: "json \<Rightarrow> selector_error + label_selector" where
  "label_of_json = list_selector LabelSingle LabelOr LabelNot"

definition edge_of_json :: "json \<Rightarrow> selector_error + edge_selector" where
  "edge_of_json = list_selector EdgeSingle EdgeOr EdgeNot"

definition name_of_json :: "json \<Rightarrow> selector_error + name_selector" where
  "name_of_json v =
     (case v of
        JString s \<Rightarrow> Inr (NameExact s)
      | JObject [(key, val)] \<Rightarrow>
          (case selector_string key val of
             Inl e \<Rightarrow> Inl e
           | Inr s \<Rightarrow>
               if key = ''exact'' then Inr (NameExact s)
               else if key = ''glob'' then Inr (NameGlob s)
               else if key = ''starts_with'' \<or> key = ''startsWith'' then Inr (NameStartsWith s)
               else if key = ''ends_with'' \<or> key = ''endsWith'' then Inr (NameEndsWith s)
               else Inl (UnknownSelectorKey key))
      | JObject _ \<Rightarrow> Inl OneKeyExpected
      | _ \<Rightarrow> Inl BadSelectorShape)"

lemma selector_string_list_map [simp]: "selector_string_list (map JString ss) = Inr ss"
  by (induction ss) auto

lemma label_json_roundtrip: "label_of_json (label_to_json sel) = Inr sel"
  by (cases sel) (simp_all add: label_of_json_def list_selector_def not_object_def)

lemma edge_json_roundtrip: "edge_of_json (edge_to_json sel) = Inr sel"
  by (cases sel) (simp_all add: edge_of_json_def list_selector_def not_object_def)

lemma name_json_roundtrip: "name_of_json (name_to_json sel) = Inr sel"
  by (cases sel) (simp_all add: name_of_json_def selector_string_def)

section \<open>The glob matcher\<close>

text \<open>
  \<open>glob_matches\<close> on characters. The loop keeps both positions and the last star seen with
  the position it was tried at. The source's loop has no bound, so the model has fuel and
  \<open>None\<close> for running out; \<open>glob_fuel\<close> is enough, as is proved below.
\<close>

fun glob_loop ::
    "nat \<Rightarrow> string list \<Rightarrow> string list \<Rightarrow> nat \<Rightarrow> nat \<Rightarrow> (nat \<times> nat) option \<Rightarrow> bool option" where
  "glob_loop 0 p t i j star = None"
| "glob_loop (Suc fuel) p t i j star =
     (if i < length p \<and> p ! i = ''*'' then glob_loop fuel p t (i + 1) j (Some (i + 1, j))
      else if i = length p \<and> j = length t then Some True
      else if i < length p \<and> j < length t \<and> (p ! i = ''?'' \<or> p ! i = t ! j)
      then glob_loop fuel p t (i + 1) (j + 1) star
      else (case star of
              Some (si, sj) \<Rightarrow>
                if sj < length t then glob_loop fuel p t si (sj + 1) (Some (si, sj + 1))
                else Some False
            | None \<Rightarrow> Some False))"

definition glob_fuel :: "string list \<Rightarrow> string list \<Rightarrow> nat" where
  "glob_fuel p t = Suc ((length p + 2) * (length t + 2) * (length p + 2))"

definition glob_matches :: "string \<Rightarrow> string \<Rightarrow> bool option" where
  "glob_matches pattern name =
     (let p = utf8_chars pattern; t = utf8_chars name in glob_loop (glob_fuel p t) p t 0 0 None)"

text \<open>What a glob means.\<close>

fun glob_spec :: "string list \<Rightarrow> string list \<Rightarrow> bool" where
  "glob_spec [] t = (t = [])"
| "glob_spec (c # p) [] = (c = ''*'' \<and> glob_spec p [])"
| "glob_spec (c # p) (x # t) =
     (if c = ''*'' then glob_spec p (x # t) \<or> glob_spec (c # p) t
      else (c = ''?'' \<or> c = x) \<and> glob_spec p t)"

lemma glob_star: "glob_spec (''*'' # p) t \<longleftrightarrow> (\<exists>k \<le> length t. glob_spec p (drop k t))"
proof (induction t)
  case (Cons x t)
  have "(\<exists>k \<le> length (x # t). glob_spec p (drop k (x # t))) \<longleftrightarrow>
      glob_spec p (x # t) \<or> (\<exists>k \<le> length t. glob_spec p (drop k t))"
    by (metis Suc_le_mono drop0 drop_Suc_Cons length_Cons not0_implies_Suc zero_le)
  with Cons show ?case by simp
qed simp

text \<open>A run of the pattern without a star, against as many characters.\<close>

definition seg_match :: "string list \<Rightarrow> string list \<Rightarrow> bool" where
  "seg_match s u \<longleftrightarrow> length s = length u \<and> (\<forall>k < length s. s ! k \<noteq> ''*'' \<and> (s ! k = ''?'' \<or> s ! k = u ! k))"

lemma glob_seg:
  "\<forall>c \<in> set s. c \<noteq> ''*'' \<Longrightarrow> glob_spec (s @ p) t \<Longrightarrow>
    length s \<le> length t \<and> glob_spec p (drop (length s) t)"
proof (induction s arbitrary: t)
  case (Cons c s)
  then show ?case by (cases t) auto
qed simp

text \<open>
  The loop's invariant: between the last star and the pattern position lies a starless run
  that matched.
\<close>

definition glob_inv :: "string list \<Rightarrow> string list \<Rightarrow> nat \<Rightarrow> nat \<Rightarrow> (nat \<times> nat) option \<Rightarrow> bool" where
  "glob_inv p t i j star \<longleftrightarrow>
     i \<le> length p \<and> j \<le> length t
     \<and> (case star of
          None \<Rightarrow> True
        | Some (si, sj) \<Rightarrow> 0 < si \<and> si \<le> i \<and> sj \<le> j \<and> i - si = j - sj
            \<and> (\<forall>k. si \<le> k \<longrightarrow> k < i \<longrightarrow> p ! k \<noteq> ''*''))"

definition glob_rest :: "string list \<Rightarrow> string list \<Rightarrow> nat \<Rightarrow> nat \<Rightarrow> (nat \<times> nat) option \<Rightarrow> bool" where
  "glob_rest p t i j star \<longleftrightarrow>
     glob_spec (drop i p) (drop j t)
     \<or> (case star of
          None \<Rightarrow> False
        | Some (si, sj) \<Rightarrow> \<exists>k. sj < k \<and> k \<le> length t \<and> glob_spec (drop si p) (drop k t))"

definition glob_measure :: "string list \<Rightarrow> string list \<Rightarrow> nat \<Rightarrow> (nat \<times> nat) option \<Rightarrow> nat" where
  "glob_measure p t i star =
     (let (si, sj) = (case star of None \<Rightarrow> (0, 0) | Some s \<Rightarrow> s) in
      ((length p - si) * (length t + 2) + (length t - sj)) * (length p + 2) + (length p - i))"

lemma glob_new_star:
  assumes inv: "glob_inv p t i j star" and i: "i < length p" "p ! i = ''*''"
  shows "glob_rest p t i j star \<longleftrightarrow> glob_rest p t (i + 1) j (Some (i + 1, j))"
proof -
  have p: "drop i p = ''*'' # drop (i + 1) p" using i by (simp flip: Cons_nth_drop_Suc)
  have "glob_rest p t (i + 1) j (Some (i + 1, j)) \<longleftrightarrow> (\<exists>k \<ge> j. k \<le> length t \<and> glob_spec (drop (i + 1) p) (drop k t))"
    using inv by (auto simp: glob_rest_def glob_inv_def le_less)
  also have "\<dots> \<longleftrightarrow> (\<exists>m \<le> length (drop j t). glob_spec (drop (i + 1) p) (drop m (drop j t)))"
  proof
    assume "\<exists>k \<ge> j. k \<le> length t \<and> glob_spec (drop (i + 1) p) (drop k t)"
    then obtain k where "j \<le> k" "k \<le> length t" "glob_spec (drop (i + 1) p) (drop k t)" by blast
    then show "\<exists>m \<le> length (drop j t). glob_spec (drop (i + 1) p) (drop m (drop j t))"
      by (intro exI [of _ "k - j"]) (simp add: diff_le_mono)
  next
    assume "\<exists>m \<le> length (drop j t). glob_spec (drop (i + 1) p) (drop m (drop j t))"
    then obtain m where m: "m \<le> length t - j" "glob_spec (drop (i + 1) p) (drop (m + j) t)" by auto
    moreover have "j \<le> length t" using inv by (simp add: glob_inv_def)
    ultimately have "j \<le> m + j" "m + j \<le> length t" by simp_all
    with m(2) show "\<exists>k \<ge> j. k \<le> length t \<and> glob_spec (drop (i + 1) p) (drop k t)" by blast
  qed
  also have "\<dots> \<longleftrightarrow> glob_spec (drop i p) (drop j t)" unfolding p glob_star ..
  finally have new: "glob_rest p t (i + 1) j (Some (i + 1, j)) \<longleftrightarrow> glob_spec (drop i p) (drop j t)" .
  have "glob_spec (drop i p) (drop j t)"
    if star: "star = Some (si, sj)" and k: "sj < k" "k \<le> length t" "glob_spec (drop si p) (drop k t)"
    for si sj k
  proof -
    from inv star have s: "si \<le> i" "sj \<le> j" "i - si = j - sj" "\<forall>k. si \<le> k \<longrightarrow> k < i \<longrightarrow> p ! k \<noteq> ''*''"
      by (auto simp: glob_inv_def)
    let ?seg = "take (i - si) (drop si p)"
    have "drop si p = ?seg @ drop i p"
      by (metis append_take_drop_id drop_drop le_add_diff_inverse2 s(1))
    moreover have "\<forall>c \<in> set ?seg. c \<noteq> ''*''"
      using s(1,4) i(1) by (auto simp: in_set_conv_nth)
    moreover have len: "length ?seg = i - si" using i(1) s(1) by simp
    ultimately have m: "i - si \<le> length (drop k t)" "glob_spec (drop i p) (drop (i - si) (drop k t))"
      using glob_seg [of ?seg "drop i p" "drop k t"] k(3) by simp_all
    then obtain m where "m \<le> length (drop (i - si + k) t)"
      "glob_spec (drop (i + 1) p) (drop m (drop (i - si + k) t))" unfolding p glob_star by auto
    moreover have "j \<le> i - si + k" using s k(1) by linarith
    ultimately show ?thesis
      unfolding p glob_star
      by (intro exI [of _ "m + (i - si + k) - j"]) (use m(1) k(2) in auto)
  qed
  with new show ?thesis by (auto simp: glob_rest_def split: option.splits)
qed

lemma glob_mismatch:
  assumes inv: "glob_inv p t i j star" and star: "\<not> (i < length p \<and> p ! i = ''*'')"
    and ends: "\<not> (i = length p \<and> j = length t)"
    and diff: "\<not> (i < length p \<and> j < length t \<and> (p ! i = ''?'' \<or> p ! i = t ! j))"
  shows "\<not> glob_spec (drop i p) (drop j t)"
proof (cases "i < length p")
  case True
  then have p: "drop i p = p ! i # drop (Suc i) p" by (simp add: Cons_nth_drop_Suc)
  show ?thesis
  proof (cases "j < length t")
    case j: True
    then have "drop j t = t ! j # drop (Suc j) t" by (simp add: Cons_nth_drop_Suc)
    with p True j star diff show ?thesis by simp
  next
    case False
    with p True star show ?thesis by simp
  qed
next
  case False
  with inv ends show ?thesis by (auto simp: glob_inv_def)
qed

lemma glob_weight:
  assumes "(x::nat) < y" "r \<le> n"
  shows "x * (n + 2) + r < y * (n + 2) + r'"
proof -
  have "Suc x * (n + 2) \<le> y * (n + 2)" using assms(1) by (intro mult_le_mono1) simp
  with assms(2) show ?thesis by simp
qed

lemma glob_measure_star:
  assumes inv: "glob_inv p t i j star" and i: "i < length p"
  shows "glob_measure p t (i + 1) (Some (i + 1, j)) < glob_measure p t i star"
proof -
  obtain si sj where s: "(case star of None \<Rightarrow> (0, 0) | Some s \<Rightarrow> s) = (si, sj)" by force
  have "si \<le> i" using inv s by (auto simp: glob_inv_def split: option.splits)
  with i have "length p - (i + 1) < length p - si" by linarith
  then have "(length p - (i + 1)) * (length t + 2) + (length t - j) < (length p - si) * (length t + 2) + (length t - sj)"
    by (rule glob_weight) simp
  then have "((length p - (i + 1)) * (length t + 2) + (length t - j)) * (length p + 2) + (length p - (i + 1))
      < ((length p - si) * (length t + 2) + (length t - sj)) * (length p + 2) + (length p - i)"
    by (rule glob_weight) simp
  then show ?thesis by (simp add: glob_measure_def s)
qed

lemma glob_measure_step: "i < length p \<Longrightarrow> glob_measure p t (i + 1) star < glob_measure p t i star"
proof -
  assume i: "i < length p"
  obtain si sj where s: "(case star of None \<Rightarrow> (0, 0) | Some s \<Rightarrow> s) = (si, sj)" by force
  from i have "length p - (i + 1) < length p - i" by simp
  then show ?thesis unfolding glob_measure_def s Let_def prod.case by (rule add_strict_left_mono)
qed

lemma glob_measure_back:
  assumes "sj < length t"
  shows "glob_measure p t si (Some (si, sj + 1)) < glob_measure p t i (Some (si, sj))"
proof -
  have "(length p - si) * (length t + 2) + (length t - (sj + 1)) < (length p - si) * (length t + 2) + (length t - sj)"
    using assms by linarith
  then have "((length p - si) * (length t + 2) + (length t - (sj + 1))) * (length p + 2) + (length p - si)
      < ((length p - si) * (length t + 2) + (length t - sj)) * (length p + 2) + (length p - i)"
    by (rule glob_weight) simp
  then show ?thesis by (simp add: glob_measure_def)
qed

lemma glob_rest_back:
  "sj < length t \<Longrightarrow>
    glob_rest p t si (sj + 1) (Some (si, sj + 1))
      \<longleftrightarrow> (\<exists>k. sj < k \<and> k \<le> length t \<and> glob_spec (drop si p) (drop k t))"
proof -
  assume sj: "sj < length t"
  let ?P = "\<lambda>k. k \<le> length t \<and> glob_spec (drop si p) (drop k t)"
  have "(\<exists>k. sj < k \<and> ?P k) \<longleftrightarrow> ?P (sj + 1) \<or> (\<exists>k. sj + 1 < k \<and> ?P k)"
    by (metis Suc_eq_plus1 Suc_lessD Suc_lessI lessI)
  with sj show ?thesis by (simp add: glob_rest_def)
qed

lemma glob_loop_correct:
  "glob_inv p t i j star \<Longrightarrow> glob_measure p t i star < fuel \<Longrightarrow>
    glob_loop fuel p t i j star = Some (glob_rest p t i j star)"
proof (induction fuel arbitrary: i j star)
  case (Suc fuel)
  note inv = Suc.prems(1)
  consider (star) "i < length p" "p ! i = ''*''"
    | (stop) "i = length p" "j = length t"
    | (same) "i < length p" "p ! i \<noteq> ''*''" "j < length t" "p ! i = ''?'' \<or> p ! i = t ! j"
    | (diff) "\<not> (i < length p \<and> p ! i = ''*'')" "\<not> (i = length p \<and> j = length t)"
        "\<not> (i < length p \<and> j < length t \<and> (p ! i = ''?'' \<or> p ! i = t ! j))"
    by blast
  then show ?case
  proof cases
    case star
    have "glob_inv p t (i + 1) j (Some (i + 1, j))" using inv star by (simp add: glob_inv_def)
    moreover have "glob_measure p t (i + 1) (Some (i + 1, j)) < fuel"
      using glob_measure_star [OF inv star(1)] Suc.prems(2) by linarith
    ultimately show ?thesis using Suc.IH star glob_new_star [OF inv star] by simp
  next
    case stop
    then show ?thesis by (simp add: glob_rest_def)
  next
    case same
    have "glob_inv p t (i + 1) (j + 1) star"
      using inv same by (auto simp: glob_inv_def less_Suc_eq Suc_diff_le split: option.splits)
    moreover have "glob_measure p t (i + 1) star < fuel"
      using glob_measure_step [OF same(1), of t star] Suc.prems(2) by linarith
    ultimately have "glob_loop fuel p t (i + 1) (j + 1) star = Some (glob_rest p t (i + 1) (j + 1) star)"
      by (rule Suc.IH)
    moreover have "drop i p = p ! i # drop (Suc i) p" "drop j t = t ! j # drop (Suc j) t"
      using same by (simp_all add: Cons_nth_drop_Suc)
    then have "glob_spec (drop i p) (drop j t) = glob_spec (drop (i + 1) p) (drop (j + 1) t)"
      using same by simp
    then have "glob_rest p t i j star = glob_rest p t (i + 1) (j + 1) star"
      by (simp add: glob_rest_def)
    ultimately show ?thesis using same by simp
  next
    case diff
    have no: "\<not> glob_spec (drop i p) (drop j t)" by (rule glob_mismatch [OF inv diff])
    show ?thesis
    proof (cases star)
      case None
      with no diff show ?thesis by (auto simp: glob_rest_def)
    next
      case (Some s)
      obtain si sj where s: "star = Some (si, sj)" using Some by (cases s) simp
      show ?thesis
      proof (cases "sj < length t")
        case True
        have "glob_inv p t si (sj + 1) (Some (si, sj + 1))"
          using inv s True by (simp add: glob_inv_def)
        moreover have "glob_measure p t si (Some (si, sj + 1)) < fuel"
          using glob_measure_back [OF True, of p si i] Suc.prems(2) [unfolded s] by linarith
        ultimately have "glob_loop fuel p t si (sj + 1) (Some (si, sj + 1))
            = Some (glob_rest p t si (sj + 1) (Some (si, sj + 1)))" by (rule Suc.IH)
        moreover have "glob_rest p t i j star = glob_rest p t si (sj + 1) (Some (si, sj + 1))"
          unfolding glob_rest_back [OF True] using no s by (simp add: glob_rest_def)
        ultimately show ?thesis using diff s True by auto
      next
        case False
        with no s diff show ?thesis by (auto simp: glob_rest_def)
      qed
    qed
  qed
qed simp

lemma glob_measure_start: "glob_measure p t 0 None < glob_fuel p t"
proof -
  have "length p * (length t + 2) + length t < (length p + 2) * (length t + 2)"
    by (simp add: algebra_simps)
  then have "(length p * (length t + 2) + length t) * (length p + 2) + length p
      < (length p + 2) * (length t + 2) * (length p + 2) + 0"
    by (rule glob_weight) simp
  then show ?thesis by (simp add: glob_measure_def glob_fuel_def)
qed

text \<open>The matcher always answers, and its answer is the meaning of the pattern.\<close>

lemma glob_matches_spec:
  "glob_matches pattern name = Some (glob_spec (utf8_chars pattern) (utf8_chars name))"
  using glob_loop_correct [OF _ glob_measure_start, of "utf8_chars pattern" "utf8_chars name"]
  by (simp add: glob_matches_def glob_inv_def glob_rest_def Let_def)

end
