(* ===== verification/Codec_Props.thy ===== *)
theory Codec_Props
  imports Store_Props Global_Id Query_Spec
begin

text \<open>
  The properties of the codecs: the log's checksum and writer, the ids and keys that cross
  repository boundaries, and the query language's selectors.
\<close>

section \<open>The log\<close>

text \<open>
  C14: The table-driven checksum of the log is CRC-32C as it is specified: division by the
  Castagnoli polynomial, given by its exponents, in a shift register that takes the message bit
  by bit; and its value on the digits 1 to 9 is the published check value.
\<close>

theorem checksum_is_crc32c:
  "crc32c data = crc32c_ref data
    \<and> crc32c [0x31, 0x32, 0x33, 0x34, 0x35, 0x36, 0x37, 0x38, 0x39] = 0xe3069283"
proof
  have "crc32c_ref [0x31, 0x32, 0x33, 0x34, 0x35, 0x36, 0x37, 0x38, 0x39] = 0xe3069283" by code_simp
  then show "crc32c [0x31, 0x32, 0x33, 0x34, 0x35, 0x36, 0x37, 0x38, 0x39] = 0xe3069283"
    by (simp only: crc32c_eq_ref)
qed (rule crc32c_eq_ref)

text \<open>
  An operation whose encoding exceeds the cap is appended without complaint, and from
  then on no load of the log succeeds: neither the operations logged before it nor any
  logged after it are ever read again.
\<close>

theorem overlong_record_blocks_recovery:
  assumes "\<forall>op \<in> set (a @ b). fits enc dec op" "log_holds enc a b lf"
    and "wal_cap < length (enc big)" "length (enc big) < 2 ^ 32"
  shows "load_log dec lf = (Some (a @ b), lf)
    \<and> fst (load_log dec (log_append enc later (log_append enc [big] lf))) = None"
proof -
  have before: "load_log dec lf = (Some (a @ b), lf)" using assms(1,2) by (rule load_log_holds)
  define tail where "tail = encode_frame enc big @ encode_frames enc later"
  have prev: "replay_and_repair dec (lf_prev lf) = (Some a, lf_prev lf)"
    using assms(1,2) by (intro replay_and_repair_holds) (auto simp: log_holds_def)
  have "log_holds enc a (b @ [big] @ later) (log_append enc later (log_append enc [big] lf))"
    using log_append_holds [OF log_append_holds [OF assms(2)], of "[big]" later] by simp
  then have live: "lf_live (log_append enc later (log_append enc [big] lf)) = Some (encode_frames enc b @ tail)"
    by (auto simp: log_holds_def holds_ops_def log_append_def tail_def encode_frames_def
        split: option.splits if_splits)
  have "replay_frames dec tail = ([], 0, Overlong)"
    unfolding tail_def using assms(3,4) by (rule replay_overlong)
  then have "replay_frames dec (encode_frames enc b @ tail)
      = (b, length (encode_frames enc b), Overlong)"
    using assms(1) by (subst replay_append) auto
  then have "replay_and_repair dec (Some (encode_frames enc b @ tail))
      = (None, Some (encode_frames enc b @ tail))"
    by (simp add: replay_and_repair_def)
  moreover have "lf_prev (log_append enc later (log_append enc [big] lf)) = lf_prev lf"
    by (simp add: log_append_def)
  ultimately have "fst (load_log dec (log_append enc later (log_append enc [big] lf))) = None"
    using prev live by (simp add: load_log_def)
  with before show ?thesis by simp
qed

theorem overlong_record_blocks_recovery_witness:
  "fst (load_log (\<lambda>_. None)
     (log_append (\<lambda>_. replicate (Suc wal_cap) 0) []
       (log_append (\<lambda>_. replicate (Suc wal_cap) 0) [UpsertNode sample_node]
         \<lparr>lf_prev = None, lf_live = None\<rparr>))) = None"
proof -
  let ?enc = "\<lambda>_. replicate (Suc wal_cap) 0" and ?lf = "\<lparr>lf_prev = None, lf_live = None\<rparr>"
  have "log_holds ?enc [] [] ?lf" by (simp add: log_holds_def holds_ops_def)
  moreover have "\<forall>op \<in> set ([] @ []). fits ?enc (\<lambda>_. None) op" by simp
  moreover have "wal_cap < length (?enc (UpsertNode sample_node))"
    and "length (?enc (UpsertNode sample_node)) < 2 ^ 32"
    by (simp_all only: length_replicate) (simp_all add: wal_cap_def)
  ultimately show ?thesis
    using overlong_record_blocks_recovery [of "[]" "[]" ?enc "\<lambda>_. None" ?lf "UpsertNode sample_node" "[]"]
    by blast
qed

lemma writer_policy: "ww_policy (fold writer_step es w) = ww_policy w"
proof (induction es arbitrary: w)
  case (Cons e es)
  have "ww_policy (writer_step e w) = ww_policy w"
    by (cases e) (auto simp: writer_append_def writer_sync_def writer_close_def Let_def
        split: sync_policy.splits)
  with Cons show ?case by simp
qed simp

lemma append_interval:
  assumes "ww_policy w = Interval d" "ops \<noteq> []" "ww_unsynced (writer_append now ops w)"
  shows "now - ww_last_sync (writer_append now ops w) < d"
  using assms by (auto simp: writer_append_def writer_sync_def Let_def split: if_splits)

text \<open>
  What the log writer has not yet forced to disk. With the policy \<open>Always\<close> nothing,
  whatever calls were made; with an interval of \<open>d\<close> milliseconds, right after an append of
  at least one operation there is unforced data only when the last sync is less than \<open>d\<close>
  milliseconds ago.
\<close>

theorem writer_syncs_in_time:
  assumes "w = fold writer_step es (writer_new p t0)" "ops \<noteq> []"
  shows "(p = Always \<longrightarrow> \<not> ww_unsynced w)
    \<and> (p = Interval d \<longrightarrow> ww_unsynced (writer_append now ops w)
          \<longrightarrow> now - ww_last_sync (writer_append now ops w) < d)"
proof -
  have "writer_ok w" unfolding assms(1)
    by (intro writer.run_inv) (simp_all add: writer_ok_def writer_new_def list_all_iff)
  moreover have "ww_policy w = p" unfolding assms(1) writer_policy by (simp add: writer_new_def)
  ultimately show ?thesis
    using append_interval [OF _ assms(2)] by (auto simp: writer_ok_def)
qed

theorem writer_syncs_in_time_witness:
  "\<not> ww_unsynced (fold writer_step [WAppend 7 [UpsertNode sample_node], WClose 9] (writer_new Always 5))"
  using writer_syncs_in_time [OF refl, of "[UpsertNode sample_node]" Always
      "[WAppend 7 [UpsertNode sample_node], WClose 9]" 5]
  by simp

section \<open>Ids and keys\<close>

text \<open>
  C16: Every field of a node's cross-repository id is read back from it as it went in,
  whatever the path and name contain; and two nodes share an id only if they agree in
  repository, kind, path, name and line.
\<close>

theorem global_id_roundtrip:
  assumes "repo_ok repo" "line_value l < 2 ^ 32"
  shows "gid_parse (global_id_new repo kind path name l) = Inr (global_id_new repo kind path name l)
    \<and> gid_repo_id (global_id_new repo kind path name l) = repo_str repo
    \<and> gid_node_kind_str (global_id_new repo kind path name l) = Some (node_type_name kind)
    \<and> gid_path (global_id_new repo kind path name l) = Some path
    \<and> gid_name (global_id_new repo kind path name l) = Some name
    \<and> gid_line_start (global_id_new repo kind path name l) = Some (line_value l)
    \<and> (\<forall>repo' kind' path' name' l'. repo_ok repo' \<longrightarrow>
         global_id_new repo kind path name l = global_id_new repo' kind' path' name' l' \<longrightarrow>
         repo = repo' \<and> kind = kind' \<and> path = path' \<and> name = name' \<and> line_value l = line_value l')"
  using global_id_fields [OF assms, of kind path name] global_id_inj [OF assms(1)] by blast

theorem global_id_roundtrip_witness:
  "gid_path (global_id_new (RepoId ''lain'') NT_Function ''src:a%.rs'' ''f'' (Some 7)) = Some ''src:a%.rs''"
proof -
  have ok: "repo_ok (RepoId ''lain'')" by code_simp
  show ?thesis by (rule global_id_roundtrip [OF ok, THEN conjunct2, THEN conjunct2, THEN conjunct2,
      THEN conjunct1]) simp
qed

text \<open>
  C17: A contract key is read back from its text exactly when its parts are such that the
  text is unambiguous: no part empty where the format needs one, and no slash or colon in a
  broker or service name. Whatever the parser accepts is such a key.
\<close>

theorem contract_key_roundtrip:
  "(parse_key (wire_form k) = Inr k) = key_wire_ok k"
  using parse_key_wire parse_key_ok by blast

text \<open>
  A path into a JSON payload is read back from its text, when no name in it is empty or
  starts with one of the characters the writer leaves bare in first position.
\<close>

theorem json_path_roundtrip:
  assumes "path_ok p"
  shows "parse_path (show_path p) = Inr p"
  using assms by (rule parse_show_path_ok)

theorem json_path_roundtrip_witness:
  "parse_path (show_path [Name ''a.b'', ArrayItems, Name ''c''])
     = Inr [Name ''a.b'', ArrayItems, Name ''c'']"
  by (rule json_path_roundtrip) (simp add: path_ok_def)

text \<open>
  A name that starts with a closing bracket does not survive: the writer escapes every
  special character but the first, and the reader refuses a bare bracket.
\<close>

theorem json_path_leading_bracket:
  "parse_path (show_path [Name '']x'']) = Inl UnescapedBracket"
  by code_simp

text \<open>
  A node's id text determines its namespace, type, path, name and line, provided none of
  them contains a colon; with a colon in the name two different symbols get the same id.
\<close>

theorem node_id_text_injective:
  assumes "CHR '':'' \<notin> set (ns @ p @ n @ ns' @ p' @ n')"
  shows "(id_input ns t p n l = id_input ns' t' p' n' l')
           = (ns = ns' \<and> t = t' \<and> p = p' \<and> n = n' \<and> l = l')
    \<and> id_input ns t p ''f:7'' None = id_input ns t p ''f'' (Some 7)"
  using id_input_inj [of ns t p n l ns' t' p' n' l'] assms id_input_ambiguous by auto

theorem node_id_text_injective_witness:
  "(id_input ''ws'' NT_Function ''a.rs'' ''f'' None = id_input ''ws'' NT_Function ''a.rs'' ''f'' (Some 7))
     = (None = Some (7::nat))"
  using node_id_text_injective [of "''ws''" "''a.rs''" "''f''" "''ws''" "''a.rs''" "''f''"
      NT_Function None NT_Function "Some 7"] by simp

text \<open>
  A node has the owner some fact on it names, and no fact on it names another: what a
  sensor's rescan deletes carries no other sensor's fact. A node whose facts name two
  sensors has no owner.
\<close>

theorem node_owner_unique:
  assumes "sensor_owner_of node = Some w" "gn_contract node \<noteq> []"
  shows "(\<exists>f \<in> set (gn_contract node). derive_owner node (Some f) = Some w)
    \<and> (\<forall>f \<in> set (gn_contract node). derive_owner node (Some f) \<in> {None, Some w})"
proof -
  from assms have owner: "owner_of_facts node (gn_contract node) None = Some w"
    by (simp add: sensor_owner_of_def Let_def)
  have "derive_owner node (Some f) \<in> {None, Some w}" if "f \<in> set (gn_contract node)" for f
    using owner_of_facts_agree [OF owner] that by (cases "derive_owner node (Some f)") auto
  with owner_of_facts_witness [OF owner] show ?thesis by blast
qed

definition route_node :: graph_node where
  "route_node = (plain_node ''1'' ''GET /users'' ''src/a.rs'')
     \<lparr>gn_contract := [RpcConsumer \<lparr>rc_system = Grpc, rc_service = ''users'', rc_method = ''Get'',
       rc_channel_target = None, rc_channel_host_part = HostNone\<rparr>]\<rparr>"

theorem node_owner_unique_witness:
  "\<exists>f \<in> set (gn_contract route_node). derive_owner route_node (Some f) = Some GrpcConsumerSensor"
proof (rule node_owner_unique [THEN conjunct1])
  show "sensor_owner_of route_node = Some GrpcConsumerSensor"
    by code_simp
  show "gn_contract route_node \<noteq> []" by (simp add: route_node_def)
qed

section \<open>The query language\<close>

text \<open>
  C15: The glob matcher's loop always ends, and its answer is the plain reading of the
  pattern: a star stands for any characters, a question mark for one.
\<close>

theorem glob_matcher_correct:
  "glob_matches pattern name = Some (glob_spec (utf8_chars pattern) (utf8_chars name))"
  by (rule glob_matches_spec)

text \<open>
  Every label, edge and name selector is read back from the JSON it is written as.
\<close>

theorem selectors_roundtrip:
  "label_of_json (label_to_json ls) = Inr ls \<and> edge_of_json (edge_to_json es) = Inr es
     \<and> name_of_json (name_to_json ns) = Inr ns"
  by (simp add: label_json_roundtrip edge_json_roundtrip name_json_roundtrip)

end
