(* ===== verification/Store_Effects.thy ===== *)
theory Store_Effects
  imports Store_Props
begin

text \<open>
  What single operations of the graph database do to its contents: removals, the two kinds of
  edge batch, a sensor's rescan, orphan pruning, and the places where an operation falls
  short of its own comments.
\<close>

section \<open>Edges\<close>

lemma distinct_by_class:
  "(\<And>k. size (filter_mset (\<lambda>x. f x = k) (mset xs)) \<le> 1) \<Longrightarrow> distinct (map f xs)"
proof (induction xs)
  case (Cons x xs)
  have "size (filter_mset (\<lambda>y. f y = k) (mset xs)) \<le> 1" for k
    by (rule order_trans [OF size_mset_mono Cons.prems [of k]]) simp
  moreover have "f x \<notin> f ` set xs" using Cons.prems [of "f x"] by force
  ultimately show ?case using Cons.IH by simp
qed simp

lemma edges_at_single:
  assumes "size (edges_at k s) \<le> 1"
  shows "size (edges_at k (spec_op op s)) \<le> 1"
proof (cases "kills k op")
  case True
  then show ?thesis by (simp add: edges_at_kill)
next
  case kill: False
  show ?thesis
  proof (cases "adds k op")
    case False
    with kill assms show ?thesis by (simp add: edges_at_keep)
  next
    case True
    then obtain e where "op = UpsertEdge e" by (cases op) auto
    with True assms edges_at_add [of k e s] show ?thesis by simp
  qed
qed

lemma edges_at_single_ops: "size (edges_at k s) \<le> 1 \<Longrightarrow> size (edges_at k (spec_ops ops s)) \<le> 1"
  by (induction ops arbitrary: s) (auto intro: edges_at_single simp del: One_nat_def)

text \<open>No two edges of the same identity, in the graph and in what it stands for.\<close>

definition single_edges :: "graph_db \<Rightarrow> bool" where
  "single_edges d \<longleftrightarrow> distinct (map edge_identity_key (edge_weights (db_graph d)))"

lemma single_edges_iff: "single_edges d \<longleftrightarrow> (\<forall>k. size (edges_at k (abs_db d)) \<le> 1)"
proof
  have "distinct (map f xs) \<Longrightarrow> length (filter (\<lambda>x. f x = k) xs) \<le> 1" for f :: "graph_edge \<Rightarrow> edge_key" and k xs
    by (induction xs) (auto simp: filter_empty_conv rev_image_eqI)
  moreover have "size (filter_mset P (mset xs)) = length (filter P xs)" for P and xs :: "graph_edge list"
    by (metis mset_filter size_mset)
  ultimately show "single_edges d \<Longrightarrow> \<forall>k. size (edges_at k (abs_db d)) \<le> 1"
    by (simp add: single_edges_def edges_at_def abs_db_def)
next
  assume single: "\<forall>k. size (edges_at k (abs_db d)) \<le> 1"
  have "size (filter_mset (\<lambda>e. edge_identity_key e = k) (mset (edge_weights (db_graph d)))) \<le> 1" for k
    using spec [OF single, of k] by (simp only: edges_at_def abs_db_def gspec.simps)
  then show "single_edges d" unfolding single_edges_def by (rule distinct_by_class)
qed

lemma single_edges_filter:
  "g_edges (db_graph d') = filter P (g_edges (db_graph d)) \<Longrightarrow> single_edges d \<Longrightarrow> single_edges d'"
  by (simp add: single_edges_def edge_weights_def comp_def distinct_map_filter)

text \<open>
  Reindexing takes edges away, and puts back one only between ends that have none of its type;
  as the ends of an edge are those its ids name, it puts back none that is there.
\<close>

lemma drop_old_edges:
  "drop_old pg ns rep is kept pr rm d = (kept', pr', rm', d') \<Longrightarrow>
   (\<exists>P. g_edges (db_graph d') = filter P (g_edges (db_graph d))) \<and> flags d' = flags d"
proof (induction "is" arbitrary: kept pr rm d)
  case Nil
  then show ?case by (auto intro: exI [of _ "\<lambda>_. True"])
next
  case (Cons i "is")
  show ?case
  proof (cases "g_node (db_graph d) i")
    case None
    then show ?thesis using Cons by simp
  next
    case (Some n)
    show ?thesis
    proof (cases "gn_type n = NT_Namespace \<and> \<not> ns")
      case True
      then show ?thesis using Cons Some by simp
    next
      case False
      let ?d = "d\<lparr>db_graph := g_remove_node i (db_graph d), db_index := hm_del (gn_id n) (db_index d),
          db_names := idx_drop (gn_name n) i (db_names d)\<rparr>"
      obtain kept1 pr1 rm1 where "drop_old pg ns rep is kept1 pr1 rm1 ?d = (kept', pr', rm', d')"
        using Cons.prems Some False by (auto simp: Let_def split: if_splits)
      from Cons.IH [OF this] show ?thesis by (auto simp: filter_filter)
    qed
  qed
qed

lemma add_fresh_edges:
  "add_fresh pg ns seen fresh d = (fresh', d') \<Longrightarrow> g_edges (db_graph d') = g_edges (db_graph d) \<and> flags d' = flags d"
proof (induction ns arbitrary: seen fresh d)
  case (Cons n ns)
  obtain j g where add: "g_add_node pg n (db_graph d) = (j, g)" by fastforce
  then have g: "g_edges g = g_edges (db_graph d)" by (auto simp: g_add_node_def Let_def)
  obtain seen1 fresh1 d1 where "add_fresh pg ns seen1 fresh1 d1 = (fresh', d')"
    and "g_edges (db_graph d1) = g_edges (db_graph d) \<and> flags d1 = flags d"
    using Cons.prems g by (auto simp: add g_set_node_def split: if_splits option.splits)
  then show ?case using Cons.IH by metis
qed simp

lemma replace_paths_edges:
  "replace_paths pg ns rep nodes ps es pr rm d = (es', pr', rm', d') \<Longrightarrow>
   (\<exists>P. g_edges (db_graph d') = filter P (g_edges (db_graph d))) \<and> flags d' = flags d"
proof (induction ps arbitrary: es pr rm d)
  case Nil
  then show ?case by (auto intro: exI [of _ "\<lambda>_. True"])
next
  case (Cons p ps)
  obtain kept pr1 rm1 d1 where drop: "drop_old pg ns rep (idx_list (db_paths d) p) [] pr rm d = (kept, pr1, rm1, d1)"
    by (metis prod_cases4)
  obtain fresh d2 where add: "add_fresh pg (filter (\<lambda>n. gn_path n = p) nodes) {} kept d1 = (fresh, d2)" by fastforce
  have "replace_paths pg ns rep nodes ps (es @ [(p, fresh)]) pr1 rm1 d2 = (es', pr', rm', d')"
    using Cons.prems by (simp add: drop add)
  from Cons.IH [OF this] drop_old_edges [OF drop] add_fresh_edges [OF add]
  show ?case by (auto simp: filter_filter)
qed

lemma restore_edge_single:
  assumes "mid_ok who d P" "single_edges d"
  shows "single_edges (restore_edge e d) \<and> flags (restore_edge e d) = flags d"
proof (cases "hm_get (db_index d) (ge_source_id e)")
  case None
  then show ?thesis using assms(2) by (simp add: restore_edge_def)
next
  case s: (Some s)
  show ?thesis
  proof (cases "hm_get (db_index d) (ge_target_id e)")
    case None
    then show ?thesis using assms(2) by (simp add: restore_edge_def s)
  next
    case t: (Some t)
    show ?thesis
    proof (cases "list_ex (\<lambda>w. ge_type w = ge_type e) (edges_connecting (db_graph d) s t)")
      case True
      then show ?thesis using assms(2) by (simp add: restore_edge_def s t)
    next
      case False
      have "edge_identity_key w \<noteq> edge_identity_key e" if w: "w \<in> set (edge_weights (db_graph d))" for w
      proof
        assume "edge_identity_key w = edge_identity_key e"
        then have same: "ge_source_id w = ge_source_id e" "ge_target_id w = ge_target_id e" "ge_type w = ge_type e"
          by (simp_all add: edge_identity_key_def)
        obtain s' t' where rec: "(s', t', w) \<in> set (g_edges (db_graph d))" using w by (auto simp: edge_weights_def)
        then have "hm_get (db_index d) (ge_source_id w) = Some s'" "hm_get (db_index d) (ge_target_id w) = Some t'"
          using assms(1) by (auto simp: mid_ok_lookup [OF assms(1)]) (auto simp: mid_ok_def coherent_def graph_ok_def edges_ok_def)
        then have "s' = s" "t' = t" using s t same by simp_all
        then show False using False rec same(3) by (force simp: edges_connecting_def list_ex_iff)
      qed
      then have "edge_identity_key e \<notin> edge_identity_key ` set (edge_weights (db_graph d))" by fastforce
      moreover have "edge_weights (g_add_edge s t e g) = edge_weights g @ [e]" for g by (simp add: edge_weights_def)
      moreover have "restore_edge e d = d\<lparr>db_graph := g_add_edge s t e (db_graph d)\<rparr>"
        using False by (simp add: restore_edge_def s t)
      ultimately show ?thesis using assms(2) by (simp add: single_edges_def)
    qed
  qed
qed

lemma restore_edges_single:
  "mid_ok who d P \<Longrightarrow> single_edges d \<Longrightarrow> single_edges (fold restore_edge es d) \<and> flags (fold restore_edge es d) = flags d"
proof (induction es arbitrary: d)
  case (Cons e es)
  from restore_edge_single [OF Cons.prems] Cons.IH [OF restore_edge_ok [OF Cons.prems(1)]] show ?case by simp
qed simp

text \<open>The invariant of a run, and the mutators that leave the log behind.\<close>

definition edges_fine :: "(string \<Rightarrow> string \<times> string) \<Rightarrow> graph_db \<Rightarrow> bool" where
  "edges_fine who d \<longleftrightarrow> db_ok who d \<and> accepts d \<and> single_edges d"

lemma replace_nodes_inner_fine:
  assumes "petgraph_ok pg" "edges_fine who d" "\<forall>n \<in> set nodes. named_by who n"
  shows "edges_fine who (snd (replace_nodes_inner pg paths nodes ns d))"
proof -
  have ok: "db_ok who d" and a: "accepts d" and single: "single_edges d" using assms(2) by (simp_all add: edges_fine_def)
  obtain es pr rm d1 where r:
    "replace_paths pg ns (set paths) nodes (remdups (sort paths)) [] [] [] d = (es, pr, rm, d1)"
    by (metis prod_cases4)
  have "mid_ok who d (overlay [] (idx_list (db_paths d)))" using ok by (simp add: mid_ok_def db_ok_def overlay_def)
  from replace_paths_ok [OF assms(1,3) this _ _ r] have m: "mid_ok who d1 (overlay es (idx_list (db_paths d1)))" by auto
  have s1: "single_edges d1" "flags d1 = flags d"
    using replace_paths_edges [OF r] single_edges_filter single by auto
  have "single_edges (d'\<lparr>db_paths := x\<rparr>) = single_edges d'" for d' x by (simp add: single_edges_def)
  then have single': "single_edges (snd (replace_nodes_inner pg paths nodes ns d))"
    and same: "flags (snd (replace_nodes_inner pg paths nodes ns d)) = flags d"
    using restore_edges_single [OF m s1(1), of pr] s1(2) a
    by (simp_all add: replace_nodes_inner_def db_bind_def check_writable_def accepts_def r Let_def)
  show ?thesis
    using replace_nodes_inner_ok [OF assms(1) ok assms(3), of paths ns] flags_accepts [OF same] a single' by (simp add: edges_fine_def)
qed

lemma prune_keys_fine:
  "petgraph_ok pg \<Longrightarrow> edges_fine who d \<Longrightarrow> edges_fine who (snd (prune_keys pg live keys k d))"
proof (induction keys arbitrary: k d)
  case (Cons key keys)
  have step: "edges_fine who (snd (replace_nodes_inner pg [key] [] (key \<notin> set live) d))"
    by (rule replace_nodes_inner_fine [OF Cons.prems]) simp
  show ?case
    using step Cons.IH [OF Cons.prems(1) step] Cons.prems(2)
    by (auto simp: db_bind_def split: sum.split prod.split)
qed simp

fun checks_edges :: "db_event \<Rightarrow> bool" where
  "checks_edges (EvInsertEdge e) \<longleftrightarrow> False"
| "checks_edges _ \<longleftrightarrow> True"

lemma rescan_single:
  assumes "event_ok pg who (EvSensorOutput owner ns es)" "edges_fine who d"
  shows "accepts (db_step pg (EvSensorOutput owner ns es) d) \<and> single_edges (db_step pg (EvSensorOutput owner ns es) d)"
proof -
  have "petgraph_ok pg" "\<forall>n \<in> set ns. named_by who n" using assms(1) by (simp_all add: event_ok_def)
  from sensor_rescan_effect [OF this(1) _ _ this(2), of d owner es] assms(2) obtain d' where
    d': "db_step pg (EvSensorOutput owner ns es) d = d'" "accepts d'"
      "abs_db d' = spec_ops (map UpsertNode ns @ map UpsertEdge es)
        (spec_unmark owner (spec_remove (set (owned_ids owner d)) (abs_db d)))" by (auto simp: edges_fine_def)
  have "size (edges_at k (spec_unmark owner (spec_remove A s))) \<le> size (edges_at k s)" for k A s
    by (auto simp: edges_at_def spec_unmark_def spec_remove_def intro!: size_mset_mono multiset_filter_mono)
  then have "size (edges_at k (spec_unmark owner (spec_remove A (abs_db d)))) \<le> 1" for k A
    using assms(2) unfolding edges_fine_def single_edges_iff by (meson order_trans)
  then show ?thesis using d' edges_at_single_ops unfolding single_edges_iff by (simp del: One_nat_def)
qed

lemma node_step_single:
  assumes "edges_fine who d" "ev = EvSetEmbedding nid emb \<or> ev = EvSetEntry nid kind"
  shows "accepts (db_step pg ev d) \<and> single_edges (db_step pg ev d)"
proof -
  have same: "g_edges (db_graph (db_step pg ev d)) = g_edges (db_graph d)" "flags (db_step pg ev d) = flags d"
    using assms(2)
    by (auto simp: set_embedding_def set_entry_def db_bind_def check_writable_def g_set_node_def split: option.split)
  show ?thesis using assms(1) flags_accepts [OF same(2)] same(1) by (simp add: edges_fine_def single_edges_def edge_weights_def)
qed

lemma edges_fine_step:
  assumes "edges_fine who d" "event_ok pg who ev" "checks_edges ev"
  shows "edges_fine who (db_step pg ev d)"
proof -
  have pg: "petgraph_ok pg" using assms(2) by (simp add: event_ok_def)
  have ok: "db_ok who (db_step pg ev d)" using db_step_ok assms(1,2) by (simp add: edges_fine_def)
  have logged: "accepts (db_step pg ev d) \<and> single_edges (db_step pg ev d)" if l: "is_logged ev"
  proof -
    from db_step_logged [OF assms(2) l] assms(1) obtain ops where "logged_as who ops d (db_step pg ev d)"
      by (auto simp: edges_fine_def)
    then show ?thesis
      using assms(1) edges_at_single_ops unfolding edges_fine_def single_edges_iff logged_as_def by (simp del: One_nat_def)
  qed
  show ?thesis
  proof (cases ev)
    case (EvReplaceNodes ps ns)
    then show ?thesis
      using replace_nodes_inner_fine [OF pg assms(1), of ns ps False] assms(2)
      by (simp add: event_ok_def replace_nodes_for_paths_def)
  next
    case (EvPruneOrphans tracked)
    then show ?thesis
      using prune_keys_fine [OF pg assms(1)] assms(1)
      by (auto simp: prune_orphans_def db_bind_def check_writable_def edges_fine_def accepts_def)
  next
    case (EvSensorOutput owner ns es)
    then show ?thesis using ok rescan_single [of pg who owner ns es d] assms(1,2) by (simp add: edges_fine_def)
  next
    case (EvSetEmbedding nid emb)
    then show ?thesis using ok node_step_single [OF assms(1), of ev] by (simp only: edges_fine_def) blast
  next
    case (EvSetEntry nid kind)
    then show ?thesis using ok node_step_single [OF assms(1), of ev] by (simp only: edges_fine_def) blast
  qed (use ok logged assms(3) in \<open>simp_all add: edges_fine_def\<close>)
qed

interpretation edges_once: machine "db_step pg" "\<lambda>ev. event_ok pg who ev \<and> checks_edges ev" "edges_fine who" for pg who
  by unfold_locales (simp add: edges_fine_step)

text \<open>
  C4: Starting from an empty persistent database, no run of mutators, reindexing and rescans
  included, ever stores two edges of the same identity: same type and ends, and for topic edges
  the same call site. Only the mutator \<open>insert_edge\<close>, which does not look, is left out.
\<close>

theorem no_duplicate_edges:
  assumes "list_all (event_ok pg who) evs" "list_all checks_edges evs"
  shows "distinct (map edge_identity_key
           (edge_weights (db_graph (fold (db_step pg) evs (db_empty True False)))))"
proof -
  have "edges_fine who (db_empty True False)"
    unfolding edges_fine_def by (intro conjI db_ok_empty accepts_empty) (simp add: single_edges_def db_empty_def edge_weights_def g_empty_def)
  then have "edges_fine who (fold (db_step pg) evs (db_empty True False))"
    using assms by (intro edges_once.run_inv) (auto simp: list_all_iff)
  then show ?thesis by (simp add: edges_fine_def single_edges_def)
qed

theorem no_duplicate_edges_witness:
  "distinct (map edge_identity_key
     (edge_weights (db_graph (fold (db_step next_index)
       (sample_events @ [EvUpsertEdge (edge_new ET_Calls ''1'' ''3''), EvUpsertEdge (edge_new ET_Calls ''1'' ''3'')])
       (db_empty True False)))))"
  by (rule no_duplicate_edges [of _ sample_who])
    (simp_all add: sample_events_def event_ok_def named_by_def sample_who_def)

lemma resolve_edges_ok:
  "\<forall>e \<in> set es. both_local d e \<Longrightarrow>
    resolve_edges es d acc =
      Inr (acc @ map (\<lambda>e. (the (hm_get (db_index d) (ge_source_id e)),
                            the (hm_get (db_index d) (ge_target_id e)), e)) es)"
  by (induction es arbitrary: acc) (auto simp: both_local_def edge_ends_def)

lemma resolve_edges_err: "\<exists>e \<in> set es. \<not> both_local d e \<Longrightarrow> \<exists>err. resolve_edges es d acc = Inl err"
  by (induction es arbitrary: acc) (auto simp: both_local_def edge_ends_def split: option.split)

lemma edges_to_insert_covers:
  "(s, t, e) \<in> set rs \<Longrightarrow>
    edge_identity_key e \<in> seen \<or> edge_exists d s t e
    \<or> (\<exists>r \<in> set (edges_to_insert rs seen d). edge_identity_key (snd (snd r)) = edge_identity_key e)
    \<or> (\<exists>(s', t', e') \<in> set rs. edge_identity_key e' = edge_identity_key e \<and> edge_exists d s' t' e')"
proof (induction rs seen d rule: edges_to_insert.induct)
  case (2 s' t' e' rs seen d)
  show ?case
  proof (cases "(s, t, e) = (s', t', e')")
    case True
    then show ?thesis by auto
  next
    case False
    with "2.prems" have m: "(s, t, e) \<in> set rs" by auto
    show ?thesis
    proof (cases "edge_identity_key e' \<in> seen")
      case seen: True
      from "2.IH"(1) [OF seen m] seen show ?thesis by fastforce
    next
      case new: False
      show ?thesis
      proof (cases "edge_exists d s' t' e'")
        case ex: True
        from "2.IH"(2) [OF new ex m] new ex show ?thesis by fastforce
      next
        case nex: False
        from "2.IH"(3) [OF new nex m] new nex show ?thesis by fastforce
      qed
    qed
  qed
qed simp

text \<open>
  C9: \<open>upsert_edges_batch_strict\<close> is all or nothing. It fails exactly when some edge has an end
  that is not in the graph, and then the database is as before. Otherwise the nodes are
  unchanged and the edges that were missing are added once each: afterwards every edge of
  the batch is there, by identity, and what was added came from the batch and was new.
\<close>

theorem strict_batch_all_or_nothing:
  assumes "db_ok who d" "accepts d" "upsert_edges_batch_strict es d = (r, d')"
  shows "(if \<exists>e \<in> set es. \<not> both_local d e then isl r \<and> d' = d
     else r = Inr () \<and> sp_nodes (abs_db d') = sp_nodes (abs_db d)
       \<and> (\<forall>e \<in> set es. spec_has_edge e (abs_db d'))
       \<and> (\<exists>new. sp_edges (abs_db d') = mset new + sp_edges (abs_db d) \<and> set new \<subseteq> set es
            \<and> distinct (map edge_identity_key new) \<and> (\<forall>e \<in> set new. \<not> spec_has_edge e (abs_db d))))"
proof (cases "\<exists>e \<in> set es. \<not> both_local d e")
  case True
  moreover from resolve_edges_err [OF True] obtain err where "resolve_edges es d [] = Inl err" by blast
  moreover from True have "es \<noteq> []" by auto
  ultimately show ?thesis
    using assms(3) by (auto simp: upsert_edges_batch_strict_def db_bind_def assms(2))
next
  case False
  define rs where "rs = map (\<lambda>e. (the (hm_get (db_index d) (ge_source_id e)),
      the (hm_get (db_index d) (ge_target_id e)), e)) es"
  define ins where "ins = edges_to_insert rs {} d"
  define new where "new = map (\<lambda>(_, _, e). e) ins"
  have res: "resolve_edges es d [] = Inr rs" using resolve_edges_ok [of es d "[]"] False by (simp add: rs_def)
  have rs: "hm_get (db_index d) (ge_source_id e) = Some s \<and> hm_get (db_index d) (ge_target_id e) = Some t
      \<and> e \<in> set es" if "(s, t, e) \<in> set rs" for s t e
    using that False by (auto simp: rs_def both_local_def)
  have sub: "set ins \<subseteq> set rs" unfolding ins_def by (rule edges_to_insert_subset)
  have exists: "edge_exists d s t e \<longleftrightarrow> spec_has_edge e (abs_db d)" if "(s, t, e) \<in> set rs" for s t e
    using edge_exists_refines [OF assms(1)] rs [OF that] by blast
  let ?d = "d\<lparr>db_wal := db_wal d @ map (\<lambda>(_, _, e). UpsertEdge e) ins\<rparr>"
  have "r = Inr () \<and> abs_db d' = (abs_db d)\<lparr>sp_edges := mset new + sp_edges (abs_db d)\<rparr>"
  proof (cases "es = [] \<or> ins = []")
    case True
    then have "(r, d') = (Inr (), d)"
      using assms(3) res ins_def
      by (cases "es = []") (auto simp: upsert_edges_batch_strict_def db_bind_def assms(2) Let_def)
    moreover have "new = []" using True sub by (auto simp: new_def rs_def)
    ultimately show ?thesis by (simp add: gspec_eqI)
  next
    case False
    then have "(r, d') = (Inr (), ?d\<lparr>db_graph := fold (\<lambda>(s, t, e). g_add_edge s t e) ins (db_graph ?d)\<rparr>)"
      using assms(3) res unfolding upsert_edges_batch_strict_def Let_def
      by (simp add: db_bind_def assms(2) accepts_log ins_def [symmetric])
    then show ?thesis unfolding prod.inject using add_edges_abs [where d = ?d and rs = ins] by (simp add: new_def)
  qed
  then have eff: "r = Inr ()" "sp_nodes (abs_db d') = sp_nodes (abs_db d)"
    "sp_edges (abs_db d') = mset new + sp_edges (abs_db d)" by simp_all
  have "spec_has_edge e (abs_db d')" if "e \<in> set es" for e
  proof -
    from that have "\<exists>s t. (s, t, e) \<in> set rs" unfolding rs_def set_map by (blast intro: rev_image_eqI)
    then obtain s t where m: "(s, t, e) \<in> set rs" by blast
    from edges_to_insert_covers [OF m, of "{}" d] exists m
    have "spec_has_edge e (abs_db d) \<or> (\<exists>e' \<in> set new. edge_identity_key e' = edge_identity_key e)"
      by (fastforce simp: spec_has_edge_def new_def ins_def)
    then show ?thesis by (auto simp: spec_has_edge_def eff(3))
  qed
  moreover have "set new \<subseteq> set es" using sub rs by (fastforce simp: new_def)
  moreover have "distinct (map edge_identity_key new)"
    using edges_to_insert_distinct [of rs "{}" d] by (simp add: new_def ins_def comp_def case_prod_unfold)
  moreover have "\<forall>e \<in> set new. \<not> spec_has_edge e (abs_db d)"
    using edges_to_insert_new [of _ _ _ rs "{}" d] sub exists by (fastforce simp: new_def ins_def)
  ultimately show ?thesis using False eff by auto
qed

definition sample_db :: graph_db where
  "sample_db = fold (db_step next_index) sample_events (db_empty True False)"

lemma sample_db_ok: "db_ok sample_who sample_db"
  unfolding sample_db_def by (rule run_db_ok [OF next_index_ok sample_events_named])

lemma sample_db_accepts: "accepts sample_db"
  using run_logged [of next_index sample_who sample_events, OF _ _ db_ok_empty accepts_empty]
    sample_events_named
  by (auto simp: sample_db_def logged_as_def list_all_iff event_ok_def named_by_def sample_events_def)

theorem strict_batch_all_or_nothing_witness:
  "let (r, d') = upsert_edges_batch_strict [edge_new ET_Calls ''1'' ''2''] sample_db in
     if \<not> both_local sample_db (edge_new ET_Calls ''1'' ''2'') then isl r \<and> d' = sample_db
     else spec_has_edge (edge_new ET_Calls ''1'' ''2'') (abs_db d')"
  using strict_batch_all_or_nothing [OF sample_db_ok sample_db_accepts prod.collapse [symmetric],
      of "[edge_new ET_Calls ''1'' ''2'']"]
  by (auto simp: split_beta split: if_splits)

section \<open>Removing nodes\<close>

lemma remove_stale_count:
  "db_ok who d \<Longrightarrow> length (fst (remove_stale ids d rm))
     = length rm + card {nid \<in> set ids. hm_get (db_index d) nid \<noteq> None}"
proof (induction ids arbitrary: d rm)
  case (Cons nid ids)
  show ?case
  proof (cases "hm_get (db_index d) nid")
    case None
    then have "{x \<in> set (nid # ids). hm_get (db_index d) x \<noteq> None}
        = {x \<in> set ids. hm_get (db_index d) x \<noteq> None}" by auto
    with None Cons show ?thesis by simp
  next
    case (Some i)
    with Cons.prems obtain n where n: "g_node (db_graph d) i = Some n" "gn_id n = nid"
      by (rule db_ok_node)
    from Some n have eq: "remove_stale (nid # ids) d rm = remove_stale ids (unfile i n d) (rm @ [nid])"
      by (simp add: unfile_def)
    have "hm_get (db_index (unfile i n d)) k = (if k = nid then None else hm_get (db_index d) k)" for k
      using n(2) by (simp add: unfile_def)
    then have "{x \<in> set (nid # ids). hm_get (db_index d) x \<noteq> None}
        = insert nid {x \<in> set ids. hm_get (db_index (unfile i n d)) x \<noteq> None}"
      "nid \<notin> {x \<in> set ids. hm_get (db_index (unfile i n d)) x \<noteq> None}" using Some by auto
    with Cons.IH [OF unfile_ok [OF Cons.prems n(1)], of "rm @ [nid]"] show ?thesis unfolding eq by simp
  qed
qed simp

text \<open>
  \<open>remove_nodes_by_ids\<close> takes out exactly the nodes with the given ids and the edges at
  them, leaves every other node and edge, and returns how many of the ids (each counted
  once) were in the graph. The two passes, first over the graph and then over the indexes,
  leave the indexes coherent.
\<close>

theorem remove_nodes_exact:
  assumes "db_ok who d" "accepts d" "remove_nodes_by_ids ids d = (r, d')"
  shows "r = Inr (card {nid \<in> set ids. sp_nodes (abs_db d) nid \<noteq> None})
     \<and> sp_nodes (abs_db d') = (\<lambda>nid. if nid \<in> set ids then None else sp_nodes (abs_db d) nid)
     \<and> sp_edges (abs_db d') =
         filter_mset (\<lambda>e. ge_source_id e \<notin> set ids \<and> ge_target_id e \<notin> set ids) (sp_edges (abs_db d))
     \<and> db_ok who d'"
proof -
  let ?d = "d\<lparr>db_wal := db_wal d @ [RemoveNodesByIds ids]\<rparr>"
  have ok: "db_ok who ?d" using assms(1) by simp
  obtain d1 k c where t: "take_nodes ids ?d 0 [] = (d1, k, c)" by (metis prod_cases3)
  have "(r, d') = (Inr k, clear_indexes ids c d1)"
    unfolding assms(3) [symmetric]
    by (simp add: remove_nodes_by_ids_def log_op_def accepts_log assms(2) db_bind_def t)
  moreover have "k = card {nid \<in> set ids. sp_nodes (abs_db d) nid \<noteq> None}"
    using take_nodes_effect(2) [OF ok t] remove_stale_count [OF ok, of ids "[]"] abs_none [OF assms(1)]
    by simp
  moreover have "abs_db d' = spec_remove (set ids) (abs_db d)"
    using remove_nodes_by_ids_logged [OF assms(1,2), of ids] assms(3) by (simp add: logged_as_def)
  moreover have "db_ok who d'" using remove_nodes_by_ids_ok [OF assms(1), of ids] assms(3) by simp
  ultimately show ?thesis by (simp add: spec_remove_def)
qed

theorem remove_nodes_exact_witness:
  "sp_nodes (abs_db (snd (remove_nodes_by_ids [''1'', ''1'', ''9''] sample_db))) ''1'' = None"
  using remove_nodes_exact [OF sample_db_ok sample_db_accepts prod.collapse [symmetric],
      of "[''1'', ''1'', ''9'']"]
  by simp

section \<open>A sensor's rescan\<close>

lemma spec_ops_other_node:
  "\<forall>n \<in> set ns. gn_id n \<noteq> nid \<Longrightarrow>
    sp_nodes (spec_ops (map UpsertNode ns @ map UpsertEdge es) s) nid = sp_nodes s nid"
proof -
  have "sp_nodes (spec_ops (map UpsertEdge es) t) nid = sp_nodes t nid" for t
    by (induction es arbitrary: t) simp_all
  moreover assume "\<forall>n \<in> set ns. gn_id n \<noteq> nid"
  then have "sp_nodes (spec_ops (map UpsertNode ns) s) nid = sp_nodes s nid"
    by (induction ns arbitrary: s) (auto simp: spec_put_def split: option.split)
  ultimately show ?thesis by simp
qed

lemma spec_ops_keep_edges:
  "sp_edges s \<subseteq># sp_edges (spec_ops (map UpsertNode ns @ map UpsertEdge es) s)"
proof -
  have "sp_edges (spec_ops (map UpsertNode ns) s) = sp_edges s"
    by (induction ns arbitrary: s) (simp_all add: spec_put_def split: option.split)
  moreover have "sp_edges t \<subseteq># sp_edges (spec_ops (map UpsertEdge es) t)" for t
  proof (induction es arbitrary: t)
    case (Cons e es)
    have "sp_edges t \<subseteq># sp_edges (spec_add_edge e t)" by (simp add: spec_add_edge_def)
    with Cons [of "spec_add_edge e t"] show ?case by (simp add: subset_mset.order_trans)
  qed simp
  ultimately show ?thesis by (metis spec_ops_simps(3))
qed

lemma owned_ids_spec:
  assumes "db_ok who d"
  shows "nid \<in> set (owned_ids owner d) \<longleftrightarrow>
     (\<exists>n. sp_nodes (abs_db d) nid = Some n \<and> sensor_owner_of n = Some owner)"
proof -
  have dist: "distinct (map fst (g_nodes (db_graph d)))" by (rule db_ok_filed [OF assms])
  have "sp_nodes (abs_db d) nid = Some n \<longleftrightarrow> n \<in> set (node_weights (db_graph d)) \<and> gn_id n = nid" for n
    using db_ok_lookup [OF assms] unfolding node_weights_iff [OF dist]
    by (auto simp: abs_db_def bind_eq_Some_conv)
  then show ?thesis by (auto simp: owned_ids_def)
qed

text \<open>
  C5: A sensor's rescan (\<open>replace_sensor_output\<close>) removes the nodes that sensor owns and stores
  the new ones: outside the ids of the new nodes, a node survives exactly when the sensor does not
  own it, and unchanged, except that the rescan of the entry points takes the entry mark from every
  node; every edge between survivors survives; and the returned count is the number of nodes the
  sensor owned.
\<close>

theorem sensor_rescan_exact:
  assumes "petgraph_ok pg" "db_ok who d" "accepts d" "\<forall>n \<in> set nodes. who (gn_id n) = (gn_name n, gn_path n)"
    and "replace_sensor_output pg owner nodes edges d = (r, d')"
  defines "owned \<equiv> \<lambda>nid. \<exists>n. sp_nodes (abs_db d) nid = Some n \<and> sensor_owner_of n = Some owner"
  shows "r = Inr (card {nid. owned nid})
     \<and> (\<forall>nid. (\<forall>n \<in> set nodes. gn_id n \<noteq> nid) \<longrightarrow>
          sp_nodes (abs_db d') nid =
            (if owned nid then None
             else if owner = EntryPointSensor then map_option (\<lambda>n. n\<lparr>gn_entry := None\<rparr>) (sp_nodes (abs_db d) nid)
             else sp_nodes (abs_db d) nid))
     \<and> filter_mset (\<lambda>e. \<not> owned (ge_source_id e) \<and> \<not> owned (ge_target_id e)) (sp_edges (abs_db d))
         \<subseteq># sp_edges (abs_db d')"
proof -
  have named: "\<forall>n \<in> set nodes. named_by who n" using assms(4) by (simp add: named_by_def)
  let ?kept = "spec_unmark owner (spec_remove (set (owned_ids owner d)) (abs_db d))"
  from sensor_rescan_effect [OF assms(1-3) named, of owner edges]
  have eff: "r = Inr (length (fst (remove_stale (owned_ids owner d) d [])))"
    "abs_db d' = spec_ops (map UpsertNode nodes @ map UpsertEdge edges) ?kept" by (auto simp: assms(5))
  have own: "owned nid \<longleftrightarrow> nid \<in> set (owned_ids owner d)" for nid
    unfolding owned_def owned_ids_spec [OF assms(2)] ..
  have "hm_get (db_index d) nid \<noteq> None" if "nid \<in> set (owned_ids owner d)" for nid
    using that abs_none [OF assms(2), of nid] own [of nid] unfolding owned_def by auto
  then have "{nid \<in> set (owned_ids owner d). hm_get (db_index d) nid \<noteq> None} = {nid. owned nid}"
    by (auto simp: own)
  then have "r = Inr (card {nid. owned nid})"
    using remove_stale_count [OF assms(2), of "owned_ids owner d" "[]"] eff(1) by simp
  moreover have "filter_mset (\<lambda>e. \<not> owned (ge_source_id e) \<and> \<not> owned (ge_target_id e)) (sp_edges (abs_db d))
      \<subseteq># sp_edges (abs_db d')"
  proof -
    have "sp_edges ?kept = filter_mset (\<lambda>e. \<not> owned (ge_source_id e) \<and> \<not> owned (ge_target_id e)) (sp_edges (abs_db d))"
      by (simp add: own spec_unmark_def spec_remove_def)
    then show ?thesis using spec_ops_keep_edges [of ?kept nodes edges] by (simp only: eff(2))
  qed
  moreover have "sp_nodes (abs_db d') nid =
      (if owned nid then None
       else if owner = EntryPointSensor then map_option (\<lambda>n. n\<lparr>gn_entry := None\<rparr>) (sp_nodes (abs_db d) nid)
       else sp_nodes (abs_db d) nid)"
    if "\<forall>n \<in> set nodes. gn_id n \<noteq> nid" for nid
    unfolding eff(2) spec_ops_other_node [OF that] by (simp add: own spec_unmark_def spec_remove_def)
  ultimately show ?thesis by blast
qed

definition topic_node :: graph_node where
  "topic_node = (plain_node ''t'' ''orders'' ''src/a.rs'')\<lparr>gn_type := NT_Topic, gn_contract := []\<rparr>"

definition topic_db :: graph_db where
  "topic_db = snd (insert_nodes_batch next_index [topic_node] (db_empty True False))"

lemma topic_db_facts:
  "db_ok (\<lambda>_. (''orders'', ''src/a.rs'')) topic_db" "accepts topic_db"
  "sp_nodes (abs_db topic_db) ''t'' = Some topic_node"
proof -
  let ?who = "\<lambda>_ :: string. (''orders'', ''src/a.rs'')"
  have n: "\<forall>n \<in> set [topic_node]. named_by ?who n" by (simp add: named_by_def topic_node_def)
  show "db_ok ?who topic_db"
    unfolding topic_db_def by (rule insert_nodes_batch_ok [OF next_index_ok db_ok_empty n])
  from insert_nodes_batch_logged [OF next_index_ok db_ok_empty accepts_empty n]
  have "logged_as ?who [UpsertNode topic_node] (db_empty True False) topic_db"
    by (simp add: topic_db_def)
  then show "accepts topic_db" "sp_nodes (abs_db topic_db) ''t'' = Some topic_node"
    by (simp_all add: logged_as_def spec_put_def abs_db_def db_empty_def topic_node_def)
qed

theorem sensor_rescan_exact_witness:
  "sensor_owner_of topic_node = Some EventSensor
   \<and> sp_nodes (abs_db topic_db) ''t'' = Some topic_node
   \<and> sp_nodes (abs_db (snd (replace_sensor_output next_index EventSensor [] [] topic_db))) ''t'' = None"
proof -
  have own: "sensor_owner_of topic_node = Some EventSensor"
    by (simp add: sensor_owner_of_def topic_node_def derive_owner_def late_owner_def plain_node_def
        node_new_in_def topic_read_prefix_def starts_with_def)
  with sensor_rescan_exact [OF next_index_ok topic_db_facts(1,2) _ prod.collapse [symmetric],
      of "[]" EventSensor "[]"] topic_db_facts(3)
  show ?thesis by simp
qed

section \<open>The lenient batch\<close>

lemma batch_edges_effect:
  "db_pending_external (fst (fold batch_edge es dk)) =
     db_pending_external (fst dk)
       @ filter (\<lambda>e. hm_get (db_index (fst dk)) (ge_source_id e) \<noteq> None
                   \<and> hm_get (db_index (fst dk)) (ge_target_id e) = None) es
   \<and> snd (fold batch_edge es dk) =
     snd dk + length (filter (\<lambda>e. hm_get (db_index (fst dk)) (ge_source_id e) = None) es)"
proof (induction es arbitrary: dk)
  case (Cons e es)
  obtain d k where dk: "dk = (d, k)" by (cases dk)
  show ?case
    using Cons.IH [of "batch_edge e dk"]
    by (auto simp: dk batch_edge_def split: option.splits)
qed simp

text \<open>
  \<open>insert_edges_batch\<close> sorts every edge of the batch into one of three: an edge with both ends
  in the graph is stored unless its identity is already there; one whose target is missing is
  parked, in order, for the federation backend; one whose source is missing is dropped, and
  the result counts those.
\<close>

theorem lenient_batch_sorts:
  assumes "db_ok who d" "accepts d" "insert_edges_batch es d = (r, d')"
  shows "r = Inr (length (filter (\<lambda>e. sp_nodes (abs_db d) (ge_source_id e) = None) es))
     \<and> db_pending_external d' = db_pending_external d
         @ filter (\<lambda>e. sp_nodes (abs_db d) (ge_source_id e) \<noteq> None
                     \<and> sp_nodes (abs_db d) (ge_target_id e) = None) es
     \<and> abs_db d' = fold spec_add_edge es (abs_db d)"
proof -
  let ?d = "d\<lparr>db_wal := db_wal d @ map UpsertEdge (filter (both_local d) es)\<rparr>"
  have eq: "(r, d') = (let (d', dropped) = fold batch_edge es (?d, 0) in (Inr dropped, d'))"
    unfolding assms(3) [symmetric] by (simp add: insert_edges_batch_def accepts_log assms(2) db_bind_def)
  have "spec_ops (map UpsertEdge es) s = fold spec_add_edge es s" for s
    by (induction es arbitrary: s) simp_all
  moreover have "abs_db d' = spec_ops (map UpsertEdge es) (abs_db d)"
    using batch_edges_refine [of who "(?d, 0)" es] assms(1) eq by (simp add: split_beta)
  ultimately show ?thesis
    using eq batch_edges_effect [of es "(?d, 0)"] abs_none [OF assms(1)] by (simp add: split_beta)
qed

theorem lenient_batch_sorts_witness:
  "fst (insert_edges_batch [edge_new ET_Calls ''9'' ''1'', edge_new ET_Calls ''t'' ''9''] topic_db) = Inr 1
   \<and> db_pending_external (snd (insert_edges_batch
        [edge_new ET_Calls ''9'' ''1'', edge_new ET_Calls ''t'' ''9''] topic_db))
      = db_pending_external topic_db @ [edge_new ET_Calls ''t'' ''9'']"
proof -
  have "abs_db topic_db = spec_ops [UpsertNode topic_node] (abs_db (db_empty True False))"
    using insert_nodes_batch_logged [OF next_index_ok db_ok_empty accepts_empty,
        of "[topic_node]" "\<lambda>_. (''orders'', ''src/a.rs'')"]
    by (simp add: topic_db_def logged_as_def named_by_def topic_node_def)
  then have nodes: "sp_nodes (abs_db topic_db) = [''t'' \<mapsto> topic_node]"
    by (simp add: fun_eq_iff spec_put_def abs_db_def db_empty_def topic_node_def)
  from lenient_batch_sorts [OF topic_db_facts(1,2) prod.collapse [symmetric],
      of "[edge_new ET_Calls ''9'' ''1'', edge_new ET_Calls ''t'' ''9'']"]
  show ?thesis by (simp add: nodes edge_new_def)
qed

section \<open>Orphan pruning\<close>

text \<open>The directories above a path: what precedes each of its slashes.\<close>

definition parent_dirs :: "string \<Rightarrow> string set" where
  "parent_dirs p = {take i p |i. i < length p \<and> p ! i = CHR ''/''}"

lemma rfind_slash_None: "rfind ''/'' p = None \<longleftrightarrow> parent_dirs p = {}"
  unfolding rfind_None parent_dirs_def by (auto simp: sublist_def in_set_conv_nth)
    (metis append_Cons append_Nil id_take_nth_drop, metis nth_append_length length_append_singleton
      length_append less_add_Suc1 add_Suc_right length_Cons)

lemma rfind_slash_Some:
  "rfind ''/'' p = Some i \<Longrightarrow> i < length p \<and> p ! i = CHR ''/''
    \<and> (\<forall>j. i < j \<longrightarrow> j < length p \<longrightarrow> p ! j \<noteq> CHR ''/'')"
proof (induction p arbitrary: i)
  case (Cons c p)
  show ?case
  proof (cases "rfind ''/'' p")
    case (Some k)
    with Cons.prems have i: "i = Suc k" by simp
    from Cons.IH [OF Some] show ?thesis unfolding i by (auto simp: nth_Cons split: nat.split)
  next
    case None
    with Cons.prems have "i = 0" "c = CHR ''/''" by (auto split: if_splits)
    moreover have "p ! j \<noteq> CHR ''/''" if "j < length p" for j
      using None that by (auto simp: rfind_slash_None parent_dirs_def)
    ultimately show ?thesis by (auto simp: nth_Cons split: nat.split)
  qed
qed simp

lemma parent_dirs_step:
  assumes "rfind ''/'' p = Some i"
  shows "parent_dirs p = insert (take i p) (parent_dirs (take i p))"
proof -
  from rfind_slash_Some [OF assms] have i: "i < length p" "p ! i = CHR ''/''"
    "\<And>j. i < j \<Longrightarrow> j < length p \<Longrightarrow> p ! j \<noteq> CHR ''/''" by auto
  have "j < length p \<and> p ! j = CHR ''/'' \<longleftrightarrow> j = i \<or> j < i \<and> take i p ! j = CHR ''/''" for j
    using i by (metis less_trans linorder_less_linear nth_take)
  then have "parent_dirs p = {take j p |j. j = i \<or> j < i \<and> take i p ! j = CHR ''/''}"
    by (simp add: parent_dirs_def)
  moreover have "parent_dirs (take i p) = {take j p |j. j < i \<and> take i p ! j = CHR ''/''}"
    unfolding parent_dirs_def using i(1) by (intro Collect_cong ex_cong) (auto simp: min_def)
  ultimately show ?thesis by auto
qed

lemma parent_dirs_trans: "d \<in> parent_dirs p \<Longrightarrow> parent_dirs d \<subseteq> parent_dirs p"
  by (auto simp: parent_dirs_def)

lemma add_dirs_set:
  "\<forall>d \<in> set live. length d < length dir \<longrightarrow> parent_dirs d \<subseteq> set live \<Longrightarrow>
    set (add_dirs dir live) = set live \<union> parent_dirs dir"
proof (induction dir live rule: add_dirs.induct)
  case (1 dir live)
  show ?case
  proof (cases "rfind ''/'' dir")
    case None
    moreover from None have "parent_dirs dir = {}" by (simp add: rfind_slash_None)
    ultimately show ?thesis by (subst add_dirs.simps) simp
  next
    case (Some i)
    note step = parent_dirs_step [OF Some]
    have len: "length (take i dir) < length dir" using rfind_slash_Some [OF Some] by simp
    show ?thesis
    proof (cases "take i dir \<in> set live")
      case True
      with "1.prems" len have "parent_dirs (take i dir) \<subseteq> set live" by blast
      with True Some show ?thesis by (subst add_dirs.simps) (auto simp: step)
    next
      case False
      have "\<forall>d \<in> set (take i dir # live). length d < length (take i dir) \<longrightarrow>
          parent_dirs d \<subseteq> set (take i dir # live)"
        using "1.prems" len by fastforce
      from "1.IH" [OF Some False this]
      have "set (add_dirs (take i dir) (take i dir # live))
          = set (take i dir # live) \<union> parent_dirs (take i dir)" .
      with False Some show ?thesis by (subst add_dirs.simps) (auto simp: step)
    qed
  qed
qed

text \<open>
  The directories \<open>prune_orphans\<close> keeps namespaces for are exactly those above some tracked
  file, although the walk up from each file stops at the first directory already collected.
\<close>

theorem live_dirs_exact: "set (live_dirs tracked) = (\<Union>p \<in> set tracked. parent_dirs p)"
proof -
  have "\<forall>d \<in> set live. parent_dirs d \<subseteq> set live \<Longrightarrow>
      set (fold add_dirs tracked live) = set live \<union> (\<Union>p \<in> set tracked. parent_dirs p)" for live
  proof (induction tracked arbitrary: live)
    case (Cons p tracked)
    have add: "set (add_dirs p live) = set live \<union> parent_dirs p"
      using Cons.prems by (intro add_dirs_set) blast
    then have "\<forall>d \<in> set (add_dirs p live). parent_dirs d \<subseteq> set (add_dirs p live)"
      using Cons.prems parent_dirs_trans by blast
    from Cons.IH [OF this] show ?case by (auto simp: add)
  qed simp
  from this [of "[]"] show ?thesis by (simp add: live_dirs_def)
qed

section \<open>Where the code departs from its comments\<close>

text \<open>
  \<open>reset\<close> leaves the name index as it was. After a node named \<open>main\<close> was stored, the
  database reset, and a node named \<open>run\<close> stored, looking up \<open>main\<close> answers the node \<open>run\<close>.
\<close>

theorem reset_keeps_stale_names:
  "map gn_name (find_all_nodes_by_name ''main''
     (snd (upsert_node next_index (plain_node ''2'' ''run'' ''src/b.rs'')
       (snd (reset
         (snd (upsert_node next_index (plain_node ''1'' ''main'' ''src/a.rs'')
           (db_empty True False)))))))) = [''run'']"
  by code_simp

definition site_edge :: "nat \<Rightarrow> graph_edge" where
  "site_edge line = (edge_new ET_Produces ''1'' ''t'')\<lparr>ge_site := Some \<lparr>ss_path = ''src/a.rs'', ss_line = line\<rparr>\<rparr>"

text \<open>
  Two \<open>Produces\<close> edges with different call sites are different edges, and the batch insert
  stores both; re-indexing the file of their target (\<open>replace_nodes_for_paths\<close> with the same
  node) puts back only one of them, because the edges to restore are compared by type alone.
\<close>

theorem reindex_drops_call_site:
  "let a = plain_node ''1'' ''publish'' ''src/a.rs''; t = plain_node ''t'' ''orders'' ''src/t.rs'';
       d = snd (insert_edges_batch [site_edge 3, site_edge 9]
             (snd (insert_nodes_batch next_index [a, t] (db_empty True False))));
       d' = snd (replace_nodes_for_paths next_index [''src/t.rs''] [t] d) in
   \<not> same_edge_identity (site_edge 3) (site_edge 9)
   \<and> edge_weights (db_graph d) = [site_edge 3, site_edge 9]
   \<and> edge_weights (db_graph d') = [site_edge 3]"
  by code_simp

text \<open>
  Inserting the same edge twice with \<open>insert_edge\<close> stores two parallel edges and logs both,
  but replaying that log over the same snapshot gives one: the recovered graph is not the
  graph that was in memory.
\<close>

theorem insert_edge_twice_diverges:
  "let d = snd (insert_nodes_batch next_index
             [plain_node ''1'' ''f'' ''src/a.rs'', plain_node ''2'' ''g'' ''src/a.rs''] (db_empty True False));
       e = edge_new ET_Calls ''1'' ''2''; d2 = snd (insert_edge e (snd (insert_edge e d)));
       ops = drop (length (db_wal d)) (db_wal d2) in
   edge_weights (db_graph d2) = [e, e] \<and> ops = [UpsertEdge e, UpsertEdge e]
   \<and> edge_weights (db_graph (snd (load_from_disk next_index (build_state d) ops (db_empty True False)))) = [e]"
  by code_simp

end
