(* ===== verification/Graph_Props.thy ===== *)
theory Graph_Props
  imports Store_Effects
begin

text \<open>
  The properties of the graph's queries. Walks are stated over node ids and the edges of the
  graph, without petgraph's indices: a walk's result does not depend on the order in which
  edges are visited.
\<close>

section \<open>Walks over ids\<close>

definition edge_rel :: "direction \<Rightarrow> (graph_edge \<Rightarrow> bool) \<Rightarrow> graph_db \<Rightarrow> (string \<times> string) set" where
  "edge_rel dir P d =
     {(a, b). \<exists>e \<in> set (edge_weights (db_graph d)). P e \<and>
        (case dir of Outgoing \<Rightarrow> a = ge_source_id e \<and> b = ge_target_id e
         | Incoming \<Rightarrow> a = ge_target_id e \<and> b = ge_source_id e)}"

definition distance :: "(string \<times> string) set \<Rightarrow> string \<Rightarrow> string \<Rightarrow> nat \<Rightarrow> bool" where
  "distance R a b k \<longleftrightarrow> (a, b) \<in> R ^^ k \<and> (\<forall>j < k. (a, b) \<notin> R ^^ j)"

definition picked_succ ::
    "petgraph \<Rightarrow> (graph_edge \<Rightarrow> bool) \<Rightarrow> direction \<Rightarrow> pgraph \<Rightarrow> nat \<Rightarrow> nat list" where
  "picked_succ pg P dir g i =
     map (far_end dir) (filter (\<lambda>(_, _, w). P w) (edges_directed pg g i dir))"

lemma hops_edge:
  "(x, y) \<in> hops (picked_succ pg P dir g) \<longleftrightarrow>
     (\<exists>e. P e \<and> (case dir of Outgoing \<Rightarrow> (x, y, e) | Incoming \<Rightarrow> (y, x, e)) \<in> set (g_edges g))"
  by (cases dir) (force simp: hops_def picked_succ_def set_edges_directed far_end_def)+

lemma db_ok_ends:
  assumes "db_ok who d" "(s, t, e) \<in> set (g_edges (db_graph d))"
  obtains m n where "g_node (db_graph d) s = Some m" "gn_id m = ge_source_id e"
    "g_node (db_graph d) t = Some n" "gn_id n = ge_target_id e"
  using assms by (fastforce simp: db_ok_def coherent_def graph_ok_def edges_ok_def)

lemma db_ok_unique:
  "db_ok who d \<Longrightarrow> g_node (db_graph d) i = Some m \<Longrightarrow> g_node (db_graph d) j = Some n \<Longrightarrow>
    gn_id m = gn_id n \<Longrightarrow> i = j"
  using db_ok_lookup by (metis option.inject option.map(2))

lemma hop_ids:
  assumes "db_ok who d" "g_node (db_graph d) x = Some m" "g_node (db_graph d) y = Some n"
  shows "(x, y) \<in> hops (picked_succ pg P dir (db_graph d)) \<longleftrightarrow> (gn_id m, gn_id n) \<in> edge_rel dir P d"
proof
  assume "(x, y) \<in> hops (picked_succ pg P dir (db_graph d))"
  then obtain e where e: "P e"
    "(case dir of Outgoing \<Rightarrow> (x, y, e) | Incoming \<Rightarrow> (y, x, e)) \<in> set (g_edges (db_graph d))"
    unfolding hops_edge by blast
  from e(2) have "e \<in> set (edge_weights (db_graph d))"
    by (cases dir) (force simp: edge_weights_def)+
  with e assms show "(gn_id m, gn_id n) \<in> edge_rel dir P d"
    by (cases dir) (auto simp: edge_rel_def elim!: db_ok_ends [OF assms(1)])
next
  assume "(gn_id m, gn_id n) \<in> edge_rel dir P d"
  then obtain e where e: "e \<in> set (edge_weights (db_graph d))" "P e"
    "case dir of Outgoing \<Rightarrow> gn_id m = ge_source_id e \<and> gn_id n = ge_target_id e
     | Incoming \<Rightarrow> gn_id m = ge_target_id e \<and> gn_id n = ge_source_id e"
    by (auto simp: edge_rel_def)
  from e(1) obtain s t where st: "(s, t, e) \<in> set (g_edges (db_graph d))"
    by (auto simp: edge_weights_def)
  obtain p q where "g_node (db_graph d) s = Some p" "gn_id p = ge_source_id e"
    "g_node (db_graph d) t = Some q" "gn_id q = ge_target_id e" by (rule db_ok_ends [OF assms(1) st])
  with e(3) assms db_ok_unique [OF assms(1)]
  have "case dir of Outgoing \<Rightarrow> s = x \<and> t = y | Incoming \<Rightarrow> t = x \<and> s = y"
    by (cases dir) auto
  with st e(2) show "(x, y) \<in> hops (picked_succ pg P dir (db_graph d))"
    unfolding hops_edge by (cases dir) auto
qed

lemma hop_live:
  assumes "db_ok who d" "(x, y) \<in> hops (picked_succ pg P dir (db_graph d))"
  obtains m n where "g_node (db_graph d) x = Some m" "g_node (db_graph d) y = Some n"
  using assms unfolding hops_edge by (cases dir) (auto elim: db_ok_ends [OF assms(1)])

lemma edge_rel_live:
  assumes "db_ok who d" "(a, b) \<in> edge_rel dir P d"
  obtains i m where "g_node (db_graph d) i = Some m" "gn_id m = a"
proof -
  from assms(2) obtain e s t where "(s, t, e) \<in> set (g_edges (db_graph d))"
    "case dir of Outgoing \<Rightarrow> a = ge_source_id e | Incoming \<Rightarrow> a = ge_target_id e"
    by (cases dir) (auto simp: edge_rel_def edge_weights_def)
  with that show ?thesis by (cases dir) (auto elim: db_ok_ends [OF assms(1)])
qed

lemma walk_ids:
  assumes "db_ok who d" "g_node (db_graph d) x = Some m"
  shows "g_node (db_graph d) y = Some n \<Longrightarrow>
    (x, y) \<in> hops (picked_succ pg P dir (db_graph d)) ^^ k \<longleftrightarrow> (gn_id m, gn_id n) \<in> edge_rel dir P d ^^ k"
proof (induction k arbitrary: y n)
  case 0
  then show ?case using db_ok_unique [OF assms(1,2) 0] assms(2) by auto
next
  case (Suc k)
  show ?case
  proof
    assume "(x, y) \<in> hops (picked_succ pg P dir (db_graph d)) ^^ Suc k"
    then obtain z where z: "(x, z) \<in> hops (picked_succ pg P dir (db_graph d)) ^^ k"
      "(z, y) \<in> hops (picked_succ pg P dir (db_graph d))" by auto
    from hop_live [OF assms(1) z(2)] obtain p where p: "g_node (db_graph d) z = Some p" by blast
    from Suc.IH [OF p] z(1) have "(gn_id m, gn_id p) \<in> edge_rel dir P d ^^ k" by blast
    moreover from hop_ids [OF assms(1) p Suc.prems] z(2) have "(gn_id p, gn_id n) \<in> edge_rel dir P d" by blast
    ultimately show "(gn_id m, gn_id n) \<in> edge_rel dir P d ^^ Suc k" by auto
  next
    assume "(gn_id m, gn_id n) \<in> edge_rel dir P d ^^ Suc k"
    then obtain c where c: "(gn_id m, c) \<in> edge_rel dir P d ^^ k" "(c, gn_id n) \<in> edge_rel dir P d" by auto
    from edge_rel_live [OF assms(1) c(2)] obtain z p where p: "g_node (db_graph d) z = Some p" "gn_id p = c" .
    from Suc.IH [OF p(1)] c(1) p(2) have "(x, z) \<in> hops (picked_succ pg P dir (db_graph d)) ^^ k" by blast
    moreover from hop_ids [OF assms(1) p(1) Suc.prems] c(2) p(2)
    have "(z, y) \<in> hops (picked_succ pg P dir (db_graph d))" by blast
    ultimately show "(x, y) \<in> hops (picked_succ pg P dir (db_graph d)) ^^ Suc k" by auto
  qed
qed

lemma hop_dist_ids:
  assumes "db_ok who d" "g_node (db_graph d) x = Some m" "g_node (db_graph d) y = Some n"
  shows "hop_dist (picked_succ pg P dir (db_graph d)) x y k \<longleftrightarrow>
    distance (edge_rel dir P d) (gn_id m) (gn_id n) k"
  unfolding hop_dist_def distance_def walk_ids [OF assms] ..

lemma typed_picked: "typed_succ pg g ety dir = picked_succ pg (\<lambda>w. ge_type w = ety) dir g"
  by (simp add: fun_eq_iff typed_succ_def picked_succ_def)

lemma out_picked: "out_succ pg g = picked_succ pg (\<lambda>_. True) Outgoing g"
  by (simp add: fun_eq_iff out_succ_def picked_succ_def case_prod_unfold)

lemma has_node_lookup:
  assumes "db_ok who d" "has_node start d"
  obtains i m where "hm_get (db_index d) start = Some i" "g_node (db_graph d) i = Some m" "gn_id m = start"
proof -
  from assms(2) obtain i where i: "hm_get (db_index d) start = Some i" by (auto simp: has_node_def)
  from db_ok_node [OF assms(1) i] obtain m where "g_node (db_graph d) i = Some m" "gn_id m = start" .
  with i that show ?thesis by blast
qed

section \<open>Traversals\<close>

text \<open>
  C11: \<open>traverse\<close> returns exactly the nodes whose distance from the start, along edges of the
  type in the direction, lies within the given bounds and is not zero. (The end of the
  source's half-open \<open>Range\<close> counts as within.)
\<close>

theorem traverse_exact:
  assumes "db_ok who d" "has_node start d"
  shows "gn_id ` set (traverse pg d start ety mind maxd dir) =
     {b. \<exists>k. 0 < k \<and> mind \<le> k \<and> k \<le> maxd \<and> distance (edge_rel dir (\<lambda>w. ge_type w = ety) d) start b k
        \<and> has_node b d}"
proof -
  obtain i m where i: "hm_get (db_index d) start = Some i" "g_node (db_graph d) i = Some m" "gn_id m = start"
    by (rule has_node_lookup [OF assms])
  note dist = hop_dist_ids [OF assms(1) i(2), of _ _ pg "\<lambda>w. ge_type w = ety" dir, folded typed_picked]
  show ?thesis (is "?L = ?R")
  proof (intro equalityI subsetI)
    fix b assume "b \<in> ?L"
    then obtain n y k where n: "b = gn_id n" "0 < k" "mind \<le> k" "k \<le> maxd"
      "hop_dist (typed_succ pg (db_graph d) ety dir) i y k" "g_node (db_graph d) y = Some n"
      unfolding traverse_correct [OF assms(1) i(1)] by blast
    then show "b \<in> ?R"
      using dist [OF n(6)] i(3) db_ok_lookup [OF assms(1), of "gn_id n" y] by (auto simp: has_node_def)
  next
    fix b assume "b \<in> ?R"
    then obtain k where k: "0 < k" "mind \<le> k" "k \<le> maxd" "has_node b d"
      "distance (edge_rel dir (\<lambda>w. ge_type w = ety) d) start b k" by blast
    obtain y n where y: "g_node (db_graph d) y = Some n" "gn_id n = b"
      using has_node_lookup [OF assms(1) k(4)] by metis
    then have "n \<in> set (traverse pg d start ety mind maxd dir)"
      unfolding traverse_correct [OF assms(1) i(1)] using dist [OF y(1)] k i(3) by auto
    with y(2) show "b \<in> ?L" by blast
  qed
qed

definition walk_db :: graph_db where
  "walk_db =
     fold (db_step next_index)
       [EvInsertNodes [plain_node ''1'' ''f'' ''src/a.rs'', plain_node ''2'' ''g'' ''src/a.rs'',
          plain_node ''3'' ''h'' ''src/b.rs''],
        EvInsertEdges [edge_new ET_Calls ''1'' ''2'', edge_new ET_Calls ''2'' ''3'', edge_new ET_Uses ''3'' ''1'']]
       (db_empty True False)"

definition walk_who :: "string \<Rightarrow> string \<times> string" where
  "walk_who nid =
     (if nid = ''1'' then (''f'', ''src/a.rs'') else if nid = ''2'' then (''g'', ''src/a.rs'')
      else (''h'', ''src/b.rs''))"

lemma walk_db_ok: "db_ok walk_who walk_db"
  unfolding walk_db_def by (rule run_db_ok [OF next_index_ok]) (simp add: walk_who_def)

lemma walk_db_nodes: "has_node ''1'' walk_db" "has_node ''2'' walk_db" "has_node ''3'' walk_db"
  by code_simp+

lemma walk_db_edges:
  "edge_weights (db_graph walk_db) =
     [edge_new ET_Calls ''1'' ''2'', edge_new ET_Calls ''2'' ''3'', edge_new ET_Uses ''3'' ''1'']"
  by code_simp

theorem traverse_exact_witness:
  "gn_id ` set (traverse next_index walk_db ''1'' ET_Calls 1 5 Outgoing) =
     {b. \<exists>k. 0 < k \<and> 1 \<le> k \<and> k \<le> 5
        \<and> distance (edge_rel Outgoing (\<lambda>w. ge_type w = ET_Calls) walk_db) ''1'' b k \<and> has_node b walk_db}
   \<and> map gn_id (traverse next_index walk_db ''1'' ET_Calls 1 5 Outgoing) = [''2'', ''3'']"
proof
  show "map gn_id (traverse next_index walk_db ''1'' ET_Calls 1 5 Outgoing) = [''2'', ''3'']" by code_simp
qed (rule traverse_exact [OF walk_db_ok walk_db_nodes(1)])

definition near_ids :: "string \<Rightarrow> nat \<Rightarrow> graph_db \<Rightarrow> string set" where
  "near_ids center radius d =
     {b. (\<exists>k \<le> radius. distance (edge_rel Outgoing (\<lambda>_. True) d) center b k) \<and> has_node b d}"

text \<open>
  \<open>subgraph_around\<close> returns the nodes within the radius of the centre along outgoing edges,
  the centre included, and beside each node exactly its edges to nodes of that set.
\<close>

theorem subgraph_around_exact:
  assumes "db_ok who d" "has_node center d"
  shows "(\<lambda>(n, _). gn_id n) ` set (subgraph_around pg d center radius) = near_ids center radius d
     \<and> (\<forall>(n, es) \<in> set (subgraph_around pg d center radius). set es =
          {e \<in> set (edge_weights (db_graph d)).
             ge_source_id e = gn_id n \<and> ge_target_id e \<in> near_ids center radius d})"
proof -
  define near where "near = near_ids center radius d"
  let ?g = "db_graph d"
  obtain i m where i: "hm_get (db_index d) center = Some i" "g_node ?g i = Some m" "gn_id m = center"
    by (rule has_node_lookup [OF assms(1,2)])
  define ind where "ind = subgraph_loop pg ?g radius [(i, 0)] {i} []"
  have "dom [i \<mapsto> (0::nat)] = {i}" by simp
  with subgraph_loop_set [OF bfs_inv_start, of "{i}" i "[]" pg ?g radius]
  have ind: "set ind = {y. \<exists>k \<le> radius. hop_dist (out_succ pg ?g) i y k}" by (simp add: ind_def)
  have near: "y \<in> set ind \<longleftrightarrow> gn_id n \<in> near" if "g_node ?g y = Some n" for y n
  proof -
    have "has_node (gn_id n) d" using db_ok_lookup [OF assms(1), of "gn_id n" y] that by (simp add: has_node_def)
    then show ?thesis
      using hop_dist_ids [OF assms(1) i(2) that, of pg "\<lambda>_. True" Outgoing] i(3)
      unfolding near_def near_ids_def ind out_picked by auto
  qed
  let ?edges = "\<lambda>j. map (\<lambda>(_, _, e). e) (filter (\<lambda>(_, t, _). t \<in> set ind) (edges_directed pg ?g j Outgoing))"
  have sub: "set (subgraph_around pg d center radius) =
      {(n, ?edges j) |j n. j \<in> set ind \<and> g_node ?g j = Some n}"
    by (force simp: subgraph_around_def i(1) ind_def [symmetric] Let_def set_map_filter_Some)
  have "near \<subseteq> (\<lambda>(n, _). gn_id n) ` set (subgraph_around pg d center radius)"
  proof
    fix b assume b: "b \<in> near"
    then obtain y n where y: "g_node ?g y = Some n" "gn_id n = b"
      unfolding near_def near_ids_def using has_node_lookup [OF assms(1)] by blast
    with near b have "(n, ?edges y) \<in> set (subgraph_around pg d center radius)" unfolding sub by blast
    with y(2) show "b \<in> (\<lambda>(n, _). gn_id n) ` set (subgraph_around pg d center radius)" by force
  qed
  moreover have "(\<lambda>(n, _). gn_id n) ` set (subgraph_around pg d center radius) \<subseteq> near"
    using near by (auto simp: sub)
  moreover have "set (?edges j) =
      {e \<in> set (edge_weights ?g). ge_source_id e = gn_id n \<and> ge_target_id e \<in> near}"
    if n: "g_node ?g j = Some n" for j n
  proof (intro equalityI subsetI)
    fix e assume "e \<in> set (?edges j)"
    then obtain t where t: "t \<in> set ind" "(j, t, e) \<in> set (g_edges ?g)"
      by (auto simp: set_edges_directed)
    obtain p q where "g_node ?g j = Some p" "gn_id p = ge_source_id e" "g_node ?g t = Some q"
      "gn_id q = ge_target_id e" by (rule db_ok_ends [OF assms(1) t(2)])
    with near [of t q] t n show "e \<in> {e \<in> set (edge_weights ?g). ge_source_id e = gn_id n \<and> ge_target_id e \<in> near}"
      by (force simp: edge_weights_def)
  next
    fix e assume "e \<in> {e \<in> set (edge_weights ?g). ge_source_id e = gn_id n \<and> ge_target_id e \<in> near}"
    then obtain s t where t: "(s, t, e) \<in> set (g_edges ?g)" "ge_source_id e = gn_id n" "ge_target_id e \<in> near"
      by (auto simp: edge_weights_def)
    obtain p q where pq: "g_node ?g s = Some p" "gn_id p = ge_source_id e" "g_node ?g t = Some q"
      "gn_id q = ge_target_id e" by (rule db_ok_ends [OF assms(1) t(1)])
    have "s = j" using db_ok_unique [OF assms(1) pq(1) n] pq(2) t(2) by simp
    moreover have "t \<in> set ind" using near [OF pq(3)] pq(4) t(3) by simp
    ultimately show "e \<in> set (?edges j)" using t(1) by (force simp: set_edges_directed)
  qed
  ultimately show ?thesis unfolding near_def [symmetric] by (auto simp: sub)
qed

theorem subgraph_around_exact_witness:
  "map (\<lambda>(n, es). (gn_id n, length es)) (subgraph_around next_index walk_db ''2'' 1) = [(''2'', 1), (''3'', 0)]
   \<and> (\<lambda>(n, _). gn_id n) ` set (subgraph_around next_index walk_db ''2'' 1) = near_ids ''2'' 1 walk_db"
proof
  show "map (\<lambda>(n, es). (gn_id n, length es)) (subgraph_around next_index walk_db ''2'' 1) = [(''2'', 1), (''3'', 0)]"
    by code_simp
qed (use subgraph_around_exact [OF walk_db_ok walk_db_nodes(2), of next_index 1] in blast)

end
