(* ===== verification/Path_Length.thy ===== *)
theory Path_Length
  imports Graph_Props
begin

text \<open>The path \<open>find_path\<close> returns is a shortest one.\<close>

section \<open>Depths of the recorded nodes\<close>

text \<open>\<open>D\<close> is the depth at which a node was recorded; the walk has no depth bound, so the invariant of the
  bounded walks holds for every bound that is large enough.\<close>

definition path_inv :: "(nat \<Rightarrow> nat list) \<Rightarrow> nat \<Rightarrow> nat list \<Rightarrow> parent_map \<Rightarrow> (nat \<Rightarrow> nat option) \<Rightarrow> bool" where
  "path_inv succ s q ps D \<longleftrightarrow>
     dom D = fst ` set ps \<and> D s = Some 0
     \<and> (\<forall>(y, p) \<in> set ps. case p of None \<Rightarrow> y = s
          | Some x \<Rightarrow> (\<exists>k. D x = Some k \<and> D y = Some (Suc k)))
     \<and> (\<exists>M. \<forall>m \<ge> M. bfs_inv succ s m (map (\<lambda>x. (x, the (D x))) q) D)"

lemma path_inv_start: "path_inv succ s [s] [(s, None)] [s \<mapsto> 0]"
  using bfs_inv_start [of succ s] by (auto simp: path_inv_def)

lemma path_inv_step:
  assumes "path_inv succ s (x # q) ps D"
  defines "new \<equiv> newly (succ x) (fst ` set ps)"
  shows "\<exists>D'. path_inv succ s (q @ new) (ps @ map (\<lambda>y. (y, Some x)) new) D'
     \<and> (\<forall>y k. D y = Some k \<longrightarrow> D' y = Some k)"
proof -
  from assms(1) obtain M where D: "dom D = fst ` set ps" "D s = Some 0"
    "\<forall>(y, p) \<in> set ps. case p of None \<Rightarrow> y = s | Some x \<Rightarrow> (\<exists>k. D x = Some k \<and> D y = Some (Suc k))"
    and M: "\<forall>m \<ge> M. bfs_inv succ s m (map (\<lambda>x. (x, the (D x))) (x # q)) D"
    unfolding path_inv_def by blast
  from M have inv: "bfs_inv succ s M (map (\<lambda>x. (x, the (D x))) (x # q)) D" by simp
  then have Dx: "D x = Some (the (D x))" and Dq: "\<forall>y \<in> set q. D y = Some (the (D y))"
    by (auto simp: bfs_inv_def)
  define D' where "D' = extend D new (Suc (the (D x)))"
  have new: "set new = set (succ x) - dom D" by (simp add: new_def set_newly D(1))
  have old: "D' y = Some k" if "D y = Some k" for y k using that new by (auto simp: D'_def extend_def)
  have q: "map (\<lambda>x. (x, the (D x))) q @ map (\<lambda>y. (y, Suc (the (D x)))) new
      = map (\<lambda>x. (x, the (D' x))) (q @ new)"
  proof -
    have "the (D y) = the (D' y)" if "y \<in> set q" for y using old Dq that by (metis option.sel)
    moreover have "D' y = Some (Suc (the (D x)))" if "y \<in> set new" for y
      using that by (simp add: D'_def extend_def)
    ultimately show ?thesis by simp
  qed
  have "bfs_inv succ s m (map (\<lambda>x. (x, the (D' x))) (q @ new)) D'" if "m \<ge> max M (Suc (the (D x)))" for m
  proof -
    have "bfs_inv succ s m (map (\<lambda>x. (x, the (D x))) q @ map (\<lambda>y. (y, Suc (the (D x)))) new) D'"
      using bfs_inv_expand [of succ s m x "the (D x)" "map (\<lambda>x. (x, the (D x))) q" D] M that
      by (simp add: D'_def new_def D(1))
    then show ?thesis unfolding q .
  qed
  then have "\<exists>M. \<forall>m \<ge> M. bfs_inv succ s m (map (\<lambda>x. (x, the (D' x))) (q @ new)) D'" by blast
  moreover have "dom D' = fst ` set (ps @ map (\<lambda>y. (y, Some x)) new)"
    by (auto simp: D'_def dom_extend D(1) image_Un image_image)
  moreover have "\<forall>(y, p) \<in> set (ps @ map (\<lambda>y. (y, Some x)) new).
      case p of None \<Rightarrow> y = s | Some x \<Rightarrow> (\<exists>k. D' x = Some k \<and> D' y = Some (Suc k))"
  proof -
    have "case p of None \<Rightarrow> y = s | Some x \<Rightarrow> (\<exists>k. D' x = Some k \<and> D' y = Some (Suc k))"
      if "(y, p) \<in> set ps" for y p
      using D(3) that old by (fastforce split: option.splits)
    moreover have "D' x = Some (the (D x))" "\<forall>y \<in> set new. D' y = Some (Suc (the (D x)))"
      using old [OF Dx] by (simp_all add: D'_def extend_def)
    ultimately show ?thesis by auto
  qed
  ultimately have "path_inv succ s (q @ new) (ps @ map (\<lambda>y. (y, Some x)) new) D'"
    using old [OF D(2)] unfolding path_inv_def by blast
  with old show ?thesis by blast
qed

text \<open>While the walk runs, every node at a distance up to that of the head of the queue is recorded.\<close>

lemma bfs_inv_nearer:
  assumes "\<forall>m \<ge> M. bfs_inv succ s m ((x, d) # q) D"
  shows "(s, y) \<in> hops succ ^^ j \<Longrightarrow> j \<le> d \<Longrightarrow> \<exists>k \<le> j. D y = Some k"
proof (induction j arbitrary: y)
  case 0
  with assms show ?case by (auto simp: bfs_inv_def)
next
  case (Suc j)
  from Suc.prems(1) obtain z where z: "(s, z) \<in> hops succ ^^ j" "(z, y) \<in> hops succ" by auto
  from Suc.IH [OF z(1)] Suc.prems(2) obtain k where k: "k \<le> j" "D z = Some k" by auto
  let ?m = "max M (Suc k)"
  have inv: "bfs_inv succ s ?m ((x, d) # q) D" using assms by simp
  have "sorted (map snd ((x, d) # q))" using inv by (simp add: bfs_inv_def)
  then have "(z, k) \<notin> set ((x, d) # q)" using k(1) Suc.prems(2) by force
  moreover have "\<forall>z k. D z = Some k \<longrightarrow> (z, k) \<notin> set ((x, d) # q) \<longrightarrow> k < ?m \<longrightarrow>
      (\<forall>y \<in> set (succ z). \<exists>i \<le> Suc k. D y = Some i)" using inv unfolding bfs_inv_def by blast
  ultimately obtain i where "i \<le> Suc k" "D y = Some i" using k(2) z(2) by (fastforce simp: hops_def)
  with k(1) show ?case by (intro exI [of _ i]) simp
qed

lemma path_loop_shortest:
  assumes "path_inv (out_succ pg g) s q ps D"
    and "to \<in> fst ` set (path_loop pg g to q ps)"
    and "to \<in> fst ` set ps \<longrightarrow> to \<in> set q \<or> (\<exists>k. D to = Some k \<and> hop_dist (out_succ pg g) s to k)"
  shows "\<exists>D' k. D' to = Some k \<and> hop_dist (out_succ pg g) s to k
     \<and> (\<exists>q'. path_inv (out_succ pg g) s q' (path_loop pg g to q ps) D')"
  using assms
proof (induction pg g to q ps arbitrary: D rule: path_loop.induct)
  case (1 pg g to ps)
  then have "path_inv (out_succ pg g) s [] ps D" "to \<in> fst ` set ps" by (simp_all add: path_loop.simps)
  with 1(3) show ?case by (auto simp: path_loop.simps)
next
  case (2 pg g to current queue ps)
  show ?case
  proof (cases "current = to")
    case True
    from 2(2) obtain M where M: "\<forall>m \<ge> M. bfs_inv (out_succ pg g) s m (map (\<lambda>x. (x, the (D x))) (current # queue)) D"
      unfolding path_inv_def by blast
    then have "bfs_inv (out_succ pg g) s M (map (\<lambda>x. (x, the (D x))) (current # queue)) D" by simp
    then have k: "D to = Some (the (D to))" "(s, to) \<in> hops (out_succ pg g) ^^ the (D to)"
      using True by (auto simp: bfs_inv_def)
    have "(s, to) \<notin> hops (out_succ pg g) ^^ j" if "j < the (D to)" for j
      using bfs_inv_nearer [of M "out_succ pg g" s current "the (D current)" _ D to j] M True that k(1) by force
    with k(2) have "hop_dist (out_succ pg g) s to (the (D to))" by (auto simp: hop_dist_def)
    moreover have "path_loop pg g to (current # queue) ps = ps" using True by (simp add: path_loop.simps)
    ultimately show ?thesis using k(1) 2(2) by metis
  next
    case False
    define new where "new = newly (out_succ pg g current) (fst ` set ps)"
    have st: "path_edges current (edges_directed pg g current Outgoing) (ps, queue)
        = (ps @ map (\<lambda>y. (y, Some current)) new, queue @ new)"
      by (simp add: path_edges_newly new_def out_succ_def Let_def)
    have loop: "path_loop pg g to (current # queue) ps
        = path_loop pg g to (queue @ new) (ps @ map (\<lambda>y. (y, Some current)) new)"
      using False by (simp add: path_loop.simps st)
    from path_inv_step [OF 2(2)] obtain D' where
      D': "path_inv (out_succ pg g) s (queue @ new) (ps @ map (\<lambda>y. (y, Some current)) new) D'"
      "\<forall>y k. D y = Some k \<longrightarrow> D' y = Some k" unfolding new_def by blast
    have "to \<in> fst ` set (ps @ map (\<lambda>y. (y, Some current)) new) \<longrightarrow>
        to \<in> set (queue @ new) \<or> (\<exists>k. D' to = Some k \<and> hop_dist (out_succ pg g) s to k)"
      using 2(4) False D'(2) by auto
    with 2(1) [OF False refl, of D'] D'(1) 2(3) show ?thesis unfolding st fst_conv snd_conv loop by blast
  qed
qed

lemma walk_back_length:
  "path_inv succ s q ps D \<Longrightarrow> walk_back fuel ps y = Some p \<Longrightarrow> D y = Some k \<Longrightarrow> length p = Suc k"
proof (induction fuel arbitrary: y p k)
  case (Suc fuel)
  then obtain w where w: "map_of ps y = Some w" by (auto split: option.splits)
  from map_of_SomeD [OF w] Suc.prems(1)
  have y: "case w of None \<Rightarrow> y = s | Some x \<Rightarrow> (\<exists>k. D x = Some k \<and> D y = Some (Suc k))"
    unfolding path_inv_def by blast
  show ?case
  proof (cases w)
    case None
    with y Suc.prems w show ?thesis by (auto simp: path_inv_def)
  next
    case (Some x)
    with y obtain j where j: "D x = Some j" "D y = Some (Suc j)" by auto
    from w Some Suc.prems(2) obtain p' where "walk_back fuel ps x = Some p'" "p = y # p'" by auto
    with Suc.IH [OF Suc.prems(1) _ j(1)] j(2) Suc.prems(3) show ?thesis by simp
  qed
qed simp

lemma index_path_length:
  assumes "index_path pg g f t = Some p" "p \<noteq> []"
  shows "\<exists>k. hop_dist (out_succ pg g) f t k \<and> length p = Suc k"
proof -
  let ?ps = "path_loop pg g t [f] [(f, None)]"
  have t: "t \<in> fst ` set ?ps" and walk: "walk_back (length ?ps) ?ps t = Some p"
    using assms by (auto simp: index_path_def Let_def split: if_splits)
  from path_loop_shortest [OF path_inv_start t] obtain D k q
    where "D t = Some k" "hop_dist (out_succ pg g) f t k" "path_inv (out_succ pg g) f q ?ps D" by auto
  with walk_back_length [OF this(3) walk this(1)] show ?thesis by blast
qed

lemma find_path_length:
  assumes "hm_get (db_index d) from = Some f" "hm_get (db_index d) to = Some t"
    and "find_path pg d from to = Some ns" "ns \<noteq> []" "db_ok who d"
  shows "\<exists>k. hop_dist (out_succ pg (db_graph d)) f t k \<and> length ns = Suc k"
proof -
  from assms(1-3) obtain p where p: "index_path pg (db_graph d) f t = Some p"
    "ns = List.map_filter (g_node (db_graph d)) (rev p)" by (auto simp: find_path_def)
  from p(2) assms(4) have ne: "p \<noteq> []" by (auto simp: List.map_filter_simps)
  from index_path_length [OF p(1) ne] obtain k
    where k: "hop_dist (out_succ pg (db_graph d)) f t k" "length p = Suc k" by blast
  have p2: "back_walk (out_succ pg (db_graph d)) p" "last p = f"
    using index_path_correct [of f t pg "db_graph d"] p(1) ne by (auto split: if_splits)
  obtain m where "g_node (db_graph d) f = Some m" by (rule db_ok_node [OF assms(5,1)])
  then have "g_node (db_graph d) (last p) \<noteq> None" by (simp add: p2(2))
  from back_walk_nodes [OF assms(5) p2(1) this]
  have "\<forall>x \<in> set p. g_node (db_graph d) x \<noteq> None" .
  then have "ns = map (the \<circ> g_node (db_graph d)) (rev p)"
    unfolding p(2) by (intro map_filter_total) auto
  with k show ?thesis by auto
qed

text \<open>
  C10: \<open>find_path\<close> between two nodes of the graph always answers. When the target can be reached
  along edges it is a path from the first node to the second whose steps are edges, with as
  few steps as any; otherwise it is empty.
\<close>

theorem find_path_shortest:
  assumes "db_ok who d" "has_node from d" "has_node to d"
  defines "R \<equiv> edge_rel Outgoing (\<lambda>_. True) d"
  shows "if (from, to) \<in> R\<^sup>*
   then \<exists>ns k. find_path pg d from to = Some ns \<and> distance R from to k \<and> length ns = Suc k
          \<and> gn_id (hd ns) = from \<and> gn_id (last ns) = to
          \<and> chained (\<lambda>m n. (gn_id m, gn_id n) \<in> R) ns
   else find_path pg d from to = Some []"
proof -
  obtain f m where f: "hm_get (db_index d) from = Some f" "g_node (db_graph d) f = Some m" "gn_id m = from"
    by (rule has_node_lookup [OF assms(1,2)])
  obtain t n where t: "hm_get (db_index d) to = Some t" "g_node (db_graph d) t = Some n" "gn_id n = to"
    by (rule has_node_lookup [OF assms(1,3)])
  let ?succ = "out_succ pg (db_graph d)"
  have reach: "(f, t) \<in> (hops ?succ)\<^sup>* \<longleftrightarrow> (from, to) \<in> R\<^sup>*"
    using walk_ids [OF assms(1) f(2) t(2), where pg = pg and P = "\<lambda>_. True" and dir = Outgoing] f(3) t(3)
    unfolding rtrancl_power R_def out_picked by simp
  have "linked d x y \<longleftrightarrow> (gn_id x, gn_id y) \<in> R" for x y
    by (force simp: linked_def R_def edge_rel_def)
  then have linked: "linked d = (\<lambda>x y. (gn_id x, gn_id y) \<in> R)" by (simp add: fun_eq_iff)
  have len: "\<exists>k. distance R from to k \<and> length ns = Suc k"
    if "find_path pg d from to = Some ns" "ns \<noteq> []" for ns
    using find_path_length [OF f(1) t(1) that assms(1)] hop_dist_ids [OF assms(1) f(2) t(2)] f(3) t(3)
    unfolding R_def out_picked by auto
  show ?thesis
  proof (cases "(from, to) \<in> R\<^sup>*")
    case True
    with find_path_correct [OF assms(1) f(1) t(1), of pg] obtain ns where
      "find_path pg d from to = Some ns" "ns \<noteq> []" "gn_id (hd ns) = from" "gn_id (last ns) = to"
      "chained (linked d) ns" unfolding reach by auto
    with len True show ?thesis unfolding linked by auto
  next
    case False
    with find_path_correct [OF assms(1) f(1) t(1), of pg] show ?thesis unfolding reach by simp
  qed
qed

theorem find_path_shortest_witness:
  "\<exists>ns k. find_path next_index walk_db ''1'' ''3'' = Some ns \<and> length ns = Suc k
     \<and> distance (edge_rel Outgoing (\<lambda>_. True) walk_db) ''1'' ''3'' k"
proof -
  have "(''1'', ''2'') \<in> edge_rel Outgoing (\<lambda>_. True) walk_db"
    "(''2'', ''3'') \<in> edge_rel Outgoing (\<lambda>_. True) walk_db"
    by (simp_all add: edge_rel_def walk_db_edges edge_new_def)
  then have "(''1'', ''3'') \<in> (edge_rel Outgoing (\<lambda>_. True) walk_db)\<^sup>*" by simp
  with find_path_shortest [OF walk_db_ok walk_db_nodes(1,3), of next_index] show ?thesis by auto
qed

end
