(* ===== verification/Read_Props.thy ===== *)
theory Read_Props
  imports Graph_Props
begin

text \<open>The properties of the lookups by location and of the anchor ranking.\<close>

section \<open>The node at a line\<close>

text \<open>
  \<open>get_node_at_location\<close> answers nothing exactly when no node of the file, other than the
  file node, spans the line; otherwise it answers such a node, and none spans fewer lines.
\<close>

theorem node_at_location_innermost:
  assumes "db_ok who d"
  shows "case get_node_at_location path line d of
     None \<Rightarrow> \<not> (\<exists>m \<in> set (node_weights (db_graph d)).
                 gn_path m = path \<and> gn_type m \<noteq> NT_File \<and> covers_line line m)
   | Some n \<Rightarrow> n \<in> set (node_weights (db_graph d)) \<and> gn_path n = path \<and> gn_type n \<noteq> NT_File \<and> covers_line line n
       \<and> (\<forall>m \<in> set (node_weights (db_graph d)).
            gn_path m = path \<and> gn_type m \<noteq> NT_File \<and> covers_line line m \<longrightarrow> span n \<le> span m)"
proof -
  let ?xs = "filter (covers_line line) (filter (\<lambda>n. gn_type n \<noteq> NT_File) (get_nodes_in_path path d))"
  have hits: "m \<in> set ?xs \<longleftrightarrow> m \<in> set (node_weights (db_graph d)) \<and> gn_path m = path
      \<and> gn_type m \<noteq> NT_File \<and> covers_line line m" for m
    by (auto simp: nodes_in_path_set [OF assms(1)])
  show ?thesis
  proof (cases "min_by_key span ?xs")
    case None
    then have "set ?xs = {}" unfolding min_by_key_None by simp
    with None show ?thesis using hits by (auto simp: get_node_at_location_def)
  next
    case (Some n)
    then have "get_node_at_location path line d = Some n" by (simp add: get_node_at_location_def)
    moreover have "n \<in> set ?xs" "\<And>m. m \<in> set ?xs \<Longrightarrow> span n \<le> span m" using min_by_key_Some [OF Some] by blast+
    ultimately show ?thesis unfolding hits by simp
  qed
qed

definition located_node :: "string \<Rightarrow> nat \<Rightarrow> nat \<Rightarrow> graph_node" where
  "located_node nid s e =
     (plain_node nid nid ''src/a.rs'')\<lparr>gn_line_start := Some s, gn_line_end := Some e\<rparr>"

definition located_db :: graph_db where
  "located_db =
     fold (db_step next_index) [EvInsertNodes [located_node ''outer'' 1 40, located_node ''inner'' 10 20]]
       (db_empty True False)"

theorem node_at_location_innermost_witness:
  "map_option gn_id (get_node_at_location ''src/a.rs'' 12 located_db) = Some ''inner''
   \<and> (case get_node_at_location ''src/a.rs'' 12 located_db of None \<Rightarrow> True
      | Some n \<Rightarrow> span n \<le> span (located_node ''outer'' 1 40))"
proof
  show "map_option gn_id (get_node_at_location ''src/a.rs'' 12 located_db) = Some ''inner''" by code_simp
  have ok: "db_ok (\<lambda>nid. (nid, ''src/a.rs'')) located_db"
    unfolding located_db_def by (rule run_db_ok [OF next_index_ok]) (simp add: located_node_def)
  have "located_node ''outer'' 1 40 \<in> set (node_weights (db_graph located_db))" by code_simp
  moreover have "covers_line 12 (located_node ''outer'' 1 40)" "gn_path (located_node ''outer'' 1 40) = ''src/a.rs''"
    "gn_type (located_node ''outer'' 1 40) \<noteq> NT_File" by code_simp+
  ultimately show "case get_node_at_location ''src/a.rs'' 12 located_db of None \<Rightarrow> True
      | Some n \<Rightarrow> span n \<le> span (located_node ''outer'' 1 40)"
    using node_at_location_innermost [OF ok, of "''src/a.rs''" 12] by (auto split: option.splits)
qed

section \<open>Anchors\<close>

lemma first_by_name_set: "set (first_by_name ns seen) \<subseteq> {n \<in> set ns. gn_name n \<notin> seen}"
  by (induction ns seen rule: first_by_name.induct) auto

lemma first_by_name_distinct: "distinct (map gn_name (first_by_name ns seen))"
proof (induction ns seen rule: first_by_name.induct)
  case (2 n ns seen)
  then show ?case using first_by_name_set [of ns "insert (gn_name n) seen"] by auto
qed simp

lemma first_by_name_sorted: "sorted (map f ns) \<Longrightarrow> sorted (map f (first_by_name ns seen))"
proof (induction ns seen rule: first_by_name.induct)
  case (2 n ns seen)
  then show ?case using first_by_name_set [of ns "insert (gn_name n) seen"] by auto
qed simp

lemma first_by_name_best:
  "sorted (map f ns) \<Longrightarrow> n \<in> set ns \<Longrightarrow> gn_name n \<notin> seen \<Longrightarrow>
    \<exists>m \<in> set (first_by_name ns seen). gn_name m = gn_name n \<and> f m \<le> f n"
proof (induction ns seen rule: first_by_name.induct)
  case (2 x ns seen)
  show ?case
  proof (cases "gn_name x \<in> seen")
    case True
    with 2 show ?thesis by auto
  next
    case False
    show ?thesis
    proof (cases "gn_name n = gn_name x")
      case True
      then show ?thesis using 2(3,4) False by (intro bexI [of _ x]) auto
    next
      case diff: False
      with 2(4) have "n \<in> set ns" by auto
      with 2(2) [OF False] 2(3,5) diff have
        "\<exists>m \<in> set (first_by_name ns (insert (gn_name x) seen)). gn_name m = gn_name n \<and> f m \<le> f n" by auto
      then show ?thesis using False by auto
    qed
  qed
qed simp

lemma take_sorted_le: "sorted xs \<Longrightarrow> x \<in> set (take k xs) \<Longrightarrow> y \<in> set (drop k xs) \<Longrightarrow> x \<le> y"
  by (metis append_take_drop_id sorted_append)

text \<open>
  \<open>find_anchors\<close> ranks by score (then name, path, id), one node per name: the result is
  ordered, has no name twice and at most \<open>limit\<close> entries, all from the graph; and every node
  of the graph is beaten or matched by a node of its name in the result, or the result is
  full and every entry is at least as good as it.
\<close>

theorem find_anchors_top:
  "let as = find_anchors limit d; nodes = set (node_weights (db_graph d)) in
     sorted (map anchor_key as) \<and> distinct (map gn_name as) \<and> length as \<le> limit \<and> set as \<subseteq> nodes
     \<and> (\<forall>n \<in> nodes. (\<exists>m \<in> set as. gn_name m = gn_name n \<and> anchor_key m \<le> anchor_key n)
          \<or> (length as = limit \<and> (\<forall>m \<in> set as. anchor_key m \<le> anchor_key n)))"
proof -
  let ?ns = "sort_key anchor_key (node_weights (db_graph d))"
  let ?fs = "first_by_name ?ns {}"
  have srt: "sorted (map anchor_key ?ns)" by simp
  then have fs: "sorted (map anchor_key ?fs)" by (rule first_by_name_sorted)
  have as: "find_anchors limit d = take limit ?fs"
    unfolding find_anchors_def sort_key_id_if_sorted [OF fs] ..
  have "(\<exists>m \<in> set (take limit ?fs). gn_name m = gn_name n \<and> anchor_key m \<le> anchor_key n)
      \<or> (length (take limit ?fs) = limit \<and> (\<forall>m \<in> set (take limit ?fs). anchor_key m \<le> anchor_key n))"
    if n: "n \<in> set (node_weights (db_graph d))" for n
  proof -
    obtain m where m: "m \<in> set ?fs" "gn_name m = gn_name n" "anchor_key m \<le> anchor_key n"
      using first_by_name_best [OF srt, of n "{}"] n by auto
    show ?thesis
    proof (cases "m \<in> set (take limit ?fs)")
      case False
      then have out: "m \<in> set (drop limit ?fs)" using m(1) by (metis Un_iff append_take_drop_id set_append)
      then have "anchor_key x \<le> anchor_key n" if "x \<in> set (take limit ?fs)" for x
        using take_sorted_le [OF fs, of "anchor_key x" limit "anchor_key m"] that m(3)
        by (force simp: take_map drop_map)
      moreover have "length (take limit ?fs) = limit"
        using out by (cases "limit < length ?fs") auto
      ultimately show ?thesis by blast
    qed (use m in blast)
  qed
  moreover have "sorted (map anchor_key (take limit ?fs))" using fs by (simp add: sorted_wrt_take flip: take_map)
  moreover have "distinct (map gn_name (take limit ?fs))"
    using first_by_name_distinct [of ?ns "{}"] by (simp add: distinct_take flip: take_map)
  moreover have "set (take limit ?fs) \<subseteq> set (node_weights (db_graph d))"
    using first_by_name_set [of ?ns "{}"] set_take_subset [of limit ?fs] by auto
  ultimately show ?thesis unfolding as by (simp add: Let_def)
qed

theorem find_anchors_top_witness:
  "distinct (map gn_name (find_anchors 5 walk_db)) \<and> map gn_id (find_anchors 5 walk_db) = [''1'', ''2'', ''3'']"
proof
  show "distinct (map gn_name (find_anchors 5 walk_db))"
    using find_anchors_top [of 5 walk_db] by (simp add: Let_def)
  show "map gn_id (find_anchors 5 walk_db) = [''1'', ''2'', ''3'']" by code_simp
qed

text \<open>
  A function that is called, but itself calls nothing outside tests, has anchor score
  zero whatever its number of callers, because the logarithm of one is zero; a function
  nobody calls has a positive score. So dead code can outrank a function with callers, which
  the comment on \<open>compute_anchor_raws\<close> rules out.
\<close>

theorem dead_code_outranks_leaf:
  assumes "log2 1 = 0"
    and "gn_type n = NT_Function" "\<not> is_test_path (gn_path n)" "calls_at pg g Incoming i \<noteq> []"
      "off_tests g Outgoing (calls_at pg g Outgoing i) = []"
    and "gn_type m = NT_Function" "\<not> is_test_path (gn_path m)" "calls_at pg g Incoming j = []"
  shows "anchor_raw log2 pg g (i, n) = 0 \<and> 0 < anchor_raw log2 pg g (j, m)"
proof -
  have "0 < size_factor m" by (auto simp: size_factor_def Let_def split: option.split)
  with assms show ?thesis by (simp add: anchor_raw_def)
qed

theorem dead_code_outranks_leaf_witness:
  "let g = db_graph walk_db; node = (\<lambda>i. the (g_node g i)) in
   gn_id (node 3) = ''3'' \<and> gn_id (node 1) = ''1''
   \<and> anchor_raw (\<lambda>x. x - 1) next_index g (3, node 3) = 0
   \<and> 0 < anchor_raw (\<lambda>x. x - 1) next_index g (1, node 1)"
proof -
  let ?g = "db_graph walk_db"
  have "calls_at next_index ?g Incoming 3 \<noteq> []" "off_tests ?g Outgoing (calls_at next_index ?g Outgoing 3) = []"
    "calls_at next_index ?g Incoming 1 = []"
    "gn_type (the (g_node ?g 3)) = NT_Function" "gn_type (the (g_node ?g 1)) = NT_Function"
    "\<not> is_test_path (gn_path (the (g_node ?g 3)))" "\<not> is_test_path (gn_path (the (g_node ?g 1)))"
    "gn_id (the (g_node ?g 3)) = ''3''" "gn_id (the (g_node ?g 1)) = ''1''"
    by code_simp+
  with dead_code_outranks_leaf [of "\<lambda>x. x - 1" "the (g_node ?g 3)" next_index ?g 3 "the (g_node ?g 1)" 1]
  show ?thesis by (simp add: Let_def)
qed

end
