(* ===== verification/Query_Exec.thy ===== *)
theory Query_Exec
  imports Query_Spec Graph_Read "HOL-Library.Option_ord"
begin

text \<open>
  The query language's operations and prebuilt queries
  (\<^verbatim>\<open>src/src/server/query/spec.rs\<close>) and the executor that runs them over the graph
  database (\<^verbatim>\<open>src/src/server/query/executor.rs\<close>): a pipeline whose state is the current node
  list, the path that connects each node to its seed, and the groups of the last grouping.

  The embedder, the JSON reader of stored embeddings and the LRU cache are third-party: they
  are a record of functions, with the cache as a value they thread. A hop count is a \<open>u32\<close>;
  petgraph's indices are 32 bits wide, so a walk has fewer than \<open>2\<^sup>3\<^sup>2 - 1\<close> hops and the
  saturating addition of the source never saturates.
\<close>

section \<open>Operations\<close>

record find_op =
  fo_type :: "type_selector option"
  fo_name :: "name_selector option"
  fo_id :: "string option"
  fo_label :: "label_selector option"
  fo_path :: "string option"

record connect_op =
  co_edge :: edge_selector
  co_direction :: query_direction
  co_depth :: depth_spec
  co_target :: "find_op option"

record filter_op =
  fi_type :: "type_selector option"
  fi_label :: "label_selector option"
  fi_name :: "name_selector option"

datatype group_by = GroupByType | GroupByLabel | GroupByName

datatype sort_field = SortName | SortType | SortLabel

datatype sort_direction = Asc | Desc

record limit_op =
  lo_count :: nat
  lo_offset :: nat

record semantic_op =
  so_like :: string
  so_threshold :: f32

datatype query_op =
    QFind find_op
  | QConnect connect_op
  | QFilter filter_op
  | QSemantic semantic_op
  | QGroup group_by
  | QSort sort_field sort_direction
  | QLimit limit_op

datatype query_mode = ModeQuery | ModeTool | ModeAuto

record query_spec =
  qs_ops :: "query_op list"
  qs_mode :: query_mode
  qs_named :: "string option"

definition spec_of :: "query_op list \<Rightarrow> query_spec" where
  "spec_of ops = \<lparr>qs_ops = ops, qs_mode = ModeAuto, qs_named = None\<rparr>"

definition find_any :: find_op where
  "find_any = \<lparr>fo_type = None, fo_name = None, fo_id = None, fo_label = None, fo_path = None\<rparr>"

definition find_type :: "string \<Rightarrow> find_op" where
  "find_type t = find_any\<lparr>fo_type := Some (TypeSingle t)\<rparr>"

definition walk_op :: "string \<Rightarrow> query_direction \<Rightarrow> depth_spec \<Rightarrow> find_op option \<Rightarrow> query_op" where
  "walk_op e dir depth target =
     QConnect \<lparr>co_edge = EdgeSingle e, co_direction = dir, co_depth = depth, co_target = target\<rparr>"

definition named_query :: "string \<Rightarrow> query_spec option" where
  "named_query name =
     (if name = ''get_blast_radius'' then
        Some (spec_of [QFind find_any, walk_op ''Calls'' QOutgoing (DepthRange 1 2) None,
                       walk_op ''Calls'' QIncoming (DepthRange 1 2) None])
      else if name = ''get_call_chain'' then
        Some (spec_of [QFind find_any, walk_op ''Calls'' QOutgoing (DepthSingle 10) None])
      else if name = ''get_file_functions'' then
        Some (spec_of [QFind (find_type ''File''),
                       walk_op ''Contains'' QOutgoing (DepthSingle 1) (Some (find_type ''Function''))])
      else if name = ''get_callers'' then
        Some (spec_of [QFind find_any, walk_op ''Calls'' QIncoming (DepthSingle 1) None])
      else if name = ''get_callees'' then
        Some (spec_of [QFind find_any, walk_op ''Calls'' QOutgoing (DepthSingle 1) None])
      else if name = ''get_module_functions'' then
        Some (spec_of [QFind (find_type ''Module''),
                       walk_op ''Contains'' QOutgoing (DepthSingle 2) (Some (find_type ''Function''))])
      else if name = ''get_deprecated_functions'' then
        Some (spec_of [QFind ((find_type ''Function'')\<lparr>fo_label := Some (LabelSingle ''deprecated'')\<rparr>)])
      else None)"

section \<open>Results and errors\<close>

record node_ref =
  nr_id :: string
  nr_type :: string
  nr_name :: string
  nr_label :: "string option"

record edge_ref =
  er_id :: string
  er_type :: string
  er_from :: string
  er_to :: string

record graph_path =
  gp_nodes :: "node_ref list"
  gp_edges :: "edge_ref list"

record query_group =
  qg_key :: string
  qg_nodes :: "node_ref list"
  qg_count :: nat

record query_result =
  qr_nodes :: "node_ref list"
  qr_edges :: "edge_ref list"
  qr_paths :: "graph_path list"
  qr_count :: nat
  qr_legacy :: bool
  qr_visited :: nat
  qr_truncated :: bool
  qr_matched_before_limit :: "nat option"
  qr_groups :: "query_group list option"

datatype query_error =
    ToolWithoutName | OpsWithName | UnknownNamed string
  | UnknownEdgeTypes "string list" | UnknownNodeTypes "string list"
  | NotReached string | NoPredecessor nat string | PathNodeVanished string
  | EmbedFailed | Panicked

definition res_bind :: "'e + 'a \<Rightarrow> ('a \<Rightarrow> 'e + 'b) \<Rightarrow> 'e + 'b" where
  "res_bind r f = (case r of Inl e \<Rightarrow> Inl e | Inr x \<Rightarrow> f x)"

primrec res_map :: "('a \<Rightarrow> 'e + 'b) \<Rightarrow> 'a list \<Rightarrow> 'e + 'b list" where
  "res_map f [] = Inr []"
| "res_map f (x # xs) = res_bind (f x) (\<lambda>y. res_bind (res_map f xs) (\<lambda>ys. Inr (y # ys)))"

definition ref_of :: "graph_node \<Rightarrow> node_ref" where
  "ref_of n = \<lparr>nr_id = gn_id n, nr_type = node_type_name (gn_type n), nr_name = gn_name n,
               nr_label = query_label n\<rparr>"

definition edge_ref_of :: "graph_edge \<Rightarrow> edge_ref" where
  "edge_ref_of e =
     \<lparr>er_id = ge_source_id e @ ''->'' @ ge_target_id e @ '':'' @ edge_type_name (ge_type e),
      er_type = edge_type_name (ge_type e), er_from = ge_source_id e, er_to = ge_target_id e\<rparr>"

section \<open>Find and filter\<close>

fun name_matches :: "name_selector \<Rightarrow> string \<Rightarrow> bool" where
  "name_matches (NameExact s) name = (name = s)"
| "name_matches (NameStartsWith s) name = starts_with s name"
| "name_matches (NameEndsWith s) name = ends_with s name"
| "name_matches (NameGlob pattern) name = (glob_matches pattern name = Some True)"

definition opt_all :: "('a \<Rightarrow> bool) \<Rightarrow> 'a option \<Rightarrow> bool" where
  "opt_all P x = (case x of None \<Rightarrow> True | Some a \<Rightarrow> P a)"

definition query_nodes ::
    "type_selector option \<Rightarrow> name_selector option \<Rightarrow> label_selector option \<Rightarrow> string option \<Rightarrow>
     graph_db \<Rightarrow> graph_node list" where
  "query_nodes ts ns ls path d =
     filter (\<lambda>n. opt_all (\<lambda>s. type_matches s (node_type_name (gn_type n))) ts
               \<and> opt_all (\<lambda>s. name_matches s (gn_name n)) ns
               \<and> opt_all (\<lambda>s. label_matches s (query_label n)) ls
               \<and> opt_all (\<lambda>p. str_contains p (gn_path n)) path)
       (node_weights (db_graph d))"

definition check_node_types :: "find_op \<Rightarrow> query_error + unit" where
  "check_node_types f =
     (case fo_type f of
        None \<Rightarrow> Inr ()
      | Some sel \<Rightarrow>
          let unknown = type_unknown sel in
          if unknown = [] then Inr () else Inl (UnknownNodeTypes unknown))"

definition execute_find :: "find_op \<Rightarrow> graph_db \<Rightarrow> query_error + node_ref list" where
  "execute_find f d =
     res_bind (check_node_types f) (\<lambda>_.
       let nodes = query_nodes (fo_type f) (fo_name f) (fo_label f) (fo_path f) d in
       Inr (map ref_of (filter (\<lambda>n. opt_all (\<lambda>want. gn_id n = want) (fo_id f)) nodes)))"

definition apply_filter :: "filter_op \<Rightarrow> node_ref list \<Rightarrow> node_ref list" where
  "apply_filter f =
     filter (\<lambda>n. opt_all (\<lambda>s. type_matches s (nr_type n)) (fi_type f)
               \<and> opt_all (\<lambda>s. label_matches s (nr_label n)) (fi_label f)
               \<and> opt_all (\<lambda>s. name_matches s (nr_name n)) (fi_name f))"

section \<open>Connect\<close>

type_synonym hop_map = "(string, nat) hmap"

text \<open>The neighbours of one node: what the walk follows, with its place in the loop's state.\<close>

primrec walk_edges ::
    "edge_selector \<Rightarrow> nat \<Rightarrow> (graph_node \<times> graph_edge) list \<Rightarrow>
     hop_map \<times> string list \<times> string list \<Rightarrow> hop_map \<times> string list \<times> string list" where
  "walk_edges sel depth [] st = st"
| "walk_edges sel depth (r # rs) st =
     (let (depths, discovery, queue) = st; (neighbor, edge) = r in
      if \<not> edge_matches sel (edge_type_name (ge_type edge)) then walk_edges sel depth rs st
      else if hm_get depths (gn_id neighbor) \<noteq> None then walk_edges sel depth rs st
      else walk_edges sel depth rs
             (hm_put (gn_id neighbor) (Suc depth) depths, discovery @ [gn_id neighbor],
              queue @ [gn_id neighbor]))"

definition node_ids :: "graph_db \<Rightarrow> string set" where
  "node_ids d = gn_id ` set (node_weights (db_graph d))"

lemma walk_edges_new:
  assumes "walk_edges sel depth rs (depths, discovery, queue) = (depths', discovery', queue')"
  shows "\<exists>new. discovery' = discovery @ new \<and> queue' = queue @ new \<and> distinct new
     \<and> set new = {gn_id n | n e. (n, e) \<in> set rs \<and> edge_matches sel (edge_type_name (ge_type e))}
          - {i. hm_get depths i \<noteq> None}
     \<and> hm_get depths' = (\<lambda>i. if i \<in> set new then Some (Suc depth) else hm_get depths i)"
  using assms
proof (induction rs arbitrary: depths discovery queue)
  case (Cons r rs)
  obtain n e where r: "r = (n, e)" by (cases r)
  show ?case
  proof (cases "edge_matches sel (edge_type_name (ge_type e)) \<and> hm_get depths (gn_id n) = None")
    case False
    then have "walk_edges sel depth rs (depths, discovery, queue) = (depths', discovery', queue')"
      using Cons.prems by (auto simp: r split: if_splits)
    from Cons.IH [OF this] False show ?thesis unfolding r by fastforce
  next
    case True
    let ?h = "hm_put (gn_id n) (Suc depth) depths"
    have "walk_edges sel depth rs (?h, discovery @ [gn_id n], queue @ [gn_id n]) = (depths', discovery', queue')"
      using Cons.prems True by (simp add: r)
    from Cons.IH [OF this] obtain new where new: "discovery' = (discovery @ [gn_id n]) @ new"
      "queue' = (queue @ [gn_id n]) @ new" "distinct new"
      "set new = {gn_id n | n e. (n, e) \<in> set rs \<and> edge_matches sel (edge_type_name (ge_type e))}
          - {i. hm_get ?h i \<noteq> None}"
      "hm_get depths' = (\<lambda>i. if i \<in> set new then Some (Suc depth) else hm_get ?h i)" by blast
    show ?thesis
      by (rule exI [of _ "gn_id n # new"]) (use new True in \<open>auto simp: r fun_eq_iff\<close>)
  qed
qed auto

lemma get_neighbors_node:
  "(n, e) \<in> set (get_neighbors pg nid dir d) \<Longrightarrow> gn_id n \<in> node_ids d"
  by (auto simp: get_neighbors_def set_map_filter_Some node_ids_def node_weights_def g_node_def
      split: option.splits dest!: map_of_SomeD intro!: imageI) (force simp: image_iff)

text \<open>
  The loop over the queue. \<open>hops[&current_id]\<close> would panic on a missing key.
\<close>

function walk_loop ::
    "petgraph \<Rightarrow> graph_db \<Rightarrow> edge_selector \<Rightarrow> nat \<Rightarrow> direction \<Rightarrow> string list \<Rightarrow> hop_map \<Rightarrow> string list \<Rightarrow>
     query_error + hop_map \<times> string list" where
  "walk_loop pg d sel hi dir [] depths discovery = Inr (depths, discovery)"
| "walk_loop pg d sel hi dir (current # queue) depths discovery =
     (case hm_get depths current of
        None \<Rightarrow> Inl Panicked
      | Some depth \<Rightarrow>
          if hi < Suc depth then walk_loop pg d sel hi dir queue depths discovery
          else
            let st = walk_edges sel depth (get_neighbors pg current dir d) (depths, discovery, queue) in
            walk_loop pg d sel hi dir (snd (snd st)) (fst st) (fst (snd st)))"
  by pat_completeness auto

lemma finite_node_ids [simp]: "finite (node_ids d)"
  by (simp add: node_ids_def)

termination walk_loop
proof (relation "measure (\<lambda>(pg, d, sel, hi, dir, queue, depths, discovery).
    card (node_ids d - {i. hm_get depths i \<noteq> None}) + length queue)", goal_cases)
  case (3 pg d sel hi dir current queue depths discovery depth st)
  obtain depths' discovery' queue' where st: "st = (depths', discovery', queue')" by (cases st)
  have eq: "walk_edges sel depth (get_neighbors pg current dir d) (depths, discovery, queue)
      = (depths', discovery', queue')"
    using 3(3) st by simp
  from walk_edges_new [OF eq] obtain new where new: "queue' = queue @ new" "distinct new"
    "set new = {gn_id n | n e. (n, e) \<in> set (get_neighbors pg current dir d) \<and>
        edge_matches sel (edge_type_name (ge_type e))} - {i. hm_get depths i \<noteq> None}"
    "hm_get depths' = (\<lambda>i. if i \<in> set new then Some (Suc depth) else hm_get depths i)"
    by blast
  have sub: "set new \<subseteq> node_ids d - {i. hm_get depths i \<noteq> None}"
    unfolding new(3) using get_neighbors_node by blast
  have "node_ids d - {i. hm_get depths' i \<noteq> None} = node_ids d - {i. hm_get depths i \<noteq> None} - set new"
    unfolding new(4) by auto
  moreover have "card (node_ids d - {i. hm_get depths i \<noteq> None} - set new)
      = card (node_ids d - {i. hm_get depths i \<noteq> None}) - length new"
    using sub by (simp add: card_Diff_subset distinct_card [OF new(2)])
  moreover have "length new \<le> card (node_ids d - {i. hm_get depths i \<noteq> None})"
    using card_mono [OF _ sub] by (simp add: distinct_card [OF new(2)])
  ultimately show ?case by (simp add: st new(1))
qed simp_all

section \<open>The path of a walk\<close>

text \<open>The predecessor one hop nearer with the least id and, on the same node, edge type.\<close>

primrec best_pred ::
    "edge_selector \<Rightarrow> hop_map \<Rightarrow> nat \<Rightarrow> (graph_node \<times> graph_edge) list \<Rightarrow> (string \<times> graph_edge) option \<Rightarrow>
     (string \<times> graph_edge) option" where
  "best_pred sel depths k [] best = best"
| "best_pred sel depths k (r # rs) best =
     (let (pred, edge) = r in
      if \<not> edge_matches sel (edge_type_name (ge_type edge)) then best_pred sel depths k rs best
      else if hm_get depths (gn_id pred) \<noteq> Some k then best_pred sel depths k rs best
      else
        let better = (case best of
              None \<Rightarrow> True
            | Some (best_id, best_edge) \<Rightarrow>
                (gn_id pred, edge_type_name (ge_type edge)) < (best_id, edge_type_name (ge_type best_edge)))
        in best_pred sel depths k rs (if better then Some (gn_id pred, edge) else best))"

lemma best_pred_in:
  assumes "best_pred sel depths k rs best = Some (p, e)"
  shows "best = Some (p, e) \<or>
    hm_get depths p = Some k \<and> edge_matches sel (edge_type_name (ge_type e)) \<and>
    (\<exists>n. (n, e) \<in> set rs \<and> gn_id n = p)"
  using assms
proof (induction rs arbitrary: best)
  case (Cons r rs)
  obtain n f where r: "r = (n, f)" by (cases r)
  from Cons.prems obtain best' where b: "best_pred sel depths k rs best' = Some (p, e)"
    "best' = best \<or> best' = Some (gn_id n, f) \<and> hm_get depths (gn_id n) = Some k
       \<and> edge_matches sel (edge_type_name (ge_type f))"
    unfolding r by (auto simp: Let_def split: if_splits)
  from Cons.IH [OF b(1)] b(2) show ?case by (auto simp: r)
qed simp

definition turned :: "direction \<Rightarrow> direction" where
  "turned dir = (case dir of Outgoing \<Rightarrow> Incoming | Incoming \<Rightarrow> Outgoing)"

text \<open>
  The walk back from the target. A node other than the seed at depth zero would make
  \<open>depth - 1\<close> overflow.
\<close>

function path_back ::
    "petgraph \<Rightarrow> graph_db \<Rightarrow> edge_selector \<Rightarrow> direction \<Rightarrow> hop_map \<Rightarrow> string \<Rightarrow> string \<Rightarrow> string \<Rightarrow>
     string list \<Rightarrow> edge_ref list \<Rightarrow> query_error + string list \<times> edge_ref list" where
  "path_back pg d sel dir depths start target current ids edges =
     (if current = start then Inr (ids, edges)
      else (case hm_get depths current of
              None \<Rightarrow> Inl (NotReached current)
            | Some 0 \<Rightarrow> Inl Panicked
            | Some (Suc k) \<Rightarrow>
                (case best_pred sel depths k (get_neighbors pg current (turned dir) d) None of
                   None \<Rightarrow> Inl (NoPredecessor k target)
                 | Some (p, e) \<Rightarrow>
                     path_back pg d sel dir depths start target p (ids @ [p]) (edges @ [edge_ref_of e]))))"
  by pat_completeness auto
termination
  by (relation "measure (\<lambda>(pg, d, sel, dir, depths, start, target, current, ids, edges).
        case hm_get depths current of Some k \<Rightarrow> k | None \<Rightarrow> 0)")
    (auto dest: best_pred_in)

declare path_back.simps [simp del] walk_loop.simps [simp del]

definition shortest_walk_path ::
    "petgraph \<Rightarrow> graph_db \<Rightarrow> string \<Rightarrow> string \<Rightarrow> hop_map \<Rightarrow> edge_selector \<Rightarrow> direction \<Rightarrow>
     query_error + graph_path" where
  "shortest_walk_path pg d start target depths sel dir =
     res_bind (path_back pg d sel dir depths start target target [target] []) (\<lambda>(ids, edges).
     res_bind (res_map (\<lambda>i. case get_node i d of None \<Rightarrow> Inl (PathNodeVanished i) | Some n \<Rightarrow> Inr (ref_of n))
                 (rev ids)) (\<lambda>nodes.
       Inr \<lparr>gp_nodes = nodes, gp_edges = rev edges\<rparr>))"

section \<open>The candidates of a connect\<close>

record candidate =
  ca_node :: node_ref
  ca_hops :: nat
  ca_seed :: string
  ca_direction :: direction
  ca_path :: graph_path

definition direction_rank :: "direction \<Rightarrow> nat" where
  "direction_rank dir = (case dir of Outgoing \<Rightarrow> 0 | Incoming \<Rightarrow> 1)"

definition cand_key :: "candidate \<Rightarrow> nat \<times> nat \<times> string" where
  "cand_key c = (ca_hops c, direction_rank (ca_direction c), ca_seed c)"

definition beats :: "candidate \<Rightarrow> candidate \<Rightarrow> bool" where
  "beats c prev \<longleftrightarrow> cand_key c < cand_key prev"

definition candidate_at ::
    "petgraph \<Rightarrow> graph_db \<Rightarrow> string \<Rightarrow> edge_selector \<Rightarrow> nat \<times> nat \<Rightarrow> direction \<Rightarrow> hop_map \<Rightarrow> string \<Rightarrow>
     query_error + candidate option" where
  "candidate_at pg d start sel bounds dir depths i =
     (case hm_get depths i of
        None \<Rightarrow> Inl Panicked
      | Some depth \<Rightarrow>
          if \<not> (fst bounds \<le> depth \<and> depth \<le> snd bounds) then Inr None
          else
            res_bind (shortest_walk_path pg d start i depths sel dir) (\<lambda>path.
              Inr (map_option (\<lambda>n. \<lparr>ca_node = ref_of n, ca_hops = depth, ca_seed = start,
                                    ca_direction = dir, ca_path = path\<rparr>)
                (get_node i d))))"

definition bfs_traverse ::
    "petgraph \<Rightarrow> graph_db \<Rightarrow> string \<Rightarrow> edge_selector \<Rightarrow> nat \<times> nat \<Rightarrow> direction \<Rightarrow>
     query_error + candidate list" where
  "bfs_traverse pg d start sel bounds dir =
     (let unknown = edge_unknown sel in
      if unknown \<noteq> [] then Inl (UnknownEdgeTypes unknown)
      else
        res_bind (walk_loop pg d sel (snd bounds) dir [start] (hm_put start 0 hm_empty) [])
          (\<lambda>(depths, discovery).
             res_bind (res_map (candidate_at pg d start sel bounds dir depths) discovery)
               (\<lambda>found. Inr (List.map_filter id found))))"

definition add_candidate ::
    "candidate \<Rightarrow> (string, candidate) hmap \<times> string list \<Rightarrow> (string, candidate) hmap \<times> string list" where
  "add_candidate c = (\<lambda>(best, order).
     let i = nr_id (ca_node c) in
     (case hm_get best i of
        None \<Rightarrow> (hm_put i c best, order @ [i])
      | Some prev \<Rightarrow> if beats c prev then (hm_put i c best, order) else (best, order)))"

primrec gather ::
    "petgraph \<Rightarrow> graph_db \<Rightarrow> edge_selector \<Rightarrow> nat \<times> nat \<Rightarrow> (direction \<times> string) list \<Rightarrow>
     (string, candidate) hmap \<times> string list \<Rightarrow>
     query_error + (string, candidate) hmap \<times> string list" where
  "gather pg d sel bounds [] acc = Inr acc"
| "gather pg d sel bounds (ds # rest) acc =
     res_bind (bfs_traverse pg d (snd ds) sel bounds (fst ds)) (\<lambda>cands.
       gather pg d sel bounds rest (fold add_candidate cands acc))"

definition walk_directions :: "query_direction \<Rightarrow> direction list" where
  "walk_directions qd =
     (case qd of QOutgoing \<Rightarrow> [Outgoing] | QIncoming \<Rightarrow> [Incoming] | QBoth \<Rightarrow> [Outgoing, Incoming])"

definition target_filter :: "find_op option \<Rightarrow> graph_db \<Rightarrow> string list \<Rightarrow> query_error + string list" where
  "target_filter target d order =
     (case target of
        None \<Rightarrow> Inr order
      | Some f \<Rightarrow>
          res_bind (check_node_types f) (\<lambda>_.
            let allowed = filter (\<lambda>i. opt_all (\<lambda>want. want = i) (fo_id f))
                  (map gn_id (query_nodes (fo_type f) (fo_name f) (fo_label f) (fo_path f) d))
            in Inr (filter (\<lambda>i. i \<in> set allowed) order)))"

primrec take_best ::
    "string list \<Rightarrow> (string, candidate) hmap \<Rightarrow> node_ref list \<Rightarrow> (string, graph_path) hmap \<Rightarrow>
     node_ref list \<times> (string, graph_path) hmap" where
  "take_best [] best nodes paths = (nodes, paths)"
| "take_best (i # order) best nodes paths =
     (case hm_get best i of
        None \<Rightarrow> take_best order best nodes paths
      | Some c \<Rightarrow> take_best order (hm_del i best) (nodes @ [ca_node c]) (hm_put i (ca_path c) paths))"

definition execute_connect ::
    "petgraph \<Rightarrow> graph_db \<Rightarrow> node_ref list \<Rightarrow> connect_op \<Rightarrow>
     query_error + node_ref list \<times> (string, graph_path) hmap \<times> nat" where
  "execute_connect pg d seeds co =
     (if seeds = [] then Inr ([], hm_empty, 0)
      else
        let walks = List.product (walk_directions (co_direction co)) (map nr_id seeds) in
        res_bind (gather pg d (co_edge co) (to_range (co_depth co)) walks (hm_empty, [])) (\<lambda>(best, order).
        res_bind (target_filter (co_target co) d order) (\<lambda>order.
          let (nodes, paths) = take_best order best [] hm_empty in
          Inr (nodes, paths, length order))))"

section \<open>Semantic filter\<close>

text \<open>
  What the executor uses of the embedder, the cache and the workspace: embedding a query and
  a text, reading a stored embedding, the text of a node, the similarity, and the cache's
  lookup and insertion, which both reorder it.
\<close>

record ('c, 'v) embedder =
  em_query :: "string \<Rightarrow> 'v option"
  em_text :: "string \<Rightarrow> 'v option"
  em_read :: "string \<Rightarrow> 'v option"
  em_enrich :: "graph_node \<Rightarrow> string"
  em_cosine :: "'v \<Rightarrow> 'v \<Rightarrow> f32"
  em_get :: "string \<Rightarrow> 'c \<Rightarrow> 'v option \<times> 'c"
  em_put :: "string \<Rightarrow> 'v \<Rightarrow> 'c \<Rightarrow> 'c"

definition get_node_embedding :: "('c, 'v) embedder \<Rightarrow> graph_node \<Rightarrow> 'c \<Rightarrow> 'v option \<times> 'c" where
  "get_node_embedding em n cache =
     (case em_get em (gn_id n) cache of
        (Some v, c) \<Rightarrow> (Some v, c)
      | (None, c) \<Rightarrow>
          (case Option.bind (gn_embedding n) (em_read em) of
             Some v \<Rightarrow> (Some v, em_put em (gn_id n) v c)
           | None \<Rightarrow>
               (case em_text em (em_enrich em n) of
                  Some v \<Rightarrow> (Some v, em_put em (gn_id n) v c)
                | None \<Rightarrow> (None, c))))"

definition semantic_keep ::
    "('c, 'v) embedder \<Rightarrow> 'v \<Rightarrow> f32 \<Rightarrow> (string, graph_node) hmap \<Rightarrow> node_ref \<Rightarrow> 'c \<Rightarrow> bool \<times> 'c" where
  "semantic_keep em query threshold nodes r cache =
     (case hm_get nodes (nr_id r) of
        None \<Rightarrow> (False, cache)
      | Some n \<Rightarrow>
          (case get_node_embedding em n cache of
             (Some v, c) \<Rightarrow> (threshold < em_cosine em query v, c)
           | (None, c) \<Rightarrow> (False, c)))"

primrec retain_with :: "('a \<Rightarrow> 'c \<Rightarrow> bool \<times> 'c) \<Rightarrow> 'a list \<Rightarrow> 'c \<Rightarrow> 'a list \<times> 'c" where
  "retain_with f [] c = ([], c)"
| "retain_with f (x # xs) c =
     (let (keep, c1) = f x c; (ys, c2) = retain_with f xs c1 in (if keep then x # ys else ys, c2))"

definition apply_semantic_filter ::
    "('c, 'v) embedder \<Rightarrow> graph_db \<Rightarrow> semantic_op \<Rightarrow> node_ref list \<Rightarrow> 'c \<Rightarrow>
     query_error + node_ref list \<times> 'c" where
  "apply_semantic_filter em d sem nodes cache =
     (if nodes = [] then Inr (nodes, cache)
      else (case em_query em (so_like sem) of
              None \<Rightarrow> Inl EmbedFailed
            | Some q \<Rightarrow>
                let all = fold (\<lambda>n. hm_put (gn_id n) n) (node_weights (db_graph d)) hm_empty in
                Inr (retain_with (semantic_keep em q (so_threshold sem) all) nodes cache)))"

section \<open>Group, sort, limit\<close>

definition group_key :: "group_by \<Rightarrow> node_ref \<Rightarrow> string" where
  "group_key by n =
     (case by of
        GroupByType \<Rightarrow> nr_type n
      | GroupByLabel \<Rightarrow> (case nr_label n of Some l \<Rightarrow> l | None \<Rightarrow> [])
      | GroupByName \<Rightarrow> nr_name n)"

definition push_group :: "string \<Rightarrow> node_ref \<Rightarrow> (string, node_ref list) hmap \<Rightarrow> (string, node_ref list) hmap" where
  "push_group k n m = hm_put k ((case hm_get m k of Some ns \<Rightarrow> ns | None \<Rightarrow> []) @ [n]) m"

definition apply_group :: "node_ref list \<Rightarrow> group_by \<Rightarrow> query_group list" where
  "apply_group nodes by =
     map (\<lambda>(k, ns). \<lparr>qg_key = k, qg_nodes = ns, qg_count = length ns\<rparr>)
       (fold (\<lambda>n. push_group (group_key by n) n) nodes hm_empty)"

text \<open>\<open>slice::sort_by\<close> is a stable sort by the comparison.\<close>

primrec insert_by :: "('a \<Rightarrow> 'a \<Rightarrow> bool) \<Rightarrow> 'a \<Rightarrow> 'a list \<Rightarrow> 'a list" where
  "insert_by le x [] = [x]"
| "insert_by le x (y # ys) = (if le x y then x # y # ys else y # insert_by le x ys)"

definition sort_by :: "('a \<Rightarrow> 'a \<Rightarrow> bool) \<Rightarrow> 'a list \<Rightarrow> 'a list" where
  "sort_by le xs = foldr (insert_by le) xs []"

definition sort_le :: "sort_field \<Rightarrow> sort_direction \<Rightarrow> node_ref \<Rightarrow> node_ref \<Rightarrow> bool" where
  "sort_le field dir a b =
     (let (a, b) = (case dir of Asc \<Rightarrow> (a, b) | Desc \<Rightarrow> (b, a)) in
      (case field of
         SortName \<Rightarrow> nr_name a \<le> nr_name b
       | SortType \<Rightarrow> nr_type a \<le> nr_type b
       | SortLabel \<Rightarrow> nr_label a \<le> nr_label b))"

definition apply_sort :: "sort_field \<Rightarrow> sort_direction \<Rightarrow> node_ref list \<Rightarrow> node_ref list" where
  "apply_sort field dir = sort_by (sort_le field dir)"

definition apply_limit :: "limit_op \<Rightarrow> node_ref list \<Rightarrow> node_ref list" where
  "apply_limit l nodes =
     (let rest = (if 0 < lo_offset l then drop (min (lo_offset l) (length nodes)) nodes else nodes)
      in if lo_count l < length rest then take (lo_count l) rest else rest)"

section \<open>Running a query\<close>

record 'c run_state =
  rs_nodes :: "node_ref list"
  rs_paths :: "(string, graph_path) hmap"
  rs_groups :: "query_group list option"
  rs_visited :: nat
  rs_cache :: 'c

definition run_start :: "'c \<Rightarrow> 'c run_state" where
  "run_start cache =
     \<lparr>rs_nodes = [], rs_paths = hm_empty, rs_groups = None, rs_visited = 0, rs_cache = cache\<rparr>"

fun run_op ::
    "petgraph \<Rightarrow> ('c, 'v) embedder \<Rightarrow> graph_db \<Rightarrow> query_op \<Rightarrow> 'c run_state \<Rightarrow> query_error + 'c run_state" where
  "run_op pg em d (QFind f) s =
     res_bind (execute_find f d) (\<lambda>nodes.
       Inr (s\<lparr>rs_nodes := nodes, rs_paths := hm_empty, rs_visited := rs_visited s + length nodes\<rparr>))"
| "run_op pg em d (QConnect co) s =
     res_bind (execute_connect pg d (rs_nodes s) co) (\<lambda>(nodes, paths, visited).
       Inr (s\<lparr>rs_nodes := nodes, rs_paths := paths, rs_visited := rs_visited s + visited\<rparr>))"
| "run_op pg em d (QFilter f) s = Inr (s\<lparr>rs_nodes := apply_filter f (rs_nodes s)\<rparr>)"
| "run_op pg em d (QSemantic sem) s =
     res_bind (apply_semantic_filter em d sem (rs_nodes s) (rs_cache s)) (\<lambda>(nodes, cache).
       Inr (s\<lparr>rs_nodes := nodes, rs_cache := cache\<rparr>))"
| "run_op pg em d (QGroup by) s = Inr (s\<lparr>rs_groups := Some (apply_group (rs_nodes s) by)\<rparr>)"
| "run_op pg em d (QSort field dir) s = Inr (s\<lparr>rs_nodes := apply_sort field dir (rs_nodes s)\<rparr>)"
| "run_op pg em d (QLimit l) s = Inr (s\<lparr>rs_nodes := apply_limit l (rs_nodes s)\<rparr>)"

primrec run_ops ::
    "petgraph \<Rightarrow> ('c, 'v) embedder \<Rightarrow> graph_db \<Rightarrow> query_op list \<Rightarrow> 'c run_state \<Rightarrow> query_error + 'c run_state" where
  "run_ops pg em d [] s = Inr s"
| "run_ops pg em d (op # ops) s = res_bind (run_op pg em d op s) (run_ops pg em d ops)"

fun is_limit :: "query_op \<Rightarrow> bool" where
  "is_limit (QLimit l) = True"
| "is_limit _ = False"

definition edge_ref_key :: "edge_ref \<Rightarrow> string \<times> string \<times> string" where
  "edge_ref_key e = (er_from e, er_to e, er_type e)"

text \<open>The \<open>BTreeMap\<close> of edges: the first edge of each key, in the order of the keys.\<close>

definition add_edge_ref ::
    "edge_ref \<Rightarrow> (string \<times> string \<times> string, edge_ref) hmap \<Rightarrow> (string \<times> string \<times> string, edge_ref) hmap" where
  "add_edge_ref e m = (if hm_get m (edge_ref_key e) = None then hm_put (edge_ref_key e) e m else m)"

definition kept_paths :: "node_ref list \<Rightarrow> (string, graph_path) hmap \<Rightarrow> graph_path list" where
  "kept_paths nodes paths = List.map_filter (\<lambda>n. hm_get paths (nr_id n)) nodes"

definition edges_of_paths :: "graph_path list \<Rightarrow> edge_ref list" where
  "edges_of_paths paths =
     sort_key edge_ref_key (hm_vals (fold add_edge_ref (concat (map gp_edges paths)) hm_empty))"

definition finish :: "nat \<Rightarrow> query_op list \<Rightarrow> 'c run_state \<Rightarrow> query_result" where
  "finish default_limit ops s =
     (let matched = length (rs_nodes s);
          truncated = (\<not> list_ex is_limit ops \<and> 0 < default_limit \<and> default_limit < matched);
          nodes = (if truncated then take default_limit (rs_nodes s) else rs_nodes s);
          paths = kept_paths nodes (rs_paths s) in
      \<lparr>qr_nodes = nodes, qr_edges = edges_of_paths paths, qr_paths = paths, qr_count = length nodes,
       qr_legacy = False, qr_visited = rs_visited s, qr_truncated = truncated,
       qr_matched_before_limit = (if truncated then Some matched else None), qr_groups = rs_groups s\<rparr>)"

definition run_pipeline ::
    "petgraph \<Rightarrow> ('c, 'v) embedder \<Rightarrow> nat \<Rightarrow> graph_db \<Rightarrow> query_op list \<Rightarrow> 'c \<Rightarrow>
     query_error + query_result \<times> 'c" where
  "run_pipeline pg em default_limit d ops cache =
     res_bind (run_ops pg em d ops (run_start cache)) (\<lambda>s.
       Inr (finish default_limit ops s, rs_cache s))"

text \<open>
  A prebuilt query has mode \<open>Auto\<close> and no name, so the source's recursive call of
  \<open>execute\<close> on it runs its operations.
\<close>

definition execute_named ::
    "petgraph \<Rightarrow> ('c, 'v) embedder \<Rightarrow> nat \<Rightarrow> graph_db \<Rightarrow> string \<Rightarrow> 'c \<Rightarrow> query_error + query_result \<times> 'c" where
  "execute_named pg em default_limit d name cache =
     (case named_query name of
        None \<Rightarrow> Inl (UnknownNamed name)
      | Some spec \<Rightarrow>
          res_bind (run_pipeline pg em default_limit d (qs_ops spec) cache) (\<lambda>(result, cache).
            Inr (result\<lparr>qr_legacy := True\<rparr>, cache)))"

definition execute ::
    "petgraph \<Rightarrow> ('c, 'v) embedder \<Rightarrow> nat \<Rightarrow> graph_db \<Rightarrow> query_spec \<Rightarrow> 'c \<Rightarrow>
     query_error + query_result \<times> 'c" where
  "execute pg em default_limit d spec cache =
     (case (qs_mode spec, qs_named spec) of
        (ModeTool, None) \<Rightarrow> Inl ToolWithoutName
      | (ModeTool, Some name) \<Rightarrow> execute_named pg em default_limit d name cache
      | (ModeQuery, Some _) \<Rightarrow> Inl OpsWithName
      | (ModeAuto, Some name) \<Rightarrow> execute_named pg em default_limit d name cache
      | (_, None) \<Rightarrow> run_pipeline pg em default_limit d (qs_ops spec) cache)"

end
