(* ===== verification/Query_Props.thy ===== *)
theory Query_Props
  imports Query_Exec Graph_Props
begin

text \<open>
  What a query returns: the nodes and paths of a connect, and the pipeline around it.
\<close>

section \<open>The walk of a connect\<close>

definition selects :: "edge_selector \<Rightarrow> graph_edge \<Rightarrow> bool" where
  "selects sel e = edge_matches sel (edge_type_name (ge_type e))"

definition follow :: "petgraph \<Rightarrow> graph_db \<Rightarrow> edge_selector \<Rightarrow> direction \<Rightarrow> string \<Rightarrow> string list" where
  "follow pg d sel dir i =
     map (\<lambda>(n, _). gn_id n) (filter (\<lambda>(_, e). selects sel e) (get_neighbors pg i dir d))"

lemma get_node_iff:
  assumes "db_ok who d"
  shows "get_node a d = Some m \<longleftrightarrow> (\<exists>x. g_node (db_graph d) x = Some m \<and> gn_id m = a)"
  by (auto simp: get_node_def bind_eq_Some_conv db_ok_lookup [OF assms])

lemma neighbors_iff:
  assumes "db_ok who d"
  shows "(n, e) \<in> set (get_neighbors pg i dir d) \<longleftrightarrow>
    e \<in> set (edge_weights (db_graph d)) \<and> get_node (gn_id n) d = Some n \<and>
    (case dir of Outgoing \<Rightarrow> i = ge_source_id e \<and> gn_id n = ge_target_id e
     | Incoming \<Rightarrow> i = ge_target_id e \<and> gn_id n = ge_source_id e)"
proof -
  let ?g = "db_graph d"
  have look: "hm_get (db_index d) a = Some x \<longleftrightarrow> (\<exists>m. g_node ?g x = Some m \<and> gn_id m = a)" for a x
    by (auto simp: db_ok_lookup [OF assms])
  have node: "get_node a d = Some m \<longleftrightarrow> (\<exists>x. g_node ?g x = Some m \<and> gn_id m = a)" for a m
    by (rule get_node_iff [OF assms])
  have ends: "\<exists>m. g_node ?g s = Some m \<and> gn_id m = ge_source_id w"
    "\<exists>m. g_node ?g t = Some m \<and> gn_id m = ge_target_id w" if "(s, t, w) \<in> set (g_edges ?g)" for s t w
    using db_ok_ends [OF assms that] by metis+
  have src: "hm_get (db_index d) i = Some s \<longleftrightarrow> i = ge_source_id w"
    and tgt: "hm_get (db_index d) i = Some t \<longleftrightarrow> i = ge_target_id w" if "(s, t, w) \<in> set (g_edges ?g)" for s t w
    using ends [OF that] unfolding look by auto
  have "(n, e) \<in> set (get_neighbors pg i dir d) \<longleftrightarrow>
      (\<exists>x y. hm_get (db_index d) i = Some x \<and> g_node ?g y = Some n \<and>
        (case dir of Outgoing \<Rightarrow> (x, y, e) | Incoming \<Rightarrow> (y, x, e)) \<in> set (g_edges ?g))"
    by (cases dir) (force simp: get_neighbors_def set_map_filter_Some set_edges_directed far_end_def
        split: option.splits)+
  also have "\<dots> \<longleftrightarrow> (\<exists>s t. (s, t, e) \<in> set (g_edges ?g) \<and>
      (case dir of Outgoing \<Rightarrow> i = ge_source_id e \<and> g_node ?g t = Some n
       | Incoming \<Rightarrow> i = ge_target_id e \<and> g_node ?g s = Some n))"
    by (cases dir) (use src tgt in \<open>simp_all, blast+\<close>)
  also have "\<dots> \<longleftrightarrow> e \<in> set (edge_weights ?g) \<and> get_node (gn_id n) d = Some n \<and>
      (case dir of Outgoing \<Rightarrow> i = ge_source_id e \<and> gn_id n = ge_target_id e
       | Incoming \<Rightarrow> i = ge_target_id e \<and> gn_id n = ge_source_id e)" (is "?L \<longleftrightarrow> ?R")
  proof
    assume ?L
    then obtain s t where st: "(s, t, e) \<in> set (g_edges ?g)"
      "case dir of Outgoing \<Rightarrow> i = ge_source_id e \<and> g_node ?g t = Some n
       | Incoming \<Rightarrow> i = ge_target_id e \<and> g_node ?g s = Some n" by blast
    then have "e \<in> set (edge_weights ?g)" by (force simp: edge_weights_def)
    with st ends [OF st(1)] show ?R by (cases dir) (auto simp: node)
  next
    assume R: ?R
    then obtain s t x where st: "(s, t, e) \<in> set (g_edges ?g)" and x: "g_node ?g x = Some n"
      by (auto simp: edge_weights_def node)
    from R ends [OF st] db_ok_unique [OF assms x] have "case dir of Outgoing \<Rightarrow> t = x | Incoming \<Rightarrow> s = x"
      by (cases dir) auto
    with R st x show ?L by (cases dir) auto
  qed
  finally show ?thesis .
qed

lemma hops_follow:
  assumes "db_ok who d"
  shows "hops (follow pg d sel dir) = edge_rel dir (selects sel) d"
proof -
  have live: "\<exists>n. get_node (ge_source_id e) d = Some n \<and> gn_id n = ge_source_id e"
    "\<exists>n. get_node (ge_target_id e) d = Some n \<and> gn_id n = ge_target_id e"
    if "e \<in> set (edge_weights (db_graph d))" for e
  proof -
    from that obtain s t where st: "(s, t, e) \<in> set (g_edges (db_graph d))"
      by (auto simp: edge_weights_def)
    from db_ok_ends [OF assms st] obtain m n where
      "g_node (db_graph d) s = Some m" "gn_id m = ge_source_id e"
      "g_node (db_graph d) t = Some n" "gn_id n = ge_target_id e" .
    then show "\<exists>n. get_node (ge_source_id e) d = Some n \<and> gn_id n = ge_source_id e"
      "\<exists>n. get_node (ge_target_id e) d = Some n \<and> gn_id n = ge_target_id e"
      by (auto simp: get_node_iff [OF assms])
  qed
  have "(a, b) \<in> hops (follow pg d sel dir) \<longleftrightarrow>
      (\<exists>n e. selects sel e \<and> gn_id n = b \<and> (n, e) \<in> set (get_neighbors pg a dir d))" for a b
    by (auto simp: hops_def follow_def)
  then show ?thesis
    unfolding neighbors_iff [OF assms] edge_rel_def using live
    by (cases dir) (auto, metis+)
qed

definition picked :: "edge_selector \<Rightarrow> (graph_node \<times> graph_edge) list \<Rightarrow> string list" where
  "picked sel rs = map (\<lambda>(n, _). gn_id n) (filter (\<lambda>(_, e). selects sel e) rs)"

lemma walk_edges_newly:
  "\<exists>depths'. walk_edges sel depth rs (depths, discovery, queue) =
       (depths', discovery @ newly (picked sel rs) (dom (hm_get depths)),
        queue @ newly (picked sel rs) (dom (hm_get depths)))
   \<and> hm_get depths' =
       Traversal.extend (hm_get depths) (newly (picked sel rs) (dom (hm_get depths))) (Suc depth)"
proof (induction rs arbitrary: depths discovery queue)
  case Nil
  then show ?case by (simp add: Traversal.extend_def picked_def)
next
  case (Cons r rs)
  obtain n e where r: "r = (n, e)" by (cases r)
  show ?case
  proof (cases "selects sel e \<and> gn_id n \<notin> dom (hm_get depths)")
    case False
    then have "newly (picked sel (r # rs)) (dom (hm_get depths)) = newly (picked sel rs) (dom (hm_get depths))"
      by (auto simp: picked_def r)
    with False Cons.IH [of depths discovery queue] show ?thesis
      by (auto simp: r selects_def domIff)
  next
    case True
    let ?h = "hm_put (gn_id n) (Suc depth) depths"
    define new where "new = newly (picked sel rs) (insert (gn_id n) (dom (hm_get depths)))"
    have put: "hm_get ?h = (hm_get depths)(gn_id n \<mapsto> Suc depth)" by (simp add: fun_eq_iff)
    have "newly (picked sel (r # rs)) (dom (hm_get depths)) = gn_id n # new"
      using True by (simp add: picked_def r new_def)
    moreover have "newly (picked sel rs) (dom (hm_get ?h)) = new" by (simp add: put new_def)
    moreover have "Traversal.extend (hm_get ?h) new (Suc depth)
        = Traversal.extend (hm_get depths) (gn_id n # new) (Suc depth)"
      by (simp add: put Traversal.extend_def fun_eq_iff)
    moreover have "walk_edges sel depth (r # rs) (depths, discovery, queue)
        = walk_edges sel depth rs (?h, discovery @ [gn_id n], queue @ [gn_id n])"
      using True by (simp add: r selects_def domIff)
    moreover obtain depths' where
      "walk_edges sel depth rs (?h, discovery @ [gn_id n], queue @ [gn_id n]) =
         (depths', (discovery @ [gn_id n]) @ newly (picked sel rs) (dom (hm_get ?h)),
          (queue @ [gn_id n]) @ newly (picked sel rs) (dom (hm_get ?h)))"
      "hm_get depths' = Traversal.extend (hm_get ?h) (newly (picked sel rs) (dom (hm_get ?h))) (Suc depth)"
      using Cons.IH [of ?h "discovery @ [gn_id n]" "queue @ [gn_id n]"] by blast
    ultimately show ?thesis by (intro exI [of _ depths']) (simp only: append_assoc append.simps simp_thms)
  qed
qed

definition walk_state ::
    "(string \<Rightarrow> string list) \<Rightarrow> string \<Rightarrow> nat \<Rightarrow> string list \<Rightarrow> hop_map \<Rightarrow> string list \<Rightarrow> bool" where
  "walk_state succ start hi queue depths discovery \<longleftrightarrow>
     set queue \<subseteq> dom (hm_get depths)
     \<and> bfs_inv succ start hi (map (\<lambda>i. (i, the (hm_get depths i))) queue) (hm_get depths)
     \<and> distinct discovery \<and> set discovery = dom (hm_get depths) - {start}"

lemma walk_loop_state:
  "walk_state (follow pg d sel dir) start hi queue depths discovery \<Longrightarrow>
    \<exists>depths' discovery'. walk_loop pg d sel hi dir queue depths discovery = Inr (depths', discovery')
      \<and> walk_state (follow pg d sel dir) start hi [] depths' discovery'"
proof (induction pg d sel hi dir queue depths discovery rule: walk_loop.induct)
  case (1 pg d sel hi dir depths discovery)
  then show ?case by (simp add: walk_loop.simps)
next
  case (2 pg d sel hi dir current queue depths discovery)
  let ?succ = "follow pg d sel dir"
  note ws = 2(3)
  from ws obtain depth where depth: "hm_get depths current = Some depth"
    by (auto simp: walk_state_def)
  have inv: "bfs_inv ?succ start hi ((current, depth) # map (\<lambda>i. (i, the (hm_get depths i))) queue) (hm_get depths)"
    using ws depth by (simp add: walk_state_def)
  show ?case
  proof (cases "hi < Suc depth")
    case True
    then have "walk_state ?succ start hi queue depths discovery"
      using ws bfs_inv_skip [OF inv] by (simp add: walk_state_def)
    from 2(1) [OF depth True this] show ?thesis using depth True by (simp add: walk_loop.simps)
  next
    case False
    define new where "new = newly (?succ current) (dom (hm_get depths))"
    obtain depths' where st: "walk_edges sel depth (get_neighbors pg current dir d) (depths, discovery, queue)
        = (depths', discovery @ new, queue @ new)"
      and get: "hm_get depths' = Traversal.extend (hm_get depths) new (Suc depth)"
      using walk_edges_newly [of sel depth "get_neighbors pg current dir d" depths discovery queue]
      by (auto simp: new_def follow_def picked_def)
    have new: "set new = set (?succ current) - dom (hm_get depths)" "distinct new"
      by (simp_all add: new_def set_newly distinct_newly)
    have q: "set queue \<subseteq> dom (hm_get depths)" using ws by (simp add: walk_state_def)
    have maps: "map (\<lambda>i. (i, the (hm_get depths' i))) (queue @ new)
        = map (\<lambda>i. (i, the (hm_get depths i))) queue @ map (\<lambda>i. (i, Suc depth)) new"
      using q new(1) by (auto simp: get Traversal.extend_def)
    have "bfs_inv ?succ start hi (map (\<lambda>i. (i, the (hm_get depths' i))) (queue @ new)) (hm_get depths')"
      unfolding maps unfolding get new_def using bfs_inv_expand [OF inv] False by simp
    moreover have "start \<in> dom (hm_get depths)" using inv by (auto simp: bfs_inv_def)
    moreover have "dom (hm_get depths') = dom (hm_get depths) \<union> set new" by (simp add: get dom_extend)
    moreover have "distinct discovery" "set discovery = dom (hm_get depths) - {start}"
      using ws by (simp_all add: walk_state_def)
    ultimately have "walk_state ?succ start hi (queue @ new) depths' (discovery @ new)"
      using q new unfolding walk_state_def by (intro conjI) (assumption | auto)+
    from 2(2) [OF depth False refl] this show ?thesis
      using depth False by (simp add: walk_loop.simps st)
  qed
qed

lemma walk_loop_distances:
  assumes "db_ok who d"
  obtains depths discovery where
    "walk_loop pg d sel hi dir [start] (hm_put start 0 hm_empty) [] = Inr (depths, discovery)"
    "\<forall>b k. hm_get depths b = Some k \<longleftrightarrow> k \<le> hi \<and> distance (edge_rel dir (selects sel) d) start b k"
    "distinct discovery" "set discovery = {b. hm_get depths b \<noteq> None} - {start}"
proof -
  have get: "hm_get (hm_put start 0 hm_empty) = [start \<mapsto> 0]" by auto
  have "walk_state (follow pg d sel dir) start hi [start] (hm_put start 0 hm_empty) []"
    unfolding walk_state_def get using bfs_inv_start by simp
  from walk_loop_state [OF this] obtain depths discovery where
    l: "walk_loop pg d sel hi dir [start] (hm_put start 0 hm_empty) [] = Inr (depths, discovery)"
    and w: "walk_state (follow pg d sel dir) start hi [] depths discovery" by blast
  from w have "bfs_inv (follow pg d sel dir) start hi [] (hm_get depths)" by (simp add: walk_state_def)
  from bfs_inv_done [OF this]
  have "hm_get depths b = Some k \<longleftrightarrow> k \<le> hi \<and> distance (edge_rel dir (selects sel) d) start b k" for b k
    by (simp add: hop_dist_def distance_def hops_follow [OF assms])
  moreover have "distinct discovery" "set discovery = {b. hm_get depths b \<noteq> None} - {start}"
    using w by (auto simp: walk_state_def)
  ultimately show ?thesis using that l by blast
qed

section \<open>The path of a walk\<close>

text \<open>The ids of a path with the references of the edges between them.\<close>

definition step_ref :: "edge_selector \<Rightarrow> direction \<Rightarrow> graph_db \<Rightarrow> string \<Rightarrow> string \<Rightarrow> edge_ref \<Rightarrow> bool" where
  "step_ref sel dir d a b r \<longleftrightarrow>
     (\<exists>e \<in> set (edge_weights (db_graph d)). selects sel e \<and> r = edge_ref_of e \<and>
        (case dir of Outgoing \<Rightarrow> a = ge_source_id e \<and> b = ge_target_id e
         | Incoming \<Rightarrow> a = ge_target_id e \<and> b = ge_source_id e))"

fun path_refs :: "edge_selector \<Rightarrow> direction \<Rightarrow> graph_db \<Rightarrow> string list \<Rightarrow> edge_ref list \<Rightarrow> bool" where
  "path_refs sel dir d [a] [] = True"
| "path_refs sel dir d (a # b # ids) (r # refs) = (step_ref sel dir d a b r \<and> path_refs sel dir d (b # ids) refs)"
| "path_refs sel dir d _ _ = False"

lemma path_refs_snoc:
  "path_refs sel dir d ids refs \<Longrightarrow> step_ref sel dir d (last ids) b r \<Longrightarrow>
    path_refs sel dir d (ids @ [b]) (refs @ [r])"
  by (induction sel dir d ids refs rule: path_refs.induct) auto

lemma best_pred_not_None:
  "best \<noteq> None \<or> (\<exists>n e. (n, e) \<in> set rs \<and> selects sel e \<and> hm_get depths (gn_id n) = Some k) \<Longrightarrow>
    best_pred sel depths k rs best \<noteq> None"
proof (induction rs arbitrary: best)
  case (Cons r rs)
  obtain n e where r: "r = (n, e)" by (cases r)
  show ?case
  proof (cases "selects sel e \<and> hm_get depths (gn_id n) = Some k")
    case True
    then have "best_pred sel depths k (r # rs) best = best_pred sel depths k rs (Some (gn_id n, e))
      \<or> best_pred sel depths k (r # rs) best = best_pred sel depths k rs best \<and> best \<noteq> None"
      by (cases best) (auto simp: r selects_def Let_def)
    then show ?thesis using Cons.IH by force
  next
    case False
    then have "best_pred sel depths k (r # rs) best = best_pred sel depths k rs best"
      by (auto simp: r selects_def)
    moreover have "best \<noteq> None \<or> (\<exists>n e. (n, e) \<in> set rs \<and> selects sel e \<and> hm_get depths (gn_id n) = Some k)"
      using Cons.prems False by (auto simp: r)
    ultimately show ?thesis using Cons.IH by metis
  qed
qed auto

lemma distance_pred:
  assumes "distance R a b (Suc k)"
  obtains c where "distance R a c k" "(c, b) \<in> R"
proof -
  from assms obtain c where c: "(a, c) \<in> R ^^ k" "(c, b) \<in> R" by (auto simp: distance_def)
  have "(a, c) \<notin> R ^^ j" if "j < k" for j
  proof
    assume "(a, c) \<in> R ^^ j"
    with c(2) have "(a, b) \<in> R ^^ Suc j" by auto
    moreover from assms that have "(a, b) \<notin> R ^^ Suc j" unfolding distance_def using Suc_mono by blast
    ultimately show False by blast
  qed
  with c that show ?thesis by (auto simp: distance_def)
qed

lemma distance_0 [simp]: "distance R a b 0 \<longleftrightarrow> a = b"
  by (simp add: distance_def)

lemma distance_unique: "distance R a b k \<Longrightarrow> distance R a b j \<Longrightarrow> j = k"
  unfolding distance_def by (metis nat_neq_iff)

lemma path_back_correct:
  assumes "db_ok who d"
    and depths: "\<And>b k. hm_get depths b = Some k \<longleftrightarrow> k \<le> hi \<and> distance (edge_rel dir (selects sel) d) start b k"
  shows "hm_get depths current = Some k \<Longrightarrow>
    \<exists>js refs. path_back pg d sel dir depths start target current ids edges = Inr (ids @ js, edges @ refs)
      \<and> path_refs sel dir d (rev (current # js)) (rev refs) \<and> last (current # js) = start
      \<and> length js = k"
proof (induction k arbitrary: current ids edges)
  case 0
  then have "current = start" using depths by simp
  then show ?case by (subst path_back.simps) auto
next
  case (Suc k)
  let ?R = "edge_rel dir (selects sel) d"
  have dist: "distance ?R start current (Suc k)" "Suc k \<le> hi" using Suc.prems depths by simp_all
  then have ne: "current \<noteq> start" using distance_unique [of ?R start start "Suc k" 0] by auto
  from distance_pred [OF dist(1)] obtain c where c: "distance ?R start c k" "(c, current) \<in> ?R" .
  from c(2) obtain e where e: "e \<in> set (edge_weights (db_graph d))" "selects sel e"
    "case dir of Outgoing \<Rightarrow> c = ge_source_id e \<and> current = ge_target_id e
     | Incoming \<Rightarrow> c = ge_target_id e \<and> current = ge_source_id e"
    by (auto simp: edge_rel_def)
  from e(1) obtain s t where st: "(s, t, e) \<in> set (g_edges (db_graph d))" by (auto simp: edge_weights_def)
  obtain m n where mn: "get_node (ge_source_id e) d = Some m" "gn_id m = ge_source_id e"
    "get_node (ge_target_id e) d = Some n" "gn_id n = ge_target_id e"
    using db_ok_ends [OF assms(1) st] by (metis get_node_iff [OF assms(1)])
  have "\<exists>p. get_node (gn_id p) d = Some p \<and> gn_id p = c"
    using e(3) mn by (cases dir) (auto intro: exI [of _ m], auto intro: exI [of _ n])
  then have "\<exists>p. (p, e) \<in> set (get_neighbors pg current (turned dir) d) \<and> gn_id p = c"
    unfolding neighbors_iff [OF assms(1)] using e by (cases dir) (auto simp: turned_def)
  moreover have "hm_get depths c = Some k" using c(1) dist(2) depths by simp
  ultimately have "best_pred sel depths k (get_neighbors pg current (turned dir) d) None \<noteq> None"
    using e(2) by (intro best_pred_not_None) auto
  then obtain p w where best: "best_pred sel depths k (get_neighbors pg current (turned dir) d) None = Some (p, w)"
    by auto
  from best_pred_in [OF this] obtain q where q: "hm_get depths p = Some k" "selects sel w"
    "(q, w) \<in> set (get_neighbors pg current (turned dir) d)" "gn_id q = p"
    by (auto simp: selects_def)
  have step: "step_ref sel dir d p current (edge_ref_of w)"
    using q(2-4) unfolding neighbors_iff [OF assms(1)] step_ref_def
    by (cases dir) (auto simp: turned_def)
  from Suc.IH [OF q(1), of "ids @ [p]" "edges @ [edge_ref_of w]"] obtain js refs where
    IH: "path_back pg d sel dir depths start target p (ids @ [p]) (edges @ [edge_ref_of w])
      = Inr ((ids @ [p]) @ js, (edges @ [edge_ref_of w]) @ refs)"
    "path_refs sel dir d (rev (p # js)) (rev refs)" "last (p # js) = start" "length js = k" by blast
  have "path_back pg d sel dir depths start target current ids edges
      = Inr (ids @ (p # js), edges @ (edge_ref_of w # refs))"
    using ne Suc.prems best IH(1) by (subst path_back.simps) simp
  moreover have "path_refs sel dir d (rev (current # p # js)) (rev (edge_ref_of w # refs))"
    using path_refs_snoc [OF IH(2), of current] step by (simp add: last_rev)
  ultimately show ?case using IH(3,4) by (intro exI [of _ "p # js"] exI [of _ "edge_ref_of w # refs"]) simp
qed

lemma res_map_Inr: "(\<And>x. x \<in> set xs \<Longrightarrow> f x = Inr (g x)) \<Longrightarrow> res_map f xs = Inr (map g xs)"
  by (induction xs) (simp_all add: res_bind_def)

lemma step_live:
  assumes "db_ok who d" "step_ref sel dir d a b r"
  shows "get_node a d \<noteq> None \<and> get_node b d \<noteq> None"
proof -
  from assms(2) obtain e s t where e: "(s, t, e) \<in> set (g_edges (db_graph d))"
    "case dir of Outgoing \<Rightarrow> a = ge_source_id e \<and> b = ge_target_id e
     | Incoming \<Rightarrow> a = ge_target_id e \<and> b = ge_source_id e"
    by (auto simp: step_ref_def edge_weights_def)
  have "get_node (ge_source_id e) d \<noteq> None \<and> get_node (ge_target_id e) d \<noteq> None"
    using db_ok_ends [OF assms(1) e(1)] by (metis get_node_iff [OF assms(1)] option.distinct(1))
  with e(2) show ?thesis by (cases dir) auto
qed

lemma path_refs_live:
  assumes "db_ok who d"
  shows "path_refs sel dir d ids refs \<Longrightarrow> refs \<noteq> [] \<Longrightarrow> \<forall>i \<in> set ids. get_node i d \<noteq> None"
  using assms
proof (induction sel dir d ids refs rule: path_refs.induct)
  case (2 sel dir d a b ids r refs)
  from 2(2) have ends: "get_node a d \<noteq> None" "get_node b d \<noteq> None"
    using step_live [OF 2(4)] by auto
  show ?case
  proof (cases refs)
    case Nil
    with 2(2) have "ids = []" by (cases ids) auto
    with ends show ?thesis by simp
  next
    case (Cons r' refs')
    with 2 have "\<forall>i \<in> set (b # ids). get_node i d \<noteq> None" by simp
    with ends show ?thesis by simp
  qed
qed auto

lemma path_refs_length: "path_refs sel dir d ids refs \<Longrightarrow> length ids = Suc (length refs)"
  by (induction sel dir d ids refs rule: path_refs.induct) auto

lemma get_node_id: "db_ok who d \<Longrightarrow> get_node i d = Some n \<Longrightarrow> gn_id n = i"
  by (auto simp: get_node_iff)

text \<open>A path of \<open>k\<close> edges of the graph the selector takes, from the seed to the node.\<close>

definition path_between ::
    "edge_selector \<Rightarrow> direction \<Rightarrow> graph_db \<Rightarrow> string \<Rightarrow> string \<Rightarrow> nat \<Rightarrow> graph_path \<Rightarrow> bool" where
  "path_between sel dir d a b k p \<longleftrightarrow>
     path_refs sel dir d (map nr_id (gp_nodes p)) (gp_edges p)
     \<and> hd (map nr_id (gp_nodes p)) = a \<and> last (map nr_id (gp_nodes p)) = b \<and> length (gp_edges p) = k
     \<and> (\<forall>r \<in> set (gp_nodes p). \<exists>n. get_node (nr_id r) d = Some n \<and> r = ref_of n)"

lemma shortest_walk_path_correct:
  assumes "db_ok who d"
    and depths: "\<And>b k. hm_get depths b = Some k \<longleftrightarrow> k \<le> hi \<and> distance (edge_rel dir (selects sel) d) start b k"
    and b: "hm_get depths b = Some k" "0 < k"
  shows "\<exists>p. shortest_walk_path pg d start b depths sel dir = Inr p \<and> path_between sel dir d start b k p"
proof -
  from path_back_correct [OF assms(1) depths b(1), of pg b "[b]" "[]"] obtain js refs where
    walked: "path_back pg d sel dir depths start b b [b] [] = Inr ([b] @ js, [] @ refs)"
    and refs: "path_refs sel dir d (rev (b # js)) (rev refs)" "last (b # js) = start" "length js = k" by blast
  have len: "length refs = k" using path_refs_length [OF refs(1)] refs(3) by simp
  with b(2) have live: "\<forall>i \<in> set (rev (b # js)). get_node i d \<noteq> None"
    by (intro path_refs_live [OF assms(1) refs(1)]) auto
  define nodes where "nodes = map (\<lambda>i. ref_of (the (get_node i d))) (rev (b # js))"
  have "res_map (\<lambda>i. case get_node i d of None \<Rightarrow> Inl (PathNodeVanished i) | Some n \<Rightarrow> Inr (ref_of n))
      (rev (b # js)) = Inr nodes"
    unfolding nodes_def by (rule res_map_Inr) (use live in auto)
  then have path: "shortest_walk_path pg d start b depths sel dir = Inr \<lparr>gp_nodes = nodes, gp_edges = rev refs\<rparr>"
    by (simp add: shortest_walk_path_def walked res_bind_def)
  have id: "nr_id (ref_of (the (get_node i d))) = i" if "i \<in> set (rev (b # js))" for i
    using live that get_node_id [OF assms(1)] by (auto simp: ref_of_def)
  then have ids: "map nr_id nodes = rev (b # js)"
    by (simp only: nodes_def map_map comp_def cong: map_cong) simp
  have "\<exists>n. get_node (nr_id r) d = Some n \<and> r = ref_of n" if "r \<in> set nodes" for r
    using that live id by (force simp: nodes_def)
  moreover have "hd (map nr_id nodes) = start" unfolding ids hd_rev by (rule refs(2))
  moreover have "last (map nr_id nodes) = b" unfolding ids by simp
  moreover have "path_refs sel dir d (map nr_id nodes) (rev refs)" unfolding ids by (rule refs(1))
  ultimately show ?thesis
    using len by (auto simp: path_between_def path simp del: map_eq_conv)
qed

definition cand_ok :: "edge_selector \<Rightarrow> graph_db \<Rightarrow> candidate \<Rightarrow> bool" where
  "cand_ok sel d c \<longleftrightarrow>
     0 < ca_hops c
     \<and> distance (edge_rel (ca_direction c) (selects sel) d) (ca_seed c) (nr_id (ca_node c)) (ca_hops c)
     \<and> (\<exists>n. get_node (nr_id (ca_node c)) d = Some n \<and> ca_node c = ref_of n)
     \<and> path_between sel (ca_direction c) d (ca_seed c) (nr_id (ca_node c)) (ca_hops c) (ca_path c)"

definition cand_id :: "candidate \<Rightarrow> string" where
  "cand_id c = nr_id (ca_node c)"

lemma bfs_traverse_correct:
  assumes "db_ok who d" "edge_unknown sel = []"
  shows "\<exists>cs. bfs_traverse pg d start sel (lo, hi) dir = Inr cs
     \<and> distinct (map cand_id cs)
     \<and> cand_id ` set cs = {b. \<exists>k. 0 < k \<and> lo \<le> k \<and> k \<le> hi \<and> distance (edge_rel dir (selects sel) d) start b k}
     \<and> (\<forall>c \<in> set cs. cand_ok sel d c \<and> ca_seed c = start \<and> ca_direction c = dir)"
proof -
  let ?R = "edge_rel dir (selects sel) d"
  obtain depths discovery where
    loop: "walk_loop pg d sel hi dir [start] (hm_put start 0 hm_empty) [] = Inr (depths, discovery)"
    and depths_all: "\<forall>b k. hm_get depths b = Some k \<longleftrightarrow> k \<le> hi \<and> distance ?R start b k"
    and disc: "distinct discovery" "set discovery = {b. hm_get depths b \<noteq> None} - {start}"
    by (rule walk_loop_distances [OF assms(1), of pg sel hi dir start])
  note depths = depths_all [rule_format]
  define path where "path b = (SOME p. shortest_walk_path pg d start b depths sel dir = Inr p
      \<and> path_between sel dir d start b (the (hm_get depths b)) p)" for b
  define hit where "hit b \<longleftrightarrow> lo \<le> the (hm_get depths b)" for b
  define cand where "cand b = \<lparr>ca_node = ref_of (the (get_node b d)), ca_hops = the (hm_get depths b),
      ca_seed = start, ca_direction = dir, ca_path = path b\<rparr>" for b
  have seen: "\<exists>k. hm_get depths b = Some k \<and> 0 < k \<and> k \<le> hi \<and> distance ?R start b k"
    if "b \<in> set discovery" for b
  proof -
    from that disc(2) obtain k where k: "hm_get depths b = Some k" "b \<noteq> start" by auto
    with depths have "k \<le> hi" "distance ?R start b k" by simp_all
    moreover from this k(2) have "0 < k" by (cases k) auto
    ultimately show ?thesis using k(1) by blast
  qed
  have path: "shortest_walk_path pg d start b depths sel dir = Inr (path b)
      \<and> path_between sel dir d start b (the (hm_get depths b)) (path b)"
    if "b \<in> set discovery" for b
  proof -
    from seen [OF that] obtain k where k: "hm_get depths b = Some k" "0 < k" by blast
    have "\<exists>p. shortest_walk_path pg d start b depths sel dir = Inr p
        \<and> path_between sel dir d start b (the (hm_get depths b)) p"
      using shortest_walk_path_correct [OF assms(1) depths k] k(1) by simp
    then show ?thesis unfolding path_def by (rule someI_ex)
  qed
  have live: "\<exists>n. get_node b d = Some n" if "b \<in> set discovery" for b
  proof -
    from path [OF that] have p: "path_between sel dir d start b (the (hm_get depths b)) (path b)" by blast
    then have "map nr_id (gp_nodes (path b)) \<noteq> []"
      by (auto simp: path_between_def dest: path_refs_length)
    then have "b \<in> set (map nr_id (gp_nodes (path b)))"
      using p last_in_set [of "map nr_id (gp_nodes (path b))"] unfolding path_between_def by metis
    with p show ?thesis by (auto simp: path_between_def)
  qed
  have each: "candidate_at pg d start sel (lo, hi) dir depths b = Inr (if hit b then Some (cand b) else None)"
    if "b \<in> set discovery" for b
    using seen [OF that] path [OF that] live [OF that]
    by (auto simp: candidate_at_def hit_def cand_def res_bind_def)
  define cs where "cs = map cand (filter hit discovery)"
  have "List.map_filter id (map (\<lambda>b. if hit b then Some (cand b) else None) bs) = map cand (filter hit bs)" for bs
    by (induction bs) (auto simp: List.map_filter_simps)
  then have run: "bfs_traverse pg d start sel (lo, hi) dir = Inr cs"
    using loop res_map_Inr [of discovery, OF each] assms(2)
    by (simp add: bfs_traverse_def res_bind_def cs_def)
  have id: "cand_id (cand b) = b" if "b \<in> set discovery" for b
    using live [OF that] get_node_id [OF assms(1)] by (auto simp: cand_id_def cand_def ref_of_def)
  then have ids: "map cand_id cs = filter hit discovery"
    by (auto simp: cs_def comp_def intro: map_idI)
  have "cand_id ` set cs = {b. \<exists>k. 0 < k \<and> lo \<le> k \<and> k \<le> hi \<and> distance ?R start b k}"
  proof -
    have "cand_id ` set cs = set (filter hit discovery)" by (metis ids set_map)
    also have "\<dots> = {b. \<exists>k. 0 < k \<and> lo \<le> k \<and> k \<le> hi \<and> distance ?R start b k}"
    proof (intro set_eqI iffI)
      fix b assume "b \<in> set (filter hit discovery)"
      then show "b \<in> {b. \<exists>k. 0 < k \<and> lo \<le> k \<and> k \<le> hi \<and> distance ?R start b k}"
        using seen [of b] by (auto simp: hit_def)
    next
      fix b assume "b \<in> {b. \<exists>k. 0 < k \<and> lo \<le> k \<and> k \<le> hi \<and> distance ?R start b k}"
      then obtain k where k: "0 < k" "lo \<le> k" "k \<le> hi" "distance ?R start b k" by blast
      then have "hm_get depths b = Some k" by (simp add: depths)
      moreover from k have "b \<noteq> start" using distance_unique [of ?R start start k 0] by auto
      ultimately show "b \<in> set (filter hit discovery)" using k disc(2) by (simp add: hit_def)
    qed
    finally show ?thesis .
  qed
  moreover have "cand_ok sel d c \<and> ca_seed c = start \<and> ca_direction c = dir" if "c \<in> set cs" for c
  proof -
    from that obtain b where b: "b \<in> set discovery" "c = cand b" by (auto simp: cs_def)
    have nr: "nr_id (ca_node c) = b" using id [OF b(1)] b(2) by (simp add: cand_id_def)
    from seen [OF b(1)] path [OF b(1)] live [OF b(1)] show ?thesis
      unfolding cand_ok_def nr by (auto simp: b(2) cand_def)
  qed
  ultimately show ?thesis using run ids disc(1) by (intro exI [of _ cs]) simp
qed

section \<open>The best candidate for each node\<close>

definition best_of :: "candidate set \<Rightarrow> (string, candidate) hmap \<times> string list \<Rightarrow> bool" where
  "best_of seen acc \<longleftrightarrow>
     distinct (snd acc) \<and> set (snd acc) = cand_id ` seen
     \<and> (\<forall>i. hm_get (fst acc) i = None \<longleftrightarrow> i \<notin> set (snd acc))
     \<and> (\<forall>i c. hm_get (fst acc) i = Some c \<longrightarrow>
          c \<in> seen \<and> cand_id c = i \<and> (\<forall>c' \<in> seen. cand_id c' = i \<longrightarrow> cand_key c \<le> cand_key c'))"

lemma add_candidate_best:
  assumes "best_of seen acc"
  shows "best_of (insert c seen) (add_candidate c acc)"
proof -
  obtain best order where acc: "acc = (best, order)" by (cases acc)
  have base: "distinct order" "set order = cand_id ` seen" "\<And>i. hm_get best i = None \<longleftrightarrow> i \<notin> set order"
    "\<And>i e. hm_get best i = Some e \<Longrightarrow> e \<in> seen \<and> cand_id e = i \<and>
        (\<forall>c' \<in> seen. cand_id c' = i \<longrightarrow> cand_key e \<le> cand_key c')"
    using assms by (auto simp: best_of_def acc)
  show ?thesis
  proof (cases "hm_get best (cand_id c)")
    case None
    then have fresh: "cand_id c \<notin> cand_id ` seen" using base(2,3) by auto
    have "add_candidate c acc = (hm_put (cand_id c) c best, order @ [cand_id c])"
      using None by (simp add: add_candidate_def acc cand_id_def Let_def)
    moreover have "cand_id c' \<noteq> cand_id c" if "c' \<in> seen" for c' using that fresh by (metis imageI)
    ultimately show ?thesis unfolding best_of_def using base fresh by auto
  next
    case (Some prev)
    have add: "add_candidate c acc
        = (if beats c prev then (hm_put (cand_id c) c best, order) else (best, order))"
      using Some by (simp add: add_candidate_def acc cand_id_def Let_def)
    have prev: "cand_id prev = cand_id c" "prev \<in> seen"
      "\<And>c'. c' \<in> seen \<Longrightarrow> cand_id c' = cand_id c \<Longrightarrow> cand_key prev \<le> cand_key c'"
      using assms Some by (auto simp: best_of_def acc)
    have order: "cand_id c \<in> set order" using base(3) [of "cand_id c"] Some by auto
    show ?thesis
    proof (cases "beats c prev")
      case True
      then have lt: "cand_key c < cand_key prev" by (simp add: beats_def)
      have "cand_key c \<le> cand_key c'" if "c' \<in> insert c seen" "cand_id c' = cand_id c" for c'
        using that prev(3) lt by (auto intro: less_imp_le order_trans)
      then show ?thesis unfolding add best_of_def using True base order by auto
    next
      case False
      then have "cand_key prev \<le> cand_key c" by (simp add: beats_def)
      then show ?thesis unfolding add best_of_def using False base order Some
        by (auto simp del: One_nat_def)
    qed
  qed
qed

lemma fold_candidates_best: "best_of seen acc \<Longrightarrow> best_of (seen \<union> set cs) (fold add_candidate cs acc)"
proof (induction cs arbitrary: seen acc)
  case (Cons c cs)
  from Cons.IH [OF add_candidate_best [OF Cons.prems]] show ?case by simp
qed simp

definition reaches :: "edge_selector \<Rightarrow> graph_db \<Rightarrow> nat \<Rightarrow> nat \<Rightarrow> direction \<times> string \<Rightarrow> string \<Rightarrow> nat \<Rightarrow> bool" where
  "reaches sel d lo hi ds b k \<longleftrightarrow>
     0 < k \<and> lo \<le> k \<and> k \<le> hi \<and> distance (edge_rel (fst ds) (selects sel) d) (snd ds) b k"

lemma gather_correct:
  assumes "db_ok who d" "edge_unknown sel = []"
  shows "\<exists>cs. gather pg d sel (lo, hi) walks acc = Inr (fold add_candidate cs acc)
    \<and> (\<forall>c \<in> set cs. cand_ok sel d c \<and> (ca_direction c, ca_seed c) \<in> set walks \<and>
          reaches sel d lo hi (ca_direction c, ca_seed c) (cand_id c) (ca_hops c))
    \<and> (\<forall>ds \<in> set walks. \<forall>b k. reaches sel d lo hi ds b k \<longrightarrow> (\<exists>c \<in> set cs. cand_id c = b \<and> ca_hops c = k))"
proof (induction walks arbitrary: acc)
  case (Cons ds walks)
  obtain dir start where ds: "ds = (dir, start)" by (cases ds)
  let ?R = "edge_rel dir (selects sel) d"
  from bfs_traverse_correct [OF assms, of pg start lo hi dir] obtain cs where
    run: "bfs_traverse pg d start sel (lo, hi) dir = Inr cs"
    and ids: "cand_id ` set cs = {b. \<exists>k. 0 < k \<and> lo \<le> k \<and> k \<le> hi \<and> distance ?R start b k}"
    and ok: "\<forall>c \<in> set cs. cand_ok sel d c \<and> ca_seed c = start \<and> ca_direction c = dir" by blast
  from Cons.IH [of "fold add_candidate cs acc"] obtain cs' where
    run': "gather pg d sel (lo, hi) walks (fold add_candidate cs acc)
      = Inr (fold add_candidate cs' (fold add_candidate cs acc))"
    and ok': "\<forall>c \<in> set cs'. cand_ok sel d c \<and> (ca_direction c, ca_seed c) \<in> set walks \<and>
          reaches sel d lo hi (ca_direction c, ca_seed c) (cand_id c) (ca_hops c)"
    and all': "\<forall>ds \<in> set walks. \<forall>b k. reaches sel d lo hi ds b k \<longrightarrow>
          (\<exists>c \<in> set cs'. cand_id c = b \<and> ca_hops c = k)" by blast
  have hop: "distance ?R start (cand_id c) (ca_hops c)" if "c \<in> set cs" for c
    using ok that by (auto simp: cand_ok_def cand_id_def)
  have here: "reaches sel d lo hi (dir, start) (cand_id c) (ca_hops c)" if "c \<in> set cs" for c
  proof -
    from that ids obtain k where k: "0 < k" "lo \<le> k" "k \<le> hi" "distance ?R start (cand_id c) k" by blast
    with distance_unique [OF k(4) hop [OF that]] show ?thesis by (simp add: reaches_def)
  qed
  have back_to: "\<exists>c \<in> set cs. cand_id c = b \<and> ca_hops c = k" if "reaches sel d lo hi (dir, start) b k" for b k
  proof -
    from that have "b \<in> cand_id ` set cs" unfolding ids reaches_def by auto
    then obtain c where c: "c \<in> set cs" "cand_id c = b" by blast
    with that distance_unique [OF hop [OF c(1)]] have "ca_hops c = k" by (auto simp: reaches_def)
    with c show ?thesis by blast
  qed
  have "gather pg d sel (lo, hi) (ds # walks) acc = Inr (fold add_candidate (cs @ cs') acc)"
    using run run' by (simp add: ds res_bind_def)
  moreover have "\<forall>c \<in> set (cs @ cs'). cand_ok sel d c \<and> (ca_direction c, ca_seed c) \<in> set (ds # walks) \<and>
      reaches sel d lo hi (ca_direction c, ca_seed c) (cand_id c) (ca_hops c)"
    using ok ok' here ds by auto
  moreover have "\<forall>ds' \<in> set (ds # walks). \<forall>b k. reaches sel d lo hi ds' b k \<longrightarrow>
      (\<exists>c \<in> set (cs @ cs'). cand_id c = b \<and> ca_hops c = k)"
    using all' back_to unfolding ds set_append set_simps by (metis UnCI insertE)
  ultimately show ?case by blast
qed auto

lemma take_best_correct:
  "distinct order \<Longrightarrow> (\<And>i. i \<in> set order \<Longrightarrow> hm_get best i \<noteq> None) \<Longrightarrow>
    \<exists>paths'. take_best order best nodes paths =
       (nodes @ map (\<lambda>i. ca_node (the (hm_get best i))) order, paths')
     \<and> hm_get paths' = (\<lambda>i. if i \<in> set order then Some (ca_path (the (hm_get best i))) else hm_get paths i)"
proof (induction order arbitrary: best nodes paths)
  case (Cons i order)
  then obtain c where c: "hm_get best i = Some c" by fastforce
  have "\<And>j. j \<in> set order \<Longrightarrow> hm_get (hm_del i best) j \<noteq> None" using Cons.prems by auto
  from Cons.IH [OF _ this, of "nodes @ [ca_node c]" "hm_put i (ca_path c) paths"] Cons.prems(1)
  obtain paths' where
    t: "take_best order (hm_del i best) (nodes @ [ca_node c]) (hm_put i (ca_path c) paths)
      = ((nodes @ [ca_node c]) @ map (\<lambda>j. ca_node (the (hm_get (hm_del i best) j))) order, paths')"
    "hm_get paths' = (\<lambda>j. if j \<in> set order then Some (ca_path (the (hm_get (hm_del i best) j)))
        else hm_get (hm_put i (ca_path c) paths) j)" by auto
  have "map (\<lambda>j. ca_node (the (hm_get (hm_del i best) j))) order = map (\<lambda>j. ca_node (the (hm_get best j))) order"
    using Cons.prems(1) by auto
  with t c Cons.prems(1) show ?case by (auto simp: fun_eq_iff)
qed (auto simp: fun_eq_iff)

section \<open>Connect\<close>

definition live_refs :: "graph_db \<Rightarrow> node_ref list \<Rightarrow> bool" where
  "live_refs d rs \<longleftrightarrow> (\<forall>r \<in> set rs. \<exists>n. get_node (nr_id r) d = Some n \<and> r = ref_of n)"

definition found_ids :: "find_op option \<Rightarrow> graph_db \<Rightarrow> string set" where
  "found_ids target d =
     (case target of
        None \<Rightarrow> UNIV
      | Some f \<Rightarrow> {i. \<exists>rs. execute_find f d = Inr rs \<and> i \<in> nr_id ` set rs})"

definition known_target :: "find_op option \<Rightarrow> bool" where
  "known_target target \<longleftrightarrow> opt_all (\<lambda>f. opt_all (\<lambda>sel. type_unknown sel = []) (fo_type f)) target"

lemma check_known: "opt_all (\<lambda>sel. type_unknown sel = []) (fo_type f) \<longleftrightarrow> check_node_types f = Inr ()"
  by (auto simp: check_node_types_def opt_all_def Let_def split: option.splits)

lemma target_filter_correct:
  assumes "known_target target"
  shows "target_filter target d order = Inr (filter (\<lambda>i. i \<in> found_ids target d) order)"
proof (cases target)
  case (Some f)
  with assms have ok: "check_node_types f = Inr ()"
    using check_known [of f] by (simp add: known_target_def opt_all_def)
  have nr: "nr_id (ref_of n) = gn_id n" for n by (simp add: ref_of_def)
  have "i \<in> found_ids target d \<longleftrightarrow>
      i \<in> set (filter (\<lambda>i. opt_all (\<lambda>want. want = i) (fo_id f))
          (map gn_id (query_nodes (fo_type f) (fo_name f) (fo_label f) (fo_path f) d)))" for i
    by (auto simp: found_ids_def Some execute_find_def ok res_bind_def nr opt_all_def image_iff
        split: option.splits)
  then show ?thesis by (simp add: target_filter_def Some ok res_bind_def Let_def)
qed (simp add: target_filter_def found_ids_def)

lemma connect_correct:
  assumes "db_ok who d" "seeds \<noteq> []" "edge_unknown (co_edge co) = []" "known_target (co_target co)"
    and "to_range (co_depth co) = (lo, hi)"
    and "walks = List.product (walk_directions (co_direction co)) (map nr_id seeds)"
  shows "\<exists>nodes paths. execute_connect pg d seeds co = Inr (nodes, paths, length nodes)
    \<and> distinct (map nr_id nodes) \<and> live_refs d nodes
    \<and> nr_id ` set nodes =
        {b \<in> found_ids (co_target co) d. \<exists>ds \<in> set walks. \<exists>k. reaches (co_edge co) d lo hi ds b k}
    \<and> (\<forall>r \<in> set nodes. \<exists>dir start k p. hm_get paths (nr_id r) = Some p \<and> (dir, start) \<in> set walks
        \<and> path_between (co_edge co) dir d start (nr_id r) k p
        \<and> (\<forall>ds \<in> set walks. \<forall>j. reaches (co_edge co) d lo hi ds (nr_id r) j \<longrightarrow> k \<le> j))"
proof -
  let ?sel = "co_edge co"
  from gather_correct [OF assms(1,3), of pg lo hi walks "(hm_empty, [])"] obtain cs where
    run: "gather pg d ?sel (lo, hi) walks (hm_empty, []) = Inr (fold add_candidate cs (hm_empty, []))"
    and ok: "\<forall>c \<in> set cs. cand_ok ?sel d c \<and> (ca_direction c, ca_seed c) \<in> set walks \<and>
          reaches ?sel d lo hi (ca_direction c, ca_seed c) (cand_id c) (ca_hops c)"
    and all: "\<forall>ds \<in> set walks. \<forall>b k. reaches ?sel d lo hi ds b k \<longrightarrow>
          (\<exists>c \<in> set cs. cand_id c = b \<and> ca_hops c = k)" by blast
  obtain best order where acc: "fold add_candidate cs (hm_empty, []) = (best, order)" by fastforce
  have "best_of {} (hm_empty, [])" by (simp add: best_of_def)
  from fold_candidates_best [OF this, of cs] have best: "best_of (set cs) (best, order)" by (simp add: acc)
  define kept where "kept = filter (\<lambda>i. i \<in> found_ids (co_target co) d) order"
  have chosen: "\<exists>c. hm_get best i = Some c \<and> c \<in> set cs \<and> cand_id c = i \<and>
      (\<forall>c' \<in> set cs. cand_id c' = i \<longrightarrow> cand_key c \<le> cand_key c')" if "i \<in> set kept" for i
  proof -
    from that best have "hm_get best i \<noteq> None" by (simp add: kept_def best_of_def)
    then obtain c where c: "hm_get best i = Some c" by blast
    with best show ?thesis by (simp add: best_of_def)
  qed
  have "distinct kept" using best by (simp add: kept_def best_of_def)
  moreover have "hm_get best i \<noteq> None" if "i \<in> set kept" for i using chosen [OF that] by auto
  ultimately obtain paths where
    take: "take_best kept best [] hm_empty = (map (\<lambda>i. ca_node (the (hm_get best i))) kept, paths)"
    and paths: "\<forall>i \<in> set kept. hm_get paths i = Some (ca_path (the (hm_get best i)))"
    using take_best_correct [of kept best "[]" hm_empty] by auto
  define nodes where "nodes = map (\<lambda>i. ca_node (the (hm_get best i))) kept"
  have ids: "map nr_id nodes = kept"
    unfolding nodes_def map_map by (rule map_idI) (use chosen in \<open>fastforce simp: cand_id_def\<close>)
  have answer: "execute_connect pg d seeds co = Inr (nodes, paths, length nodes)"
    using run acc take target_filter_correct [OF assms(4)] assms(2,5,6)
    by (simp add: execute_connect_def res_bind_def kept_def nodes_def)
  have order: "set order = {b. \<exists>ds \<in> set walks. \<exists>k. reaches ?sel d lo hi ds b k}"
  proof -
    have "set order = cand_id ` set cs" using best by (simp add: best_of_def)
    also have "\<dots> = {b. \<exists>ds \<in> set walks. \<exists>k. reaches ?sel d lo hi ds b k}"
    proof (intro set_eqI iffI)
      fix b assume "b \<in> cand_id ` set cs"
      with ok show "b \<in> {b. \<exists>ds \<in> set walks. \<exists>k. reaches ?sel d lo hi ds b k}" by blast
    next
      fix b assume "b \<in> {b. \<exists>ds \<in> set walks. \<exists>k. reaches ?sel d lo hi ds b k}"
      with all show "b \<in> cand_id ` set cs" by blast
    qed
    finally show ?thesis .
  qed
  have near: "\<exists>dir start k p. hm_get paths i = Some p \<and> (dir, start) \<in> set walks
        \<and> path_between ?sel dir d start i k p
        \<and> (\<forall>ds \<in> set walks. \<forall>j. reaches ?sel d lo hi ds i j \<longrightarrow> k \<le> j)" if "i \<in> set kept" for i
  proof -
    from chosen [OF that] obtain c where c: "hm_get best i = Some c" "c \<in> set cs" "cand_id c = i"
      "\<forall>c' \<in> set cs. cand_id c' = i \<longrightarrow> cand_key c \<le> cand_key c'" by blast
    have "ca_hops c \<le> j" if "ds \<in> set walks" "reaches ?sel d lo hi ds i j" for ds j
    proof -
      from all that obtain c' where "c' \<in> set cs" "cand_id c' = i" "ca_hops c' = j" by blast
      with c(4) show ?thesis by (fastforce simp: cand_key_def)
    qed
    moreover have "path_between ?sel (ca_direction c) d (ca_seed c) i (ca_hops c) (ca_path c)"
      using ok c(2,3) by (auto simp: cand_ok_def cand_id_def)
    moreover have "(ca_direction c, ca_seed c) \<in> set walks" using ok c(2) by blast
    moreover have "hm_get paths i = Some (ca_path c)" using that c(1) by (simp add: paths)
    ultimately show ?thesis by blast
  qed
  have "live_refs d nodes"
    unfolding live_refs_def nodes_def
  proof
    fix r assume "r \<in> set (map (\<lambda>i. ca_node (the (hm_get best i))) kept)"
    then obtain i where i: "i \<in> set kept" "r = ca_node (the (hm_get best i))" by auto
    from chosen [OF i(1)] i(2) obtain c where "c \<in> set cs" "r = ca_node c" by auto
    with ok show "\<exists>n. get_node (nr_id r) d = Some n \<and> r = ref_of n" by (auto simp: cand_ok_def)
  qed
  moreover have "nr_id ` set nodes = set kept" by (metis ids set_map)
  moreover have "nr_id r \<in> set kept" if "r \<in> set nodes" for r using that ids by (metis image_eqI set_map)
  ultimately show ?thesis
    using answer ids \<open>distinct kept\<close> near order
    by (intro exI [of _ nodes] exI [of _ paths]) (auto simp: kept_def)
qed

text \<open>
  C12: A connect step whose edge and node types exist always answers. With depths \<open>lo\<close> to
  \<open>hi\<close> it returns, each once, exactly the nodes that pass the target filter and lie at a
  distance \<open>k\<close> from some seed, \<open>lo \<le> k \<le> hi\<close>, not zero, along edges the selector takes in
  one of the asked directions. Beside each node it keeps a path of such edges from a seed to
  the node, with as few edges as any such distance.
\<close>

theorem connect_exact:
  assumes "db_ok who d" "seeds \<noteq> []" "edge_unknown (co_edge co) = []" "known_target (co_target co)"
    and "to_range (co_depth co) = (lo, hi)"
    and "walks = List.product (walk_directions (co_direction co)) (map nr_id seeds)"
  shows "\<exists>nodes paths. execute_connect pg d seeds co = Inr (nodes, paths, length nodes)
    \<and> distinct (map nr_id nodes) \<and> live_refs d nodes
    \<and> nr_id ` set nodes =
        {b \<in> found_ids (co_target co) d. \<exists>ds \<in> set walks. \<exists>k. reaches (co_edge co) d lo hi ds b k}
    \<and> (\<forall>r \<in> set nodes. \<exists>dir start k p. hm_get paths (nr_id r) = Some p \<and> (dir, start) \<in> set walks
        \<and> path_between (co_edge co) dir d start (nr_id r) k p
        \<and> (\<forall>ds \<in> set walks. \<forall>j. reaches (co_edge co) d lo hi ds (nr_id r) j \<longrightarrow> k \<le> j))"
  using assms by (rule connect_correct)

definition calls_from_main :: connect_op where
  "calls_from_main =
     \<lparr>co_edge = EdgeSingle ''Calls'', co_direction = QOutgoing, co_depth = DepthSingle 2, co_target = None\<rparr>"

theorem connect_exact_witness:
  "\<exists>nodes paths. execute_connect next_index walk_db [ref_of (plain_node ''1'' ''f'' ''a.rs'')] calls_from_main
     = Inr (nodes, paths, length nodes)"
proof -
  have "edge_unknown (co_edge calls_from_main) = []" "known_target (co_target calls_from_main)"
    "to_range (co_depth calls_from_main) = (1, 2)"
    by code_simp+
  note connect = connect_exact [OF walk_db_ok _ this refl]
  show ?thesis
    by (rule connect [of "[ref_of (plain_node ''1'' ''f'' ''a.rs'')]" next_index, THEN exE], simp)
      (elim exE conjE, intro exI, assumption)
qed

end
