(* ===== verification/Query_Run.thy ===== *)
theory Query_Run
  imports Query_Props
begin

text \<open>
  The properties of a whole query: sorting, what every result holds, which errors a query can
  be answered with, and the prebuilt queries.
\<close>

section \<open>Sorting\<close>

lemma mset_insert_by: "mset (insert_by le x xs) = add_mset x (mset xs)"
  by (induction xs) auto

lemma mset_sort_by: "mset (sort_by le xs) = mset xs"
  by (induction xs) (auto simp: sort_by_def mset_insert_by)

lemma sort_le_total: "sort_le field dir a b \<or> sort_le field dir b a"
  by (cases field; cases dir) (auto simp: sort_le_def)

lemma sort_le_trans: "sort_le field dir a b \<Longrightarrow> sort_le field dir b c \<Longrightarrow> sort_le field dir a c"
  by (cases field; cases dir) (auto simp: sort_le_def intro: order_trans)

lemma set_insert_by: "set (insert_by le x xs) = insert x (set xs)"
  by (induction xs) auto

lemma insert_by_sorted:
  "sorted_wrt (sort_le field dir) xs \<Longrightarrow> sorted_wrt (sort_le field dir) (insert_by (sort_le field dir) x xs)"
proof (induction xs)
  case (Cons y ys)
  then show ?case
    using sort_le_total [of field dir x y] by (auto simp: set_insert_by intro: sort_le_trans)
qed simp

lemma insert_by_filter:
  "(\<And>y. y \<in> set xs \<Longrightarrow> P y \<Longrightarrow> P x \<Longrightarrow> le x y) \<Longrightarrow>
    filter P (insert_by le x xs) = (if P x then x # filter P xs else filter P xs)"
  by (induction xs) auto

text \<open>
  Sorting a result orders it by the field in the asked direction, keeps every node, and
  leaves nodes that agree in the field in the order they had.
\<close>

theorem sort_stable:
  "sorted_wrt (sort_le field dir) (apply_sort field dir nodes) \<and> mset (apply_sort field dir nodes) = mset nodes
   \<and> filter (\<lambda>n. sort_le field dir n m \<and> sort_le field dir m n) (apply_sort field dir nodes)
     = filter (\<lambda>n. sort_le field dir n m \<and> sort_le field dir m n) nodes"
proof (intro conjI)
  let ?le = "sort_le field dir" and ?P = "\<lambda>n. sort_le field dir n m \<and> sort_le field dir m n"
  show "sorted_wrt ?le (apply_sort field dir nodes)"
    unfolding apply_sort_def sort_by_def by (induction nodes) (simp_all add: insert_by_sorted)
  show "mset (apply_sort field dir nodes) = mset nodes" by (simp add: apply_sort_def mset_sort_by)
  show "filter ?P (apply_sort field dir nodes) = filter ?P nodes"
  proof (induction nodes)
    case (Cons x xs)
    have "filter ?P (insert_by ?le x (apply_sort field dir xs))
        = (if ?P x then x # filter ?P (apply_sort field dir xs) else filter ?P (apply_sort field dir xs))"
      by (rule insert_by_filter) (blast intro: sort_le_trans)
    with Cons show ?case by (simp add: apply_sort_def sort_by_def)
  qed (simp add: apply_sort_def sort_by_def)
qed

section \<open>The pipeline\<close>

text \<open>The errors a query can be answered with; the others would be faults of the executor.\<close>

fun user_error :: "query_error \<Rightarrow> bool" where
  "user_error (NotReached _) = False"
| "user_error (NoPredecessor _ _) = False"
| "user_error (PathNodeVanished _) = False"
| "user_error Panicked = False"
| "user_error _ = True"

definition true_paths :: "graph_db \<Rightarrow> node_ref list \<Rightarrow> (string, graph_path) hmap \<Rightarrow> bool" where
  "true_paths d rs paths \<longleftrightarrow>
     (\<forall>r \<in> set rs. \<forall>p. hm_get paths (nr_id r) = Some p \<longrightarrow>
        (\<exists>sel dir a k. path_between sel dir d a (nr_id r) k p))"

definition state_sound :: "graph_db \<Rightarrow> 'c run_state \<Rightarrow> bool" where
  "state_sound d s \<longleftrightarrow> live_refs d (rs_nodes s) \<and> true_paths d (rs_nodes s) (rs_paths s)"

lemma state_sound_subset:
  "state_sound d s \<Longrightarrow> set rs \<subseteq> set (rs_nodes s) \<Longrightarrow> state_sound d (s\<lparr>rs_nodes := rs\<rparr>)"
  by (auto simp: state_sound_def live_refs_def true_paths_def)

lemma find_sound:
  assumes "db_ok who d"
  shows "case execute_find f d of Inl e \<Rightarrow> user_error e | Inr rs \<Rightarrow> live_refs d rs"
proof -
  have live: "get_node (gn_id n) d = Some n" if "n \<in> set (node_weights (db_graph d))" for n
    using that db_ok_filed(3) [OF assms] by (auto simp: node_weights_iff get_node_iff [OF assms])
  show ?thesis
    by (auto simp: execute_find_def res_bind_def check_node_types_def Let_def live_refs_def query_nodes_def
        ref_of_def live split: option.splits sum.splits if_splits)
qed

lemma bfs_unknown: "edge_unknown sel \<noteq> [] \<Longrightarrow> bfs_traverse pg d i sel r dir = Inl (UnknownEdgeTypes (edge_unknown sel))"
  by (simp add: bfs_traverse_def Let_def)

lemma connect_sound:
  assumes "db_ok who d" "live_refs d seeds"
  shows "case execute_connect pg d seeds co of
      Inl e \<Rightarrow> user_error e | Inr (rs, paths, v) \<Rightarrow> live_refs d rs \<and> true_paths d rs paths"
proof -
  define walks where "walks = List.product (walk_directions (co_direction co)) (map nr_id seeds)"
  consider "seeds = []" | "seeds \<noteq> []" "edge_unknown (co_edge co) \<noteq> []"
    | "seeds \<noteq> []" "edge_unknown (co_edge co) = []" by blast
  then show ?thesis
  proof cases
    case 1
    then show ?thesis by (simp add: execute_connect_def live_refs_def true_paths_def)
  next
    case 2
    then obtain w ws where "walks = w # ws"
      by (cases "co_direction co"; cases seeds) (auto simp: walks_def walk_directions_def)
    with 2 show ?thesis
      by (simp add: execute_connect_def walks_def [symmetric] bfs_unknown res_bind_def)
  next
    case 3
    show ?thesis
    proof (cases "known_target (co_target co)")
      case True
      obtain lo hi where r: "to_range (co_depth co) = (lo, hi)" by fastforce
      from connect_correct [OF assms(1) 3 True r walks_def, of pg] obtain nodes paths where
        c: "execute_connect pg d seeds co = Inr (nodes, paths, length nodes)" "live_refs d nodes"
          "\<forall>r \<in> set nodes. \<exists>dir start k p. hm_get paths (nr_id r) = Some p \<and> (dir, start) \<in> set walks
            \<and> path_between (co_edge co) dir d start (nr_id r) k p
            \<and> (\<forall>ds \<in> set walks. \<forall>j. reaches (co_edge co) d lo hi ds (nr_id r) j \<longrightarrow> k \<le> j)"
        by (elim exE conjE)
      have "true_paths d nodes paths"
        unfolding true_paths_def
      proof (intro ballI allI impI)
        fix r p assume r: "r \<in> set nodes" "hm_get paths (nr_id r) = Some p"
        from bspec [OF c(3) r(1)] obtain dir start k q where
          "hm_get paths (nr_id r) = Some q" "path_between (co_edge co) dir d start (nr_id r) k q"
          by (elim exE conjE)
        with r(2) have "path_between (co_edge co) dir d start (nr_id r) k p" by simp
        then show "\<exists>sel dir a k. path_between sel dir d a (nr_id r) k p" by blast
      qed
      with c(1,2) show ?thesis by simp
    next
      case False
      then obtain f where f: "co_target co = Some f" "check_node_types f \<noteq> Inr ()"
        using check_known by (auto simp: known_target_def opt_all_def split: option.splits)
      obtain lo hi where r: "to_range (co_depth co) = (lo, hi)" by fastforce
      from gather_correct [OF assms(1) 3(2), of pg lo hi walks "(hm_empty, [])"] obtain acc where
        "gather pg d (co_edge co) (lo, hi) walks (hm_empty, []) = Inr acc" by blast
      moreover from f(2) obtain u where "check_node_types f = Inl (UnknownNodeTypes u)"
        by (auto simp: check_node_types_def Let_def split: option.splits if_splits)
      ultimately show ?thesis
        using 3(1) by (simp add: execute_connect_def r walks_def [symmetric] res_bind_def target_filter_def f(1)
            split_beta)
    qed
  qed
qed

lemma retain_with_subset: "set (fst (retain_with f xs c)) \<subseteq> set xs"
proof (induction xs arbitrary: c)
  case (Cons x xs)
  from Cons.IH [of "snd (f x c)"] show ?case by (auto simp: Let_def split_beta)
qed simp

lemma apply_limit_subset: "set (apply_limit l nodes) \<subseteq> set nodes"
  by (auto simp: apply_limit_def Let_def dest!: in_set_takeD in_set_dropD split: if_splits)

lemma run_op_sound:
  assumes "db_ok who d" "state_sound d s"
  shows "case run_op pg em d op s of Inl e \<Rightarrow> user_error e | Inr s' \<Rightarrow> state_sound d s'"
proof (cases op)
  case (QFind f)
  then show ?thesis using find_sound [OF assms(1), of f]
    by (auto simp: res_bind_def state_sound_def true_paths_def split: sum.splits)
next
  case (QConnect co)
  then show ?thesis using connect_sound [OF assms(1), of "rs_nodes s" pg co] assms(2)
    by (auto simp: res_bind_def state_sound_def split: sum.splits)
next
  case (QSemantic sem)
  have keeps: "set rs \<subseteq> set (rs_nodes s)"
    if "apply_semantic_filter em d sem (rs_nodes s) (rs_cache s) = Inr (rs, c)" for rs c
  proof (cases "rs_nodes s = []")
    case False
    with that obtain f where "retain_with f (rs_nodes s) (rs_cache s) = (rs, c)"
      by (auto simp: apply_semantic_filter_def Let_def split: option.splits)
    with retain_with_subset [of f "rs_nodes s" "rs_cache s"] show ?thesis by (metis fst_conv)
  qed (use that in \<open>auto simp: apply_semantic_filter_def\<close>)
  have fails: "user_error e" if "apply_semantic_filter em d sem (rs_nodes s) (rs_cache s) = Inl e" for e
    using that by (auto simp: apply_semantic_filter_def Let_def split: option.splits if_splits)
  show ?thesis
  proof (cases "apply_semantic_filter em d sem (rs_nodes s) (rs_cache s)")
    case (Inr a)
    then obtain rs c where a: "apply_semantic_filter em d sem (rs_nodes s) (rs_cache s) = Inr (rs, c)"
      by (cases a) auto
    from state_sound_subset [OF assms(2) keeps [OF a]] show ?thesis
      by (simp add: QSemantic a res_bind_def state_sound_def)
  qed (simp add: QSemantic res_bind_def fails)
next
  case (QFilter f)
  then show ?thesis using assms(2) by (auto simp: apply_filter_def intro!: state_sound_subset)
next
  case (QSort field dir)
  have "set (apply_sort field dir (rs_nodes s)) = set (rs_nodes s)"
    by (metis apply_sort_def mset_sort_by set_mset_mset)
  with QSort show ?thesis using assms(2) by (auto intro!: state_sound_subset)
next
  case (QLimit l)
  then show ?thesis using assms(2) apply_limit_subset by (auto intro!: state_sound_subset)
next
  case (QGroup grouping)
  then show ?thesis using assms(2) by (simp add: state_sound_def)
qed

lemma run_ops_sound:
  assumes "db_ok who d"
  shows "state_sound d s \<Longrightarrow>
    case run_ops pg em d ops s of Inl e \<Rightarrow> user_error e | Inr s' \<Rightarrow> state_sound d s'"
proof (induction ops arbitrary: s)
  case (Cons op ops)
  show ?case
  proof (cases "run_op pg em d op s")
    case (Inr s')
    with run_op_sound [OF assms Cons.prems, of pg em op] have "state_sound d s'" by simp
    from Cons.IH [OF this] Inr show ?thesis by (simp add: res_bind_def)
  qed (use run_op_sound [OF assms Cons.prems, of pg em op] in \<open>simp add: res_bind_def\<close>)
qed simp

lemma state_sound_start [simp]: "state_sound d (run_start cache)"
  by (simp add: state_sound_def run_start_def live_refs_def true_paths_def)

lemma execute_result:
  assumes "execute pg em cap d spec cache = Inr (r, c)"
  shows "\<exists>ops s leg. run_ops pg em d ops (run_start cache) = Inr s
    \<and> r = (finish cap ops s)\<lparr>qr_legacy := leg\<rparr>"
proof -
  let ?ex = "\<lambda>r. \<exists>ops s leg. run_ops pg em d ops (run_start cache) = Inr s
    \<and> r = (finish cap ops s)\<lparr>qr_legacy := leg\<rparr>"
  have run: "?ex (q\<lparr>qr_legacy := leg\<rparr>)" if pipe: "run_pipeline pg em cap d ops cache = Inr (q, c)" for ops q leg
  proof -
    from pipe obtain s where "run_ops pg em d ops (run_start cache) = Inr s" "q = finish cap ops s"
      by (auto simp: run_pipeline_def res_bind_def split: sum.splits)
    then show ?thesis by blast
  qed
  have plain: "?ex r" if "run_pipeline pg em cap d ops cache = Inr (r, c)" for ops
    using run [OF that, of "qr_legacy r"] by simp
  have named: "?ex r" if ex: "execute_named pg em cap d name cache = Inr (r, c)" for name
  proof -
    from ex obtain ops q where "run_pipeline pg em cap d ops cache = Inr (q, c)" "r = q\<lparr>qr_legacy := True\<rparr>"
      by (auto simp: execute_named_def res_bind_def split: option.splits sum.splits)
    with run show ?thesis by blast
  qed
  from assms have "(\<exists>name. execute_named pg em cap d name cache = Inr (r, c))
      \<or> (\<exists>ops. run_pipeline pg em cap d ops cache = Inr (r, c))"
    by (cases "qs_mode spec"; cases "qs_named spec") (auto simp: execute_def)
  then show ?thesis by (elim disjE exE) (erule named, erule plain)
qed

lemma execute_error:
  assumes "execute pg em cap d spec cache = Inl e"
  shows "user_error e \<or> (\<exists>ops. run_ops pg em d ops (run_start cache) = Inl e)"
proof -
  have plain: "\<exists>ops. run_ops pg em d ops (run_start cache) = Inl e"
    if "run_pipeline pg em cap d ops cache = Inl e" for ops
    using that by (auto simp: run_pipeline_def res_bind_def split: sum.splits)
  have named: "user_error e \<or> (\<exists>ops. run_ops pg em d ops (run_start cache) = Inl e)"
    if "execute_named pg em cap d name cache = Inl e" for name
    using that plain by (auto simp: execute_named_def res_bind_def split: option.splits sum.splits)
  from assms show ?thesis
    by (cases "qs_mode spec"; cases "qs_named spec") (auto simp: execute_def dest: named plain)
qed

text \<open>
  On a coherent graph a query is only ever refused for what it asks: a missing or
  superfluous name, an unknown prebuilt query, an unknown node or edge type, or a text the
  embedder rejects. The executor's own error paths (a node the walk did not reach, a missing
  predecessor, a vanished path node, an index out of a map) are never taken.
\<close>

theorem query_errors_are_the_users:
  assumes "db_ok who d" "execute pg em cap d spec cache = Inl e"
  shows "user_error e"
  using execute_error [OF assms(2)] run_ops_sound [OF assms(1) state_sound_start]
  by (metis (mono_tags, lifting) sum.case(1))

definition edge_book :: "edge_ref set \<Rightarrow> (string \<times> string \<times> string, edge_ref) hmap \<Rightarrow> bool" where
  "edge_book es m \<longleftrightarrow>
     hm_ok m \<and> (\<forall>k v. hm_get m k = Some v \<longrightarrow> edge_ref_key v = k \<and> v \<in> es)
     \<and> (\<forall>e \<in> es. hm_get m (edge_ref_key e) \<noteq> None)"

lemma edge_book_add: "edge_book es m \<Longrightarrow> edge_book (insert e es) (add_edge_ref e m)"
  by (auto simp: edge_book_def add_edge_ref_def)

lemma edge_book_fold: "edge_book es m \<Longrightarrow> edge_book (es \<union> set xs) (fold add_edge_ref xs m)"
proof (induction xs arbitrary: es m)
  case (Cons x xs)
  from Cons.IH [OF edge_book_add [OF Cons.prems]] show ?case by simp
qed simp

lemma edges_of_paths_facts:
  fixes paths :: "graph_path list"
  defines "es \<equiv> concat (map gp_edges paths)"
  shows "set (edges_of_paths paths) \<subseteq> set es
    \<and> edge_ref_key ` set (edges_of_paths paths) = edge_ref_key ` set es
    \<and> sorted (map edge_ref_key (edges_of_paths paths)) \<and> distinct (map edge_ref_key (edges_of_paths paths))"
proof -
  define m where "m = fold add_edge_ref es hm_empty"
  have "edge_book {} hm_empty" by (simp add: edge_book_def)
  from edge_book_fold [OF this, of es] have m: "hm_ok m"
    "\<And>k v. hm_get m k = Some v \<Longrightarrow> edge_ref_key v = k \<and> v \<in> set es"
    "\<And>e. e \<in> set es \<Longrightarrow> hm_get m (edge_ref_key e) \<noteq> None"
    by (auto simp: edge_book_def m_def)
  have "edge_ref_key v = k" if "(k, v) \<in> set m" for k v using that m(2) hm_mem_get [OF m(1)] by blast
  then have keys: "map edge_ref_key (hm_vals m) = hm_keys m" by (auto simp: hm_vals_def hm_keys_def)
  have "set (hm_vals m) \<subseteq> set es" using m(2) hm_vals_iff [OF m(1)] by auto
  moreover have "edge_ref_key ` set (hm_vals m) = edge_ref_key ` set es"
  proof
    show "edge_ref_key ` set (hm_vals m) \<subseteq> edge_ref_key ` set es" using calculation by blast
    have "edge_ref_key e \<in> set (hm_keys m)" if "e \<in> set es" for e using m(3) [OF that] by (simp add: hm_keys_iff)
    then show "edge_ref_key ` set es \<subseteq> edge_ref_key ` set (hm_vals m)" unfolding keys [symmetric] by auto
  qed
  moreover have "distinct (map edge_ref_key (hm_vals m))" using m(1) by (simp add: keys hm_ok_def)
  moreover have "mset (map edge_ref_key (sort_key edge_ref_key (hm_vals m))) = mset (map edge_ref_key (hm_vals m))"
    by simp
  then have "distinct (map edge_ref_key (sort_key edge_ref_key (hm_vals m))) = distinct (map edge_ref_key (hm_vals m))"
    by (rule mset_eq_imp_distinct_iff)
  ultimately show ?thesis
    by (simp add: edges_of_paths_def flip: es_def m_def)
qed

text \<open>
  C13: What a successful query on a coherent graph answers is true of the graph: every node is
  a live node with its current type, name and label; every path consists of edges of the
  graph, connected end to end, and ends at one of the answered nodes; the edges are exactly
  those on the paths, each ends and type once, in order.
\<close>

theorem query_answers_hold:
  assumes "db_ok who d" "execute pg em cap d spec cache = Inr (r, c)"
  shows "live_refs d (qr_nodes r) \<and> qr_count r = length (qr_nodes r)
    \<and> (\<forall>p \<in> set (qr_paths r). \<exists>n \<in> set (qr_nodes r). \<exists>sel dir a k. path_between sel dir d a (nr_id n) k p)
    \<and> set (qr_edges r) \<subseteq> (\<Union>p \<in> set (qr_paths r). set (gp_edges p))
    \<and> edge_ref_key ` set (qr_edges r) = edge_ref_key ` (\<Union>p \<in> set (qr_paths r). set (gp_edges p))
    \<and> sorted (map edge_ref_key (qr_edges r)) \<and> distinct (map edge_ref_key (qr_edges r))"
proof -
  from execute_result [OF assms(2)] obtain ops s leg where
    s: "run_ops pg em d ops (run_start cache) = Inr s" "r = (finish cap ops s)\<lparr>qr_legacy := leg\<rparr>" by blast
  from run_ops_sound [OF assms(1) state_sound_start [of d cache], of pg em ops] s(1) have sound: "state_sound d s"
    by simp
  have nodes: "set (qr_nodes r) \<subseteq> set (rs_nodes s)" "qr_count r = length (qr_nodes r)"
    "qr_paths r = kept_paths (qr_nodes r) (rs_paths s)" "qr_edges r = edges_of_paths (qr_paths r)"
    by (auto simp: s(2) finish_def Let_def dest: in_set_takeD)
  have "live_refs d (qr_nodes r)" using sound nodes(1) by (auto simp: state_sound_def live_refs_def)
  moreover have "\<exists>n \<in> set (qr_nodes r). \<exists>sel dir a k. path_between sel dir d a (nr_id n) k p"
    if "p \<in> set (qr_paths r)" for p
  proof -
    from that obtain n where n: "n \<in> set (qr_nodes r)" "hm_get (rs_paths s) (nr_id n) = Some p"
      by (auto simp: nodes(3) kept_paths_def set_map_filter_Some)
    with sound nodes(1) have "\<exists>sel dir a k. path_between sel dir d a (nr_id n) k p"
      unfolding state_sound_def true_paths_def by blast
    with n(1) show ?thesis by blast
  qed
  ultimately show ?thesis
    using nodes(2) edges_of_paths_facts [of "qr_paths r"] unfolding nodes(4) by simp
qed

text \<open>
  Without a limit of its own a query never answers more than the default limit, and says
  so: the flag is set exactly when nodes were cut off, and then the number of matches before
  the cut is reported. The nodes answered are the first ones.
\<close>

theorem default_limit_holds:
  assumes "run_ops pg em d ops (run_start cache) = Inr s" "\<not> list_ex is_limit ops" "0 < default_limit"
  shows "\<exists>r. run_pipeline pg em default_limit d ops cache = Inr (r, rs_cache s)
    \<and> qr_nodes r = take default_limit (rs_nodes s) \<and> qr_count r \<le> default_limit
    \<and> (qr_truncated r \<longleftrightarrow> qr_count r < length (rs_nodes s))
    \<and> qr_matched_before_limit r = (if qr_truncated r then Some (length (rs_nodes s)) else None)"
  using assms by (auto simp: run_pipeline_def res_bind_def finish_def Let_def)

fun op_known :: "query_op \<Rightarrow> bool" where
  "op_known (QFind f) = known_target (Some f)"
| "op_known (QConnect co) = (edge_unknown (co_edge co) = [] \<and> known_target (co_target co))"
| "op_known (QSemantic sem) = False"
| "op_known _ = True"

lemma run_op_known:
  assumes "db_ok who d" "op_known op"
  shows "\<exists>s'. run_op pg em d op s = Inr s'"
proof (cases op)
  case (QFind f)
  with assms(2) have "check_node_types f = Inr ()" using check_known [of f] by (simp add: known_target_def opt_all_def)
  then show ?thesis by (simp add: QFind execute_find_def res_bind_def Let_def)
next
  case (QConnect co)
  show ?thesis
  proof (cases "rs_nodes s = []")
    case True
    then show ?thesis by (simp add: QConnect execute_connect_def res_bind_def)
  next
    case False
    obtain lo hi where "to_range (co_depth co) = (lo, hi)" by fastforce
    from connect_correct [OF assms(1) False _ _ this refl, of pg] assms(2)
    obtain nodes paths where "execute_connect pg d (rs_nodes s) co = Inr (nodes, paths, length nodes)"
      by (auto simp: QConnect)
    then show ?thesis by (simp add: QConnect res_bind_def)
  qed
qed (use assms(2) in simp_all)

lemma run_ops_known: "db_ok who d \<Longrightarrow> list_all op_known ops \<Longrightarrow> \<exists>s'. run_ops pg em d ops s = Inr s'"
proof (induction ops arbitrary: s)
  case (Cons op ops)
  then obtain s' where "run_op pg em d op s = Inr s'" using run_op_known by fastforce
  with Cons show ?case by (simp add: res_bind_def)
qed simp

lemma known_types:
  "edge_unknown (EdgeSingle ''Calls'') = []" "edge_unknown (EdgeSingle ''Contains'') = []"
  "type_unknown (TypeSingle ''File'') = []" "type_unknown (TypeSingle ''Function'') = []"
  "type_unknown (TypeSingle ''Module'') = []"
  by code_simp+

lemma named_query_known: "named_query name = Some spec \<Longrightarrow> list_all op_known (qs_ops spec)"
  by (auto simp: named_query_def spec_of_def walk_op_def find_type_def find_any_def known_target_def
      opt_all_def known_types split: if_splits)

text \<open>
  Every prebuilt query asks for node and edge types that exist and, on a coherent graph,
  answers; every other name is refused as unknown.
\<close>

theorem prebuilt_queries_answer:
  assumes "db_ok who d"
  shows "case named_query name of
      None \<Rightarrow> execute_named pg em default_limit d name cache = Inl (UnknownNamed name)
    | Some spec \<Rightarrow> \<exists>r. execute_named pg em default_limit d name cache = Inr r"
proof (cases "named_query name")
  case (Some spec)
  from run_ops_known [OF assms named_query_known [OF Some], of pg em "run_start cache"]
  obtain s where "run_ops pg em d (qs_ops spec) (run_start cache) = Inr s" by blast
  then show ?thesis by (simp add: execute_named_def run_pipeline_def res_bind_def Some)
qed (simp add: execute_named_def)

section \<open>A query evaluated\<close>

definition no_embedder :: "(unit, unit) embedder" where
  "no_embedder =
     \<lparr>em_query = (\<lambda>_. None), em_text = (\<lambda>_. None), em_read = (\<lambda>_. None), em_enrich = (\<lambda>_. []),
      em_cosine = (\<lambda>_ _. 0), em_get = (\<lambda>_ c. (None, c)), em_put = (\<lambda>_ _ c. c)\<rparr>"

definition callees_of_f :: query_spec where
  "callees_of_f = spec_of [QFind (find_any\<lparr>fo_name := Some (NameExact ''f'')\<rparr>), QConnect calls_from_main,
                          QSort SortName Desc]"

lemma callees_of_f_run:
  "case run_ops next_index no_embedder walk_db (qs_ops callees_of_f) (run_start ()) of
     Inl _ \<Rightarrow> False | Inr s \<Rightarrow> map nr_id (rs_nodes s) = [''3'', ''2'']"
  by code_simp

lemma callees_of_f_state:
  obtains s where "run_ops next_index no_embedder walk_db (qs_ops callees_of_f) (run_start ()) = Inr s"
    "map nr_id (rs_nodes s) = [''3'', ''2'']"
  using callees_of_f_run
  by (cases "run_ops next_index no_embedder walk_db (qs_ops callees_of_f) (run_start ())") simp_all

theorem query_answers_hold_witness:
  "\<exists>r. execute next_index no_embedder 1 walk_db callees_of_f () = Inr (r, ()) \<and> live_refs walk_db (qr_nodes r)"
proof -
  obtain s where "run_ops next_index no_embedder walk_db (qs_ops callees_of_f) (run_start ()) = Inr s"
    by (rule callees_of_f_state)
  then have run: "execute next_index no_embedder 1 walk_db callees_of_f ()
      = Inr (finish 1 (qs_ops callees_of_f) s, ())"
    by (simp add: execute_def run_pipeline_def res_bind_def callees_of_f_def spec_of_def)
  from query_answers_hold [OF walk_db_ok run] run show ?thesis by blast
qed

theorem query_errors_are_the_users_witness:
  "execute next_index no_embedder 1 walk_db (spec_of [QFind (find_type ''Defines'')]) ()
     = Inl (UnknownNodeTypes [''Defines'']) \<and> user_error (UnknownNodeTypes [''Defines''])"
proof
  have "type_unknown (TypeSingle ''Defines'') = [''Defines'']" by code_simp
  then show run: "execute next_index no_embedder 1 walk_db (spec_of [QFind (find_type ''Defines'')]) ()
      = Inl (UnknownNodeTypes [''Defines''])"
    by (simp add: execute_def run_pipeline_def res_bind_def spec_of_def execute_find_def check_node_types_def
        find_type_def find_any_def)
  show "user_error (UnknownNodeTypes [''Defines''])"
    by (rule query_errors_are_the_users [OF walk_db_ok run])
qed

theorem default_limit_holds_witness:
  "\<exists>r. run_pipeline next_index no_embedder 1 walk_db (qs_ops callees_of_f) () = Inr (r, ()) \<and> qr_truncated r"
proof -
  obtain s where s: "run_ops next_index no_embedder walk_db (qs_ops callees_of_f) (run_start ()) = Inr s"
    "map nr_id (rs_nodes s) = [''3'', ''2'']" by (rule callees_of_f_state)
  have "length (rs_nodes s) = 2" using arg_cong [OF s(2), of length] by simp
  moreover have "\<not> list_ex is_limit (qs_ops callees_of_f)" by (simp add: callees_of_f_def spec_of_def)
  from default_limit_holds [OF s(1) this, of 1] obtain r where
    "run_pipeline next_index no_embedder 1 walk_db (qs_ops callees_of_f) () = Inr (r, rs_cache s)"
    "qr_count r \<le> 1" "qr_truncated r \<longleftrightarrow> qr_count r < length (rs_nodes s)" by auto
  ultimately show ?thesis by auto
qed

theorem prebuilt_queries_answer_witness:
  "\<exists>r. execute_named next_index no_embedder 1 walk_db ''get_callees'' () = Inr r"
proof -
  have "named_query ''get_callees'' \<noteq> None" by (simp add: named_query_def)
  then show ?thesis
    using prebuilt_queries_answer [OF walk_db_ok, where name = "''get_callees''" and pg = next_index
        and em = no_embedder and default_limit = 1 and cache = "()"]
    by (auto split: option.splits)
qed

end
