(* ===== verification/Revision_Log.thy ===== *)
theory Revision_Log
  imports Schema
begin

text \<open>
  The bounded history of overlay changes, \<^verbatim>\<open>src/src/server/revision_log.rs\<close>, and the change
  record of \<^verbatim>\<open>src/src/server/overlay/stream.rs\<close>. A \<open>VecDeque\<close> is a list with its front first;
  a revision is a \<open>u64\<close> that counts changes, a natural number here.
\<close>

record overlay_diff =
  od_revision :: nat
  od_added :: "graph_node list"
  od_removed :: "string list"
  od_updated :: "graph_node list"

datatype lookup_result = BeyondCurrent | TooOld

record revision_log =
  rl_diffs :: "overlay_diff list"
  rl_capacity :: nat
  rl_next :: nat

definition log_with_capacity :: "nat \<Rightarrow> revision_log" where
  "log_with_capacity n = \<lparr>rl_diffs = [], rl_capacity = max n 1, rl_next = 0\<rparr>"

definition log_new :: revision_log where
  "log_new = log_with_capacity 256"

definition current_revision :: "revision_log \<Rightarrow> nat" where
  "current_revision l = rl_next l"

definition floor_revision :: "revision_log \<Rightarrow> nat" where
  "floor_revision l = (case rl_diffs l of [] \<Rightarrow> 0 | d # _ \<Rightarrow> od_revision d)"

definition enqueue :: "overlay_diff \<Rightarrow> revision_log \<Rightarrow> revision_log" where
  "enqueue diff l =
     (let n = Suc (rl_next l);
          kept = (if length (rl_diffs l) = rl_capacity l then drop 1 (rl_diffs l) else rl_diffs l) in
      l\<lparr>rl_next := n, rl_diffs := kept @ [diff\<lparr>od_revision := n\<rparr>]\<rparr>)"

definition diffs_since :: "nat \<Rightarrow> revision_log \<Rightarrow> lookup_result + overlay_diff list" where
  "diffs_since since l =
     (if rl_next l < since then Inl BeyondCurrent
      else if rl_diffs l \<noteq> [] \<and> since < floor_revision l then Inl TooOld
      else Inr (filter (\<lambda>d. since < od_revision d) (rl_diffs l)))"

section \<open>The window the log keeps\<close>

text \<open>The diffs numbered from \<open>k + 1\<close> on.\<close>

fun numbered :: "nat \<Rightarrow> overlay_diff list \<Rightarrow> overlay_diff list" where
  "numbered k [] = []"
| "numbered k (d # ds) = d\<lparr>od_revision := Suc k\<rparr> # numbered (Suc k) ds"

lemma numbered_append: "numbered k (xs @ ys) = numbered k xs @ numbered (k + length xs) ys"
  by (induction k xs rule: numbered.induct) auto

lemma length_numbered [simp]: "length (numbered k xs) = length xs"
  by (induction k xs rule: numbered.induct) auto

lemma drop_numbered: "drop n (numbered k xs) = numbered (k + n) (drop n xs)"
  by (induction k xs arbitrary: n rule: numbered.induct) (auto simp: drop_Cons split: nat.split)

lemma filter_numbered: "filter (\<lambda>d. r < od_revision d) (numbered k xs) = numbered (max k r) (drop (r - k) xs)"
proof (induction k xs rule: numbered.induct)
  case (2 k d ds)
  show ?case
  proof (cases "r < Suc k")
    case True
    then have "r \<le> k" by simp
    then have "filter (\<lambda>d. r < od_revision d) (numbered (Suc k) ds) = numbered (Suc k) ds"
      using 2 by (simp add: max_def)
    with True \<open>r \<le> k\<close> show ?thesis by (simp add: max_def)
  next
    case False
    then have "r - k = Suc (r - Suc k)" "max (Suc k) r = max k r" by simp_all
    with False 2 show ?thesis by simp
  qed
qed simp

text \<open>After any changes the log holds the last \<open>c\<close> of them, numbered without a gap.\<close>

definition window :: "nat \<Rightarrow> nat \<Rightarrow> nat" where
  "window c n = n - min n c"

lemma enqueue_fields:
  "rl_diffs (enqueue d l) =
     (if length (rl_diffs l) = rl_capacity l then drop 1 (rl_diffs l) else rl_diffs l)
     @ [d\<lparr>od_revision := Suc (rl_next l)\<rparr>]"
  "rl_next (enqueue d l) = Suc (rl_next l)" "rl_capacity (enqueue d l) = rl_capacity l"
  by (simp_all add: enqueue_def Let_def)

lemma log_window:
  assumes "0 < c"
  shows "rl_diffs (fold enqueue xs \<lparr>rl_diffs = [], rl_capacity = c, rl_next = 0\<rparr>)
      = numbered (window c (length xs)) (drop (window c (length xs)) xs)
    \<and> rl_next (fold enqueue xs \<lparr>rl_diffs = [], rl_capacity = c, rl_next = 0\<rparr>) = length xs
    \<and> rl_capacity (fold enqueue xs \<lparr>rl_diffs = [], rl_capacity = c, rl_next = 0\<rparr>) = c"
proof (induction xs rule: rev_induct)
  case (snoc x xs)
  let ?n = "length xs" and ?l = "fold enqueue xs \<lparr>rl_diffs = [], rl_capacity = c, rl_next = 0\<rparr>"
  have len: "length (rl_diffs ?l) = min ?n c" using snoc by (simp add: window_def)
  have kept: "(if length (rl_diffs ?l) = c then drop 1 (rl_diffs ?l) else rl_diffs ?l)
      = numbered (window c (Suc ?n)) (drop (window c (Suc ?n)) xs)"
  proof (cases "c \<le> ?n")
    case True
    then have "window c (Suc ?n) = Suc (window c ?n)" by (simp add: window_def)
    with True len snoc show ?thesis by (simp add: drop_numbered min_absorb2)
  next
    case False
    then have "window c (Suc ?n) = window c ?n" "length (rl_diffs ?l) \<noteq> c" using len by (auto simp: window_def)
    with snoc show ?thesis by simp
  qed
  have "window c (Suc ?n) \<le> ?n" using assms by (auto simp: window_def)
  then have "numbered (window c (Suc ?n)) (drop (window c (Suc ?n)) (xs @ [x]))
      = numbered (window c (Suc ?n)) (drop (window c (Suc ?n)) xs) @ [x\<lparr>od_revision := Suc ?n\<rparr>]"
    by (simp add: numbered_append)
  then show ?case
    using kept snoc by (simp only: fold_append comp_apply fold_simps enqueue_fields length_append
        list.size add_0_right add_Suc_right simp_thms)
qed (simp add: window_def)

lemma diffs_since_window:
  assumes "l = fold enqueue xs (log_with_capacity n)"
  defines "c \<equiv> max n 1"
  shows "diffs_since since l =
    (if length xs < since then Inl BeyondCurrent
     else if xs \<noteq> [] \<and> since \<le> window c (length xs) then Inl TooOld
     else Inr (numbered since (drop since xs)))"
proof -
  have c: "0 < c" by (simp add: c_def)
  have l: "l = fold enqueue xs \<lparr>rl_diffs = [], rl_capacity = c, rl_next = 0\<rparr>"
    by (simp add: assms(1) log_with_capacity_def c_def)
  note w = log_window [OF c, of xs, folded l]
  let ?w = "window c (length xs)"
  have wle: "xs \<noteq> [] \<Longrightarrow> ?w < length xs" using c by (auto simp: window_def)
  have floor: "floor_revision l = Suc ?w" if ne: "xs \<noteq> []"
  proof -
    obtain d ds where "drop ?w xs = d # ds" using wle [OF ne] by (cases "drop ?w xs") auto
    with w show ?thesis by (simp add: floor_revision_def)
  qed
  have empty: "rl_diffs l = [] \<longleftrightarrow> xs = []"
  proof -
    have "length (rl_diffs l) = length xs - ?w" using w by simp
    with wle show ?thesis by (metis diff_is_0_eq length_0_conv not_le zero_diff)
  qed
  have "filter (\<lambda>d. since < od_revision d) (rl_diffs l) = numbered since (drop since xs)" if "?w \<le> since"
    using w that by (simp add: filter_numbered max_absorb2)
  moreover have "?w \<le> since" if "xs = [] \<or> \<not> since \<le> ?w" using that by (auto simp: window_def)
  ultimately show ?thesis
    unfolding diffs_since_def using w floor empty by (auto simp: less_Suc_eq_le)
qed

end
