(* ===== verification/Overlay.thy ===== *)
theory Overlay
  imports Revision_Log "HOL-Library.Word" "HOL-Library.Multiset"
begin

text \<open>
  The volatile_overlay of uncommitted edits, \<^verbatim>\<open>src/src/server/volatile_overlay.rs\<close>: a \<open>petgraph::DiGraph\<close>, the
  map from ids to its indices, a Bloom filter in front of it, and the revision log. Removing
  node \<open>i\<close> of a \<open>DiGraph\<close> drops its edges and moves the last node into slot \<open>i\<close>; in which
  order the remaining edges are kept is the parameter \<open>sh\<close>, of which \<open>shuffle_ok\<close> asks that
  it loses none. Timestamps are the argument \<open>now\<close>.
\<close>

unbundle bit_operations_syntax

section \<open>The graph\<close>

type_synonym dg_edge = "nat \<times> nat \<times> edge_type"

record digraph =
  dg_nodes :: "graph_node list"
  dg_edges :: "dg_edge list"

definition dg_empty :: digraph where
  "dg_empty = \<lparr>dg_nodes = [], dg_edges = []\<rparr>"

definition shuffle_ok :: "(dg_edge list \<Rightarrow> dg_edge list) \<Rightarrow> bool" where
  "shuffle_ok sh \<longleftrightarrow> (\<forall>es. mset (sh es) = mset es)"

definition swap_remove :: "nat \<Rightarrow> 'a list \<Rightarrow> 'a list" where
  "swap_remove i xs = (if i = length xs - 1 then butlast xs else (butlast xs)[i := last xs])"

definition dg_remove_node :: "(dg_edge list \<Rightarrow> dg_edge list) \<Rightarrow> nat \<Rightarrow> digraph \<Rightarrow> digraph option" where
  "dg_remove_node sh i g =
     (if length (dg_nodes g) \<le> i then None
      else
        let last_index = length (dg_nodes g) - 1; moved = (\<lambda>j. if j = last_index then i else j) in
        Some \<lparr>dg_nodes = swap_remove i (dg_nodes g),
              dg_edges = sh (map (\<lambda>(s, t, e). (moved s, moved t, e))
                               (filter (\<lambda>(s, t, _). s \<noteq> i \<and> t \<noteq> i) (dg_edges g)))\<rparr>)"

section \<open>The Bloom filter\<close>

type_synonym bloom = "8 word list"

definition hash_str :: "string \<Rightarrow> 32 word \<Rightarrow> 32 word" where
  "hash_str s seed = fold (\<lambda>b hash. hash * 31 + word_of_nat (of_char b)) s seed"

definition bloom_slot :: "string \<Rightarrow> 32 word \<Rightarrow> nat" where
  "bloom_slot s seed = unat (hash_str s seed) mod 8192"

definition bloom_set :: "nat \<Rightarrow> bloom \<Rightarrow> bloom" where
  "bloom_set h f = f[h div 8 := f ! (h div 8) OR push_bit (h mod 8) 1]"

definition bloom_get :: "nat \<Rightarrow> bloom \<Rightarrow> bool" where
  "bloom_get h f \<longleftrightarrow> f ! (h div 8) AND push_bit (h mod 8) 1 \<noteq> 0"

definition update_bloom :: "string \<Rightarrow> bloom \<Rightarrow> bloom" where
  "update_bloom nid f = bloom_set (bloom_slot nid 1) (bloom_set (bloom_slot nid 0) f)"

definition check_bloom :: "string \<Rightarrow> bloom \<Rightarrow> bool" where
  "check_bloom nid f \<longleftrightarrow> bloom_get (bloom_slot nid 0) f \<and> bloom_get (bloom_slot nid 1) f"

section \<open>The overlay and its operations\<close>

record volatile_overlay =
  ov_graph :: digraph
  ov_index :: "(string, nat) hmap"
  ov_bloom :: bloom
  ov_updated :: nat
  ov_log :: revision_log

definition overlay_new :: "nat \<Rightarrow> volatile_overlay" where
  "overlay_new now =
     \<lparr>ov_graph = dg_empty, ov_index = hm_empty, ov_bloom = replicate 1024 0, ov_updated = now,
      ov_log = log_new\<rparr>"

definition overlay_touch :: "nat \<Rightarrow> volatile_overlay \<Rightarrow> volatile_overlay" where
  "overlay_touch now ov = ov\<lparr>ov_updated := now\<rparr>"

text \<open>\<open>values_mut().find(|v| **v == last)\<close> and the assignment through it.\<close>

fun repoint :: "nat \<Rightarrow> nat \<Rightarrow> (string, nat) hmap \<Rightarrow> (string, nat) hmap" where
  "repoint a b [] = []"
| "repoint a b ((k, v) # m) = (if v = a then (k, b) # m else (k, v) # repoint a b m)"

definition node_diff :: "graph_node list \<Rightarrow> string list \<Rightarrow> overlay_diff" where
  "node_diff added removed = \<lparr>od_revision = 0, od_added = added, od_removed = removed, od_updated = []\<rparr>"

definition overlay_insert_node ::
    "(dg_edge list \<Rightarrow> dg_edge list) \<Rightarrow> nat \<Rightarrow> graph_node \<Rightarrow> volatile_overlay \<Rightarrow> nat \<times> volatile_overlay" where
  "overlay_insert_node sh now node ov =
     (let (g, index) =
            (case hm_get (ov_index ov) (gn_id node) of
               None \<Rightarrow> (ov_graph ov, ov_index ov)
             | Some old \<Rightarrow>
                 let last_index = length (dg_nodes (ov_graph ov)) - 1 in
                 (case dg_remove_node sh old (ov_graph ov) of
                    None \<Rightarrow> (ov_graph ov, ov_index ov)
                  | Some g \<Rightarrow>
                      (g, if old \<noteq> last_index then repoint last_index old (ov_index ov) else ov_index ov)));
          i = length (dg_nodes g) in
      (i, ov\<lparr>ov_graph := g\<lparr>dg_nodes := dg_nodes g @ [node]\<rparr>, ov_index := hm_put (gn_id node) i index,
             ov_bloom := update_bloom (gn_id node) (ov_bloom ov), ov_updated := now,
             ov_log := enqueue (node_diff [node] []) (ov_log ov)\<rparr>))"

definition overlay_remove_node ::
    "(dg_edge list \<Rightarrow> dg_edge list) \<Rightarrow> nat \<Rightarrow> string \<Rightarrow> volatile_overlay \<Rightarrow> bool \<times> volatile_overlay" where
  "overlay_remove_node sh now nid ov =
     (case hm_get (ov_index ov) nid of
        None \<Rightarrow> (False, ov)
      | Some i \<Rightarrow>
          let index = hm_del nid (ov_index ov); last_index = length (dg_nodes (ov_graph ov)) - 1 in
          (case dg_remove_node sh i (ov_graph ov) of
             None \<Rightarrow> (False, ov\<lparr>ov_index := index\<rparr>)
           | Some g \<Rightarrow>
               (True, ov\<lparr>ov_graph := g, ov_updated := now,
                         ov_index := (if i \<noteq> last_index then repoint last_index i index else index),
                         ov_log := enqueue (node_diff [] [nid]) (ov_log ov)\<rparr>)))"

text \<open>
  \<open>insert_edge\<close> looks both ends up under the index lock, drops it, and then takes the graph
  lock: two steps, between which other operations can run. A stale index past the end of
  the graph makes \<open>add_edge\<close> panic, the outcome \<open>None\<close> of the second step.
\<close>

datatype overlay_error = OverlaySourceNotFound string | OverlayTargetNotFound string

definition edge_lookup :: "graph_edge \<Rightarrow> volatile_overlay \<Rightarrow> overlay_error + nat \<times> nat" where
  "edge_lookup e ov =
     (case hm_get (ov_index ov) (ge_source_id e) of
        None \<Rightarrow> Inl (OverlaySourceNotFound (ge_source_id e))
      | Some s \<Rightarrow>
          (case hm_get (ov_index ov) (ge_target_id e) of
             None \<Rightarrow> Inl (OverlayTargetNotFound (ge_target_id e))
           | Some t \<Rightarrow> Inr (s, t)))"

definition edge_commit :: "nat \<Rightarrow> nat \<times> nat \<Rightarrow> edge_type \<Rightarrow> volatile_overlay \<Rightarrow> volatile_overlay option" where
  "edge_commit now = (\<lambda>(s, t) ty ov.
     let g = ov_graph ov in
     if (s, t, ty) \<in> set (dg_edges g) then Some ov
     else if length (dg_nodes g) \<le> s \<or> length (dg_nodes g) \<le> t then None
     else Some (ov\<lparr>ov_graph := g\<lparr>dg_edges := dg_edges g @ [(s, t, ty)]\<rparr>, ov_updated := now,
                   ov_log := enqueue (node_diff [] []) (ov_log ov)\<rparr>))"

definition overlay_insert_edge ::
    "nat \<Rightarrow> graph_edge \<Rightarrow> volatile_overlay \<Rightarrow> ((overlay_error + unit) \<times> volatile_overlay) option" where
  "overlay_insert_edge now e ov =
     (case edge_lookup e ov of
        Inl err \<Rightarrow> Some (Inl err, ov)
      | Inr st \<Rightarrow> map_option (\<lambda>ov'. (Inr (), ov')) (edge_commit now st (ge_type e) ov))"

definition overlay_get_node :: "string \<Rightarrow> volatile_overlay \<Rightarrow> graph_node option" where
  "overlay_get_node nid ov =
     (if \<not> check_bloom nid (ov_bloom ov) then None
      else (case hm_get (ov_index ov) nid of
              None \<Rightarrow> None
            | Some i \<Rightarrow> if i < length (dg_nodes (ov_graph ov)) then Some (dg_nodes (ov_graph ov) ! i) else None))"

definition key_at :: "nat \<Rightarrow> (string, nat) hmap \<Rightarrow> string option" where
  "key_at i m = map_option fst (find (\<lambda>(_, v). v = i) m)"

definition ids_at_path :: "string \<Rightarrow> volatile_overlay \<Rightarrow> string list" where
  "ids_at_path path ov =
     List.map_filter (\<lambda>i. if gn_path (dg_nodes (ov_graph ov) ! i) = path then key_at i (ov_index ov) else None)
       [0 ..< length (dg_nodes (ov_graph ov))]"

primrec remove_ids ::
    "(dg_edge list \<Rightarrow> dg_edge list) \<Rightarrow> nat \<Rightarrow> string list \<Rightarrow> nat \<Rightarrow> volatile_overlay \<Rightarrow> nat \<times> volatile_overlay" where
  "remove_ids sh now [] removed ov = (removed, ov)"
| "remove_ids sh now (nid # ids) removed ov =
     (let (gone, ov') = overlay_remove_node sh now nid ov in
      remove_ids sh now ids (if gone then Suc removed else removed) ov')"

definition remove_nodes_for_path ::
    "(dg_edge list \<Rightarrow> dg_edge list) \<Rightarrow> nat \<Rightarrow> string \<Rightarrow> volatile_overlay \<Rightarrow> nat \<times> volatile_overlay" where
  "remove_nodes_for_path sh now path ov = remove_ids sh now (ids_at_path path ov) 0 ov"

definition overlay_clear :: "nat \<Rightarrow> volatile_overlay \<Rightarrow> volatile_overlay" where
  "overlay_clear now ov =
     ov\<lparr>ov_graph := dg_empty, ov_index := hm_empty, ov_bloom := replicate 1024 0, ov_updated := now\<rparr>"

definition overlay_stats :: "volatile_overlay \<Rightarrow> nat \<times> nat" where
  "overlay_stats ov = (length (dg_nodes (ov_graph ov)), length (dg_edges (ov_graph ov)))"

primrec merge_nodes :: "graph_node list \<Rightarrow> volatile_overlay \<Rightarrow> volatile_overlay" where
  "merge_nodes [] ov = ov"
| "merge_nodes (n # ns) ov =
     merge_nodes ns
       (ov\<lparr>ov_graph := (ov_graph ov)\<lparr>dg_nodes := dg_nodes (ov_graph ov) @ [n]\<rparr>,
           ov_index := hm_put (gn_id n) (length (dg_nodes (ov_graph ov))) (ov_index ov),
           ov_bloom := update_bloom (gn_id n) (ov_bloom ov)\<rparr>)"

definition overlay_merge :: "volatile_overlay \<Rightarrow> volatile_overlay \<Rightarrow> volatile_overlay" where
  "overlay_merge ov other =
     (let ov1 = merge_nodes (dg_nodes (ov_graph other)) ov; ids = map gn_id (dg_nodes (ov_graph other));
          edges = List.map_filter (\<lambda>(s, t, ty).
              case (hm_get (ov_index ov1) (ids ! s), hm_get (ov_index ov1) (ids ! t)) of
                (Some s', Some t') \<Rightarrow> Some (s', t', ty) | _ \<Rightarrow> None) (dg_edges (ov_graph other)) in
      ov1\<lparr>ov_graph := (ov_graph ov1)\<lparr>dg_edges := dg_edges (ov_graph ov1) @ edges\<rparr>\<rparr>)"

text \<open>The lookups; \<open>str::to_lowercase\<close>, Unicode's case mapping, is the argument \<open>lower\<close>.\<close>

definition overlay_find_by_name :: "(string \<Rightarrow> string) \<Rightarrow> string \<Rightarrow> volatile_overlay \<Rightarrow> graph_node list" where
  "overlay_find_by_name lower name ov =
     filter (\<lambda>n. str_contains (lower name) (lower (gn_name n))) (dg_nodes (ov_graph ov))"

definition overlay_find_by_type :: "node_type \<Rightarrow> volatile_overlay \<Rightarrow> graph_node list" where
  "overlay_find_by_type t ov = filter (\<lambda>n. gn_type n = t) (dg_nodes (ov_graph ov))"

definition overlay_find_by_path :: "string \<Rightarrow> volatile_overlay \<Rightarrow> graph_node list" where
  "overlay_find_by_path path ov = filter (\<lambda>n. gn_path n = path) (dg_nodes (ov_graph ov))"

definition overlay_all_edges :: "volatile_overlay \<Rightarrow> (graph_node \<times> graph_node \<times> edge_type) list" where
  "overlay_all_edges ov =
     map (\<lambda>(s, t, ty). (dg_nodes (ov_graph ov) ! s, dg_nodes (ov_graph ov) ! t, ty)) (dg_edges (ov_graph ov))"

definition overlay_outgoing :: "string \<Rightarrow> volatile_overlay \<Rightarrow> (graph_node \<times> edge_type) list" where
  "overlay_outgoing nid ov =
     (case hm_get (ov_index ov) nid of
        None \<Rightarrow> []
      | Some i \<Rightarrow> map (\<lambda>(_, t, ty). (dg_nodes (ov_graph ov) ! t, ty))
                     (filter (\<lambda>(s, _, _). s = i) (dg_edges (ov_graph ov))))"

definition overlay_incoming :: "string \<Rightarrow> volatile_overlay \<Rightarrow> (graph_node \<times> edge_type) list" where
  "overlay_incoming nid ov =
     (case hm_get (ov_index ov) nid of
        None \<Rightarrow> []
      | Some i \<Rightarrow> map (\<lambda>(s, _, ty). (dg_nodes (ov_graph ov) ! s, ty))
                     (filter (\<lambda>(_, t, _). t = i) (dg_edges (ov_graph ov))))"

text \<open>What a subscriber does with a change, \<open>subscribe_apply\<close>.\<close>

definition apply_diff :: "(dg_edge list \<Rightarrow> dg_edge list) \<Rightarrow> nat \<Rightarrow> overlay_diff \<Rightarrow> volatile_overlay \<Rightarrow> volatile_overlay" where
  "apply_diff sh now diff ov =
     (let insert_all = fold (\<lambda>n ov. snd (overlay_insert_node sh now n ov)) in
      insert_all (od_updated diff)
        (fold (\<lambda>nid ov. snd (overlay_remove_node sh now nid ov)) (od_removed diff)
          (insert_all (od_added diff) ov)))"

end
