(* ===== verification/Resolve.thy ===== *)
theory Resolve
  imports Graph_Read Global_Id Overlay
begin

text \<open>
  Handles to nodes, \<^verbatim>\<open>src/src/server/tools/utils.rs\<close>: a tool is given an id, a name or a path
  and answers about one node of the overlay or the graph. What the file system says of a
  path is the argument \<open>canon\<close>: the canonical form when the path exists and has one.
\<close>

definition str_prefix_any :: "string list \<Rightarrow> string \<Rightarrow> bool" where
  "str_prefix_any ps s \<longleftrightarrow> list_ex (\<lambda>p. starts_with p s) ps"

definition backslash :: char where
  "backslash = CHR 0x5C"

definition is_explicit_path :: "string \<Rightarrow> bool" where
  "is_explicit_path handle \<longleftrightarrow>
     str_prefix_any [''/'', ''./'', ''../'', ''~/''] handle
     \<or> CHR ''/'' \<in> set handle \<or> backslash \<in> set handle
     \<or> (3 \<le> length handle \<and> handle ! 1 = CHR '':'' \<and> (handle ! 2 = backslash \<or> handle ! 2 = CHR ''/''))"

datatype resolve_error = EmptyHandle | EmptyGraph string | UnknownHandle string

definition canonical_handle :: "(string \<Rightarrow> string option) \<Rightarrow> string \<Rightarrow> string" where
  "canonical_handle canon handle =
     (if is_explicit_path handle then (case canon handle of Some p \<Rightarrow> p | None \<Rightarrow> handle) else handle)"

definition by_global_id :: "string \<Rightarrow> graph_db \<Rightarrow> graph_node option" where
  "by_global_id handle d =
     (case gid_parse handle of
        Inl _ \<Rightarrow> None
      | Inr gid \<Rightarrow>
          (case (gid_name gid, gid_path gid) of
             (Some gname, Some gpath) \<Rightarrow>
               let by_path = filter (\<lambda>n. gn_path n = gpath) (find_all_nodes_by_name gname d) in
               (case find (\<lambda>n. gid_line_start gid = gn_line_start n) by_path of
                  Some n \<Rightarrow> Some n
                | None \<Rightarrow> (case by_path of [] \<Rightarrow> None | n # _ \<Rightarrow> Some n))
           | _ \<Rightarrow> None))"

definition by_overlay_name :: "(string \<Rightarrow> string) \<Rightarrow> string \<Rightarrow> graph_db \<Rightarrow> volatile_overlay \<Rightarrow> graph_node option" where
  "by_overlay_name lower handle d ov =
     (case find (\<lambda>n. gn_name n = handle) (overlay_find_by_name lower handle ov) of
        None \<Rightarrow> None
      | Some n \<Rightarrow>
          (case find (\<lambda>g. gn_path g = gn_path n \<and> gn_type g = gn_type n) (find_all_nodes_by_name handle d) of
             Some committed \<Rightarrow> Some committed
           | None \<Rightarrow> Some n))"

definition or_else :: "'a option \<Rightarrow> 'a option \<Rightarrow> 'a option" where
  "or_else x y = (case x of Some v \<Rightarrow> Some v | None \<Rightarrow> y)"

definition resolve_node ::
    "(string \<Rightarrow> string) \<Rightarrow> (string \<Rightarrow> string option) \<Rightarrow> graph_db \<Rightarrow> volatile_overlay \<Rightarrow> string \<Rightarrow> resolve_error + graph_node" where
  "resolve_node lower canon d ov handle =
     (if handle = [] then Inl EmptyHandle
      else
        (case or_else (overlay_get_node handle ov)
               (or_else (by_global_id handle d)
               (or_else (get_node handle d)
               (or_else (by_overlay_name lower handle d ov)
               (or_else (find_node_by_name handle d)
               (or_else (find_node_by_path handle d)
                 (find_node_by_path (canonical_handle canon handle) d)))))) of
           Some n \<Rightarrow> Inr n
         | None \<Rightarrow>
             if fst (get_stats d) = 0 \<and> fst (overlay_stats ov) = 0 then Inl (EmptyGraph handle)
             else Inl (UnknownHandle handle)))"

section \<open>Names with several definitions\<close>

definition is_container :: "graph_node \<Rightarrow> bool" where
  "is_container n \<longleftrightarrow> gn_type n \<in> {NT_Module, NT_Namespace, NT_Package, NT_File}"

definition is_stub :: "graph_node \<Rightarrow> bool" where
  "is_stub n \<longleftrightarrow> ends_with ''.pyi'' (gn_path n) \<or> ends_with ''.d.ts'' (gn_path n)"

text \<open>The order of \<open>sort_by\<close>: symbols first, high anchor scores first (none last), then path and line.\<close>

definition candidate_key :: "graph_node \<Rightarrow> bool \<times> (bool \<times> f32) \<times> string \<times> nat" where
  "candidate_key n =
     (is_container n \<or> is_stub n,
      (case gn_anchor_score n of None \<Rightarrow> (True, 0) | Some a \<Rightarrow> (False, - a)),
      gn_path n, (case gn_line_start n of None \<Rightarrow> 0 | Some l \<Rightarrow> Suc l))"

definition resolve_node_ambiguous ::
    "(string \<Rightarrow> string) \<Rightarrow> (string \<Rightarrow> string option) \<Rightarrow> graph_db \<Rightarrow> volatile_overlay \<Rightarrow> string
      \<Rightarrow> resolve_error + graph_node \<times> graph_node list" where
  "resolve_node_ambiguous lower canon d ov handle =
     (case resolve_node lower canon d ov handle of
        Inl err \<Rightarrow> Inl err
      | Inr node \<Rightarrow>
          let others = (if gn_name node = handle
                        then filter (\<lambda>n. gn_id n \<noteq> gn_id node) (find_all_nodes_by_name handle d) else []) in
          if others = [] then Inr (node, others)
          else let ranked = sort_key candidate_key (others @ [node]) in Inr (hd ranked, tl ranked))"

definition node_at :: "graph_node \<Rightarrow> string" where
  "node_at n = (case gn_line_start n of Some l \<Rightarrow> gn_path n @ '':'' @ show_nat (l + 1) | None \<Rightarrow> gn_path n)"

definition warning_sign :: string where
  "warning_sign = [byte 226, byte 154, byte 160]"

definition ambiguity_note :: "graph_node \<Rightarrow> graph_node list \<Rightarrow> string" where
  "ambiguity_note chosen others =
     (if others = [] then []
      else
        let quote = [CHR 0x27] in
        warning_sign @ '' '' @ quote @ gn_name chosen @ quote @ '' is defined '' @ show_nat (length others + 1)
        @ '' times; this answer is about the one at '' @ node_at chosen @ '' ('' @ gn_id chosen @ ''). Others: ''
        @ join '', '' (map (\<lambda>n. node_at n @ '' ('' @ gn_id n @ '')'') (take 5 others))
        @ (if 5 < length others then '', and '' @ show_nat (length others - 5) @ '' more'' else [])
        @ ''. Pass a node id to choose one.'' @ [CHR 0x0A, CHR 0x0A])"

end
