(* ===== verification/Claims.thy ===== *)
theory Claims
  imports Resolve
begin

text \<open>
  Claims of impact, \<^verbatim>\<open>src/src/server/claims.rs\<close>: what is known, suspected or missing about each
  symbol a change may affect. \<open>fmt2\<close> is Rust's \<open>{:.2}\<close> format of a confidence.
\<close>

section \<open>Evidence and claims\<close>

datatype evidence = Verified | NeedsInvestigation | Missing

fun evidence_str :: "evidence \<Rightarrow> string" where
  "evidence_str Verified = ''verified''"
| "evidence_str NeedsInvestigation = ''needs-investigation''"
| "evidence_str Missing = ''missing''"

fun strength :: "evidence \<Rightarrow> nat" where
  "strength Verified = 2"
| "strength NeedsInvestigation = 1"
| "strength Missing = 0"

record claim =
  cl_repo :: string
  cl_file :: string
  cl_symbol :: string
  cl_evidence :: evidence
  cl_note :: "string option"

definition identity_part :: "string \<Rightarrow> bool" where
  "identity_part s \<longleftrightarrow> str_trim s \<noteq> [] \<and> \<not> str_any_whitespace s"

definition claim_identity_ok :: "string \<Rightarrow> string \<Rightarrow> string \<Rightarrow> bool" where
  "claim_identity_ok repo file symbol \<longleftrightarrow>
     identity_part repo \<and> identity_part file \<and> identity_part symbol
     \<and> CHR '':'' \<notin> set repo \<and> CHR '':'' \<notin> set file"

definition claim_new :: "string \<Rightarrow> string \<Rightarrow> string \<Rightarrow> evidence \<Rightarrow> claim option" where
  "claim_new repo file symbol e =
     (if \<not> claim_identity_ok repo file symbol then None
      else Some \<lparr>cl_repo = repo, cl_file = file, cl_symbol = symbol, cl_evidence = e, cl_note = None\<rparr>)"

definition with_note :: "claim \<Rightarrow> string \<Rightarrow> claim" where
  "with_note c note =
     c\<lparr>cl_note := Some (case cl_note c of Some existing \<Rightarrow> existing @ ''; '' @ note | None \<Rightarrow> note)\<rparr>"

definition claim_line :: "claim \<Rightarrow> string" where
  "claim_line c =
     ''AFFECTED: '' @ cl_repo c @ '':'' @ cl_file c @ '':'' @ cl_symbol c
     @ ''  EVIDENCE: '' @ evidence_str (cl_evidence c)"

section \<open>Evidence along a path\<close>

record acc =
  ac_evidence :: evidence
  ac_notes :: "string list"

definition acc_verified :: acc where
  "acc_verified = \<lparr>ac_evidence = Verified, ac_notes = []\<rparr>"

definition acc_apply :: "acc \<Rightarrow> evidence \<Rightarrow> string option \<Rightarrow> acc" where
  "acc_apply a e note =
     \<lparr>ac_evidence = (if strength e < strength (ac_evidence a) then e else ac_evidence a),
      ac_notes = (case note of
                    Some n \<Rightarrow> if n \<in> set (ac_notes a) then ac_notes a else ac_notes a @ [n]
                  | None \<Rightarrow> ac_notes a)\<rparr>"

definition acc_note :: "acc \<Rightarrow> string option" where
  "acc_note a = (if ac_notes a = [] then None else Some (join ''; '' (ac_notes a)))"

definition evidence_from_provenance ::
    "(f32 \<Rightarrow> string) \<Rightarrow> edge_provenance option \<Rightarrow> evidence \<times> string option" where
  "evidence_from_provenance fmt2 p =
     (case p of
        Some (Static _) \<Rightarrow> (Verified, None)
      | Some (Confirmed _) \<Rightarrow> (Verified, None)
      | Some (Heuristic detector confidence) \<Rightarrow>
          (NeedsInvestigation,
           Some (''heuristic edge (detector='' @ detector @ '', confidence='' @ fmt2 confidence @ '')''))
      | Some (Runtime _ _) \<Rightarrow> (NeedsInvestigation, Some ''runtime-observed edge (not static proof)'')
      | None \<Rightarrow> (NeedsInvestigation, Some ''edge provenance not recorded (confidence 0.0)''))"

section \<open>Claims about nodes\<close>

definition claimable_node_type :: "node_type \<Rightarrow> bool" where
  "claimable_node_type t \<longleftrightarrow>
     t \<in> {NT_Function, NT_Method, NT_Class, NT_Struct, NT_Trait, NT_Interface, NT_Enum}"

definition claim_repo :: "graph_node \<Rightarrow> string \<Rightarrow> string" where
  "claim_repo node repo_fallback =
     (case gid_parse (gn_id node) of
        Inr g \<Rightarrow> gid_repo_id g
      | Inl _ \<Rightarrow> (case gn_repo_id node of Some r \<Rightarrow> r | None \<Rightarrow> repo_fallback))"

definition claim_for_node :: "graph_node \<Rightarrow> acc \<Rightarrow> string \<Rightarrow> claim option" where
  "claim_for_node node a repo_fallback =
     (if \<not> claimable_node_type (gn_type node) then None
      else
        (case claim_new (claim_repo node repo_fallback) (gn_path node) (gn_name node) (ac_evidence a) of
           None \<Rightarrow> None
         | Some c \<Rightarrow> Some (case acc_note a of Some note \<Rightarrow> with_note c note | None \<Rightarrow> c)))"

definition missing_claim_for_node :: "graph_node \<Rightarrow> string \<Rightarrow> string \<Rightarrow> claim option" where
  "missing_claim_for_node node repo_fallback note =
     map_option (\<lambda>c. with_note c note)
       (claim_new (claim_repo node repo_fallback) (gn_path node) (gn_name node) Missing)"

section \<open>Claims from the graph\<close>

definition is_heuristic_edge :: "edge_type \<Rightarrow> bool" where
  "is_heuristic_edge t \<longleftrightarrow> t \<in> {ET_DynamicDispatch, ET_BusTopic, ET_RouteMatches}"

definition followed :: "edge_type \<Rightarrow> bool" where
  "followed t \<longleftrightarrow> t \<in> {ET_Calls, ET_Uses} \<or> is_heuristic_edge t"

record claim_walk =
  cw_queued :: "string set"
  cw_queue :: "(string \<times> acc) list"
  cw_out :: "claim list"
  cw_named :: nat
  cw_unnameable :: nat

definition enqueue_caller :: "string \<Rightarrow> acc \<Rightarrow> claim_walk \<Rightarrow> claim_walk" where
  "enqueue_caller nid a w = w\<lparr>cw_queued := insert nid (cw_queued w), cw_queue := cw_queue w @ [(nid, a)]\<rparr>"

definition name_caller :: "graph_node \<Rightarrow> acc \<Rightarrow> string \<Rightarrow> claim_walk \<Rightarrow> claim_walk" where
  "name_caller node a repo_fallback w =
     (case claim_for_node node a repo_fallback of
        Some c \<Rightarrow> w\<lparr>cw_named := Suc (cw_named w), cw_out := cw_out w @ [c]\<rparr>
      | None \<Rightarrow> w)"

text \<open>The two inner loops of \<open>claims_from_graph\<close>; \<open>visited\<close> holds the seed's id alone throughout.\<close>

primrec graph_callers ::
    "(f32 \<Rightarrow> string) \<Rightarrow> graph_db \<Rightarrow> string \<Rightarrow> string set \<Rightarrow> acc \<Rightarrow> graph_edge list \<Rightarrow> claim_walk \<Rightarrow> claim_walk" where
  "graph_callers fmt2 d fallback visited a [] w = w"
| "graph_callers fmt2 d fallback visited a (e # es) w =
     (if \<not> followed (ge_type e) then graph_callers fmt2 d fallback visited a es w
      else
        let (ev, note) = evidence_from_provenance fmt2 (ge_provenance e); hop = acc_apply a ev note;
            caller = get_node (ge_source_id e) d in
        if ge_source_id e \<in> visited \<or> ge_source_id e \<in> cw_queued w
        then graph_callers fmt2 d fallback visited a es w
        else
          let w1 = enqueue_caller (ge_source_id e) hop w in
          graph_callers fmt2 d fallback visited a es
            (case caller of
               Some n \<Rightarrow> name_caller n hop fallback w1
             | None \<Rightarrow> w1\<lparr>cw_unnameable := Suc (cw_unnameable w1)\<rparr>))"

definition overlay_note :: string where
  "overlay_note = ''uncommitted overlay caller (no provenance recorded)''"

primrec overlay_callers ::
    "string \<Rightarrow> string set \<Rightarrow> acc \<Rightarrow> (graph_node \<times> edge_type) list \<Rightarrow> claim_walk \<Rightarrow> claim_walk" where
  "overlay_callers fallback visited a [] w = w"
| "overlay_callers fallback visited a (r # rs) w =
     (let (caller, ty) = r in
      if \<not> followed ty then overlay_callers fallback visited a rs w
      else if gn_id caller \<in> visited \<or> gn_id caller \<in> cw_queued w
      then overlay_callers fallback visited a rs w
      else
        let hop = acc_apply a NeedsInvestigation (Some overlay_note) in
        overlay_callers fallback visited a rs (name_caller caller hop fallback (enqueue_caller (gn_id caller) hop w)))"

definition seen_ids :: "graph_db \<Rightarrow> volatile_overlay \<Rightarrow> string set" where
  "seen_ids d ov =
     (\<lambda>r. ge_source_id (snd (snd r))) ` set (g_edges (db_graph d))
     \<union> (\<lambda>r. gn_id (dg_nodes (ov_graph ov) ! fst r)) ` set (dg_edges (ov_graph ov))"

lemma finite_seen_ids [simp]: "finite (seen_ids d ov)"
  by (simp add: seen_ids_def)

lemma name_caller_queue [simp]:
  "cw_queued (name_caller n a f w) = cw_queued w" "cw_queue (name_caller n a f w) = cw_queue w"
  by (auto simp: name_caller_def split: option.split)

lemma enqueue_caller_queue [simp]:
  "cw_queued (enqueue_caller y a w) = insert y (cw_queued w)" "cw_queue (enqueue_caller y a w) = cw_queue w @ [(y, a)]"
  by (simp_all add: enqueue_caller_def)

lemma graph_callers_grow:
  "cw_queued w \<subseteq> cw_queued (graph_callers fmt2 d f V a es w)
   \<and> cw_queued (graph_callers fmt2 d f V a es w) \<subseteq> cw_queued w \<union> ge_source_id ` set es
   \<and> (cw_queued (graph_callers fmt2 d f V a es w) = cw_queued w \<longrightarrow>
        cw_queue (graph_callers fmt2 d f V a es w) = cw_queue w)"
proof (induction es arbitrary: w)
  case (Cons e es)
  obtain ev nt where p: "evidence_from_provenance fmt2 (ge_provenance e) = (ev, nt)" by fastforce
  show ?case
  proof (cases "\<not> followed (ge_type e) \<or> ge_source_id e \<in> V \<or> ge_source_id e \<in> cw_queued w")
    case True
    with Cons.IH [of w] show ?thesis by (auto simp: p)
  next
    case False
    let ?w1 = "enqueue_caller (ge_source_id e) (acc_apply a ev nt) w"
    let ?w2 = "case get_node (ge_source_id e) d of Some n \<Rightarrow> name_caller n (acc_apply a ev nt) f ?w1
        | None \<Rightarrow> ?w1\<lparr>cw_unnameable := Suc (cw_unnameable ?w1)\<rparr>"
    have "cw_queued ?w2 = insert (ge_source_id e) (cw_queued w)" by (simp split: option.split)
    with False Cons.IH [of ?w2] show ?thesis by (auto simp: p Let_def)
  qed
qed simp

lemma overlay_callers_grow:
  "cw_queued w \<subseteq> cw_queued (overlay_callers f V a rs w)
   \<and> cw_queued (overlay_callers f V a rs w) \<subseteq> cw_queued w \<union> (\<lambda>r. gn_id (fst r)) ` set rs
   \<and> (cw_queued (overlay_callers f V a rs w) = cw_queued w \<longrightarrow> cw_queue (overlay_callers f V a rs w) = cw_queue w)"
proof (induction rs arbitrary: w)
  case (Cons r rs)
  obtain n ty where r: "r = (n, ty)" by fastforce
  show ?case
  proof (cases "\<not> followed ty \<or> gn_id n \<in> V \<or> gn_id n \<in> cw_queued w")
    case True
    with Cons.IH [of w] show ?thesis by (auto simp: r)
  next
    case False
    let ?h = "acc_apply a NeedsInvestigation (Some overlay_note)"
    from False Cons.IH [of "name_caller n ?h f (enqueue_caller (gn_id n) ?h w)"]
    show ?thesis by (auto simp: r Let_def)
  qed
qed simp

definition claim_callers ::
    "petgraph \<Rightarrow> (f32 \<Rightarrow> string) \<Rightarrow> graph_db \<Rightarrow> volatile_overlay \<Rightarrow> string \<Rightarrow> string set \<Rightarrow> string \<Rightarrow> acc
      \<Rightarrow> claim_walk \<Rightarrow> claim_walk" where
  "claim_callers pg fmt2 d ov fallback visited nid a w =
     overlay_callers fallback visited a (overlay_incoming nid ov)
       (graph_callers fmt2 d fallback visited a (get_edges_to pg nid d) w)"

lemma grow_trans:
  assumes "A \<subseteq> B \<and> B \<subseteq> A \<union> E \<and> (B = A \<longrightarrow> q = p)" "B \<subseteq> C \<and> C \<subseteq> B \<union> F \<and> (C = B \<longrightarrow> r = q)"
    and "E \<subseteq> U" "F \<subseteq> U"
  shows "A \<subseteq> C \<and> C \<subseteq> A \<union> U \<and> (C = A \<longrightarrow> r = p)"
proof -
  have "r = p" if "C = A"
  proof -
    from that assms(1,2) have "B = A" by auto
    with that assms(1,2) show ?thesis by simp
  qed
  moreover have "A \<subseteq> B" "B \<subseteq> A \<union> E" "B \<subseteq> C" "C \<subseteq> B \<union> F" using assms by simp_all
  then have "A \<subseteq> C" "C \<subseteq> A \<union> U" using assms(3,4) by blast+
  ultimately show ?thesis by simp
qed

lemma claim_callers_grow:
  "cw_queued w \<subseteq> cw_queued (claim_callers pg fmt2 d ov f V nid a w)
   \<and> cw_queued (claim_callers pg fmt2 d ov f V nid a w) \<subseteq> cw_queued w \<union> seen_ids d ov
   \<and> (cw_queued (claim_callers pg fmt2 d ov f V nid a w) = cw_queued w \<longrightarrow>
        cw_queue (claim_callers pg fmt2 d ov f V nid a w) = cw_queue w)"
proof -
  let ?w1 = "graph_callers fmt2 d f V a (get_edges_to pg nid d) w"
  have "ge_source_id ` set (get_edges_to pg nid d) \<subseteq> seen_ids d ov"
    by (auto simp: get_edges_to_def edges_of_def seen_ids_def set_edges_directed split: option.splits)
  moreover have "(\<lambda>r. gn_id (fst r)) ` set (overlay_incoming nid ov) \<subseteq> seen_ids d ov"
    by (force simp: overlay_incoming_def seen_ids_def split: option.splits)
  ultimately show ?thesis
    unfolding claim_callers_def by (rule grow_trans [OF graph_callers_grow overlay_callers_grow])
qed

function claim_loop ::
    "petgraph \<Rightarrow> (f32 \<Rightarrow> string) \<Rightarrow> graph_db \<Rightarrow> volatile_overlay \<Rightarrow> string \<Rightarrow> string set \<Rightarrow> claim_walk \<Rightarrow> claim_walk" where
  "claim_loop pg fmt2 d ov fallback visited w =
     (case cw_queue w of
        [] \<Rightarrow> w
      | (nid, a) # rest \<Rightarrow>
          claim_loop pg fmt2 d ov fallback visited
            (claim_callers pg fmt2 d ov fallback visited nid a (w\<lparr>cw_queue := rest\<rparr>)))"
  by pat_completeness auto

termination claim_loop
proof (relation "measures [\<lambda>(_, _, d, ov, _, _, w). card (seen_ids d ov - cw_queued w),
    \<lambda>(_, _, _, _, _, _, w). length (cw_queue w)]")
  fix pg :: petgraph and fmt2 d ov f V nid and w :: claim_walk and x a rest
  assume q: "cw_queue w = x # rest" and x: "(nid, a) = x"
  let ?w' = "claim_callers pg fmt2 d ov f V nid a (w\<lparr>cw_queue := rest\<rparr>)"
  note g = claim_callers_grow [of "w\<lparr>cw_queue := rest\<rparr>" pg fmt2 d ov f V nid a, simplified]
  show "((pg, fmt2, d, ov, f, V, ?w'), (pg, fmt2, d, ov, f, V, w)) \<in>
      measures [\<lambda>(_, _, d, ov, _, _, w). card (seen_ids d ov - cw_queued w), \<lambda>(_, _, _, _, _, _, w). length (cw_queue w)]"
  proof (cases "cw_queued ?w' = cw_queued w")
    case True
    with g q show ?thesis by simp
  next
    case False
    with g have "seen_ids d ov - cw_queued ?w' \<subset> seen_ids d ov - cw_queued w" by blast
    then have "card (seen_ids d ov - cw_queued ?w') < card (seen_ids d ov - cw_queued w)"
      by (rule psubset_card_mono [rotated]) simp
    then show ?thesis by simp
  qed
qed simp

declare claim_loop.simps [simp del]

definition em_dash :: string where
  "em_dash = [byte 226, byte 128, byte 148]"

definition no_dependents_note :: string where
  "no_dependents_note =
     ''no dependents in the index '' @ em_dash @ '' an empty blast radius is not proof of no impact''"

definition unnameable_note :: "nat \<Rightarrow> string" where
  "unnameable_note n =
     show_nat n @ '' incoming edge(s) from nodes the index cannot resolve '' @ em_dash
     @ '' a dependency exists but is unnameable''"

definition push_claim :: "claim option \<Rightarrow> claim list \<Rightarrow> claim list" where
  "push_claim c out = (case c of Some c \<Rightarrow> out @ [c] | None \<Rightarrow> out)"

definition claim_start :: "string \<Rightarrow> claim_walk" where
  "claim_start nid =
     \<lparr>cw_queued = {nid}, cw_queue = [(nid, acc_verified)], cw_out = [], cw_named = 0, cw_unnameable = 0\<rparr>"

definition claims_from_graph ::
    "(string \<Rightarrow> string) \<Rightarrow> (string \<Rightarrow> string option) \<Rightarrow> petgraph \<Rightarrow> (f32 \<Rightarrow> string) \<Rightarrow> graph_db \<Rightarrow> volatile_overlay
      \<Rightarrow> string \<Rightarrow> string \<Rightarrow> resolve_error + claim list" where
  "claims_from_graph lower canon pg fmt2 d ov symbol fallback =
     (case resolve_node_ambiguous lower canon d ov symbol of
        Inl err \<Rightarrow> Inl err
      | Inr (seed, _) \<Rightarrow>
          let w = claim_loop pg fmt2 d ov fallback {gn_id seed} (claim_start (gn_id seed));
              out = (if cw_named w = 0
                     then push_claim (missing_claim_for_node seed fallback no_dependents_note) (cw_out w) else cw_out w) in
          Inr (if 0 < cw_unnameable w
               then push_claim (missing_claim_for_node seed fallback (unnameable_note (cw_unnameable w))) out else out))"

section \<open>Claims from other analyses\<close>

text \<open>The hops of an \<open>ImpactPath\<close> are pairs of an edge and the node it leads to.\<close>

primrec path_claims ::
    "(f32 \<Rightarrow> string) \<Rightarrow> string set \<Rightarrow> acc \<Rightarrow> (graph_edge \<times> graph_node) list \<Rightarrow> claim list" where
  "path_claims fmt2 starts a [] = []"
| "path_claims fmt2 starts a (hop # rest) =
     (let (edge, node) = hop in
      if gn_id node \<in> starts then path_claims fmt2 starts a rest
      else
        let (ev, note) = evidence_from_provenance fmt2 (ge_provenance edge); a' = acc_apply a ev note in
        push_claim (claim_for_node node a' []) [] @ path_claims fmt2 starts a' rest)"

definition claims_from_impact_paths ::
    "(f32 \<Rightarrow> string) \<Rightarrow> (graph_edge \<times> graph_node) list list \<Rightarrow> string list \<Rightarrow> claim list" where
  "claims_from_impact_paths fmt2 paths starts = concat (map (path_claims fmt2 (set starts) acc_verified) paths)"

datatype diff_class = NoKnownImpact | ClassNeedsInvestigation | ClassVerified

datatype diff_reason =
    StaticBinding | ConfirmedBinding | HeuristicBinding | SendsNotModeled | ReadsNotFullyTraced
  | NeedsReview | NoSchema | UnresolvedCandidates

fun reason_str :: "diff_reason \<Rightarrow> string" where
  "reason_str StaticBinding = ''static_binding''"
| "reason_str ConfirmedBinding = ''confirmed_binding''"
| "reason_str HeuristicBinding = ''heuristic_binding''"
| "reason_str SendsNotModeled = ''sends_not_modeled''"
| "reason_str ReadsNotFullyTraced = ''reads_not_fully_traced''"
| "reason_str NeedsReview = ''needs_review''"
| "reason_str NoSchema = ''no_schema''"
| "reason_str UnresolvedCandidates = ''unresolved_candidates''"

definition claim_from_diff_class ::
    "string \<Rightarrow> string \<Rightarrow> string \<Rightarrow> diff_class \<Rightarrow> diff_reason option \<Rightarrow> claim option" where
  "claim_from_diff_class repo file symbol cls reason =
     (case (case cls of ClassVerified \<Rightarrow> Some Verified | ClassNeedsInvestigation \<Rightarrow> Some NeedsInvestigation
                        | NoKnownImpact \<Rightarrow> None) of
        None \<Rightarrow> None
      | Some e \<Rightarrow>
          (case claim_new repo file symbol e of
             None \<Rightarrow> None
           | Some c \<Rightarrow> Some (case reason of Some r \<Rightarrow> with_note c (''diff impact: '' @ reason_str r) | None \<Rightarrow> c)))"

text \<open>The parts of a \<open>Coverage\<close> the claims read: the callers of the consumer keys and the references.\<close>

record unresolved_ref =
  ur_repo :: string
  ur_url :: string
  ur_count :: nat
  ur_sample_paths :: "string list"

record coverage =
  cov_unresolved_consumers :: "symbol_key list"
  cov_ambiguous :: "symbol_key list"
  cov_unnormalized :: "symbol_key list"
  cov_unresolved_refs :: "unresolved_ref list"
  cov_complete :: bool

definition bucket_claims :: "string \<Rightarrow> symbol_key list \<Rightarrow> claim list" where
  "bucket_claims note keys =
     List.map_filter (\<lambda>k. map_option (\<lambda>c. with_note c note)
       (claim_new (repo_str (sk_repo k)) (sk_path k) (sk_name k) Missing)) keys"

definition claims_from_coverage :: "coverage \<Rightarrow> claim list" where
  "claims_from_coverage cov =
     bucket_claims (''unresolved consumer '' @ em_dash @ '' target is not in the graph'') (cov_unresolved_consumers cov)
     @ bucket_claims ''ambiguous consumer binding'' (cov_ambiguous cov)
     @ bucket_claims ''unnormalized consumer url'' (cov_unnormalized cov)
     @ List.map_filter (\<lambda>r. map_option
         (\<lambda>c. with_note c (''unresolved external schema ref (count: '' @ show_nat (ur_count r) @ '')''))
         (claim_new (ur_repo r) (ur_url r) [] Missing)) (cov_unresolved_refs cov)"

definition coverage_note :: "coverage \<Rightarrow> string option" where
  "coverage_note cov =
     (if cov_complete cov then None
      else Some (''coverage.complete=false '' @ em_dash @ '' claims are not exhaustive; ''
                 @ ''absence of a claim is not evidence of no impact''))"

section \<open>Merging and rendering\<close>

definition claim_identity :: "claim \<Rightarrow> string \<times> string \<times> string" where
  "claim_identity c = (cl_repo c, cl_file c, cl_symbol c)"

definition merge_claim :: "claim \<Rightarrow> claim \<Rightarrow> claim" where
  "merge_claim existing c =
     (let m = (if strength (cl_evidence existing) < strength (cl_evidence c)
               then existing\<lparr>cl_evidence := cl_evidence c\<rparr> else existing) in
      case cl_note c of Some note \<Rightarrow> with_note m note | None \<Rightarrow> m)"

definition merge_step :: "claim \<Rightarrow> (string \<times> string \<times> string, claim) hmap \<Rightarrow> (string \<times> string \<times> string, claim) hmap" where
  "merge_step c m =
     hm_put (claim_identity c)
       (case hm_get m (claim_identity c) of None \<Rightarrow> c | Some existing \<Rightarrow> merge_claim existing c) m"

text \<open>The values of the \<open>BTreeMap\<close> come in the order of its keys; the sort by strength follows.\<close>

definition merge_claims :: "claim list \<Rightarrow> claim list" where
  "merge_claims claims =
     sort_key (\<lambda>c. (2 - strength (cl_evidence c), cl_repo c, cl_file c, cl_symbol c))
       (map snd (sort_key fst (fold merge_step claims hm_empty)))"

definition newline :: string where
  "newline = [CHR 0x0A]"

definition render_claim :: "claim \<Rightarrow> string" where
  "render_claim c =
     claim_line c @ newline
     @ (case cl_note c of Some reason \<Rightarrow> ''  reason: '' @ reason @ newline | None \<Rightarrow> [])"

definition render_claim_lines :: "claim list \<Rightarrow> string option \<Rightarrow> string" where
  "render_claim_lines claims note =
     (let out = concat (map render_claim (merge_claims claims))
                @ (case note of Some n \<Rightarrow> ''# '' @ n @ newline | None \<Rightarrow> []) in
      if out = [] then ''# no claims derived '' @ em_dash @ '' absence is not evidence of no impact'' @ newline else out)"

definition render_claims_block :: "claim list \<Rightarrow> string option \<Rightarrow> string" where
  "render_claims_block claims note = newline @ ''## Claims'' @ newline @ newline @ render_claim_lines claims note"

end
