(* ===== verification/Overlay_Inv.thy ===== *)
theory Overlay_Inv
  imports Overlay
begin

text \<open>
  The overlay's index stays exact although removals move nodes, and its Bloom filter never
  hides a node. Seen from outside, the overlay is a map from ids to nodes with a multiset of
  typed links between ids.
\<close>

section \<open>The Bloom filter has no false negatives\<close>

lemma bloom_get_bit: "bloom_get h f \<longleftrightarrow> bit (f ! (h div 8)) (h mod 8)"
  by (simp add: bloom_get_def bit_iff_and_push_bit_not_eq_0)

lemma bloom_set_get: "h div 8 < length f \<Longrightarrow> bloom_get h (bloom_set h f)"
  by (simp add: bloom_get_bit bloom_set_def bit_simps)

lemma bloom_set_keeps: "bloom_get h f \<Longrightarrow> bloom_get h (bloom_set h' f)"
  by (cases "h div 8 = h' div 8"; cases "h div 8 < length f")
    (auto simp: bloom_get_bit bloom_set_def bit_simps nth_list_update list_update_beyond)

lemma length_update_bloom [simp]: "length (update_bloom nid f) = length f"
  by (simp add: update_bloom_def bloom_set_def)

lemma bloom_slot_less: "bloom_slot nid seed div 8 < 1024"
  by (simp add: bloom_slot_def)

lemma check_update_bloom: "length f = 1024 \<Longrightarrow> check_bloom nid (update_bloom nid f)"
  unfolding check_bloom_def update_bloom_def
  by (intro conjI bloom_set_keeps bloom_set_get) (simp_all add: bloom_slot_less bloom_set_def)

lemma update_bloom_keeps: "check_bloom nid f \<Longrightarrow> check_bloom nid (update_bloom nid' f)"
  by (simp add: check_bloom_def update_bloom_def bloom_set_keeps)

section \<open>The index through a removal\<close>

definition index_of :: "graph_node list \<Rightarrow> (string \<Rightarrow> nat option) \<Rightarrow> bool" where
  "index_of ns I \<longleftrightarrow> (\<forall>nid i. I nid = Some i \<longleftrightarrow> i < length ns \<and> gn_id (ns ! i) = nid)"

lemma index_of_unique: "index_of ns I \<Longrightarrow> i < length ns \<Longrightarrow> j < length ns \<Longrightarrow> gn_id (ns ! i) = gn_id (ns ! j) \<Longrightarrow> i = j"
  unfolding index_of_def by (metis option.inject)

lemma length_swap_remove [simp]: "length (swap_remove i xs) = length xs - 1"
  by (simp add: swap_remove_def)

lemma nth_swap_remove:
  "i < length xs \<Longrightarrow> j < length xs - 1 \<Longrightarrow> swap_remove i xs ! j = xs ! (if j = i then length xs - 1 else j)"
  by (cases "xs = []") (auto simp: swap_remove_def nth_butlast nth_list_update last_conv_nth)

lemma index_of_remove:
  assumes "index_of ns I" "I nid = Some i"
  shows "index_of (swap_remove i ns) (\<lambda>k. if k = nid then None else if I k = Some (length ns - 1) then Some i else I k)"
  unfolding index_of_def
proof (intro allI iffI)
  fix k j
  let ?l = "length ns - 1"
  have i: "i < length ns" "gn_id (ns ! i) = nid" using assms by (auto simp: index_of_def)
  have iff: "I a = Some b \<longleftrightarrow> b < length ns \<and> gn_id (ns ! b) = a" for a b using assms(1) by (simp add: index_of_def)
  {
    assume "(if k = nid then None else if I k = Some ?l then Some i else I k) = Some j"
    then have k: "k \<noteq> nid" "if I k = Some ?l then j = i else I k = Some j" by (auto split: if_splits)
    show "j < length (swap_remove i ns) \<and> gn_id (swap_remove i ns ! j) = k"
    proof (cases "I k = Some ?l")
      case True
      have "j = i" using k(2) True by simp
      have at: "gn_id (ns ! ?l) = k" using True by (simp add: iff)
      have "i \<noteq> ?l" using at i(2) k(1) by auto
      with i(1) have "i < ?l" by simp
      with i(1) at show ?thesis by (simp add: \<open>j = i\<close> nth_swap_remove)
    next
      case False
      have Ik: "I k = Some j" using k(2) False by simp
      have j: "j < length ns" "gn_id (ns ! j) = k" using Ik by (simp_all add: iff)
      have "j \<noteq> ?l" using Ik False by auto
      with j(1) have "j < ?l" by simp
      moreover have "j \<noteq> i" using k(1) j(2) i(2) by auto
      ultimately show ?thesis using i(1) j(2) by (simp add: nth_swap_remove)
    qed
  }
  {
    assume j: "j < length (swap_remove i ns) \<and> gn_id (swap_remove i ns ! j) = k"
    then have jl: "j < ?l" by simp
    show "(if k = nid then None else if I k = Some ?l then Some i else I k) = Some j"
    proof (cases "j = i")
      case True
      with j i(1) jl have "I k = Some ?l" by (simp add: iff nth_swap_remove)
      moreover have "i \<noteq> ?l" using True jl by simp
      ultimately have "k \<noteq> nid" using assms(2) by auto
      with \<open>I k = Some ?l\<close> True show ?thesis by simp
    next
      case False
      with j i(1) jl have "I k = Some j" by (auto simp: iff nth_swap_remove)
      moreover from this have "k \<noteq> nid" using assms(2) False by auto
      ultimately show ?thesis using jl by simp
    qed
  }
qed

lemma get_repoint:
  "hm_ok m \<Longrightarrow> (\<forall>k k'. hm_get m k = Some a \<longrightarrow> hm_get m k' = Some a \<longrightarrow> k = k') \<Longrightarrow>
    hm_get (repoint a b m) k = (if hm_get m k = Some a then Some b else hm_get m k)"
proof (induction a b m rule: repoint.induct)
  case (2 a b k0 v m)
  have keys: "map_of m k0 = None" and ok: "hm_ok m"
    using 2(2) by (auto simp: hm_ok_def hm_keys_def map_of_eq_None_iff)
  show ?case
  proof (cases "v = a")
    case True
    have "map_of m k \<noteq> Some a" if "k \<noteq> k0"
    proof
      assume "map_of m k = Some a"
      with True that have "hm_get ((k0, v) # m) k = Some a" "hm_get ((k0, v) # m) k0 = Some a"
        by (simp_all add: hm_get_def)
      with 2(3) have "k = k0" by blast
      with that show False by contradiction
    qed
    with True show ?thesis by (auto simp: hm_get_def)
  next
    case False
    have uniq: "\<forall>k k'. hm_get m k = Some a \<longrightarrow> hm_get m k' = Some a \<longrightarrow> k = k'"
    proof (intro allI impI)
      fix k k' assume "hm_get m k = Some a" "hm_get m k' = Some a"
      with keys have "hm_get ((k0, v) # m) k = Some a" "hm_get ((k0, v) # m) k' = Some a"
        by (auto simp: hm_get_def)
      with 2(3) show "k = k'" by blast
    qed
    from 2(1) [OF False ok uniq] False show ?thesis by (auto simp: hm_get_def)
  qed
qed (simp add: hm_get_def)

lemma repoint_keys [simp]: "hm_keys (repoint a b m) = hm_keys m"
  by (induction a b m rule: repoint.induct) (auto simp: hm_keys_def)

lemma repoint_ok [simp]: "hm_ok (repoint a b m) = hm_ok m"
  by (simp add: hm_ok_def)

section \<open>What an overlay holds\<close>

definition ov_nodes :: "volatile_overlay \<Rightarrow> string \<Rightarrow> graph_node option" where
  "ov_nodes ov nid = map_option (\<lambda>i. dg_nodes (ov_graph ov) ! i) (hm_get (ov_index ov) nid)"

type_synonym link = "string \<times> string \<times> edge_type"

definition links :: "graph_node list \<Rightarrow> dg_edge list \<Rightarrow> link list" where
  "links ns es = map (\<lambda>(s, t, ty). (gn_id (ns ! s), gn_id (ns ! t), ty)) es"

definition ov_links :: "volatile_overlay \<Rightarrow> link multiset" where
  "ov_links ov = mset (links (dg_nodes (ov_graph ov)) (dg_edges (ov_graph ov)))"

definition graph_fits :: "digraph \<Rightarrow> bool" where
  "graph_fits g \<longleftrightarrow> (\<forall>(s, t, _) \<in> set (dg_edges g). s < length (dg_nodes g) \<and> t < length (dg_nodes g))"

definition overlay_ok :: "volatile_overlay \<Rightarrow> bool" where
  "overlay_ok ov \<longleftrightarrow>
     hm_ok (ov_index ov) \<and> index_of (dg_nodes (ov_graph ov)) (hm_get (ov_index ov))
     \<and> graph_fits (ov_graph ov) \<and> length (ov_bloom ov) = 1024
     \<and> (\<forall>nid. hm_get (ov_index ov) nid \<noteq> None \<longrightarrow> check_bloom nid (ov_bloom ov))"

definition without_id :: "string \<Rightarrow> link multiset \<Rightarrow> link multiset" where
  "without_id nid ls = filter_mset (\<lambda>(a, b, _). a \<noteq> nid \<and> b \<noteq> nid) ls"

lemma remove_links:
  assumes "index_of ns I" "I nid = Some i" "\<forall>(s, t, _) \<in> set es. s < length ns \<and> t < length ns"
  defines "moved \<equiv> \<lambda>j. if j = length ns - 1 then i else j"
  shows "links (swap_remove i ns) (map (\<lambda>(s, t, e). (moved s, moved t, e)) (filter (\<lambda>(s, t, _). s \<noteq> i \<and> t \<noteq> i) es))
    = filter (\<lambda>(a, b, _). a \<noteq> nid \<and> b \<noteq> nid) (links ns es)"
  using assms(3)
proof (induction es)
  case (Cons r es)
  obtain s t e where r: "r = (s, t, e)" by (cases r)
  have i: "i < length ns" "gn_id (ns ! i) = nid" using assms(1,2) by (auto simp: index_of_def)
  have same: "gn_id (ns ! j) = nid \<longleftrightarrow> j = i" if "j < length ns" for j
    using index_of_unique [OF assms(1) that i(1)] i(2) by auto
  have at: "gn_id (swap_remove i ns ! moved j) = gn_id (ns ! j)" if "j < length ns" "j \<noteq> i" for j
  proof (cases "j = length ns - 1")
    case True
    with that i have "i < length ns - 1" by simp
    with True i show ?thesis by (simp add: moved_def nth_swap_remove)
  next
    case False
    with that i show ?thesis by (simp add: moved_def nth_swap_remove)
  qed
  show ?case using Cons same at by (auto simp: r links_def)
qed (simp add: links_def)

section \<open>Taking a node out and putting one in\<close>

definition index_without :: "string \<Rightarrow> nat \<Rightarrow> nat \<Rightarrow> (string \<Rightarrow> nat option) \<Rightarrow> string \<Rightarrow> nat option" where
  "index_without nid i l I k = (if k = nid then None else if I k = Some l then Some i else I k)"

lemma take_node:
  assumes sh: "shuffle_ok sh" and idx: "index_of (dg_nodes g) I" "I nid = Some i" and fits: "graph_fits g"
  defines "J \<equiv> index_without nid i (length (dg_nodes g) - 1) I"
  shows "\<exists>g'. dg_remove_node sh i g = Some g' \<and> index_of (dg_nodes g') J \<and> graph_fits g'
    \<and> mset (links (dg_nodes g') (dg_edges g')) = without_id nid (mset (links (dg_nodes g) (dg_edges g)))
    \<and> (\<forall>k. k \<noteq> nid \<longrightarrow> map_option ((!) (dg_nodes g')) (J k) = map_option ((!) (dg_nodes g)) (I k))"
proof -
  let ?ns = "dg_nodes g" and ?l = "length (dg_nodes g) - 1"
  let ?moved = "\<lambda>j. if j = ?l then i else j"
  let ?es = "map (\<lambda>(s, t, e). (?moved s, ?moved t, e)) (filter (\<lambda>(s, t, _). s \<noteq> i \<and> t \<noteq> i) (dg_edges g))"
  have iff: "I a = Some b \<longleftrightarrow> b < length ?ns \<and> gn_id (?ns ! b) = a" for a b
    using idx(1) by (simp add: index_of_def)
  have i: "i < length ?ns" "gn_id (?ns ! i) = nid" using idx(2) by (simp_all add: iff)
  let ?g = "\<lparr>dg_nodes = swap_remove i ?ns, dg_edges = sh ?es\<rparr>"
  have links_shuffle: "mset (links ns (sh es)) = mset (links ns es)" for ns es
    using sh by (simp add: shuffle_ok_def links_def)
  have shm: "mset (sh es) = mset es" for es using sh by (simp add: shuffle_ok_def)
  have shs: "set (sh es) = set es" for es using shm mset_eq_setD by blast
  have run: "dg_remove_node sh i g = Some ?g" using i by (simp add: dg_remove_node_def Let_def)
  have J: "index_of (dg_nodes ?g) J"
  proof -
    have "J = (\<lambda>k. if k = nid then None else if I k = Some ?l then Some i else I k)"
      by (rule ext) (simp add: J_def index_without_def)
    with index_of_remove [OF idx] show ?thesis by simp
  qed
  have fits': "graph_fits ?g"
    using fits i unfolding graph_fits_def by (fastforce simp: shs)
  have "links (swap_remove i ?ns) ?es = filter (\<lambda>(a, b, _). a \<noteq> nid \<and> b \<noteq> nid) (links ?ns (dg_edges g))"
    using remove_links [OF idx, of "dg_edges g"] fits by (simp add: graph_fits_def)
  then have lk: "mset (links (dg_nodes ?g) (dg_edges ?g)) = without_id nid (mset (links ?ns (dg_edges g)))"
    by (simp only: digraph.select_convs links_shuffle without_id_def mset_filter)
  have at: "map_option ((!) (swap_remove i ?ns)) (J k) = map_option ((!) ?ns) (I k)" if "k \<noteq> nid" for k
  proof (cases "I k")
    case (Some j)
    then have j: "j < length ?ns" "gn_id (?ns ! j) = k" by (simp_all add: iff)
    with i that have "j \<noteq> i" by auto
    with j i Some that show ?thesis by (auto simp: J_def index_without_def nth_swap_remove)
  qed (simp add: J_def index_without_def that)
  show ?thesis using run J fits' lk at by (intro exI [of _ ?g]) simp
qed

lemma put_node_index:
  "index_of ns J \<Longrightarrow> J (gn_id node) = None \<Longrightarrow> index_of (ns @ [node]) (J(gn_id node \<mapsto> length ns))"
  unfolding index_of_def
proof (intro allI)
  fix k i assume J: "\<forall>nid i. (J nid = Some i) = (i < length ns \<and> gn_id (ns ! i) = nid)" and none: "J (gn_id node) = None"
  have no: "gn_id (ns ! j) \<noteq> gn_id node" if "j < length ns" for j
    using J none that by (metis option.distinct(1))
  show "((J(gn_id node \<mapsto> length ns)) k = Some i) = (i < length (ns @ [node]) \<and> gn_id ((ns @ [node]) ! i) = k)"
    using J no by (auto simp: nth_append less_Suc_eq)
qed

lemma put_node_links: "graph_fits g \<Longrightarrow> links (dg_nodes g @ [node]) (dg_edges g) = links (dg_nodes g) (dg_edges g)"
  by (auto simp: links_def graph_fits_def nth_append)

lemma index_of_inj:
  "index_of ns I \<Longrightarrow> \<forall>k k'. I k = Some a \<longrightarrow> I k' = Some a \<longrightarrow> k = k'"
  unfolding index_of_def by auto

lemma index_of_less: "index_of ns I \<Longrightarrow> I k = Some i \<Longrightarrow> i < length ns"
  by (simp add: index_of_def)

section \<open>What each operation does\<close>

lemma overlay_okD:
  assumes "overlay_ok ov"
  shows "hm_ok (ov_index ov)" "index_of (dg_nodes (ov_graph ov)) (hm_get (ov_index ov))"
    "graph_fits (ov_graph ov)" "length (ov_bloom ov) = 1024"
    "hm_get (ov_index ov) nid \<noteq> None \<Longrightarrow> check_bloom nid (ov_bloom ov)"
  using assms by (auto simp: overlay_ok_def)

lemma ov_nodes_id: "overlay_ok ov \<Longrightarrow> ov_nodes ov nid = Some n \<Longrightarrow> gn_id n = nid"
  by (auto simp: ov_nodes_def overlay_ok_def index_of_def)

lemma without_id_none:
  assumes "overlay_ok ov" "hm_get (ov_index ov) nid = None"
  shows "without_id nid (ov_links ov) = ov_links ov"
proof -
  let ?ns = "dg_nodes (ov_graph ov)" and ?es = "dg_edges (ov_graph ov)"
  have "gn_id (?ns ! j) \<noteq> nid" if "j < length ?ns" for j
    using overlay_okD(2) [OF assms(1)] assms(2) that by (metis index_of_def option.distinct(1))
  then have "filter (\<lambda>(a, b, _). a \<noteq> nid \<and> b \<noteq> nid) (links ?ns ?es) = links ?ns ?es"
    using overlay_okD(3) [OF assms(1)] by (fastforce simp: filter_id_conv links_def graph_fits_def)
  then show ?thesis by (simp add: without_id_def ov_links_def flip: mset_filter)
qed

lemma repointed:
  assumes "hm_ok m" "index_of ns (hm_get m)" "hm_get m nid = Some i" "l = length ns - 1"
  shows "hm_get (if i \<noteq> l then repoint l i (hm_del nid m) else hm_del nid m) = index_without nid i l (hm_get m)"
    and "hm_get (hm_put nid j (if i \<noteq> l then repoint l i m else m)) = (index_without nid i l (hm_get m))(nid \<mapsto> j)"
proof -
  note inj = index_of_inj [OF assms(2), of l]
  have only: "hm_get m k \<noteq> Some l" if "i = l" "k \<noteq> nid" for k
    using index_of_inj [OF assms(2), of i] assms(3) that by auto
  have del: "\<forall>k k'. hm_get (hm_del nid m) k = Some l \<longrightarrow> hm_get (hm_del nid m) k' = Some l \<longrightarrow> k = k'"
    using inj by (auto split: if_splits)
  show "hm_get (if i \<noteq> l then repoint l i (hm_del nid m) else hm_del nid m) = index_without nid i l (hm_get m)"
    using only by (auto simp: get_repoint [OF _ del] assms(1) index_without_def fun_eq_iff)
  show "hm_get (hm_put nid j (if i \<noteq> l then repoint l i m else m)) = (index_without nid i l (hm_get m))(nid \<mapsto> j)"
    using only by (auto simp: get_repoint [OF assms(1) inj] index_without_def fun_eq_iff)
qed

lemma insert_node_effect:
  assumes ok: "overlay_ok ov" and sh: "shuffle_ok sh" and run: "overlay_insert_node sh now node ov = (i, ov')"
  shows "overlay_ok ov' \<and> ov_nodes ov' = (ov_nodes ov)(gn_id node \<mapsto> node)
    \<and> ov_links ov' = without_id (gn_id node) (ov_links ov)
    \<and> ov_log ov' = enqueue (node_diff [node] []) (ov_log ov)"
proof -
  let ?nid = "gn_id node" and ?g = "ov_graph ov" and ?m = "ov_index ov"
  note k = overlay_okD [OF ok]
  obtain g J m' where J: "index_of (dg_nodes g) J" "J ?nid = None" "graph_fits g"
      "mset (links (dg_nodes g) (dg_edges g)) = without_id ?nid (ov_links ov)"
      "\<forall>k. k \<noteq> ?nid \<longrightarrow> map_option ((!) (dg_nodes g)) (J k) = ov_nodes ov k"
      "\<forall>k. J k \<noteq> None \<longrightarrow> hm_get ?m k \<noteq> None"
    and m': "hm_ok m'" "hm_get m' = J(?nid \<mapsto> length (dg_nodes g))"
    and ov': "ov' = ov\<lparr>ov_graph := g\<lparr>dg_nodes := dg_nodes g @ [node]\<rparr>, ov_index := m',
             ov_bloom := update_bloom ?nid (ov_bloom ov), ov_updated := now,
             ov_log := enqueue (node_diff [node] []) (ov_log ov)\<rparr>"
  proof (cases "hm_get ?m ?nid")
    case None
    have "hm_get (hm_put ?nid (length (dg_nodes ?g)) ?m) = (hm_get ?m)(?nid \<mapsto> length (dg_nodes ?g))"
      by (simp add: fun_eq_iff)
    with None run show thesis
      using k without_id_none [OF ok None]
      by (intro that [of ?g "hm_get ?m" "hm_put ?nid (length (dg_nodes ?g)) ?m"])
        (auto simp: overlay_insert_node_def ov_links_def ov_nodes_def Let_def)
  next
    case (Some old)
    let ?l = "length (dg_nodes ?g) - 1"
    let ?J = "index_without ?nid old ?l (hm_get ?m)"
    obtain g where g: "dg_remove_node sh old ?g = Some g" "index_of (dg_nodes g) ?J" "graph_fits g"
        "mset (links (dg_nodes g) (dg_edges g)) = without_id ?nid (ov_links ov)"
        "\<forall>k. k \<noteq> ?nid \<longrightarrow> map_option ((!) (dg_nodes g)) (?J k) = ov_nodes ov k"
      using take_node [OF sh k(2) Some k(3)] by (auto simp: ov_links_def ov_nodes_def)
    let ?m' = "hm_put ?nid (length (dg_nodes g)) (if old \<noteq> ?l then repoint ?l old ?m else ?m)"
    have "hm_get ?m' = ?J(?nid \<mapsto> length (dg_nodes g))" by (rule repointed(2) [OF k(1) k(2) Some refl])
    moreover have "hm_ok ?m'" using k(1) by simp
    moreover have "ov' = ov\<lparr>ov_graph := g\<lparr>dg_nodes := dg_nodes g @ [node]\<rparr>, ov_index := ?m',
             ov_bloom := update_bloom ?nid (ov_bloom ov), ov_updated := now,
             ov_log := enqueue (node_diff [node] []) (ov_log ov)\<rparr>"
      using run Some g(1) by (auto simp: overlay_insert_node_def Let_def)
    ultimately show thesis using g by (intro that [of g ?J ?m']) (auto simp: index_without_def)
  qed
  let ?g' = "g\<lparr>dg_nodes := dg_nodes g @ [node]\<rparr>"
  have idx: "index_of (dg_nodes ?g') (hm_get m')" using put_node_index [OF J(1,2)] m'(2) by simp
  have fits: "graph_fits ?g'" using J(3) by (auto simp: graph_fits_def less_Suc_eq)
  have bloom: "check_bloom k (update_bloom ?nid (ov_bloom ov))" if "hm_get m' k \<noteq> None" for k
    using that k(4,5) J(6) m'(2) by (cases "k = ?nid") (auto intro: update_bloom_keeps check_update_bloom)
  have at: "ov_nodes ov' k = ((ov_nodes ov)(?nid \<mapsto> node)) k" for k
  proof (cases "k = ?nid")
    case False
    have "map_option ((!) (dg_nodes g @ [node])) (J k) = map_option ((!) (dg_nodes g)) (J k)"
      using index_of_less [OF J(1)] by (cases "J k") (auto simp: nth_append)
    with False J(5) show ?thesis by (simp add: ov' ov_nodes_def m'(2))
  qed (simp add: ov' ov_nodes_def m'(2))
  have "overlay_ok ov'" using m'(1) idx fits k(4) bloom by (simp add: overlay_ok_def ov')
  moreover have "ov_links ov' = without_id ?nid (ov_links ov)"
    using put_node_links [OF J(3)] J(4) by (simp add: ov_links_def ov')
  ultimately show ?thesis using at by (auto simp: ov')
qed

lemma remove_node_effect:
  assumes ok: "overlay_ok ov" and sh: "shuffle_ok sh" and run: "overlay_remove_node sh now nid ov = (b, ov')"
  shows "overlay_ok ov' \<and> ov_nodes ov' = (ov_nodes ov)(nid := None)
    \<and> ov_links ov' = without_id nid (ov_links ov) \<and> (b \<longleftrightarrow> ov_nodes ov nid \<noteq> None)
    \<and> ov_log ov' = (if b then enqueue (node_diff [] [nid]) (ov_log ov) else ov_log ov)"
proof (cases "hm_get (ov_index ov) nid")
  case None
  with run have "ov' = ov" "\<not> b" by (simp_all add: overlay_remove_node_def)
  with None ok without_id_none [OF ok None] show ?thesis by (auto simp: ov_nodes_def fun_eq_iff)
next
  case (Some i)
  let ?g = "ov_graph ov" and ?m = "ov_index ov"
  let ?l = "length (dg_nodes ?g) - 1"
  let ?J = "index_without nid i ?l (hm_get ?m)"
  let ?m' = "if i \<noteq> ?l then repoint ?l i (hm_del nid ?m) else hm_del nid ?m"
  note k = overlay_okD [OF ok]
  obtain g where g: "dg_remove_node sh i ?g = Some g" "index_of (dg_nodes g) ?J" "graph_fits g"
      "mset (links (dg_nodes g) (dg_edges g)) = without_id nid (ov_links ov)"
      "\<forall>k. k \<noteq> nid \<longrightarrow> map_option ((!) (dg_nodes g)) (?J k) = ov_nodes ov k"
    using take_node [OF sh k(2) Some k(3)] by (auto simp: ov_links_def ov_nodes_def)
  have m': "hm_get ?m' = ?J" by (rule repointed(1) [OF k(1) k(2) Some refl])
  have ov': "b" "ov' = ov\<lparr>ov_graph := g, ov_updated := now, ov_index := ?m',
      ov_log := enqueue (node_diff [] [nid]) (ov_log ov)\<rparr>"
    using run Some g(1) by (auto simp: overlay_remove_node_def Let_def)
  have J: "hm_get (ov_index ov') = ?J" and g': "ov_graph ov' = g" using m' by (simp_all add: ov'(2))
  have "ov_nodes ov' k = ((ov_nodes ov)(nid := None)) k" for k
    using g(5) by (cases "k = nid") (simp_all add: ov_nodes_def [of ov'] J g' index_without_def)
  moreover have "check_bloom k (ov_bloom ov)" if "?J k \<noteq> None" for k
    using that k(5) by (auto simp: index_without_def split: if_splits)
  then have "overlay_ok ov'"
    using k(1,4) g(2,3) unfolding overlay_ok_def J g' by (simp add: ov'(2))
  moreover have "ov_links ov' = without_id nid (ov_links ov)" using g(4) by (simp add: ov_links_def ov'(2))
  moreover have "ov_nodes ov nid \<noteq> None" using Some by (simp add: ov_nodes_def)
  ultimately show ?thesis using ov' by auto
qed

lemma get_node_eq: "overlay_ok ov \<Longrightarrow> overlay_get_node nid ov = ov_nodes ov nid"
  using overlay_okD(5) [of ov nid] index_of_less [OF overlay_okD(2), of ov nid]
  by (cases "hm_get (ov_index ov) nid") (auto simp: overlay_get_node_def ov_nodes_def)

lemma stored_link:
  assumes "index_of ns I" "I a = Some s" "I b = Some t" "\<forall>(s, t, _) \<in> set es. s < length ns \<and> t < length ns"
  shows "(a, b, ty) \<in> set (links ns es) \<longleftrightarrow> (s, t, ty) \<in> set es"
proof -
  have "(a, b, ty) \<in> set (links ns es) \<longleftrightarrow> (\<exists>s' t'. (s', t', ty) \<in> set es \<and> gn_id (ns ! s') = a \<and> gn_id (ns ! t') = b)"
    by (force simp: links_def)
  also have "\<dots> \<longleftrightarrow> (\<exists>s' t'. (s', t', ty) \<in> set es \<and> I a = Some s' \<and> I b = Some t')"
    using assms(1,4) by (fastforce simp: index_of_def)
  finally show ?thesis using assms(2,3) by simp
qed

lemma insert_edge_effect:
  fixes e :: graph_edge
  assumes ok: "overlay_ok ov"
  defines "link \<equiv> (ge_source_id e, ge_target_id e, ge_type e)"
  shows "\<exists>ov'. overlay_insert_edge now e ov = Some
      (if ov_nodes ov (ge_source_id e) = None then Inl (OverlaySourceNotFound (ge_source_id e))
       else if ov_nodes ov (ge_target_id e) = None then Inl (OverlayTargetNotFound (ge_target_id e)) else Inr (), ov')
    \<and> overlay_ok ov' \<and> ov_nodes ov' = ov_nodes ov
    \<and> (let new = ov_nodes ov (ge_source_id e) \<noteq> None \<and> ov_nodes ov (ge_target_id e) \<noteq> None \<and> link \<notin># ov_links ov in
       ov_links ov' = (if new then add_mset link (ov_links ov) else ov_links ov)
       \<and> ov_log ov' = (if new then enqueue (node_diff [] []) (ov_log ov) else ov_log ov))"
proof (cases "hm_get (ov_index ov) (ge_source_id e)")
  case None
  then show ?thesis using ok by (auto simp: overlay_insert_edge_def edge_lookup_def ov_nodes_def)
next
  case s: (Some s)
  show ?thesis
  proof (cases "hm_get (ov_index ov) (ge_target_id e)")
    case None
    with s show ?thesis using ok by (auto simp: overlay_insert_edge_def edge_lookup_def ov_nodes_def)
  next
    case t: (Some t)
    let ?g = "ov_graph ov"
    note k = overlay_okD [OF ok]
    have at: "s < length (dg_nodes ?g)" "gn_id (dg_nodes ?g ! s) = ge_source_id e"
        "t < length (dg_nodes ?g)" "gn_id (dg_nodes ?g ! t) = ge_target_id e"
      using k(2) s t by (auto simp: index_of_def)
    have mem: "link \<in># ov_links ov \<longleftrightarrow> (s, t, ge_type e) \<in> set (dg_edges ?g)"
      using stored_link [OF k(2) s t] k(3) by (simp add: link_def ov_links_def graph_fits_def)
    show ?thesis
    proof (cases "(s, t, ge_type e) \<in> set (dg_edges ?g)")
      case True
      with s t mem ok show ?thesis
        by (auto simp: overlay_insert_edge_def edge_lookup_def edge_commit_def ov_nodes_def Let_def)
    next
      case False
      let ?ov' = "ov\<lparr>ov_graph := ?g\<lparr>dg_edges := dg_edges ?g @ [(s, t, ge_type e)]\<rparr>, ov_updated := now,
          ov_log := enqueue (node_diff [] []) (ov_log ov)\<rparr>"
      have "overlay_insert_edge now e ov = Some (Inr (), ?ov')"
        using s t False at by (simp add: overlay_insert_edge_def edge_lookup_def edge_commit_def Let_def)
      moreover have "overlay_ok ?ov'" using ok at by (simp add: overlay_ok_def graph_fits_def)
      moreover have "ov_links ?ov' = add_mset link (ov_links ov)"
        using at by (simp add: ov_links_def links_def link_def)
      moreover have "ov_nodes ?ov' = ov_nodes ov" by (simp add: ov_nodes_def fun_eq_iff)
      ultimately show ?thesis using s t mem False by (intro exI [of _ ?ov']) (simp add: ov_nodes_def)
    qed
  qed
qed

end
