(* ===== verification/Overlay_Run.thy ===== *)
theory Overlay_Run
  imports Overlay_Inv
begin

text \<open>
  Runs of overlay operations against the map they promise to be, and the replay of the
  revision log by a subscriber.
\<close>

section \<open>Removing the nodes of a file\<close>

lemma key_at_cases: "case key_at i m of None \<Rightarrow> i \<notin> snd ` set m | Some k \<Rightarrow> (k, i) \<in> set m"
  by (induction m) (auto simp: key_at_def split: option.splits prod.splits)

lemma key_at_index:
  assumes "hm_ok m" "index_of ns (hm_get m)" "i < length ns"
  shows "key_at i m = Some (gn_id (ns ! i))"
proof -
  have get: "(k, i) \<in> set m \<longleftrightarrow> k = gn_id (ns ! i)" for k
    using assms by (auto simp: index_of_def hm_mem_get)
  then have "(gn_id (ns ! i), i) \<in> set m" by simp
  then have "i \<in> snd ` set m" by (rule rev_image_eqI) simp
  with key_at_cases [of i m] get show ?thesis by (cases "key_at i m") simp_all
qed

lemma map_filter_if:
  "(\<And>x. x \<in> set xs \<Longrightarrow> f x = (if P x then Some (g x) else None)) \<Longrightarrow> List.map_filter f xs = map g (filter P xs)"
  by (induction xs) (auto split: if_splits)

lemma ids_at_path_eq:
  assumes "overlay_ok ov"
  shows "ids_at_path path ov = map gn_id (filter (\<lambda>n. gn_path n = path) (dg_nodes (ov_graph ov)))"
proof -
  let ?ns = "dg_nodes (ov_graph ov)"
  have "ids_at_path path ov = map (\<lambda>i. gn_id (?ns ! i)) (filter (\<lambda>i. gn_path (?ns ! i) = path) [0 ..< length ?ns])"
    unfolding ids_at_path_def
    by (rule map_filter_if) (simp add: key_at_index [OF overlay_okD(1,2) [OF assms]])
  also have "\<dots> = map gn_id (filter (\<lambda>n. gn_path n = path) (map ((!) ?ns) [0 ..< length ?ns]))"
    by (simp add: filter_map comp_def)
  finally show ?thesis by (simp add: map_nth)
qed

lemma set_ids_at_path:
  assumes "overlay_ok ov"
  shows "k \<in> set (ids_at_path path ov) \<longleftrightarrow> (\<exists>n. ov_nodes ov k = Some n \<and> gn_path n = path)"
  using overlay_okD(2) [OF assms]
  by (force simp: ids_at_path_eq [OF assms] in_set_conv_nth ov_nodes_def index_of_def)

lemma distinct_ids_at_path:
  assumes "overlay_ok ov"
  shows "distinct (ids_at_path path ov)"
proof -
  have "distinct (map gn_id (dg_nodes (ov_graph ov)))"
    using index_of_unique [OF overlay_okD(2) [OF assms]] by (auto simp: distinct_conv_nth)
  then show ?thesis by (simp add: ids_at_path_eq [OF assms] distinct_map_filter)
qed

definition without_ids :: "(string \<Rightarrow> bool) \<Rightarrow> link multiset \<Rightarrow> link multiset" where
  "without_ids P ls = filter_mset (\<lambda>(a, b, _). \<not> P a \<and> \<not> P b) ls"

definition gone :: "string \<Rightarrow> overlay_diff" where
  "gone nid = node_diff [] [nid]"

lemma without_ids_Cons: "without_ids (\<lambda>k. k \<in> set (j # ids)) L = without_ids (\<lambda>k. k \<in> set ids) (without_id j L)"
  unfolding without_ids_def without_id_def filter_filter_mset by (rule filter_mset_cong) auto

lemma remove_ids_effect:
  "overlay_ok ov \<Longrightarrow> shuffle_ok sh \<Longrightarrow> distinct ids \<Longrightarrow> \<forall>k \<in> set ids. ov_nodes ov k \<noteq> None \<Longrightarrow>
    remove_ids sh now ids c ov = (n, ov') \<Longrightarrow>
    overlay_ok ov' \<and> n = c + length ids \<and> ov_nodes ov' = (\<lambda>k. if k \<in> set ids then None else ov_nodes ov k)
    \<and> ov_links ov' = without_ids (\<lambda>k. k \<in> set ids) (ov_links ov)
    \<and> ov_log ov' = fold enqueue (map gone ids) (ov_log ov)"
proof (induction ids arbitrary: c ov)
  case Nil
  then show ?case by (auto simp: without_ids_def split_def)
next
  case (Cons k ids)
  obtain b ov1 where r: "overlay_remove_node sh now k ov = (b, ov1)" by fastforce
  note e = remove_node_effect [OF Cons.prems(1,2) r]
  have b: "b" using e Cons.prems(4) by simp
  with Cons.prems(5) r have run: "remove_ids sh now ids (Suc c) ov1 = (n, ov')" by simp
  have "\<forall>k \<in> set ids. ov_nodes ov1 k \<noteq> None" using Cons.prems(3,4) e by auto
  with Cons.IH [OF _ Cons.prems(2) _ _ run] e Cons.prems(3)
  have "overlay_ok ov' \<and> n = Suc c + length ids \<and> ov_nodes ov' = (\<lambda>k. if k \<in> set ids then None else ov_nodes ov1 k)
    \<and> ov_links ov' = without_ids (\<lambda>k. k \<in> set ids) (ov_links ov1)
    \<and> ov_log ov' = fold enqueue (map gone ids) (ov_log ov1)" by simp
  with e b show ?case
    by (auto simp only: without_ids_Cons) (auto simp: gone_def [of k] fun_eq_iff)
qed

section \<open>The abstract overlay\<close>

datatype overlay_op =
    Put graph_node
  | Drop string
  | Link graph_edge
  | DropFile string
  | ClearAll
  | Touch

type_synonym overlay_event = "nat \<times> overlay_op"

primrec overlay_do :: "(dg_edge list \<Rightarrow> dg_edge list) \<Rightarrow> nat \<Rightarrow> overlay_op \<Rightarrow> volatile_overlay \<Rightarrow> volatile_overlay" where
  "overlay_do sh now (Put n) ov = snd (overlay_insert_node sh now n ov)"
| "overlay_do sh now (Drop nid) ov = snd (overlay_remove_node sh now nid ov)"
| "overlay_do sh now (Link e) ov = (case overlay_insert_edge now e ov of None \<Rightarrow> ov | Some (_, ov') \<Rightarrow> ov')"
| "overlay_do sh now (DropFile path) ov = snd (remove_nodes_for_path sh now path ov)"
| "overlay_do sh now ClearAll ov = overlay_clear now ov"
| "overlay_do sh now Touch ov = overlay_touch now ov"

definition overlay_step :: "(dg_edge list \<Rightarrow> dg_edge list) \<Rightarrow> overlay_event \<Rightarrow> volatile_overlay \<Rightarrow> volatile_overlay" where
  "overlay_step sh e ov = overlay_do sh (fst e) (snd e) ov"

type_synonym overlay_view = "(string \<Rightarrow> graph_node option) \<times> link multiset"

definition at_path :: "string \<Rightarrow> (string \<Rightarrow> graph_node option) \<Rightarrow> string \<Rightarrow> bool" where
  "at_path path N k = (case N k of None \<Rightarrow> False | Some n \<Rightarrow> gn_path n = path)"

fun view_do :: "overlay_op \<Rightarrow> overlay_view \<Rightarrow> overlay_view" where
  "view_do (Put n) (N, L) = (N(gn_id n \<mapsto> n), without_id (gn_id n) L)"
| "view_do (Drop nid) (N, L) = (N(nid := None), without_id nid L)"
| "view_do (Link e) (N, L) =
     (let link = (ge_source_id e, ge_target_id e, ge_type e) in
      (N, if N (ge_source_id e) \<noteq> None \<and> N (ge_target_id e) \<noteq> None \<and> link \<notin># L then add_mset link L else L))"
| "view_do (DropFile path) (N, L) =
     ((\<lambda>k. if at_path path N k then None else N k), without_ids (at_path path N) L)"
| "view_do ClearAll (N, L) = (Map.empty, {#})"
| "view_do Touch (N, L) = (N, L)"

definition view :: "volatile_overlay \<Rightarrow> overlay_view" where
  "view ov = (ov_nodes ov, ov_links ov)"

definition diff_nodes :: "overlay_diff \<Rightarrow> (string \<Rightarrow> graph_node option) \<Rightarrow> string \<Rightarrow> graph_node option" where
  "diff_nodes d N =
     fold (\<lambda>n N. N(gn_id n \<mapsto> n)) (od_updated d)
       (fold (\<lambda>nid N. N(nid := None)) (od_removed d)
         (fold (\<lambda>n N. N(gn_id n \<mapsto> n)) (od_added d) N))"

lemma diff_nodes_gone: "fold diff_nodes (map gone ids) N = (\<lambda>k. if k \<in> set ids then None else N k)"
  by (induction ids arbitrary: N) (auto simp: gone_def diff_nodes_def node_diff_def fun_eq_iff)

text \<open>What is logged replays what happened to the nodes.\<close>

definition logged :: "volatile_overlay \<Rightarrow> volatile_overlay \<Rightarrow> bool" where
  "logged ov ov' \<longleftrightarrow> (\<exists>ds. ov_log ov' = fold enqueue ds (ov_log ov) \<and> ov_nodes ov' = fold diff_nodes ds (ov_nodes ov))"

lemma logged_none: "ov_log ov' = ov_log ov \<Longrightarrow> ov_nodes ov' = ov_nodes ov \<Longrightarrow> logged ov ov'"
  unfolding logged_def by (rule exI [of _ "[]"]) simp

lemma logged_one:
  "ov_log ov' = enqueue d (ov_log ov) \<Longrightarrow> ov_nodes ov' = diff_nodes d (ov_nodes ov) \<Longrightarrow> logged ov ov'"
  unfolding logged_def by (rule exI [of _ "[d]"]) simp

lemma logged_idle:
  "ov_log ov' = (if b then enqueue (node_diff [] []) (ov_log ov) else ov_log ov) \<Longrightarrow> ov_nodes ov' = ov_nodes ov \<Longrightarrow>
    logged ov ov'"
  by (cases b) (simp_all add: logged_none logged_one diff_nodes_def node_diff_def)

lemma logged_trans: "logged ov ov1 \<Longrightarrow> logged ov1 ov2 \<Longrightarrow> logged ov ov2"
  unfolding logged_def by (metis comp_apply fold_append)

text \<open>A machine that implements an abstract one.\<close>

locale refined_machine = machine +
  fixes abs :: "'b \<Rightarrow> 'c" and spec :: "'a \<Rightarrow> 'c \<Rightarrow> 'c"
  assumes step_abs: "admissible e \<Longrightarrow> inv s \<Longrightarrow> abs (step e s) = spec e (abs s)"
begin

lemma run_abs: "list_all admissible es \<Longrightarrow> inv s \<Longrightarrow> abs (fold step es s) = fold spec es (abs s)"
  by (induction es arbitrary: s) (auto simp: step_inv step_abs)

end

lemma remove_path_effect:
  assumes "overlay_ok ov" "shuffle_ok sh" "remove_nodes_for_path sh now path ov = (n, ov')"
  shows "overlay_ok ov' \<and> view ov' = view_do (DropFile path) (view ov) \<and> n = length (ids_at_path path ov)
    \<and> ov_log ov' = fold enqueue (map gone (ids_at_path path ov)) (ov_log ov)
    \<and> ov_nodes ov' = fold diff_nodes (map gone (ids_at_path path ov)) (ov_nodes ov)"
proof -
  let ?ids = "ids_at_path path ov"
  have mem: "(\<lambda>k. k \<in> set ?ids) = at_path path (ov_nodes ov)"
    using set_ids_at_path [OF assms(1)] by (auto simp: at_path_def fun_eq_iff split: option.split)
  have live: "\<forall>k \<in> set ?ids. ov_nodes ov k \<noteq> None" using set_ids_at_path [OF assms(1)] by auto
  have run: "remove_ids sh now ?ids 0 ov = (n, ov')" using assms(3) by (simp add: remove_nodes_for_path_def)
  note e = remove_ids_effect [OF assms(1,2) distinct_ids_at_path [OF assms(1)] live run]
  show ?thesis using e mem by (auto simp: view_def diff_nodes_gone fun_eq_iff)
qed

lemma overlay_ok_clear: "overlay_ok ov \<Longrightarrow> overlay_ok (overlay_clear now ov)"
  by (simp add: overlay_ok_def overlay_clear_def dg_empty_def index_of_def graph_fits_def hm_ok_def hm_keys_def hm_empty_def hm_get_def)

lemma view_clear: "view (overlay_clear now ov) = (Map.empty, {#})"
  by (simp add: view_def ov_nodes_def ov_links_def links_def overlay_clear_def dg_empty_def fun_eq_iff)

lemma overlay_step_effect:
  assumes ok: "overlay_ok ov" and sh: "shuffle_ok sh"
  shows "overlay_ok (overlay_do sh now e ov) \<and> view (overlay_do sh now e ov) = view_do e (view ov)
    \<and> (e \<noteq> ClearAll \<longrightarrow> logged ov (overlay_do sh now e ov))"
proof (cases e)
  case (Put n)
  obtain i ov' where r: "overlay_insert_node sh now n ov = (i, ov')" by fastforce
  show ?thesis using insert_node_effect [OF ok sh r] r Put
    by (auto simp: view_def diff_nodes_def node_diff_def intro: logged_one)
next
  case (Drop nid)
  obtain b ov' where r: "overlay_remove_node sh now nid ov = (b, ov')" by fastforce
  note e = remove_node_effect [OF ok sh r]
  have "logged ov ov'"
  proof (cases b)
    case True
    with e show ?thesis by (intro logged_one [of _ "node_diff [] [nid]"]) (simp_all add: diff_nodes_def node_diff_def)
  next
    case False
    with e show ?thesis by (intro logged_none) (auto simp: fun_eq_iff)
  qed
  with e r Drop show ?thesis by (simp add: view_def)
next
  case (Link w)
  show ?thesis using insert_edge_effect [OF ok, of now w] Link
    by (auto simp only: view_def Let_def overlay_do.simps view_do.simps option.case prod.case logged_idle)
next
  case (DropFile path)
  obtain n ov' where r: "remove_nodes_for_path sh now path ov = (n, ov')" by fastforce
  show ?thesis using remove_path_effect [OF ok sh r] r DropFile by (auto simp: logged_def)
next
  case ClearAll
  then show ?thesis by (simp add: overlay_ok_clear [OF ok] view_clear) (simp add: view_def)
next
  case Touch
  have "overlay_ok (overlay_touch now ov)" "ov_nodes (overlay_touch now ov) = ov_nodes ov"
      "ov_links (overlay_touch now ov) = ov_links ov" "ov_log (overlay_touch now ov) = ov_log ov"
    using ok by (simp_all add: overlay_touch_def overlay_ok_def ov_nodes_def ov_links_def fun_eq_iff)
  then show ?thesis using Touch by (auto simp: view_def intro!: logged_none)
qed

interpretation overlay_machine:
    refined_machine "overlay_step sh" "\<lambda>_. shuffle_ok sh" overlay_ok view "\<lambda>e. view_do (snd e)" for sh
  by unfold_locales (simp_all add: overlay_step_def overlay_step_effect)

lemma overlay_new_ok: "overlay_ok (overlay_new now)" and view_new: "view (overlay_new now) = (Map.empty, {#})"
  by (simp_all add: overlay_ok_def overlay_new_def dg_empty_def index_of_def graph_fits_def hm_ok_def hm_keys_def
      hm_empty_def view_def ov_nodes_def ov_links_def links_def hm_get_def fun_eq_iff)

definition overlay_run :: "(dg_edge list \<Rightarrow> dg_edge list) \<Rightarrow> nat \<Rightarrow> overlay_event list \<Rightarrow> volatile_overlay" where
  "overlay_run sh now es = fold (overlay_step sh) es (overlay_new now)"

lemma overlay_run_ok: "shuffle_ok sh \<Longrightarrow> overlay_ok (overlay_run sh now es)"
  unfolding overlay_run_def by (rule overlay_machine.run_inv) (simp_all add: list_all_iff overlay_new_ok)

text \<open>
  C6: Whatever sequence of operations on it an overlay has seen, its answers are those of a
  plain map from ids to nodes with a bag of typed links between ids: a lookup finds a node
  exactly when the map has it, although removals move other nodes to new indices and the
  Bloom filter answers first; links go with their ends and are never stored twice. Merging
  another overlay in is not among the operations: it stores a node twice that both hold.
\<close>

theorem overlay_is_a_map:
  assumes "shuffle_ok sh"
  shows "view (overlay_run sh now es) = fold (\<lambda>e. view_do (snd e)) es (Map.empty, {#})
    \<and> (\<forall>nid. overlay_get_node nid (overlay_run sh now es) = fst (fold (\<lambda>e. view_do (snd e)) es (Map.empty, {#})) nid)
    \<and> (\<forall>e t. \<exists>ov'. overlay_insert_edge t e (overlay_run sh now es) =
        Some (if overlay_get_node (ge_source_id e) (overlay_run sh now es) = None
                then Inl (OverlaySourceNotFound (ge_source_id e))
              else if overlay_get_node (ge_target_id e) (overlay_run sh now es) = None
                then Inl (OverlayTargetNotFound (ge_target_id e)) else Inr (), ov'))"
proof -
  have ok: "overlay_ok (overlay_run sh now es)" using assms by (rule overlay_run_ok)
  have view: "view (overlay_run sh now es) = fold (\<lambda>e. view_do (snd e)) es (Map.empty, {#})"
    unfolding overlay_run_def view_new [of now, symmetric]
    by (rule overlay_machine.run_abs) (simp_all add: list_all_iff assms overlay_new_ok)
  show ?thesis
    using view insert_edge_effect [OF ok] unfolding get_node_eq [OF ok] by (metis fst_conv view_def)
qed

section \<open>Catching up from the revision log\<close>

lemma fold_insert_effect:
  "overlay_ok ov \<Longrightarrow> shuffle_ok sh \<Longrightarrow>
    overlay_ok (fold (\<lambda>n ov. snd (overlay_insert_node sh now n ov)) ns ov)
    \<and> ov_nodes (fold (\<lambda>n ov. snd (overlay_insert_node sh now n ov)) ns ov) = fold (\<lambda>n N. N(gn_id n \<mapsto> n)) ns (ov_nodes ov)"
proof (induction ns arbitrary: ov)
  case (Cons n ns)
  obtain i ov1 where r: "overlay_insert_node sh now n ov = (i, ov1)" by fastforce
  note e = insert_node_effect [OF Cons.prems r]
  with Cons.IH [of ov1] Cons.prems r show ?case by simp
qed simp

lemma fold_remove_effect:
  "overlay_ok ov \<Longrightarrow> shuffle_ok sh \<Longrightarrow>
    overlay_ok (fold (\<lambda>nid ov. snd (overlay_remove_node sh now nid ov)) ids ov)
    \<and> ov_nodes (fold (\<lambda>nid ov. snd (overlay_remove_node sh now nid ov)) ids ov) = fold (\<lambda>nid N. N(nid := None)) ids (ov_nodes ov)"
proof (induction ids arbitrary: ov)
  case (Cons nid ids)
  obtain b ov1 where r: "overlay_remove_node sh now nid ov = (b, ov1)" by fastforce
  note e = remove_node_effect [OF Cons.prems r]
  with Cons.IH [of ov1] Cons.prems r show ?case by simp
qed simp

lemma apply_diff_effect:
  "overlay_ok ov \<Longrightarrow> shuffle_ok sh \<Longrightarrow>
    overlay_ok (apply_diff sh now d ov) \<and> ov_nodes (apply_diff sh now d ov) = diff_nodes d (ov_nodes ov)"
  by (simp add: apply_diff_def diff_nodes_def fold_insert_effect fold_remove_effect Let_def)

interpretation replica: refined_machine "apply_diff sh now" "\<lambda>_. shuffle_ok sh" overlay_ok ov_nodes diff_nodes for sh now
  by unfold_locales (simp_all add: apply_diff_effect)

lemma diff_nodes_numbered: "fold diff_nodes (numbered k ds) N = fold diff_nodes ds N"
  by (induction k ds arbitrary: N rule: numbered.induct) (simp_all add: diff_nodes_def)

lemma overlay_run_logged:
  "overlay_ok ov \<Longrightarrow> shuffle_ok sh \<Longrightarrow> \<forall>e \<in> set es. snd e \<noteq> ClearAll \<Longrightarrow> logged ov (fold (overlay_step sh) es ov)"
proof (induction es arbitrary: ov)
  case Nil
  then show ?case by (simp add: logged_none)
next
  case (Cons e es)
  have "overlay_ok (overlay_step sh e ov)" "logged ov (overlay_step sh e ov)"
    using overlay_step_effect [OF Cons.prems(1,2), of "fst e" "snd e"] Cons.prems(3) by (simp_all add: overlay_step_def)
  with Cons.IH [of "overlay_step sh e ov"] Cons.prems show ?case by (auto intro: logged_trans)
qed

lemma step_log:
  assumes "overlay_ok ov" "shuffle_ok sh"
  shows "\<exists>ds. ov_log (overlay_step sh e ov) = fold enqueue ds (ov_log ov)"
proof (cases "snd e = ClearAll")
  case True
  then have "ov_log (overlay_step sh e ov) = fold enqueue [] (ov_log ov)"
    by (simp add: overlay_step_def overlay_clear_def)
  then show ?thesis by blast
next
  case False
  with overlay_step_effect [OF assms, of "fst e" "snd e"] show ?thesis
    by (auto simp: overlay_step_def logged_def)
qed

lemma run_log:
  "overlay_ok ov \<Longrightarrow> shuffle_ok sh \<Longrightarrow> \<exists>ds. ov_log (fold (overlay_step sh) es ov) = fold enqueue ds (ov_log ov)"
proof (induction es arbitrary: ov)
  case Nil
  have "ov_log ov = fold enqueue [] (ov_log ov)" by simp
  then show ?case by (metis fold_simps(1))
next
  case (Cons e es)
  have "overlay_ok (overlay_step sh e ov)" using Cons.prems overlay_machine.step_inv by blast
  from Cons.IH [OF this Cons.prems(2)] step_log [OF Cons.prems, of e] show ?case
    by (metis comp_apply fold_append fold_simps(2))
qed

lemma log_next: "rl_next (fold enqueue ds l) = rl_next l + length ds"
  by (induction ds arbitrary: l) (simp_all add: enqueue_fields)

text \<open>
  C7: A subscriber that holds the nodes of an overlay as of some revision from 1 on is brought
  up to date by the diffs since that revision: as long as fewer than 256 changes and no clear came
  in between, the log still has them all, and applying them in order to the copy gives
  exactly the overlay's nodes. A subscriber at revision 0 is refused once anything has changed.
\<close>

theorem replay_catches_up:
  assumes "shuffle_ok sh" "shuffle_ok sh'" and quiet: "\<forall>e \<in> set es'. snd e \<noteq> ClearAll"
    and some: "0 < current_revision (ov_log (overlay_run sh now es))"
    and few: "current_revision (ov_log (overlay_run sh now (es @ es'))) < current_revision (ov_log (overlay_run sh now es)) + 256"
    and r: "overlay_ok r" "ov_nodes r = ov_nodes (overlay_run sh now es)"
  shows "\<exists>ds. diffs_since (current_revision (ov_log (overlay_run sh now es))) (ov_log (overlay_run sh now (es @ es'))) = Inr ds
    \<and> ov_nodes (fold (apply_diff sh' t) ds r) = ov_nodes (overlay_run sh now (es @ es'))"
proof -
  let ?ov = "overlay_run sh now es" and ?ov' = "overlay_run sh now (es @ es')"
  have run: "?ov' = fold (overlay_step sh) es' ?ov" by (simp add: overlay_run_def)
  obtain xs where xs: "ov_log ?ov = fold enqueue xs (log_with_capacity 256)"
    using run_log [OF overlay_new_ok assms(1), of es now] by (auto simp: overlay_run_def overlay_new_def log_new_def)
  obtain ds where ds: "ov_log ?ov' = fold enqueue ds (ov_log ?ov)" "ov_nodes ?ov' = fold diff_nodes ds (ov_nodes ?ov)"
    using overlay_run_logged [OF overlay_run_ok [OF assms(1)] assms(1) quiet] run by (metis logged_def)
  have since: "current_revision (ov_log ?ov) = length xs"
    by (simp add: current_revision_def xs log_next log_with_capacity_def)
  have all: "ov_log ?ov' = fold enqueue (xs @ ds) (log_with_capacity 256)" using xs ds(1) by simp
  have now: "current_revision (ov_log ?ov') = length xs + length ds"
    by (simp add: current_revision_def all log_next log_with_capacity_def)
  have "\<not> length xs \<le> window 256 (length (xs @ ds))"
    using some few unfolding since now window_def length_append by linarith
  then have "diffs_since (length xs) (ov_log ?ov') = Inr (numbered (length xs) ds)"
    using diffs_since_window [OF all, of "length xs"] by (simp add: max_def)
  moreover have "ov_nodes (fold (apply_diff sh' t) (numbered (length xs) ds) r) = fold diff_nodes ds (ov_nodes r)"
    using replica.run_abs [of sh' _ r t] assms(2) r(1) by (simp add: list_all_iff diff_nodes_numbered)
  ultimately show ?thesis using since ds(2) r(2) by auto
qed

definition edit_node :: "string \<Rightarrow> string \<Rightarrow> graph_node" where
  "edit_node nid path = (node_new_in (\<lambda>_ s. s) NT_Function nid path ''ns'')\<lparr>gn_id := nid\<rparr>"

lemma edit_node_fields [simp]:
  "gn_id (edit_node nid path) = nid" "gn_path (edit_node nid path) = path" "gn_name (edit_node nid path) = nid"
  by (simp_all add: edit_node_def node_new_in_def)

lemma shuffle_id [simp]: "shuffle_ok (\<lambda>es. es)"
  by (simp add: shuffle_ok_def)

lemmas overlay_eval =
  overlay_run_def overlay_step_def overlay_new_def overlay_insert_node_def overlay_remove_node_def Let_def
  hm_empty_def hm_get_def hm_put_def hm_del_def dg_empty_def dg_remove_node_def swap_remove_def log_new_def
  log_with_capacity_def enqueue_def current_revision_def node_diff_def AList.delete_eq

definition abc_events :: "overlay_event list" where
  "abc_events = [(1, Put (edit_node ''a'' ''x.rs'')), (2, Put (edit_node ''b'' ''x.rs'')), (3, Put (edit_node ''c'' ''y.rs''))]"

lemma overlay_is_a_map_witness:
  "view (overlay_run (\<lambda>es. es) 0 (abc_events @ [(4, Drop ''a'')]))
     = ([''b'' \<mapsto> edit_node ''b'' ''x.rs'', ''c'' \<mapsto> edit_node ''c'' ''y.rs''], {#})
   \<and> overlay_get_node ''c'' (overlay_run (\<lambda>es. es) 0 (abc_events @ [(4, Drop ''a'')])) = Some (edit_node ''c'' ''y.rs'')"
  using overlay_is_a_map [OF shuffle_id, of 0 "abc_events @ [(4, Drop ''a'')]"]
  by (simp add: abc_events_def without_id_def fun_eq_iff)

lemma replay_catches_up_witness:
  "\<exists>ds. diffs_since 2 (ov_log (overlay_run (\<lambda>es. es) 0 (abc_events @ [(4, Drop ''a'')]))) = Inr ds
    \<and> ov_nodes (fold (apply_diff (\<lambda>es. es) 9) ds (overlay_run (\<lambda>es. es) 0 (take 2 abc_events)))
      = ov_nodes (overlay_run (\<lambda>es. es) 0 (abc_events @ [(4, Drop ''a'')]))"
proof -
  have two: "current_revision (ov_log (overlay_run (\<lambda>es. es) 0 (take 2 abc_events))) = 2"
    by (simp add: abc_events_def overlay_eval)
  have four: "current_revision (ov_log (overlay_run (\<lambda>es. es) 0 (abc_events @ [(4, Drop ''a'')]))) = 4"
    by (simp add: abc_events_def overlay_eval)
  have split: "abc_events @ [(4, Drop ''a'')] = take 2 abc_events @ drop 2 abc_events @ [(4, Drop ''a'')]" by simp
  show ?thesis
    using replay_catches_up [OF shuffle_id shuffle_id, where es = "take 2 abc_events" and now = 0 and t = 9
        and es' = "drop 2 abc_events @ [(4, Drop ''a'')]" and r = "overlay_run (\<lambda>es. es) 0 (take 2 abc_events)"]
      overlay_run_ok [OF shuffle_id]
    unfolding split [symmetric] two four by (simp add: abc_events_def)
qed

section \<open>Where the overlay falls short\<close>

text \<open>
  \<open>insert_edge\<close> releases the index before it takes the graph, and a removal may run in
  between. Then the edge asked for from a to b is stored from a to c, the node that moved into
  b's slot, and reported as success; and when the target was the last node, \<open>add_edge\<close> panics.
\<close>

theorem edge_race:
  "edge_lookup (edge_new ET_Calls ''a'' ''b'') (overlay_run (\<lambda>es. es) 0 abc_events) = Inr (0, 1)
   \<and> map_option ov_links (edge_commit 5 (0, 1) ET_Calls (overlay_run (\<lambda>es. es) 0 (abc_events @ [(4, Drop ''b'')])))
     = Some {#(''a'', ''c'', ET_Calls)#}
   \<and> edge_lookup (edge_new ET_Calls ''a'' ''c'') (overlay_run (\<lambda>es. es) 0 abc_events) = Inr (0, 2)
   \<and> edge_commit 5 (0, 2) ET_Calls (overlay_run (\<lambda>es. es) 0 (abc_events @ [(4, Drop ''c'')])) = None"
  by (simp add: abc_events_def overlay_eval edge_lookup_def edge_commit_def edge_new_def ov_links_def links_def)

text \<open>A subscriber that starts from nothing is told it is too old although every change is still held.\<close>

lemma first_reader_refused:
  assumes "shuffle_ok sh" "0 < current_revision (ov_log (overlay_run sh now es))"
  shows "diffs_since 0 (ov_log (overlay_run sh now es)) = Inl TooOld"
proof -
  obtain xs where xs: "ov_log (overlay_run sh now es) = fold enqueue xs (log_with_capacity 256)"
    using run_log [OF overlay_new_ok assms(1), of es now] by (auto simp: overlay_run_def overlay_new_def log_new_def)
  have "xs \<noteq> []" using assms(2) by (auto simp: xs current_revision_def log_with_capacity_def)
  then show ?thesis using diffs_since_window [OF xs, of 0] by simp
qed

text \<open>A clear is not in the log: a subscriber that is up to date is sent nothing and keeps the nodes.\<close>

lemma clear_is_invisible:
  "ov_nodes (overlay_run (\<lambda>es. es) 0 (abc_events @ [(4, ClearAll)])) = Map.empty
   \<and> diffs_since 3 (ov_log (overlay_run (\<lambda>es. es) 0 (abc_events @ [(4, ClearAll)]))) = Inr []
   \<and> ov_nodes (overlay_run (\<lambda>es. es) 0 abc_events) ''a'' \<noteq> None"
  by (simp add: abc_events_def overlay_eval overlay_clear_def ov_nodes_def diffs_since_def floor_revision_def fun_eq_iff)

text \<open>
  \<open>merge\<close> adds the nodes of the other overlay without looking for their ids: a node both
  hold is there twice afterwards, and removing it leaves one copy that searches still find.
\<close>

lemma merge_leaves_ghost:
  "let ov = overlay_run (\<lambda>es. es) 0 [(1, Put (edit_node ''a'' ''x.rs''))];
       ov' = snd (overlay_remove_node (\<lambda>es. es) 2 ''a'' (overlay_merge ov ov))
   in overlay_get_node ''a'' ov' = None \<and> overlay_find_by_path ''x.rs'' ov' = [edit_node ''a'' ''x.rs'']"
  by (simp add: overlay_eval overlay_merge_def overlay_get_node_def overlay_find_by_path_def)

end
