(* ===== verification/Claims_Props.thy ===== *)
theory Claims_Props
  imports Claims Overlay_Run
begin

text \<open>
  What the claims say: the walk over callers reaches every dependent and no other symbol, a
  claim is verified only along proven edges, merging keeps the strongest evidence, and a
  printed line names one claim.
\<close>

section \<open>The walk over callers\<close>

definition dep :: "petgraph \<Rightarrow> graph_db \<Rightarrow> volatile_overlay \<Rightarrow> string \<Rightarrow> string \<Rightarrow> bool" where
  "dep pg d ov x y \<longleftrightarrow>
     (\<exists>e \<in> set (get_edges_to pg x d). followed (ge_type e) \<and> ge_source_id e = y)
     \<or> (\<exists>r \<in> set (overlay_incoming x ov). followed (snd r) \<and> gn_id (fst r) = y)"

definition proven_edge :: "graph_edge \<Rightarrow> bool" where
  "proven_edge e \<longleftrightarrow> (case ge_provenance e of Some (Static _) \<Rightarrow> True | Some (Confirmed _) \<Rightarrow> True | _ \<Rightarrow> False)"

definition proven :: "petgraph \<Rightarrow> graph_db \<Rightarrow> string \<Rightarrow> string \<Rightarrow> bool" where
  "proven pg d x y \<longleftrightarrow>
     (\<exists>e \<in> set (get_edges_to pg x d). followed (ge_type e) \<and> ge_source_id e = y \<and> proven_edge e)"

definition caller_node :: "graph_db \<Rightarrow> volatile_overlay \<Rightarrow> string \<Rightarrow> graph_node \<Rightarrow> bool" where
  "caller_node d ov y n \<longleftrightarrow>
     get_node y d = Some n \<or> (gn_id n = y \<and> (\<exists>x. n \<in> fst ` set (overlay_incoming x ov)))"

definition answered :: "graph_db \<Rightarrow> volatile_overlay \<Rightarrow> string \<Rightarrow> claim list \<Rightarrow> nat \<Rightarrow> string \<Rightarrow> bool" where
  "answered d ov f out lost y \<longleftrightarrow>
     (\<exists>n a. caller_node d ov y n \<and> (\<forall>c. claim_for_node n a f = Some c \<longrightarrow> c \<in> set out))
     \<or> (get_node y d = None \<and> 0 < lost)"

definition grounded :: "petgraph \<Rightarrow> graph_db \<Rightarrow> volatile_overlay \<Rightarrow> string \<Rightarrow> string \<Rightarrow> claim \<Rightarrow> bool" where
  "grounded pg d ov f s c \<longleftrightarrow>
     (\<exists>y n a. y \<noteq> s \<and> (dep pg d ov)\<^sup>*\<^sup>* s y \<and> caller_node d ov y n \<and> claim_for_node n a f = Some c
        \<and> (cl_evidence c = Verified \<longrightarrow> (proven pg d)\<^sup>*\<^sup>* s y))"

definition walk_ok :: "petgraph \<Rightarrow> graph_db \<Rightarrow> volatile_overlay \<Rightarrow> string \<Rightarrow> string \<Rightarrow> claim_walk \<Rightarrow> bool" where
  "walk_ok pg d ov f s w \<longleftrightarrow>
     s \<in> cw_queued w \<and> (\<forall>y \<in> cw_queued w. (dep pg d ov)\<^sup>*\<^sup>* s y)
     \<and> (\<forall>(x, a) \<in> set (cw_queue w). x \<in> cw_queued w \<and> (ac_evidence a = Verified \<longrightarrow> (proven pg d)\<^sup>*\<^sup>* s x))
     \<and> (\<forall>y \<in> cw_queued w. y = s \<or> answered d ov f (cw_out w) (cw_unnameable w) y)
     \<and> (\<forall>c \<in> set (cw_out w). grounded pg d ov f s c) \<and> cw_named w = length (cw_out w)"

lemma answered_mono:
  "answered d ov f out lost y \<Longrightarrow> set out \<subseteq> set out' \<Longrightarrow> lost \<le> lost' \<Longrightarrow> answered d ov f out' lost' y"
  unfolding answered_def by (meson le_trans not_le subsetD less_le_trans)

lemma claim_new_fields:
  "claim_new repo file symbol e = Some c \<Longrightarrow> claim_identity_ok repo file symbol
    \<and> c = \<lparr>cl_repo = repo, cl_file = file, cl_symbol = symbol, cl_evidence = e, cl_note = None\<rparr>"
  by (auto simp: claim_new_def split: if_splits)

lemma with_note_fields [simp]:
  "cl_repo (with_note c note) = cl_repo c" "cl_file (with_note c note) = cl_file c"
  "cl_symbol (with_note c note) = cl_symbol c" "cl_evidence (with_note c note) = cl_evidence c"
  "claim_identity (with_note c note) = claim_identity c"
  by (simp_all add: with_note_def claim_identity_def)

lemma claim_for_node_fields:
  assumes "claim_for_node n a f = Some c"
  shows "cl_evidence c = ac_evidence a \<and> claim_identity c = (claim_repo n f, gn_path n, gn_name n)
    \<and> claimable_node_type (gn_type n) \<and> claim_identity_ok (claim_repo n f) (gn_path n) (gn_name n)"
  using assms
  by (auto simp: claim_for_node_def claim_identity_def dest!: claim_new_fields split: if_splits option.splits)

lemma missing_claim_fields:
  "missing_claim_for_node n f note = Some c \<Longrightarrow>
    cl_evidence c = Missing \<and> claim_identity c = (claim_repo n f, gn_path n, gn_name n)"
  by (auto simp: missing_claim_for_node_def claim_identity_def dest!: claim_new_fields)

lemma walk_found:
  assumes ok: "walk_ok pg d ov f s w" and y: "y \<notin> cw_queued w" "(dep pg d ov)\<^sup>*\<^sup>* s y" "caller_node d ov y n"
    and v: "ac_evidence a = Verified \<Longrightarrow> (proven pg d)\<^sup>*\<^sup>* s y"
  shows "walk_ok pg d ov f s (name_caller n a f (enqueue_caller y a w))"
proof -
  let ?w = "name_caller n a f (enqueue_caller y a w)"
  have out: "cw_out ?w = cw_out w @ (case claim_for_node n a f of Some c \<Rightarrow> [c] | None \<Rightarrow> [])"
      "cw_unnameable ?w = cw_unnameable w" "cw_named w = length (cw_out w) \<Longrightarrow> cw_named ?w = length (cw_out ?w)"
    by (auto simp: name_caller_def enqueue_caller_def split: option.split)
  have ne: "y \<noteq> s" using ok y(1) by (auto simp: walk_ok_def)
  have new: "answered d ov f (cw_out ?w) (cw_unnameable ?w) y"
    unfolding answered_def by (rule disjI1, rule exI [of _ n], rule exI [of _ a]) (auto simp: y(3) out(1))
  have old: "answered d ov f (cw_out ?w) (cw_unnameable ?w) x" if "answered d ov f (cw_out w) (cw_unnameable w) x" for x
    using that by (rule answered_mono) (auto simp: out)
  have g: "grounded pg d ov f s c" if "claim_for_node n a f = Some c" for c
    using that y v ne claim_for_node_fields [OF that] unfolding grounded_def by metis
  show ?thesis
    using ok y(2) v new old g out(3) unfolding walk_ok_def by (auto simp: out(1) split: option.splits)
qed

lemma walk_lost:
  assumes ok: "walk_ok pg d ov f s w" and y: "(dep pg d ov)\<^sup>*\<^sup>* s y" "get_node y d = None"
    and v: "ac_evidence a = Verified \<Longrightarrow> (proven pg d)\<^sup>*\<^sup>* s y"
  shows "walk_ok pg d ov f s ((enqueue_caller y a w)\<lparr>cw_unnameable := Suc (cw_unnameable w)\<rparr>)"
proof -
  let ?n = "Suc (cw_unnameable w)"
  have new: "answered d ov f (cw_out w) ?n y" using y(2) by (simp add: answered_def)
  have old: "answered d ov f (cw_out w) ?n x" if "answered d ov f (cw_out w) (cw_unnameable w) x" for x
    using that by (rule answered_mono) auto
  show ?thesis using ok y(1) v new old unfolding walk_ok_def by (auto simp: enqueue_caller_def)
qed

lemma acc_apply_verified: "ac_evidence (acc_apply a e nt) = Verified \<Longrightarrow> ac_evidence a = Verified \<and> e = Verified"
  by (cases "ac_evidence a"; cases e) (auto simp: acc_apply_def split: if_splits)

lemma provenance_verified:
  "evidence_from_provenance fmt2 (ge_provenance e) = (ev, nt) \<Longrightarrow> ev = Verified \<longleftrightarrow> proven_edge e"
  by (auto simp: evidence_from_provenance_def proven_edge_def split: option.splits edge_provenance.splits)

lemma graph_callers_ok:
  "walk_ok pg d ov f s w \<Longrightarrow> (dep pg d ov)\<^sup>*\<^sup>* s x \<Longrightarrow> (ac_evidence a = Verified \<Longrightarrow> (proven pg d)\<^sup>*\<^sup>* s x) \<Longrightarrow>
    set es \<subseteq> set (get_edges_to pg x d) \<Longrightarrow>
    walk_ok pg d ov f s (graph_callers fmt2 d f {s} a es w)
    \<and> (\<forall>e \<in> set es. followed (ge_type e) \<longrightarrow> ge_source_id e \<in> cw_queued (graph_callers fmt2 d f {s} a es w))"
proof (induction es arbitrary: w)
  case (Cons e es)
  let ?y = "ge_source_id e"
  obtain ev nt where p: "evidence_from_provenance fmt2 (ge_provenance e) = (ev, nt)" by fastforce
  have e: "e \<in> set (get_edges_to pg x d)" using Cons.prems(4) by simp
  have s: "s \<in> cw_queued w" using Cons.prems(1) by (simp add: walk_ok_def)
  show ?case
  proof (cases "\<not> followed (ge_type e) \<or> ?y = s \<or> ?y \<in> cw_queued w")
    case True
    then have "?y \<in> cw_queued w" if "followed (ge_type e)" using that s by auto
    with True Cons.IH [of w] Cons.prems graph_callers_grow [of w fmt2 d f "{s}" a es] show ?thesis
      by (auto simp: p)
  next
    case False
    let ?h = "acc_apply a ev nt"
    let ?w1 = "enqueue_caller ?y ?h w"
    let ?w2 = "case get_node ?y d of Some n \<Rightarrow> name_caller n ?h f ?w1
        | None \<Rightarrow> ?w1\<lparr>cw_unnameable := Suc (cw_unnameable ?w1)\<rparr>"
    have dep: "dep pg d ov x ?y" using e False by (auto simp: dep_def)
    then have y: "(dep pg d ov)\<^sup>*\<^sup>* s ?y" using Cons.prems(2) by (rule rtranclp.rtrancl_into_rtrancl [rotated])
    have v: "(proven pg d)\<^sup>*\<^sup>* s ?y" if "ac_evidence ?h = Verified"
    proof -
      have "ac_evidence a = Verified" "proven_edge e"
        using acc_apply_verified [OF that] provenance_verified [OF p] by auto
      then have "(proven pg d)\<^sup>*\<^sup>* s x" using Cons.prems(3) by simp
      moreover have "proven pg d x ?y" using \<open>proven_edge e\<close> e False by (auto simp: proven_def)
      ultimately show ?thesis by (rule rtranclp.rtrancl_into_rtrancl)
    qed
    have "walk_ok pg d ov f s ?w2"
    proof (cases "get_node ?y d")
      case None
      with walk_lost [OF Cons.prems(1) y None v] show ?thesis by (simp add: enqueue_caller_def)
    next
      case (Some n)
      then have "caller_node d ov ?y n" by (simp add: caller_node_def)
      with False walk_found [OF Cons.prems(1) _ y this v] Some show ?thesis by simp
    qed
    note ih = Cons.IH [OF this Cons.prems(2,3)]
    have "?y \<in> cw_queued ?w2" by (simp split: option.split)
    with ih Cons.prems(4) False graph_callers_grow [of ?w2 fmt2 d f "{s}" a es] show ?thesis
      by (auto simp: p Let_def)
  qed
qed simp

lemma overlay_callers_ok:
  "walk_ok pg d ov f s w \<Longrightarrow> (dep pg d ov)\<^sup>*\<^sup>* s x \<Longrightarrow> set rs \<subseteq> set (overlay_incoming x ov) \<Longrightarrow>
    walk_ok pg d ov f s (overlay_callers f {s} a rs w)
    \<and> (\<forall>r \<in> set rs. followed (snd r) \<longrightarrow> gn_id (fst r) \<in> cw_queued (overlay_callers f {s} a rs w))"
proof (induction rs arbitrary: w)
  case (Cons r rs)
  obtain n ty where r: "r = (n, ty)" by fastforce
  have mem: "r \<in> set (overlay_incoming x ov)" using Cons.prems(3) by simp
  have s: "s \<in> cw_queued w" using Cons.prems(1) by (simp add: walk_ok_def)
  show ?case
  proof (cases "\<not> followed ty \<or> gn_id n = s \<or> gn_id n \<in> cw_queued w")
    case True
    then have "gn_id n \<in> cw_queued w" if "followed ty" using that s by auto
    with True Cons.IH [of w] Cons.prems overlay_callers_grow [of w f "{s}" a rs] show ?thesis by (auto simp: r)
  next
    case False
    let ?h = "acc_apply a NeedsInvestigation (Some overlay_note)"
    let ?w2 = "name_caller n ?h f (enqueue_caller (gn_id n) ?h w)"
    have "dep pg d ov x (gn_id n)" using mem False by (force simp: dep_def r)
    then have y: "(dep pg d ov)\<^sup>*\<^sup>* s (gn_id n)" using Cons.prems(2) by (rule rtranclp.rtrancl_into_rtrancl [rotated])
    have v: "ac_evidence ?h \<noteq> Verified" using acc_apply_verified by blast
    have "caller_node d ov (gn_id n) n" using mem by (force simp: caller_node_def r)
    with False have ok: "walk_ok pg d ov f s ?w2" by (intro walk_found [OF Cons.prems(1) _ y]) (simp_all add: v)
    have ih: "walk_ok pg d ov f s (overlay_callers f {s} a rs ?w2)
        \<and> (\<forall>r \<in> set rs. followed (snd r) \<longrightarrow> gn_id (fst r) \<in> cw_queued (overlay_callers f {s} a rs ?w2))"
      using Cons.prems(3) by (intro Cons.IH [OF ok Cons.prems(2)]) simp
    have "gn_id n \<in> cw_queued (overlay_callers f {s} a rs ?w2)"
      using overlay_callers_grow [of ?w2 f "{s}" a rs] by auto
    with ih False show ?thesis by (simp add: r Let_def)
  qed
qed simp

definition walk_closed :: "petgraph \<Rightarrow> graph_db \<Rightarrow> volatile_overlay \<Rightarrow> claim_walk \<Rightarrow> bool" where
  "walk_closed pg d ov w \<longleftrightarrow>
     (\<forall>x \<in> cw_queued w. x \<in> fst ` set (cw_queue w) \<or> (\<forall>y. dep pg d ov x y \<longrightarrow> y \<in> cw_queued w))"

lemma graph_callers_queue: "\<exists>q. cw_queue (graph_callers fmt2 d f V a es w) = cw_queue w @ q
    \<and> cw_queued (graph_callers fmt2 d f V a es w) = cw_queued w \<union> fst ` set q"
proof (induction es arbitrary: w)
  case (Cons e es)
  obtain ev nt where p: "evidence_from_provenance fmt2 (ge_provenance e) = (ev, nt)" by fastforce
  let ?h = "acc_apply a ev nt"
  let ?w1 = "enqueue_caller (ge_source_id e) ?h w"
  let ?w2 = "case get_node (ge_source_id e) d of Some n \<Rightarrow> name_caller n ?h f ?w1
      | None \<Rightarrow> ?w1\<lparr>cw_unnameable := Suc (cw_unnameable ?w1)\<rparr>"
  have q: "cw_queue ?w2 = cw_queue w @ [(ge_source_id e, ?h)]" "cw_queued ?w2 = insert (ge_source_id e) (cw_queued w)"
    by (simp_all split: option.split)
  obtain q1 where "cw_queue (graph_callers fmt2 d f V a es ?w2) = cw_queue ?w2 @ q1"
      "cw_queued (graph_callers fmt2 d f V a es ?w2) = cw_queued ?w2 \<union> fst ` set q1"
    using Cons.IH by blast
  with Cons.IH [of w] show ?case
    by (cases "\<not> followed (ge_type e) \<or> ge_source_id e \<in> V \<or> ge_source_id e \<in> cw_queued w")
      (auto simp: p Let_def q intro!: exI [of _ "(ge_source_id e, ?h) # q1"])
qed simp

lemma overlay_callers_queue: "\<exists>q. cw_queue (overlay_callers f V a rs w) = cw_queue w @ q
    \<and> cw_queued (overlay_callers f V a rs w) = cw_queued w \<union> fst ` set q"
proof (induction rs arbitrary: w)
  case (Cons r rs)
  obtain n ty where r: "r = (n, ty)" by fastforce
  let ?h = "acc_apply a NeedsInvestigation (Some overlay_note)"
  let ?w2 = "name_caller n ?h f (enqueue_caller (gn_id n) ?h w)"
  obtain q1 where "cw_queue (overlay_callers f V a rs ?w2) = cw_queue ?w2 @ q1"
      "cw_queued (overlay_callers f V a rs ?w2) = cw_queued ?w2 \<union> fst ` set q1"
    using Cons.IH by blast
  with Cons.IH [of w] show ?case
    by (cases "\<not> followed ty \<or> gn_id n \<in> V \<or> gn_id n \<in> cw_queued w")
      (auto simp: r Let_def intro!: exI [of _ "(gn_id n, ?h) # q1"])
qed simp

lemma claim_callers_queue: "\<exists>q. cw_queue (claim_callers pg fmt2 d ov f V x a w) = cw_queue w @ q
    \<and> cw_queued (claim_callers pg fmt2 d ov f V x a w) = cw_queued w \<union> fst ` set q"
proof -
  let ?w1 = "graph_callers fmt2 d f V a (get_edges_to pg x d) w"
  obtain q1 q2 where "cw_queue ?w1 = cw_queue w @ q1" "cw_queued ?w1 = cw_queued w \<union> fst ` set q1"
      "cw_queue (claim_callers pg fmt2 d ov f V x a w) = cw_queue ?w1 @ q2"
      "cw_queued (claim_callers pg fmt2 d ov f V x a w) = cw_queued ?w1 \<union> fst ` set q2"
    using graph_callers_queue overlay_callers_queue unfolding claim_callers_def by metis
  then show ?thesis by (intro exI [of _ "q1 @ q2"]) auto
qed

lemma claim_callers_ok:
  assumes ok: "walk_ok pg d ov f s w" "walk_closed pg d ov w" and q: "cw_queue w = (x, a) # rest"
    and w': "w' = claim_callers pg fmt2 d ov f {s} x a (w\<lparr>cw_queue := rest\<rparr>)"
  shows "walk_ok pg d ov f s w' \<and> walk_closed pg d ov w'"
proof -
  let ?w0 = "w\<lparr>cw_queue := rest\<rparr>"
  let ?w1 = "graph_callers fmt2 d f {s} a (get_edges_to pg x d) ?w0"
  have x: "(dep pg d ov)\<^sup>*\<^sup>* s x" "ac_evidence a = Verified \<Longrightarrow> (proven pg d)\<^sup>*\<^sup>* s x" "walk_ok pg d ov f s ?w0"
    using ok(1) q by (auto simp: walk_ok_def)
  have w1: "walk_ok pg d ov f s ?w1
      \<and> (\<forall>e \<in> set (get_edges_to pg x d). followed (ge_type e) \<longrightarrow> ge_source_id e \<in> cw_queued ?w1)"
    by (rule graph_callers_ok [OF x(3) x(1,2) subset_refl])
  have w2: "walk_ok pg d ov f s w'
      \<and> (\<forall>r \<in> set (overlay_incoming x ov). followed (snd r) \<longrightarrow> gn_id (fst r) \<in> cw_queued w')"
    unfolding w' claim_callers_def by (rule overlay_callers_ok [OF conjunct1 [OF w1] x(1) subset_refl])
  have "cw_queued ?w1 \<subseteq> cw_queued w'"
    using overlay_callers_grow [of ?w1] unfolding w' claim_callers_def by blast
  with w1 w2 have all: "\<forall>y. dep pg d ov x y \<longrightarrow> y \<in> cw_queued w'" unfolding dep_def by blast
  obtain q' where q': "cw_queue w' = rest @ q'" "cw_queued w' = cw_queued w \<union> fst ` set q'"
    using claim_callers_queue [of pg fmt2 d ov f "{s}" x a ?w0] unfolding w' by auto
  have "walk_closed pg d ov w'"
    using ok(2) all unfolding walk_closed_def q' q by force
  with w2 show ?thesis by simp
qed

lemma claim_loop_ok:
  "walk_ok pg d ov f s w \<Longrightarrow> walk_closed pg d ov w \<Longrightarrow>
    walk_ok pg d ov f s (claim_loop pg fmt2 d ov f {s} w) \<and> walk_closed pg d ov (claim_loop pg fmt2 d ov f {s} w)
    \<and> cw_queue (claim_loop pg fmt2 d ov f {s} w) = []"
proof (induction pg fmt2 d ov f "{s}" w rule: claim_loop.induct)
  case (1 pg fmt2 d ov f w)
  show ?case
  proof (cases "cw_queue w")
    case Nil
    with 1 show ?thesis by (simp add: claim_loop.simps [of pg fmt2 d ov f "{s}" w])
  next
    case (Cons r rest)
    obtain x a where r: "r = (x, a)" by fastforce
    note step = claim_callers_ok [OF 1(2,3) Cons [unfolded r] refl, of fmt2]
    from 1(1) [OF Cons r [symmetric] conjunct1 [OF step] conjunct2 [OF step]] show ?thesis
      by (simp add: claim_loop.simps [of pg fmt2 d ov f "{s}" w] Cons r)
  qed
qed

lemma walk_result:
  assumes "w = claim_loop pg fmt2 d ov f {s} (claim_start s)"
  shows "walk_ok pg d ov f s w" "(dep pg d ov)\<^sup>*\<^sup>* s y \<Longrightarrow> y \<in> cw_queued w"
proof -
  have "walk_ok pg d ov f s (claim_start s)" "walk_closed pg d ov (claim_start s)"
    by (simp_all add: walk_ok_def walk_closed_def claim_start_def)
  note ok = claim_loop_ok [OF this, of fmt2, folded assms]
  then show "walk_ok pg d ov f s w" by simp
  have s: "s \<in> cw_queued w" using ok by (simp add: walk_ok_def)
  have step: "z \<in> cw_queued w" if "x \<in> cw_queued w" "dep pg d ov x z" for x z
    using ok that by (auto simp: walk_closed_def)
  show "y \<in> cw_queued w" if "(dep pg d ov)\<^sup>*\<^sup>* s y"
    using that by (induction rule: rtranclp_induct) (auto intro: s step)
qed

text \<open>
  C8: The claims about a symbol are complete and grounded. Every symbol from which it can be
  reached by dependency or heuristic edges, committed or in the overlay, has its claim or,
  when the index cannot resolve it, is counted in a missing claim; every claim is about such
  a symbol or is a missing claim about the symbol itself; one marked verified has a chain of
  static or confirmed edges behind it; and the answer is never empty.
\<close>

theorem claims_complete_and_grounded:
  assumes "resolve_node_ambiguous lower canon d ov symbol = Inr (seed, others)"
  shows "\<exists>cs. claims_from_graph lower canon pg fmt2 d ov symbol fallback = Inr cs
    \<and> (\<forall>y. (dep pg d ov)\<^sup>*\<^sup>* (gn_id seed) y \<and> y \<noteq> gn_id seed \<longrightarrow>
         (\<exists>n a. caller_node d ov y n \<and> (\<forall>c. claim_for_node n a fallback = Some c \<longrightarrow> c \<in> set cs))
         \<or> (get_node y d = None \<and>
            (\<exists>k > 0. \<forall>c. missing_claim_for_node seed fallback (unnameable_note k) = Some c \<longrightarrow> c \<in> set cs)))
    \<and> (\<forall>c \<in> set cs. grounded pg d ov fallback (gn_id seed) c
         \<or> cl_evidence c = Missing \<and> claim_identity c = (claim_repo seed fallback, gn_path seed, gn_name seed))
    \<and> (claim_identity_ok (claim_repo seed fallback) (gn_path seed) (gn_name seed) \<longrightarrow> cs \<noteq> [])"
proof -
  let ?s = "gn_id seed"
  define w where "w = claim_loop pg fmt2 d ov fallback {?s} (claim_start ?s)"
  define out where "out = (if cw_named w = 0
      then push_claim (missing_claim_for_node seed fallback no_dependents_note) (cw_out w) else cw_out w)"
  define cs where "cs = (if 0 < cw_unnameable w
      then push_claim (missing_claim_for_node seed fallback (unnameable_note (cw_unnameable w))) out else out)"
  note r = walk_result [OF w_def]
  have run: "claims_from_graph lower canon pg fmt2 d ov symbol fallback = Inr cs"
    by (simp add: claims_from_graph_def assms w_def out_def cs_def Let_def)
  have sub: "set (cw_out w) \<subseteq> set cs" by (auto simp: cs_def out_def push_claim_def split: option.split)
  have ground: "grounded pg d ov fallback ?s c
      \<or> cl_evidence c = Missing \<and> claim_identity c = (claim_repo seed fallback, gn_path seed, gn_name seed)"
    if "c \<in> set cs" for c
  proof (cases "c \<in> set (cw_out w)")
    case True
    with r(1) show ?thesis by (simp add: walk_ok_def)
  next
    case False
    with that have "\<exists>note. missing_claim_for_node seed fallback note = Some c"
      by (auto simp: cs_def out_def push_claim_def split: if_splits option.splits)
    with missing_claim_fields show ?thesis by blast
  qed
  have complete: "(\<exists>n a. caller_node d ov y n \<and> (\<forall>c. claim_for_node n a fallback = Some c \<longrightarrow> c \<in> set cs))
      \<or> (get_node y d = None \<and>
        (\<exists>k > 0. \<forall>c. missing_claim_for_node seed fallback (unnameable_note k) = Some c \<longrightarrow> c \<in> set cs))"
    if "(dep pg d ov)\<^sup>*\<^sup>* ?s y" "y \<noteq> ?s" for y
  proof -
    have "answered d ov fallback (cw_out w) (cw_unnameable w) y"
      using r(1) r(2) [OF that(1)] that(2) by (auto simp: walk_ok_def)
    moreover have "c \<in> set cs" if "0 < cw_unnameable w"
        "missing_claim_for_node seed fallback (unnameable_note (cw_unnameable w)) = Some c" for c
      using that by (simp add: cs_def push_claim_def)
    ultimately show ?thesis using sub unfolding answered_def by blast
  qed
  have "cs \<noteq> []" if "claim_identity_ok (claim_repo seed fallback) (gn_path seed) (gn_name seed)"
  proof (cases "cw_named w = 0")
    case True
    have "missing_claim_for_node seed fallback no_dependents_note \<noteq> None"
      using that by (simp add: missing_claim_for_node_def claim_new_def)
    with True show ?thesis by (auto simp: cs_def out_def push_claim_def split: option.split)
  next
    case False
    with r(1) have "cw_out w \<noteq> []" by (auto simp: walk_ok_def)
    with sub show ?thesis by auto
  qed
  with run ground complete show ?thesis by blast
qed

definition edit_events :: "overlay_event list" where
  "edit_events =
     [(1, Put (edit_node ''a'' ''x.rs'')), (2, Put (edit_node ''b'' ''y.rs'')), (3, Link (edge_new ET_Calls ''b'' ''a''))]"

definition edit_overlay :: volatile_overlay where
  "edit_overlay = overlay_run (\<lambda>es. es) 0 edit_events"

lemma edit_overlay_eval:
  "overlay_get_node ''a'' edit_overlay = Some (edit_node ''a'' ''x.rs'')"
  "overlay_incoming ''a'' edit_overlay = [(edit_node ''b'' ''y.rs'', ET_Calls)]"
proof -
  have "overlay_ok edit_overlay" unfolding edit_overlay_def by (rule overlay_run_ok) simp
  then have "overlay_get_node ''a'' edit_overlay = ov_nodes edit_overlay ''a''" by (rule get_node_eq)
  also have "\<dots> = Some (edit_node ''a'' ''x.rs'')"
    by (simp add: edit_overlay_def edit_events_def overlay_eval overlay_insert_edge_def edge_lookup_def edge_commit_def
        edge_new_def ov_nodes_def)
  finally show "overlay_get_node ''a'' edit_overlay = Some (edit_node ''a'' ''x.rs'')" .
  show "overlay_incoming ''a'' edit_overlay = [(edit_node ''b'' ''y.rs'', ET_Calls)]"
    by (simp add: edit_overlay_def edit_events_def overlay_eval overlay_insert_edge_def edge_lookup_def edge_commit_def
        edge_new_def overlay_incoming_def)
qed

lemma claims_complete_and_grounded_witness:
  "\<exists>cs. claims_from_graph (\<lambda>s. s) (\<lambda>_. None) \<lparr>pg_alloc = (\<lambda>_ _. 0), pg_rank = (\<lambda>_ _ _ p. p)\<rparr> (\<lambda>_. ''0.50'')
      (db_empty True False) edit_overlay ''a'' ''ws'' = Inr cs \<and> cs \<noteq> []"
proof -
  let ?d = "db_empty True False" and ?pg = "\<lparr>pg_alloc = (\<lambda>_ _. 0), pg_rank = (\<lambda>_ _ _ p. p)\<rparr>"
  let ?seed = "edit_node ''a'' ''x.rs''"
  have none: "get_node k ?d = None" "find_all_nodes_by_name k ?d = []" for k
    by (simp_all add: get_node_def find_all_nodes_by_name_def db_empty_def idx_list_def)
  have gid: "gid_parse ''a'' = Inl (InvalidGlobalId ''a'')" by (simp add: gid_parse_def)
  have seed: "resolve_node_ambiguous (\<lambda>s. s) (\<lambda>_. None) ?d edit_overlay ''a'' = Inr (?seed, [])"
    by (simp add: resolve_node_ambiguous_def resolve_node_def or_else_def edit_overlay_eval none)
  have "claim_repo ?seed ''ws'' = ''ws''"
    by (simp add: claim_repo_def gid edit_node_def node_new_in_def)
  then have "claim_identity_ok (claim_repo ?seed ''ws'') (gn_path ?seed) (gn_name ?seed)"
    by (simp add: claim_identity_ok_def identity_part_def str_trim_def str_any_whitespace_def
        is_cont_byte_def is_whitespace_def)
  with claims_complete_and_grounded [OF seed, of ?pg "\<lambda>_. ''0.50''" "''ws''"] show ?thesis by blast
qed

section \<open>Merging\<close>

definition strongest :: "claim list \<Rightarrow> claim \<Rightarrow> bool" where
  "strongest cs m \<longleftrightarrow>
     (\<exists>c \<in> set cs. claim_identity c = claim_identity m \<and> cl_evidence c = cl_evidence m)
     \<and> (\<forall>c \<in> set cs. claim_identity c = claim_identity m \<longrightarrow> strength (cl_evidence c) \<le> strength (cl_evidence m))"

lemma merge_claim_fields [simp]:
  "claim_identity (merge_claim e c) = claim_identity e"
  "cl_evidence (merge_claim e c) =
     (if strength (cl_evidence e) < strength (cl_evidence c) then cl_evidence c else cl_evidence e)"
  by (auto simp: merge_claim_def claim_identity_def Let_def split: option.split)

lemma fold_merge:
  "hm_ok (fold merge_step cs hm_empty)
   \<and> (\<forall>k. hm_get (fold merge_step cs hm_empty) k \<noteq> None \<longleftrightarrow> k \<in> claim_identity ` set cs)
   \<and> (\<forall>k m. hm_get (fold merge_step cs hm_empty) k = Some m \<longrightarrow> claim_identity m = k \<and> strongest cs m)"
proof (induction cs rule: rev_induct)
  case Nil
  then show ?case by simp
next
  case (snoc c cs)
  let ?m = "fold merge_step cs hm_empty"
  have A: "claim_identity m = k \<and> strongest (cs @ [c]) m" if "hm_get (merge_step c ?m) k = Some m" for k m
  proof (cases "k = claim_identity c")
    case True
    show ?thesis
    proof (cases "hm_get ?m k")
      case None
      with that True have "m = c" by (simp add: merge_step_def)
      moreover have "k \<notin> claim_identity ` set cs" using None snoc by blast
      ultimately show ?thesis using True by (auto simp: strongest_def) (metis image_eqI)
    next
      case (Some e)
      with that True have m: "m = merge_claim e c" by (simp add: merge_step_def)
      have e: "claim_identity e = k" "strongest cs e" using Some snoc by blast+
      then show ?thesis using True unfolding m strongest_def by (auto intro: le_trans less_imp_le)
    qed
  next
    case False
    with that have "hm_get ?m k = Some m" by (simp add: merge_step_def)
    with snoc have "claim_identity m = k" "strongest cs m" by blast+
    with False show ?thesis by (auto simp: strongest_def)
  qed
  have B: "hm_get (merge_step c ?m) k \<noteq> None \<longleftrightarrow> k \<in> claim_identity ` set (cs @ [c])" for k
  proof -
    have "hm_get (merge_step c ?m) k \<noteq> None \<longleftrightarrow> k = claim_identity c \<or> hm_get ?m k \<noteq> None"
      by (simp add: merge_step_def)
    also have "\<dots> \<longleftrightarrow> k = claim_identity c \<or> k \<in> claim_identity ` set cs" using snoc by blast
    finally show ?thesis by simp
  qed
  have C: "hm_ok (merge_step c ?m)" using conjunct1 [OF snoc] by (simp add: merge_step_def [of c])
  have A': "\<forall>k m. hm_get (merge_step c ?m) k = Some m \<longrightarrow> claim_identity m = k \<and> strongest (cs @ [c]) m"
    by (rule allI, rule allI, rule impI, rule A)
  have B': "\<forall>k. hm_get (merge_step c ?m) k \<noteq> None \<longleftrightarrow> k \<in> claim_identity ` set (cs @ [c])" by (rule allI, rule B)
  show ?case unfolding fold_append comp_apply fold_simps id_apply by (rule conjI [OF C conjI [OF B' A']])
qed

lemma merge_claims_set: "set (merge_claims cs) = snd ` set (fold merge_step cs hm_empty)"
  by (simp add: merge_claims_def)

lemma merge_mem: "m \<in> set (merge_claims cs) \<longleftrightarrow> hm_get (fold merge_step cs hm_empty) (claim_identity m) = Some m"
  using fold_merge [of cs] by (force simp: merge_claims_set hm_mem_get [symmetric] image_iff)

lemma merge_distinct: "distinct (map claim_identity (merge_claims cs))"
proof -
  let ?m = "fold merge_step cs hm_empty"
  have "map claim_identity (map snd ?m) = map fst ?m"
    using fold_merge [of cs] by (auto simp: hm_mem_get [symmetric])
  then have "distinct (map claim_identity (map snd ?m))"
    using fold_merge [of cs] by (simp only: hm_ok_def hm_keys_def)
  moreover have "mset (merge_claims cs) = mset (map snd ?m)" by (simp add: merge_claims_def)
  then have "mset (map claim_identity (merge_claims cs)) = mset (map claim_identity (map snd ?m))"
    by (simp only: mset_map)
  ultimately show ?thesis by (metis mset_eq_imp_distinct_iff)
qed

text \<open>
  Merging keeps one claim per symbol, for exactly the symbols claimed, with the strongest
  evidence any claim about it had, and lists the strongest first.
\<close>

theorem merge_keeps_strongest:
  "distinct (map claim_identity (merge_claims cs))
   \<and> claim_identity ` set (merge_claims cs) = claim_identity ` set cs
   \<and> (\<forall>m \<in> set (merge_claims cs). strongest cs m)
   \<and> sorted (map (\<lambda>c. 2 - strength (cl_evidence c)) (merge_claims cs))"
proof (intro conjI ballI)
  show "distinct (map claim_identity (merge_claims cs))" by (rule merge_distinct)
  show "claim_identity ` set (merge_claims cs) = claim_identity ` set cs"
  proof (intro equalityI subsetI)
    fix k assume "k \<in> claim_identity ` set (merge_claims cs)"
    then have "hm_get (fold merge_step cs hm_empty) k \<noteq> None" by (force simp: merge_mem)
    then show "k \<in> claim_identity ` set cs" using fold_merge [of cs] by blast
  next
    fix k assume "k \<in> claim_identity ` set cs"
    then obtain m where m: "hm_get (fold merge_step cs hm_empty) k = Some m" using fold_merge [of cs] by blast
    then have "claim_identity m = k" using fold_merge [of cs] by blast
    with m show "k \<in> claim_identity ` set (merge_claims cs)" by (force simp: merge_mem)
  qed
  show "strongest cs m" if "m \<in> set (merge_claims cs)" for m
    using that fold_merge [of cs] unfolding merge_mem by blast
  have "sorted (map (\<lambda>c. (2 - strength (cl_evidence c), cl_repo c, cl_file c, cl_symbol c)) (merge_claims cs))"
    by (simp add: merge_claims_def)
  then show "sorted (map (\<lambda>c. 2 - strength (cl_evidence c)) (merge_claims cs))"
    unfolding sorted_map by (rule sorted_wrt_mono_rel [rotated]) (auto simp: less_eq_prod_def)
qed

lemma merge_keeps_strongest_witness:
  "list_all (\<lambda>m. strength (cl_evidence m) = 2)
    (merge_claims [\<lparr>cl_repo = ''r'', cl_file = ''f'', cl_symbol = ''s'', cl_evidence = Missing, cl_note = None\<rparr>,
      \<lparr>cl_repo = ''r'', cl_file = ''f'', cl_symbol = ''s'', cl_evidence = Verified, cl_note = None\<rparr>])"
  (is "list_all _ (merge_claims ?cs)")
proof (unfold list_all_iff, rule ballI)
  fix m assume m: "m \<in> set (merge_claims ?cs)"
  note k = merge_keeps_strongest [of ?cs]
  have "claim_identity m \<in> claim_identity ` set ?cs" using k m by blast
  then have id: "claim_identity m = (''r'', ''f'', ''s'')" by (simp add: claim_identity_def)
  have "strongest ?cs m" using k m by blast
  with id have "2 \<le> strength (cl_evidence m)" by (simp add: strongest_def claim_identity_def)
  then show "strength (cl_evidence m) = 2" by (cases "cl_evidence m") simp_all
qed

section \<open>Printed lines\<close>

text \<open>In a Rust string an ASCII byte is a character of its own.\<close>

definition well_formed_text :: "string \<Rightarrow> bool" where
  "well_formed_text s \<longleftrightarrow> (\<forall>ch \<in> set (utf8_chars s). is_ascii (hd ch) \<longrightarrow> tl ch = [])"

lemma utf8_chars_shape: "ch \<in> set (utf8_chars s) \<Longrightarrow> ch \<noteq> [] \<and> (\<forall>c \<in> set (tl ch). is_cont_byte c)"
  by (induction s rule: utf8_chars.induct) (auto dest: set_takeWhileD)

lemma no_space:
  assumes "well_formed_text s" "\<not> str_any_whitespace s"
  shows "CHR '' '' \<notin> set s"
proof
  assume "CHR '' '' \<in> set s"
  then have "CHR '' '' \<in> \<Union> (set ` set (utf8_chars s))" by (metis concat_utf8_chars set_concat)
  then obtain ch where ch: "ch \<in> set (utf8_chars s)" "CHR '' '' \<in> set ch" by blast
  note shape = utf8_chars_shape [OF ch(1)]
  have "\<not> is_cont_byte (CHR '' '')" by (simp add: is_cont_byte_def)
  with shape ch(2) have hd: "hd ch = CHR '' ''" by (cases ch) auto
  then have "tl ch = []" using assms(1) ch(1) by (simp add: well_formed_text_def is_ascii_def)
  with shape hd have "ch = '' ''" by (cases ch) auto
  with ch(1) assms(2) show False by (auto simp: str_any_whitespace_def list_ex_iff is_whitespace_def)
qed

lemma append_sep_inj:
  "c \<notin> set xs \<Longrightarrow> c \<notin> set ys \<Longrightarrow> xs @ c # us = ys @ c # vs \<Longrightarrow> xs = ys \<and> us = vs"
proof (induction xs arbitrary: ys)
  case Nil
  then show ?case by (cases ys) auto
next
  case (Cons x xs)
  then show ?case by (cases ys) auto
qed

lemma evidence_str_inj: "evidence_str e = evidence_str e' \<Longrightarrow> e = e'"
  by (cases e; cases e') simp_all

text \<open>
  A printed line names one claim: two claims that \<open>Claim::new\<close> accepted and that print
  the same line are about the same repository, file and symbol with the same evidence,
  whatever colons the symbol contains.
\<close>

theorem claim_line_names_one:
  assumes "claim_new r f s e = Some c" "claim_new r' f' s' e' = Some c'"
    and "well_formed_text s" "well_formed_text s'" and "claim_line c = claim_line c'"
  shows "c = c'"
proof -
  note c = claim_new_fields [OF assms(1)] and c' = claim_new_fields [OF assms(2)]
  have ok: "CHR '':'' \<notin> set r" "CHR '':'' \<notin> set f" "CHR '':'' \<notin> set r'" "CHR '':'' \<notin> set f'"
      "CHR '' '' \<notin> set s" "CHR '' '' \<notin> set s'"
    using c c' assms(3,4) by (auto simp: claim_identity_ok_def identity_part_def dest: no_space)
  have "r @ CHR '':'' # f @ CHR '':'' # s @ CHR '' '' # '' EVIDENCE: '' @ evidence_str e
      = r' @ CHR '':'' # f' @ CHR '':'' # s' @ CHR '' '' # '' EVIDENCE: '' @ evidence_str e'"
    using assms(5) c c' by (simp add: claim_line_def)
  from append_sep_inj [OF ok(1,3) this] have "r = r'"
    and 2: "f @ CHR '':'' # s @ CHR '' '' # '' EVIDENCE: '' @ evidence_str e
      = f' @ CHR '':'' # s' @ CHR '' '' # '' EVIDENCE: '' @ evidence_str e'" by simp_all
  from append_sep_inj [OF ok(2,4) 2] have "f = f'"
    and 3: "s @ CHR '' '' # '' EVIDENCE: '' @ evidence_str e = s' @ CHR '' '' # '' EVIDENCE: '' @ evidence_str e'"
    by simp_all
  from append_sep_inj [OF ok(5,6) 3] have "s = s'" "evidence_str e = evidence_str e'" by simp_all
  with \<open>r = r'\<close> \<open>f = f'\<close> c c' evidence_str_inj show ?thesis by simp
qed

lemma claim_line_names_one_witness:
  "\<exists>c. claim_new ''org'' ''src/a.rs'' ''Cart::total'' Verified = Some c \<and> claim_line c = claim_line c \<and> c = c"
proof -
  obtain c where c: "claim_new ''org'' ''src/a.rs'' ''Cart::total'' Verified = Some c"
    by (simp add: claim_new_def claim_identity_ok_def identity_part_def str_trim_def str_any_whitespace_def
        is_cont_byte_def is_whitespace_def)
  have "well_formed_text ''Cart::total''" by (simp add: well_formed_text_def is_cont_byte_def)
  from claim_line_names_one [OF c c this this refl] c show ?thesis by auto
qed

text \<open>
  The references no one resolved never become claims: they are built with an empty symbol,
  which \<open>Claim::new\<close> refuses.
\<close>

lemma unresolved_refs_dropped:
  "claims_from_coverage cov = claims_from_coverage (cov\<lparr>cov_unresolved_refs := []\<rparr>)"
proof -
  have "claim_new r u [] Missing = None" for r u
    by (simp add: claim_new_def claim_identity_ok_def identity_part_def str_trim_def)
  then have "List.map_filter (\<lambda>x. map_option (g x) (claim_new (ur_repo x) (ur_url x) [] Missing)) refs = []" for g refs
    by (induction refs) simp_all
  then show ?thesis by (simp add: claims_from_coverage_def)
qed

end
