(* ===== verification/Readiness.thy ===== *)
theory Readiness
  imports Contract_Model "HOL-Library.List_Lexorder" "HOL-Library.Char_ord" "HOL-Library.Product_Lexorder"
begin

text \<open>
  When the server may answer: the index lifecycle of \<^verbatim>\<open>src/src/server/readiness.rs\<close>, the gate in
  front of every tool call, its per-repository form in \<^verbatim>\<open>federation/readiness.rs\<close>, and the
  startup hold of \<^verbatim>\<open>federation/health_gate.rs\<close>. Clock readings are the argument \<open>now\<close>.
\<close>

section \<open>Saturating counters\<close>

definition sat_inc :: "nat \<Rightarrow> nat \<Rightarrow> nat" where
  "sat_inc width n = min (n + 1) (2 ^ width - 1)"

section \<open>The lifecycle\<close>

datatype index_state = WarmingUp | IndexReady | UnavailableError

datatype index_phase =
  Discovering | PrewarmingLsp | Scanning | Resolving | Enriching | Persisting | OverlayPhase

record problem =
  pr_code :: string
  pr_message :: string
  pr_remediation :: string
  pr_retryable :: bool

record embedding_progress =
  ep_embedded :: nat
  ep_total :: nat
  ep_running :: bool

record lifecycle_snapshot =
  ls_sequence :: nat
  ls_attempt_id :: nat
  ls_state :: index_state
  ls_phase :: index_phase
  ls_started_at :: nat
  ls_completed_at :: "nat option"
  ls_target_commit :: "string option"
  ls_indexed_commit :: "string option"
  ls_files_total :: "nat option"
  ls_files_completed :: nat
  ls_files_failed :: nat
  ls_retry_after :: "nat option"
  ls_problem :: "problem option"
  ls_warnings :: "problem list"
  ls_embeddings :: "embedding_progress option"

definition retry_after_ms :: nat where
  "retry_after_ms = 3000"

definition snapshot_warming_up :: "nat \<Rightarrow> lifecycle_snapshot" where
  "snapshot_warming_up now =
     \<lparr>ls_sequence = 0, ls_attempt_id = 1, ls_state = WarmingUp, ls_phase = Discovering, ls_started_at = now,
      ls_completed_at = None, ls_target_commit = None, ls_indexed_commit = None, ls_files_total = None,
      ls_files_completed = 0, ls_files_failed = 0, ls_retry_after = Some 3000, ls_problem = None,
      ls_warnings = [], ls_embeddings = None\<rparr>"

definition index_cancelled_code :: string where
  "index_cancelled_code = ''index_cancelled''"

record lifecycle_core =
  lc_snapshot :: lifecycle_snapshot
  lc_in_flight :: nat

definition lifecycle_new :: "nat \<Rightarrow> lifecycle_core" where
  "lifecycle_new now = \<lparr>lc_snapshot = snapshot_warming_up now, lc_in_flight = 0\<rparr>"

definition ready_allowed_for :: "nat \<Rightarrow> bool \<Rightarrow> bool" where
  "ready_allowed_for in_flight cancelled \<longleftrightarrow> in_flight = 0 \<and> \<not> cancelled"

definition is_cancelled :: "lifecycle_core \<Rightarrow> bool" where
  "is_cancelled c \<longleftrightarrow>
     (case ls_problem (lc_snapshot c) of Some p \<Rightarrow> pr_code p = index_cancelled_code | None \<Rightarrow> False)"

definition ready_allowed :: "lifecycle_core \<Rightarrow> bool" where
  "ready_allowed c \<longleftrightarrow> ready_allowed_for (lc_in_flight c) (is_cancelled c)"

definition touch_snapshot :: "lifecycle_snapshot \<Rightarrow> lifecycle_snapshot" where
  "touch_snapshot s =
     s\<lparr>ls_sequence := sat_inc 64 (ls_sequence s),
       ls_warnings := sort_key (\<lambda>p. (pr_code p, pr_message p)) (ls_warnings s)\<rparr>"

definition begin_pass :: "lifecycle_core \<Rightarrow> lifecycle_core" where
  "begin_pass c =
     (let c = c\<lparr>lc_in_flight := sat_inc 32 (lc_in_flight c)\<rparr> in
      if is_cancelled c then c
      else c\<lparr>lc_snapshot := touch_snapshot
        ((lc_snapshot c)\<lparr>ls_state := WarmingUp, ls_attempt_id := sat_inc 64 (ls_attempt_id (lc_snapshot c)),
                         ls_completed_at := None, ls_retry_after := Some retry_after_ms, ls_problem := None\<rparr>)\<rparr>)"

definition end_pass :: "lifecycle_core \<Rightarrow> lifecycle_core" where
  "end_pass c = c\<lparr>lc_in_flight := lc_in_flight c - 1\<rparr>"

definition publish_ready :: "nat \<Rightarrow> string option \<Rightarrow> lifecycle_core \<Rightarrow> bool \<times> lifecycle_core" where
  "publish_ready now indexed_commit c =
     (if \<not> ready_allowed c then (False, c)
      else (True, c\<lparr>lc_snapshot := touch_snapshot
        ((lc_snapshot c)\<lparr>ls_state := IndexReady, ls_phase := OverlayPhase, ls_indexed_commit := indexed_commit,
                         ls_completed_at := Some now, ls_retry_after := None, ls_problem := None\<rparr>)\<rparr>))"

definition index_failed_problem :: "string \<Rightarrow> problem" where
  "index_failed_problem message =
     \<lparr>pr_code = ''index_failed'', pr_message = message,
      pr_remediation = ''Run `lain doctor --json` and retry indexing after correcting the reported problem.'',
      pr_retryable = True\<rparr>"

definition publish_failed :: "nat \<Rightarrow> string \<Rightarrow> lifecycle_core \<Rightarrow> bool \<times> lifecycle_core" where
  "publish_failed now message c =
     (if is_cancelled c then (False, c)
      else (True, c\<lparr>lc_snapshot := touch_snapshot
        ((lc_snapshot c)\<lparr>ls_state := UnavailableError, ls_completed_at := Some now, ls_retry_after := None,
                         ls_problem := Some (index_failed_problem message)\<rparr>)\<rparr>))"

definition cancelled_problem :: problem where
  "cancelled_problem =
     \<lparr>pr_code = index_cancelled_code, pr_message = ''indexing cancelled by server shutdown'',
      pr_remediation = ''Restart the server to begin a fresh indexing pass.'', pr_retryable = False\<rparr>"

definition publish_cancelled :: "nat \<Rightarrow> lifecycle_core \<Rightarrow> lifecycle_core" where
  "publish_cancelled now c =
     c\<lparr>lc_snapshot := touch_snapshot
        ((lc_snapshot c)\<lparr>ls_state := UnavailableError, ls_completed_at := Some now, ls_retry_after := None,
                         ls_problem := Some cancelled_problem\<rparr>)\<rparr>"

definition lifecycle_update :: "(lifecycle_snapshot \<Rightarrow> lifecycle_snapshot) \<Rightarrow> lifecycle_core \<Rightarrow> lifecycle_core" where
  "lifecycle_update f c = c\<lparr>lc_snapshot := touch_snapshot (f (lc_snapshot c))\<rparr>"

section \<open>The gate in front of tools\<close>

datatype readiness_requirement = GraphIndependent | GraphRequired | SemanticRequired

definition schema_version :: nat where
  "schema_version = 1"

record gated_response =
  gr_schema_version :: nat
  gr_attempt_id :: nat
  gr_sequence :: nat
  gr_state :: string
  gr_capability :: string
  gr_message :: string
  gr_progress :: "(index_phase \<times> nat \<times> nat option \<times> nat) option"
  gr_retry_after :: "nat option"
  gr_next_action :: "string option"
  gr_problem :: "problem option"
  gr_blocking_repos :: "string list"

definition gated_is_error :: "gated_response \<Rightarrow> bool" where
  "gated_is_error r \<longleftrightarrow> gr_state r = ''unavailable_error''"

definition gated_warming_up :: "lifecycle_snapshot \<Rightarrow> string \<Rightarrow> gated_response" where
  "gated_warming_up l capability =
     \<lparr>gr_schema_version = schema_version, gr_attempt_id = ls_attempt_id l, gr_sequence = ls_sequence l, gr_state = ''warming_up'',
      gr_capability = capability, gr_message = ''LAIN is indexing this repository.'',
      gr_progress = Some (ls_phase l, ls_files_completed l, ls_files_total l, ls_files_failed l),
      gr_retry_after = Some retry_after_ms, gr_next_action = Some ''get_capabilities'', gr_problem = None,
      gr_blocking_repos = []\<rparr>"

definition gated_unavailable_error :: "lifecycle_snapshot \<Rightarrow> string \<Rightarrow> gated_response" where
  "gated_unavailable_error l capability =
     \<lparr>gr_schema_version = schema_version, gr_attempt_id = ls_attempt_id l, gr_sequence = ls_sequence l, gr_state = ''unavailable_error'',
      gr_capability = capability, gr_message = ''LAIN could not finish indexing this repository.'',
      gr_progress = None, gr_retry_after = None, gr_next_action = Some ''get_capabilities'',
      gr_problem = ls_problem l, gr_blocking_repos = []\<rparr>"

definition gated_unavailable_optional :: "lifecycle_snapshot \<Rightarrow> gated_response" where
  "gated_unavailable_optional l =
     \<lparr>gr_schema_version = schema_version, gr_attempt_id = ls_attempt_id l, gr_sequence = ls_sequence l, gr_state = ''unavailable_optional'',
      gr_capability = ''semantic_search'',
      gr_message = ''Semantic search is optional and no embedding model is installed.'',
      gr_progress = None, gr_retry_after = None, gr_next_action = Some ''get_capabilities'',
      gr_problem = None, gr_blocking_repos = []\<rparr>"

definition gate_on_state :: "lifecycle_snapshot \<Rightarrow> string \<Rightarrow> gated_response option" where
  "gate_on_state l capability =
     (case ls_state l of
        IndexReady \<Rightarrow> None
      | WarmingUp \<Rightarrow> Some (gated_warming_up l capability)
      | UnavailableError \<Rightarrow> Some (gated_unavailable_error l capability))"

text \<open>The classification of a tool's name is the table \<open>requirement\<close> below.\<close>

definition graph_independent_tools :: "string list" where
  "graph_independent_tools =
     [''get_health'', ''get_capabilities'', ''understand_repository'', ''find_symbol'', ''search_code'',
      ''get_agent_strategy'', ''list_packages'', ''load_package'', ''get_server_status'', ''list_recent_projects'',
      ''get_reload_status'', ''request_reload'', ''register_agent'', ''heartbeat'', ''list_active_agents'',
      ''who_am_i'', ''list_subagents'', ''claim_files'', ''release_files'', ''list_occupancy'', ''my_claims'',
      ''detect_overlap'', ''get_audit_log'', ''register_job_webhook'', ''get_job_status'', ''debug_sleep'',
      ''install_language_server'', ''list_repos'', ''get_repo_info'', ''get_federation_health'',
      ''list_workspaces'', ''get_active_workspace'', ''get_workspace'', ''get_file_diff'', ''get_commit_history'',
      ''get_branch_status'', ''run_build'', ''run_tests'', ''run_clippy'', ''get_world_state'',
      ''get_recent_activity'', ''add_annotation'', ''list_annotations'', ''resolve_annotation'',
      ''leave_handoff_note'', ''get_pending_handoffs'', ''unregister_agent'', ''lain_intent'',
      ''list_active_intents'', ''list_services'', ''get_service'']"

definition graph_required_tools :: "string list" where
  "graph_required_tools =
     [''explore_architecture'', ''list_entry_points'', ''compare_modules'', ''architectural_observations'',
      ''trace_dependency'', ''get_call_chain'', ''navigate_to_anchor'', ''get_layered_map'', ''get_master_map'',
      ''get_blast_radius'', ''get_coupling_radar'', ''find_anchors'', ''get_anchor_score'', ''get_context_depth'',
      ''find_dead_code'', ''explain_symbol'', ''suggest_refactor_targets'', ''query_graph'', ''describe_schema'',
      ''get_cross_runtime_callers'', ''run_enrichment'', ''sync_state'', ''get_context_for_prompt'',
      ''get_context'', ''find_related'', ''assess_change'', ''get_code_snippet'', ''get_call_sites'',
      ''find_untested_functions'', ''get_test_template'', ''get_coverage_summary'', ''search_org'',
      ''get_cross_repo_blast_radius'', ''get_cross_repo_blast_radius_for_repo'', ''get_workspace_graph'',
      ''explain_dispatch'', ''prepare_snapshot'', ''get_snapshot'', ''list_contracts'', ''list_service_refs'',
      ''get_contract'', ''list_unresolved'', ''check_binding'', ''apply_contract_context'', ''diff_contracts'',
      ''trace_impact'', ''trace_flow'', ''get_coverage'', ''resolve_evidence'', ''read_source'']"

definition requirement :: "string \<Rightarrow> readiness_requirement option" where
  "requirement name =
     (if name = ''semantic_search'' then Some SemanticRequired
      else if name \<in> set graph_independent_tools then Some GraphIndependent
      else if name \<in> set graph_required_tools then Some GraphRequired
      else None)"

definition gate_tool_call :: "string \<Rightarrow> lifecycle_snapshot \<Rightarrow> bool \<Rightarrow> gated_response option" where
  "gate_tool_call name l semantic_model_configured =
     (case requirement name of
        None \<Rightarrow> None
      | Some GraphIndependent \<Rightarrow> None
      | Some GraphRequired \<Rightarrow> gate_on_state l ''symbols''
      | Some SemanticRequired \<Rightarrow>
          if \<not> semantic_model_configured then Some (gated_unavailable_optional l)
          else gate_on_state l ''semantic_search'')"

section \<open>Capabilities\<close>

datatype capability_state = CapReady | CapWarmingUp | StaleUsable | UnavailableOptional | CapUnavailableError

record capability =
  cap_state :: capability_state
  cap_optional :: bool
  cap_reason :: "string option"
  cap_remediation :: "string option"
  cap_retry_after :: "nat option"

definition capability_new :: "capability_state \<Rightarrow> bool \<Rightarrow> capability" where
  "capability_new st opt =
     \<lparr>cap_state = st, cap_optional = opt, cap_reason = None, cap_remediation = None, cap_retry_after = None\<rparr>"

record capabilities =
  caps_symbols :: capability
  caps_call_graph :: capability
  caps_git_history :: capability
  caps_mirrors :: capability
  caps_semantic_search :: capability

datatype readiness = AgentReady | Degraded | Unusable

definition agent_ready :: "readiness \<Rightarrow> bool" where
  "agent_ready r \<longleftrightarrow> r \<noteq> Unusable"

fun exit_code :: "readiness \<Rightarrow> int" where
  "exit_code AgentReady = 0"
| "exit_code Degraded = 1"
| "exit_code Unusable = 2"

primrec judge :: "capability list \<Rightarrow> readiness \<Rightarrow> readiness" where
  "judge [] result = result"
| "judge (c # cs) result =
     (if \<not> cap_optional c \<and> cap_state c \<notin> {CapReady, StaleUsable} then Unusable
      else judge cs (if cap_state c \<in> {CapWarmingUp, StaleUsable, CapUnavailableError} then Degraded else result))"

definition capabilities_readiness :: "bool \<Rightarrow> capabilities \<Rightarrow> readiness" where
  "capabilities_readiness transport_healthy c =
     (if \<not> transport_healthy then Unusable
      else judge [caps_symbols c, caps_call_graph c, caps_git_history c, caps_semantic_search c] AgentReady)"

section \<open>Repositories\<close>

datatype repo_health = HealthReady | HealthIndexing | HealthDegraded | HealthUnavailable | HealthMissing

fun health_str :: "repo_health \<Rightarrow> string" where
  "health_str HealthReady = ''ready''"
| "health_str HealthIndexing = ''indexing''"
| "health_str HealthDegraded = ''degraded''"
| "health_str HealthUnavailable = ''unavailable''"
| "health_str HealthMissing = ''missing''"

definition is_serving :: "repo_health \<Rightarrow> bool" where
  "is_serving h \<longleftrightarrow> h \<in> {HealthReady, HealthIndexing}"

definition health_problem :: "string \<Rightarrow> repo_health \<Rightarrow> problem" where
  "health_problem code h =
     \<lparr>pr_code = code, pr_message = ''Repository is '' @ health_str h,
      pr_remediation = ''Run `get_federation_health` for per-repository detail.'', pr_retryable = True\<rparr>"

definition repo_health_to_snapshot :: "nat \<Rightarrow> repo_health \<Rightarrow> lifecycle_snapshot" where
  "repo_health_to_snapshot now h =
     (let s = snapshot_warming_up now;
          unavailable = (\<lambda>code. s\<lparr>ls_state := UnavailableError, ls_retry_after := None,
                                   ls_problem := Some (health_problem code h)\<rparr>) in
      case h of
        HealthReady \<Rightarrow> s\<lparr>ls_state := IndexReady, ls_retry_after := None\<rparr>
      | HealthIndexing \<Rightarrow> s
      | HealthDegraded \<Rightarrow> unavailable ''repo_degraded''
      | HealthUnavailable \<Rightarrow> unavailable ''repo_unavailable''
      | HealthMissing \<Rightarrow> unavailable ''repo_missing'')"

fun repo_health_to_capability_state :: "repo_health \<Rightarrow> capability_state" where
  "repo_health_to_capability_state HealthReady = CapReady"
| "repo_health_to_capability_state HealthIndexing = CapWarmingUp"
| "repo_health_to_capability_state _ = CapUnavailableError"

record per_repo_readiness =
  prr_repo_id :: repo_id
  prr_state :: repo_health
  prr_indexed_signal :: bool
  prr_last_commit :: "string option"
  prr_last_at :: "nat option"
  prr_outstanding :: nat
  prr_staleness :: capability_state

definition build_per_repo_readiness ::
    "repo_id \<Rightarrow> repo_health \<Rightarrow> bool \<Rightarrow> string option \<Rightarrow> nat option \<Rightarrow> nat \<Rightarrow> per_repo_readiness" where
  "build_per_repo_readiness rid h signal commit at outstanding =
     \<lparr>prr_repo_id = rid, prr_state = h, prr_indexed_signal = signal, prr_last_commit = commit,
      prr_last_at = at, prr_outstanding = outstanding, prr_staleness = repo_health_to_capability_state h\<rparr>"

definition gate_federated_tool_call ::
    "nat \<Rightarrow> string \<Rightarrow> (repo_id \<times> repo_health) list \<Rightarrow> bool \<Rightarrow> gated_response option" where
  "gate_federated_tool_call now name resolved semantic =
     (let blocking = List.map_filter
            (\<lambda>(rid, h). map_option (\<lambda>g. (repo_str rid, g))
              (gate_tool_call name (repo_health_to_snapshot now h) semantic))
            (sort_key (\<lambda>r. repo_str (fst r)) resolved) in
      if blocking = [] then None
      else
        let representative = (case find (\<lambda>(_, g). gr_state g = ''unavailable_error'') blocking of
              Some (_, g) \<Rightarrow> g | None \<Rightarrow> snd (hd blocking)) in
        Some (representative\<lparr>gr_blocking_repos := map fst blocking\<rparr>))"

section \<open>The startup hold\<close>

record health_gate =
  hg_health :: repo_health
  hg_hold :: bool

definition gate_new :: "repo_health \<Rightarrow> health_gate" where
  "gate_new h = \<lparr>hg_health = h, hg_hold = False\<rparr>"

definition set_health :: "repo_health \<Rightarrow> health_gate \<Rightarrow> health_gate" where
  "set_health h g = g\<lparr>hg_health := h\<rparr>"

definition mark_ready :: "health_gate \<Rightarrow> health_gate" where
  "mark_ready g = g\<lparr>hg_health := (if hg_hold g then HealthIndexing else HealthReady)\<rparr>"

text \<open>\<open>has_indexed\<close> is asked inside the critical section, and only when its answer matters.\<close>

definition set_hold :: "bool \<Rightarrow> bool \<Rightarrow> health_gate \<Rightarrow> health_gate" where
  "set_hold hold has_indexed g =
     (let g = g\<lparr>hg_hold := hold\<rparr> in
      if \<not> hold \<and> hg_health g = HealthIndexing \<and> has_indexed then g\<lparr>hg_health := HealthReady\<rparr> else g)"

end
