(* ===== verification/Readiness_Props.thy ===== *)
theory Readiness_Props
  imports Readiness "HOL-Library.Multiset"
begin

text \<open>
  The lifecycle and the hold as state machines: the gate is open only over a quiet graph,
  shutdown is final, a repository is not left indexing when its hold is released, and the
  federated gate does not depend on the order of its repositories.
\<close>

section \<open>Runs of the lifecycle\<close>

text \<open>
  Passes are begun and ended through a guard that is dropped once, publications may come at
  any time, and an update changes the progress and nothing the gate looks at.
\<close>

datatype lifecycle_event =
    PassBegins
  | PassEnds
  | PublishReady nat "string option"
  | PublishFailed nat string
  | PublishCancelled nat
  | Progress "lifecycle_snapshot \<Rightarrow> lifecycle_snapshot"

primrec lifecycle_step :: "lifecycle_event \<Rightarrow> lifecycle_core \<Rightarrow> lifecycle_core" where
  "lifecycle_step PassBegins c = begin_pass c"
| "lifecycle_step PassEnds c = end_pass c"
| "lifecycle_step (PublishReady now commit) c = snd (publish_ready now commit c)"
| "lifecycle_step (PublishFailed now message) c = snd (publish_failed now message c)"
| "lifecycle_step (PublishCancelled now) c = publish_cancelled now c"
| "lifecycle_step (Progress f) c = lifecycle_update f c"

definition keeps_verdict :: "(lifecycle_snapshot \<Rightarrow> lifecycle_snapshot) \<Rightarrow> bool" where
  "keeps_verdict f \<longleftrightarrow>
     (\<forall>s. ls_state (f s) = ls_state s \<and> ls_problem (f s) = ls_problem s \<and> ls_sequence (f s) = ls_sequence s)"

text \<open>The passes that hold a guard, and whether shutdown was published.\<close>

primrec passes :: "lifecycle_event list \<Rightarrow> nat \<Rightarrow> nat option" where
  "passes [] n = Some n"
| "passes (e # es) n =
     (case e of
        PassBegins \<Rightarrow> if Suc n < 2 ^ 32 then passes es (Suc n) else None
      | PassEnds \<Rightarrow> if n = 0 then None else passes es (n - 1)
      | Progress f \<Rightarrow> if keeps_verdict f then passes es n else None
      | _ \<Rightarrow> passes es n)"

definition is_shutdown :: "lifecycle_event \<Rightarrow> bool" where
  "is_shutdown e \<longleftrightarrow> (case e of PublishCancelled _ \<Rightarrow> True | _ \<Rightarrow> False)"

definition lifecycle_ok :: "nat \<Rightarrow> bool \<Rightarrow> lifecycle_core \<Rightarrow> bool" where
  "lifecycle_ok n down c \<longleftrightarrow>
     lc_in_flight c = n \<and> is_cancelled c = down
     \<and> (down \<longrightarrow> ls_state (lc_snapshot c) = UnavailableError)
     \<and> (ls_state (lc_snapshot c) = IndexReady \<longrightarrow> n = 0)"

lemmas lifecycle_defs =
  begin_pass_def end_pass_def publish_ready_def publish_failed_def publish_cancelled_def lifecycle_update_def
  touch_snapshot_def is_cancelled_def ready_allowed_def ready_allowed_for_def cancelled_problem_def
  index_failed_problem_def index_cancelled_code_def Let_def sat_inc_def

lemma lifecycle_step_ok:
  assumes "lifecycle_ok n down c" "passes (e # es) n = Some k"
  shows "\<exists>m. passes es m = Some k \<and> lifecycle_ok m (down \<or> is_shutdown e) (lifecycle_step e c)"
proof (cases e)
  case (Progress f)
  then have "keeps_verdict f" "passes es n = Some k" using assms(2) by (auto split: if_splits)
  then show ?thesis using assms(1) Progress
    by (auto simp: lifecycle_ok_def is_shutdown_def lifecycle_defs keeps_verdict_def)
qed (use assms in \<open>auto simp: lifecycle_ok_def is_shutdown_def lifecycle_defs split: if_splits option.splits\<close>)

lemma lifecycle_run_ok:
  "lifecycle_ok n down c \<Longrightarrow> passes es n = Some k \<Longrightarrow>
    lifecycle_ok k (down \<or> (\<exists>e \<in> set es. is_shutdown e)) (fold lifecycle_step es c)"
proof (induction es arbitrary: n down c)
  case (Cons e es)
  from lifecycle_step_ok [OF Cons.prems] Cons.IH show ?case by (fastforce simp: disj_assoc)
qed simp

lemma lifecycle_new_ok: "lifecycle_ok 0 False (lifecycle_new now)"
  by (simp add: lifecycle_ok_def lifecycle_new_def snapshot_warming_up_def is_cancelled_def)

lemma gate_open_state:
  "requirement name = Some GraphRequired \<Longrightarrow>
    gate_tool_call name l semantic = None \<longleftrightarrow> ls_state l = IndexReady"
  by (simp add: gate_tool_call_def gate_on_state_def split: index_state.split)

text \<open>What may follow a successful publication without closing the gate again.\<close>

definition keeps_open :: "lifecycle_event \<Rightarrow> bool" where
  "keeps_open e \<longleftrightarrow> (case e of PublishReady _ _ \<Rightarrow> True | Progress _ \<Rightarrow> True | _ \<Rightarrow> False)"

definition opened :: "lifecycle_event list \<Rightarrow> bool" where
  "opened es \<longleftrightarrow>
     (\<exists>before now commit after. es = before @ PublishReady now commit # after \<and> passes before 0 = Some 0
        \<and> list_all (\<lambda>e. \<not> is_shutdown e) before \<and> list_all keeps_open after)"

lemma passes_append: "passes (es @ es') n = Option.bind (passes es n) (passes es')"
  by (induction es arbitrary: n) (auto split: lifecycle_event.split)

lemma opened_snoc:
  "opened (es @ [e]) \<longleftrightarrow>
    (\<exists>now commit. e = PublishReady now commit) \<and> passes es 0 = Some 0 \<and> list_all (\<lambda>e. \<not> is_shutdown e) es
    \<or> keeps_open e \<and> opened es"
proof
  assume "opened (es @ [e])"
  then obtain before now commit after where
    split: "es @ [e] = before @ PublishReady now commit # after" and ok: "passes before 0 = Some 0"
      "list_all (\<lambda>e. \<not> is_shutdown e) before" "list_all keeps_open after"
    by (auto simp: opened_def)
  show "(\<exists>now commit. e = PublishReady now commit) \<and> passes es 0 = Some 0 \<and> list_all (\<lambda>e. \<not> is_shutdown e) es
      \<or> keeps_open e \<and> opened es"
  proof (cases after rule: rev_cases)
    case Nil
    then show ?thesis using split ok by auto
  next
    case (snoc after' e')
    then have "es = before @ PublishReady now commit # after'" "e = e'"
      using split by (simp_all flip: append_Cons append_assoc)
    then show ?thesis using ok snoc unfolding opened_def by auto
  qed
next
  assume "(\<exists>now commit. e = PublishReady now commit) \<and> passes es 0 = Some 0 \<and> list_all (\<lambda>e. \<not> is_shutdown e) es
      \<or> keeps_open e \<and> opened es"
  then show "opened (es @ [e])"
  proof (elim disjE conjE exE)
    fix now commit assume "e = PublishReady now commit" "passes es 0 = Some 0" "list_all (\<lambda>e. \<not> is_shutdown e) es"
    then have "es @ [e] = es @ PublishReady now commit # [] \<and> passes es 0 = Some 0
        \<and> list_all (\<lambda>e. \<not> is_shutdown e) es \<and> list_all keeps_open []" by simp
    then show ?thesis unfolding opened_def by blast
  next
    assume e: "keeps_open e" and "opened es"
    then obtain before now commit after where
      "es = before @ PublishReady now commit # after" "passes before 0 = Some 0"
      "list_all (\<lambda>e. \<not> is_shutdown e) before" "list_all keeps_open after"
      by (auto simp: opened_def)
    then have "es @ [e] = before @ PublishReady now commit # (after @ [e]) \<and> passes before 0 = Some 0
        \<and> list_all (\<lambda>e. \<not> is_shutdown e) before \<and> list_all keeps_open (after @ [e])"
      using e by simp
    then show ?thesis unfolding opened_def by blast
  qed
qed

lemma lifecycle_ready_iff:
  "passes es 0 = Some k \<Longrightarrow>
    ls_state (lc_snapshot (fold lifecycle_step es (lifecycle_new t0))) = IndexReady \<longleftrightarrow> opened es"
proof (induction es arbitrary: k rule: rev_induct)
  case Nil
  show ?case by (simp add: lifecycle_new_def snapshot_warming_up_def opened_def)
next
  case (snoc e es)
  let ?c = "fold lifecycle_step es (lifecycle_new t0)"
  obtain m where m: "passes es 0 = Some m" "passes [e] m = Some k"
    using snoc.prems by (auto simp: passes_append bind_eq_Some_conv)
  have ok: "lifecycle_ok m (\<not> list_all (\<lambda>e. \<not> is_shutdown e) es) ?c"
    using lifecycle_run_ok [OF lifecycle_new_ok m(1)] by (simp add: list_all_iff)
  note IH = snoc.IH [OF m(1)]
  show ?case
  proof (cases e)
    case (PublishReady now commit)
    have "ls_state (lc_snapshot (lifecycle_step e ?c)) = IndexReady \<longleftrightarrow> ready_allowed ?c \<or> ls_state (lc_snapshot ?c) = IndexReady"
      by (simp add: PublishReady publish_ready_def touch_snapshot_def)
    then show ?thesis
      using ok IH m(1) by (auto simp: PublishReady opened_snoc keeps_open_def ready_allowed_def ready_allowed_for_def lifecycle_ok_def)
  next
    case PassEnds
    then have "0 < m" using m(2) by (auto split: if_splits)
    then show ?thesis using ok by (simp add: PassEnds opened_snoc keeps_open_def end_pass_def lifecycle_ok_def)
  next
    case (Progress f)
    then have "keeps_verdict f" using m(2) by (auto split: if_splits)
    then show ?thesis using IH by (simp add: Progress opened_snoc keeps_open_def keeps_verdict_def lifecycle_update_def touch_snapshot_def)
  qed (use ok in \<open>auto simp: opened_snoc keeps_open_def lifecycle_ok_def lifecycle_defs\<close>)
qed

text \<open>
  C18: In any history of indexing passes and publications, a tool that needs the graph is let
  through exactly when some publication of \<open>ready\<close> came while no pass held a guard and
  shutdown had not been published, and nothing but further publications of \<open>ready\<close> and
  progress reports came after it: a pass that begins, a failure or a shutdown closes the gate,
  and the end of a pass alone never opens it. So an open gate means that no pass is changing
  the graph and shutdown was never published, and publishing \<open>ready\<close> opens the gate exactly then.
\<close>

theorem gate_open_means_quiet:
  assumes "passes es 0 = Some k" "requirement name = Some GraphRequired"
  shows "(gate_tool_call name (lc_snapshot (fold lifecycle_step es (lifecycle_new t0))) semantic = None \<longleftrightarrow>
       (\<exists>before now commit after. es = before @ PublishReady now commit # after \<and> passes before 0 = Some 0
          \<and> list_all (\<lambda>e. \<not> is_shutdown e) before \<and> list_all keeps_open after))
    \<and> (gate_tool_call name (lc_snapshot (fold lifecycle_step es (lifecycle_new t0))) semantic = None \<longrightarrow>
       k = 0 \<and> (\<forall>e \<in> set es. \<not> is_shutdown e))
    \<and> (gate_tool_call name (lc_snapshot (fold lifecycle_step (es @ [PublishReady now commit]) (lifecycle_new t0)))
          semantic = None \<longleftrightarrow> k = 0 \<and> (\<forall>e \<in> set es. \<not> is_shutdown e))"
proof -
  let ?c = "fold lifecycle_step es (lifecycle_new t0)"
  have ok: "lifecycle_ok k (\<exists>e \<in> set es. is_shutdown e) ?c"
    using lifecycle_run_ok [OF lifecycle_new_ok assms(1)] by simp
  have "ls_state (lc_snapshot (snd (publish_ready now commit ?c))) = IndexReady \<longleftrightarrow> ready_allowed ?c
      \<or> ls_state (lc_snapshot ?c) = IndexReady"
    by (simp add: publish_ready_def touch_snapshot_def)
  moreover note lifecycle_ready_iff [OF assms(1), of t0, unfolded opened_def]
  ultimately show ?thesis
    using ok unfolding gate_open_state [OF assms(2)] lifecycle_ok_def
    by (intro conjI) (auto simp: ready_allowed_def ready_allowed_for_def simp del: ex_simps)
qed

lemma gate_open_means_quiet_witness:
  "gate_tool_call ''get_blast_radius''
     (lc_snapshot (fold lifecycle_step ([PassBegins, PassEnds, PassBegins] @ [PublishReady 5 None]) (lifecycle_new 0))) True \<noteq> None"
  using gate_open_means_quiet [of "[PassBegins, PassEnds, PassBegins]" 1 "''get_blast_radius''" 0 True 5 None]
  by (simp add: requirement_def graph_independent_tools_def graph_required_tools_def)

interpretation lifecycle_clock:
    counting_machine lifecycle_step "\<lambda>e. case e of Progress f \<Rightarrow> keeps_verdict f | _ \<Rightarrow> True"
      "\<lambda>c. ls_sequence (lc_snapshot c) < 2 ^ 64" "\<lambda>c. ls_sequence (lc_snapshot c)"
proof unfold_locales
  fix e and c :: lifecycle_core assume adm: "case e of Progress f \<Rightarrow> keeps_verdict f | _ \<Rightarrow> True" and c: "ls_sequence (lc_snapshot c) < 2 ^ 64"
  have "ls_sequence (lc_snapshot (lifecycle_step e c)) \<in> {ls_sequence (lc_snapshot c), sat_inc 64 (ls_sequence (lc_snapshot c))}"
    using adm by (cases e) (auto simp: lifecycle_defs keeps_verdict_def)
  with c show "ls_sequence (lc_snapshot (lifecycle_step e c)) < 2 ^ 64"
    and "ls_sequence (lc_snapshot c) \<le> ls_sequence (lc_snapshot (lifecycle_step e c))"
    by (auto simp: sat_inc_def)
qed

section \<open>The federated gate\<close>

definition repo_blocked :: "nat \<Rightarrow> string \<Rightarrow> bool \<Rightarrow> repo_id \<times> repo_health \<Rightarrow> bool" where
  "repo_blocked now name semantic r \<longleftrightarrow> gate_tool_call name (repo_health_to_snapshot now (snd r)) semantic \<noteq> None"

lemma map_filter_firsts:
  "map fst (List.map_filter (\<lambda>(rid, h). map_option (\<lambda>g. (F rid, g)) (G h)) rs) = map (F \<circ> fst) (filter (\<lambda>r. G (snd r) \<noteq> None) rs)"
  by (induction rs) (auto split: option.splits)

lemma federated_gate_repos:
  "gate_federated_tool_call now name resolved semantic = Some r \<Longrightarrow>
    gr_blocking_repos r = map (repo_str \<circ> fst) (filter (repo_blocked now name semantic) (sort_key (\<lambda>r. repo_str (fst r)) resolved))"
  by (auto simp: gate_federated_tool_call_def Let_def map_filter_firsts repo_blocked_def [abs_def] split: if_splits)

lemma map_filter_Nil: "List.map_filter f xs = [] \<longleftrightarrow> (\<forall>x \<in> set xs. f x = None)"
  by (induction xs) (auto split: option.split)

lemma federated_gate_none:
  "gate_federated_tool_call now name resolved semantic = None \<longleftrightarrow> (\<forall>r \<in> set resolved. \<not> repo_blocked now name semantic r)"
  by (force simp: gate_federated_tool_call_def Let_def repo_blocked_def map_filter_Nil split: prod.splits)

lemma map_filter_members: "y \<in> set (List.map_filter f xs) \<longleftrightarrow> (\<exists>x \<in> set xs. f x = Some y)"
  by (induction xs) (auto split: option.split)

lemma find_sorted:
  fixes xs :: "('k :: linorder \<times> 'a) list"
  shows "sorted (map fst xs) \<Longrightarrow> find P xs = Some x \<Longrightarrow> x \<in> set xs \<and> P x \<and> (\<forall>y \<in> set xs. P y \<longrightarrow> fst x \<le> fst y)"
  by (induction xs) (auto split: if_splits)

lemma map_filter_sorted:
  fixes key :: "'a \<Rightarrow> 'k :: linorder"
  shows "sorted (map key rs) \<Longrightarrow> sorted (map fst (List.map_filter (\<lambda>r. map_option (Pair (key r)) (G r)) rs))"
  by (induction rs) (auto simp: map_filter_members split: option.split)

lemma federated_gate_representative:
  assumes "gate_federated_tool_call now name resolved semantic = Some a"
  shows "\<exists>r g. r \<in> set resolved \<and> gate_tool_call name (repo_health_to_snapshot now (snd r)) semantic = Some g
     \<and> a = g\<lparr>gr_blocking_repos := gr_blocking_repos a\<rparr>
     \<and> (\<forall>r' \<in> set resolved. \<forall>g'. gate_tool_call name (repo_health_to_snapshot now (snd r')) semantic = Some g' \<longrightarrow>
          gr_state g = ''unavailable_error'' \<and> gr_state g' \<noteq> ''unavailable_error''
          \<or> (gr_state g = ''unavailable_error'' \<longleftrightarrow> gr_state g' = ''unavailable_error'') \<and> repo_str (fst r) \<le> repo_str (fst r'))"
proof -
  let ?gate = "\<lambda>r. gate_tool_call name (repo_health_to_snapshot now (snd r)) semantic"
  let ?bad = "\<lambda>x :: string \<times> gated_response. gr_state (snd x) = ''unavailable_error''"
  define B where "B = List.map_filter (\<lambda>r. map_option (Pair (repo_str (fst r))) (?gate r)) (sort_key (\<lambda>r. repo_str (fst r)) resolved)"
  have gate: "gate_federated_tool_call now name resolved semantic =
      (if B = [] then None
       else Some ((case find ?bad B of None \<Rightarrow> snd (hd B) | Some x \<Rightarrow> snd x)\<lparr>gr_blocking_repos := map fst B\<rparr>))"
    unfolding gate_federated_tool_call_def Let_def B_def case_prod_unfold by simp
  have sorted: "sorted (map fst B)" unfolding B_def by (rule map_filter_sorted) simp
  have mem: "(s, g) \<in> set B \<longleftrightarrow> (\<exists>r \<in> set resolved. ?gate r = Some g \<and> s = repo_str (fst r))" for s g
    by (force simp: B_def map_filter_members)
  obtain x where x: "x \<in> set B" "a = snd x\<lparr>gr_blocking_repos := map fst B\<rparr>"
    and least: "\<forall>y \<in> set B. ?bad x \<and> \<not> ?bad y \<or> (?bad x \<longleftrightarrow> ?bad y) \<and> fst x \<le> fst y"
  proof (cases "find ?bad B")
    case None
    have "B \<noteq> []" "a = snd (hd B)\<lparr>gr_blocking_repos := map fst B\<rparr>"
      using assms None by (auto simp: gate split: if_splits)
    moreover have "\<forall>y \<in> set B. \<not> ?bad y" using None unfolding find_None_iff by blast
    moreover have "fst (hd B) \<le> fst y" if "y \<in> set B" for y
      using sorted that by (cases B) auto
    ultimately show thesis by (intro that [of "hd B"]) simp_all
  next
    case (Some x)
    then have "a = snd x\<lparr>gr_blocking_repos := map fst B\<rparr>"
      using assms by (auto simp: gate split: if_splits)
    then show thesis using find_sorted [OF sorted Some] by (intro that [of x]) auto
  qed
  then obtain r where "r \<in> set resolved" "?gate r = Some (snd x)" "fst x = repo_str (fst r)"
    using mem [of "fst x" "snd x"] by auto
  then show ?thesis
    using x(2) least mem by (intro exI [of _ r] exI [of _ "snd x"] conjI) fastforce+
qed

text \<open>
  C19: A federated call goes through exactly when no repository it resolves to blocks it; the
  answer otherwise names exactly the blocking repositories, in order of their ids, and is the
  refusal of one of them: of the first whose refusal is a terminal failure when there is one,
  of the first otherwise; and it is the same whatever order the repositories came in.
\<close>

theorem federated_gate_exact:
  assumes "distinct (map fst resolved)" "mset resolved' = mset resolved"
  shows "(gate_federated_tool_call now name resolved semantic = None
        \<longleftrightarrow> (\<forall>r \<in> set resolved. \<not> repo_blocked now name semantic r))
    \<and> (\<forall>a. gate_federated_tool_call now name resolved semantic = Some a \<longrightarrow>
         sorted (gr_blocking_repos a)
         \<and> set (gr_blocking_repos a) = (repo_str \<circ> fst) ` {r \<in> set resolved. repo_blocked now name semantic r}
         \<and> (\<exists>r g. r \<in> set resolved \<and> gate_tool_call name (repo_health_to_snapshot now (snd r)) semantic = Some g
              \<and> a = g\<lparr>gr_blocking_repos := gr_blocking_repos a\<rparr>
              \<and> (\<forall>r' \<in> set resolved. \<forall>g'. gate_tool_call name (repo_health_to_snapshot now (snd r')) semantic = Some g' \<longrightarrow>
                   gr_state g = ''unavailable_error'' \<and> gr_state g' \<noteq> ''unavailable_error''
                   \<or> (gr_state g = ''unavailable_error'' \<longleftrightarrow> gr_state g' = ''unavailable_error'')
                      \<and> repo_str (fst r) \<le> repo_str (fst r'))))
    \<and> gate_federated_tool_call now name resolved' semantic = gate_federated_tool_call now name resolved semantic"
proof (intro conjI allI impI)
  let ?key = "\<lambda>r. repo_str (fst r)"
  have "inj_on ?key (set resolved)"
    using assms(1) by (auto simp: distinct_map inj_on_def) (metis fst_conv repo_id.expand snd_conv)+
  then have "sort_key ?key resolved' = sort_key ?key resolved"
    using sort_key_eq_sort_key [of resolved' resolved ?key] assms(2) mset_eq_setD [OF assms(2)] by simp
  then show "gate_federated_tool_call now name resolved' semantic = gate_federated_tool_call now name resolved semantic"
    by (simp add: gate_federated_tool_call_def)
  fix a assume a: "gate_federated_tool_call now name resolved semantic = Some a"
  have "sorted (map ?key (filter P (sort_key ?key resolved)))" for P
    by (rule sorted_filter) simp
  then show "sorted (gr_blocking_repos a)" by (simp add: federated_gate_repos [OF a] comp_def)
  show "set (gr_blocking_repos a) = (repo_str \<circ> fst) ` {r \<in> set resolved. repo_blocked now name semantic r}"
    by (auto simp: federated_gate_repos [OF a])
qed (rule federated_gate_none, rule federated_gate_representative)

lemma federated_gate_exact_witness:
  "gate_federated_tool_call 0 ''get_blast_radius'' [(RepoId ''b'', HealthIndexing), (RepoId ''a'', HealthReady)] True
     = gate_federated_tool_call 0 ''get_blast_radius'' [(RepoId ''a'', HealthReady), (RepoId ''b'', HealthIndexing)] True"
  using federated_gate_exact [of "[(RepoId ''a'', HealthReady), (RepoId ''b'', HealthIndexing)]"
      "[(RepoId ''b'', HealthIndexing), (RepoId ''a'', HealthReady)]" 0 "''get_blast_radius''" True]
  by simp

section \<open>The startup hold\<close>

text \<open>
  The indexer records a finished pass and then marks the repository ready; the hold is taken
  and released by others at any time. The flags say whether a pass was recorded and marked.
\<close>

type_synonym hold_state = "health_gate \<times> bool \<times> bool"

inductive hold_step :: "hold_state \<Rightarrow> hold_state \<Rightarrow> bool" where
  recorded: "hold_step (g, i, m) (g, True, m)"
| marked: "i \<Longrightarrow> hold_step (g, i, m) (mark_ready g, i, True)"
| hold_taken: "hold_step (g, i, m) (set_hold True i g, i, m)"
| released: "hold_step (g, i, m) (set_hold False i g, i, m)"

code_pred hold_step .

inductive_cases hold_stepE: "hold_step s s'"

lemma hold_run:
  assumes "hold_step\<^sup>*\<^sup>* (gate_new HealthIndexing, False, False) s"
  shows "case s of (g, i, m) \<Rightarrow> (m \<longrightarrow> i) \<and> (m \<and> \<not> hg_hold g \<longrightarrow> hg_health g = HealthReady)
    \<and> (hg_health g = HealthReady \<longrightarrow> i) \<and> hg_health g \<in> {HealthReady, HealthIndexing}"
  using assms
proof (induction rule: rtranclp_induct)
  case (step s s')
  from step(2) show ?case
    by (rule hold_stepE) (use step(3) in \<open>auto simp: mark_ready_def set_hold_def Let_def\<close>)
qed (simp add: gate_new_def)

text \<open>
  However a finishing pass and the startup hold interleave, a repository whose pass was
  marked is ready as soon as nothing holds it, and it is never ready before a pass finished.
\<close>

theorem hold_never_sticks:
  assumes "hold_step\<^sup>*\<^sup>* (gate_new HealthIndexing, False, False) (g, i, m)"
  shows "(m \<and> \<not> hg_hold g \<longrightarrow> hg_health g = HealthReady) \<and> (hg_health g = HealthReady \<longrightarrow> i)"
  using hold_run [OF assms] by simp

lemma hold_never_sticks_witness:
  "hg_health (set_hold False True (mark_ready (set_hold True False (gate_new HealthIndexing)))) = HealthReady"
proof -
  let ?g = "set_hold True False (gate_new HealthIndexing)"
  have "hold_step (gate_new HealthIndexing, False, False) (?g, False, False)" by (rule hold_taken)
  moreover have "hold_step (?g, False, False) (?g, True, False)" by (rule recorded)
  moreover have "hold_step (?g, True, False) (mark_ready ?g, True, True)" by (rule marked) simp
  moreover have "hold_step (mark_ready ?g, True, True) (set_hold False True (mark_ready ?g), True, True)" by (rule released)
  ultimately have "hold_step\<^sup>*\<^sup>* (gate_new HealthIndexing, False, False) (set_hold False True (mark_ready ?g), True, True)"
    by (meson rtranclp.rtrancl_into_rtrancl rtranclp.rtrancl_refl)
  from hold_never_sticks [OF this] show ?thesis by (simp add: set_hold_def Let_def)
qed

end
