(* ===== verification/Job_Store.thy ===== *)
theory Job_Store
  imports Prelude "HOL-Library.Multiset" "HOL-Library.List_Lexorder" "HOL-Library.Char_ord" "HOL-Library.Product_Lexorder"
begin

text \<open>
  The registry of background jobs, \<^verbatim>\<open>src/src/server/job_store.rs\<close>: one map behind one lock, so
  every operation is a step. Job ids and clock readings are arguments. The cap on running
  jobs, the bound on kept results and which result is dropped are proved for every run.
\<close>

datatype job_state =
    JobRunning
  | JobCompleted bool "string option" "string option"

record job_info =
  ji_id :: string
  ji_created :: nat
  ji_state :: job_state

type_synonym job_map = "(string, job_info) hmap"

definition completed_job_retention :: nat where
  "completed_job_retention = 1000"

definition is_running :: "job_info \<Rightarrow> bool" where
  "is_running j \<longleftrightarrow> (case ji_state j of JobRunning \<Rightarrow> True | _ \<Rightarrow> False)"

definition running :: "job_map \<Rightarrow> nat" where
  "running m = length (filter is_running (hm_vals m))"

definition try_start :: "nat \<Rightarrow> string \<Rightarrow> nat \<Rightarrow> job_map \<Rightarrow> (nat + string) \<times> job_map" where
  "try_start cap nid now m =
     (if cap \<le> running m then (Inl (running m), m)
      else (Inr nid, hm_put nid \<lparr>ji_id = nid, ji_created = now, ji_state = JobRunning\<rparr> m))"

definition finished_jobs :: "job_map \<Rightarrow> (nat \<times> string) list" where
  "finished_jobs m = map (\<lambda>j. (ji_created j, ji_id j)) (filter (\<lambda>j. \<not> is_running j) (hm_vals m))"

definition evict_oldest_completed :: "nat \<Rightarrow> job_map \<Rightarrow> job_map" where
  "evict_oldest_completed keep m =
     (let done_jobs = finished_jobs m; excess = length done_jobs - keep in
      if excess = 0 then m
      else fold hm_del (map snd (take excess (sort done_jobs))) m)"

fun outcome_state :: "string + string \<Rightarrow> job_state" where
  "outcome_state (Inr out) = JobCompleted True (Some out) None"
| "outcome_state (Inl e) = JobCompleted False None (Some e)"

definition set_outcome :: "string \<Rightarrow> string + string \<Rightarrow> job_map \<Rightarrow> job_map" where
  "set_outcome nid outcome m =
     (case hm_get m nid of
        None \<Rightarrow> m
      | Some j \<Rightarrow> hm_put nid (j\<lparr>ji_state := outcome_state outcome\<rparr>) m)"

definition finish_job :: "string \<Rightarrow> string + string \<Rightarrow> job_map \<Rightarrow> job_map" where
  "finish_job nid outcome m = evict_oldest_completed completed_job_retention (set_outcome nid outcome m)"

definition interrupted :: job_state where
  "interrupted =
     JobCompleted False None (Some ''interrupted: the server restarted while this job was running'')"

definition restore_job :: "job_info \<Rightarrow> job_map \<Rightarrow> job_map" where
  "restore_job j m = hm_put (ji_id j) (if is_running j then j\<lparr>ji_state := interrupted\<rparr> else j) m"

definition restore_jobs :: "job_info list \<Rightarrow> job_map \<Rightarrow> job_map" where
  "restore_jobs persisted m = evict_oldest_completed completed_job_retention (fold restore_job persisted m)"

section \<open>Counting through the map\<close>

definition count_vals :: "('v \<Rightarrow> bool) \<Rightarrow> ('k, 'v) hmap \<Rightarrow> nat" where
  "count_vals P m = length (filter P (hm_vals m))"

lemma count_vals_put:
  "count_vals P (hm_put k v m) + (case hm_get m k of Some old \<Rightarrow> of_bool (P old) | None \<Rightarrow> 0)
     = count_vals P m + of_bool (P v)"
  by (induction m) (auto simp: count_vals_def hm_vals_def hm_put_def hm_get_def split: option.splits)

lemma count_vals_del:
  "hm_ok m \<Longrightarrow> count_vals P (hm_del k m) + (case hm_get m k of Some old \<Rightarrow> of_bool (P old) | None \<Rightarrow> 0) = count_vals P m"
proof (induction m)
  case (Cons e m)
  obtain a b where e: "e = (a, b)" by fastforce
  have ok: "hm_ok m" and a: "hm_get m a = None"
    using Cons.prems by (auto simp: e hm_ok_def hm_keys_def hm_get_def map_of_eq_None_iff)
  have "hm_del a m = m" using a by (induction m) (auto simp: hm_del_def hm_get_def AList.delete_eq split: if_splits)
  with Cons.IH [OF ok] a show ?case
    by (cases "a = k") (auto simp: e count_vals_def hm_vals_def hm_del_def hm_get_def AList.delete_eq)
qed (simp add: count_vals_def hm_vals_def hm_del_def hm_get_def)

lemma running_count: "running m = count_vals is_running m"
  by (simp add: running_def count_vals_def)

lemma finished_count: "length (finished_jobs m) = count_vals (\<lambda>j. \<not> is_running j) m"
  by (simp add: finished_jobs_def count_vals_def)

definition jobs_keyed :: "job_map \<Rightarrow> bool" where
  "jobs_keyed m \<longleftrightarrow> hm_ok m \<and> (\<forall>k j. hm_get m k = Some j \<longrightarrow> ji_id j = k)"

lemma jobs_keyedD: "jobs_keyed m \<Longrightarrow> hm_ok m" "jobs_keyed m \<Longrightarrow> hm_get m k = Some j \<Longrightarrow> ji_id j = k"
  by (auto simp: jobs_keyed_def)

lemma finished_iff:
  assumes "jobs_keyed m"
  shows "(t, k) \<in> set (finished_jobs m) \<longleftrightarrow> (\<exists>j. hm_get m k = Some j \<and> \<not> is_running j \<and> ji_created j = t)"
  using hm_vals_iff [OF jobs_keyedD(1) [OF assms]] jobs_keyedD(2) [OF assms] by (fastforce simp: finished_jobs_def)

lemma distinct_finished:
  assumes "jobs_keyed m"
  shows "distinct (map snd (finished_jobs m))"
proof -
  have "map ji_id (hm_vals m) = hm_keys m"
    using assms by (auto simp: hm_vals_def hm_keys_def jobs_keyed_def hm_mem_get [symmetric])
  then have "distinct (map ji_id (hm_vals m))" using assms by (simp add: jobs_keyed_def hm_ok_def)
  then show ?thesis by (simp add: finished_jobs_def comp_def distinct_map_filter)
qed

lemma jobs_keyed_put: "jobs_keyed m \<Longrightarrow> ji_id j = k \<Longrightarrow> jobs_keyed (hm_put k j m)"
  by (auto simp: jobs_keyed_def split: if_splits)

lemma jobs_keyed_del: "jobs_keyed m \<Longrightarrow> jobs_keyed (fold hm_del ks m)"
  by (auto simp: jobs_keyed_def hm.get_fold_del hm.ok_fold_del split: if_splits)

section \<open>Eviction\<close>

lemma evict_get:
  "hm_get (evict_oldest_completed keep m) k =
     (if k \<in> snd ` set (take (length (finished_jobs m) - keep) (sort (finished_jobs m))) then None else hm_get m k)"
  by (auto simp: evict_oldest_completed_def Let_def hm.get_fold_del)

lemma jobs_keyed_evict: "jobs_keyed m \<Longrightarrow> jobs_keyed (evict_oldest_completed keep m)"
  by (simp add: evict_oldest_completed_def Let_def jobs_keyed_del)

lemma fold_del_count:
  "hm_ok m \<Longrightarrow> distinct ks \<Longrightarrow> \<forall>k \<in> set ks. \<exists>j. hm_get m k = Some j \<and> P j \<Longrightarrow>
    count_vals P (fold hm_del ks m) + length ks = count_vals P m"
proof (induction ks arbitrary: m)
  case (Cons k ks)
  obtain j where j: "hm_get m k = Some j" "P j" using Cons.prems(3) by auto
  have "\<forall>k' \<in> set ks. \<exists>j. hm_get (hm_del k m) k' = Some j \<and> P j" using Cons.prems(2,3) by auto
  then have "count_vals P (fold hm_del ks (hm_del k m)) + length ks = count_vals P (hm_del k m)"
    using Cons.IH [of "hm_del k m"] Cons.prems(1,2) by simp
  with count_vals_del [OF Cons.prems(1), of P k] j show ?case by simp
qed simp

lemma fold_del_count_other:
  "hm_ok m \<Longrightarrow> \<forall>k \<in> set ks. \<forall>j. hm_get m k = Some j \<longrightarrow> \<not> P j \<Longrightarrow> count_vals P (fold hm_del ks m) = count_vals P m"
proof (induction ks arbitrary: m)
  case (Cons k ks)
  have "\<forall>k' \<in> set ks. \<forall>j. hm_get (hm_del k m) k' = Some j \<longrightarrow> \<not> P j" using Cons.prems(2) by (auto split: if_splits)
  then have "count_vals P (fold hm_del ks (hm_del k m)) = count_vals P (hm_del k m)"
    using Cons.IH [of "hm_del k m"] Cons.prems(1) by simp
  also have "\<dots> = count_vals P m"
    using count_vals_del [OF Cons.prems(1), of P k] Cons.prems(2) by (auto split: option.splits)
  finally show ?case by simp
qed simp

lemma take_finished:
  assumes "jobs_keyed m" "k \<in> snd ` set (take n (sort (finished_jobs m)))"
  shows "\<exists>j. hm_get m k = Some j \<and> \<not> is_running j"
proof -
  from assms(2) obtain t where "(t, k) \<in> set (finished_jobs m)" using in_set_takeD by fastforce
  then show ?thesis using finished_iff [OF assms(1)] by blast
qed

lemma evict_counts:
  assumes "jobs_keyed m"
  shows "running (evict_oldest_completed keep m) = running m"
    "length (finished_jobs (evict_oldest_completed keep m)) \<le> keep"
proof -
  let ?n = "length (finished_jobs m) - keep"
  let ?ks = "map snd (take ?n (sort (finished_jobs m)))"
  have evict: "evict_oldest_completed keep m = fold hm_del ?ks m"
    by (simp add: evict_oldest_completed_def Let_def)
  have fin: "\<exists>j. hm_get m k = Some j \<and> \<not> is_running j" if "k \<in> set ?ks" for k
    using that take_finished [OF assms] by (metis list.set_map)
  have "distinct (map snd (sort (finished_jobs m)))"
    using distinct_finished [OF assms] by (metis distinct_map distinct_sort set_sort)
  then have "distinct ?ks" by (metis distinct_take take_map)
  with fin show "length (finished_jobs (evict_oldest_completed keep m)) \<le> keep"
    using fold_del_count [OF jobs_keyedD(1) [OF assms], of ?ks "\<lambda>j. \<not> is_running j"]
    by (simp add: finished_count evict)
  have "\<forall>k \<in> set ?ks. \<forall>j. hm_get m k = Some j \<longrightarrow> \<not> is_running j" using fin by fastforce
  then show "running (evict_oldest_completed keep m) = running m"
    using fold_del_count_other [OF jobs_keyedD(1) [OF assms], of ?ks is_running] by (simp only: running_count evict)
qed

section \<open>Runs\<close>

datatype job_event = StartJob string nat | FinishJob string "string + string" | RestoreJobs "job_info list"

primrec job_step :: "nat \<Rightarrow> job_event \<Rightarrow> job_map \<Rightarrow> job_map" where
  "job_step cap (StartJob nid now) m = snd (try_start cap nid now m)"
| "job_step cap (FinishJob nid outcome) m = finish_job nid outcome m"
| "job_step cap (RestoreJobs js) m = restore_jobs js m"

definition jobs_ok :: "nat \<Rightarrow> job_map \<Rightarrow> bool" where
  "jobs_ok cap m \<longleftrightarrow> jobs_keyed m \<and> running m \<le> cap \<and> length (finished_jobs m) \<le> completed_job_retention"

lemma running_put: "running (hm_put k j m) \<le> running m + of_bool (is_running j)"
  using count_vals_put [of is_running k j m] by (simp add: running_count)

lemma finished_put_running:
  "is_running j \<Longrightarrow> length (finished_jobs (hm_put k j m)) \<le> length (finished_jobs m)"
  using count_vals_put [of "\<lambda>j. \<not> is_running j" k j m] by (simp add: finished_count)

lemma set_outcome_ok: "jobs_keyed m \<Longrightarrow> jobs_keyed (set_outcome nid out m) \<and> running (set_outcome nid out m) \<le> running m"
proof (cases "hm_get m nid")
  case (Some j)
  assume m: "jobs_keyed m"
  let ?j = "j\<lparr>ji_state := outcome_state out\<rparr>"
  have "\<not> is_running ?j" by (cases out) (simp_all add: is_running_def)
  then show ?thesis
    using running_put [of nid ?j m] jobs_keyed_put [OF m, of ?j nid] jobs_keyedD(2) [OF m Some]
    by (simp add: set_outcome_def Some)
qed (simp add: set_outcome_def)

lemma restore_fold_ok: "jobs_keyed m \<Longrightarrow> jobs_keyed (fold restore_job js m) \<and> running (fold restore_job js m) \<le> running m"
proof (induction js arbitrary: m)
  case (Cons j js)
  let ?j = "if is_running j then j\<lparr>ji_state := interrupted\<rparr> else j"
  have "\<not> is_running ?j" by (simp add: is_running_def interrupted_def)
  then have "jobs_keyed (restore_job j m)" "running (restore_job j m) \<le> running m"
    using running_put [of "ji_id j" ?j m] jobs_keyed_put [OF Cons.prems, of ?j "ji_id j"] by (auto simp: restore_job_def)
  with Cons.IH [of "restore_job j m"] show ?case by simp
qed simp

lemma job_step_ok:
  assumes "jobs_ok cap m"
  shows "jobs_ok cap (job_step cap e m)"
proof (cases e)
  case (StartJob nid now)
  let ?j = "\<lparr>ji_id = nid, ji_created = now, ji_state = JobRunning\<rparr>"
  have j: "is_running ?j" by (simp add: is_running_def)
  then show ?thesis
    using assms running_put [of nid ?j m] finished_put_running [OF j, of nid m] jobs_keyed_put [of m ?j nid] StartJob
    by (auto simp: jobs_ok_def try_start_def)
next
  case (FinishJob nid out)
  with assms set_outcome_ok [of m nid out] show ?thesis
    by (auto simp: jobs_ok_def finish_job_def evict_counts jobs_keyed_evict)
next
  case (RestoreJobs js)
  with assms restore_fold_ok [of m js] show ?thesis
    by (auto simp: jobs_ok_def restore_jobs_def evict_counts jobs_keyed_evict)
qed

interpretation jobs: machine "job_step cap" "\<lambda>_. True" "jobs_ok cap" for cap
  by unfold_locales (rule job_step_ok)

lemma jobs_empty_ok: "jobs_ok cap hm_empty"
  by (simp add: jobs_ok_def jobs_keyed_def running_def finished_jobs_def hm_vals_def hm_empty_def hm_ok_def
      hm_keys_def hm_get_def)

text \<open>
  C20: Whatever starts, completions and restarts the registry has seen, at most \<open>cap\<close> jobs
  run and at most 1000 results are kept; a start is refused exactly when \<open>cap\<close> jobs run, and
  then changes nothing; what a restart loads runs no job that was not running before; and
  an id names its own job.
\<close>

theorem job_registry_bounds:
  fixes es :: "job_event list" and cap :: nat
  defines "m \<equiv> fold (job_step cap) es hm_empty"
  shows "running m \<le> cap \<and> length (finished_jobs m) \<le> completed_job_retention
    \<and> (fst (try_start cap nid now m) = Inl (running m) \<longleftrightarrow> running m = cap)
    \<and> (running m = cap \<longrightarrow> snd (try_start cap nid now m) = m)
    \<and> running (restore_jobs js m) \<le> running m
    \<and> (\<forall>k j. hm_get m k = Some j \<longrightarrow> ji_id j = k)"
proof -
  have "jobs_ok cap m" unfolding m_def by (rule jobs.run_inv) (simp_all add: jobs_empty_ok list_all_iff)
  then show ?thesis
    using restore_fold_ok [of m js] by (auto simp: jobs_ok_def jobs_keyedD(2) try_start_def restore_jobs_def evict_counts)
qed

lemma job_registry_bounds_witness:
  "fst (try_start 1 ''b'' 7 (fold (job_step 1) [StartJob ''a'' 3] hm_empty)) = Inl 1"
  using job_registry_bounds [where cap = 1 and es = "[StartJob ''a'' 3]" and nid = "''b''" and now = 7]
  by (simp add: try_start_def running_def is_running_def hm_put_def hm_empty_def hm_vals_def)

section \<open>Which result is dropped\<close>

lemma in_take_iff:
  fixes xs :: "'a :: linorder list"
  assumes "sorted xs" "distinct xs" "x \<in> set xs" "n \<le> length xs"
  shows "x \<in> set (take n xs) \<longleftrightarrow> length xs - n \<le> length (filter (\<lambda>y. x < y) xs)"
proof -
  obtain i where i: "i < length xs" "x = xs ! i" using assms(3) by (auto simp: in_set_conv_nth)
  have "filter (\<lambda>y. x < y) xs = drop (Suc i) xs"
  proof -
    have less: "xs ! a < xs ! b" if "a < b" "b < length xs" for a b
    proof -
      have "sorted_wrt (<) xs" using assms(1,2) by (simp add: strict_sorted_iff)
      then show ?thesis using that by (rule sorted_wrt_nth_less)
    qed
    have low: "\<not> x < y" if y: "y \<in> set (take (Suc i) xs)" for y
    proof -
      obtain a where a: "a < Suc i" "y = xs ! a" using y i(1) by (auto simp: in_set_conv_nth)
      then show ?thesis using less [of a i] i by (cases "a = i") auto
    qed
    have high: "x < y" if y: "y \<in> set (drop (Suc i) xs)" for y
    proof -
      obtain a where a: "a < length xs - Suc i" "y = xs ! (Suc i + a)" using y by (auto simp: in_set_conv_nth)
      then have "Suc i + a < length xs" by simp
      then show ?thesis using less [of i "Suc i + a"] i(2) a(2) by simp
    qed
    have "filter (\<lambda>y. x < y) (take (Suc i) xs) = []" using low by (auto simp: filter_empty_conv)
    moreover have "filter (\<lambda>y. x < y) (drop (Suc i) xs) = drop (Suc i) xs" using high by (auto simp: filter_id_conv)
    ultimately show ?thesis by (metis append_Nil append_take_drop_id filter_append)
  qed
  moreover have "x \<in> set (take n xs) \<longleftrightarrow> i < n"
    using i assms(2) by (auto simp: in_set_conv_nth nth_eq_iff_index_eq)
  ultimately show ?thesis using i assms(4) by auto
qed

definition newer_finished :: "job_map \<Rightarrow> nat \<times> string \<Rightarrow> nat" where
  "newer_finished m j = length (filter (\<lambda>d. j < d) (finished_jobs m))"

lemma evicted_iff:
  assumes "jobs_keyed m" "(t, k) \<in> set (finished_jobs m)"
  shows "k \<in> snd ` set (take (length (finished_jobs m) - keep) (sort (finished_jobs m))) \<longleftrightarrow> keep \<le> newer_finished m (t, k)"
proof -
  let ?xs = "sort (finished_jobs m)" and ?n = "length (finished_jobs m) - keep"
  have dist: "distinct (finished_jobs m)" using distinct_finished [OF assms(1)] by (simp add: distinct_map)
  have only: "d = (t, k)" if "d \<in> set ?xs" "snd d = k" for d
  proof -
    have "(fst d, k) \<in> set (finished_jobs m)" using that by (metis prod.collapse set_sort)
    with assms(2) have "fst d = t" unfolding finished_iff [OF assms(1)] by auto
    with that(2) show ?thesis by (metis prod.collapse)
  qed
  have "k \<in> snd ` set (take ?n ?xs) \<longleftrightarrow> (t, k) \<in> set (take ?n ?xs)"
  proof
    assume "k \<in> snd ` set (take ?n ?xs)"
    then obtain d where "d \<in> set (take ?n ?xs)" "snd d = k" by auto
    moreover from this have "d = (t, k)" by (intro only) (auto dest: in_set_takeD)
    ultimately show "(t, k) \<in> set (take ?n ?xs)" by simp
  next
    assume "(t, k) \<in> set (take ?n ?xs)"
    then show "k \<in> snd ` set (take ?n ?xs)" by (rule rev_image_eqI) simp
  qed
  also have "\<dots> \<longleftrightarrow> length ?xs - ?n \<le> length (filter (\<lambda>y. (t, k) < y) ?xs)"
    by (rule in_take_iff) (use dist assms(2) in simp_all)
  also have "length (filter (\<lambda>y. (t, k) < y) ?xs) = newer_finished m (t, k)"
    unfolding newer_finished_def by (metis mset_filter mset_sort size_mset)
  finally have *: "k \<in> snd ` set (take ?n ?xs) \<longleftrightarrow> length ?xs - ?n \<le> newer_finished m (t, k)" .
  have "newer_finished m (t, k) < length (finished_jobs m)"
    unfolding newer_finished_def using assms(2) by (intro length_filter_less [of "(t, k)"]) simp_all
  with * show ?thesis by auto
qed

text \<open>
  After a job finishes every job is still there with its state, the finished one with its
  outcome, except the results with at least 1000 newer ones among those finished. "Newer" is
  by creation: the result of a job that ran long may be the one that goes at once.
\<close>

theorem finish_drops_only_old_results:
  assumes "jobs_ok cap m" "hm_get (set_outcome nid outcome m) k = Some j"
  shows "hm_get (finish_job nid outcome m) k =
      (if \<not> is_running j \<and> completed_job_retention \<le> newer_finished (set_outcome nid outcome m) (ji_created j, k)
       then None else Some j)
    \<and> (k \<noteq> nid \<longrightarrow> hm_get m k = Some j)
    \<and> (k = nid \<longrightarrow> ji_state j = outcome_state outcome)"
proof -
  let ?m = "set_outcome nid outcome m"
  have keyed: "jobs_keyed ?m" using assms(1) set_outcome_ok by (auto simp: jobs_ok_def)
  have "k \<in> snd ` set (take (length (finished_jobs ?m) - completed_job_retention) (sort (finished_jobs ?m)))
      \<longleftrightarrow> \<not> is_running j \<and> completed_job_retention \<le> newer_finished ?m (ji_created j, k)"
  proof (cases "is_running j")
    case True
    then show ?thesis using take_finished [OF keyed, of k] assms(2) by auto
  next
    case False
    then have "(ji_created j, k) \<in> set (finished_jobs ?m)" using finished_iff [OF keyed] assms(2) by blast
    from evicted_iff [OF keyed this] False show ?thesis by simp
  qed
  then have "hm_get (finish_job nid outcome m) k =
      (if \<not> is_running j \<and> completed_job_retention \<le> newer_finished ?m (ji_created j, k) then None else Some j)"
    unfolding finish_job_def evict_get using assms(2) by auto
  moreover have "(k \<noteq> nid \<longrightarrow> hm_get m k = Some j) \<and> (k = nid \<longrightarrow> ji_state j = outcome_state outcome)"
    using assms(2) by (auto simp: set_outcome_def split: option.splits)
  ultimately show ?thesis by blast
qed

lemma finish_drops_only_old_results_witness:
  "hm_get (finish_job ''a'' (Inr ''done'') [(''a'', \<lparr>ji_id = ''a'', ji_created = 3, ji_state = JobRunning\<rparr>)]) ''a''
     = Some \<lparr>ji_id = ''a'', ji_created = 3, ji_state = JobCompleted True (Some ''done'') None\<rparr>"
proof -
  let ?m = "[(''a'', \<lparr>ji_id = ''a'', ji_created = 3, ji_state = JobRunning\<rparr>)]"
  let ?j = "\<lparr>ji_id = ''a'', ji_created = 3, ji_state = JobCompleted True (Some ''done'') None\<rparr>"
  have ok: "jobs_ok 1 ?m"
    by (auto simp: jobs_ok_def jobs_keyed_def running_def finished_jobs_def hm_vals_def hm_ok_def hm_keys_def
        hm_get_def is_running_def)
  have get: "hm_get (set_outcome ''a'' (Inr ''done'') ?m) ''a'' = Some ?j" by (simp add: set_outcome_def hm_get_def hm_put_def)
  have "newer_finished (set_outcome ''a'' (Inr ''done'') ?m) (3, ''a'') = 0"
    by (simp add: newer_finished_def finished_jobs_def set_outcome_def hm_get_def hm_put_def hm_vals_def is_running_def)
  with finish_drops_only_old_results [OF ok get] show ?thesis by (simp add: completed_job_retention_def)
qed

end
