(* ===== verification/Auth.thy ===== *)
theory Auth
  imports Rust_Text Prelude Complex_Main "HOL-Library.Word"
begin

text \<open>
  Bearer keys and the request budget, \<^verbatim>\<open>src/src/server/auth.rs\<close>. The environment is an argument,
  a clock reading a number of nanoseconds, and a \<open>f64\<close> a rational. The order a \<open>HashMap\<close> is
  scanned in is the parameter \<open>iter\<close>.
\<close>

unbundle bit_operations_syntax

section \<open>Configuration\<close>

record bucket =
  bk_tokens :: rat
  bk_last_refill :: nat

type_synonym buckets = "(string, bucket) hmap"

record rate_limit =
  rl_rpm :: nat
  rl_buckets :: buckets

definition rate_limit_new :: "nat \<Rightarrow> rate_limit" where
  "rate_limit_new rpm = \<lparr>rl_rpm = rpm, rl_buckets = hm_empty\<rparr>"

record auth_state =
  au_api_keys :: "string list option"
  au_rate_limit :: "rate_limit option"

definition auth_from_env :: "(string \<Rightarrow> string option) \<Rightarrow> auth_state" where
  "auth_from_env env =
     (let keys = map_option (\<lambda>raw. filter (\<lambda>s. s \<noteq> []) (map str_trim (split_on (CHR '','') raw))) (env ''LAIN_API_KEYS'');
          api_keys = (case keys of Some [] \<Rightarrow> None | _ \<Rightarrow> keys);
          disabled = (case env ''LAIN_RATE_LIMIT'' of Some v \<Rightarrow> eq_ignore_ascii_case v ''off'' | None \<Rightarrow> False);
          explicit_rpm = Option.bind (env ''LAIN_RATE_LIMIT_RPM'') (parse_unsigned (2 ^ 32)) in
      \<lparr>au_api_keys = api_keys,
       au_rate_limit =
         (if disabled then None
          else case explicit_rpm of
                 Some rpm \<Rightarrow> if rpm = 0 then None else Some (rate_limit_new rpm)
               | None \<Rightarrow> if api_keys \<noteq> None then Some (rate_limit_new 60) else None)\<rparr>)"

definition auth_dev_mode :: auth_state where
  "auth_dev_mode = \<lparr>au_api_keys = None, au_rate_limit = None\<rparr>"

section \<open>Bearer tokens\<close>

datatype auth_error = MissingHeader | MalformedHeader | InvalidKey

fun http_status :: "auth_error \<Rightarrow> nat" where
  "http_status MissingHeader = 401"
| "http_status MalformedHeader = 401"
| "http_status InvalidKey = 401"

fun auth_message :: "auth_error \<Rightarrow> string" where
  "auth_message MissingHeader = ''missing Authorization: Bearer <key> header''"
| "auth_message MalformedHeader = ''Authorization header must be '' @ [CHR 0x27] @ ''Bearer <key>'' @ [CHR 0x27]"
| "auth_message InvalidKey = ''invalid API key''"

definition bearer_token :: "string \<Rightarrow> string option" where
  "bearer_token header =
     (case split_once (CHR '' '') header of
        None \<Rightarrow> None
      | Some (a, b) \<Rightarrow>
          let scheme = str_trim a; token = str_trim b in
          if \<not> eq_ignore_ascii_case scheme ''Bearer'' \<or> token = [] then None else Some token)"

definition key_bytes :: "string \<Rightarrow> 8 word list" where
  "key_bytes s = map of_char s"

definition constant_time_eq :: "8 word list \<Rightarrow> 8 word list \<Rightarrow> bool" where
  "constant_time_eq a b =
     (if length a \<noteq> length b then False
      else fold (\<lambda>(x, y) diff. diff OR (x XOR y)) (zip a b) 0 = 0)"

definition check_bearer :: "auth_state \<Rightarrow> string option \<Rightarrow> auth_error + unit" where
  "check_bearer au header =
     (case au_api_keys au of
        None \<Rightarrow> Inr ()
      | Some keys \<Rightarrow>
          (case header of
             None \<Rightarrow> Inl MissingHeader
           | Some h \<Rightarrow>
               (case bearer_token h of
                  None \<Rightarrow> Inl MalformedHeader
                | Some token \<Rightarrow>
                    if list_ex (\<lambda>k. constant_time_eq (key_bytes k) (key_bytes token)) keys then Inr ()
                    else Inl InvalidKey)))"

section \<open>The token bucket\<close>

definition max_buckets :: nat where
  "max_buckets = 4096"

fun oldest :: "(string \<times> bucket) list \<Rightarrow> (string \<times> bucket) option" where
  "oldest [] = None"
| "oldest (kb # rest) =
     (case oldest rest of
        None \<Rightarrow> Some kb
      | Some kb' \<Rightarrow> if bk_last_refill (snd kb') < bk_last_refill (snd kb) then Some kb' else Some kb)"

definition make_room :: "(buckets \<Rightarrow> (string \<times> bucket) list) \<Rightarrow> string \<Rightarrow> buckets \<Rightarrow> buckets" where
  "make_room iter key m =
     (if hm_get m key = None \<and> max_buckets \<le> length m
      then (case oldest (iter m) of Some (k, _) \<Rightarrow> hm_del k m | None \<Rightarrow> m)
      else m)"

definition refill_rate :: "nat \<Rightarrow> rat" where
  "refill_rate rpm = of_nat rpm / 60"

definition seconds_between :: "nat \<Rightarrow> nat \<Rightarrow> rat" where
  "seconds_between earlier now = of_nat (now - earlier) / 10 ^ 9"

definition refilled :: "nat \<Rightarrow> nat \<Rightarrow> bucket \<Rightarrow> rat" where
  "refilled rpm now b = min (bk_tokens b + seconds_between (bk_last_refill b) now * refill_rate rpm) (of_nat rpm)"

text \<open>With no refill at all the division is by zero and the cast from infinity saturates.\<close>

definition retry_after :: "nat \<Rightarrow> rat \<Rightarrow> nat" where
  "retry_after rpm tokens =
     (if rpm = 0 then 2 ^ 64 - 1 else max 1 (nat \<lceil>(1 - tokens) / refill_rate rpm\<rceil>))"

definition try_consume_at ::
    "(buckets \<Rightarrow> (string \<times> bucket) list) \<Rightarrow> string \<Rightarrow> nat \<Rightarrow> rate_limit \<Rightarrow> (nat + unit) \<times> rate_limit" where
  "try_consume_at iter key now rl =
     (let m = make_room iter key (rl_buckets rl);
          b = (case hm_get m key of Some b \<Rightarrow> b | None \<Rightarrow> \<lparr>bk_tokens = of_nat (rl_rpm rl), bk_last_refill = now\<rparr>);
          tokens = refilled (rl_rpm rl) now b in
      if 1 \<le> tokens
      then (Inr (), rl\<lparr>rl_buckets := hm_put key \<lparr>bk_tokens = tokens - 1, bk_last_refill = now\<rparr> m\<rparr>)
      else (Inl (retry_after (rl_rpm rl) tokens),
            rl\<lparr>rl_buckets := hm_put key \<lparr>bk_tokens = tokens, bk_last_refill = now\<rparr> m\<rparr>))"

definition check_rate ::
    "(buckets \<Rightarrow> (string \<times> bucket) list) \<Rightarrow> string \<Rightarrow> nat \<Rightarrow> auth_state \<Rightarrow> (nat + unit) \<times> auth_state" where
  "check_rate iter key now au =
     (case au_rate_limit au of
        None \<Rightarrow> (Inr (), au)
      | Some rl \<Rightarrow> let (r, rl') = try_consume_at iter key now rl in (r, au\<lparr>au_rate_limit := Some rl'\<rparr>))"

section \<open>Comparing keys\<close>

lemma word_or_zero: "(a :: 'a :: len word) OR b = 0 \<longleftrightarrow> a = 0 \<and> b = 0"
  by (auto simp: bit_eq_iff bit_simps)

lemma word_xor_zero: "(a :: 'a :: len word) XOR b = 0 \<longleftrightarrow> a = b"
  by (metis xor.assoc xor.right_neutral xor_self_eq)

lemma fold_diff: "length a = length b \<Longrightarrow> fold (\<lambda>(x, y) diff. diff OR (x XOR y)) (zip a b) d = (0 :: 8 word) \<longleftrightarrow> d = 0 \<and> a = b"
proof (induction a b arbitrary: d rule: list_induct2)
  case (Cons x xs y ys)
  have "fold (\<lambda>(x, y) diff. diff OR (x XOR y)) (zip (x # xs) (y # ys)) d
      = fold (\<lambda>(x, y) diff. diff OR (x XOR y)) (zip xs ys) (d OR (x XOR y))" by simp
  then show ?case by (simp only: Cons.IH word_or_zero word_xor_zero list.inject) blast
qed simp

lemma constant_time_eq_iff: "constant_time_eq a b \<longleftrightarrow> a = b"
  using fold_diff [of a b 0] by (auto simp: constant_time_eq_def)

lemma key_bytes_inj: "key_bytes s = key_bytes t \<Longrightarrow> s = t"
proof -
  have "of_char c = (word_of_nat (of_char c) :: 8 word)" for c by (simp add: of_nat_of_char)
  then have "unat (of_char c :: 8 word) = of_char c" for c by (simp add: unat_of_nat)
  then have "inj (of_char :: char \<Rightarrow> 8 word)" by (metis injI of_char_eq_iff)
  then show "key_bytes s = key_bytes t \<Longrightarrow> s = t" by (simp add: key_bytes_def inj_map_eq_map)
qed

section \<open>The budget\<close>

definition request :: "(buckets \<Rightarrow> (string \<times> bucket) list) \<Rightarrow> string \<times> nat \<Rightarrow> rate_limit \<Rightarrow> rate_limit" where
  "request iter e rl = snd (try_consume_at iter (fst e) (snd e) rl)"

primrec accepted ::
    "(buckets \<Rightarrow> (string \<times> bucket) list) \<Rightarrow> string \<Rightarrow> (string \<times> nat) list \<Rightarrow> rate_limit \<Rightarrow> nat" where
  "accepted iter k [] rl = 0"
| "accepted iter k (e # es) rl =
     (if fst e = k \<and> fst (try_consume_at iter (fst e) (snd e) rl) = Inr () then 1 else 0)
     + accepted iter k es (request iter e rl)"

definition buckets_ok :: "rate_limit \<Rightarrow> bool" where
  "buckets_ok rl \<longleftrightarrow> hm_ok (rl_buckets rl) \<and> (\<forall>k b. hm_get (rl_buckets rl) k = Some b \<longrightarrow> 0 \<le> bk_tokens b)"

lemma refill_rate_nonneg [simp]: "0 \<le> refill_rate rpm"
  by (simp add: refill_rate_def)

lemma seconds_nonneg [simp]: "0 \<le> seconds_between a b"
  by (simp add: seconds_between_def)

lemma refilled_nonneg: "0 \<le> bk_tokens b \<Longrightarrow> 0 \<le> refilled rpm now b"
  by (simp add: refilled_def)

lemma make_room_get:
  "hm_get (make_room iter key m) k = Some b \<Longrightarrow> hm_get m k = Some b"
  "hm_get (make_room iter key m) key = hm_get m key"
  "hm_ok m \<Longrightarrow> hm_ok (make_room iter key m)"
  by (auto simp: make_room_def split: if_splits option.splits)

lemma request_fields: "rl_rpm (request iter e rl) = rl_rpm rl"
  by (simp add: request_def try_consume_at_def Let_def)

definition opening_bucket :: "string \<Rightarrow> nat \<Rightarrow> rate_limit \<Rightarrow> bucket" where
  "opening_bucket k now rl =
     (case hm_get (rl_buckets rl) k of Some b \<Rightarrow> b | None \<Rightarrow> \<lparr>bk_tokens = of_nat (rl_rpm rl), bk_last_refill = now\<rparr>)"

lemma try_consume_fields:
  "fst (try_consume_at iter k now rl) =
     (let t = refilled (rl_rpm rl) now (opening_bucket k now rl) in
      if 1 \<le> t then Inr () else Inl (retry_after (rl_rpm rl) t))"
  "rl_buckets (request iter (k, now) rl) =
     (let t = refilled (rl_rpm rl) now (opening_bucket k now rl) in
      hm_put k \<lparr>bk_tokens = (if 1 \<le> t then t - 1 else t), bk_last_refill = now\<rparr> (make_room iter k (rl_buckets rl)))"
  by (simp_all add: try_consume_at_def request_def Let_def opening_bucket_def make_room_get(2))

lemma request_ok:
  assumes "buckets_ok rl"
  shows "buckets_ok (request iter e rl)"
proof (cases e)
  case (Pair k now)
  let ?t = "refilled (rl_rpm rl) now (opening_bucket k now rl)"
  have ok: "hm_ok (rl_buckets rl)" and nn: "\<And>k b. hm_get (rl_buckets rl) k = Some b \<Longrightarrow> 0 \<le> bk_tokens b"
    using assms by (auto simp: buckets_ok_def)
  have "0 \<le> bk_tokens (opening_bucket k now rl)" by (auto simp: opening_bucket_def nn split: option.split)
  then have t: "0 \<le> (if 1 \<le> ?t then ?t - 1 else ?t)" by (simp add: refilled_nonneg)
  have "0 \<le> bk_tokens b" if "hm_get (rl_buckets (request iter e rl)) k' = Some b" for k' b
  proof (cases "k' = k")
    case True
    then have "b = \<lparr>bk_tokens = (if 1 \<le> ?t then ?t - 1 else ?t), bk_last_refill = now\<rparr>"
      using that by (simp add: Pair try_consume_fields(2) Let_def)
    then show ?thesis using t by simp
  next
    case False
    then have "hm_get (make_room iter k (rl_buckets rl)) k' = Some b"
      using that by (simp add: Pair try_consume_fields(2) Let_def)
    then show ?thesis by (rule nn [OF make_room_get(1)])
  qed
  moreover have "hm_ok (rl_buckets (request iter e rl))"
    using ok by (simp add: Pair try_consume_fields(2) Let_def make_room_get(3))
  ultimately show ?thesis by (auto simp: buckets_ok_def)
qed

interpretation budget: machine "request iter" "\<lambda>_. True" buckets_ok for iter
  by unfold_locales (rule request_ok)

lemma buckets_new_ok: "buckets_ok (rate_limit_new rpm)"
  by (simp add: buckets_ok_def rate_limit_new_def)

lemma run_rpm: "rl_rpm (fold (request iter) es rl) = rl_rpm rl"
  by (induction es arbitrary: rl) (simp_all add: request_fields)

lemma make_room_idle:
  assumes "hm_ok m" "set (hm_keys m) \<subseteq> K" "key \<in> K" "finite K" "card K \<le> max_buckets"
  shows "make_room iter key m = m"
proof (cases "hm_get m key")
  case None
  then have "key \<notin> set (hm_keys m)" by (simp add: hm_keys_iff)
  with assms(2,3) have "set (hm_keys m) \<subset> K" by blast
  then have "card (set (hm_keys m)) < card K" using assms(4) by (rule psubset_card_mono [rotated])
  moreover have "card (set (hm_keys m)) = length m"
    using assms(1) by (simp add: hm_ok_def hm_keys_def distinct_card [of "map fst m", simplified])
  ultimately show ?thesis using assms(5) by (simp add: make_room_def)
qed (simp add: make_room_def)

text \<open>What a caller may still get accepted up to \<open>t1\<close>, seen from \<open>t0\<close>: the refill before \<open>t0\<close> counts only up to a full bucket.\<close>

definition budget_left :: "nat \<Rightarrow> nat \<Rightarrow> string \<Rightarrow> rate_limit \<Rightarrow> rat" where
  "budget_left t0 t1 k rl =
     (case hm_get (rl_buckets rl) k of
        Some b \<Rightarrow> refilled (rl_rpm rl) t0 b + seconds_between (max t0 (bk_last_refill b)) t1 * refill_rate (rl_rpm rl)
      | None \<Rightarrow> of_nat (rl_rpm rl) + seconds_between t0 t1 * refill_rate (rl_rpm rl))"

lemma seconds_split: "a \<le> b \<Longrightarrow> b \<le> c \<Longrightarrow> seconds_between a b + seconds_between b c = seconds_between a c"
  by (simp add: seconds_between_def of_nat_diff diff_divide_distrib)

lemma seconds_mono: "a \<le> b \<Longrightarrow> seconds_between b c \<le> seconds_between a c"
  by (simp add: seconds_between_def divide_right_mono)

lemma refilled_le: "refilled rpm now b \<le> of_nat rpm"
  by (simp add: refilled_def)

lemma refilled_later:
  assumes "bk_last_refill b \<le> now" "t0 \<le> now"
  shows "refilled rpm now b \<le> refilled rpm t0 b + seconds_between (max t0 (bk_last_refill b)) now * refill_rate rpm"
proof (cases "bk_last_refill b \<le> t0")
  case True
  have "bk_tokens b + seconds_between (bk_last_refill b) now * refill_rate rpm
      = bk_tokens b + seconds_between (bk_last_refill b) t0 * refill_rate rpm + seconds_between t0 now * refill_rate rpm"
    using seconds_split [OF True assms(2)] by (metis add.assoc distrib_right)
  moreover have "0 \<le> seconds_between t0 now * refill_rate rpm" by simp
  ultimately show ?thesis unfolding refilled_def max_absorb1 [OF True] by linarith
next
  case False
  then have False: "t0 < bk_last_refill b" by simp
  then have "seconds_between (bk_last_refill b) t0 * refill_rate rpm = 0" by (simp add: seconds_between_def)
  moreover have "0 \<le> seconds_between (bk_last_refill b) now * refill_rate rpm" by simp
  ultimately show ?thesis unfolding refilled_def max_absorb2 [OF less_imp_le [OF False]] by linarith
qed

lemma budget_bound: "budget_left t0 t1 k rl \<le> of_nat (rl_rpm rl) + seconds_between t0 t1 * refill_rate (rl_rpm rl)"
  using mult_right_mono [OF seconds_mono [OF max.cobounded1], of "refill_rate (rl_rpm rl)"]
  by (auto simp: budget_left_def intro!: add_mono refilled_le split: option.split)

lemma request_spends:
  assumes room: "make_room iter k (rl_buckets rl) = rl_buckets rl" and t: "t0 \<le> now" "now \<le> t1"
    and last: "\<And>b. hm_get (rl_buckets rl) k = Some b \<Longrightarrow> bk_last_refill b \<le> now"
  shows "budget_left t0 t1 k (request iter (k, now) rl) + (if fst (try_consume_at iter k now rl) = Inr () then 1 else 0)
    \<le> budget_left t0 t1 k rl"
proof -
  let ?r = "refill_rate (rl_rpm rl)" and ?b = "opening_bucket k now rl"
  let ?t = "refilled (rl_rpm rl) now ?b"
  have "refilled (rl_rpm rl) t0 \<lparr>bk_tokens = u, bk_last_refill = now\<rparr> = u" if "u \<le> ?t" for u
    using that t(1) refilled_le [of "rl_rpm rl" now ?b] by (simp add: refilled_def seconds_between_def)
  then have after: "budget_left t0 t1 k (request iter (k, now) rl) + (if fst (try_consume_at iter k now rl) = Inr () then 1 else 0)
      = ?t + seconds_between now t1 * ?r"
    using t(1) by (simp add: budget_left_def try_consume_fields Let_def room request_fields max_absorb2)
  show ?thesis
  proof (cases "hm_get (rl_buckets rl) k")
    case None
    have "?t + seconds_between now t1 * ?r \<le> of_nat (rl_rpm rl) + seconds_between t0 t1 * ?r"
      by (intro add_mono refilled_le mult_right_mono seconds_mono t(1)) simp
    then show ?thesis by (simp add: after) (simp add: budget_left_def None)
  next
    case (Some b)
    then have b: "?b = b" by (simp add: opening_bucket_def)
    have le: "max t0 (bk_last_refill b) \<le> now" using t(1) last [OF Some] by simp
    have "?t + seconds_between now t1 * ?r
        \<le> refilled (rl_rpm rl) t0 b + (seconds_between (max t0 (bk_last_refill b)) now + seconds_between now t1) * ?r"
      using refilled_later [OF last [OF Some] t(1), of "rl_rpm rl"] by (simp add: b distrib_right)
    also have "\<dots> = budget_left t0 t1 k rl"
      by (simp only: seconds_split [OF le t(2)]) (simp add: budget_left_def Some)
    finally show ?thesis by (simp add: after)
  qed
qed

definition settled :: "string set \<Rightarrow> (string \<times> nat) list \<Rightarrow> rate_limit \<Rightarrow> bool" where
  "settled K es rl \<longleftrightarrow> buckets_ok rl \<and> set (hm_keys (rl_buckets rl)) \<union> fst ` set es \<subseteq> K
     \<and> (\<forall>k b. hm_get (rl_buckets rl) k = Some b \<longrightarrow> (\<forall>e\<in>set es. bk_last_refill b \<le> snd e))"

lemma settled_room:
  assumes "settled K (e # es) rl" "finite K" "card K \<le> max_buckets"
  shows "make_room iter (fst e) (rl_buckets rl) = rl_buckets rl"
  using assms by (intro make_room_idle [of _ K]) (auto simp: settled_def buckets_ok_def)

lemma settled_step:
  assumes s: "settled K (e # es) rl" and K: "finite K" "card K \<le> max_buckets" and sorted: "sorted (map snd (e # es))"
  shows "settled K es (request iter e rl)"
proof -
  obtain k now where e: "e = (k, now)" by (cases e)
  have room: "make_room iter k (rl_buckets rl) = rl_buckets rl" using settled_room [OF s K] by (simp add: e)
  have fields: "hm_get (rl_buckets rl) k' = Some b \<Longrightarrow> e' \<in> set es \<Longrightarrow> bk_last_refill b \<le> snd e'" for k' b e'
    using s unfolding settled_def by auto
  have "buckets_ok (request iter e rl)" using s by (intro request_ok) (simp add: settled_def)
  moreover have "set (hm_keys (rl_buckets (request iter e rl))) \<union> fst ` set es \<subseteq> K"
  proof -
    have "k' \<in> K" if "k' \<in> set (hm_keys (rl_buckets (request iter e rl)))" for k'
    proof (cases "k' = k")
      case True
      then show ?thesis using s by (simp add: settled_def e)
    next
      case False
      then have "k' \<in> set (hm_keys (rl_buckets rl))"
        using that by (simp add: hm_keys_iff e try_consume_fields(2) Let_def room)
      then show ?thesis using s by (auto simp: settled_def)
    qed
    moreover have "fst ` set es \<subseteq> K" using s by (simp add: settled_def)
    ultimately show ?thesis by blast
  qed
  moreover have "bk_last_refill b \<le> snd e'" if "hm_get (rl_buckets (request iter e rl)) k' = Some b" "e' \<in> set es" for k' b e'
  proof (cases "k' = k")
    case True
    then have "bk_last_refill b = now" using that(1) by (auto simp: e try_consume_fields(2) Let_def)
    then show ?thesis using that(2) sorted by (auto simp: e)
  next
    case False
    then have "hm_get (rl_buckets rl) k' = Some b" using that(1) by (simp add: e try_consume_fields(2) Let_def room)
    then show ?thesis using that(2) by (rule fields)
  qed
  ultimately show ?thesis unfolding settled_def by blast
qed

lemma budget_other: "fst e \<noteq> k \<Longrightarrow> make_room iter (fst e) (rl_buckets rl) = rl_buckets rl \<Longrightarrow>
    budget_left t0 t1 k (request iter e rl) = budget_left t0 t1 k rl"
  by (cases e, cases "hm_get (rl_buckets rl) k") (simp_all add: budget_left_def try_consume_fields Let_def request_fields)

lemma budget_nonneg: "buckets_ok rl \<Longrightarrow> 0 \<le> budget_left t0 t1 k rl"
  by (auto simp: budget_left_def buckets_ok_def refilled_nonneg split: option.split)

lemma accepted_budget:
  assumes "settled K es rl" "finite K" "card K \<le> max_buckets" "sorted (map snd es)" "\<forall>e\<in>set es. t0 \<le> snd e \<and> snd e \<le> t1"
  shows "of_nat (accepted iter k es rl) \<le> budget_left t0 t1 k rl"
  using assms(1,4,5)
proof (induction es arbitrary: rl)
  case Nil
  then show ?case by (simp add: settled_def budget_nonneg)
next
  case (Cons e es)
  have rest: "of_nat (accepted iter k es (request iter e rl)) \<le> budget_left t0 t1 k (request iter e rl)"
    using Cons.prems by (intro Cons.IH settled_step [OF _ assms(2,3)]) auto
  have room: "make_room iter (fst e) (rl_buckets rl) = rl_buckets rl"
    by (rule settled_room [OF Cons.prems(1) assms(2,3)])
  show ?case
  proof (cases "fst e = k")
    case True
    then obtain now where e: "e = (k, now)" by (cases e) simp
    have "budget_left t0 t1 k (request iter (k, now) rl) + (if fst (try_consume_at iter k now rl) = Inr () then 1 else 0)
        \<le> budget_left t0 t1 k rl"
      using Cons.prems room by (intro request_spends) (auto simp: e settled_def)
    then show ?thesis using rest by (cases "fst (try_consume_at iter k now rl) = Inr ()") (simp_all add: e)
  next
    case False
    then show ?thesis using rest budget_other [OF False room] by simp
  qed
qed

lemma settled_run:
  "settled K (es1 @ es2) rl \<Longrightarrow> finite K \<Longrightarrow> card K \<le> max_buckets \<Longrightarrow> sorted (map snd (es1 @ es2)) \<Longrightarrow>
    settled K es2 (fold (request iter) es1 rl)"
proof (induction es1 arbitrary: rl)
  case (Cons e es1)
  have "settled K (es1 @ es2) (request iter e rl)"
    using settled_step [of K e "es1 @ es2" rl] Cons.prems by simp
  then show ?case using Cons by simp
qed simp

text \<open>
  C21: Whatever requests came before, the number of requests one caller gets accepted between
  two moments never exceeds one full bucket plus what the refill rate adds in that time, however
  long the caller was idle. The clock does not run backwards, and over the whole history there
  are at most as many callers as buckets: with more, the eviction of a bucket fills it again.
\<close>

theorem rate_is_limited:
  assumes "sorted (map snd (es1 @ es2))" "\<forall>e\<in>set es2. t0 \<le> snd e \<and> snd e \<le> t1"
    and "card (fst ` set (es1 @ es2)) \<le> max_buckets"
  shows "of_nat (accepted iter k es2 (fold (request iter) es1 (rate_limit_new rpm)))
    \<le> of_nat rpm + seconds_between t0 t1 * refill_rate rpm"
proof -
  let ?K = "fst ` set (es1 @ es2)" and ?rl = "fold (request iter) es1 (rate_limit_new rpm)"
  have "settled ?K (es1 @ es2) (rate_limit_new rpm)"
    using buckets_new_ok [of rpm] by (auto simp: settled_def rate_limit_new_def hm_keys_iff)
  then have "settled ?K es2 ?rl" using assms by (intro settled_run) auto
  then have "of_nat (accepted iter k es2 ?rl) \<le> budget_left t0 t1 k ?rl"
    using assms by (intro accepted_budget) (auto simp: sorted_append)
  also have "\<dots> \<le> of_nat rpm + seconds_between t0 t1 * refill_rate rpm"
    using budget_bound [of t0 t1 k ?rl] by (simp add: run_rpm rate_limit_new_def)
  finally show ?thesis .
qed

lemma rate_is_limited_witness:
  "of_nat (accepted id ''k'' [(''k'', 2 * 10 ^ 9), (''j'', 3 * 10 ^ 9)]
       (fold (request id) [(''k'', 0), (''k'', 1)] (rate_limit_new 1))) \<le>
   (of_nat 1 + seconds_between (2 * 10 ^ 9) (3 * 10 ^ 9) * refill_rate 1 :: rat)"
  by (rule rate_is_limited [of "[(''k'', 0), (''k'', 1)]" "[(''k'', 2 * 10 ^ 9), (''j'', 3 * 10 ^ 9)]"])
     (simp_all add: max_buckets_def)

section \<open>What a refusal promises\<close>

lemma wait_is_enough:
  assumes "0 < rpm" "t \<ge> 0" "\<not> 1 \<le> t"
  shows "1 \<le> retry_after rpm t \<and> retry_after rpm t \<le> 60 \<and> 1 \<le> t + of_nat (retry_after rpm t) * refill_rate rpm"
proof -
  let ?r = "refill_rate rpm"
  have r: "0 < ?r" using assms(1) by (simp add: refill_rate_def)
  have n: "retry_after rpm t = max 1 (nat \<lceil>(1 - t) / ?r\<rceil>)" using assms(1) by (simp add: retry_after_def)
  have r60: "1 \<le> 60 * ?r" using assms(1) by (simp add: refill_rate_def)
  have "1 - t \<le> 60 * ?r" using assms(2) r60 by linarith
  then have "(1 - t) / ?r \<le> 60" using r by (simp add: divide_le_eq)
  then have "\<lceil>(1 - t) / ?r\<rceil> \<le> 60" by (simp add: ceiling_le_iff)
  then have "nat \<lceil>(1 - t) / ?r\<rceil> \<le> 60" by linarith
  then have le: "retry_after rpm t \<le> 60" by (simp add: n)
  have "(1 - t) / ?r \<le> of_int \<lceil>(1 - t) / ?r\<rceil>" by simp
  also have "\<dots> \<le> of_nat (nat \<lceil>(1 - t) / ?r\<rceil>)"
  proof -
    have "0 \<le> (1 - t) / ?r" using assms(3) r by simp
    then have "0 \<le> \<lceil>(1 - t) / ?r\<rceil>" by simp
    then show ?thesis by simp
  qed
  also have "\<dots> \<le> of_nat (retry_after rpm t)" by (simp add: n)
  finally have "1 - t \<le> of_nat (retry_after rpm t) * ?r" using r by (simp add: divide_le_eq)
  then show ?thesis using le n by simp
qed

text \<open>a caller that is refused is told to wait between one second and a minute, and waiting that long is
  enough: whatever the limiter saw before, with a positive rate, the caller's next request is accepted.\<close>

lemma refusal_names_a_wait:
  assumes rpm: "0 < rpm" and rl: "rl = fold (request iter) es (rate_limit_new rpm)"
    and refused: "fst (try_consume_at iter k now rl) = Inl s" and later: "now + s * 10 ^ 9 \<le> later"
  shows "1 \<le> s \<and> s \<le> 60 \<and> fst (try_consume_at iter' k later (request iter (k, now) rl)) = Inr ()"
proof -
  let ?t = "refilled rpm now (opening_bucket k now rl)" and ?r = "refill_rate rpm"
  have ok: "buckets_ok rl" and r: "rl_rpm rl = rpm"
    using budget.run_inv [of es] buckets_new_ok run_rpm [of iter es] by (simp_all add: rl list_all_iff rate_limit_new_def)
  have "0 \<le> bk_tokens (opening_bucket k now rl)" using ok by (auto simp: opening_bucket_def buckets_ok_def split: option.split)
  then have t: "0 \<le> ?t" by (rule refilled_nonneg)
  have low: "\<not> 1 \<le> ?t" and s: "s = retry_after rpm ?t"
    using refused by (auto simp: try_consume_fields Let_def r split: if_splits)
  note wait = wait_is_enough [OF rpm t low, folded s]
  have "opening_bucket k later (request iter (k, now) rl) = \<lparr>bk_tokens = ?t, bk_last_refill = now\<rparr>"
    using low by (simp add: opening_bucket_def try_consume_fields Let_def r)
  moreover have "of_nat s \<le> seconds_between now later"
  proof -
    have "of_nat (s * 10 ^ 9) \<le> (of_nat (later - now) :: rat)" using later by (intro of_nat_mono) simp
    then show ?thesis by (simp add: seconds_between_def)
  qed
  then have "of_nat s * ?r \<le> seconds_between now later * ?r" by (rule mult_right_mono) simp
  ultimately have "1 \<le> refilled rpm later (opening_bucket k later (request iter (k, now) rl))"
    using wait rpm by (simp add: refilled_def)
  then show ?thesis using wait by (simp add: try_consume_fields(1) Let_def request_fields r)
qed

lemma refusal_names_a_wait_witness:
  "fst (try_consume_at id ''k'' (5 + 60 * 10 ^ 9) (request id (''k'', 5) (request id (''k'', 5) (rate_limit_new 1)))) = Inr ()"
proof -
  let ?rl = "fold (request id) [(''k'', 5)] (rate_limit_new 1)"
  have first: "refilled 1 5 \<lparr>bk_tokens = 1, bk_last_refill = 5\<rparr> = 1"
    by (simp add: refilled_def seconds_between_def)
  have rl: "?rl = \<lparr>rl_rpm = 1, rl_buckets = hm_put ''k'' \<lparr>bk_tokens = 0, bk_last_refill = 5\<rparr> hm_empty\<rparr>"
  proof -
    have "hm_get (hm_empty :: buckets) ''k'' = None" by simp
    then have "make_room id ''k'' hm_empty = hm_empty" by (simp add: make_room_def max_buckets_def hm_empty_def)
    then show ?thesis using first by (simp add: request_def try_consume_at_def rate_limit_new_def Let_def)
  qed
  have "fst (try_consume_at id ''k'' 5 ?rl) = Inl 60"
    unfolding try_consume_fields(1) rl opening_bucket_def
    by (simp add: refilled_def seconds_between_def retry_after_def refill_rate_def Let_def)
  from refusal_names_a_wait [OF _ refl this] show ?thesis by simp
qed

text \<open>with keys configured, a request passes exactly when its header carries one of them; every
  configured key is a non-empty trimmed piece of the environment's list, and without any such key every request passes.\<close>

lemma bearer_passes_exactly_keys:
  "check_bearer (auth_from_env env) header = Inr () \<longleftrightarrow>
    (case env ''LAIN_API_KEYS'' of
       None \<Rightarrow> True
     | Some raw \<Rightarrow>
         let keys = {s. s \<noteq> [] \<and> s \<in> str_trim ` set (split_on (CHR '','') raw)} in
         keys = {} \<or> (\<exists>h. header = Some h \<and> (\<exists>token\<in>keys. bearer_token h = Some token)))"
proof (cases "env ''LAIN_API_KEYS''")
  case None
  then show ?thesis by (simp add: check_bearer_def auth_from_env_def Let_def)
next
  case (Some raw)
  define ks where "ks = filter (\<lambda>s. s \<noteq> []) (map str_trim (split_on (CHR '','') raw))"
  have set: "{s. s \<noteq> [] \<and> s \<in> str_trim ` set (split_on (CHR '','') raw)} = set ks" by (auto simp: ks_def)
  have keys: "au_api_keys (auth_from_env env) = (if ks = [] then None else Some ks)"
    by (simp add: auth_from_env_def Let_def Some ks_def split: list.split)
  have hit: "list_ex (\<lambda>k. constant_time_eq (key_bytes k) (key_bytes token)) ks \<longleftrightarrow> token \<in> set ks" for token
    using key_bytes_inj by (auto simp: list_ex_iff constant_time_eq_iff)
  show ?thesis
    by (auto simp: check_bearer_def keys hit Some set Let_def split: option.split)
qed

end
