(* ===== verification/Url_Normalize.thy ===== *)
theory Url_Normalize
  imports Contract_Model
begin

text \<open>
  From the URL of a call to a host and a route template,
  \<^verbatim>\<open>src/src/server/federation/contracts/normalize.rs\<close>. Strings are UTF-8 bytes; whether a
  character is alphanumeric is the parameter \<open>alnum\<close>.
\<close>

section \<open>Parts of a URL\<close>

datatype url_part = LitPart string | HolePart string

fun find_char :: "(char \<Rightarrow> bool) \<Rightarrow> string \<Rightarrow> nat option" where
  "find_char p [] = None"
| "find_char p (c # cs) = (if p c then Some 0 else map_option Suc (find_char p cs))"

fun str_find :: "string \<Rightarrow> string \<Rightarrow> nat option" where
  "str_find p [] = (if p = [] then Some 0 else None)"
| "str_find p (c # cs) = (if prefix p (c # cs) then Some 0 else map_option Suc (str_find p cs))"

definition is_delimiter :: "char \<Rightarrow> bool" where
  "is_delimiter c \<longleftrightarrow> c = CHR ''/'' \<or> c = CHR ''?'' \<or> c = CHR ''#''"

definition is_query_mark :: "char \<Rightarrow> bool" where
  "is_query_mark c \<longleftrightarrow> c = CHR ''?'' \<or> c = CHR ''#''"

section \<open>The host\<close>

definition host_from_text :: "string \<Rightarrow> host_part" where
  "host_from_text s =
     (if s = [] then HostNone
      else let after_userinfo = last (split_on (CHR ''@'') s);
               after_port = (case rfind '':'' after_userinfo of Some pos \<Rightarrow> take pos after_userinfo | None \<Rightarrow> after_userinfo) in
           HostLiteral (to_ascii_lowercase after_port))"

fun scan_chunks :: "url_part list \<Rightarrow> string option \<Rightarrow> string \<Rightarrow> string option \<times> string" where
  "scan_chunks [] hole text = (hole, text)"
| "scan_chunks (LitPart s # ps) hole text = scan_chunks ps hole (text @ s)"
| "scan_chunks (HolePart h # ps) hole text = scan_chunks ps (case hole of None \<Rightarrow> Some h | Some h' \<Rightarrow> Some h') text"

definition build_host :: "url_part list \<Rightarrow> host_part" where
  "build_host chunks =
     (case scan_chunks chunks None [] of
        (Some h, _) \<Rightarrow> HostExpr h
      | (None, text) \<Rightarrow> host_from_text text)"

text \<open>The chunks of the host up to the first delimiter, and what follows from it on.\<close>

fun split_host :: "url_part list \<Rightarrow> url_part list \<times> url_part list" where
  "split_host [] = ([], [])"
| "split_host (HolePart h # ps) = (let (chunks, rest) = split_host ps in (HolePart h # chunks, rest))"
| "split_host (LitPart s # ps) =
     (case find_char is_delimiter s of
        Some pos \<Rightarrow> ([LitPart (take pos s)], (if drop pos s = [] then ps else LitPart (drop pos s) # ps))
      | None \<Rightarrow> (let (chunks, rest) = split_host ps in (LitPart s # chunks, rest)))"

fun find_scheme :: "url_part list \<Rightarrow> (string \<times> url_part list) option" where
  "find_scheme [] = None"
| "find_scheme (LitPart s # ps) =
     (case str_find ''://'' s of Some pos \<Rightarrow> Some (drop (pos + 3) s, ps) | None \<Rightarrow> find_scheme ps)"
| "find_scheme (HolePart h # ps) = find_scheme ps"

fun starts_with_slash :: "url_part \<Rightarrow> bool" where
  "starts_with_slash (LitPart s) \<longleftrightarrow> starts_with ''/'' s"
| "starts_with_slash (HolePart h) \<longleftrightarrow> False"

definition extract_host :: "url_part list \<Rightarrow> host_part \<times> url_part list" where
  "extract_host parts =
     (case parts of
        [] \<Rightarrow> (HostNone, [])
      | p # ps \<Rightarrow>
          if starts_with_slash p then (HostNone, parts)
          else (case find_scheme parts of
                 None \<Rightarrow> (case p of HolePart h \<Rightarrow> (HostExpr h, ps) | LitPart s \<Rightarrow> (HostNone, parts))
               | Some (after, others) \<Rightarrow>
                   let (chunks, rest) = split_host (LitPart after # others) in (build_host chunks, rest)))"

section \<open>The query is cut off\<close>

fun cut_query_or_fragment :: "url_part list \<Rightarrow> url_part list" where
  "cut_query_or_fragment [] = []"
| "cut_query_or_fragment (HolePart h # ps) = HolePart h # cut_query_or_fragment ps"
| "cut_query_or_fragment (LitPart s # ps) =
     (case find_char is_query_mark s of
        Some pos \<Rightarrow> if take pos s = [] then [] else [LitPart (take pos s)]
      | None \<Rightarrow> LitPart s # cut_query_or_fragment ps)"

section \<open>Segments\<close>

datatype segment = SegEmpty | SegLiteral string | SegParam | SegWildcard

definition bracketed :: "char \<Rightarrow> char \<Rightarrow> string \<Rightarrow> bool" where
  "bracketed a b seg \<longleftrightarrow>
     3 \<le> length seg \<and> ends_with [b] seg
     \<and> (let inner = drop 1 (take (length seg - 1) seg) in a \<notin> set inner \<and> b \<notin> set inner)"

definition is_parameter_syntax :: "string \<Rightarrow> bool" where
  "is_parameter_syntax seg =
     (case seg of
        [] \<Rightarrow> False
      | c # rest \<Rightarrow>
          if c = CHR '':'' then True
          else if c = CHR ''{'' then bracketed (CHR ''{'') (CHR ''}'') seg
          else if c = CHR ''<'' then bracketed (CHR ''<'') (CHR ''>'') seg
          else if c = CHR ''['' then bracketed (CHR ''['') (CHR '']'') seg
          else if c = CHR ''$'' then 2 \<le> length seg \<and> CHR ''$'' \<notin> set rest
          else False)"

definition is_wildcard :: "(string \<Rightarrow> bool) \<Rightarrow> string \<Rightarrow> bool" where
  "is_wildcard alnum seg =
     (if seg = ''*'' then True
      else case strip_prefix ''*'' seg of
        Some rest \<Rightarrow> rest \<noteq> [] \<and> list_all (\<lambda>c. alnum c \<or> c = ''_'') (utf8_chars rest)
      | None \<Rightarrow>
          if starts_with ''{*'' seg \<and> ends_with ''}'' seg \<and> 4 \<le> length seg
          then CHR ''{'' \<notin> set (drop 2 (take (length seg - 1) seg))
          else if starts_with ''{'' seg \<and> ends_with '':path}'' seg \<and> 8 \<le> length seg
          then let inner = drop 1 (take (length seg - 6) seg) in inner \<noteq> [] \<and> CHR ''{'' \<notin> set inner \<and> CHR '':'' \<notin> set inner
          else if starts_with ''<path:'' seg \<and> ends_with ''>'' seg \<and> 8 \<le> length seg
          then let inner = drop 6 (take (length seg - 1) seg) in inner \<noteq> [] \<and> CHR ''<'' \<notin> set inner \<and> CHR '':'' \<notin> set inner
          else False)"

fun is_hole :: "url_part \<Rightarrow> bool" where
  "is_hole (HolePart h) \<longleftrightarrow> True"
| "is_hole (LitPart s) \<longleftrightarrow> False"

fun literal_text :: "url_part \<Rightarrow> string" where
  "literal_text (LitPart s) = s"
| "literal_text (HolePart h) = []"

definition flush_segment :: "(string \<Rightarrow> bool) \<Rightarrow> url_part list \<Rightarrow> segment" where
  "flush_segment alnum buf =
     (if buf = [] then SegEmpty
      else if list_ex is_hole buf then SegParam
      else let text = concat (map literal_text buf) in
           if text = [] then SegEmpty
           else if is_wildcard alnum text then SegWildcard
           else if is_parameter_syntax text then SegParam
           else SegLiteral text)"

definition sub_buf :: "string \<Rightarrow> url_part list" where
  "sub_buf sub = (if sub = [] then [] else [LitPart sub])"

definition segment_sub :: "(string \<Rightarrow> bool) \<Rightarrow> string \<Rightarrow> url_part list \<times> segment list \<Rightarrow> url_part list \<times> segment list" where
  "segment_sub alnum sub st =
     (case st of (buf, segs) \<Rightarrow> (sub_buf sub, segs @ [flush_segment alnum buf]))"

fun segment_part :: "(string \<Rightarrow> bool) \<Rightarrow> url_part \<Rightarrow> url_part list \<times> segment list \<Rightarrow> url_part list \<times> segment list" where
  "segment_part alnum (LitPart s) st = fold (segment_sub alnum) (split_on (CHR ''/'') s) st"
| "segment_part alnum (HolePart h) (buf, segs) = (buf @ [HolePart h], segs)"

definition segmentize :: "(string \<Rightarrow> bool) \<Rightarrow> url_part list \<Rightarrow> segment list" where
  "segmentize alnum parts =
     (case fold (segment_part alnum) parts ([], []) of (buf, segs) \<Rightarrow> segs @ [flush_segment alnum buf])"

definition clean :: "segment list \<Rightarrow> segment list" where
  "clean segs = (let cleaned = filter (\<lambda>s. s \<noteq> SegEmpty) segs in if cleaned = [] then [SegLiteral []] else cleaned)"

section \<open>The template\<close>

text \<open>\<open>clean\<close> leaves no empty segment, the arm the code marks unreachable.\<close>

fun segment_text :: "segment \<Rightarrow> string" where
  "segment_text (SegLiteral s) = s"
| "segment_text SegParam = ''{}''"
| "segment_text SegWildcard = ''{**}''"
| "segment_text SegEmpty = []"

fun is_dynamic :: "segment \<Rightarrow> bool" where
  "is_dynamic SegParam \<longleftrightarrow> True"
| "is_dynamic SegWildcard \<longleftrightarrow> True"
| "is_dynamic _ \<longleftrightarrow> False"

definition render_template :: "segment list \<Rightarrow> string option" where
  "render_template segs =
     (if segs = [] then Some ''/''
      else if list_all is_dynamic segs then None
      else Some (''/'' @ join ''/'' (map segment_text segs)))"

definition normalize_url :: "(string \<Rightarrow> bool) \<Rightarrow> url_part list \<Rightarrow> normalized_url" where
  "normalize_url alnum parts =
     (case extract_host parts of (host, rest) \<Rightarrow>
        \<lparr>nu_host = host, nu_template = render_template (clean (segmentize alnum (cut_query_or_fragment rest)))\<rparr>)"

section \<open>Segments of one literal\<close>

definition sub_segment :: "(string \<Rightarrow> bool) \<Rightarrow> string \<Rightarrow> segment" where
  "sub_segment alnum sub = flush_segment alnum (sub_buf sub)"

lemma fold_subs:
  "fold (segment_sub alnum) (sub # subs) (buf, segs) =
     (sub_buf (last (sub # subs)), segs @ flush_segment alnum buf # map (sub_segment alnum) (butlast (sub # subs)))"
proof (induction subs arbitrary: sub buf segs)
  case (Cons a subs)
  show ?case using Cons.IH [of a "sub_buf sub" "segs @ [flush_segment alnum buf]"]
    by (simp add: segment_sub_def sub_segment_def)
qed (simp add: segment_sub_def)

lemma segmentize_literal:
  "segmentize alnum [LitPart s] = SegEmpty # map (sub_segment alnum) (split_on (CHR ''/'') s)"
proof -
  obtain sub subs where s: "split_on (CHR ''/'') s = sub # subs" by (cases "split_on (CHR ''/'') s") auto
  have one: "fold (segment_part alnum) [LitPart s] ([], []) = fold (segment_sub alnum) (sub # subs) ([], [])"
    by (simp add: s)
  have last: "flush_segment alnum (sub_buf (last (sub # subs))) = sub_segment alnum (last (sub # subs))"
    by (simp add: sub_segment_def)
  have "flush_segment alnum [] = SegEmpty" by (simp add: flush_segment_def)
  then have "segmentize alnum [LitPart s] =
      SegEmpty # map (sub_segment alnum) (butlast (sub # subs)) @ [sub_segment alnum (last (sub # subs))]"
    by (simp only: segmentize_def one fold_subs prod.case last append_Nil append_Cons)
  also have "\<dots> = SegEmpty # map (sub_segment alnum) (butlast (sub # subs) @ [last (sub # subs)])" by simp
  finally show ?thesis by (simp only: s append_butlast_last_id [OF list.distinct(2)])
qed

end
