(* ===== verification/Route_Match.thy ===== *)
theory Route_Match
  imports Url_Normalize Schema Complex_Main
begin

text \<open>
  Does a call reach an endpoint: \<^verbatim>\<open>federation/contracts/route_match.rs\<close> matches a consumer's
  method and template against a provider's, \<^verbatim>\<open>federation/contracts/key_compat.rs\<close> judges a
  binding a user confirms. A confidence is a rational.
\<close>

section \<open>Templates\<close>

definition split_template :: "string \<Rightarrow> string list" where
  "split_template template = filter (\<lambda>s. s \<noteq> []) (split_on (CHR ''/'') template)"

definition segment_pair_matches :: "string \<Rightarrow> string \<Rightarrow> bool" where
  "segment_pair_matches consumer provider =
     (if consumer = provider then True
      else if provider = ''{}'' then True
      else if consumer = ''{}'' then False
      else False)"

definition segments_match :: "string list \<Rightarrow> string list \<Rightarrow> bool" where
  "segments_match cs ps =
     (if ps = [] \<or> cs = [] then ps = [] \<and> cs = []
      else let catchall = (ps ! (length ps - 1) = ''{**}'');
               core = (if catchall then length ps - 1 else length ps) in
           if \<not> catchall \<and> length cs \<noteq> length ps then False
           else if catchall \<and> length cs < core then False
           else list_all (\<lambda>i. segment_pair_matches (cs ! i) (ps ! i)) [0..<core])"

section \<open>Matching a route\<close>

record match_detail =
  md_kind :: route_match
  md_confidence :: rat
  md_stripped_prefix :: "string option"

datatype match_outcome = NoMatch | Match match_detail

fun is_match :: "match_outcome \<Rightarrow> bool" where
  "is_match (Match d) \<longleftrightarrow> True"
| "is_match NoMatch \<longleftrightarrow> False"

definition method_confidence :: "method_spec \<Rightarrow> http_method \<Rightarrow> rat option" where
  "method_confidence consumer provider =
     (let direct = (case consumer of Known c \<Rightarrow> c = provider | Unknown \<Rightarrow> True) in
      if direct then Some (case consumer of Unknown \<Rightarrow> 3 / 5 | Known c \<Rightarrow> 1)
      else if provider = Any then Some 1
      else None)"

fun prefix_strip_from :: "nat list \<Rightarrow> string list \<Rightarrow> string list \<Rightarrow> (nat \<times> string) option" where
  "prefix_strip_from [] cs ps = None"
| "prefix_strip_from (n # ns) cs ps =
     (if length cs < n then None
      else if list_ex (\<lambda>s. s = ''{}'' \<or> s = ''{**}'') (take n cs) then prefix_strip_from ns cs ps
      else if segments_match (drop n cs) ps then Some (n, ''/'' @ join ''/'' (take n cs))
      else prefix_strip_from ns cs ps)"

definition try_prefix_strip :: "string list \<Rightarrow> string list \<Rightarrow> (nat \<times> string) option" where
  "try_prefix_strip cs ps = prefix_strip_from [1, 2, 3] cs ps"

definition match_route :: "method_spec \<Rightarrow> string \<Rightarrow> http_method \<Rightarrow> string \<Rightarrow> match_outcome" where
  "match_route cm ct pm pt =
     (case method_confidence cm pm of
        None \<Rightarrow> NoMatch
      | Some conf \<Rightarrow>
          let cs = split_template ct; ps = split_template pt in
          if segments_match cs ps
          then Match \<lparr>md_kind = (if cs = ps then RM_Exact else RM_Pattern), md_confidence = conf, md_stripped_prefix = None\<rparr>
          else case try_prefix_strip cs ps of
                 Some (n, text) \<Rightarrow>
                   Match \<lparr>md_kind = RM_PrefixStripped, md_confidence = min conf (1 / 2), md_stripped_prefix = Some text\<rparr>
               | None \<Rightarrow> NoMatch)"

section \<open>Specificity\<close>

definition template_specificity :: "string \<Rightarrow> nat list" where
  "template_specificity template =
     map (\<lambda>seg. if seg = ''{**}'' then 0 else if seg = ''{}'' then 1 else 2) (split_template template)"

text \<open>\<open>Vec::cmp\<close>: the first difference decides, a proper prefix is smaller.\<close>

fun list_cmp :: "nat list \<Rightarrow> nat list \<Rightarrow> int" where
  "list_cmp [] [] = 0"
| "list_cmp [] (y # ys) = - 1"
| "list_cmp (x # xs) [] = 1"
| "list_cmp (x # xs) (y # ys) = (if x < y then - 1 else if y < x then 1 else list_cmp xs ys)"

definition compare_specificity :: "string \<Rightarrow> string \<Rightarrow> int" where
  "compare_specificity a b = list_cmp (template_specificity a) (template_specificity b)"

section \<open>Confirmed bindings\<close>

fun methods_compatible :: "method_spec \<Rightarrow> method_spec \<Rightarrow> bool" where
  "methods_compatible (Known a) (Known b) \<longleftrightarrow> a = b \<or> b = Any \<or> a = Any"
| "methods_compatible Unknown pm \<longleftrightarrow> True"
| "methods_compatible cm Unknown \<longleftrightarrow> True"

definition templates_compatible :: "string option \<Rightarrow> string \<Rightarrow> bool \<times> string" where
  "templates_compatible consumer provider =
     (case consumer of
        None \<Rightarrow> (True, ''pattern'')
      | Some c \<Rightarrow> if is_match (match_route (Known Any) c Any provider) then (True, ''exact'') else (False, ''none''))"

fun keys_compatible :: "contract_key \<Rightarrow> contract_key \<Rightarrow> bool" where
  "keys_compatible (KHttp cm ct) (KHttp pm pt) \<longleftrightarrow> methods_compatible cm pm \<and> fst (templates_compatible (Some ct) pt)"
| "keys_compatible (KGraphql cop cf) (KGraphql pop pf) \<longleftrightarrow> cop = pop \<and> cf = pf"
| "keys_compatible consumer provider \<longleftrightarrow> consumer = provider"

section \<open>A recursive reading of the segment rule\<close>

fun fits :: "string list \<Rightarrow> string list \<Rightarrow> bool" where
  "fits cs [] \<longleftrightarrow> cs = []"
| "fits cs (p # ps) \<longleftrightarrow>
     p = ''{**}'' \<and> ps = [] \<or> (case cs of [] \<Rightarrow> False | c # cs' \<Rightarrow> (c = p \<or> p = ''{}'') \<and> fits cs' ps)"

lemma segment_pair: "segment_pair_matches c p \<longleftrightarrow> c = p \<or> p = ''{}''"
  by (simp add: segment_pair_matches_def)

lemma fits_plain:
  "ps = [] \<or> last ps \<noteq> ''{**}'' \<Longrightarrow>
    fits cs ps \<longleftrightarrow> length cs = length ps \<and> list_all2 segment_pair_matches cs ps"
  by (induction cs ps rule: fits.induct) (auto simp: segment_pair list_all2_Cons2 split: list.splits if_splits)

lemma fits_catchall:
  "fits cs (ps @ [''{**}'']) \<longleftrightarrow> length ps \<le> length cs \<and> list_all2 segment_pair_matches (take (length ps) cs) ps"
  by (induction ps arbitrary: cs) (auto simp: segment_pair split: list.splits)

lemma pairs_upto:
  "n \<le> length cs \<Longrightarrow> n \<le> length ps \<Longrightarrow>
    list_all (\<lambda>i. P (cs ! i) (ps ! i)) [0..<n] \<longleftrightarrow> list_all2 P (take n cs) (take n ps)"
  by (auto simp: list_all_iff list_all2_conv_all_nth)

lemma segments_match_fits: "segments_match cs ps \<longleftrightarrow> fits cs ps \<and> (cs = [] \<longrightarrow> ps = [])"
proof (cases "ps = [] \<or> cs = []")
  case True
  then show ?thesis by (cases ps) (auto simp: segments_match_def)
next
  case False
  show ?thesis
  proof (cases "last ps = ''{**}''")
    case True
    then obtain qs where ps: "ps = qs @ [''{**}'']" using False by (metis append_butlast_last_id)
    then show ?thesis using False
      by (auto simp: segments_match_def Let_def fits_catchall pairs_upto)
  next
    case other: False
    then show ?thesis using False
      by (auto simp: segments_match_def Let_def fits_plain pairs_upto last_conv_nth)
  qed
qed

end
