(* ===== verification/Route_Props.thy ===== *)
theory Route_Props
  imports Route_Match Prelude
begin

text \<open>
  What \<^verbatim>\<open>Url_Normalize\<close> and \<^verbatim>\<open>Route_Match\<close> guarantee: a template is a fixed point of normalisation, a
  literal URL yields its host and path, a route matches by the shortest prefix it can do without.
\<close>

section \<open>Searching\<close>

lemma find_char_None: "find_char p s = None \<longleftrightarrow> (\<forall>c\<in>set s. \<not> p c)"
  by (induction s) auto

lemma find_char_free: "find_char p s = Some i \<Longrightarrow> c \<in> set (take i s) \<Longrightarrow> \<not> p c"
  by (induction s arbitrary: i) (auto split: if_splits)

lemma find_char_append:
  "(\<And>c. c \<in> set a \<Longrightarrow> \<not> p c) \<Longrightarrow> find_char p (a @ s) = map_option ((+) (length a)) (find_char p s)"
  by (induction a) (auto simp: option.map_comp comp_def option.map_id0 [unfolded id_def] cong: map_option_cong)

lemma str_find_scheme: "CHR '':'' \<notin> set a \<Longrightarrow> str_find ''://'' (a @ ''://'' @ s) = Some (length a)"
  by (induction a) auto

section \<open>Templates are fixed points\<close>

definition text_ok :: "string \<Rightarrow> bool" where
  "text_ok t \<longleftrightarrow> t \<noteq> [] \<and> CHR ''/'' \<notin> set t \<and> (\<forall>c\<in>set t. \<not> is_query_mark c)"

fun segment_ok :: "(string \<Rightarrow> bool) \<Rightarrow> segment \<Rightarrow> bool" where
  "segment_ok alnum (SegLiteral t) \<longleftrightarrow> text_ok t \<and> \<not> is_wildcard alnum t \<and> \<not> is_parameter_syntax t"
| "segment_ok alnum _ \<longleftrightarrow> True"

definition buf_ok :: "url_part list \<Rightarrow> bool" where
  "buf_ok buf \<longleftrightarrow> list_ex is_hole buf \<or> buf = [] \<or> (\<exists>t. buf = [LitPart t] \<and> text_ok t)"

lemma flush_ok: "buf_ok buf \<Longrightarrow> segment_ok alnum (flush_segment alnum buf)"
  by (auto simp: buf_ok_def flush_segment_def Let_def text_ok_def)

lemma sub_buf_ok: "CHR ''/'' \<notin> set sub \<Longrightarrow> \<forall>c\<in>set sub. \<not> is_query_mark c \<Longrightarrow> buf_ok (sub_buf sub)"
  by (auto simp: buf_ok_def sub_buf_def text_ok_def)

definition segmenting :: "(string \<Rightarrow> bool) \<Rightarrow> url_part list \<times> segment list \<Rightarrow> bool" where
  "segmenting alnum st \<longleftrightarrow> buf_ok (fst st) \<and> list_all (segment_ok alnum) (snd st)"

lemma segment_sub_ok:
  "segmenting alnum st \<Longrightarrow> CHR ''/'' \<notin> set sub \<Longrightarrow> \<forall>c\<in>set sub. \<not> is_query_mark c \<Longrightarrow> segmenting alnum (segment_sub alnum sub st)"
  by (cases st) (simp add: segmenting_def segment_sub_def flush_ok sub_buf_ok)

definition sub_ok :: "string \<Rightarrow> bool" where
  "sub_ok sub \<longleftrightarrow> CHR ''/'' \<notin> set sub \<and> (\<forall>c\<in>set sub. \<not> is_query_mark c)"

interpretation sub_machine: machine "segment_sub alnum" sub_ok "segmenting alnum" for alnum
  by unfold_locales (simp add: sub_ok_def segment_sub_ok)

definition part_ok :: "url_part \<Rightarrow> bool" where
  "part_ok p \<longleftrightarrow> (\<forall>c\<in>set (literal_text p). \<not> is_query_mark c)"

lemma segment_part_ok: "segmenting alnum st \<Longrightarrow> part_ok p \<Longrightarrow> segmenting alnum (segment_part alnum p st)"
proof (cases p)
  case (LitPart s)
  assume "segmenting alnum st" "part_ok p"
  moreover have "list_all sub_ok (split_on (CHR ''/'') s)"
    using \<open>part_ok p\<close> split_on_pieces [of _ "CHR ''/''" s] split_on_subset [of _ "CHR ''/''" s]
    by (fastforce simp: list_all_iff part_ok_def LitPart sub_ok_def)
  ultimately show ?thesis by (simp add: LitPart sub_machine.run_inv)
next
  case (HolePart h)
  assume "segmenting alnum st" "part_ok p"
  then show ?thesis by (cases st) (simp add: HolePart segmenting_def buf_ok_def)
qed

interpretation part_machine: machine "segment_part alnum" part_ok "segmenting alnum" for alnum
  by unfold_locales (rule segment_part_ok)

lemma segmentize_ok: "list_all part_ok parts \<Longrightarrow> list_all (segment_ok alnum) (segmentize alnum parts)"
  using part_machine.run_inv [of parts alnum "([], [])"]
  by (auto simp: segmentize_def segmenting_def buf_ok_def flush_ok split: prod.splits)

lemma cut_ok: "list_all part_ok (cut_query_or_fragment parts)"
  by (induction parts rule: cut_query_or_fragment.induct)
     (auto simp: part_ok_def find_char_None dest: find_char_free split: option.splits)

lemma cut_free: "list_all part_ok parts \<Longrightarrow> cut_query_or_fragment parts = parts"
  by (induction parts rule: cut_query_or_fragment.induct) (simp_all add: part_ok_def flip: find_char_None)

lemma clean_cases:
  "clean segs = [SegLiteral []] \<or> clean segs \<noteq> [] \<and> SegEmpty \<notin> set (clean segs) \<and> set (clean segs) \<subseteq> set segs"
  by (auto simp: clean_def Let_def)

fun reread :: "segment \<Rightarrow> segment" where
  "reread SegParam = SegLiteral ''{}''"
| "reread s = s"

lemma dynamic_texts:
  "\<not> is_wildcard alnum ''{}''" "\<not> is_parameter_syntax ''{}''" "is_wildcard alnum ''{**}''"
  by (simp_all add: is_wildcard_def is_parameter_syntax_def bracketed_def strip_prefix_def starts_with_def ends_with_def suffix_def)

lemma reread_text: "segment_ok alnum s \<Longrightarrow> s \<noteq> SegEmpty \<Longrightarrow> sub_segment alnum (segment_text s) = reread s"
  by (cases s) (auto simp: sub_segment_def sub_buf_def flush_segment_def Let_def dynamic_texts text_ok_def)

lemma segment_text_ok: "segment_ok alnum s \<Longrightarrow> s \<noteq> SegEmpty \<Longrightarrow> text_ok (segment_text s)"
  by (cases s) (auto simp: text_ok_def is_query_mark_def)

lemma sub_segment_Nil [simp]: "sub_segment alnum [] = SegEmpty"
  by (simp add: sub_segment_def sub_buf_def flush_segment_def)

lemma clean_skip [simp]: "clean (SegEmpty # segs) = clean segs"
  by (simp add: clean_def)

lemma normalize_path:
  assumes "\<forall>c\<in>set t. \<not> is_query_mark c"
  shows "normalize_url alnum [LitPart (CHR ''/'' # t)] =
    \<lparr>nu_host = HostNone, nu_template = render_template (clean (map (sub_segment alnum) (split_on (CHR ''/'') t)))\<rparr>"
proof -
  have "cut_query_or_fragment [LitPart (CHR ''/'' # t)] = [LitPart (CHR ''/'' # t)]"
    using assms by (intro cut_free) (simp add: part_ok_def is_query_mark_def)
  then show ?thesis
    by (simp add: normalize_url_def extract_host_def starts_with_def segmentize_literal del: cut_query_or_fragment.simps)
qed

text \<open>a template is a fixed point: read as a path of its own it normalises to itself, with no host.\<close>

lemma template_is_normal:
  assumes "nu_template (normalize_url alnum parts) = Some t"
  shows "normalize_url alnum [LitPart t] = \<lparr>nu_host = HostNone, nu_template = Some t\<rparr>"
proof -
  obtain host rest where ex: "extract_host parts = (host, rest)" by (cases "extract_host parts")
  define segs where "segs = clean (segmentize alnum (cut_query_or_fragment rest))"
  have t: "render_template segs = Some t" using assms by (simp add: normalize_url_def ex segs_def)
  have ok: "list_all (segment_ok alnum) (segmentize alnum (cut_query_or_fragment rest))"
    by (rule segmentize_ok [OF cut_ok])
  consider "segs = [SegLiteral []]" | "segs \<noteq> []" "SegEmpty \<notin> set segs" "list_all (segment_ok alnum) segs"
    using clean_cases [of "segmentize alnum (cut_query_or_fragment rest)"] ok unfolding segs_def list_all_iff by blast
  then show ?thesis
  proof cases
    case 1
    then have "t = ''/''" using t by (simp add: render_template_def)
    then show ?thesis by (simp add: normalize_path) (simp add: clean_def render_template_def)
  next
    case 2
    have live: "\<not> list_all is_dynamic segs" and tx: "t = CHR ''/'' # join ''/'' (map segment_text segs)"
      using t 2(1) by (auto simp: render_template_def split: if_splits)
    have texts: "text_ok s" if "s \<in> set (map segment_text segs)" for s
      using that 2(2,3) by (auto simp: list_all_iff intro: segment_text_ok)
    have marks: "\<forall>c\<in>set (join ''/'' (map segment_text segs)). \<not> is_query_mark c"
    proof
      fix c assume "c \<in> set (join ''/'' (map segment_text segs))"
      then consider "c = CHR ''/''" | s where "s \<in> set (map segment_text segs)" "c \<in> set s"
        using subsetD [OF set_join, of c "''/''" "map segment_text segs"] by auto
      then show "\<not> is_query_mark c" by cases (use texts in \<open>auto simp: is_query_mark_def text_ok_def\<close>)
    qed
    have "normalize_url alnum [LitPart t] = \<lparr>nu_host = HostNone,
        nu_template = render_template (clean (map (sub_segment alnum) (split_on (CHR ''/'') (join ''/'' (map segment_text segs)))))\<rparr>"
      unfolding tx by (rule normalize_path [OF marks])
    also have "split_on (CHR ''/'') (join ''/'' (map segment_text segs)) = map segment_text segs"
      using 2(1) texts by (intro split_on_join) (auto simp: text_ok_def)
    also have "map (sub_segment alnum) (map segment_text segs) = map reread segs"
      using 2(2,3) by (auto simp: list_all_iff intro: reread_text)
    also have "clean (map reread segs) = map reread segs"
    proof -
      have "reread s = SegEmpty \<Longrightarrow> s = SegEmpty" for s by (cases s) simp_all
      then have "reread s \<noteq> SegEmpty" if "s \<in> set segs" for s using that 2(2) by metis
      then have "filter (\<lambda>s. s \<noteq> SegEmpty) (map reread segs) = map reread segs" by (auto simp: filter_id_conv)
      then show ?thesis using 2(1) by (simp add: clean_def)
    qed
    also have "render_template (map reread segs) = Some t"
    proof -
      have "is_dynamic (reread s) \<Longrightarrow> is_dynamic s" for s by (cases s) simp_all
      then have "\<not> list_all is_dynamic (map reread segs)" using live by (auto simp: list_all_iff)
      moreover have "segment_text (reread s) = segment_text s" for s by (cases s) simp_all
      ultimately show ?thesis using 2(1) by (simp add: render_template_def tx comp_def)
    qed
    finally show ?thesis .
  qed
qed

lemma template_is_normal_witness:
  "normalize_url (\<lambda>_. False) [LitPart ''/{}''] = \<lparr>nu_host = HostNone, nu_template = Some ''/{}''\<rparr>"
proof -
  have "nu_template (normalize_url (\<lambda>_. False) [LitPart ''/{}'']) = Some ''/{}''" by code_simp
  then show ?thesis by (rule template_is_normal)
qed

section \<open>Literal URLs\<close>

definition path_of :: "string list \<Rightarrow> string" where
  "path_of segs = concat (map ((#) (CHR ''/'')) segs)"

lemma path_of_simps [simp]: "path_of [] = []" "path_of (a # segs) = CHR ''/'' # a @ path_of segs"
  by (simp_all add: path_of_def)

lemma split_path: "list_all sub_ok segs \<Longrightarrow> split_on (CHR ''/'') (path_of segs) = [] # segs"
proof (induction segs)
  case (Cons a segs)
  then have "CHR ''/'' \<notin> set a" by (simp add: sub_ok_def)
  then have "split_on (CHR ''/'') (a @ path_of segs) = a # segs"
    using Cons by (cases segs) (simp_all add: split_on_no_sep split_on_append)
  then show ?case by simp
qed simp

lemma path_marks: "list_all sub_ok segs \<Longrightarrow> c \<in> set (path_of segs) \<Longrightarrow> \<not> is_query_mark c"
proof (induction segs)
  case (Cons a segs)
  have "\<not> is_query_mark (CHR ''/'')" by (simp add: is_query_mark_def)
  with Cons show ?case by (simp add: sub_ok_def) metis
qed simp

lemma cut_path:
  assumes "list_all sub_ok segs" "query = [] \<or> is_query_mark (hd query)"
  shows "clean (segmentize alnum (cut_query_or_fragment (if path_of segs @ query = [] then [] else [LitPart (path_of segs @ query)])))
    = clean (map (sub_segment alnum) segs)"
proof (cases "path_of segs = []")
  case True
  then have segs: "segs = []" by (cases segs) simp_all
  have "cut_query_or_fragment (if query = [] then [] else [LitPart query]) = []"
    using assms(2) by (cases query) simp_all
  then show ?thesis unfolding segs
    by (simp only: path_of_simps append_Nil) (simp add: segmentize_def flush_segment_def)
next
  case False
  have "find_char is_query_mark (path_of segs @ query) = (if query = [] then None else Some (length (path_of segs)))"
    using assms(2) find_char_append [of "path_of segs" is_query_mark query, OF path_marks [OF assms(1)]] by (cases query) auto
  then have "cut_query_or_fragment [LitPart (path_of segs @ query)] = [LitPart (path_of segs)]"
    using False by (cases "query = []") simp_all
  then show ?thesis using False by (simp add: segmentize_literal split_path [OF assms(1)] del: cut_query_or_fragment.simps)
qed

definition url_ok :: "string \<Rightarrow> string \<Rightarrow> string list \<Rightarrow> string \<Rightarrow> bool" where
  "url_ok scheme auth segs query \<longleftrightarrow>
     CHR '':'' \<notin> set scheme \<and> \<not> prefix ''/'' scheme \<and> (\<forall>c\<in>set auth. \<not> is_delimiter c)
     \<and> list_all sub_ok segs \<and> (query = [] \<or> is_query_mark (hd query))"

lemma delimiter_or: "is_query_mark c \<Longrightarrow> is_delimiter c"
  by (auto simp: is_query_mark_def is_delimiter_def)

lemma split_host_literal:
  assumes "\<And>c. c \<in> set auth \<Longrightarrow> \<not> is_delimiter c" "rest = [] \<or> is_delimiter (hd rest)"
  shows "split_host [LitPart (auth @ rest)] = ([LitPart auth], if rest = [] then [] else [LitPart rest])"
  using find_char_append [of auth is_delimiter rest, OF assms(1)] assms(2) by (cases rest) auto

text \<open>a literal URL is taken apart exactly: the host is the authority without user and port in lower case,
  the template is made of the path's segments, and scheme, query and fragment leave no trace.\<close>

lemma literal_url_parts:
  assumes "url_ok scheme auth segs query"
  shows "normalize_url alnum [LitPart (scheme @ ''://'' @ auth @ path_of segs @ query)] =
    \<lparr>nu_host = host_from_text auth, nu_template = render_template (clean (map (sub_segment alnum) segs))\<rparr>"
proof -
  have u: "CHR '':'' \<notin> set scheme" "\<not> prefix ''/'' scheme" "\<And>c. c \<in> set auth \<Longrightarrow> \<not> is_delimiter c"
    "list_all sub_ok segs" "query = [] \<or> is_query_mark (hd query)" using assms by (auto simp: url_ok_def)
  let ?rest = "path_of segs @ query"
  have "?rest = [] \<or> is_delimiter (hd ?rest)"
    using u(5) by (cases segs) (auto simp: is_delimiter_def is_query_mark_def)
  note host = split_host_literal [OF u(3) this]
  have "\<not> starts_with_slash (LitPart (scheme @ ''://'' @ auth @ ?rest))"
    using u(2) by (cases scheme) (auto simp: starts_with_def)
  then have "extract_host [LitPart (scheme @ ''://'' @ auth @ ?rest)] =
      (host_from_text auth, if ?rest = [] then [] else [LitPart ?rest])"
    using host str_find_scheme [OF u(1), of "auth @ ?rest"] by (simp add: extract_host_def build_host_def)
  then show ?thesis by (simp only: normalize_url_def prod.case cut_path [OF u(4,5)])
qed

lemma literal_url_parts_witness:
  "normalize_url (\<lambda>_. False) [LitPart ''https://u@Api:80/v1/:id?q''] =
    \<lparr>nu_host = HostLiteral ''api'', nu_template = Some ''/v1/{}''\<rparr>"
proof -
  have "url_ok ''https'' ''u@Api:80'' [''v1'', '':id''] ''?q''" by code_simp
  note l = literal_url_parts [OF this, of "\<lambda>_. False"]
  have "''https'' @ ''://'' @ ''u@Api:80'' @ path_of [''v1'', '':id''] @ ''?q'' = ''https://u@Api:80/v1/:id?q''"
    by (simp add: path_of_def)
  moreover have "host_from_text ''u@Api:80'' = HostLiteral ''api''" by code_simp
  moreover have "render_template (clean (map (sub_segment (\<lambda>_. False)) [''v1'', '':id''])) = Some ''/v1/{}''" by code_simp
  ultimately show ?thesis using l by simp
qed

section \<open>Matching\<close>

definition reaches :: "nat \<Rightarrow> string list \<Rightarrow> string list \<Rightarrow> bool" where
  "reaches n cs ps \<longleftrightarrow>
     n \<le> 3 \<and> n \<le> length cs \<and> ''{}'' \<notin> set (take n cs) \<and> ''{**}'' \<notin> set (take n cs)
     \<and> fits (drop n cs) ps \<and> (drop n cs = [] \<longrightarrow> ps = [])"

lemma reaches_0: "reaches 0 cs ps \<longleftrightarrow> segments_match cs ps"
  by (simp add: reaches_def segments_match_fits)

lemma reaches_stripped:
  "n \<le> 3 \<Longrightarrow> reaches n cs ps \<longleftrightarrow>
     \<not> length cs < n \<and> \<not> list_ex (\<lambda>s. s = ''{}'' \<or> s = ''{**}'') (take n cs) \<and> segments_match (drop n cs) ps"
proof -
  have "\<not> list_ex (\<lambda>s. s = ''{}'' \<or> s = ''{**}'') xs \<longleftrightarrow> ''{}'' \<notin> set xs \<and> ''{**}'' \<notin> set xs" for xs
    by (induction xs) auto
  moreover assume "n \<le> 3"
  ultimately show ?thesis unfolding reaches_def segments_match_fits by (simp add: not_less)
qed

lemma strip_first:
  "try_prefix_strip cs ps =
     map_option (\<lambda>n. (n, ''/'' @ join ''/'' (take n cs))) (find (\<lambda>n. reaches n cs ps) [1, 2, 3])"
proof -
  have short: "length cs < n \<Longrightarrow> n \<le> m \<Longrightarrow> \<not> reaches m cs ps" for n m by (simp add: reaches_def)
  have step: "prefix_strip_from (n # ns) cs ps =
      (if reaches n cs ps then Some (n, ''/'' @ join ''/'' (take n cs)) else if length cs < n then None else prefix_strip_from ns cs ps)"
    if "n \<le> 3" for n ns using that by (simp add: reaches_stripped)
  show ?thesis using short [of 1 2] short [of 1 3] short [of 2 3]
    by (simp add: try_prefix_strip_def step del: prefix_strip_from.simps(2))
qed

text \<open>C25: a route is matched by taking the shortest prefix of at most three literal segments off the call
  after which its segments fit the route's one by one (a placeholder fits any segment, a trailing wildcard any rest);
  kind, confidence and the prefix reported are determined by that length and the methods.\<close>

lemma match_route_exact:
  "match_route cm ct pm pt =
     (case method_confidence cm pm of
        None \<Rightarrow> NoMatch
      | Some conf \<Rightarrow>
          (case find (\<lambda>n. reaches n (split_template ct) (split_template pt)) [0, 1, 2, 3] of
             None \<Rightarrow> NoMatch
           | Some n \<Rightarrow> Match
               \<lparr>md_kind = (if n > 0 then RM_PrefixStripped else if split_template ct = split_template pt then RM_Exact else RM_Pattern),
                md_confidence = (if n > 0 then min conf (1 / 2) else conf),
                md_stripped_prefix = (if n > 0 then Some (''/'' @ join ''/'' (take n (split_template ct))) else None)\<rparr>))"
proof (cases "method_confidence cm pm")
  case (Some conf)
  let ?cs = "split_template ct" and ?ps = "split_template pt"
  show ?thesis
  proof (cases "reaches 0 ?cs ?ps")
    case True
    then show ?thesis using Some by (simp add: match_route_def reaches_0 Let_def)
  next
    case False
    then have "match_route cm ct pm pt = (case find (\<lambda>n. reaches n ?cs ?ps) [1, 2, 3] of
        None \<Rightarrow> NoMatch
      | Some n \<Rightarrow> Match \<lparr>md_kind = RM_PrefixStripped, md_confidence = min conf (1 / 2),
          md_stripped_prefix = Some (''/'' @ join ''/'' (take n ?cs))\<rparr>)"
      using Some by (simp add: match_route_def reaches_0 Let_def strip_first)
    moreover have "find (\<lambda>n. reaches n ?cs ?ps) [0, 1, 2, 3] = find (\<lambda>n. reaches n ?cs ?ps) [1, 2, 3]"
      using False by simp
    moreover have "find (\<lambda>n. reaches n ?cs ?ps) [1, 2, 3] = Some n \<Longrightarrow> n > 0" for n
      by (auto split: if_splits)
    ultimately show ?thesis using Some
      by (cases "find (\<lambda>n. reaches n ?cs ?ps) [1, 2, 3]") (simp_all del: find.simps)
  qed
qed (simp add: match_route_def)

lemma match_route_matches:
  "match_route cm ct pm pt \<noteq> NoMatch \<longleftrightarrow>
     method_confidence cm pm \<noteq> None
     \<and> (segments_match (split_template ct) (split_template pt) \<or> try_prefix_strip (split_template ct) (split_template pt) \<noteq> None)"
  by (auto simp: match_route_def Let_def split: option.split)

lemma is_match_iff: "is_match m \<longleftrightarrow> m \<noteq> NoMatch"
  by (cases m) simp_all

text \<open>a binding between two HTTP keys is accepted exactly when the matcher would join them, or when
  the consumer's method is the wildcard, which the matcher joins only to a provider with the wildcard too.\<close>

lemma binding_agrees_with_matcher:
  "keys_compatible (KHttp cm ct) (KHttp (Known pm) pt) \<longleftrightarrow>
     match_route cm ct pm pt \<noteq> NoMatch \<or> cm = Known Any \<and> match_route (Known Any) ct Any pt \<noteq> NoMatch"
proof -
  have conf: "method_confidence cm pm \<noteq> None \<longleftrightarrow> cm = Unknown \<or> cm = Known pm \<or> pm = Any"
    by (cases cm) (auto simp: method_confidence_def)
  have "methods_compatible cm (Known pm) \<longleftrightarrow> cm = Unknown \<or> cm = Known pm \<or> pm = Any \<or> cm = Known Any"
    by (cases cm) auto
  then show ?thesis
    unfolding keys_compatible.simps templates_compatible_def match_route_matches conf option.case is_match_iff
    by (auto simp: match_route_matches method_confidence_def)
qed

lemma segments_match_refl: "segments_match cs cs"
proof -
  have "fits cs cs" by (induction cs) auto
  then show ?thesis by (simp add: segments_match_fits)
qed

text \<open>a call written as a literal URL meets the route written as the same path: both normalise to the same
  template, and the matcher joins them exactly, with full confidence when the methods agree.\<close>

lemma call_meets_its_route:
  assumes "url_ok scheme auth segs query" "segs \<noteq> []"
    and "nu_template (normalize_url alnum [LitPart (path_of segs)]) = Some t"
  shows "nu_template (normalize_url alnum [LitPart (scheme @ ''://'' @ auth @ path_of segs @ query)]) = Some t
    \<and> match_route (Known m) t m t = Match \<lparr>md_kind = RM_Exact, md_confidence = 1, md_stripped_prefix = None\<rparr>"
proof -
  have segs: "list_all sub_ok segs" using assms(1) by (simp add: url_ok_def)
  obtain a rest where ar: "segs = a # rest" using assms(2) by (cases segs) auto
  have "split_on (CHR ''/'') (a @ path_of rest) = segs" using split_path [OF segs] by (simp add: ar)
  then have "nu_template (normalize_url alnum [LitPart (path_of segs)]) = render_template (clean (map (sub_segment alnum) segs))"
    using normalize_path [of "a @ path_of rest" alnum] path_marks [OF segs] by (simp add: ar)
  then have "nu_template (normalize_url alnum [LitPart (scheme @ ''://'' @ auth @ path_of segs @ query)]) = Some t"
    using assms(3) literal_url_parts [OF assms(1)] by simp
  then show ?thesis by (simp add: match_route_def method_confidence_def segments_match_refl)
qed

lemma call_meets_its_route_witness:
  "match_route (Known Get) ''/v1/{}'' Get ''/v1/{}'' = Match \<lparr>md_kind = RM_Exact, md_confidence = 1, md_stripped_prefix = None\<rparr>"
proof -
  have ok: "url_ok ''https'' ''api'' [''v1'', '':id''] []" by code_simp
  have "nu_template (normalize_url (\<lambda>_. False) [LitPart (path_of [''v1'', '':id''])]) = Some ''/v1/{}''" by code_simp
  then show ?thesis using call_meets_its_route [OF ok, of "\<lambda>_. False" "''/v1/{}''" Get] by simp
qed

text \<open>Text right after a placeholder becomes a segment of its own, so such a call never meets its route.\<close>

lemma suffix_splits_segment:
  "nu_template (normalize_url (\<lambda>_. False) [LitPart ''/users/'', HolePart ''id'', LitPart ''.json'']) = Some ''/users/{}/.json''"
  by code_simp

end
