(* ===== verification/Btree.thy ===== *)
theory Btree
  imports Contract_Model "HOL-Library.List_Lexorder" "HOL-Library.Char_ord" "HOL-Library.Product_Lexorder"
begin

text \<open>
  \<open>BTreeMap\<close> as an association list in increasing order of its keys, with the entry interface the
  code uses, and the derived order of contract keys that decides how the maps over them iterate.
\<close>

section \<open>Ordered maps\<close>

type_synonym ('k, 'v) btree = "('k \<times> 'v) list"

fun bt_update :: "'k :: linorder \<Rightarrow> ('v option \<Rightarrow> 'v) \<Rightarrow> ('k, 'v) btree \<Rightarrow> ('k, 'v) btree" where
  "bt_update k f [] = [(k, f None)]"
| "bt_update k f ((k', v) # m) =
     (if k < k' then (k, f None) # (k', v) # m
      else if k = k' then (k, f (Some v)) # m
      else (k', v) # bt_update k f m)"

definition bt_get :: "('k, 'v) btree \<Rightarrow> 'k \<Rightarrow> 'v option" where
  "bt_get m k = map_of m k"

definition bt_insert :: "'k :: linorder \<Rightarrow> 'v \<Rightarrow> ('k, 'v) btree \<Rightarrow> ('k, 'v) btree" where
  "bt_insert k v = bt_update k (\<lambda>_. v)"

definition bt_push :: "'k :: linorder \<Rightarrow> 'v \<Rightarrow> ('k, 'v list) btree \<Rightarrow> ('k, 'v list) btree" where
  "bt_push k x = bt_update k (\<lambda>old. case old of Some xs \<Rightarrow> xs @ [x] | None \<Rightarrow> [x])"

definition bt_ok :: "('k :: linorder, 'v) btree \<Rightarrow> bool" where
  "bt_ok m \<longleftrightarrow> sorted_wrt (<) (map fst m)"

lemma bt_update_keys: "set (map fst (bt_update k f m)) = insert k (set (map fst m))"
  by (induction m rule: bt_update.induct) auto

lemma bt_ok_update [simp]: "bt_ok m \<Longrightarrow> bt_ok (bt_update k f m)"
proof (induction k f m rule: bt_update.induct)
  case (2 k f k' v m)
  then have "\<forall>x\<in>set (map fst (bt_update k f m)). k < k' \<or> k = k' \<or> k' < x"
    unfolding bt_update_keys by (auto simp: bt_ok_def)
  with 2 show ?case by (auto simp: bt_ok_def)
qed (simp add: bt_ok_def)

lemma bt_get_below: "bt_ok ((k', v) # m) \<Longrightarrow> k < k' \<Longrightarrow> map_of m k = None"
  by (auto simp: bt_ok_def map_of_eq_None_iff)

lemma bt_get_update:
  "bt_ok m \<Longrightarrow> bt_get (bt_update k f m) k' = (if k' = k then Some (f (bt_get m k)) else bt_get m k')"
proof (induction k f m rule: bt_update.induct)
  case (2 k f k1 v m)
  then show ?case using bt_get_below [OF 2(2), of k] by (auto simp: bt_get_def bt_ok_def)
qed (simp add: bt_get_def)

lemma bt_empty [simp]: "bt_ok []" "bt_get [] k = None"
  by (simp_all add: bt_ok_def bt_get_def)

lemma bt_mem: "bt_ok m \<Longrightarrow> (k, v) \<in> set m \<longleftrightarrow> bt_get m k = Some v"
  unfolding bt_get_def by (subst map_of_eq_Some_iff) (auto simp: bt_ok_def strict_sorted_iff)

lemma bt_pushes:
  "bt_ok m \<Longrightarrow> bt_get (fold (\<lambda>(k, x). bt_push k x) es m) k =
     (let xs = map snd (filter (\<lambda>e. fst e = k) es) in
      case bt_get m k of Some ys \<Rightarrow> Some (ys @ xs) | None \<Rightarrow> if xs = [] then None else Some xs)"
proof (induction es arbitrary: m)
  case (Cons e es)
  then show ?case
    by (cases e) (auto simp: bt_push_def bt_get_update Let_def split: option.split)
qed (simp split: option.split)

lemma bt_pushes_ok: "bt_ok m \<Longrightarrow> bt_ok (fold (\<lambda>(k, x). bt_push k x) es m)"
  by (induction es arbitrary: m) (auto simp: bt_push_def)

section \<open>The order of contract keys\<close>

fun method_rank :: "http_method \<Rightarrow> nat" where
  "method_rank Get = 0" | "method_rank Post = 1" | "method_rank Put = 2" | "method_rank Patch = 3"
| "method_rank Delete = 4" | "method_rank Head = 5" | "method_rank Options = 6" | "method_rank Any = 7"

fun spec_rank :: "method_spec \<Rightarrow> nat list" where
  "spec_rank (Known m) = [0, method_rank m]"
| "spec_rank Unknown = [1]"

fun op_rank :: "graphql_op \<Rightarrow> nat" where
  "op_rank GQuery = 0" | "op_rank GMutation = 1" | "op_rank GSubscription = 2"

definition text_rank :: "string \<Rightarrow> nat list" where
  "text_rank s = map of_char s"

text \<open>The derived order compares the variant and then the fields in turn.\<close>

fun key_rank :: "contract_key \<Rightarrow> nat list list" where
  "key_rank (KHttp m t) = [[0], spec_rank m, text_rank t]"
| "key_rank (KTopic b n) = [[1], text_rank b, text_rank n]"
| "key_rank (KRpc s v m) = [[2], [0], text_rank v, text_rank m]"
| "key_rank (KGraphql p f) = [[3], [op_rank p], text_rank f]"
| "key_rank (KWebSocket r) = [[4], text_rank r]"
| "key_rank (KTable n) = [[5], text_rank n]"

lemma method_rank_inj: "method_rank m = method_rank n \<Longrightarrow> m = n"
  by (cases m; cases n) simp_all

lemma spec_rank_inj: "spec_rank m = spec_rank n \<Longrightarrow> m = n"
  by (cases m; cases n) (auto dest: method_rank_inj)

lemma op_rank_inj: "op_rank m = op_rank n \<Longrightarrow> m = n"
  by (cases m; cases n) simp_all

lemma text_rank_inj: "text_rank s = text_rank t \<Longrightarrow> s = t"
  by (simp add: text_rank_def inj_map_eq_map inj_of_char)

lemma rpc_system_eq: "(x :: rpc_system) = y"
  by (cases x; cases y) simp

lemma key_rank_inj: "key_rank k = key_rank l \<Longrightarrow> k = l"
  by (cases k; cases l) (auto dest: spec_rank_inj op_rank_inj text_rank_inj intro: rpc_system_eq)

instantiation contract_key :: linorder
begin

definition less_eq_contract_key :: "contract_key \<Rightarrow> contract_key \<Rightarrow> bool" where
  "less_eq_contract_key k l \<longleftrightarrow> key_rank k \<le> key_rank l"

definition less_contract_key :: "contract_key \<Rightarrow> contract_key \<Rightarrow> bool" where
  "less_contract_key k l \<longleftrightarrow> key_rank k < key_rank l"

instance
  by standard (auto simp: less_eq_contract_key_def less_contract_key_def dest: key_rank_inj)

end

end
