(* ===== verification/Endpoint_Table.thy ===== *)
theory Endpoint_Table
  imports Btree Global_Id Schema
begin

text \<open>
  Which service offers which endpoint: the configuration records of
  \<^verbatim>\<open>federation/contracts/config.rs\<close>, the assignment of nodes to services of
  \<^verbatim>\<open>federation/contracts/joiner/mod.rs\<close>, and the endpoint table of
  \<^verbatim>\<open>federation/contracts/joiner/endpoints.rs\<close>. A service name is its string.
\<close>

section \<open>Configuration\<close>

record provider_decl =
  pd_service :: string
  pd_key :: string
  pd_source :: "string option"

record host_alias_decl =
  ha_host :: "string option"
  ha_file :: "string option"
  ha_service :: string
  ha_source :: "string option"

record database_decl =
  dd_name :: string
  dd_service :: string
  dd_tables :: "string list"
  dd_shared_with :: "string list"

record route_prefix =
  rx_path :: string
  rx_prefix :: string

record service_decl =
  sd_name :: string
  sd_repo :: string
  sd_paths :: "string list"
  sd_hosts :: "string list"
  sd_env :: "string list"
  sd_base_path :: "string option"
  sd_route_prefixes :: "route_prefix list"
  sd_provides_graphql :: bool

record http_client_decl =
  hd_call :: string
  hd_service :: string
  hd_method :: "string option"
  hd_path_arg :: "nat option"

record schema_decl =
  sc_topic :: string
  sc_repo :: string
  sc_file :: string

record confirmed_consumer =
  cc_repo :: string
  cc_path :: string
  cc_symbol :: string
  cc_key :: string
  cc_site :: "string option"

record confirmed_provider =
  cp_service :: string
  cp_key :: string

record confirmed_binding =
  cb_consumer :: confirmed_consumer
  cb_provider :: confirmed_provider

record contract_config =
  cg_services :: "service_decl list"
  cg_http_clients :: "http_client_decl list"
  cg_generic_keys :: "string list"
  cg_schemas :: "schema_decl list"
  cg_bindings :: "confirmed_binding list"
  cg_databases :: "database_decl list"
  cg_provides :: "provider_decl list"
  cg_host_aliases :: "host_alias_decl list"

definition builtin_generic_keys :: "string list" where
  "builtin_generic_keys =
     [''GET /'', ''GET /health'', ''GET /healthz'', ''GET /ready'', ''GET /readyz'', ''GET /live'', ''GET /livez'',
      ''GET /ping'', ''GET /status'', ''GET /version'', ''GET /metrics'', ''GET /favicon.ico'']"

definition all_generic_keys :: "contract_config \<Rightarrow> string list" where
  "all_generic_keys config =
     sort (fold (\<lambda>g out. if list_ex (\<lambda>x. x = g) out then out else out @ [g]) (cg_generic_keys config) builtin_generic_keys)"

definition service_default :: "string \<Rightarrow> service_decl" where
  "service_default svc =
     \<lparr>sd_name = svc, sd_repo = svc, sd_paths = [], sd_hosts = [], sd_env = [], sd_base_path = None,
      sd_route_prefixes = [], sd_provides_graphql = True\<rparr>"

definition resolve_service_decl :: "string \<Rightarrow> contract_config \<Rightarrow> service_decl" where
  "resolve_service_decl svc config =
     (case find (\<lambda>s. sd_name s = svc) (cg_services config) of Some s \<Rightarrow> s | None \<Rightarrow> service_default svc)"

section \<open>Nodes and services\<close>

text \<open>The overlap the validation of a configuration refuses.\<close>

definition path_prefixes_overlap :: "string \<Rightarrow> string \<Rightarrow> bool" where
  "path_prefixes_overlap a b =
     (if a = b then True
      else if length a < length b \<and> starts_with a b then ends_with ''/'' a \<or> b ! length a = CHR ''/''
      else if length b < length a \<and> starts_with b a then ends_with ''/'' b \<or> a ! length b = CHR ''/''
      else False)"

definition matched_prefix :: "service_decl \<Rightarrow> string \<Rightarrow> nat option" where
  "matched_prefix s path =
     (if sd_paths s = [] then Some 0
      else case map length (filter (\<lambda>p. starts_with p path) (sd_paths s)) of
             [] \<Rightarrow> None
           | l # ls \<Rightarrow> Some (fold max ls l))"

definition better_service :: "string \<Rightarrow> string \<Rightarrow> service_decl \<Rightarrow> (service_decl \<times> nat) option \<Rightarrow> (service_decl \<times> nat) option" where
  "better_service repo path s best =
     (if sd_repo s \<noteq> repo then best
      else case matched_prefix s path of
             None \<Rightarrow> best
           | Some len \<Rightarrow>
               (case best of
                  Some (b, best_len) \<Rightarrow> if len \<le> best_len then best else Some (s, len)
                | None \<Rightarrow> Some (s, len)))"

definition node_repo :: "graph_node \<Rightarrow> string option" where
  "node_repo node =
     (case gn_repo_id node of
        Some s \<Rightarrow> Some s
      | None \<Rightarrow> (case gid_parse (gn_id node) of Inr g \<Rightarrow> Some (gid_repo_id g) | Inl _ \<Rightarrow> None))"

definition assigned_service :: "contract_config \<Rightarrow> string \<Rightarrow> string \<Rightarrow> string" where
  "assigned_service config repo path =
     (case fold (better_service repo path) (cg_services config) None of
        Some (s, _) \<Rightarrow> sd_name s
      | None \<Rightarrow> repo)"

type_synonym assignments = "(string, string) hmap"

definition assign_services :: "graph_node list \<Rightarrow> contract_config \<Rightarrow> assignments" where
  "assign_services nodes config =
     fold (\<lambda>node out. case node_repo node of
             None \<Rightarrow> out
           | Some repo \<Rightarrow> hm_put (gn_id node) (assigned_service config repo (gn_path node)) out) nodes hm_empty"

definition implicit_service :: "graph_node \<Rightarrow> string" where
  "implicit_service node = (case node_repo node of Some repo \<Rightarrow> repo | None \<Rightarrow> ''unknown'')"

section \<open>The endpoint table\<close>

type_synonym endpoint_id = "string \<times> contract_key"

record endpoint_record =
  er_id :: string
  er_fact :: "contract_fact option"
  er_template :: string
  er_method :: http_method

type_synonym endpoint_table = "(endpoint_id, endpoint_record list) btree"

definition service_provides_graphql :: "contract_config \<Rightarrow> string \<Rightarrow> bool" where
  "service_provides_graphql config svc =
     (case find (\<lambda>s. sd_name s = svc) (cg_services config) of Some s \<Rightarrow> sd_provides_graphql s | None \<Rightarrow> True)"

definition endpoint_template_for :: "provider_fact \<Rightarrow> string \<Rightarrow> service_decl \<Rightarrow> string" where
  "endpoint_template_for provider node_path service =
     (case sd_base_path service of Some bp \<Rightarrow> bp | None \<Rightarrow> [])
     @ concat (map rx_prefix (filter (\<lambda>rp. rx_path rp = node_path) (sd_route_prefixes service)))
     @ pf_template provider"

definition default_broker_for :: "graph_node \<Rightarrow> string" where
  "default_broker_for node =
     (case split_once (CHR ''/'') (gn_name node) of
        Some (broker, _) \<Rightarrow> if broker \<noteq> [] then broker else ''kafka''
      | None \<Rightarrow> ''kafka'')"

definition table_owners :: "contract_config \<Rightarrow> string \<Rightarrow> string \<Rightarrow> string list" where
  "table_owners config svc name =
     (case find (\<lambda>d. list_ex (\<lambda>t. t = name) (dd_tables d)) (cg_databases config) of
        Some db \<Rightarrow> dd_service db # dd_shared_with db
      | None \<Rightarrow> [svc])"

definition http_endpoint_key :: "graph_node \<Rightarrow> provider_fact \<Rightarrow> string \<Rightarrow> contract_key" where
  "http_endpoint_key node provider full =
     (if gn_type node = NT_Topic then KTopic (default_broker_for node) full else KHttp (Known (pf_method provider)) full)"

text \<open>What one node adds to the table, in order.\<close>

definition node_endpoints ::
    "contract_config \<Rightarrow> graph_node \<Rightarrow> string \<Rightarrow> string \<Rightarrow> (endpoint_id \<times> endpoint_record) list" where
  "node_endpoints config node svc gid =
     (case gn_contract node of
        [] \<Rightarrow> []
      | cfact # _ \<Rightarrow>
          (case cfact of
             Provider provider \<Rightarrow>
               let full = endpoint_template_for provider (gn_path node) (resolve_service_decl svc config) in
               [((svc, http_endpoint_key node provider full),
                 \<lparr>er_id = gid, er_fact = Some cfact, er_template = full, er_method = pf_method provider\<rparr>)]
           | RpcProvider rpc \<Rightarrow>
               [((svc, KRpc (rp_system rpc) (rp_service rpc) (rp_method rpc)),
                 \<lparr>er_id = gid, er_fact = Some cfact, er_template = rp_method rpc, er_method = Any\<rparr>)]
           | GraphqlProvider g \<Rightarrow>
               if \<not> service_provides_graphql config svc then []
               else [((svc, KGraphql (gp_op g) (gp_field g)),
                      \<lparr>er_id = gid, er_fact = Some cfact, er_template = gp_field g, er_method = Any\<rparr>)]
           | WebSocketProvider ws \<Rightarrow>
               [((svc, KWebSocket (wp_route ws)),
                 \<lparr>er_id = gid, er_fact = Some cfact, er_template = wp_route ws, er_method = Any\<rparr>)]
           | TableFact tbl \<Rightarrow>
               map (\<lambda>owner. ((owner, KTable (tb_name tbl)),
                     \<lparr>er_id = gid, er_fact = Some cfact, er_template = tb_name tbl, er_method = Any\<rparr>))
                 (table_owners config svc (tb_name tbl))
           | _ \<Rightarrow> []))"

definition graph_endpoints :: "contract_config \<Rightarrow> assignments \<Rightarrow> graph_node \<Rightarrow> (endpoint_id \<times> endpoint_record) list" where
  "graph_endpoints config assignments node =
     (case gid_parse (gn_id node) of
        Inl _ \<Rightarrow> []
      | Inr gid \<Rightarrow>
          (case hm_get assignments (gn_id node) of
             None \<Rightarrow> []
           | Some svc \<Rightarrow> node_endpoints config node svc gid))"

definition parse_contract_key :: "string \<Rightarrow> key_error + contract_key" where
  "parse_contract_key s =
     parse_key
       (if list_ex (\<lambda>p. starts_with p s) [''http:'', ''topic:'', ''graphql:'', ''rpc:'', ''ws:'', ''websocket:'', ''table:'']
        then s else ''http:'' @ s)"

definition declared_provider_key :: "string \<Rightarrow> contract_key option" where
  "declared_provider_key raw =
     (let full =
        (if starts_with ''http:'' raw
            \<or> list_ex (\<lambda>p. starts_with p raw) [''graphql:'', ''topic:'', ''rpc:'', ''ws:'', ''websocket:'', ''table:'']
         then raw else ''http:'' @ raw) in
      case parse_key full of Inr k \<Rightarrow> Some k | Inl _ \<Rightarrow> None)"

fun declared_shape :: "contract_key \<Rightarrow> (string \<times> http_method) option" where
  "declared_shape (KHttp (Known m) template) = Some (template, m)"
| "declared_shape (KHttp Unknown template) = None"
| "declared_shape (KTopic broker name) = Some (name, Any)"
| "declared_shape (KRpc sys service m) = Some (m, Any)"
| "declared_shape key = Some (wire_form key, Any)"

definition declared_path_prefix :: string where
  "declared_path_prefix = ''repos.yaml#provides[''"

definition declared_endpoint :: "contract_config \<Rightarrow> nat \<times> provider_decl \<Rightarrow> (endpoint_id \<times> endpoint_record) list" where
  "declared_endpoint config entry =
     (case entry of (i, decl) \<Rightarrow>
        (case declared_provider_key (pd_key decl) of
           None \<Rightarrow> []
         | Some key \<Rightarrow>
             (case declared_shape key of
                None \<Rightarrow> []
              | Some (template, m) \<Rightarrow>
                  let repo_name = (case find (\<lambda>s. sd_name s = pd_service decl) (cg_services config) of
                                     Some s \<Rightarrow> sd_repo s | None \<Rightarrow> pd_service decl) in
                  (case repo_id_new repo_name of
                     Inl _ \<Rightarrow> []
                   | Inr repo \<Rightarrow>
                       [((pd_service decl, key),
                         \<lparr>er_id = global_id_new repo NT_HttpRoute (declared_path_prefix @ show_nat i @ '']'') (pd_key decl)
                                   (Some (i mod 2 ^ 32)),
                          er_fact = None, er_template = template, er_method = m\<rparr>)]))))"

definition endpoint_entries :: "graph_node list \<Rightarrow> assignments \<Rightarrow> contract_config \<Rightarrow> (endpoint_id \<times> endpoint_record) list" where
  "endpoint_entries nodes assignments config =
     concat (map (graph_endpoints config assignments) nodes)
     @ concat (map (declared_endpoint config) (zip [0..<length (cg_provides config)] (cg_provides config)))"

definition build_endpoints :: "graph_node list \<Rightarrow> assignments \<Rightarrow> contract_config \<Rightarrow> endpoint_table" where
  "build_endpoints nodes assignments config =
     fold (\<lambda>(k, r). bt_push k r) (endpoint_entries nodes assignments config) []"

section \<open>The same keys for schemas\<close>

definition contract_key_for_provider :: "graph_node \<Rightarrow> string \<Rightarrow> contract_config \<Rightarrow> (endpoint_id \<times> string) option" where
  "contract_key_for_provider node svc config =
     (case gn_contract node of
        [] \<Rightarrow> None
      | cfact # _ \<Rightarrow>
          (case cfact of
             Provider provider \<Rightarrow>
               let full = endpoint_template_for provider (gn_path node) (resolve_service_decl svc config) in
               Some ((svc, http_endpoint_key node provider full), full)
           | RpcProvider rpc \<Rightarrow> Some ((svc, KRpc (rp_system rpc) (rp_service rpc) (rp_method rpc)), rp_method rpc)
           | GraphqlProvider g \<Rightarrow> Some ((svc, KGraphql (gp_op g) (gp_field g)), gp_field g)
           | WebSocketProvider ws \<Rightarrow> Some ((svc, KWebSocket (wp_route ws)), wp_route ws)
           | TableFact tbl \<Rightarrow>
               let owner = (case find (\<lambda>d. list_ex (\<lambda>t. t = tb_name tbl) (dd_tables d)) (cg_databases config) of
                              Some d \<Rightarrow> dd_service d | None \<Rightarrow> svc) in
               Some ((owner, KTable (tb_name tbl)), tb_name tbl)
           | _ \<Rightarrow> None))"

definition endpoint_id_string :: "endpoint_id \<Rightarrow> string" where
  "endpoint_id_string i = fst i @ ''|'' @ wire_form (snd i)"

definition route_owner :: "endpoint_table \<Rightarrow> (endpoint_id \<Rightarrow> bool) \<Rightarrow> string option" where
  "route_owner endpoints p = map_option fst (find p (map fst endpoints))"

end
