(* ===== verification/Join_Http.thy ===== *)
theory Join_Http
  imports Endpoint_Table Route_Match
begin

text \<open>
  From an HTTP call to the endpoint it reaches: \<^verbatim>\<open>federation/contracts/joiner/consumer_http.rs\<close>,
  with the host rules of \<^verbatim>\<open>federation/contracts/url_resolution.rs\<close>, the client registry of
  \<^verbatim>\<open>federation/contracts/clients.rs\<close> and the result records of \<^verbatim>\<open>federation/contracts/index.rs\<close>. The accumulators the
  code passes by reference form the record \<open>join_state\<close>.
\<close>

section \<open>Results\<close>

datatype unresolved_reason =
    NoRouteInService | NoMatchingService | Unnormalized | WrapperUnconfigured | EnvUnmapped | EnvAmbiguous
  | RpcStubUnknown | GraphqlNoOp | DynamicUrl | BaseUnknown | DynamicTopic | ExternalRef | ExternalSchemaRef
  | DynamicSql | OrmDynamicQuery

datatype consumer_target =
    Binds edge_provenance rat route_match "string option"
  | External string
  | Internal
  | Unresolved unresolved_reason "string option"

record consumer_resolution =
  cr_call_id :: string
  cr_service :: string
  cr_target :: "consumer_target option"
  cr_bound_endpoints :: "endpoint_id list"
  cr_reads_complete :: bool

record binds_edge =
  be_consumer :: string
  be_provider :: string
  be_consumer_service :: string
  be_provider_service :: string
  be_target_endpoint :: endpoint_id
  be_provenance :: edge_provenance
  be_confidence :: rat
  be_route_match :: route_match
  be_stripped_prefix :: "string option"

record join_state =
  js_binds :: "binds_edge list"
  js_external :: "(string, nat) btree"
  js_unresolved_env :: "(string, nat) btree"
  js_ambiguous_env :: "(string, string list) btree"

definition bt_count :: "string \<Rightarrow> (string, nat) btree \<Rightarrow> (string, nat) btree" where
  "bt_count k = bt_update k (\<lambda>old. case old of Some n \<Rightarrow> n + 1 | None \<Rightarrow> 1)"

definition bt_extend :: "string \<Rightarrow> string list \<Rightarrow> (string, string list) btree \<Rightarrow> (string, string list) btree" where
  "bt_extend k xs = bt_update k (\<lambda>old. case old of Some ys \<Rightarrow> ys @ xs | None \<Rightarrow> xs)"

section \<open>Hosts\<close>

definition host_matches_pattern :: "string \<Rightarrow> string \<Rightarrow> bool" where
  "host_matches_pattern pattern host =
     (case strip_prefix ''*.'' pattern of
        Some sfx \<Rightarrow> host = sfx \<or> ends_with (''.'' @ sfx) host
      | None \<Rightarrow> pattern = host)"

definition service_for_env :: "contract_config \<Rightarrow> string \<Rightarrow> string option" where
  "service_for_env config env = map_option sd_name (find (\<lambda>s. list_ex (\<lambda>e. e = env) (sd_env s)) (cg_services config))"

definition service_for_host :: "contract_config \<Rightarrow> string \<Rightarrow> string option" where
  "service_for_host config host =
     map_option sd_name (find (\<lambda>s. list_ex (\<lambda>p. host_matches_pattern p host) (sd_hosts s)) (cg_services config))"

fun first_service_for_env :: "contract_config \<Rightarrow> string list \<Rightarrow> string option" where
  "first_service_for_env config [] = None"
| "first_service_for_env config (env # envs) =
     (case service_for_env config env of Some svc \<Rightarrow> Some svc | None \<Rightarrow> first_service_for_env config envs)"

definition service_from_host :: "host_part \<Rightarrow> contract_config \<Rightarrow> string option" where
  "service_from_host host config =
     (case host of
        HostEnv names \<Rightarrow> first_service_for_env config names
      | HostLiteral h \<Rightarrow> service_for_host config h
      | _ \<Rightarrow> None)"

definition target_service_from_env :: "consumer_fact \<Rightarrow> contract_config \<Rightarrow> string option" where
  "target_service_from_env c config =
     (case nu_host (cf_url c) of HostEnv envs \<Rightarrow> first_service_for_env config envs | _ \<Rightarrow> None)"

definition target_service_from_hosts :: "consumer_fact \<Rightarrow> contract_config \<Rightarrow> string option" where
  "target_service_from_hosts c config =
     (case nu_host (cf_url c) of HostLiteral host \<Rightarrow> service_for_host config host | _ \<Rightarrow> None)"

text \<open>The environment index: the hosts bound to a variable, in the order they were found.\<close>

type_synonym env_index = "string \<Rightarrow> string list option"

definition distinct_hosts :: "env_index \<Rightarrow> string \<Rightarrow> string list" where
  "distinct_hosts env var = (case env var of None \<Rightarrow> [] | Some hosts \<Rightarrow> remdups_adj (sort hosts))"

datatype env_resolution = EnvService string | EnvHosts "string list" | EnvNone

definition env_var_step ::
    "env_index \<Rightarrow> string \<Rightarrow> string list \<times> bool \<times> (string, nat) btree \<Rightarrow> string list \<times> bool \<times> (string, nat) btree" where
  "env_var_step env var st =
     (case st of (distinct_found, any_unmapped, unresolved) \<Rightarrow>
        let hosts = distinct_hosts env var in
        if hosts = [] then (distinct_found, True, bt_count var unresolved)
        else (fold (\<lambda>h acc. if h \<in> set acc then acc else acc @ [h]) hosts distinct_found, any_unmapped, unresolved))"

definition resolve_env_consumer ::
    "consumer_fact \<Rightarrow> env_index \<Rightarrow> contract_config \<Rightarrow> (string, nat) btree \<Rightarrow> env_resolution option \<times> (string, nat) btree" where
  "resolve_env_consumer c env config unresolved =
     (case nu_host (cf_url c) of
        HostEnv vars \<Rightarrow>
          if vars = [] then (None, unresolved)
          else (case fold (env_var_step env) vars ([], False, unresolved) of
                  (hosts, any_unmapped, unresolved) \<Rightarrow>
                    if any_unmapped then (Some EnvNone, unresolved)
                    else if 1 < length hosts then (Some (EnvHosts hosts), unresolved)
                    else (case service_for_host config (hosts ! 0) of
                            Some svc \<Rightarrow> (Some (EnvService svc), unresolved)
                          | None \<Rightarrow> (Some EnvNone, bt_count (''no_service:'' @ hosts ! 0) unresolved)))
      | _ \<Rightarrow> (None, unresolved))"

definition host_is_external_exempt :: "string \<Rightarrow> bool" where
  "host_is_external_exempt host \<longleftrightarrow>
     host \<in> set [''localhost'', ''127.0.0.1'', ''0.0.0.0'', ''[::1]'', ''host.docker.internal'']"

section \<open>Clients\<close>

datatype client_url_part = ClientLit string | ClientEnv "string list" | ClientExpr string

fun as_normalize_part :: "client_url_part \<Rightarrow> url_part" where
  "as_normalize_part (ClientLit s) = LitPart s"
| "as_normalize_part (ClientEnv names) = HolePart (case names of [] \<Rightarrow> [] | n # _ \<Rightarrow> n)"
| "as_normalize_part (ClientExpr s) = HolePart s"

definition compose_url :: "client_url_part list \<Rightarrow> client_url_part list \<Rightarrow> client_url_part list" where
  "compose_url call_path base = base @ call_path"

definition compose_and_normalize :: "(string \<Rightarrow> bool) \<Rightarrow> client_url_part list \<Rightarrow> client_url_part list \<Rightarrow> normalized_url" where
  "compose_and_normalize alnum call_path base = normalize_url alnum (map as_normalize_part (compose_url call_path base))"

text \<open>The registry in the order its maps iterate: module, name and base URL of each client.\<close>

type_synonym client_registry = "(string \<times> string \<times> client_url_part list) list"

definition registry_has :: "client_registry \<Rightarrow> string \<Rightarrow> bool" where
  "registry_has registry query \<longleftrightarrow> list_ex (\<lambda>(_, name, _). name = query) registry"

fun registry_service :: "(string \<Rightarrow> bool) \<Rightarrow> contract_config \<Rightarrow> consumer_fact \<Rightarrow> string \<Rightarrow> client_registry \<Rightarrow> string option" where
  "registry_service alnum config c expr [] = None"
| "registry_service alnum config c expr ((_, name, base) # defs) =
     (if name \<noteq> expr then registry_service alnum config c expr defs
      else if base = [] then registry_service alnum config c expr defs
      else let template = (case nu_template (cf_url c) of Some t \<Rightarrow> t | None \<Rightarrow> []);
               path_part = ClientLit (if template = [] then ''/'' else template) in
           (case service_from_host (nu_host (compose_and_normalize alnum [path_part] base)) config of
              Some svc \<Rightarrow> Some svc
            | None \<Rightarrow> registry_service alnum config c expr defs))"

definition target_service_via_registry ::
    "(string \<Rightarrow> bool) \<Rightarrow> consumer_fact \<Rightarrow> client_registry \<Rightarrow> contract_config \<Rightarrow> string option" where
  "target_service_via_registry alnum c registry config =
     (if registry = [] then None
      else case cf_via c of
             ViaReceiver expr fn_name b \<Rightarrow> registry_service alnum config c expr registry
           | ViaLibrary l \<Rightarrow> None)"

record compiled_http_client =
  ch_pattern :: string
  ch_service :: string
  ch_method :: "http_method option"
  ch_path_arg :: "nat option"

definition compile_http_clients :: "contract_config \<Rightarrow> compiled_http_client list" where
  "compile_http_clients config =
     map (\<lambda>e. \<lparr>ch_pattern = hd_call e, ch_service = hd_service e,
               ch_method = Option.bind (hd_method e) http_method_parse, ch_path_arg = hd_path_arg e\<rparr>) (cg_http_clients config)"

definition pattern_matches :: "string \<Rightarrow> string \<Rightarrow> bool" where
  "pattern_matches pattern fn_name =
     (case str_find ''{method}'' pattern of
        Some idx \<Rightarrow>
          let head = take idx pattern; tail = drop (idx + length ''{method}'') pattern in
          starts_with head fn_name \<and> ends_with tail fn_name \<and> length head + length tail \<le> length fn_name
      | None \<Rightarrow> fn_name = pattern)"

definition receiver_call :: "call_via \<Rightarrow> string option" where
  "receiver_call via = (case via of ViaReceiver expr fn_name b \<Rightarrow> Some (expr @ ''.'' @ fn_name) | ViaLibrary l \<Rightarrow> None)"

definition http_clients_match :: "compiled_http_client list \<Rightarrow> call_via \<Rightarrow> bool" where
  "http_clients_match clients via =
     (case receiver_call via of
        None \<Rightarrow> False
      | Some combined \<Rightarrow> list_ex (\<lambda>e. pattern_matches (ch_pattern e) combined) clients)"

definition target_service_from_http_client :: "consumer_fact \<Rightarrow> compiled_http_client list \<Rightarrow> string option" where
  "target_service_from_http_client c clients =
     (case receiver_call (cf_via c) of
        None \<Rightarrow> None
      | Some combined \<Rightarrow> map_option ch_service (find (\<lambda>e. pattern_matches (ch_pattern e) combined) clients))"

definition is_wrapper_candidate :: "consumer_fact \<Rightarrow> bool" where
  "is_wrapper_candidate c \<longleftrightarrow> (case cf_via c of ViaReceiver expr fn_name b \<Rightarrow> True | ViaLibrary l \<Rightarrow> False)"

end
