(* ===== verification/Join_Resolve.thy ===== *)
theory Join_Resolve
  imports Join_Http
begin

text \<open>
  The rules that resolve one HTTP call, \<^verbatim>\<open>federation/contracts/joiner/consumer_http.rs\<close>: the matching
  endpoints of a service by specificity, the fallback by operation id, the search of all services
  for a call whose host is unknown, in the order \<open>resolve_consumer\<close> tries them.
\<close>

definition f32_epsilon :: rat where
  "f32_epsilon = 1 / 2 ^ 23"

definition operation_id_confidence :: rat where
  "operation_id_confidence = 9 / 10"

definition unbound_host_confidence :: rat where
  "unbound_host_confidence = 6 / 10"

definition ambiguous_confidence :: rat where
  "ambiguous_confidence = 3 / 10"

definition heuristic_provenance_for :: "nat \<Rightarrow> string \<times> rat" where
  "heuristic_provenance_for hit_count =
     (if 1 < hit_count then (''ambiguous'', ambiguous_confidence) else (''unbound_host'', unbound_host_confidence))"

definition provenance_for_detail :: "match_detail \<Rightarrow> edge_provenance \<times> rat" where
  "provenance_for_detail d =
     (let conf = md_confidence d in
      if md_kind d = RM_PrefixStripped then (Heuristic ''prefix_stripped'' conf, conf)
      else if \<bar>conf - 1\<bar> < f32_epsilon then (Static TreeSitter, conf)
      else (Heuristic (if \<bar>conf - 6 / 10\<bar> < f32_epsilon then ''method_unknown'' else ''static'') conf, conf))"

section \<open>Endpoints of one service\<close>

fun first_match :: "method_spec \<Rightarrow> string \<Rightarrow> endpoint_record list \<Rightarrow> match_detail option" where
  "first_match cm ct [] = None"
| "first_match cm ct (p # ps) =
     (case match_route cm ct (er_method p) (er_template p) of
        Match d \<Rightarrow> Some d
      | NoMatch \<Rightarrow> first_match cm ct ps)"

fun candidates :: "string \<Rightarrow> method_spec \<Rightarrow> string \<Rightarrow> endpoint_table \<Rightarrow> (contract_key \<times> match_detail) list" where
  "candidates service cm ct [] = []"
| "candidates service cm ct (((svc, key), ps) # es) =
     (if svc \<noteq> service then candidates service cm ct es
      else case first_match cm ct ps of
             Some d \<Rightarrow> (key, d) # candidates service cm ct es
           | None \<Rightarrow> candidates service cm ct es)"

fun http_template :: "contract_key \<Rightarrow> string" where
  "http_template (KHttp m template) = template"
| "http_template _ = []"

text \<open>A stable sort, most specific first.\<close>

fun insert_candidate ::
    "contract_key \<times> match_detail \<Rightarrow> (contract_key \<times> match_detail) list \<Rightarrow> (contract_key \<times> match_detail) list" where
  "insert_candidate c [] = [c]"
| "insert_candidate c (c' # cs) =
     (if compare_specificity (http_template (fst c)) (http_template (fst c')) < 0
      then c' # insert_candidate c cs else c # c' # cs)"

definition sort_candidates :: "(contract_key \<times> match_detail) list \<Rightarrow> (contract_key \<times> match_detail) list" where
  "sort_candidates cs = foldr insert_candidate cs []"

definition best_provider_for_in ::
    "string \<Rightarrow> method_spec \<Rightarrow> string \<Rightarrow> bool \<Rightarrow> endpoint_table \<Rightarrow> (contract_key \<times> match_detail) option" where
  "best_provider_for_in service cm ct rule_3 endpoints =
     (case sort_candidates (candidates service cm ct endpoints) of
        [] \<Rightarrow> None
      | c # cs \<Rightarrow>
          if rule_3 then Some c
          else case find (\<lambda>c. md_kind (snd c) \<noteq> RM_PrefixStripped) (c # cs) of
                 Some non_prefix \<Rightarrow> Some non_prefix
               | None \<Rightarrow> Some c)"

definition best_provider_for ::
    "string \<Rightarrow> method_spec \<Rightarrow> string option \<Rightarrow> endpoint_table \<Rightarrow> (contract_key \<times> match_detail) option" where
  "best_provider_for service cm ct endpoints =
     Option.bind ct (\<lambda>template. best_provider_for_in service cm template False endpoints)"

fun operation_provider :: "string \<Rightarrow> endpoint_record list \<Rightarrow> string option" where
  "operation_provider fn_name [] = None"
| "operation_provider fn_name (p # ps) =
     (if (case er_fact p of Some (Provider pf) \<Rightarrow> pf_operation_id pf | _ \<Rightarrow> None) = Some fn_name
      then Some (er_id p) else operation_provider fn_name ps)"

fun find_endpoint_by_operation_id :: "string \<Rightarrow> string \<Rightarrow> endpoint_table \<Rightarrow> (contract_key \<times> string) option" where
  "find_endpoint_by_operation_id service fn_name [] = None"
| "find_endpoint_by_operation_id service fn_name (((svc, key), ps) # es) =
     (if svc \<noteq> service then find_endpoint_by_operation_id service fn_name es
      else case operation_provider fn_name ps of
             Some gid \<Rightarrow> Some (key, gid)
           | None \<Rightarrow> find_endpoint_by_operation_id service fn_name es)"

definition operation_fallback :: "string \<Rightarrow> consumer_fact \<Rightarrow> endpoint_table \<Rightarrow> (contract_key \<times> string) option" where
  "operation_fallback service c endpoints =
     (case cf_via c of
        ViaReceiver expr fn_name b \<Rightarrow> find_endpoint_by_operation_id service fn_name endpoints
      | ViaLibrary l \<Rightarrow> None)"

definition provider_node_id :: "endpoint_table \<Rightarrow> string \<Rightarrow> contract_key \<Rightarrow> string" where
  "provider_node_id endpoints service key =
     (case bt_get endpoints (service, key) of Some (p # _) \<Rightarrow> er_id p | _ \<Rightarrow> ''unknown'')"

section \<open>Binding to a known service\<close>

definition resolution :: "string \<Rightarrow> string \<Rightarrow> consumer_target option \<Rightarrow> endpoint_id list \<Rightarrow> bool \<Rightarrow> consumer_resolution" where
  "resolution call_id own target bound reads =
     \<lparr>cr_call_id = call_id, cr_service = own, cr_target = target, cr_bound_endpoints = bound, cr_reads_complete = reads\<rparr>"

definition no_route :: "string \<Rightarrow> string \<Rightarrow> string \<Rightarrow> consumer_fact \<Rightarrow> consumer_resolution" where
  "no_route call_id own svc c =
     resolution call_id own (Some (Unresolved NoRouteInService (Some svc))) [] (cf_reads_complete c)"

definition bind_to ::
    "string \<Rightarrow> string \<Rightarrow> string \<Rightarrow> contract_key \<Rightarrow> string \<Rightarrow> edge_provenance \<Rightarrow> rat \<Rightarrow> route_match \<Rightarrow> string option \<Rightarrow> binds_edge" where
  "bind_to call_id own svc key provider prov conf kind stripped =
     \<lparr>be_consumer = call_id, be_provider = provider, be_consumer_service = own, be_provider_service = svc,
      be_target_endpoint = (svc, key), be_provenance = prov, be_confidence = conf, be_route_match = kind,
      be_stripped_prefix = stripped\<rparr>"

definition bind_operation ::
    "string \<Rightarrow> consumer_fact \<Rightarrow> string \<Rightarrow> string \<Rightarrow> contract_key \<times> string \<Rightarrow> binds_edge list \<Rightarrow> consumer_resolution \<times> binds_edge list" where
  "bind_operation call_id c own svc hit binds =
     (let prov = Heuristic ''operation_id'' operation_id_confidence in
      (resolution call_id own (Some (Binds prov operation_id_confidence RM_Exact None)) [(svc, fst hit)] (cf_reads_complete c),
       binds @ [bind_to call_id own svc (fst hit) (snd hit) prov operation_id_confidence RM_Exact None]))"

definition match_one_service ::
    "string \<Rightarrow> consumer_fact \<Rightarrow> string \<Rightarrow> string \<Rightarrow> method_spec \<Rightarrow> string option \<Rightarrow> bool \<Rightarrow> endpoint_table
     \<Rightarrow> binds_edge list \<Rightarrow> consumer_resolution \<times> binds_edge list" where
  "match_one_service call_id c own svc cm ct rule_3 endpoints binds =
     (case ct of
        None \<Rightarrow> (no_route call_id own svc c, binds)
      | Some template \<Rightarrow>
          (case best_provider_for_in svc cm template rule_3 endpoints of
             None \<Rightarrow>
               (case operation_fallback svc c endpoints of
                  Some hit \<Rightarrow> bind_operation call_id c own svc hit binds
                | None \<Rightarrow> (no_route call_id own svc c, binds))
           | Some (key, d) \<Rightarrow>
               (if md_kind d = RM_PrefixStripped \<and> is_wrapper_candidate c
                   \<and> operation_fallback svc c endpoints \<noteq> None
                then bind_operation call_id c own svc (the (operation_fallback svc c endpoints)) binds
                else if md_kind d = RM_PrefixStripped then (no_route call_id own svc c, binds)
                else (case provenance_for_detail d of (prov, conf) \<Rightarrow>
                  (resolution call_id own (Some (Binds prov conf (md_kind d) (md_stripped_prefix d))) [(svc, key)] (cf_reads_complete c),
                   binds @ [bind_to call_id own svc key (provider_node_id endpoints svc key) prov conf (md_kind d) (md_stripped_prefix d)])))))"

section \<open>The rules in order\<close>

definition with_binds :: "join_state \<Rightarrow> consumer_resolution \<times> binds_edge list \<Rightarrow> consumer_resolution \<times> join_state" where
  "with_binds st r = (fst r, st\<lparr>js_binds := snd r\<rparr>)"

definition rule_binds ::
    "string \<Rightarrow> consumer_fact \<Rightarrow> string \<Rightarrow> endpoint_table \<Rightarrow> join_state \<Rightarrow> string \<Rightarrow> consumer_resolution \<times> join_state" where
  "rule_binds call_id c own endpoints st svc =
     with_binds st (match_one_service call_id c own svc (cf_method c) (nu_template (cf_url c)) True endpoints (js_binds st))"

definition host_alias :: "string \<Rightarrow> consumer_fact \<Rightarrow> contract_config \<Rightarrow> host_alias_decl option" where
  "host_alias call_id c config =
     (let call_path = (case gid_path call_id of Some p \<Rightarrow> p | None \<Rightarrow> []) in
      find (\<lambda>a. case nu_host (cf_url c) of
               HostExpr expr \<Rightarrow> ha_host a = Some expr \<or> ha_file a = Some call_path
             | HostNone \<Rightarrow> ha_file a = Some call_path
             | _ \<Rightarrow> False) (cg_host_aliases config))"

definition internal_route :: "consumer_fact \<Rightarrow> string \<Rightarrow> string \<Rightarrow> endpoint_table \<Rightarrow> contract_key option" where
  "internal_route c own template endpoints =
     (if nu_host (cf_url c) = HostNone \<and> starts_with ''/'' template
      then case best_provider_for own (cf_method c) (Some template) endpoints of
             Some (key, d) \<Rightarrow> if \<bar>md_confidence d - 1\<bar> < f32_epsilon then Some key else None
           | None \<Rightarrow> None
      else None)"

definition generic_keys :: "contract_config \<Rightarrow> contract_key list" where
  "generic_keys config =
     List.map_filter (\<lambda>s. case parse_contract_key s of Inr k \<Rightarrow> Some k | Inl _ \<Rightarrow> None) (all_generic_keys config)"

definition strong_hit :: "contract_key list \<Rightarrow> method_spec \<Rightarrow> string \<Rightarrow> endpoint_record list \<Rightarrow> bool" where
  "strong_hit generic cm template providers =
     list_ex (\<lambda>p. KHttp (Known (er_method p)) (er_template p) \<notin> set generic
               \<and> (case match_route cm template (er_method p) (er_template p) of
                    Match d \<Rightarrow> md_kind d \<noteq> RM_PrefixStripped
                  | NoMatch \<Rightarrow> False)) providers"

definition service_hits :: "contract_config \<Rightarrow> string \<Rightarrow> method_spec \<Rightarrow> string \<Rightarrow> endpoint_table \<Rightarrow> string list" where
  "service_hits config own cm template endpoints =
     remdups_adj (sort (map (fst \<circ> fst)
       (filter (\<lambda>((svc, key), providers). svc \<noteq> own \<and> strong_hit (generic_keys config) cm template providers) endpoints)))"

definition bind_hit ::
    "string \<Rightarrow> consumer_fact \<Rightarrow> string \<Rightarrow> string \<times> rat \<Rightarrow> endpoint_table \<Rightarrow> string
     \<Rightarrow> binds_edge list \<times> endpoint_id list \<Rightarrow> binds_edge list \<times> endpoint_id list" where
  "bind_hit call_id c own prov endpoints svc acc =
     (case acc of (binds, bound) \<Rightarrow>
        (case best_provider_for svc (cf_method c) (nu_template (cf_url c)) endpoints of
           None \<Rightarrow> (binds, bound)
         | Some (key, d) \<Rightarrow>
             (binds @ [bind_to call_id own svc key (provider_node_id endpoints svc key) (Heuristic (fst prov) (snd prov)) (snd prov)
                         (md_kind d) (md_stripped_prefix d)],
              bound @ [(svc, key)])))"

definition bind_hits ::
    "string \<Rightarrow> consumer_fact \<Rightarrow> string \<Rightarrow> string list \<Rightarrow> endpoint_table \<Rightarrow> binds_edge list \<Rightarrow> consumer_resolution \<times> binds_edge list" where
  "bind_hits call_id c own hits endpoints binds =
     (let prov = heuristic_provenance_for (length hits) in
      case fold (bind_hit call_id c own prov endpoints) hits (binds, []) of
        (binds, bound) \<Rightarrow>
          (resolution call_id own
             (if bound = [] then None
              else Some (Binds (Heuristic (fst prov) (snd prov)) (snd prov) (if length hits = 1 then RM_Exact else RM_Pattern) None))
             bound (cf_reads_complete c),
           binds))"

text \<open>The rules after the environment index: declared variables and hosts, external hosts, aliases,
  dynamic templates, calls to the own service, and the search of all other services.\<close>

definition resolve_rest ::
    "string \<Rightarrow> consumer_fact \<Rightarrow> string \<Rightarrow> contract_config \<Rightarrow> endpoint_table \<Rightarrow> bool \<Rightarrow> join_state \<Rightarrow> consumer_resolution \<times> join_state" where
  "resolve_rest call_id c own config endpoints env_unmapped st =
     (let unresolved = (\<lambda>reason. (resolution call_id own (Some (Unresolved reason None)) [] (cf_reads_complete c), st)) in
      case target_service_from_env c config of
        Some svc \<Rightarrow> rule_binds call_id c own endpoints st svc
      | None \<Rightarrow>
     (case target_service_from_hosts c config of
        Some svc \<Rightarrow> rule_binds call_id c own endpoints st svc
      | None \<Rightarrow>
     (case (case nu_host (cf_url c) of HostLiteral host \<Rightarrow> if host_is_external_exempt host then None else Some host | _ \<Rightarrow> None) of
        Some host \<Rightarrow>
          (resolution call_id own (Some (External host)) [] (cf_reads_complete c),
           st\<lparr>js_external := bt_count host (js_external st)\<rparr>)
      | None \<Rightarrow>
     (case host_alias call_id c config of
        Some alias \<Rightarrow>
          (if nu_template (cf_url c) = None then (no_route call_id own (ha_service alias) c, st)
           else rule_binds call_id c own endpoints st (ha_service alias))
      | None \<Rightarrow>
     (case nu_template (cf_url c) of
        None \<Rightarrow> unresolved Unnormalized
      | Some template \<Rightarrow>
     (case internal_route c own template endpoints of
        Some key \<Rightarrow> (resolution call_id own (Some Internal) [(own, key)] (cf_reads_complete c), st)
      | None \<Rightarrow>
          (let hits = service_hits config own (cf_method c) template endpoints in
           if hits = [] then unresolved (if env_unmapped then EnvUnmapped else NoMatchingService)
           else with_binds st (bind_hits call_id c own hits endpoints (js_binds st)))))))))"

definition resolve_consumer ::
    "(string \<Rightarrow> bool) \<Rightarrow> string \<Rightarrow> consumer_fact \<Rightarrow> string \<Rightarrow> contract_config \<Rightarrow> compiled_http_client list \<Rightarrow> endpoint_table
     \<Rightarrow> client_registry \<Rightarrow> env_index \<Rightarrow> join_state \<Rightarrow> consumer_resolution \<times> join_state" where
  "resolve_consumer alnum call_id c own config clients endpoints registry env st =
     (case target_service_via_registry alnum c registry config of
        Some svc \<Rightarrow> rule_binds call_id c own endpoints st svc
      | None \<Rightarrow>
     (case target_service_from_http_client c clients of
        Some svc \<Rightarrow> rule_binds call_id c own endpoints st svc
      | None \<Rightarrow>
     (case resolve_env_consumer c env config (js_unresolved_env st) of (resolved, unresolved_env) \<Rightarrow>
        let st = st\<lparr>js_unresolved_env := unresolved_env\<rparr> in
        (case resolved of
           Some (EnvService svc) \<Rightarrow> rule_binds call_id c own endpoints st svc
         | Some (EnvHosts hosts) \<Rightarrow>
             (let names = (case nu_host (cf_url c) of HostEnv names \<Rightarrow> names | _ \<Rightarrow> []) in
              (resolution call_id own (Some (Unresolved EnvAmbiguous None)) [] (cf_reads_complete c),
               st\<lparr>js_ambiguous_env := fold (\<lambda>h. bt_extend (''ambiguous:'' @ h) names) hosts (js_ambiguous_env st)\<rparr>))
         | Some EnvNone \<Rightarrow> resolve_rest call_id c own config endpoints True st
         | None \<Rightarrow> resolve_rest call_id c own config endpoints False st))))"

end
