(* ===== verification/Join_Protocol.thy ===== *)
theory Join_Protocol
  imports Join_Resolve
begin

text \<open>
  Calls that name their contract: topics, remote procedures, GraphQL fields, websockets and tables,
  \<^verbatim>\<open>federation/contracts/joiner/consumer_protocol.rs\<close>, and the choice between them,
  \<^verbatim>\<open>federation/contracts/protocol_dispatch.rs\<close>.
\<close>

datatype ambiguity_policy = PolicyNoMatch | PolicyGraphqlNoOp "string option" | PolicyRpcStubUnknown

type_synonym key_hit = "string \<times> contract_key \<times> string"

fun key_hits :: "(endpoint_id \<Rightarrow> bool) \<Rightarrow> endpoint_table \<Rightarrow> key_hit list" where
  "key_hits p [] = []"
| "key_hits p ((i, providers) # es) =
     (if \<not> p i then key_hits p es
      else case providers of
             [] \<Rightarrow> key_hits p es
           | r # _ \<Rightarrow> (fst i, snd i, er_id r) # key_hits p es)"

definition bind_static :: "string \<Rightarrow> string \<Rightarrow> key_hit \<Rightarrow> binds_edge" where
  "bind_static call_id own hit =
     (case hit of (svc, key, provider) \<Rightarrow> bind_to call_id own svc key provider (Static Regex) 1 RM_Exact None)"

definition hit_endpoint :: "key_hit \<Rightarrow> endpoint_id" where
  "hit_endpoint hit = (case hit of (svc, key, provider) \<Rightarrow> (svc, key))"

definition sort_endpoints :: "endpoint_id list \<Rightarrow> endpoint_id list" where
  "sort_endpoints = sort_key (\<lambda>(svc, key). (svc, wire_form key))"

definition static_target :: consumer_target where
  "static_target = Binds (Static Regex) 1 RM_Exact None"

fun policy_target :: "ambiguity_policy \<Rightarrow> nat \<Rightarrow> consumer_target" where
  "policy_target PolicyNoMatch n = (if n = 0 then Unresolved NoMatchingService None else static_target)"
| "policy_target PolicyRpcStubUnknown n = (if n = 0 \<or> 1 < n then Unresolved RpcStubUnknown None else static_target)"
| "policy_target (PolicyGraphqlNoOp owner) n = (if n \<noteq> 1 then Unresolved GraphqlNoOp owner else static_target)"

definition resolve_by_key ::
    "string \<Rightarrow> endpoint_table \<Rightarrow> (endpoint_id \<Rightarrow> bool) \<Rightarrow> ambiguity_policy \<Rightarrow> string \<Rightarrow> binds_edge list
     \<Rightarrow> consumer_resolution \<times> binds_edge list" where
  "resolve_by_key call_id endpoints p policy own binds =
     (let hits = key_hits p endpoints;
          own_hits = filter (\<lambda>h. fst h = own) hits;
          others = filter (\<lambda>h. fst h \<noteq> own) hits;
          is_internal = (others = [] \<and> length own_hits = 1);
          target = (if is_internal then Internal else policy_target policy (length others)) in
      if is_internal then (resolution call_id own (Some target) (map hit_endpoint own_hits) True, binds)
      else case target of
             Binds prov conf kind stripped \<Rightarrow>
               (resolution call_id own (Some target) (sort_endpoints (map hit_endpoint others)) True,
                binds @ map (bind_static call_id own) others)
           | _ \<Rightarrow> (resolution call_id own (Some target) [] True, binds))"

section \<open>One resolver per protocol\<close>

definition resolve_topic_consumer ::
    "string \<Rightarrow> topic_consumer_fact \<Rightarrow> string \<Rightarrow> endpoint_table \<Rightarrow> binds_edge list \<Rightarrow> consumer_resolution \<times> binds_edge list" where
  "resolve_topic_consumer call_id c own endpoints binds =
     resolve_by_key call_id endpoints (\<lambda>i. snd i = KTopic (tc_broker c) (tc_name c)) PolicyNoMatch own binds"

fun is_graphql_route :: "contract_key \<Rightarrow> bool" where
  "is_graphql_route (KHttp m template) \<longleftrightarrow> template = ''/graphql'' \<and> (m = Known Post \<or> m = Unknown)"
| "is_graphql_route _ \<longleftrightarrow> False"

definition resolve_graphql_consumer ::
    "string \<Rightarrow> graphql_consumer_fact \<Rightarrow> string \<Rightarrow> endpoint_table \<Rightarrow> binds_edge list \<Rightarrow> consumer_resolution \<times> binds_edge list" where
  "resolve_graphql_consumer call_id c own endpoints binds =
     (let first_owner = route_owner endpoints (\<lambda>i. is_graphql_route (snd i));
          total_owners = length (filter (\<lambda>i. is_graphql_route (snd i)) (map fst endpoints));
          owner = (if total_owners = 1 then first_owner else None) in
      resolve_by_key call_id endpoints (\<lambda>i. snd i = KGraphql (gc_op c) (gc_field c)) (PolicyGraphqlNoOp owner) own binds)"

definition rpc_stub_unknown :: "string \<Rightarrow> string \<Rightarrow> consumer_resolution" where
  "rpc_stub_unknown call_id own = resolution call_id own (Some (Unresolved RpcStubUnknown None)) [] True"

definition services_for_host :: "contract_config \<Rightarrow> string \<Rightarrow> string list" where
  "services_for_host config host =
     sort (map sd_name (filter (\<lambda>s. list_ex (\<lambda>p. host_matches_pattern p host) (sd_hosts s)) (cg_services config)))"

definition services_for_var :: "contract_config \<Rightarrow> string \<Rightarrow> string list" where
  "services_for_var config var = map sd_name (filter (\<lambda>s. list_ex (\<lambda>e. e = var) (sd_env s)) (cg_services config))"

definition effective_vars :: "contract_config \<Rightarrow> string list \<Rightarrow> string list" where
  "effective_vars config vars =
     (case filter (\<lambda>v. services_for_var config v \<noteq> []) vars of [only] \<Rightarrow> [only] | _ \<Rightarrow> vars)"

definition rpc_var_step ::
    "contract_config \<Rightarrow> string \<Rightarrow> string list \<times> bool \<times> (string, nat) btree \<Rightarrow> string list \<times> bool \<times> (string, nat) btree" where
  "rpc_var_step config var st =
     (case st of (svcs, unmapped, unresolved) \<Rightarrow>
        let names = services_for_var config var;
            svcs = fold (\<lambda>n acc. if n \<in> set acc then acc else acc @ [n]) names svcs in
        if names = [] then (svcs, True, bt_count var unresolved) else (svcs, unmapped, unresolved))"

definition rpc_method_matches :: "string list \<Rightarrow> rpc_consumer_fact \<Rightarrow> endpoint_id \<Rightarrow> bool" where
  "rpc_method_matches services c i =
     (fst i \<in> set services
      \<and> (case snd i of
           KRpc sys service m \<Rightarrow>
             ends_with (to_ascii_lowercase (''.'' @ rc_service c)) (to_ascii_lowercase service) \<and> m = rc_method c
         | _ \<Rightarrow> False))"

definition rpc_in_services ::
    "string \<Rightarrow> rpc_consumer_fact \<Rightarrow> string \<Rightarrow> endpoint_table \<Rightarrow> string list \<Rightarrow> binds_edge list \<Rightarrow> consumer_resolution \<times> binds_edge list" where
  "rpc_in_services call_id c own endpoints services binds =
     (case resolve_by_key call_id endpoints
             (\<lambda>i. fst i \<in> set services \<and> snd i = KRpc (rc_system c) (rc_service c) (rc_method c)) PolicyRpcStubUnknown own binds of
        (res, binds) \<Rightarrow>
          if cr_bound_endpoints res \<noteq> [] then (res, binds)
          else resolve_by_key call_id endpoints (rpc_method_matches services c) PolicyRpcStubUnknown own binds)"

definition resolve_rpc_consumer ::
    "string \<Rightarrow> rpc_consumer_fact \<Rightarrow> string \<Rightarrow> endpoint_table \<Rightarrow> contract_config \<Rightarrow> (string, nat) btree \<Rightarrow> binds_edge list
     \<Rightarrow> consumer_resolution \<times> (string, nat) btree \<times> binds_edge list" where
  "resolve_rpc_consumer call_id c own endpoints config unresolved binds =
     (case rc_channel_host_part c of
        HostNone \<Rightarrow> (rpc_stub_unknown call_id own, unresolved, binds)
      | HostExpr e \<Rightarrow> (rpc_stub_unknown call_id own, unresolved, binds)
      | HostLiteral host \<Rightarrow>
          (if services_for_host config host = [] then (rpc_stub_unknown call_id own, unresolved, binds)
           else (case rpc_in_services call_id c own endpoints (services_for_host config host) binds of
                   (res, binds) \<Rightarrow> (res, unresolved, binds)))
      | HostEnv vars \<Rightarrow>
          (if vars = [] then (rpc_stub_unknown call_id own, unresolved, binds)
           else (case fold (rpc_var_step config) (effective_vars config vars) ([], False, unresolved) of
                   (svcs, unmapped, unresolved) \<Rightarrow>
                     if unmapped then (resolution call_id own (Some (Unresolved EnvUnmapped None)) [] True, unresolved, binds)
                     else (case rpc_in_services call_id c own endpoints (sort svcs) binds of
                             (res, binds) \<Rightarrow> (res, unresolved, binds)))))"

definition resolve_websocket_consumer ::
    "string \<Rightarrow> websocket_consumer_fact \<Rightarrow> string \<Rightarrow> endpoint_table \<Rightarrow> contract_config \<Rightarrow> binds_edge list
     \<Rightarrow> consumer_resolution \<times> binds_edge list" where
  "resolve_websocket_consumer call_id c own endpoints config binds =
     (let allowed = (case nu_host (wc_url c) of HostLiteral host \<Rightarrow> services_for_host config host | _ \<Rightarrow> []) in
      if (case nu_host (wc_url c) of HostLiteral host \<Rightarrow> True | _ \<Rightarrow> False) \<and> allowed = []
      then (resolution call_id own (Some (Unresolved NoMatchingService None)) [] True, binds)
      else resolve_by_key call_id endpoints (\<lambda>i. snd i = KWebSocket (wc_route c) \<and> (allowed = [] \<or> fst i \<in> set allowed))
             (PolicyGraphqlNoOp (Some own)) own binds)"

definition resolve_table_consumer ::
    "string \<Rightarrow> table_consumer_fact \<Rightarrow> string \<Rightarrow> endpoint_table \<Rightarrow> binds_edge list \<Rightarrow> consumer_resolution \<times> binds_edge list" where
  "resolve_table_consumer call_id c own endpoints binds =
     (let wanted = set (tf_tables c);
          hits = key_hits (\<lambda>i. case snd i of KTable name \<Rightarrow> name \<in> wanted | _ \<Rightarrow> False) endpoints;
          covered = set (map (\<lambda>h. case fst (snd h) of KTable name \<Rightarrow> name | _ \<Rightarrow> []) hits) in
      if hits = [] \<or> card covered \<noteq> card wanted
      then (resolution call_id own (Some (Unresolved NoMatchingService None)) [] True, binds)
      else (resolution call_id own (Some static_target) (sort_endpoints (map hit_endpoint hits)) True,
            binds @ map (bind_static call_id own) hits))"

section \<open>Dispatch\<close>

definition topic_dynamic_sentinel :: string where
  "topic_dynamic_sentinel = ''<dynamic>''"

definition dispatch ::
    "string \<Rightarrow> string \<Rightarrow> contract_fact \<Rightarrow> endpoint_table \<Rightarrow> contract_config \<Rightarrow> join_state \<Rightarrow> (consumer_resolution \<times> join_state) option" where
  "dispatch call_id own cfact endpoints config st =
     (case cfact of
        TopicConsumer t \<Rightarrow>
          Some (if tc_name t = topic_dynamic_sentinel
                then (resolution call_id own (Some (Unresolved DynamicTopic None)) [] True, st)
                else with_binds st (resolve_topic_consumer call_id t own endpoints (js_binds st)))
      | RpcConsumer r \<Rightarrow>
          (case resolve_rpc_consumer call_id r own endpoints config (js_unresolved_env st) (js_binds st) of
             (res, unresolved, binds) \<Rightarrow> Some (res, st\<lparr>js_unresolved_env := unresolved, js_binds := binds\<rparr>))
      | GraphqlConsumer g \<Rightarrow> Some (with_binds st (resolve_graphql_consumer call_id g own endpoints (js_binds st)))
      | WebSocketConsumer w \<Rightarrow> Some (with_binds st (resolve_websocket_consumer call_id w own endpoints config (js_binds st)))
      | TableConsumer t \<Rightarrow> Some (with_binds st (resolve_table_consumer call_id t own endpoints (js_binds st)))
      | _ \<Rightarrow> None)"

end
