(* ===== verification/Join_Run.thy ===== *)
theory Join_Run
  imports Join_Protocol
begin

text \<open>
  The join as a whole, \<^verbatim>\<open>federation/contracts/joiner/mod.rs\<close>: every consumer fact in turn, then the
  bindings the configuration confirms, \<^verbatim>\<open>federation/contracts/joiner/confirmed.rs\<close>, then one edge per pair of nodes. The
  edges of the field reads, which \<^verbatim>\<open>Field_Join\<close> draws, are passed to \<open>join_binds\<close>.
\<close>

section \<open>Stale bindings\<close>

datatype stale_reason = NoConsumer | NoEndpoint | IllFormedKeys

record confirmed_binding_key =
  ck_site :: "string option"
  ck_repo :: repo_id
  ck_path :: string
  ck_symbol :: string
  ck_key :: string

record confirmed_provider_key =
  ckp_service :: string
  ckp_key :: string

record stale_binding_record =
  sb_consumer :: confirmed_binding_key
  sb_provider :: confirmed_provider_key
  sb_reason :: stale_reason

definition stale_binding :: "confirmed_binding \<Rightarrow> string \<Rightarrow> stale_reason \<Rightarrow> stale_binding_record" where
  "stale_binding b provider_service reason =
     \<lparr>sb_consumer =
        \<lparr>ck_site = cc_site (cb_consumer b),
         ck_repo = (case repo_id_new (cc_repo (cb_consumer b)) of Inr r \<Rightarrow> r | Inl _ \<Rightarrow> RepoId ''unknown''),
         ck_path = cc_path (cb_consumer b), ck_symbol = cc_symbol (cb_consumer b), ck_key = cc_key (cb_consumer b)\<rparr>,
      sb_provider = \<lparr>ckp_service = provider_service, ckp_key = cp_key (cb_provider b)\<rparr>, sb_reason = reason\<rparr>"

section \<open>The state of a join\<close>

record join_run =
  jr_state :: join_state
  jr_consumers :: "(string, consumer_resolution list) btree"
  jr_unnormalized :: "string list"
  jr_stale :: "stale_binding_record list"

definition join_start :: join_run where
  "join_start =
     \<lparr>jr_state = \<lparr>js_binds = [], js_external = [], js_unresolved_env = [], js_ambiguous_env = []\<rparr>,
      jr_consumers = [], jr_unnormalized = [], jr_stale = []\<rparr>"

record join_input =
  ji_config :: contract_config
  ji_assignments :: assignments
  ji_endpoints :: endpoint_table
  ji_clients :: "compiled_http_client list"
  ji_registry :: client_registry
  ji_env :: env_index
  ji_alnum :: "string \<Rightarrow> bool"

definition own_service :: "join_input \<Rightarrow> graph_node \<Rightarrow> string \<Rightarrow> string" where
  "own_service inp node gid =
     (case hm_get (ji_assignments inp) gid of Some svc \<Rightarrow> svc | None \<Rightarrow> implicit_service node)"

section \<open>One fact\<close>

definition is_unnormalized :: "consumer_resolution \<Rightarrow> bool" where
  "is_unnormalized r \<longleftrightarrow>
     (case cr_target r of Some (Unresolved reason _) \<Rightarrow> reason = Unnormalized \<or> reason = DynamicTopic | _ \<Rightarrow> False)"

definition record_resolution :: "string \<Rightarrow> consumer_resolution \<times> join_state \<Rightarrow> join_run \<Rightarrow> join_run" where
  "record_resolution call_id r run =
     run\<lparr>jr_state := snd r,
         jr_unnormalized := (if is_unnormalized (fst r) then jr_unnormalized run @ [call_id] else jr_unnormalized run),
         jr_consumers := bt_push call_id (fst r) (jr_consumers run)\<rparr>"

definition wrapper_gate :: "join_input \<Rightarrow> consumer_fact \<Rightarrow> unresolved_reason option option" where
  "wrapper_gate inp c =
     (case cf_via c of
        ViaLibrary l \<Rightarrow> Some None
      | ViaReceiver expr fn_name b \<Rightarrow>
          (let has_def = registry_has (ji_registry inp) expr in
           if ji_clients inp = [] \<and> \<not> has_def then None
           else if \<not> http_clients_match (ji_clients inp) (cf_via c) \<and> \<not> has_def then Some (Some WrapperUnconfigured)
           else Some None))"

text \<open>\<open>None\<close>: the call is passed over; \<open>Some (Some r)\<close>: it is recorded as unresolved; \<open>Some None\<close>: it is resolved.\<close>

definition join_fact :: "join_input \<Rightarrow> graph_node \<times> contract_fact \<Rightarrow> join_run \<Rightarrow> join_run" where
  "join_fact inp entry run =
     (case entry of (node, cfact) \<Rightarrow>
        (case gid_parse (gn_id node) of
           Inl _ \<Rightarrow> run
         | Inr call_id \<Rightarrow>
             (let own = own_service inp node call_id in
              case dispatch call_id own cfact (ji_endpoints inp) (ji_config inp) (jr_state run) of
                Some r \<Rightarrow> record_resolution call_id r run
              | None \<Rightarrow>
                  (case cfact of
                     Consumer c \<Rightarrow>
                       (case wrapper_gate inp c of
                          None \<Rightarrow> run
                        | Some (Some reason) \<Rightarrow>
                            run\<lparr>jr_consumers := bt_push call_id
                                  (resolution call_id own (Some (Unresolved reason None)) [] (cf_reads_complete c)) (jr_consumers run)\<rparr>
                        | Some None \<Rightarrow>
                            record_resolution call_id
                              (resolve_consumer (ji_alnum inp) call_id c own (ji_config inp) (ji_clients inp) (ji_endpoints inp)
                                 (ji_registry inp) (ji_env inp) (jr_state run)) run)
                   | _ \<Rightarrow> run))))"

definition node_facts :: "graph_node list \<Rightarrow> (graph_node \<times> contract_fact) list" where
  "node_facts nodes = concat (map (\<lambda>n. map (Pair n) (gn_contract n)) nodes)"

section \<open>Confirmed bindings\<close>

definition fact_keys :: "graph_node \<Rightarrow> (contract_key \<times> bool) list" where
  "fact_keys node =
     concat (map (\<lambda>f. map (\<lambda>k. (k, case f of Consumer c \<Rightarrow> cf_reads_complete c | _ \<Rightarrow> True)) (consumer_keys f)) (gn_contract node))"

text \<open>The node's own identity when the binding names it, with whether its reads were complete.\<close>

definition confirmed_site :: "confirmed_binding \<Rightarrow> contract_key \<Rightarrow> graph_node \<Rightarrow> (string \<times> bool) option" where
  "confirmed_site b consumer_key node =
     (if fact_keys node = [] then None
      else case gid_parse (gn_id node) of
             Inl _ \<Rightarrow> None
           | Inr gid \<Rightarrow>
               if (case cc_site (cb_consumer b) of Some site \<Rightarrow> site \<noteq> gid | None \<Rightarrow> False) then None
               else if gid_repo_id gid \<noteq> cc_repo (cb_consumer b) then None
               else if gn_path node \<noteq> cc_path (cb_consumer b) then None
               else if (case gn_container node of Some c \<Rightarrow> c | None \<Rightarrow> gn_name node) \<noteq> cc_symbol (cb_consumer b) then None
               else map_option (\<lambda>k. (gid, snd k)) (find (\<lambda>k. fst k = consumer_key) (fact_keys node)))"

definition confirmed_source :: "nat \<Rightarrow> string" where
  "confirmed_source i = ''repos.yaml#bindings[<'' @ show_nat i @ ''>]''"

definition superseded :: "contract_key \<Rightarrow> consumer_resolution \<Rightarrow> bool" where
  "superseded provider_key r \<longleftrightarrow>
     (case cr_target r of
        Some (Binds _ _ _ _) \<Rightarrow> (case cr_bound_endpoints r of [] \<Rightarrow> False | e # _ \<Rightarrow> snd e = provider_key)
      | _ \<Rightarrow> False)"

definition confirm_node ::
    "join_input \<Rightarrow> nat \<Rightarrow> confirmed_binding \<Rightarrow> contract_key \<Rightarrow> contract_key \<Rightarrow> string \<Rightarrow> graph_node \<Rightarrow> bool \<times> join_run \<Rightarrow> bool \<times> join_run" where
  "confirm_node inp i b consumer_key provider_key provider_id node st =
     (case confirmed_site b consumer_key node of
        None \<Rightarrow> st
      | Some (gid, reads) \<Rightarrow>
          (let run = snd st; svc = cp_service (cb_provider b);
               own = (case hm_get (ji_assignments inp) (gn_id node) of Some s \<Rightarrow> s | None \<Rightarrow> cc_repo (cb_consumer b));
               prov = Confirmed (confirmed_source i);
               js = jr_state run in
           (True,
            run\<lparr>jr_state := js\<lparr>js_binds := js_binds js @ [bind_to gid own svc provider_key provider_id prov 1 RM_Exact None]\<rparr>,
                jr_consumers := bt_update gid
                  (\<lambda>old. resolution gid own (Some (Binds prov 1 RM_Exact None)) [(svc, provider_key)] reads
                     # filter (\<lambda>r. \<not> superseded provider_key r) (case old of Some rs \<Rightarrow> rs | None \<Rightarrow> []))
                  (jr_consumers run)\<rparr>)))"

definition add_stale :: "stale_binding_record \<Rightarrow> join_run \<Rightarrow> join_run" where
  "add_stale s run = run\<lparr>jr_stale := jr_stale run @ [s]\<rparr>"

definition apply_confirmed_binding :: "join_input \<Rightarrow> graph_node list \<Rightarrow> nat \<times> confirmed_binding \<Rightarrow> join_run \<Rightarrow> join_run" where
  "apply_confirmed_binding inp nodes entry run =
     (case entry of (i, b) \<Rightarrow>
        (case (parse_contract_key (cp_key (cb_provider b)), parse_contract_key (cc_key (cb_consumer b))) of
           (Inr provider_key, Inr consumer_key) \<Rightarrow>
             (let svc = cp_service (cb_provider b) in
              if \<not> keys_compatible consumer_key provider_key then add_stale (stale_binding b svc IllFormedKeys) run
              else case bt_get (ji_endpoints inp) (svc, provider_key) of
                     Some (p # _) \<Rightarrow>
                       (case fold (confirm_node inp i b consumer_key provider_key (er_id p)) nodes (False, run) of
                          (matched_any, run) \<Rightarrow>
                            if matched_any then run else add_stale (stale_binding b svc NoConsumer) run)
                   | _ \<Rightarrow> add_stale (stale_binding b svc NoEndpoint) run)
         | _ \<Rightarrow> run))"

section \<open>One edge per pair\<close>

definition edge_pair :: "binds_edge \<Rightarrow> string \<times> string" where
  "edge_pair b = (be_consumer b, be_provider b)"

definition is_confirmed :: "binds_edge \<Rightarrow> bool" where
  "is_confirmed b \<longleftrightarrow> (case be_provenance b of Confirmed s \<Rightarrow> True | _ \<Rightarrow> False)"

fun dedupe_from :: "binds_edge \<Rightarrow> binds_edge list \<Rightarrow> binds_edge list" where
  "dedupe_from prev [] = [prev]"
| "dedupe_from prev (e # es) =
     (if edge_pair prev = edge_pair e
      then dedupe_from (if is_confirmed e \<and> \<not> is_confirmed prev then e else prev) es
      else prev # dedupe_from e es)"

definition dedupe_binds :: "binds_edge list \<Rightarrow> binds_edge list" where
  "dedupe_binds binds = (case sort_key edge_pair binds of [] \<Rightarrow> [] | e # es \<Rightarrow> dedupe_from e es)"

section \<open>The run\<close>

definition join_input_of ::
    "(string \<Rightarrow> bool) \<Rightarrow> graph_node list \<Rightarrow> contract_config \<Rightarrow> client_registry \<Rightarrow> env_index \<Rightarrow> join_input" where
  "join_input_of alnum nodes config registry env =
     (let assignments = assign_services nodes config in
      \<lparr>ji_config = config, ji_assignments = assignments, ji_endpoints = build_endpoints nodes assignments config,
       ji_clients = compile_http_clients config, ji_registry = registry, ji_env = env, ji_alnum = alnum\<rparr>)"

definition join_consumers ::
    "(string \<Rightarrow> bool) \<Rightarrow> graph_node list \<Rightarrow> contract_config \<Rightarrow> client_registry \<Rightarrow> env_index \<Rightarrow> join_run" where
  "join_consumers alnum nodes config registry env =
     (let inp = join_input_of alnum nodes config registry env in
      fold (apply_confirmed_binding inp nodes) (zip [0..<length (cg_bindings config)] (cg_bindings config))
        (fold (join_fact inp) (node_facts nodes) join_start))"

definition join_binds :: "join_run \<Rightarrow> binds_edge list \<Rightarrow> binds_edge list" where
  "join_binds run field_binds = dedupe_binds (js_binds (jr_state run) @ field_binds)"

end
