(* ===== verification/Join_Props.thy ===== *)
theory Join_Props
  imports Join_Run Prelude
begin

text \<open>
  What a join guarantees: the endpoint table groups exactly the offers of the nodes and the
  configuration, a call is bound to the most specific endpoint it matches, every edge is grounded in
  the table, and the final edges are one per pair with confirmed ones first.
\<close>

section \<open>Specificity\<close>

lemma list_cmp_less: "list_cmp a b < 0 \<longleftrightarrow> a < b"
  by (induction a b rule: list_cmp.induct) auto

definition key_specificity :: "contract_key \<Rightarrow> nat list" where
  "key_specificity key = template_specificity (http_template key)"

lemma compare_less:
  "compare_specificity (http_template k) (http_template l) < 0 \<longleftrightarrow> key_specificity k < key_specificity l"
  by (simp add: compare_specificity_def list_cmp_less key_specificity_def)

lemma set_insert_candidate [simp]: "set (insert_candidate c cs) = insert c (set cs)"
  by (induction cs) auto

lemma set_sort_candidates [simp]: "set (sort_candidates cs) = set cs"
  by (induction cs) (auto simp: sort_candidates_def)

definition downhill :: "(contract_key \<times> match_detail) list \<Rightarrow> bool" where
  "downhill cs \<longleftrightarrow> sorted_wrt (\<lambda>a b. key_specificity (fst b) \<le> key_specificity (fst a)) cs"

lemma insert_candidate_downhill: "downhill cs \<Longrightarrow> downhill (insert_candidate c cs)"
proof (induction cs)
  case (Cons c' cs)
  show ?case
  proof (cases "key_specificity (fst c) < key_specificity (fst c')")
    case True
    then show ?thesis using Cons by (auto simp: downhill_def compare_less)
  next
    case False
    then have "key_specificity (fst c') \<le> key_specificity (fst c)" by simp
    then show ?thesis using Cons.prems False by (auto simp: downhill_def compare_less intro: order_trans)
  qed
qed (simp add: downhill_def)

lemma sort_candidates_downhill: "downhill (sort_candidates cs)"
  by (induction cs) (auto simp: sort_candidates_def downhill_def[of "[]"] intro: insert_candidate_downhill)

lemma first_match_Some:
  "first_match cm ct ps = Some d \<Longrightarrow> \<exists>p\<in>set ps. match_route cm ct (er_method p) (er_template p) = Match d"
  by (induction ps) (auto split: match_outcome.splits)

lemma first_match_None:
  "first_match cm ct ps = None \<longleftrightarrow> (\<forall>p\<in>set ps. match_route cm ct (er_method p) (er_template p) = NoMatch)"
  by (induction ps) (auto split: match_outcome.splits)

lemma candidates_iff:
  "(key, d) \<in> set (candidates svc cm ct es) \<longleftrightarrow> (\<exists>ps. ((svc, key), ps) \<in> set es \<and> first_match cm ct ps = Some d)"
  by (induction es rule: candidates.induct [of _ svc cm ct]) (auto split: option.splits)

lemma best_provider_cases:
  assumes "best_provider_for_in svc cm ct rule_3 es = Some (key, d)"
  obtains "(key, d) \<in> set (candidates svc cm ct es)"
    "rule_3 \<or> md_kind d = RM_PrefixStripped \<Longrightarrow>
       \<forall>(key', d') \<in> set (candidates svc cm ct es). key_specificity key' \<le> key_specificity key"
    "\<not> rule_3 \<Longrightarrow> md_kind d = RM_PrefixStripped \<Longrightarrow>
       \<forall>(key', d') \<in> set (candidates svc cm ct es). md_kind d' = RM_PrefixStripped"
    "\<not> rule_3 \<Longrightarrow> md_kind d \<noteq> RM_PrefixStripped \<Longrightarrow>
       \<forall>(key', d') \<in> set (candidates svc cm ct es). md_kind d' \<noteq> RM_PrefixStripped \<longrightarrow> key_specificity key' \<le> key_specificity key"
proof -
  let ?cs = "candidates svc cm ct es"
  obtain c cs where sorted: "sort_candidates ?cs = c # cs"
    using assms by (cases "sort_candidates ?cs") (auto simp: best_provider_for_in_def)
  have all: "set ?cs = set (c # cs)" using set_sort_candidates [of ?cs] sorted by simp
  have down: "downhill (c # cs)" using sort_candidates_downhill [of ?cs] sorted by simp
  then have "key_specificity (fst e) \<le> key_specificity (fst c)" if "e \<in> set (c # cs)" for e
    using that by (auto simp: downhill_def)
  then have top: "\<forall>e \<in> set ?cs. key_specificity (fst e) \<le> key_specificity (fst c)" unfolding all by blast
  show thesis
  proof (cases rule_3)
    case True
    then have c: "c = (key, d)" using assms sorted by (simp add: best_provider_for_in_def)
    show thesis by (rule that) (use c top True all in \<open>simp_all add: split_beta\<close>)
  next
    case False
    show thesis
    proof (cases "find (\<lambda>c. md_kind (snd c) \<noteq> RM_PrefixStripped) (c # cs)")
      case None
      then have "md_kind (snd e) = RM_PrefixStripped" if "e \<in> set (c # cs)" for e
        using that None [unfolded find_None_iff] by blast
      then have stripped: "\<forall>e \<in> set ?cs. md_kind (snd e) = RM_PrefixStripped" unfolding all by blast
      have c: "c = (key, d)" using assms sorted False None by (simp add: best_provider_for_in_def)
      show thesis by (rule that) (use c top False stripped all in \<open>simp_all add: split_beta\<close>)
    next
      case (Some x)
      then have x: "x = (key, d)" using assms sorted False by (simp add: best_provider_for_in_def)
      obtain i where i: "i < length (c # cs)" "x = (c # cs) ! i" "md_kind (snd x) \<noteq> RM_PrefixStripped"
        "\<forall>j<i. md_kind (snd ((c # cs) ! j)) = RM_PrefixStripped"
        using Some [unfolded find_Some_iff] by auto
      have "key_specificity (fst e) \<le> key_specificity (fst x)"
        if "e \<in> set (c # cs)" "md_kind (snd e) \<noteq> RM_PrefixStripped" for e
      proof -
        from that(1) obtain j where j: "j < length (c # cs)" "(c # cs) ! j = e"
          unfolding in_set_conv_nth by (elim exE conjE)
        then have "i \<le> j" using i(4) that(2) leI by blast
        then show ?thesis using down i(1,2) j
          by (cases "i = j") (auto simp: downhill_def sorted_wrt_iff_nth_less)
      qed
      then have best: "\<forall>e \<in> set ?cs. md_kind (snd e) \<noteq> RM_PrefixStripped \<longrightarrow> key_specificity (fst e) \<le> key_specificity (fst x)"
        unfolding all by blast
      have "x \<in> set ?cs" unfolding all using i(1,2) by (simp only: nth_mem)
      then show thesis by (intro that) (use x best False i(3) in \<open>simp_all add: split_beta\<close>)
    qed
  qed
qed

text \<open>Unless the rule ignores it, a match that needed a prefix stripped is worse than any other.\<close>

definition directness :: "bool \<Rightarrow> match_detail \<Rightarrow> nat" where
  "directness rule_3 d = (if rule_3 \<or> md_kind d \<noteq> RM_PrefixStripped then 1 else 0)"

text \<open>the endpoint chosen within a service is one the call matches, and among the service's matching
  endpoints none is more direct or, equally direct, more specific.\<close>

lemma best_provider_most_specific:
  assumes "best_provider_for_in svc cm ct rule_3 es = Some (key, d)"
  shows "(\<exists>ps. ((svc, key), ps) \<in> set es \<and> (\<exists>p\<in>set ps. match_route cm ct (er_method p) (er_template p) = Match d))
    \<and> list_all (\<lambda>(key', d'). (directness rule_3 d', key_specificity key') \<le> (directness rule_3 d, key_specificity key))
         (candidates svc cm ct es)"
proof (rule best_provider_cases [OF assms])
  assume "(key, d) \<in> set (candidates svc cm ct es)"
  then obtain ps where "((svc, key), ps) \<in> set es" "first_match cm ct ps = Some d" by (auto simp: candidates_iff)
  then have "\<exists>ps. ((svc, key), ps) \<in> set es \<and> (\<exists>p\<in>set ps. match_route cm ct (er_method p) (er_template p) = Match d)"
    using first_match_Some by blast
  moreover assume a: "rule_3 \<or> md_kind d = RM_PrefixStripped \<Longrightarrow>
       \<forall>(key', d') \<in> set (candidates svc cm ct es). key_specificity key' \<le> key_specificity key"
    and b: "\<not> rule_3 \<Longrightarrow> md_kind d = RM_PrefixStripped \<Longrightarrow>
       \<forall>(key', d') \<in> set (candidates svc cm ct es). md_kind d' = RM_PrefixStripped"
    and c: "\<not> rule_3 \<Longrightarrow> md_kind d \<noteq> RM_PrefixStripped \<Longrightarrow>
       \<forall>(key', d') \<in> set (candidates svc cm ct es). md_kind d' \<noteq> RM_PrefixStripped \<longrightarrow> key_specificity key' \<le> key_specificity key"
  have "(directness rule_3 d', key_specificity key') \<le> (directness rule_3 d, key_specificity key)"
    if "(key', d') \<in> set (candidates svc cm ct es)" for key' d'
  proof (cases "rule_3 \<or> md_kind d = RM_PrefixStripped")
    case True
    then have "key_specificity key' \<le> key_specificity key" using a that by blast
    moreover have "directness rule_3 d' \<le> directness rule_3 d" using b that True by (auto simp: directness_def)
    ultimately show ?thesis by (simp add: less_eq_prod_def le_less)
  next
    case False
    then have "md_kind d' \<noteq> RM_PrefixStripped \<longrightarrow> key_specificity key' \<le> key_specificity key" using c that by blast
    with False show ?thesis by (simp add: less_eq_prod_def directness_def)
  qed
  ultimately show ?thesis by (auto simp: list_all_iff)
qed

section \<open>Bindings are grounded\<close>

definition grounded :: "string \<Rightarrow> string \<Rightarrow> consumer_fact \<Rightarrow> endpoint_table \<Rightarrow> binds_edge \<Rightarrow> bool" where
  "grounded call_id own c endpoints b \<longleftrightarrow>
     be_consumer b = call_id \<and> be_consumer_service b = own \<and> be_provider_service b = fst (be_target_endpoint b)
     \<and> (\<exists>recs. bt_get endpoints (be_target_endpoint b) = Some recs \<and> be_provider b \<in> er_id ` set recs
          \<and> ((\<exists>t. nu_template (cf_url c) = Some t
                 \<and> list_ex (\<lambda>p. is_match (match_route (cf_method c) t (er_method p) (er_template p))) recs)
             \<or> (\<exists>expr fn_name origin. cf_via c = ViaReceiver expr fn_name origin
                 \<and> list_ex (\<lambda>p. er_id p = be_provider b
                       \<and> (case er_fact p of Some (Provider pf) \<Rightarrow> pf_operation_id pf = Some fn_name | _ \<Rightarrow> False)) recs)))"

definition binds_fit :: "string \<Rightarrow> string \<Rightarrow> consumer_fact \<Rightarrow> endpoint_table \<Rightarrow> binds_edge list \<Rightarrow> consumer_resolution \<Rightarrow> bool" where
  "binds_fit call_id own c endpoints new r \<longleftrightarrow>
     cr_call_id r = call_id \<and> cr_service r = own \<and> list_all (grounded call_id own c endpoints) new
     \<and> (case cr_target r of
          Some (Binds _ _ _ _) \<Rightarrow> new \<noteq> [] \<and> cr_bound_endpoints r = map be_target_endpoint new
        | Some Internal \<Rightarrow> new = [] \<and> (\<exists>key. cr_bound_endpoints r = [(own, key)] \<and> bt_get endpoints (own, key) \<noteq> None)
        | _ \<Rightarrow> new = [] \<and> cr_bound_endpoints r = [])"

lemma candidate_entry:
  assumes "bt_ok endpoints" "best_provider_for_in svc cm t rule_3 endpoints = Some (key, d)"
  obtains p ps where "bt_get endpoints (svc, key) = Some (p # ps)" "provider_node_id endpoints svc key = er_id p"
    "list_ex (\<lambda>p. is_match (match_route cm t (er_method p) (er_template p))) (p # ps)"
proof -
  have "(key, d) \<in> set (candidates svc cm t endpoints)" using best_provider_cases [OF assms(2)] by blast
  then obtain qs where qs: "((svc, key), qs) \<in> set endpoints" "first_match cm t qs = Some d" by (auto simp: candidates_iff)
  have get: "bt_get endpoints (svc, key) = Some qs" using qs(1) assms(1) by (simp add: bt_mem)
  obtain q where q: "q \<in> set qs" "match_route cm t (er_method q) (er_template q) = Match d" using first_match_Some [OF qs(2)] by blast
  then obtain p ps where "qs = p # ps" by (cases qs) auto
  moreover have "list_ex (\<lambda>p. is_match (match_route cm t (er_method p) (er_template p))) qs"
    using q by (auto simp: list_ex_iff intro!: bexI [of _ q])
  ultimately show thesis using that get by (simp add: provider_node_id_def)
qed

lemma grounded_bind:
  assumes "bt_ok endpoints" "best_provider_for_in svc (cf_method c) t rule_3 endpoints = Some (key, d)" "nu_template (cf_url c) = Some t"
  shows "grounded call_id own c endpoints (bind_to call_id own svc key (provider_node_id endpoints svc key) prov conf kind stripped)"
  by (rule candidate_entry [OF assms(1,2)]) (use assms(3) in \<open>auto simp: grounded_def bind_to_def\<close>)

lemma operation_provider_Some:
  "operation_provider fn_name ps = Some gid \<Longrightarrow>
    \<exists>p\<in>set ps. er_id p = gid \<and> (case er_fact p of Some (Provider pf) \<Rightarrow> pf_operation_id pf = Some fn_name | _ \<Rightarrow> False)"
  by (induction ps) (auto split: if_splits option.splits contract_fact.splits)

lemma find_operation_Some:
  "find_endpoint_by_operation_id svc fn_name es = Some (key, gid) \<Longrightarrow>
    \<exists>ps. ((svc, key), ps) \<in> set es \<and> operation_provider fn_name ps = Some gid"
  by (induction es rule: find_endpoint_by_operation_id.induct [of _ svc fn_name]) (auto split: if_splits option.splits)

lemma grounded_operation:
  assumes "bt_ok endpoints" "operation_fallback svc c endpoints = Some (key, gid)"
  shows "grounded call_id own c endpoints (bind_to call_id own svc key gid prov conf kind stripped)"
proof -
  obtain expr fn_name origin where via: "cf_via c = ViaReceiver expr fn_name origin"
    and f: "find_endpoint_by_operation_id svc fn_name endpoints = Some (key, gid)"
    using assms(2) by (auto simp: operation_fallback_def split: call_via.splits)
  obtain ps where ps: "((svc, key), ps) \<in> set endpoints" "operation_provider fn_name ps = Some gid"
    using find_operation_Some [OF f] by blast
  have get: "bt_get endpoints (svc, key) = Some ps" using ps(1) assms(1) by (simp add: bt_mem)
  have ex: "list_ex (\<lambda>p. er_id p = gid \<and> (case er_fact p of Some (Provider pf) \<Rightarrow> pf_operation_id pf = Some fn_name | _ \<Rightarrow> False)) ps"
    using operation_provider_Some [OF ps(2)] by (auto simp: list_ex_iff)
  then have "gid \<in> er_id ` set ps" by (auto simp: list_ex_iff)
  with get ex via show ?thesis by (auto simp: grounded_def bind_to_def)
qed

lemma resolution_fields [simp]:
  "cr_call_id (resolution i own t b r) = i" "cr_service (resolution i own t b r) = own" "cr_target (resolution i own t b r) = t"
  "cr_bound_endpoints (resolution i own t b r) = b"
  by (simp_all add: resolution_def)

lemma bind_to_endpoint [simp]: "be_target_endpoint (bind_to i own svc key p prov conf kind s) = (svc, key)"
  "be_provider_service (bind_to i own svc key p prov conf kind s) = svc"
  by (simp_all add: bind_to_def)

lemma no_route_fit [simp]: "binds_fit call_id own c endpoints [] (no_route call_id own svc c)"
  by (simp add: binds_fit_def no_route_def)

lemma bind_operation_fit:
  assumes "bt_ok endpoints" "operation_fallback svc c endpoints = Some hit"
  shows "\<exists>new. snd (bind_operation call_id c own svc hit binds) = binds @ new
    \<and> binds_fit call_id own c endpoints new (fst (bind_operation call_id c own svc hit binds))"
  using grounded_operation [OF assms(1), of svc c "fst hit" "snd hit"] assms(2)
  by (simp add: bind_operation_def Let_def binds_fit_def)

lemma match_one_service_fit:
  assumes "bt_ok endpoints"
  shows "\<exists>new. snd (match_one_service call_id c own svc (cf_method c) (nu_template (cf_url c)) rule_3 endpoints binds) = binds @ new
    \<and> binds_fit call_id own c endpoints new
        (fst (match_one_service call_id c own svc (cf_method c) (nu_template (cf_url c)) rule_3 endpoints binds))"
proof (cases "nu_template (cf_url c)")
  case None
  then show ?thesis by (simp add: match_one_service_def)
next
  case t: (Some t)
  show ?thesis
  proof (cases "best_provider_for_in svc (cf_method c) t rule_3 endpoints")
    case None
    then show ?thesis using bind_operation_fit [OF assms, of svc c _ call_id own binds]
      by (cases "operation_fallback svc c endpoints") (auto simp: match_one_service_def t)
  next
    case (Some kd)
    obtain key d where kd: "kd = (key, d)" by (cases kd)
    have g: "grounded call_id own c endpoints (bind_to call_id own svc key (provider_node_id endpoints svc key) prov conf kind stripped)"
      for prov conf kind stripped using grounded_bind [OF assms _ t] Some by (simp add: kd)
    obtain prov conf where pc: "provenance_for_detail d = (prov, conf)" by (cases "provenance_for_detail d")
    consider "md_kind d = RM_PrefixStripped \<and> is_wrapper_candidate c \<and> operation_fallback svc c endpoints \<noteq> None"
      | "md_kind d = RM_PrefixStripped" "\<not> (is_wrapper_candidate c \<and> operation_fallback svc c endpoints \<noteq> None)"
      | "md_kind d \<noteq> RM_PrefixStripped" by blast
    then show ?thesis
    proof cases
      case 1
      then obtain hit where "operation_fallback svc c endpoints = Some hit" by blast
      then show ?thesis using 1 bind_operation_fit [OF assms, of svc c hit call_id own binds]
        by (simp add: match_one_service_def t Some kd)
    next
      case 2
      then show ?thesis by (auto simp: match_one_service_def t Some kd)
    next
      case 3
      then show ?thesis by (simp add: match_one_service_def t Some kd pc binds_fit_def g)
    qed
  qed
qed

section \<open>Searching all services\<close>

lemma bind_hit_fold:
  assumes "bt_ok endpoints" "nu_template (cf_url c) = Some t"
    and "\<And>svc. svc \<in> set hits \<Longrightarrow> best_provider_for svc (cf_method c) (Some t) endpoints \<noteq> None"
  shows "\<exists>new. fold (bind_hit call_id c own prov endpoints) hits (binds, bound) = (binds @ new, bound @ map be_target_endpoint new)
    \<and> list_all (grounded call_id own c endpoints) new \<and> map be_provider_service new = hits
    \<and> list_all (\<lambda>b. be_provenance b = Heuristic (fst prov) (snd prov) \<and> be_confidence b = snd prov) new"
  using assms(3)
proof (induction hits arbitrary: binds bound)
  case (Cons svc hits)
  obtain key d where best: "best_provider_for svc (cf_method c) (Some t) endpoints = Some (key, d)"
    using Cons.prems [of svc] by auto
  let ?b = "bind_to call_id own svc key (provider_node_id endpoints svc key) (Heuristic (fst prov) (snd prov)) (snd prov)
              (md_kind d) (md_stripped_prefix d)"
  have g: "grounded call_id own c endpoints ?b"
    using best by (intro grounded_bind [OF assms(1) _ assms(2)]) (simp add: best_provider_for_def)
  have step: "bind_hit call_id c own prov endpoints svc (binds, bound) = (binds @ [?b], bound @ [(svc, key)])"
    by (simp add: bind_hit_def assms(2) best)
  obtain new where new: "fold (bind_hit call_id c own prov endpoints) hits (binds @ [?b], bound @ [(svc, key)])
      = ((binds @ [?b]) @ new, (bound @ [(svc, key)]) @ map be_target_endpoint new)"
    "list_all (grounded call_id own c endpoints) new" "map be_provider_service new = hits"
    "list_all (\<lambda>b. be_provenance b = Heuristic (fst prov) (snd prov) \<and> be_confidence b = snd prov) new"
    using Cons.IH [of "binds @ [?b]" "bound @ [(svc, key)]"] Cons.prems by auto
  then show ?case using g by (intro exI [of _ "?b # new"]) (simp add: step bind_to_def)
qed simp

lemma best_provider_some: "candidates svc cm t es \<noteq> [] \<Longrightarrow> best_provider_for svc cm (Some t) es \<noteq> None"
proof -
  assume "candidates svc cm t es \<noteq> []"
  then have "set (sort_candidates (candidates svc cm t es)) \<noteq> {}" by simp
  then obtain c cs where "sort_candidates (candidates svc cm t es) = c # cs"
    by (cases "sort_candidates (candidates svc cm t es)") auto
  then show ?thesis
    by (cases "find (\<lambda>c. md_kind (snd c) \<noteq> RM_PrefixStripped) (c # cs)")
       (simp_all only: best_provider_for_def best_provider_for_in_def bind.bind_lunit list.case option.case if_False not_False_eq_True option.distinct simp_thms)
qed

lemma strong_hit_match: "strong_hit generic cm t ps \<Longrightarrow> first_match cm t ps \<noteq> None"
  by (auto simp: strong_hit_def list_ex_iff first_match_None split: match_outcome.splits)

lemma sorted_runs_distinct: "sorted xs \<Longrightarrow> distinct (remdups_adj xs)"
  by (induction xs rule: remdups_adj.induct) auto

lemma service_hits_facts:
  "distinct (service_hits config own cm t endpoints)"
  "svc \<in> set (service_hits config own cm t endpoints) \<longleftrightarrow>
     svc \<noteq> own \<and> (\<exists>key ps. ((svc, key), ps) \<in> set endpoints \<and> strong_hit (generic_keys config) cm t ps)"
proof -
  show "distinct (service_hits config own cm t endpoints)"
    unfolding service_hits_def by (rule sorted_runs_distinct) simp
qed (force simp: service_hits_def)

lemma hit_has_best:
  assumes "svc \<in> set (service_hits config own cm t endpoints)"
  shows "best_provider_for svc cm (Some t) endpoints \<noteq> None"
proof -
  obtain key ps where "((svc, key), ps) \<in> set endpoints" "strong_hit (generic_keys config) cm t ps"
    using assms by (auto simp: service_hits_facts)
  moreover then obtain d where "first_match cm t ps = Some d" using strong_hit_match by blast
  ultimately have "(key, d) \<in> set (candidates svc cm t endpoints)" by (auto simp: candidates_iff)
  then have "candidates svc cm t endpoints \<noteq> []" by auto
  then show ?thesis by (rule best_provider_some)
qed

lemma bind_hits_fit:
  assumes "bt_ok endpoints" "nu_template (cf_url c) = Some t" "hits = service_hits config own (cf_method c) t endpoints" "hits \<noteq> []"
  shows "\<exists>new. snd (bind_hits call_id c own hits endpoints binds) = binds @ new
    \<and> binds_fit call_id own c endpoints new (fst (bind_hits call_id c own hits endpoints binds))
    \<and> map be_provider_service new = hits
    \<and> list_all (\<lambda>b. be_provenance b = Heuristic (fst (heuristic_provenance_for (length hits))) (snd (heuristic_provenance_for (length hits)))
         \<and> be_confidence b = snd (heuristic_provenance_for (length hits))) new"
proof -
  let ?prov = "heuristic_provenance_for (length hits)"
  have "best_provider_for svc (cf_method c) (Some t) endpoints \<noteq> None" if "svc \<in> set hits" for svc
    using hit_has_best that assms(3) by blast
  then obtain new where new: "fold (bind_hit call_id c own ?prov endpoints) hits (binds, []) = (binds @ new, map be_target_endpoint new)"
    "list_all (grounded call_id own c endpoints) new" "map be_provider_service new = hits"
    "list_all (\<lambda>b. be_provenance b = Heuristic (fst ?prov) (snd ?prov) \<and> be_confidence b = snd ?prov) new"
    using bind_hit_fold [OF assms(1,2), of hits call_id own ?prov binds "[]"] by auto
  have "new \<noteq> []" using new(3) assms(4) by auto
  then show ?thesis using new by (intro exI [of _ new]) (simp add: bind_hits_def Let_def binds_fit_def)
qed

section \<open>One HTTP call\<close>

definition resolved_fit ::
    "string \<Rightarrow> string \<Rightarrow> consumer_fact \<Rightarrow> endpoint_table \<Rightarrow> binds_edge list \<Rightarrow> consumer_resolution \<times> join_state \<Rightarrow> bool" where
  "resolved_fit call_id own c endpoints binds r \<longleftrightarrow>
     (\<exists>new. js_binds (snd r) = binds @ new \<and> binds_fit call_id own c endpoints new (fst r))"

lemma rule_binds_fit: "bt_ok endpoints \<Longrightarrow> resolved_fit call_id own c endpoints (js_binds st) (rule_binds call_id c own endpoints st svc)"
  using match_one_service_fit [of endpoints call_id c own svc True "js_binds st"]
  by (simp add: resolved_fit_def rule_binds_def with_binds_def)

lemma idle_fit:
  "js_binds st' = binds \<Longrightarrow> target = Some (Unresolved reason x) \<or> target = Some (External h)
    \<Longrightarrow> resolved_fit call_id own c endpoints binds (resolution call_id own target [] reads, st')"
  by (auto simp: resolved_fit_def binds_fit_def)

lemma no_route_resolved: "resolved_fit call_id own c endpoints (js_binds st) (no_route call_id own svc c, st)"
  by (simp add: resolved_fit_def)

lemma internal_fit:
  assumes "bt_ok endpoints" "internal_route c own t endpoints = Some key"
  shows "resolved_fit call_id own c endpoints (js_binds st) (resolution call_id own (Some Internal) [(own, key)] reads, st)"
proof -
  obtain d where "best_provider_for_in own (cf_method c) t False endpoints = Some (key, d)"
    using assms(2) by (auto simp: internal_route_def best_provider_for_def split: if_splits option.splits)
  then obtain p ps where "bt_get endpoints (own, key) = Some (p # ps)" by (rule candidate_entry [OF assms(1)])
  then show ?thesis by (simp add: resolved_fit_def binds_fit_def)
qed

lemma resolve_rest_fit:
  assumes ok: "bt_ok endpoints"
  shows "resolved_fit call_id own c endpoints (js_binds st) (resolve_rest call_id c own config endpoints unmapped st)"
proof -
  let ?host = "case nu_host (cf_url c) of HostLiteral host \<Rightarrow> if host_is_external_exempt host then None else Some host | _ \<Rightarrow> None"
  note rule = rule_binds_fit [OF ok]
  consider (env) svc where "target_service_from_env c config = Some svc"
    | (hosts) svc where "target_service_from_env c config = None" "target_service_from_hosts c config = Some svc"
    | (external) host where "target_service_from_env c config = None" "target_service_from_hosts c config = None" "?host = Some host"
    | (aliased) a where "target_service_from_env c config = None" "target_service_from_hosts c config = None" "?host = None"
        "host_alias call_id c config = Some a"
    | (rest) "target_service_from_env c config = None" "target_service_from_hosts c config = None" "?host = None"
        "host_alias call_id c config = None"
    by (cases "target_service_from_env c config"; cases "target_service_from_hosts c config"; cases ?host;
        cases "host_alias call_id c config") simp_all
  then show ?thesis
  proof cases
    case env
    then show ?thesis by (simp add: resolve_rest_def Let_def rule)
  next
    case hosts
    then show ?thesis by (simp add: resolve_rest_def Let_def rule)
  next
    case external
    then show ?thesis by (simp add: resolve_rest_def Let_def idle_fit)
  next
    case aliased
    then show ?thesis by (simp add: resolve_rest_def Let_def rule no_route_resolved)
  next
    case rest
    show ?thesis
    proof (cases "nu_template (cf_url c)")
      case None
      then show ?thesis using rest by (simp add: resolve_rest_def Let_def idle_fit)
    next
      case t: (Some t)
      show ?thesis
      proof (cases "internal_route c own t endpoints")
        case (Some key)
        then show ?thesis using rest t internal_fit [OF ok Some] by (simp add: resolve_rest_def Let_def)
      next
        case None
        show ?thesis
        proof (cases "service_hits config own (cf_method c) t endpoints = []")
          case True
          then show ?thesis using rest t None by (simp add: resolve_rest_def Let_def idle_fit)
        next
          case False
          then have "resolve_rest call_id c own config endpoints unmapped st =
              with_binds st (bind_hits call_id c own (service_hits config own (cf_method c) t endpoints) endpoints (js_binds st))"
            using rest t None by (simp add: resolve_rest_def Let_def)
          then show ?thesis using bind_hits_fit [OF ok t refl False, of call_id "js_binds st"]
            by (auto simp: resolved_fit_def with_binds_def)
        qed
      qed
    qed
  qed
qed

lemma resolve_consumer_fit:
  assumes ok: "bt_ok endpoints"
  shows "resolved_fit call_id own c endpoints (js_binds st)
    (resolve_consumer alnum call_id c own config clients endpoints registry env st)"
proof -
  obtain res unresolved where env: "resolve_env_consumer c env config (js_unresolved_env st) = (res, unresolved)"
    by (cases "resolve_env_consumer c env config (js_unresolved_env st)")
  let ?st = "st\<lparr>js_unresolved_env := unresolved\<rparr>"
  have rule: "resolved_fit call_id own c endpoints (js_binds st) (rule_binds call_id c own endpoints ?st svc)" for svc
    using rule_binds_fit [OF ok, of call_id own c ?st svc] by simp
  have rest: "resolved_fit call_id own c endpoints (js_binds st) (resolve_rest call_id c own config endpoints u ?st)" for u
    using resolve_rest_fit [OF ok, of call_id own c ?st config u] by simp
  have hosts: "resolved_fit call_id own c endpoints (js_binds st)
      (resolution call_id own (Some (Unresolved EnvAmbiguous None)) [] reads, ?st\<lparr>js_ambiguous_env := x\<rparr>)" for x reads
    by (rule idle_fit) simp_all
  show ?thesis
  proof (cases "target_service_via_registry alnum c registry config")
    case None
    then show ?thesis
      by (cases "target_service_from_http_client c clients"; cases res)
         (auto simp: resolve_consumer_def env Let_def rule rest hosts rule_binds_fit [OF ok] split: env_resolution.split)
  qed (simp add: resolve_consumer_def rule_binds_fit [OF ok])
qed

lemma build_endpoints_ok [simp]: "bt_ok (build_endpoints nodes assignments config)"
  by (simp add: build_endpoints_def bt_pushes_ok)

text \<open>C22: whatever rule resolves an HTTP call, it only appends edges, each from the call to a node recorded
  under an endpoint of the table that the call's method and template match or whose operation id it invokes; the
  verdict is a binding exactly when edges were added, and then it lists their endpoints.\<close>

lemma call_binds_grounded:
  "case resolve_consumer alnum call_id c own config clients (build_endpoints nodes assignments config) registry env st of
     (r, st') \<Rightarrow> \<exists>new. js_binds st' = js_binds st @ new
       \<and> binds_fit call_id own c (build_endpoints nodes assignments config) new r"
  using resolve_consumer_fit [of "build_endpoints nodes assignments config" call_id own c st alnum config clients registry env]
  by (simp add: resolved_fit_def split_beta)

text \<open>a call with a path but no known service is bound in every other service that offers a matching
  endpoint outside the generic ones, once each; a single such service gets confidence six tenths, several get three tenths.\<close>

lemma search_covers_services:
  assumes "bt_ok endpoints" "nu_template (cf_url c) = Some t"
    and hits: "hits = service_hits config own (cf_method c) t endpoints" "hits \<noteq> []"
  shows "distinct hits \<and> (\<forall>svc. svc \<in> set hits \<longleftrightarrow>
      svc \<noteq> own \<and> (\<exists>key ps. ((svc, key), ps) \<in> set endpoints \<and> strong_hit (generic_keys config) (cf_method c) t ps))
    \<and> (\<exists>new. snd (bind_hits call_id c own hits endpoints binds) = binds @ new \<and> map be_provider_service new = hits
        \<and> list_all (grounded call_id own c endpoints) new
        \<and> list_all (\<lambda>b. be_confidence b = (if length hits = 1 then 6 / 10 else 3 / 10)) new)"
proof -
  obtain new where new: "snd (bind_hits call_id c own hits endpoints binds) = binds @ new" "map be_provider_service new = hits"
    "binds_fit call_id own c endpoints new (fst (bind_hits call_id c own hits endpoints binds))"
    "list_all (\<lambda>b. be_provenance b = Heuristic (fst (heuristic_provenance_for (length hits))) (snd (heuristic_provenance_for (length hits)))
         \<and> be_confidence b = snd (heuristic_provenance_for (length hits))) new"
    using bind_hits_fit [OF assms, of call_id binds] by blast
  have conf: "snd (heuristic_provenance_for (length hits)) = (if length hits = 1 then 6 / 10 else 3 / 10)"
    using hits(2) by (cases hits) (auto simp: heuristic_provenance_for_def unbound_host_confidence_def ambiguous_confidence_def)
  have "list_all (\<lambda>b. be_confidence b = (if length hits = 1 then 6 / 10 else 3 / 10)) new"
    using new(4) unfolding list_all_iff conf by blast
  moreover have "list_all (grounded call_id own c endpoints) new" using new(3) by (simp add: binds_fit_def)
  moreover have "distinct hits" "svc \<in> set hits \<longleftrightarrow>
      svc \<noteq> own \<and> (\<exists>key ps. ((svc, key), ps) \<in> set endpoints \<and> strong_hit (generic_keys config) (cf_method c) t ps)" for svc
    unfolding hits(1) by (rule service_hits_facts)+
  ultimately show ?thesis using new(1,2) by blast
qed

end
