(* ===== verification/Endpoint_Props.thy ===== *)
theory Endpoint_Props
  imports Endpoint_Table Prelude
begin

text \<open>
  What \<^verbatim>\<open>Endpoint_Table\<close> guarantees: a node goes to the service with the longest matching path, the
  table groups all offers by endpoint, and schemas are attached under the same keys.
\<close>

section \<open>The table\<close>

lemma table_lookup:
  "bt_get (build_endpoints nodes assignments config) i =
     (let rs = map snd (filter (\<lambda>e. fst e = i) (endpoint_entries nodes assignments config)) in
      if rs = [] then None else Some rs)"
  by (simp add: build_endpoints_def bt_pushes Let_def)

lemma table_has_entry:
  assumes "(i, r) \<in> set (endpoint_entries nodes assignments config)"
  shows "\<exists>recs. bt_get (build_endpoints nodes assignments config) i = Some recs \<and> r \<in> set recs"
proof -
  let ?rs = "map snd (filter (\<lambda>e. fst e = i) (endpoint_entries nodes assignments config))"
  have r: "r \<in> set ?rs" using assms by force
  then have "?rs \<noteq> []" by (metis empty_iff empty_set)
  then have "bt_get (build_endpoints nodes assignments config) i = Some ?rs" unfolding table_lookup Let_def by (rule if_not_P)
  then show ?thesis using r by blast
qed

lemma provider_key_entry:
  assumes "contract_key_for_provider node svc config = Some (i, t)"
  shows "(\<exists>r. (i, r) \<in> set (node_endpoints config node svc gid) \<and> er_id r = gid \<and> er_template r = t)
    \<or> (\<exists>g. hd (gn_contract node) = GraphqlProvider g \<and> \<not> service_provides_graphql config svc)"
proof (cases "gn_contract node")
  case (Cons f fs)
  show ?thesis
  proof (cases f)
    case (TableFact tbl)
    then show ?thesis using assms Cons
      by (cases "find (\<lambda>d. list_ex (\<lambda>t. t = tb_name tbl) (dd_tables d)) (cg_databases config)")
         (auto simp: contract_key_for_provider_def node_endpoints_def table_owners_def Let_def)
  qed (use assms Cons in \<open>auto simp: contract_key_for_provider_def node_endpoints_def Let_def\<close>)
qed (use assms in \<open>simp add: contract_key_for_provider_def\<close>)

text \<open>the key a schema is attached under is a key of the endpoint table, with the node among its providers
  and the same template, unless the service opted out of offering its GraphQL fields.\<close>

lemma schema_keys_agree:
  assumes "node \<in> set nodes" "gid_parse (gn_id node) = Inr gid" "hm_get assignments (gn_id node) = Some svc"
    and "contract_key_for_provider node svc config = Some (i, t)"
  shows "(\<exists>recs. bt_get (build_endpoints nodes assignments config) i = Some recs
            \<and> list_ex (\<lambda>r. er_id r = gid \<and> er_template r = t) recs)
    \<or> (\<exists>g. hd (gn_contract node) = GraphqlProvider g \<and> \<not> service_provides_graphql config svc)"
  using provider_key_entry [OF assms(4), of gid]
proof
  assume "\<exists>r. (i, r) \<in> set (node_endpoints config node svc gid) \<and> er_id r = gid \<and> er_template r = t"
  then obtain r where r: "(i, r) \<in> set (node_endpoints config node svc gid)" "er_id r = gid" "er_template r = t" by blast
  have "graph_endpoints config assignments node = node_endpoints config node svc gid"
    using assms(2,3) by (simp add: graph_endpoints_def)
  then have "(i, r) \<in> set (endpoint_entries nodes assignments config)"
    using r(1) assms(1) unfolding endpoint_entries_def by (auto intro!: bexI [of _ node])
  then obtain recs where recs: "bt_get (build_endpoints nodes assignments config) i = Some recs" "r \<in> set recs"
    using table_has_entry by blast
  then have "list_ex (\<lambda>r. er_id r = gid \<and> er_template r = t) recs" using r by (auto simp: list_ex_iff)
  then show ?thesis using recs(1) by blast
qed blast

section \<open>Services\<close>

definition claims_path :: "string \<Rightarrow> string \<Rightarrow> service_decl \<Rightarrow> nat option" where
  "claims_path repo path s = (if sd_repo s = repo then matched_prefix s path else None)"

lemma better_service_claims:
  "better_service repo path s best =
     (case claims_path repo path s of
        None \<Rightarrow> best
      | Some len \<Rightarrow> (case best of Some (b, best_len) \<Rightarrow> if len \<le> best_len then best else Some (s, len) | None \<Rightarrow> Some (s, len)))"
  by (simp add: better_service_def claims_path_def)

definition best_of :: "string \<Rightarrow> string \<Rightarrow> service_decl list \<Rightarrow> (service_decl \<times> nat) option \<Rightarrow> bool" where
  "best_of repo path ss best \<longleftrightarrow>
     (case best of
        None \<Rightarrow> \<forall>s\<in>set ss. claims_path repo path s = None
      | Some (s, len) \<Rightarrow>
          (\<exists>xs ys. ss = xs @ s # ys \<and> claims_path repo path s = Some len
             \<and> (\<forall>x\<in>set xs. \<forall>m. claims_path repo path x = Some m \<longrightarrow> m < len)
             \<and> (\<forall>y\<in>set ys. \<forall>m. claims_path repo path y = Some m \<longrightarrow> m \<le> len)))"

lemma best_of_snoc: "best_of repo path ss best \<Longrightarrow> best_of repo path (ss @ [s]) (better_service repo path s best)"
proof (cases "claims_path repo path s")
  case None
  assume b: "best_of repo path ss best"
  show ?thesis
  proof (cases best)
    case (Some sl)
    then obtain t len xs ys where "best = Some (t, len)" "ss = xs @ t # ys" "claims_path repo path t = Some len"
      "\<forall>x\<in>set xs. \<forall>m. claims_path repo path x = Some m \<longrightarrow> m < len" "\<forall>y\<in>set ys. \<forall>m. claims_path repo path y = Some m \<longrightarrow> m \<le> len"
      using b by (cases sl) (auto simp: best_of_def)
    then show ?thesis using None by (simp add: better_service_claims best_of_def) (rule exI [of _ xs], rule exI [of _ "ys @ [s]"], simp)
  qed (use b None in \<open>simp add: better_service_claims best_of_def\<close>)
next
  case claim: (Some n)
  assume b: "best_of repo path ss best"
  show ?thesis
  proof (cases best)
    case None
    then show ?thesis using b claim
      by (simp add: better_service_claims best_of_def) (rule exI [of _ ss], rule exI [of _ "[]"], simp)
  next
    case (Some sl)
    then obtain t len xs ys where t: "best = Some (t, len)" "ss = xs @ t # ys" "claims_path repo path t = Some len"
      "\<forall>x\<in>set xs. \<forall>m. claims_path repo path x = Some m \<longrightarrow> m < len" "\<forall>y\<in>set ys. \<forall>m. claims_path repo path y = Some m \<longrightarrow> m \<le> len"
      using b by (cases sl) (auto simp: best_of_def)
    show ?thesis
    proof (cases "n \<le> len")
      case True
      then show ?thesis using t claim by (simp add: better_service_claims best_of_def) (rule exI [of _ xs], rule exI [of _ "ys @ [s]"], auto)
    next
      case False
      then have "\<forall>x\<in>set ss. \<forall>m. claims_path repo path x = Some m \<longrightarrow> m < n" using t by fastforce
      then show ?thesis using t(1) claim False
        by (simp add: better_service_claims best_of_def) (rule exI [of _ ss], rule exI [of _ "[]"], simp)
    qed
  qed
qed

lemma best_of_fold: "best_of repo path ss (fold (better_service repo path) ss None)"
proof (induction ss rule: rev_induct)
  case Nil
  show ?case by (simp add: best_of_def)
next
  case (snoc s ss)
  then show ?case using best_of_snoc [OF snoc] by simp
qed

text \<open>a path belongs to the service of its repository with the longest matching path, the first declared one
  among equals, and to the repository's own service when none matches.\<close>

lemma service_of_longest_path:
  "(assigned_service config repo path = repo \<and> list_all (\<lambda>s. claims_path repo path s = None) (cg_services config))
   \<or> (\<exists>xs s ys len. cg_services config = xs @ s # ys \<and> assigned_service config repo path = sd_name s
        \<and> claims_path repo path s = Some len
        \<and> list_all (\<lambda>x. case claims_path repo path x of Some m \<Rightarrow> m < len | None \<Rightarrow> True) xs
        \<and> list_all (\<lambda>y. case claims_path repo path y of Some m \<Rightarrow> m \<le> len | None \<Rightarrow> True) ys)"
proof (cases "fold (better_service repo path) (cg_services config) None")
  case None
  then show ?thesis using best_of_fold [of repo path "cg_services config"]
    by (simp add: assigned_service_def best_of_def list_all_iff)
next
  case (Some sl)
  obtain s len where sl: "sl = (s, len)" by (cases sl)
  obtain xs ys where "cg_services config = xs @ s # ys" "claims_path repo path s = Some len"
    "\<forall>x\<in>set xs. \<forall>m. claims_path repo path x = Some m \<longrightarrow> m < len" "\<forall>y\<in>set ys. \<forall>m. claims_path repo path y = Some m \<longrightarrow> m \<le> len"
    using best_of_fold [of repo path "cg_services config"] Some by (auto simp: best_of_def sl)
  moreover have "assigned_service config repo path = sd_name s" by (simp add: assigned_service_def Some sl)
  ultimately show ?thesis by (intro disjI2) (fastforce simp: list_all_iff split: option.split)
qed

section \<open>Path prefixes\<close>

text \<open>The validation keeps \<open>services/shipping\<close> and \<open>services/shipping-api\<close> apart at the path separator; the
  assignment does not, so a file of the second goes to a service that declares only the first.\<close>

lemma assignment_ignores_boundary:
  "\<not> path_prefixes_overlap ''services/shipping'' ''services/shipping-api''
   \<and> matched_prefix ((service_default ''shipping'')\<lparr>sd_paths := [''services/shipping'']\<rparr>) ''services/shipping-api/main.rs'' = Some 17"
  by code_simp

end
