(* ===== verification/Join_Run_Props.thy ===== *)
theory Join_Run_Props
  imports Join_Props Endpoint_Props
begin

text \<open>
  The join as a whole: its final edges are one per pair of nodes with the confirmed one first, all of
  them lead to an endpoint of the table, and a confirmed binding is never lost.
\<close>

section \<open>One edge per pair\<close>

definition pick :: "binds_edge list \<Rightarrow> binds_edge" where
  "pick bs = (case filter is_confirmed bs of c # _ \<Rightarrow> c | [] \<Rightarrow> hd bs)"

definition of_pair :: "string \<times> string \<Rightarrow> binds_edge list \<Rightarrow> binds_edge list" where
  "of_pair p bs = filter (\<lambda>b. edge_pair b = p) bs"

lemma pick_step: "pick (prev # e # es) = pick ((if is_confirmed e \<and> \<not> is_confirmed prev then e else prev) # es)"
  by (cases "is_confirmed e"; cases "is_confirmed prev"; cases "filter is_confirmed es") (simp_all add: pick_def)

lemma pick_some:
  assumes "e \<in> set bs" "is_confirmed e"
  shows "pick bs \<in> set bs \<and> is_confirmed (pick bs)"
proof -
  obtain c cs where c: "filter is_confirmed bs = c # cs" using assms by (cases "filter is_confirmed bs") (auto simp: filter_empty_conv)
  then have "c \<in> set (filter is_confirmed bs)" by (metis list.set_intros(1))
  then have "c \<in> set bs" "is_confirmed c" by simp_all
  then show ?thesis by (simp add: pick_def c)
qed

lemma dedupe_pairs: "edge_pair ` set (dedupe_from prev es) = edge_pair ` set (prev # es)"
  by (induction prev es rule: dedupe_from.induct) auto

lemma dedupe_sorted:
  "sorted (map edge_pair (prev # es)) \<Longrightarrow> sorted_wrt (<) (map edge_pair (dedupe_from prev es))"
proof (induction prev es rule: dedupe_from.induct)
  case (2 prev e es)
  show ?case
  proof (cases "edge_pair prev = edge_pair e")
    case True
    then show ?thesis using 2 by simp
  next
    case False
    then have "edge_pair prev < p" if "p \<in> edge_pair ` set (dedupe_from e es)" for p
      using that 2(3) unfolding dedupe_pairs by force
    then show ?thesis using 2(2,3) False by auto
  qed
qed simp

lemma dedupe_picks:
  "sorted (map edge_pair (prev # es)) \<Longrightarrow> x \<in> set (dedupe_from prev es) \<Longrightarrow> x = pick (of_pair (edge_pair x) (prev # es))"
proof (induction prev es arbitrary: x rule: dedupe_from.induct)
  case (1 prev)
  then show ?case by (simp add: of_pair_def pick_def)
next
  case (2 prev e es)
  show ?case
  proof (cases "edge_pair prev = edge_pair e")
    case True
    let ?prev = "if is_confirmed e \<and> \<not> is_confirmed prev then e else prev"
    have "x = pick (of_pair (edge_pair x) (?prev # es))" using 2 True by simp
    also have "\<dots> = pick (of_pair (edge_pair x) (prev # e # es))"
      using True pick_step [of prev e "of_pair (edge_pair x) es"] by (auto simp: of_pair_def)
    finally show ?thesis .
  next
    case False
    then have above: "edge_pair prev < edge_pair b" if "b \<in> set (e # es)" for b using that 2(3) by force
    show ?thesis
    proof (cases "x = prev")
      case True
      have "of_pair (edge_pair prev) (e # es) = []" using above by (force simp: of_pair_def filter_empty_conv)
      then show ?thesis using True by (simp add: of_pair_def pick_def)
    next
      case other: False
      then have x: "x \<in> set (dedupe_from e es)" using 2(4) False by simp
      then have "edge_pair x \<in> edge_pair ` set (e # es)" using dedupe_pairs [of e es] by blast
      then have "edge_pair prev \<noteq> edge_pair x" using above by force
      then have "of_pair (edge_pair x) (prev # e # es) = of_pair (edge_pair x) (e # es)" by (simp add: of_pair_def)
      then show ?thesis using 2(2) [OF False _ x] 2(3) by simp
    qed
  qed
qed

lemma dedupe_from_subset: "set (dedupe_from prev es) \<subseteq> set (prev # es)"
proof (induction prev es rule: dedupe_from.induct)
  case (2 prev e es)
  then show ?case by (cases "edge_pair prev = edge_pair e") auto
qed simp

lemma dedupe_subset: "set (dedupe_binds bs) \<subseteq> set bs"
proof (cases "sort_key edge_pair bs")
  case (Cons e es)
  then have "set (e # es) = set bs" by (metis set_sort)
  then show ?thesis using dedupe_from_subset [of e es] by (simp add: dedupe_binds_def Cons)
qed (simp add: dedupe_binds_def)

lemma dedupe_binds_exact:
  "sorted_wrt (<) (map edge_pair (dedupe_binds bs)) \<and> edge_pair ` set (dedupe_binds bs) = edge_pair ` set bs
   \<and> list_all (\<lambda>x. x = pick (of_pair (edge_pair x) bs)) (dedupe_binds bs)"
proof (cases "sort_key edge_pair bs")
  case Nil
  then have "bs = []" by (metis set_empty set_sort)
  then show ?thesis by (simp add: dedupe_binds_def)
next
  case (Cons e es)
  have sorted: "sorted (map edge_pair (e # es))" using sorted_sort_key [of edge_pair bs] by (simp only: Cons)
  have "set (e # es) = set bs" by (simp only: Cons [symmetric] set_sort)
  moreover have "of_pair p (e # es) = of_pair p bs" for p
    unfolding of_pair_def Cons [symmetric] by (rule sort_key_stable)
  ultimately show ?thesis
    using dedupe_sorted [OF sorted] dedupe_picks [OF sorted] dedupe_pairs [of e es]
    by (simp add: dedupe_binds_def Cons list_all_iff)
qed

text \<open>C24: the final edges are sorted and have distinct pairs of consumer and provider, the same pairs as were
  found; for each pair the first confirmed edge is kept, or the first edge when none is confirmed.\<close>

lemma one_edge_per_pair:
  "sorted_wrt (<) (map edge_pair (dedupe_binds bs)) \<and> edge_pair ` set (dedupe_binds bs) = edge_pair ` set bs
   \<and> list_all (\<lambda>x. x = pick (of_pair (edge_pair x) bs)) (dedupe_binds bs)"
  by (rule dedupe_binds_exact)

section \<open>Edges lead into the table\<close>

definition table_edge :: "endpoint_table \<Rightarrow> binds_edge \<Rightarrow> bool" where
  "table_edge endpoints b \<longleftrightarrow>
     be_provider_service b = fst (be_target_endpoint b)
     \<and> (\<exists>recs. bt_get endpoints (be_target_endpoint b) = Some recs \<and> be_provider b \<in> er_id ` set recs)"

lemma grounded_table: "grounded call_id own c endpoints b \<Longrightarrow> table_edge endpoints b"
  by (auto simp: grounded_def table_edge_def)

definition extends :: "endpoint_table \<Rightarrow> string \<Rightarrow> binds_edge list \<Rightarrow> consumer_resolution \<times> binds_edge list \<Rightarrow> bool" where
  "extends endpoints call_id binds r \<longleftrightarrow>
     cr_call_id (fst r) = call_id \<and> (\<exists>new. snd r = binds @ new \<and> list_all (table_edge endpoints) new)"

lemma resolved_extends:
  assumes "resolved_fit call_id own c endpoints binds r"
  shows "extends endpoints call_id binds (fst r, js_binds (snd r))"
proof -
  obtain new where new: "js_binds (snd r) = binds @ new" "binds_fit call_id own c endpoints new (fst r)"
    using assms by (auto simp: resolved_fit_def)
  have "list_all (table_edge endpoints) new" using new(2) grounded_table by (auto simp: binds_fit_def list_all_iff)
  then show ?thesis using new by (simp add: extends_def binds_fit_def)
qed

lemma extends_idle [simp]: "extends endpoints call_id binds (resolution call_id own t b reads, binds)"
  by (simp add: extends_def)

lemma extends_trans: "extends endpoints call_id binds (r, binds') \<Longrightarrow> extends endpoints call_id binds' r' \<Longrightarrow> extends endpoints call_id binds r'"
  by (fastforce simp: extends_def list_all_iff)

lemma key_hits_table:
  "bt_ok endpoints \<Longrightarrow> h \<in> set (key_hits p endpoints) \<Longrightarrow> table_edge endpoints (bind_static call_id own h)"
proof -
  have "\<exists>svc key r rs. h = (svc, key, er_id r) \<and> ((svc, key), r # rs) \<in> set es" if "h \<in> set (key_hits p es)" for es
    using that by (induction es rule: key_hits.induct [of _ p]) (auto split: if_splits list.splits, blast+)
  moreover assume "bt_ok endpoints" "h \<in> set (key_hits p endpoints)"
  ultimately obtain svc key r rs where "h = (svc, key, er_id r)" "bt_get endpoints (svc, key) = Some (r # rs)"
    by (metis bt_mem)
  then show ?thesis by (simp add: table_edge_def bind_static_def bind_to_def)
qed

lemma resolve_by_key_extends: "bt_ok endpoints \<Longrightarrow> extends endpoints call_id binds (resolve_by_key call_id endpoints p policy own binds)"
  by (auto simp: resolve_by_key_def Let_def extends_def list_all_iff key_hits_table split: consumer_target.split)

lemma rpc_in_services_extends:
  assumes "bt_ok endpoints"
  shows "extends endpoints call_id binds (rpc_in_services call_id c own endpoints svcs binds)"
proof -
  let ?exact = "resolve_by_key call_id endpoints
    (\<lambda>i. fst i \<in> set svcs \<and> snd i = KRpc (rc_system c) (rc_service c) (rc_method c)) PolicyRpcStubUnknown own binds"
  obtain res binds' where first: "?exact = (res, binds')" by (cases ?exact)
  have "extends endpoints call_id binds (res, binds')"
    using resolve_by_key_extends [OF assms] by (simp flip: first)
  then show ?thesis using extends_trans [OF _ resolve_by_key_extends [OF assms]]
    by (auto simp: rpc_in_services_def first)
qed

lemma table_consumer_extends: "bt_ok endpoints \<Longrightarrow> extends endpoints call_id binds (resolve_table_consumer call_id c own endpoints binds)"
  by (auto simp: resolve_table_consumer_def Let_def extends_def list_all_iff key_hits_table)

lemma rpc_consumer_extends:
  assumes "bt_ok endpoints" "resolve_rpc_consumer call_id c own endpoints config unresolved binds = (res, u, binds')"
  shows "extends endpoints call_id binds (res, binds')"
proof -
  have rpc: "rpc_in_services call_id c own endpoints svcs binds = (r, b) \<Longrightarrow> extends endpoints call_id binds (r, b)" for svcs r b
    using rpc_in_services_extends [OF assms(1), of call_id binds c own svcs] by simp
  show ?thesis using assms(2)
    by (cases "rc_channel_host_part c")
       (auto simp: resolve_rpc_consumer_def rpc_stub_unknown_def split: if_splits prod.splits intro: rpc)
qed

lemma dispatch_extends:
  assumes "bt_ok endpoints" "dispatch call_id own cfact endpoints config st = Some (res, st')"
  shows "extends endpoints call_id (js_binds st) (res, js_binds st')"
  using assms(2) resolve_by_key_extends [OF assms(1), of call_id "js_binds st"] table_consumer_extends [OF assms(1), of call_id "js_binds st"]
    rpc_consumer_extends [OF assms(1)]
  by (cases cfact)
     (auto simp: dispatch_def with_binds_def resolve_topic_consumer_def resolve_graphql_consumer_def resolve_websocket_consumer_def Let_def
       split: prod.splits if_splits)

section \<open>The run\<close>

definition run_ok :: "endpoint_table \<Rightarrow> join_run \<Rightarrow> bool" where
  "run_ok endpoints run \<longleftrightarrow>
     bt_ok endpoints \<and> list_all (table_edge endpoints) (js_binds (jr_state run)) \<and> bt_ok (jr_consumers run)
     \<and> list_all (\<lambda>(gid, rs). rs \<noteq> [] \<and> list_all (\<lambda>r. cr_call_id r = gid) rs) (jr_consumers run)"

lemma bt_update_all:
  assumes "bt_ok m" "list_all (\<lambda>(k, v). P k v) m" "P k (f None)" "\<And>v. P k v \<Longrightarrow> P k (f (Some v))"
  shows "list_all (\<lambda>(k, v). P k v) (bt_update k f m)"
  using assms by (induction k f m rule: bt_update.induct) (auto simp: bt_ok_def)

lemma push_resolution_all:
  assumes "bt_ok m" "list_all (\<lambda>(gid, rs). rs \<noteq> [] \<and> list_all (\<lambda>r. cr_call_id r = gid) rs) m" "cr_call_id r = call_id"
  shows "list_all (\<lambda>(gid, rs). rs \<noteq> [] \<and> list_all (\<lambda>r. cr_call_id r = gid) rs) (bt_push call_id r m)"
  unfolding bt_push_def by (rule bt_update_all [OF assms(1,2)]) (simp_all add: assms(3))

lemma record_ok:
  assumes "run_ok endpoints run" "extends endpoints call_id (js_binds (jr_state run)) (fst r, js_binds (snd r))"
  shows "run_ok endpoints (record_resolution call_id r run)"
  using assms push_resolution_all [of "jr_consumers run" "fst r" call_id]
  by (auto simp: run_ok_def record_resolution_def extends_def bt_push_def)

lemma join_fact_ok:
  assumes ok: "run_ok (ji_endpoints inp) run"
  shows "run_ok (ji_endpoints inp) (join_fact inp entry run)"
proof -
  obtain node cfact where entry: "entry = (node, cfact)" by (cases entry)
  show ?thesis
  proof (cases "gid_parse (gn_id node)")
    case (Inr call_id)
    let ?own = "own_service inp node call_id"
    have table: "bt_ok (ji_endpoints inp)" using ok by (simp add: run_ok_def)
    show ?thesis
    proof (cases "dispatch call_id ?own cfact (ji_endpoints inp) (ji_config inp) (jr_state run)")
      case (Some r)
      then have "run_ok (ji_endpoints inp) (record_resolution call_id r run)"
        by (intro record_ok [OF ok] dispatch_extends [OF table]) simp
      then show ?thesis by (simp add: join_fact_def entry Inr Let_def Some)
    next
      case None
      show ?thesis
      proof (cases cfact)
        case (Consumer c)
        let ?r = "resolve_consumer (ji_alnum inp) call_id c ?own (ji_config inp) (ji_clients inp) (ji_endpoints inp)
                    (ji_registry inp) (ji_env inp) (jr_state run)"
        have "extends (ji_endpoints inp) call_id (js_binds (jr_state run)) (fst ?r, js_binds (snd ?r))"
          by (rule resolved_extends [OF resolve_consumer_fit [OF table]])
        then have resolved: "run_ok (ji_endpoints inp) (record_resolution call_id ?r run)" by (rule record_ok [OF ok])
        have gated: "run_ok (ji_endpoints inp)
            (run\<lparr>jr_consumers := bt_push call_id (resolution call_id ?own t b reads) (jr_consumers run)\<rparr>)" for t b reads
          using ok push_resolution_all [of "jr_consumers run" "resolution call_id ?own t b reads" call_id]
          by (simp add: run_ok_def bt_push_def)
        show ?thesis using None ok resolved gated
          by (auto simp: join_fact_def entry Inr Let_def Consumer split: option.split)
      qed (use None ok in \<open>simp_all add: join_fact_def entry Inr Let_def\<close>)
    qed
  qed (use ok in \<open>simp add: join_fact_def entry\<close>)
qed

interpretation joining: machine "join_fact inp" "\<lambda>_. True" "run_ok (ji_endpoints inp)" for inp
  by unfold_locales (rule join_fact_ok)

lemma confirm_node_ok:
  assumes "run_ok (ji_endpoints inp) (snd st)" "bt_get (ji_endpoints inp) (cp_service (cb_provider b), provider_key) = Some (p # ps)"
  shows "run_ok (ji_endpoints inp) (snd (confirm_node inp i b consumer_key provider_key (er_id p) node st))"
proof (cases "confirmed_site b consumer_key node")
  case None
  then show ?thesis using assms(1) by (simp add: confirm_node_def)
next
  case (Some site)
  obtain gid reads where site: "site = (gid, reads)" by (cases site)
  let ?P = "\<lambda>gid rs. rs \<noteq> [] \<and> list_all (\<lambda>r. cr_call_id r = gid) rs"
  have "list_all (\<lambda>(gid, rs). ?P gid rs) (bt_update gid
      (\<lambda>old. resolution gid own t e reads # filter (\<lambda>r. \<not> superseded provider_key r) (case old of Some rs \<Rightarrow> rs | None \<Rightarrow> []))
      (jr_consumers (snd st)))" for own t e
    by (rule bt_update_all) (use assms(1) in \<open>auto simp: run_ok_def list_all_iff\<close>)
  then show ?thesis using assms
    by (simp add: confirm_node_def Some site Let_def run_ok_def table_edge_def bind_to_def)
qed

lemma confirm_nodes_ok:
  assumes "bt_get (ji_endpoints inp) (cp_service (cb_provider b), provider_key) = Some (p # ps)" "run_ok (ji_endpoints inp) (snd st)"
  shows "run_ok (ji_endpoints inp) (snd (fold (confirm_node inp i b consumer_key provider_key (er_id p)) nodes st))"
  using assms(2)
proof (induction nodes arbitrary: st)
  case (Cons node nodes)
  show ?case using Cons.IH [OF confirm_node_ok [OF Cons.prems assms(1)]] by simp
qed simp

lemma apply_confirmed_ok:
  assumes "run_ok (ji_endpoints inp) run"
  shows "run_ok (ji_endpoints inp) (apply_confirmed_binding inp nodes entry run)"
proof -
  obtain i b where entry: "entry = (i, b)" by (cases entry)
  have stale: "run_ok (ji_endpoints inp) run' \<Longrightarrow> run_ok (ji_endpoints inp) (add_stale s run')" for s run'
    by (simp add: run_ok_def add_stale_def)
  have nodes: "run_ok (ji_endpoints inp) run'"
    if "bt_get (ji_endpoints inp) (cp_service (cb_provider b), pk) = Some (p # ps)"
      "fold (confirm_node inp i b ck pk (er_id p)) nodes (False, run) = (m, run')" for pk ck p ps m run'
    using confirm_nodes_ok [OF that(1), of "(False, run)" i ck nodes] assms that(2) by simp
  show ?thesis
    by (auto simp: apply_confirmed_binding_def entry Let_def assms intro: stale nodes
        split: sum.split option.split list.split prod.split)
qed

lemma join_consumers_ok:
  assumes "inp = join_input_of alnum nodes config registry env"
  shows "run_ok (ji_endpoints inp) (join_consumers alnum nodes config registry env)"
proof -
  have table: "bt_ok (ji_endpoints inp)" by (simp add: assms join_input_of_def Let_def)
  then have "run_ok (ji_endpoints inp) join_start" by (simp add: run_ok_def join_start_def)
  then have "run_ok (ji_endpoints inp) (fold (join_fact inp) (node_facts nodes) join_start)"
    using joining.run_inv [of "node_facts nodes" inp join_start] by (simp add: list_all_iff)
  then have "run_ok (ji_endpoints inp) (fold (apply_confirmed_binding inp nodes) bs
      (fold (join_fact inp) (node_facts nodes) join_start))" for bs
    by (induction bs rule: rev_induct) (simp_all add: apply_confirmed_ok)
  then show ?thesis by (simp add: join_consumers_def assms [symmetric] Let_def)
qed

lemma join_run_ok:
  "run_ok (build_endpoints nodes (assign_services nodes config) config) (join_consumers alnum nodes config registry env)"
proof -
  let ?inp = "join_input_of alnum nodes config registry env"
  have table: "ji_endpoints ?inp = build_endpoints nodes (assign_services nodes config) config" by (simp add: join_input_of_def Let_def)
  have "run_ok (ji_endpoints ?inp) (join_consumers alnum nodes config registry env)" by (rule join_consumers_ok) simp
  then show ?thesis unfolding table .
qed

section \<open>Confirmed bindings\<close>

lemma confirm_node_keeps: "x \<in> set (js_binds (jr_state (snd st))) \<Longrightarrow> x \<in> set (js_binds (jr_state (snd (confirm_node inp i b ck pk pid node st))))"
  by (auto simp: confirm_node_def Let_def split: option.split)

lemma confirm_nodes_keep:
  "x \<in> set (js_binds (jr_state (snd st))) \<Longrightarrow> x \<in> set (js_binds (jr_state (snd (fold (confirm_node inp i b ck pk pid) nodes st))))"
proof (induction nodes arbitrary: st)
  case (Cons node nodes)
  show ?case using Cons.IH [OF confirm_node_keeps [OF Cons.prems]] by simp
qed simp

lemma apply_confirmed_keeps:
  assumes "x \<in> set (js_binds (jr_state run))"
  shows "x \<in> set (js_binds (jr_state (apply_confirmed_binding inp nodes entry run)))"
proof -
  obtain i b where entry: "entry = (i, b)" by (cases entry)
  have nodes: "x \<in> set (js_binds (jr_state run'))" if "fold (confirm_node inp i b ck pk pid) nodes (False, run) = (m, run')" for ck pk pid m run'
    using confirm_nodes_keep [of x "(False, run)" inp i b ck pk pid nodes] assms that by simp
  have stale: "js_binds (jr_state (add_stale s run')) = js_binds (jr_state run')" for s run' by (simp add: add_stale_def)
  show ?thesis
    by (auto simp: apply_confirmed_binding_def entry Let_def assms stale intro: nodes split: sum.split option.split list.split prod.split)
qed

lemma apply_all_keep:
  "x \<in> set (js_binds (jr_state run)) \<Longrightarrow> x \<in> set (js_binds (jr_state (fold (apply_confirmed_binding inp nodes) es run)))"
  by (induction es arbitrary: run) (auto intro: apply_confirmed_keeps)

lemma confirm_nodes_add:
  assumes "node \<in> set nodes" "confirmed_site b ck node = Some (gid, reads)"
  shows "\<exists>own. bind_to gid own (cp_service (cb_provider b)) pk pid (Confirmed (confirmed_source i)) 1 RM_Exact None
    \<in> set (js_binds (jr_state (snd (fold (confirm_node inp i b ck pk pid) nodes st))))"
  using assms(1)
proof (induction nodes arbitrary: st)
  case (Cons n nodes)
  show ?case
  proof (cases "n = node")
    case True
    let ?own = "case hm_get (ji_assignments inp) (gn_id node) of Some s \<Rightarrow> s | None \<Rightarrow> cc_repo (cb_consumer b)"
    have "bind_to gid ?own (cp_service (cb_provider b)) pk pid (Confirmed (confirmed_source i)) 1 RM_Exact None
        \<in> set (js_binds (jr_state (snd (confirm_node inp i b ck pk pid node st))))"
      by (simp add: confirm_node_def Let_def assms(2))
    then have "bind_to gid ?own (cp_service (cb_provider b)) pk pid (Confirmed (confirmed_source i)) 1 RM_Exact None
        \<in> set (js_binds (jr_state (snd (fold (confirm_node inp i b ck pk pid) nodes (confirm_node inp i b ck pk pid node st)))))"
      by (rule confirm_nodes_keep)
    then show ?thesis unfolding True fold_simps by (rule exI)
  next
    case False
    then show ?thesis using Cons by simp
  qed
qed simp

lemma apply_confirmed_adds:
  assumes keys: "parse_contract_key (cp_key (cb_provider b)) = Inr pk" "parse_contract_key (cc_key (cb_consumer b)) = Inr ck"
      "keys_compatible ck pk"
    and table: "bt_get (ji_endpoints inp) (cp_service (cb_provider b), pk) = Some (p # ps)"
    and node: "node \<in> set nodes" "confirmed_site b ck node = Some (gid, reads)"
  shows "\<exists>own. bind_to gid own (cp_service (cb_provider b)) pk (er_id p) (Confirmed (confirmed_source i)) 1 RM_Exact None
    \<in> set (js_binds (jr_state (apply_confirmed_binding inp nodes (i, b) run)))"
proof -
  obtain m run' where f: "fold (confirm_node inp i b ck pk (er_id p)) nodes (False, run) = (m, run')"
    by (cases "fold (confirm_node inp i b ck pk (er_id p)) nodes (False, run)")
  have "js_binds (jr_state (apply_confirmed_binding inp nodes (i, b) run)) = js_binds (jr_state run')"
    by (simp add: apply_confirmed_binding_def keys table f Let_def add_stale_def)
  then show ?thesis using confirm_nodes_add [OF node, of pk "er_id p" i inp "(False, run)"] by (simp add: f)
qed

text \<open>a confirmed binding between compatible keys, to an endpoint of the table, from a node it names, is never
  lost: the edge reported between the two nodes is a confirmed one, whatever the other rules found.\<close>

lemma confirmed_binding_wins:
  assumes "i < length (cg_bindings config)" "b = cg_bindings config ! i"
    and "parse_contract_key (cp_key (cb_provider b)) = Inr pk" "parse_contract_key (cc_key (cb_consumer b)) = Inr ck" "keys_compatible ck pk"
    and "bt_get (build_endpoints nodes (assign_services nodes config) config) (cp_service (cb_provider b), pk) = Some (p # ps)"
    and "node \<in> set nodes" "confirmed_site b ck node = Some (gid, reads)"
  shows "\<exists>e \<in> set (join_binds (join_consumers alnum nodes config registry env) field_binds).
    edge_pair e = (gid, er_id p) \<and> is_confirmed e"
proof -
  let ?inp = "join_input_of alnum nodes config registry env" and ?run = "join_consumers alnum nodes config registry env"
  let ?es = "zip [0..<length (cg_bindings config)] (cg_bindings config)"
  have "(i, b) \<in> set ?es" using assms(1,2) by (force simp: set_zip)
  then obtain xs ys where es: "?es = xs @ (i, b) # ys" by (meson split_list)
  let ?before = "fold (apply_confirmed_binding ?inp nodes) xs (fold (join_fact ?inp) (node_facts nodes) join_start)"
  have table: "bt_get (ji_endpoints ?inp) (cp_service (cb_provider b), pk) = Some (p # ps)"
    using assms(6) by (simp add: join_input_of_def Let_def)
  obtain own where "bind_to gid own (cp_service (cb_provider b)) pk (er_id p) (Confirmed (confirmed_source i)) 1 RM_Exact None
      \<in> set (js_binds (jr_state (apply_confirmed_binding ?inp nodes (i, b) ?before)))"
    using apply_confirmed_adds [OF assms(3-5) table assms(7,8)] by blast
  then have mem: "bind_to gid own (cp_service (cb_provider b)) pk (er_id p) (Confirmed (confirmed_source i)) 1 RM_Exact None
      \<in> set (js_binds (jr_state ?run))"
    using apply_all_keep by (simp add: join_consumers_def Let_def es)
  define bs where "bs = js_binds (jr_state ?run) @ field_binds"
  define e where "e = bind_to gid own (cp_service (cb_provider b)) pk (er_id p) (Confirmed (confirmed_source i)) 1 RM_Exact None"
  have e: "e \<in> set bs" "is_confirmed e" "edge_pair e = (gid, er_id p)"
    using mem by (simp_all add: e_def bs_def is_confirmed_def bind_to_def edge_pair_def)
  have pairs: "edge_pair ` set (dedupe_binds bs) = edge_pair ` set bs"
    and picks: "\<And>x. x \<in> set (dedupe_binds bs) \<Longrightarrow> x = pick (of_pair (edge_pair x) bs)"
    using dedupe_binds_exact [of bs] by (auto simp: list_all_iff)
  obtain x where x: "x \<in> set (dedupe_binds bs)" "edge_pair x = (gid, er_id p)" using pairs e(1,3) by (metis image_iff)
  have "e \<in> set (of_pair (edge_pair x) bs)" using e x(2) by (simp add: of_pair_def)
  then have "is_confirmed (pick (of_pair (edge_pair x) bs))" using pick_some e(2) by blast
  then have "is_confirmed x" using picks [OF x(1)] by simp
  then show ?thesis using x unfolding join_binds_def bs_def by blast
qed

end
