(* ===== verification/Join_Examples.thy ===== *)
theory Join_Examples
  imports Join_Run_Props
begin

text \<open>
  The join evaluated: instances at which the theorems of \<^verbatim>\<open>Endpoint_Props\<close>, \<^verbatim>\<open>Join_Props\<close> and
  \<^verbatim>\<open>Join_Run_Props\<close> apply, and the cases where the code does something else than its comments say.
\<close>

section \<open>A small federation\<close>

definition node_with :: "string \<Rightarrow> node_type \<Rightarrow> string \<Rightarrow> string \<Rightarrow> contract_fact list \<Rightarrow> graph_node" where
  "node_with gid t name path facts = (node_new_in (\<lambda>_ _. []) t name path [])\<lparr>gn_id := gid, gn_contract := facts\<rparr>"

definition orders_route :: provider_fact where
  "orders_route = \<lparr>pf_method = Get, pf_template = ''/orders'', pf_handler = None, pf_operation_id = None, pf_origin = Code\<rparr>"

definition route_record :: "string \<Rightarrow> http_method \<Rightarrow> string \<Rightarrow> endpoint_record" where
  "route_record gid m template = \<lparr>er_id = gid, er_fact = None, er_template = template, er_method = m\<rparr>"

definition call_of :: "string \<Rightarrow> consumer_fact" where
  "call_of template = \<lparr>cf_method = Known Get, cf_url = \<lparr>nu_host = HostNone, nu_template = Some template\<rparr>, cf_via = ViaLibrary ''fetch'',
     cf_url_expr = [], cf_reads_complete = True\<rparr>"

definition empty_config :: contract_config where
  "empty_config = \<lparr>cg_services = [], cg_http_clients = [], cg_generic_keys = [], cg_schemas = [],
     cg_bindings = [], cg_databases = [], cg_provides = [], cg_host_aliases = []\<rparr>"

definition orders_table :: endpoint_table where
  "orders_table = [((''orders'', KHttp (Known Get) ''/orders''), [route_record ''p'' Get ''/orders''])]"

lemma orders_found:
  "best_provider_for_in ''orders'' (Known Get) ''/orders'' True orders_table =
     Some (KHttp (Known Get) ''/orders'', \<lparr>md_kind = RM_Exact, md_confidence = 1, md_stripped_prefix = None\<rparr>)"
  by code_simp

lemma orders_candidates:
  "candidates ''orders'' (Known Get) ''/orders'' orders_table =
     [(KHttp (Known Get) ''/orders'', \<lparr>md_kind = RM_Exact, md_confidence = 1, md_stripped_prefix = None\<rparr>)]"
  by code_simp

lemma best_provider_most_specific_witness:
  "\<exists>key d. candidates ''orders'' (Known Get) ''/orders'' orders_table = [(key, d)]
     \<and> (directness True d, key_specificity key)
        \<le> (directness True \<lparr>md_kind = RM_Exact, md_confidence = 1, md_stripped_prefix = None\<rparr>,
            key_specificity (KHttp (Known Get) ''/orders''))"
  using best_provider_most_specific [OF orders_found] unfolding orders_candidates by simp

lemma orders_hits: "service_hits empty_config ''web'' (Known Get) ''/orders'' orders_table = [''orders'']"
  by code_simp

lemma search_covers_services_witness:
  "\<exists>new. snd (bind_hits ''c'' (call_of ''/orders'') ''web'' [''orders''] orders_table []) = new \<and> map be_provider_service new = [''orders'']
     \<and> list_all (\<lambda>b. be_confidence b = 6 / 10) new"
proof -
  have ok: "bt_ok orders_table" by (simp add: orders_table_def bt_ok_def)
  have template: "nu_template (cf_url (call_of ''/orders'')) = Some ''/orders''" by (simp add: call_of_def)
  have hits: "[''orders''] = service_hits empty_config ''web'' (cf_method (call_of ''/orders'')) ''/orders'' orders_table"
    unfolding call_of_def consumer_fact.simps by (rule orders_hits [symmetric])
  obtain new where "snd (bind_hits ''c'' (call_of ''/orders'') ''web'' [''orders''] orders_table []) = [] @ new"
      "map be_provider_service new = [''orders'']"
      "list_all (\<lambda>b. be_confidence b = (if length [''orders''] = 1 then 6 / 10 else 3 / 10)) new"
    using conjunct2 [OF search_covers_services [OF ok template hits list.distinct(2), of "''c''" "[]"]] by (elim exE conjE)
  then show ?thesis by (intro exI [of _ new]) simp
qed

definition route_gid :: string where
  "route_gid = global_id_new (RepoId ''orders'') NT_HttpRoute ''a.rs'' ''list'' (Some 1)"

definition call_gid :: string where
  "call_gid = global_id_new (RepoId ''web'') NT_HttpClientCall ''b.ts'' ''load'' (Some 2)"

definition route_node :: graph_node where
  "route_node = node_with route_gid NT_HttpRoute ''list'' ''a.rs'' [Provider orders_route]"

definition call_node :: graph_node where
  "call_node = node_with call_gid NT_HttpClientCall ''load'' ''b.ts'' [Consumer (call_of ''/orders'')]"

definition confirmed_config :: contract_config where
  "confirmed_config = empty_config\<lparr>cg_bindings :=
     [\<lparr>cb_consumer = \<lparr>cc_repo = ''web'', cc_path = ''b.ts'', cc_symbol = ''load'', cc_key = ''GET /orders'', cc_site = None\<rparr>,
       cb_provider = \<lparr>cp_service = ''orders'', cp_key = ''GET /orders''\<rparr>\<rparr>]\<rparr>"

lemma small_repos: "repo_ok (RepoId ''orders'')" "repo_ok (RepoId ''web'')"
  by (simp_all add: repo_ok_iff)

lemma route_gid_fields: "gid_parse route_gid = Inr route_gid" "gid_repo_id route_gid = ''orders''"
  using global_id_fields [OF small_repos(1), of "Some 1" NT_HttpRoute "''a.rs''" "''list''"] by (simp_all add: route_gid_def)

lemma call_gid_fields: "gid_parse call_gid = Inr call_gid" "gid_repo_id call_gid = ''web''"
  using global_id_fields [OF small_repos(2), of "Some 2" NT_HttpClientCall "''b.ts''" "''load''"] by (simp_all add: call_gid_def)

lemma gids_differ: "route_gid \<noteq> call_gid"
  using route_gid_fields(2) call_gid_fields(2) by auto

lemma node_fields [simp]:
  "gn_id (node_with gid t name path facts) = gid" "gn_contract (node_with gid t name path facts) = facts"
  "gn_path (node_with gid t name path facts) = path" "gn_name (node_with gid t name path facts) = name"
  "gn_type (node_with gid t name path facts) = t" "gn_repo_id (node_with gid t name path facts) = None"
  "gn_container (node_with gid t name path facts) = None"
  by (simp_all add: node_with_def node_new_in_def)

lemma call_fields:
  "gn_id call_node = call_gid" "gn_path call_node = ''b.ts''" "gn_name call_node = ''load''" "gn_container call_node = None"
  by (simp_all add: call_node_def)

lemma orders_key: "parse_contract_key ''GET /orders'' = Inr (KHttp (Known Get) ''/orders'')"
  by code_simp

lemma call_keys: "consumer_keys (Consumer (call_of ''/orders'')) = [KHttp (Known Get) ''/orders'']"
  by code_simp

lemma key_meets_itself: "keys_compatible (KHttp (Known Get) ''/orders'') (KHttp (Known Get) ''/orders'')"
  by code_simp

lemma small_configs:
  "cg_services empty_config = []" "cg_provides empty_config = []" "cg_bindings empty_config = []"
  "cg_services confirmed_config = []" "cg_provides confirmed_config = []"
  "cg_bindings confirmed_config =
     [\<lparr>cb_consumer = \<lparr>cc_repo = ''web'', cc_path = ''b.ts'', cc_symbol = ''load'', cc_key = ''GET /orders'', cc_site = None\<rparr>,
       cb_provider = \<lparr>cp_service = ''orders'', cp_key = ''GET /orders''\<rparr>\<rparr>]"
  by (simp_all add: empty_config_def confirmed_config_def)

lemma orders_template: "cg_services config = [] \<Longrightarrow> endpoint_template_for orders_route path (resolve_service_decl ''orders'' config) = ''/orders''"
  by (simp add: endpoint_template_for_def resolve_service_decl_def service_default_def orders_route_def)

lemma schema_keys_agree_witness:
  "\<exists>recs. bt_get (build_endpoints [route_node] (hm_put route_gid ''orders'' hm_empty) empty_config) (''orders'', KHttp (Known Get) ''/orders'')
       = Some recs \<and> list_ex (\<lambda>r. er_id r = route_gid \<and> er_template r = ''/orders'') recs"
proof -
  have key: "contract_key_for_provider route_node ''orders'' empty_config = Some ((''orders'', KHttp (Known Get) ''/orders''), ''/orders'')"
    by (simp add: contract_key_for_provider_def route_node_def orders_template small_configs Let_def http_endpoint_key_def)
       (simp add: orders_route_def)
  have node: "route_node \<in> set [route_node]" "gid_parse (gn_id route_node) = Inr route_gid"
      "hm_get (hm_put route_gid ''orders'' hm_empty) (gn_id route_node) = Some ''orders''"
    by (simp_all add: route_node_def route_gid_fields)
  have "hd (gn_contract route_node) \<noteq> GraphqlProvider g" for g by (simp add: route_node_def)
  then show ?thesis using schema_keys_agree [OF node key] by blast
qed

lemma confirmed_assignments:
  "hm_get (assign_services [route_node, call_node] confirmed_config) route_gid = Some ''orders''"
  by (simp add: assign_services_def route_node_def call_node_def node_repo_def route_gid_fields call_gid_fields gids_differ
      assigned_service_def small_configs)

lemma confirmed_table:
  "bt_get (build_endpoints [route_node, call_node] (assign_services [route_node, call_node] confirmed_config) confirmed_config)
     (''orders'', KHttp (Known Get) ''/orders'')
   = Some [\<lparr>er_id = route_gid, er_fact = Some (Provider orders_route), er_template = ''/orders'', er_method = Get\<rparr>]"
proof -
  let ?assignments = "assign_services [route_node, call_node] confirmed_config"
  have route: "graph_endpoints confirmed_config ?assignments route_node =
      [((''orders'', KHttp (Known Get) ''/orders''),
        \<lparr>er_id = route_gid, er_fact = Some (Provider orders_route), er_template = ''/orders'', er_method = Get\<rparr>)]"
    using confirmed_assignments
    by (simp add: graph_endpoints_def route_gid_fields node_endpoints_def route_node_def orders_template small_configs Let_def
        http_endpoint_key_def)
       (simp add: orders_route_def)
  have call: "graph_endpoints confirmed_config ?assignments call_node = []"
    by (simp add: graph_endpoints_def call_gid_fields node_endpoints_def call_node_def split: option.split)
  show ?thesis unfolding table_lookup endpoint_entries_def by (simp add: route call small_configs)
qed

lemma confirmed_binding_wins_witness:
  "\<exists>e. e \<in> set (join_binds (join_consumers (\<lambda>_. False) [route_node, call_node] confirmed_config [] (\<lambda>_. None)) [])
     \<and> edge_pair e = (call_gid, route_gid) \<and> is_confirmed e"
proof -
  let ?b = "cg_bindings confirmed_config ! 0"
  have binding: "0 < length (cg_bindings confirmed_config)" "?b = cg_bindings confirmed_config ! 0" by (simp_all add: small_configs)
  have keys: "parse_contract_key (cp_key (cb_provider ?b)) = Inr (KHttp (Known Get) ''/orders'')"
      "parse_contract_key (cc_key (cb_consumer ?b)) = Inr (KHttp (Known Get) ''/orders'')"
    by (simp_all add: small_configs orders_key)
  have service: "cp_service (cb_provider ?b) = ''orders''" by (simp add: small_configs)
  have facts: "fact_keys call_node = [(KHttp (Known Get) ''/orders'', True)]"
    by (simp add: fact_keys_def call_node_def call_keys) (simp add: call_of_def)
  have site: "confirmed_site ?b (KHttp (Known Get) ''/orders'') call_node = Some (call_gid, True)"
    unfolding confirmed_site_def facts call_fields small_configs by (simp add: call_gid_fields)
  have table: "bt_get (build_endpoints [route_node, call_node] (assign_services [route_node, call_node] confirmed_config) confirmed_config)
      (cp_service (cb_provider ?b), KHttp (Known Get) ''/orders'')
    = Some [\<lparr>er_id = route_gid, er_fact = Some (Provider orders_route), er_template = ''/orders'', er_method = Get\<rparr>]"
    unfolding service by (rule confirmed_table)
  have node: "call_node \<in> set [route_node, call_node]" by simp
  show ?thesis
    using confirmed_binding_wins [OF binding keys key_meets_itself table node site, of "\<lambda>_. False" "[]" "\<lambda>_. None" "[]"]
    by auto
qed

section \<open>Where the join goes astray\<close>

text \<open>A call over HTTP is bound to a table, because the search of all services matches its path against
  every endpoint that has a template, whatever the protocol.\<close>

lemma http_call_bound_to_table:
  "service_hits empty_config ''web'' (Known Get) ''/orders'' [((''db'', KTable ''orders''), [route_record ''t'' Any ''orders''])] = [''db'']
   \<and> best_provider_for_in ''db'' (Known Get) ''/orders'' True [((''db'', KTable ''orders''), [route_record ''t'' Any ''orders''])]
     = Some (KTable ''orders'', \<lparr>md_kind = RM_Exact, md_confidence = 1, md_stripped_prefix = None\<rparr>)"
  by (rule conjI) code_simp+

text \<open>A route that fits the call as it stands is passed over for one that fits after a prefix is stripped, and
  the call is then reported to have no route in the service.\<close>

lemma direct_route_shadowed:
  "match_one_service ''c'' (call_of ''/v1/orders'') ''web'' ''orders'' (Known Get) (Some ''/v1/orders'') True
     [((''orders'', KHttp (Known Get) ''/orders''), [route_record ''a'' Get ''/orders'']),
      ((''orders'', KHttp (Known Get) ''/{}/{}''), [route_record ''b'' Get ''/{}/{}''])] []
     = (no_route ''c'' ''web'' ''orders'' (call_of ''/v1/orders''), [])
   \<and> is_match (match_route (Known Get) ''/v1/orders'' Get ''/{}/{}'')"
  by (rule conjI) code_simp+

text \<open>A service found through a specific route is bound to its health check, although generic keys are not to be bound.\<close>

lemma generic_route_bound:
  "service_hits empty_config ''web'' (Known Get) ''/health''
     [((''orders'', KHttp (Known Get) ''/health''), [route_record ''h'' Get ''/health'']),
      ((''orders'', KHttp (Known Get) ''/{}''), [route_record ''p'' Get ''/{}''])] = [''orders'']
   \<and> best_provider_for_in ''orders'' (Known Get) ''/health'' True
     [((''orders'', KHttp (Known Get) ''/health''), [route_record ''h'' Get ''/health'']),
      ((''orders'', KHttp (Known Get) ''/{}''), [route_record ''p'' Get ''/{}''])]
     = Some (KHttp (Known Get) ''/health'', \<lparr>md_kind = RM_Exact, md_confidence = 1, md_stripped_prefix = None\<rparr>)"
  by (rule conjI) code_simp+

text \<open>A table two services own keeps one of the two edges of a call to it.\<close>

lemma shared_table_edge_lost:
  "map be_provider_service (dedupe_binds
     [bind_static ''c'' ''web'' (''billing'', KTable ''orders'', ''t''), bind_static ''c'' ''web'' (''shop'', KTable ''orders'', ''t'')])
   = [''billing'']"
  by code_simp

text \<open>The address a client takes from the environment is never read as such: the registry's rule cannot resolve it.\<close>

lemma build_host_no_env: "build_host chunks \<noteq> HostEnv names"
  by (simp add: build_host_def host_from_text_def Let_def split: prod.split option.split)

lemma registry_host_never_env: "nu_host (compose_and_normalize alnum call_path base) \<noteq> HostEnv names"
proof -
  have "fst (extract_host parts) \<noteq> HostEnv names" for parts
    by (auto simp: extract_host_def build_host_no_env split: list.split url_part.split option.split prod.split)
  then have "nu_host (normalize_url alnum parts) \<noteq> HostEnv names" for parts by (simp add: normalize_url_def split_beta)
  then show ?thesis by (simp add: compose_and_normalize_def)
qed

end
