(* ===== verification/Key_Order.thy ===== *)
theory Key_Order
  imports Btree
begin

text \<open>
  The derived orders of the other types the contract maps are keyed by, and the lookups that
  \<open>fold\<close>s of insertions into an ordered map give.
\<close>

section \<open>Segments and directions\<close>

fun segment_rank :: "path_segment \<Rightarrow> nat \<times> string" where
  "segment_rank (Name s) = (0, s)"
| "segment_rank ArrayItems = (1, [])"
| "segment_rank MapValues = (2, [])"

lemma segment_rank_inj: "segment_rank a = segment_rank b \<Longrightarrow> a = b"
  by (cases a; cases b) simp_all

instantiation path_segment :: linorder
begin

definition less_eq_path_segment :: "path_segment \<Rightarrow> path_segment \<Rightarrow> bool" where
  "less_eq_path_segment a b \<longleftrightarrow> segment_rank a \<le> segment_rank b"

definition less_path_segment :: "path_segment \<Rightarrow> path_segment \<Rightarrow> bool" where
  "less_path_segment a b \<longleftrightarrow> segment_rank a < segment_rank b"

instance
  by standard (auto simp: less_eq_path_segment_def less_path_segment_def dest: segment_rank_inj)

end

fun payload_rank :: "payload_direction \<Rightarrow> nat" where
  "payload_rank Request = 0" | "payload_rank Response = 1" | "payload_rank Payload = 2"

lemma payload_rank_inj: "payload_rank a = payload_rank b \<Longrightarrow> a = b"
  by (cases a; cases b) simp_all

instantiation payload_direction :: linorder
begin

definition less_eq_payload_direction :: "payload_direction \<Rightarrow> payload_direction \<Rightarrow> bool" where
  "less_eq_payload_direction a b \<longleftrightarrow> payload_rank a \<le> payload_rank b"

definition less_payload_direction :: "payload_direction \<Rightarrow> payload_direction \<Rightarrow> bool" where
  "less_payload_direction a b \<longleftrightarrow> payload_rank a < payload_rank b"

instance
  by standard (auto simp: less_eq_payload_direction_def less_payload_direction_def dest: payload_rank_inj)

end

section \<open>More of ordered maps\<close>

definition bt_keys :: "('k, 'v) btree \<Rightarrow> 'k list" where
  "bt_keys m = map fst m"

definition bt_vals :: "('k, 'v) btree \<Rightarrow> 'v list" where
  "bt_vals m = map snd m"

definition bt_has :: "('k, 'v) btree \<Rightarrow> 'k \<Rightarrow> bool" where
  "bt_has m k \<longleftrightarrow> bt_get m k \<noteq> None"

lemma bt_get_insert: "bt_ok m \<Longrightarrow> bt_get (bt_insert k v m) k' = (if k' = k then Some v else bt_get m k')"
  by (simp add: bt_insert_def bt_get_update)

lemma bt_ok_insert [simp]: "bt_ok m \<Longrightarrow> bt_ok (bt_insert k v m)"
  by (simp add: bt_insert_def)

lemma bt_keys_iff: "k \<in> set (bt_keys m) \<longleftrightarrow> bt_get m k \<noteq> None"
  by (auto simp: bt_keys_def bt_get_def map_of_eq_None_iff)

lemma bt_keys_insert [simp]: "set (bt_keys (bt_insert k v m)) = insert k (set (bt_keys m))"
  unfolding bt_keys_def bt_insert_def by (rule bt_update_keys)

lemma bt_ok_inserts: "bt_ok m \<Longrightarrow> bt_ok (fold (\<lambda>(k, v). bt_insert k v) es m)"
  by (induction es arbitrary: m) (auto split: prod.split)

lemma bt_inserts:
  "bt_ok m \<Longrightarrow> bt_get (fold (\<lambda>(k, v). bt_insert k v) es m) k =
     (case map_of (rev es) k of Some v \<Rightarrow> Some v | None \<Rightarrow> bt_get m k)"
proof (induction es arbitrary: m)
  case (Cons e es)
  obtain a v where e: "e = (a, v)" by (cases e)
  show ?case using Cons.IH [of "bt_insert a v m"] Cons.prems
    by (auto simp: e bt_get_insert map_add_def split: option.split)
qed simp

lemma bt_ok_sorted: "bt_ok m \<Longrightarrow> sorted_wrt (<) (bt_keys m)"
  by (simp add: bt_ok_def bt_keys_def)

lemma bt_ok_distinct: "bt_ok m \<Longrightarrow> distinct (bt_keys m)"
  using bt_ok_sorted strict_sorted_iff by blast

lemma bt_ok_map: "map fst m' = map fst m \<Longrightarrow> bt_ok m \<Longrightarrow> bt_ok m'"
  by (simp add: bt_ok_def)

text \<open>Two ordered maps with the same lookups are the same list.\<close>

lemma bt_eqI:
  assumes "bt_ok m" "bt_ok n" "\<And>k. bt_get m k = bt_get n k"
  shows "m = n"
proof -
  have "set (bt_keys m) = set (bt_keys n)" using assms(3) by (auto simp: bt_keys_iff)
  then have keys: "map fst m = map fst n"
    using bt_ok_sorted [OF assms(1)] bt_ok_sorted [OF assms(2)] strict_sorted_equal
    by (metis bt_keys_def strict_sorted_iff sorted_distinct_set_unique)
  have "map snd m = map snd n"
  proof (rule nth_equalityI)
    show "length (map snd m) = length (map snd n)" using keys by (metis length_map)
  next
    fix i assume i: "i < length (map snd m)"
    then have j: "i < length n" using keys by (metis length_map)
    have "bt_get m (fst (m ! i)) = Some (snd (m ! i))" "bt_get n (fst (n ! i)) = Some (snd (n ! i))"
      using bt_mem [OF assms(1), of "fst (m ! i)" "snd (m ! i)"] bt_mem [OF assms(2), of "fst (n ! i)" "snd (n ! i)"] i j by simp_all
    moreover have "fst (m ! i) = fst (n ! i)" using keys i j by (metis nth_map length_map)
    ultimately have "snd (m ! i) = snd (n ! i)" using assms(3) by (metis option.inject)
    then show "map snd m ! i = map snd n ! i" using i j by simp
  qed
  with keys show ?thesis by (rule pair_list_eqI)
qed

section \<open>The first least element\<close>

fun first_min :: "('a \<Rightarrow> 'k :: linorder) \<Rightarrow> 'a list \<Rightarrow> 'a option" where
  "first_min f [] = None"
| "first_min f (x # xs) =
     (case first_min f xs of
        None \<Rightarrow> Some x
      | Some y \<Rightarrow> if f y < f x then Some y else Some x)"

lemma first_min_None [simp]: "first_min f xs = None \<longleftrightarrow> xs = []"
  by (cases xs) (auto split: option.split)

lemma first_min_Some: "first_min f xs = Some x \<Longrightarrow> x \<in> set xs \<and> (\<forall>y\<in>set xs. f x \<le> f y)"
  by (induction xs arbitrary: x) (fastforce split: option.splits if_splits)+

end
