(* ===== verification/Field_Join.thy ===== *)
theory Field_Join
  imports Join_Run Key_Order "HOL-Library.Option_ord"
begin

text \<open>
  Fields read by callers joined to the fields endpoints declare,
  \<^verbatim>\<open>federation/contracts/field_join.rs\<close>. The text \<open>Debug\<close> prints for a provenance, which only breaks
  ties, is an argument.
\<close>

section \<open>Schemas of endpoints\<close>

record response_field =
  rf_node_id :: string
  rf_path :: json_path
  rf_meta :: field_meta

type_synonym schema_map = "(endpoint_id, (payload_direction, response_field list) btree) btree"
type_synonym schema_node_map = "(endpoint_id, (payload_direction, string) btree) btree"

record endpoint_schemas =
  es_by_endpoint :: schema_map
  es_schema_node :: schema_node_map

definition field_nodes :: "graph_node list \<Rightarrow> (string, json_path \<times> field_meta) btree" where
  "field_nodes nodes =
     fold (\<lambda>n m. case gn_contract n of
             FieldFact meta # _ \<Rightarrow>
               bt_insert (gn_id n) (case parse_path (gn_name n) of Inr p \<Rightarrow> p | Inl _ \<Rightarrow> [], meta) m
           | _ \<Rightarrow> m) nodes []"

definition add_field_edge ::
    "(string, json_path \<times> field_meta) btree \<Rightarrow> graph_edge \<Rightarrow> (string, response_field list) btree \<Rightarrow> (string, response_field list) btree" where
  "add_field_edge fnodes e m =
     (if ge_type e \<noteq> ET_HasField then m
      else case bt_get fnodes (ge_target_id e) of
             None \<Rightarrow> m
           | Some (path, meta) \<Rightarrow>
               (case gid_parse (ge_target_id e) of
                  Inl _ \<Rightarrow> m
                | Inr gid \<Rightarrow> bt_push (ge_source_id e) \<lparr>rf_node_id = gid, rf_path = path, rf_meta = meta\<rparr> m))"

definition fields_by_schema :: "graph_node list \<Rightarrow> graph_edge list \<Rightarrow> (string, response_field list) btree" where
  "fields_by_schema nodes edges = fold (add_field_edge (field_nodes nodes)) edges []"

fun schema_direction :: "edge_type \<Rightarrow> payload_direction option" where
  "schema_direction ET_RequestSchema = Some Request"
| "schema_direction ET_ResponseSchema = Some Response"
| "schema_direction ET_PayloadSchema = Some Payload"
| "schema_direction _ = None"

definition schemas_by_route :: "graph_edge list \<Rightarrow> (string, (payload_direction \<times> string) list) btree" where
  "schemas_by_route edges =
     fold (\<lambda>e m. case schema_direction (ge_type e) of
             None \<Rightarrow> m
           | Some dir \<Rightarrow> bt_push (ge_source_id e) (dir, ge_target_id e) m) edges []"

definition or_empty :: "'a list option \<Rightarrow> 'a list" where
  "or_empty x = (case x of Some xs \<Rightarrow> xs | None \<Rightarrow> [])"

definition add_fields ::
    "(string, response_field list) btree \<Rightarrow> payload_direction \<Rightarrow> string
     \<Rightarrow> (payload_direction, response_field list) btree \<Rightarrow> (payload_direction, response_field list) btree" where
  "add_fields fds dir schema_id bucket =
     (case bt_get fds schema_id of
        None \<Rightarrow> bucket
      | Some fs \<Rightarrow> bt_update dir (\<lambda>old. or_empty old @ fs) bucket)"

definition first_schema ::
    "payload_direction \<Rightarrow> string \<Rightarrow> (payload_direction, string) btree \<Rightarrow> (payload_direction, string) btree" where
  "first_schema dir schema_id m =
     (case gid_parse schema_id of
        Inl _ \<Rightarrow> m
      | Inr gid \<Rightarrow> bt_update dir (\<lambda>old. case old of Some g \<Rightarrow> g | None \<Rightarrow> gid) m)"

definition attach_route ::
    "graph_node list \<Rightarrow> assignments \<Rightarrow> contract_config \<Rightarrow> (string, response_field list) btree
     \<Rightarrow> string \<times> (payload_direction \<times> string) list \<Rightarrow> endpoint_schemas \<Rightarrow> endpoint_schemas" where
  "attach_route nodes assignments config fds entry es =
     (case entry of (route_id, schemas) \<Rightarrow>
        (case (hm_get assignments route_id, find (\<lambda>n. gn_id n = route_id) nodes) of
           (Some svc, Some route) \<Rightarrow>
             (case contract_key_for_provider route svc config of
                None \<Rightarrow> es
              | Some (endpoint, _) \<Rightarrow>
                  (let by_endpoint = bt_update endpoint
                         (\<lambda>old. fold (\<lambda>(dir, sid). add_fields fds dir sid) schemas (or_empty old)) (es_by_endpoint es);
                       node_map = fold (\<lambda>(dir, sid). first_schema dir sid) schemas [] in
                   \<lparr>es_by_endpoint = by_endpoint,
                    es_schema_node = (if node_map = [] then es_schema_node es
                                      else bt_insert endpoint node_map (es_schema_node es))\<rparr>))
         | _ \<Rightarrow> es))"

definition u32_max :: nat where
  "u32_max = 4294967295"

definition pick_schema_node :: "graph_node list \<Rightarrow> string \<Rightarrow> string \<Rightarrow> string option \<Rightarrow> graph_node option" where
  "pick_schema_node nodes repo file name =
     first_min
       (\<lambda>n. (name \<noteq> Some (gn_name n), gn_repo_id n \<noteq> Some repo,
             case gn_line_start n of Some l \<Rightarrow> l | None \<Rightarrow> u32_max, gn_id n))
       (filter (\<lambda>n. gn_type n = NT_Schema \<and> (gn_path n = file \<or> ends_with (''/'' @ file) (gn_path n))) nodes)"

definition is_topic_of :: "string \<Rightarrow> graph_node \<Rightarrow> bool" where
  "is_topic_of topic n \<longleftrightarrow>
     gn_type n = NT_Topic \<and> (case gn_contract n of Provider p # _ \<Rightarrow> pf_template p = topic | _ \<Rightarrow> False)"

definition declaring_topic :: "graph_node list \<Rightarrow> assignments \<Rightarrow> string \<Rightarrow> string \<Rightarrow> graph_node option" where
  "declaring_topic nodes assignments topic svc =
     (case first_min gn_id (filter (\<lambda>n. is_topic_of topic n \<and> hm_get assignments (gn_id n) = Some svc) nodes) of
        Some n \<Rightarrow> Some n
      | None \<Rightarrow> first_min gn_id (filter (is_topic_of topic) nodes))"

definition service_in_repo :: "contract_config \<Rightarrow> string \<Rightarrow> string \<Rightarrow> bool" where
  "service_in_repo config svc repo =
     (case find (\<lambda>s. sd_name s = svc) (cg_services config) of Some s \<Rightarrow> sd_repo s = repo | None \<Rightarrow> False)"

text \<open>The schema file a topic is declared to carry.\<close>

definition declared_schema ::
    "graph_node list \<Rightarrow> assignments \<Rightarrow> contract_config \<Rightarrow> (string, response_field list) btree \<Rightarrow> schema_decl
     \<Rightarrow> (endpoint_id \<times> response_field list \<times> string) option" where
  "declared_schema nodes assignments config fds decl =
     (case pick_schema_node nodes (sc_repo decl) (sc_file decl) None of
        None \<Rightarrow> None
      | Some schema \<Rightarrow>
          (case (bt_get fds (gn_id schema), gid_parse (gn_id schema), hm_get assignments (gn_id schema)) of
             (Some fs, Inr gid, Some svc) \<Rightarrow>
               if \<not> service_in_repo config svc (sc_repo decl) then None
               else (case declaring_topic nodes assignments (sc_topic decl) svc of
                       None \<Rightarrow> None
                     | Some topic \<Rightarrow>
                         (case contract_key_for_provider topic svc config of
                            None \<Rightarrow> None
                          | Some (endpoint, _) \<Rightarrow> Some (endpoint, fs, gid)))
           | _ \<Rightarrow> None))"

definition attach_declared ::
    "graph_node list \<Rightarrow> assignments \<Rightarrow> contract_config \<Rightarrow> (string, response_field list) btree \<Rightarrow> schema_decl
     \<Rightarrow> endpoint_schemas \<Rightarrow> endpoint_schemas" where
  "attach_declared nodes assignments config fds decl es =
     (case declared_schema nodes assignments config fds decl of
        None \<Rightarrow> es
      | Some (endpoint, fs, gid) \<Rightarrow>
          \<lparr>es_by_endpoint = bt_update endpoint
             (\<lambda>old. bt_update Payload (\<lambda>fds. or_empty fds @ fs) (or_empty old)) (es_by_endpoint es),
           es_schema_node = bt_update endpoint (\<lambda>old. bt_insert Payload gid (or_empty old)) (es_schema_node es)\<rparr>)"

definition collect_endpoint_schemas ::
    "graph_node list \<Rightarrow> graph_edge list \<Rightarrow> assignments \<Rightarrow> contract_config \<Rightarrow> endpoint_schemas" where
  "collect_endpoint_schemas nodes edges assignments config =
     (let fds = fields_by_schema nodes edges in
      fold (attach_declared nodes assignments config fds) (cg_schemas config)
        (fold (attach_route nodes assignments config fds) (schemas_by_route edges)
           \<lparr>es_by_endpoint = [], es_schema_node = []\<rparr>))"

section \<open>Field reads\<close>

record bound_field =
  bf_field :: string
  bf_field_path :: json_path
  bf_endpoint :: endpoint_id
  bf_confidence :: rat

record field_ref_resolution =
  fx_field_ref_id :: string
  fx_service :: string
  fx_bound_fields :: "bound_field list"
  fx_unknown :: bool
  fx_call :: string

record bind_info =
  bi_confidence :: rat
  bi_provenance :: edge_provenance
  bi_route_match :: route_match
  bi_stripped_prefix :: "string option"
  bi_consumer_service :: string
  bi_provider_service :: string

definition bind_info_of :: "binds_edge \<Rightarrow> bind_info" where
  "bind_info_of b =
     \<lparr>bi_confidence = be_confidence b, bi_provenance = be_provenance b, bi_route_match = be_route_match b,
      bi_stripped_prefix = be_stripped_prefix b, bi_consumer_service = be_consumer_service b,
      bi_provider_service = be_provider_service b\<rparr>"

text \<open>Of two edges to one endpoint the weaker is kept, and of equally strong ones the lesser text.\<close>

definition weaker_info :: "(edge_provenance \<Rightarrow> string) \<Rightarrow> bind_info \<Rightarrow> bind_info option \<Rightarrow> bind_info" where
  "weaker_info debug info old =
     (case old of
        None \<Rightarrow> info
      | Some x \<Rightarrow>
          if (bi_confidence info, debug (bi_provenance info)) < (bi_confidence x, debug (bi_provenance x)) then info else x)"

type_synonym call_endpoints = "(string, (endpoint_id, bind_info) btree) btree"

definition call_to_endpoints :: "(edge_provenance \<Rightarrow> string) \<Rightarrow> binds_edge list \<Rightarrow> call_endpoints" where
  "call_to_endpoints debug binds =
     fold (\<lambda>b. bt_update (be_consumer b)
             (\<lambda>old. bt_update (be_target_endpoint b) (weaker_info debug (bind_info_of b)) (or_empty old))) binds []"

definition reads_from :: "graph_edge list \<Rightarrow> (string, string) btree" where
  "reads_from edges =
     fold (\<lambda>e m. if ge_type e \<noteq> ET_ReadsFrom then m else bt_insert (ge_source_id e) (ge_target_id e) m) edges []"

definition field_suffix_confidence :: rat where
  "field_suffix_confidence = 6 / 10"

definition read_provenance :: "bool \<Rightarrow> edge_provenance" where
  "read_provenance exact =
     (if exact then Static TreeSitter else Heuristic ''field_suffix'' field_suffix_confidence)"

fun prov_confidence :: "edge_provenance \<Rightarrow> rat" where
  "prov_confidence (Static s) = 1"
| "prov_confidence (Confirmed s) = 1"
| "prov_confidence (Heuristic d c) = c"
| "prov_confidence (Runtime s t) = 1"

fun is_heuristic :: "edge_provenance \<Rightarrow> bool" where
  "is_heuristic (Heuristic d c) \<longleftrightarrow> True"
| "is_heuristic _ \<longleftrightarrow> False"

definition cap_field_bind :: "edge_provenance \<Rightarrow> bind_info \<Rightarrow> edge_provenance \<times> rat" where
  "cap_field_bind read info =
     (let r_conf = prov_confidence read;
          cap = min r_conf (bi_confidence info) in
      (if is_heuristic read \<and> is_heuristic (bi_provenance info)
       then (if r_conf \<le> bi_confidence info then read else bi_provenance info)
       else if is_heuristic (bi_provenance info) then bi_provenance info
       else read,
       cap))"

definition make_field_bind ::
    "string \<Rightarrow> response_field \<Rightarrow> endpoint_id \<Rightarrow> bind_info \<Rightarrow> edge_provenance \<Rightarrow> rat \<Rightarrow> binds_edge" where
  "make_field_bind field_ref field endpoint info prov conf =
     \<lparr>be_consumer = field_ref, be_provider = rf_node_id field, be_consumer_service = bi_consumer_service info,
      be_provider_service = bi_provider_service info, be_target_endpoint = endpoint, be_provenance = prov,
      be_confidence = conf, be_route_match = bi_route_match info, be_stripped_prefix = bi_stripped_prefix info\<rparr>"

definition is_suffix :: "json_path \<Rightarrow> json_path \<Rightarrow> bool" where
  "is_suffix field_path read_chain =
     (if read_chain = [] then False
      else if length field_path < length read_chain then False
      else drop (length field_path - length read_chain) field_path = read_chain)"

definition endpoint_service :: "(endpoint_id, bind_info) btree \<Rightarrow> string" where
  "endpoint_service endpoints = (case endpoints of [] \<Rightarrow> ''unknown'' | ((svc, _), _) # _ \<Rightarrow> svc)"

text \<open>What a read finds in the fields of one endpoint: the fields, and how sure the read is of them.\<close>

datatype field_match = NoSchema | NoField | Fields "response_field list" edge_provenance

definition match_field :: "field_read_fact \<Rightarrow> response_field list option \<Rightarrow> field_match" where
  "match_field read fds =
     (case fds of
        None \<Rightarrow> NoSchema
      | Some [] \<Rightarrow> NoSchema
      | Some fs \<Rightarrow>
          (case filter (\<lambda>f. rf_path f = fr_chain read) fs of
             f # _ \<Rightarrow> Fields [f] (read_provenance (fr_exact read))
           | [] \<Rightarrow>
               (case filter (\<lambda>f. is_suffix (rf_path f) (fr_chain read)) fs of
                  [] \<Rightarrow> NoField
                | [f] \<Rightarrow> Fields [f] (Heuristic ''field_suffix'' field_suffix_confidence)
                | f # g # hs \<Rightarrow> Fields (f # g # hs) (Heuristic ''ambiguous_field'' ambiguous_confidence))))"

definition response_fields :: "endpoint_schemas \<Rightarrow> endpoint_id \<Rightarrow> response_field list option" where
  "response_fields schemas endpoint =
     (case bt_get (es_by_endpoint schemas) endpoint of
        None \<Rightarrow> None
      | Some dirs \<Rightarrow> (case bt_get dirs Response of Some fs \<Rightarrow> Some fs | None \<Rightarrow> bt_get dirs Payload))"

record field_acc =
  fa_bound_any :: bool
  fa_unknown_any :: bool
  fa_bound_fields :: "bound_field list"
  fa_schemaless :: "endpoint_id set"
  fa_binds :: "binds_edge list"

definition read_endpoint ::
    "string \<Rightarrow> field_read_fact \<Rightarrow> endpoint_schemas \<Rightarrow> endpoint_id \<times> bind_info \<Rightarrow> field_acc \<Rightarrow> field_acc" where
  "read_endpoint fid read schemas entry acc =
     (case entry of (endpoint, info) \<Rightarrow>
        (case match_field read (response_fields schemas endpoint) of
           NoSchema \<Rightarrow> acc\<lparr>fa_schemaless := insert endpoint (fa_schemaless acc)\<rparr>
         | NoField \<Rightarrow> acc\<lparr>fa_unknown_any := True\<rparr>
         | Fields fs prov \<Rightarrow>
             (case cap_field_bind prov info of (provenance, confidence) \<Rightarrow>
                acc\<lparr>fa_bound_any := True,
                    fa_bound_fields := fa_bound_fields acc @
                      map (\<lambda>f. \<lparr>bf_field = rf_node_id f, bf_field_path = rf_path f, bf_endpoint = endpoint,
                                 bf_confidence = confidence\<rparr>) fs,
                    fa_binds := fa_binds acc @
                      map (\<lambda>f. make_field_bind fid f endpoint info provenance confidence) fs\<rparr>)))"

record field_state =
  fs_out :: "(string, field_ref_resolution) btree"
  fs_schemaless :: "endpoint_id set"
  fs_unknown :: "string set"
  fs_binds :: "binds_edge list"

definition unknown_field :: "string \<Rightarrow> string \<Rightarrow> field_ref_resolution" where
  "unknown_field fid call =
     \<lparr>fx_field_ref_id = fid, fx_service = ''unknown'', fx_bound_fields = [], fx_unknown = True, fx_call = call\<rparr>"

definition resolve_field_ref ::
    "(string, string) btree \<Rightarrow> call_endpoints \<Rightarrow> endpoint_schemas \<Rightarrow> graph_node \<Rightarrow> field_state \<Rightarrow> field_state" where
  "resolve_field_ref reads calls schemas node st =
     (case (gid_parse (gn_id node), gn_contract node) of
        (Inr fid, FieldRead read # _) \<Rightarrow>
          (case bt_get reads (gn_id node) of
             None \<Rightarrow> st\<lparr>fs_out := bt_insert fid (unknown_field fid []) (fs_out st), fs_unknown := insert fid (fs_unknown st)\<rparr>
           | Some call \<Rightarrow>
               (case bt_get calls call of
                  None \<Rightarrow> st\<lparr>fs_out := bt_insert fid (unknown_field fid call) (fs_out st), fs_unknown := insert fid (fs_unknown st)\<rparr>
                | Some endpoints \<Rightarrow>
                    (let acc = fold (read_endpoint fid read schemas) endpoints
                           \<lparr>fa_bound_any = False, fa_unknown_any = False, fa_bound_fields = [],
                            fa_schemaless = fs_schemaless st, fa_binds = fs_binds st\<rparr>;
                         unknown = (\<not> fa_bound_any acc \<and> fa_unknown_any acc) in
                     st\<lparr>fs_out := bt_insert fid
                          \<lparr>fx_field_ref_id = fid, fx_service = endpoint_service endpoints,
                           fx_bound_fields = (if fa_bound_any acc then fa_bound_fields acc else []),
                           fx_unknown = unknown, fx_call = call\<rparr> (fs_out st),
                        fs_schemaless := fa_schemaless acc,
                        fs_unknown := (if unknown then insert fid (fs_unknown st) else fs_unknown st),
                        fs_binds := fa_binds acc\<rparr>)))
      | _ \<Rightarrow> st)"

definition resolve_field_refs ::
    "(edge_provenance \<Rightarrow> string) \<Rightarrow> graph_node list \<Rightarrow> graph_edge list \<Rightarrow> binds_edge list \<Rightarrow> endpoint_schemas \<Rightarrow> field_state" where
  "resolve_field_refs debug field_refs edges binds schemas =
     (let st = fold (resolve_field_ref (reads_from edges) (call_to_endpoints debug binds) schemas) field_refs
            \<lparr>fs_out = [], fs_schemaless = {}, fs_unknown = {}, fs_binds = []\<rparr> in
      st\<lparr>fs_binds := sort_key (\<lambda>b. (be_consumer b, be_provider b, be_target_endpoint b)) (fs_binds st)\<rparr>)"

end
