(* ===== verification/Field_Props.thy ===== *)
theory Field_Props
  imports Field_Join
begin

text \<open>
  The edges of field reads are grounded: each leads from a read to a field of a response that the
  read's own call was bound to, and is no surer than the weakest edge of that call.
\<close>

section \<open>The calls' endpoints\<close>

definition found_info :: "call_endpoints \<Rightarrow> string \<Rightarrow> endpoint_id \<Rightarrow> bind_info option" where
  "found_info m call e = bt_get (or_empty (bt_get m call)) e"

definition calls_ok :: "call_endpoints \<Rightarrow> bool" where
  "calls_ok m \<longleftrightarrow> bt_ok m \<and> (\<forall>call. bt_ok (or_empty (bt_get m call)))"

definition edges_to :: "string \<Rightarrow> endpoint_id \<Rightarrow> binds_edge list \<Rightarrow> binds_edge list" where
  "edges_to call e binds = filter (\<lambda>c. be_consumer c = call \<and> be_target_endpoint c = e) binds"

definition weakest_of :: "binds_edge list \<Rightarrow> bind_info \<Rightarrow> bool" where
  "weakest_of cs info \<longleftrightarrow> info \<in> bind_info_of ` set cs \<and> (\<forall>c\<in>set cs. bi_confidence info \<le> be_confidence c)"

lemma or_empty_simps [simp]: "or_empty None = []" "or_empty (Some xs) = xs"
  by (simp_all add: or_empty_def)

lemma bind_info_confidence [simp]: "bi_confidence (bind_info_of c) = be_confidence c"
  by (simp add: bind_info_of_def)

lemma weakest_step:
  assumes "case old of None \<Rightarrow> cs = [] | Some x \<Rightarrow> weakest_of cs x"
  shows "weakest_of (cs @ [c]) (weaker_info debug (bind_info_of c) old)"
proof (cases old)
  case None
  then show ?thesis using assms by (simp add: weaker_info_def weakest_of_def)
next
  case (Some x)
  then show ?thesis using assms
    by (auto simp: weaker_info_def weakest_of_def less_prod_def dest: order_trans)
qed

definition call_step :: "(edge_provenance \<Rightarrow> string) \<Rightarrow> binds_edge \<Rightarrow> call_endpoints \<Rightarrow> call_endpoints" where
  "call_step debug b = bt_update (be_consumer b)
     (\<lambda>old. bt_update (be_target_endpoint b) (weaker_info debug (bind_info_of b)) (or_empty old))"

lemma call_step_ok: "calls_ok m \<Longrightarrow> calls_ok (call_step debug b m)"
  by (auto simp: calls_ok_def call_step_def bt_get_update)

lemma call_step_found:
  "calls_ok m \<Longrightarrow> found_info (call_step debug b m) call e =
     (if call = be_consumer b \<and> e = be_target_endpoint b
      then Some (weaker_info debug (bind_info_of b) (found_info m call e)) else found_info m call e)"
  by (auto simp: found_info_def calls_ok_def call_step_def bt_get_update)

lemma call_to_endpoints_found:
  "calls_ok (call_to_endpoints debug binds)
   \<and> (\<forall>call e. case found_info (call_to_endpoints debug binds) call e of
        None \<Rightarrow> edges_to call e binds = []
      | Some info \<Rightarrow> weakest_of (edges_to call e binds) info)"
proof (induction binds rule: rev_induct)
  case Nil
  show ?case by (simp add: call_to_endpoints_def calls_ok_def found_info_def edges_to_def)
next
  case (snoc b binds)
  have step: "call_to_endpoints debug (binds @ [b]) = call_step debug b (call_to_endpoints debug binds)"
    by (simp add: call_to_endpoints_def call_step_def)
  have edges: "edges_to call e (binds @ [b]) =
      (if call = be_consumer b \<and> e = be_target_endpoint b then edges_to call e binds @ [b] else edges_to call e binds)" for call e
    by (auto simp: edges_to_def)
  have ok: "calls_ok (call_to_endpoints debug binds)" using snoc by blast
  have old: "case found_info (call_to_endpoints debug binds) call e of
        None \<Rightarrow> edges_to call e binds = []
      | Some info \<Rightarrow> weakest_of (edges_to call e binds) info" for call e
    using snoc by blast
  have "case found_info (call_step debug b (call_to_endpoints debug binds)) call e of
        None \<Rightarrow> edges_to call e (binds @ [b]) = []
      | Some info \<Rightarrow> weakest_of (edges_to call e (binds @ [b])) info" for call e
  proof (cases "call = be_consumer b \<and> e = be_target_endpoint b")
    case True
    show ?thesis unfolding call_step_found [OF ok] edges if_P [OF True] option.case
      by (rule weakest_step [OF old])
  next
    case False
    show ?thesis unfolding call_step_found [OF ok] edges if_not_P [OF False] by (rule old)
  qed
  then show ?case using call_step_ok [OF ok] unfolding step by blast
qed

lemma endpoint_of_call:
  assumes "bt_get (call_to_endpoints debug binds) call = Some endpoints" "(e, info) \<in> set endpoints"
  shows "weakest_of (edges_to call e binds) info"
proof -
  have "bt_ok endpoints" using call_to_endpoints_found [of debug binds] assms(1)
    unfolding calls_ok_def by (metis or_empty_simps(2))
  then have "found_info (call_to_endpoints debug binds) call e = Some info"
    using assms by (simp add: found_info_def bt_mem)
  then show ?thesis using call_to_endpoints_found [of debug binds] by (metis option.simps(5))
qed

section \<open>The fields a read reaches\<close>

definition read_reaches :: "field_read_fact \<Rightarrow> response_field list option \<Rightarrow> string \<Rightarrow> bool" where
  "read_reaches read fds node \<longleftrightarrow>
     (case fds of
        None \<Rightarrow> False
      | Some fs \<Rightarrow> list_ex (\<lambda>f. rf_node_id f = node \<and> (rf_path f = fr_chain read \<or> is_suffix (rf_path f) (fr_chain read))) fs)"

lemma match_field_reaches:
  assumes "match_field read fds = Fields fs prov" "f \<in> set fs"
  shows "read_reaches read fds (rf_node_id f)"
proof (cases fds)
  case None
  then show ?thesis using assms(1) by (simp add: match_field_def)
next
  case (Some all)
  let ?exact = "filter (\<lambda>f. rf_path f = fr_chain read) all" and ?ending = "filter (\<lambda>f. is_suffix (rf_path f) (fr_chain read)) all"
  have "set fs \<subseteq> set ?exact \<union> set ?ending"
    using assms(1) unfolding Some match_field_def option.case
    by (cases all; cases ?exact; cases ?ending; cases "tl ?ending") (auto simp del: filter.simps)
  then show ?thesis using assms(2) by (auto simp: read_reaches_def Some list_ex_iff)
qed

definition grounded_read :: "graph_node list \<Rightarrow> graph_edge list \<Rightarrow> binds_edge list \<Rightarrow> endpoint_schemas \<Rightarrow> binds_edge \<Rightarrow> bool" where
  "grounded_read refs edges binds schemas b \<longleftrightarrow>
     list_ex (\<lambda>node.
         gid_parse (gn_id node) = Inr (be_consumer b)
         \<and> (case gn_contract node of
              FieldRead read # _ \<Rightarrow> read_reaches read (response_fields schemas (be_target_endpoint b)) (be_provider b)
            | _ \<Rightarrow> False)
         \<and> (case bt_get (reads_from edges) (gn_id node) of
              None \<Rightarrow> False
            | Some call \<Rightarrow>
                (let cs = edges_to call (be_target_endpoint b) binds in
                 cs \<noteq> [] \<and> list_all (\<lambda>c. be_confidence b \<le> be_confidence c) cs
                 \<and> list_ex (\<lambda>c. be_consumer_service b = be_consumer_service c \<and> be_provider_service b = be_provider_service c) cs)))
       refs"

lemma make_field_bind_simps [simp]:
  "be_consumer (make_field_bind fid f e info prov conf) = fid"
  "be_provider (make_field_bind fid f e info prov conf) = rf_node_id f"
  "be_target_endpoint (make_field_bind fid f e info prov conf) = e"
  "be_confidence (make_field_bind fid f e info prov conf) = conf"
  "be_consumer_service (make_field_bind fid f e info prov conf) = bi_consumer_service info"
  "be_provider_service (make_field_bind fid f e info prov conf) = bi_provider_service info"
  by (simp_all add: make_field_bind_def)

lemma field_bind_grounded:
  assumes "node \<in> set refs" "gid_parse (gn_id node) = Inr fid" "gn_contract node = FieldRead read # rest"
    and "bt_get (reads_from edges) (gn_id node) = Some call" "weakest_of (edges_to call e binds) info"
    and "match_field read (response_fields schemas e) = Fields fs prov" "f \<in> set fs" "conf \<le> bi_confidence info"
  shows "grounded_read refs edges binds schemas (make_field_bind fid f e info p conf)"
proof -
  obtain c where c: "c \<in> set (edges_to call e binds)" "info = bind_info_of c" using assms(5) by (auto simp: weakest_of_def)
  have "\<forall>c\<in>set (edges_to call e binds). conf \<le> be_confidence c"
    using assms(5,8) by (auto simp: weakest_of_def intro: order_trans)
  moreover have "read_reaches read (response_fields schemas e) (rf_node_id f)" using assms(6,7) by (rule match_field_reaches)
  moreover have "edges_to call e binds \<noteq> []" using c by auto
  ultimately have "gid_parse (gn_id node) = Inr fid
      \<and> read_reaches read (response_fields schemas e) (rf_node_id f)
      \<and> edges_to call e binds \<noteq> [] \<and> list_all (\<lambda>c. conf \<le> be_confidence c) (edges_to call e binds)
      \<and> list_ex (\<lambda>c. bi_consumer_service info = be_consumer_service c \<and> bi_provider_service info = be_provider_service c) (edges_to call e binds)"
    using assms(2) c by (auto simp: list_all_iff list_ex_iff bind_info_of_def)
  then show ?thesis
    unfolding grounded_read_def list_ex_iff
    by (intro bexI [OF _ assms(1)]) (simp add: assms(3,4) Let_def list_ex_iff [symmetric])
qed

lemma read_endpoint_grounded:
  assumes "node \<in> set refs" "gid_parse (gn_id node) = Inr fid" "gn_contract node = FieldRead read # rest"
    and "bt_get (reads_from edges) (gn_id node) = Some call" "weakest_of (edges_to call (fst entry) binds) (snd entry)"
    and "\<forall>b\<in>set (fa_binds acc). grounded_read refs edges binds schemas b"
  shows "\<forall>b\<in>set (fa_binds (read_endpoint fid read schemas entry acc)). grounded_read refs edges binds schemas b"
proof -
  obtain e info where entry: "entry = (e, info)" by (cases entry)
  show ?thesis
  proof (cases "match_field read (response_fields schemas e)")
    case (Fields fs prov)
    obtain provenance conf where cap: "cap_field_bind prov info = (provenance, conf)" by (cases "cap_field_bind prov info")
    then have "conf \<le> bi_confidence info" by (auto simp: cap_field_bind_def Let_def)
    then have "grounded_read refs edges binds schemas (make_field_bind fid f e info provenance conf)" if "f \<in> set fs" for f
      using field_bind_grounded [OF assms(1-4) _ Fields that] assms(5) by (simp add: entry)
    then show ?thesis using assms(6) by (auto simp: read_endpoint_def entry Fields cap)
  qed (use assms(6) in \<open>simp_all add: read_endpoint_def entry\<close>)
qed

lemma resolve_field_ref_grounded:
  assumes "node \<in> set refs" "\<forall>b\<in>set (fs_binds st). grounded_read refs edges binds schemas b"
  shows "\<forall>b\<in>set (fs_binds (resolve_field_ref (reads_from edges) (call_to_endpoints debug binds) schemas node st)).
    grounded_read refs edges binds schemas b"
proof (cases "\<exists>fid read rest call endpoints. gid_parse (gn_id node) = Inr fid \<and> gn_contract node = FieldRead read # rest
    \<and> bt_get (reads_from edges) (gn_id node) = Some call \<and> bt_get (call_to_endpoints debug binds) call = Some endpoints")
  case False
  then show ?thesis using assms(2)
    by (auto simp: resolve_field_ref_def split: sum.split list.split contract_fact.split option.split)
next
  case True
  then obtain fid read rest call endpoints where *: "gid_parse (gn_id node) = Inr fid" "gn_contract node = FieldRead read # rest"
      "bt_get (reads_from edges) (gn_id node) = Some call" "bt_get (call_to_endpoints debug binds) call = Some endpoints" by blast
  have run: "\<forall>b\<in>set (fa_binds (fold (read_endpoint fid read schemas) es acc)). grounded_read refs edges binds schemas b"
    if "set es \<subseteq> set endpoints" "\<forall>b\<in>set (fa_binds acc). grounded_read refs edges binds schemas b" for es acc
    using that
  proof (induction es arbitrary: acc)
    case (Cons a es)
    then have "weakest_of (edges_to call (fst a) binds) (snd a)" using endpoint_of_call [OF *(4), of "fst a" "snd a"] by simp
    then have "\<forall>b\<in>set (fa_binds (read_endpoint fid read schemas a acc)). grounded_read refs edges binds schemas b"
      using read_endpoint_grounded [OF assms(1) *(1-3)] Cons.prems(2) by blast
    with Cons.prems(1) show ?case by (simp only: fold_simps o_apply) (rule Cons.IH, simp_all)
  qed simp
  let ?acc = "fold (read_endpoint fid read schemas) endpoints
      \<lparr>fa_bound_any = False, fa_unknown_any = False, fa_bound_fields = [], fa_schemaless = fs_schemaless st,
       fa_binds = fs_binds st\<rparr>"
  have "fs_binds (resolve_field_ref (reads_from edges) (call_to_endpoints debug binds) schemas node st) = fa_binds ?acc"
    by (simp add: resolve_field_ref_def * Let_def)
  moreover have "\<forall>b\<in>set (fa_binds (fold (read_endpoint fid read schemas) endpoints
      \<lparr>fa_bound_any = False, fa_unknown_any = False, fa_bound_fields = [], fa_schemaless = fs_schemaless st,
       fa_binds = fs_binds st\<rparr>)). grounded_read refs edges binds schemas b"
    by (rule run) (use assms(2) in \<open>simp_all\<close>)
  ultimately show ?thesis by (simp only:)
qed

lemma field_binds_grounded:
  "list_all (grounded_read refs edges binds schemas) (fs_binds (resolve_field_refs debug refs edges binds schemas))"
proof -
  have run: "\<forall>b\<in>set (fs_binds (fold (resolve_field_ref (reads_from edges) (call_to_endpoints debug binds) schemas) ns st)).
      grounded_read refs edges binds schemas b"
    if "set ns \<subseteq> set refs" "\<forall>b\<in>set (fs_binds st). grounded_read refs edges binds schemas b" for ns st
    using that
  proof (induction ns arbitrary: st)
    case (Cons n ns)
    then have "\<forall>b\<in>set (fs_binds (resolve_field_ref (reads_from edges) (call_to_endpoints debug binds) schemas n st)).
        grounded_read refs edges binds schemas b"
      by (intro resolve_field_ref_grounded) simp_all
    with Cons.prems(1) show ?case by (simp only: fold_simps o_apply) (rule Cons.IH, simp_all)
  qed simp
  have "\<forall>b\<in>set (fs_binds (fold (resolve_field_ref (reads_from edges) (call_to_endpoints debug binds) schemas) refs
      \<lparr>fs_out = [], fs_schemaless = {}, fs_unknown = {}, fs_binds = []\<rparr>)). grounded_read refs edges binds schemas b"
    by (rule run) simp_all
  then show ?thesis by (simp add: resolve_field_refs_def Let_def list_all_iff)
qed

text \<open>
  C31: Every edge drawn for a field read leads from the read to a field of an endpoint its own
  call was bound to, a field of the response, or of the payload of an endpoint that has no response; the
  field's path is the path read or ends in it; the edge is no surer than any edge of that call
  to that endpoint, and carries the services of one of them.
\<close>

theorem field_edges_are_grounded:
  "list_all (grounded_read refs edges binds schemas) (fs_binds (resolve_field_refs debug refs edges binds schemas))"
  by (rule field_binds_grounded)

end
