(* ===== verification/Contract_Index.thy ===== *)
theory Contract_Index
  imports Field_Join
begin

text \<open>
  The contract index, \<^verbatim>\<open>federation/contracts/index.rs\<close>, and its assembly from the results of a join,
  the last steps of \<^verbatim>\<open>federation/contracts/joiner/mod.rs\<close>.
\<close>

record service_info =
  si_name :: string
  si_repo :: repo_id
  si_paths :: "string list"
  si_hosts :: "string list"
  si_env :: "string list"
  si_base_path :: "string option"
  si_route_prefixes :: "route_prefix list"
  si_endpoint_ids :: "endpoint_id list"

record endpoint_provider =
  ep_node_id :: string
  ep_origin :: provider_origin
  ep_handler :: "symbol_key option"
  ep_operation_id :: "string option"

record endpoint_schema =
  sm_node_id :: string
  sm_fields :: "(json_path, field_meta) btree"

record contract_endpoint =
  en_id :: endpoint_id
  en_method :: http_method
  en_template :: string
  en_providers :: "endpoint_provider list"
  en_schemas :: "(payload_direction, endpoint_schema) btree"

record contract_index =
  ix_services :: "(string, service_info) btree"
  ix_endpoints :: "(endpoint_id, contract_endpoint) btree"
  ix_consumers :: "(string, consumer_resolution list) btree"
  ix_field_refs :: "(string, field_ref_resolution) btree"
  ix_stale_bindings :: "stale_binding_record list"
  ix_external :: "(string, nat) btree"
  ix_unnormalized :: "string list"

record join_output =
  jo_binds :: "binds_edge list"
  jo_index :: contract_index
  jo_unresolved_env :: "(string, nat) btree"
  jo_ambiguous_env :: "(string, string list) btree"

definition consumer_resolutions :: "contract_index \<Rightarrow> (string \<times> consumer_resolution) list" where
  "consumer_resolutions ix = concat (map (\<lambda>(i, rs). map (Pair i) rs) (ix_consumers ix))"

definition index_consumer :: "contract_index \<Rightarrow> string \<Rightarrow> consumer_resolution option" where
  "index_consumer ix i = (case bt_get (ix_consumers ix) i of Some (r # _) \<Rightarrow> Some r | _ \<Rightarrow> None)"

section \<open>Services\<close>

definition repo_or_unknown :: "string \<Rightarrow> repo_id" where
  "repo_or_unknown s = (case repo_id_new s of Inr r \<Rightarrow> r | Inl _ \<Rightarrow> RepoId ''unknown'')"

definition index_service :: "endpoint_table \<Rightarrow> service_decl \<Rightarrow> service_info" where
  "index_service table s =
     \<lparr>si_name = sd_name s, si_repo = repo_or_unknown (sd_repo s), si_paths = sd_paths s, si_hosts = sd_hosts s,
      si_env = sd_env s, si_base_path = sd_base_path s, si_route_prefixes = sd_route_prefixes s,
      si_endpoint_ids = sort_key endpoint_id_string (filter (\<lambda>i. fst i = sd_name s) (bt_keys table))\<rparr>"

definition index_services :: "contract_config \<Rightarrow> endpoint_table \<Rightarrow> (string, service_info) btree" where
  "index_services config table =
     fold (\<lambda>(k, v). bt_insert k v) (map (\<lambda>s. (sd_name s, index_service table s)) (cg_services config)) []"

section \<open>Endpoints\<close>

fun index_method :: "contract_key \<Rightarrow> http_method" where
  "index_method (KHttp (Known m) t) = m"
| "index_method _ = Any"

definition index_provider :: "endpoint_record \<Rightarrow> endpoint_provider" where
  "index_provider r =
     (case er_fact r of
        Some (Provider pf) \<Rightarrow>
          \<lparr>ep_node_id = er_id r, ep_origin = pf_origin pf, ep_handler = pf_handler pf, ep_operation_id = pf_operation_id pf\<rparr>
      | _ \<Rightarrow> \<lparr>ep_node_id = er_id r, ep_origin = Code, ep_handler = None, ep_operation_id = None\<rparr>)"

definition schema_node_id :: "endpoint_schemas \<Rightarrow> endpoint_id \<Rightarrow> payload_direction \<Rightarrow> endpoint_provider list \<Rightarrow> string" where
  "schema_node_id schemas i dir providers =
     (case Option.bind (bt_get (es_schema_node schemas) i) (\<lambda>m. bt_get m dir) of
        Some g \<Rightarrow> g
      | None \<Rightarrow> (case providers of p # _ \<Rightarrow> ep_node_id p | [] \<Rightarrow> ''unknown''))"

definition field_map :: "response_field list \<Rightarrow> (json_path, field_meta) btree" where
  "field_map fs = fold (\<lambda>(k, v). bt_insert k v) (map (\<lambda>f. (rf_path f, rf_meta f)) fs) []"

definition index_schemas ::
    "endpoint_schemas \<Rightarrow> endpoint_id \<Rightarrow> endpoint_provider list \<Rightarrow> (payload_direction, endpoint_schema) btree" where
  "index_schemas schemas i providers =
     (case bt_get (es_by_endpoint schemas) i of
        None \<Rightarrow> []
      | Some by_dir \<Rightarrow>
          fold (\<lambda>(k, v). bt_insert k v)
            (map (\<lambda>(dir, fs). (dir, \<lparr>sm_node_id = schema_node_id schemas i dir providers, sm_fields = field_map fs\<rparr>)) by_dir) [])"

definition index_endpoint :: "endpoint_schemas \<Rightarrow> endpoint_id \<times> endpoint_record list \<Rightarrow> contract_endpoint" where
  "index_endpoint schemas entry =
     (let i = fst entry; providers = map index_provider (snd entry) in
      \<lparr>en_id = i, en_method = index_method (snd i), en_template = key_leaf (snd i), en_providers = providers,
       en_schemas = index_schemas schemas i providers\<rparr>)"

definition index_endpoints :: "endpoint_schemas \<Rightarrow> endpoint_table \<Rightarrow> (endpoint_id, contract_endpoint) btree" where
  "index_endpoints schemas table =
     fold (\<lambda>(k, v). bt_insert k v) (map (\<lambda>e. (fst e, index_endpoint schemas e)) table) []"

section \<open>The whole join\<close>

definition stale_order :: "stale_binding_record \<Rightarrow> string \<times> string \<times> string \<times> string \<times> string option" where
  "stale_order s =
     (let c = sb_consumer s in (repo_str (ck_repo c), ck_path c, ck_symbol c, ck_key c, ck_site c))"

definition field_ref_nodes :: "graph_node list \<Rightarrow> graph_node list" where
  "field_ref_nodes nodes =
     filter (\<lambda>n. gn_type n = NT_FieldRef \<and> (case gn_contract n of FieldRead r # _ \<Rightarrow> True | _ \<Rightarrow> False)) nodes"

definition join_fields ::
    "(edge_provenance \<Rightarrow> string) \<Rightarrow> graph_node list \<Rightarrow> graph_edge list \<Rightarrow> contract_config \<Rightarrow> join_run \<Rightarrow> field_state" where
  "join_fields debug nodes edges config run =
     resolve_field_refs debug (field_ref_nodes nodes) (filter (\<lambda>e. ge_type e = ET_ReadsFrom) edges)
       (js_binds (jr_state run)) (collect_endpoint_schemas nodes edges (assign_services nodes config) config)"

definition join_all ::
    "(string \<Rightarrow> bool) \<Rightarrow> (edge_provenance \<Rightarrow> string) \<Rightarrow> graph_node list \<Rightarrow> graph_edge list \<Rightarrow> contract_config
     \<Rightarrow> client_registry \<Rightarrow> env_index \<Rightarrow> join_output" where
  "join_all alnum debug nodes edges config registry env =
     (let run = join_consumers alnum nodes config registry env;
          assignments = assign_services nodes config;
          table = build_endpoints nodes assignments config;
          schemas = collect_endpoint_schemas nodes edges assignments config;
          field_run = join_fields debug nodes edges config run in
      \<lparr>jo_binds = join_binds run (fs_binds field_run),
       jo_index =
         \<lparr>ix_services = index_services config table, ix_endpoints = index_endpoints schemas table,
          ix_consumers = jr_consumers run, ix_field_refs = fs_out field_run,
          ix_stale_bindings = sort_key stale_order (jr_stale run),
          ix_external = js_external (jr_state run), ix_unnormalized = sort (jr_unnormalized run)\<rparr>,
       jo_unresolved_env = js_unresolved_env (jr_state run), jo_ambiguous_env = js_ambiguous_env (jr_state run)\<rparr>)"

end
