(* ===== verification/Join_All_Props.thy ===== *)
theory Join_All_Props
  imports Join_Run_Props Field_Props Contract_Index
begin

text \<open>What the whole join reports: the edges of the calls and those of the field reads, merged.\<close>

lemma edges_to_member: "c \<in> set (edges_to call e binds) \<Longrightarrow> c \<in> set binds \<and> be_target_endpoint c = e"
  by (simp add: edges_to_def)

text \<open>A field read hangs off an edge of its call, so its endpoint is one of the table too.\<close>

lemma grounded_read_in_table:
  assumes "grounded_read refs edges binds schemas b" "list_all (table_edge endpoints) binds"
  shows "be_provider_service b = fst (be_target_endpoint b) \<and> bt_get endpoints (be_target_endpoint b) \<noteq> None"
proof -
  obtain call c where c: "c \<in> set (edges_to call (be_target_endpoint b) binds)" "be_provider_service b = be_provider_service c"
    using assms(1) unfolding grounded_read_def list_ex_iff Let_def by (auto split: option.splits)
  then have "table_edge endpoints c" "be_target_endpoint c = be_target_endpoint b"
    using edges_to_member [OF c(1)] assms(2) by (auto simp: list_all_iff)
  then show ?thesis using c(2) by (auto simp: table_edge_def)
qed

text \<open>
  C23: Every edge the whole join reports is well formed: it names an endpoint of the table and the service
  that offers it, and its provider is one of those recorded under the endpoint, or, for the
  edge of a field read, a field of the endpoint that the read reaches through its own call; and
  every resolution is filed under its own call.
\<close>

theorem join_edges_lead_to_endpoints:
  "let out = join_all alnum debug nodes edges config registry env;
       run = join_consumers alnum nodes config registry env;
       assignments = assign_services nodes config;
       schemas = collect_endpoint_schemas nodes edges assignments config in
   list_all (\<lambda>b. be_provider_service b = fst (be_target_endpoint b)
       \<and> (\<exists>recs. bt_get (build_endpoints nodes assignments config) (be_target_endpoint b) = Some recs
            \<and> (be_provider b \<in> er_id ` set recs
               \<or> grounded_read (field_ref_nodes nodes) (filter (\<lambda>e. ge_type e = ET_ReadsFrom) edges)
                   (js_binds (jr_state run)) schemas b)))
     (jo_binds out)
   \<and> list_all (\<lambda>(gid, rs). rs \<noteq> [] \<and> list_all (\<lambda>r. cr_call_id r = gid) rs) (ix_consumers (jo_index out))"
proof -
  let ?run = "join_consumers alnum nodes config registry env" and ?table = "build_endpoints nodes (assign_services nodes config) config"
  let ?schemas = "collect_endpoint_schemas nodes edges (assign_services nodes config) config"
  let ?ground = "grounded_read (field_ref_nodes nodes) (filter (\<lambda>e. ge_type e = ET_ReadsFrom) edges) (js_binds (jr_state ?run)) ?schemas"
  have ok: "run_ok ?table ?run" by (rule join_run_ok)
  then have calls: "list_all (table_edge ?table) (js_binds (jr_state ?run))" by (simp add: run_ok_def)
  have "list_all ?ground (fs_binds (join_fields debug nodes edges config ?run))"
    unfolding join_fields_def by (rule field_binds_grounded)
  then have either: "table_edge ?table b \<or> ?ground b"
    if "b \<in> set (join_binds ?run (fs_binds (join_fields debug nodes edges config ?run)))" for b
    using that dedupe_subset calls unfolding join_binds_def by (fastforce simp: list_all_iff)
  have "be_provider_service b = fst (be_target_endpoint b)
      \<and> (\<exists>recs. bt_get ?table (be_target_endpoint b) = Some recs \<and> (be_provider b \<in> er_id ` set recs \<or> ?ground b))"
    if "b \<in> set (join_binds ?run (fs_binds (join_fields debug nodes edges config ?run)))" for b
    using either [OF that] grounded_read_in_table [OF _ calls, of _ _ ?schemas b] by (auto simp: table_edge_def)
  then show ?thesis using ok by (simp add: Let_def join_all_def run_ok_def list_all_iff)
qed

end
