(* ===== verification/Contract_Diff.thy ===== *)
theory Contract_Diff
  imports Contract_Index
begin

text \<open>
  The comparison of two states of a federation's contracts, \<^verbatim>\<open>federation/contracts/diff.rs\<close>: surfaces
  taken from the index, the changes of endpoints and their fields, the changes of consumers. What
  git says about changed files is an argument, the trait \<open>ChangedFilesSource\<close> of the code. The code can
  be given a deadline after which it answers nothing; the functions here have none.
\<close>

section \<open>Surfaces\<close>

type_synonym 'a bset = "('a, unit) btree"

definition bs_insert :: "'a :: linorder \<Rightarrow> 'a bset \<Rightarrow> 'a bset" where
  "bs_insert x = bt_insert x ()"

record provider_ref =
  pr_node_id :: string
  pr_handler :: "symbol_key option"
  pr_operation_id :: "string option"

record endpoint_def =
  ed_providers :: "provider_ref list"
  ed_schemas :: "(payload_direction, (json_path, field_meta) btree) btree"
  ed_has_schema :: bool
  ed_source_files :: "string set"

datatype consumer_target_key = TargetContract contract_key | UrlExpr string

datatype consumer_key = ConsumerKey (ck_caller: symbol_key) (ck_target: consumer_target_key)

fun target_rank :: "consumer_target_key \<Rightarrow> nat \<times> nat list list \<times> string" where
  "target_rank (TargetContract k) = (0, key_rank k, [])"
| "target_rank (UrlExpr s) = (1, [], s)"

definition symbol_rank :: "symbol_key \<Rightarrow> string \<times> string \<times> string option \<times> string" where
  "symbol_rank s = (repo_str (sk_repo s), sk_path s, sk_container s, sk_name s)"

definition consumer_rank ::
    "consumer_key \<Rightarrow> (string \<times> string \<times> string option \<times> string) \<times> nat \<times> nat list list \<times> string" where
  "consumer_rank k = (symbol_rank (ck_caller k), target_rank (ck_target k))"

lemma target_rank_inj: "target_rank a = target_rank b \<Longrightarrow> a = b"
  by (cases a; cases b) (auto dest: key_rank_inj)

lemma symbol_rank_inj: "symbol_rank a = symbol_rank b \<Longrightarrow> a = b"
  by (cases a; cases b) (auto simp: symbol_rank_def intro: repo_id.expand)

lemma consumer_rank_inj: "consumer_rank a = consumer_rank b \<Longrightarrow> a = b"
  by (cases a; cases b) (auto simp: consumer_rank_def dest: symbol_rank_inj target_rank_inj)

instantiation consumer_key :: linorder
begin

definition less_eq_consumer_key :: "consumer_key \<Rightarrow> consumer_key \<Rightarrow> bool" where
  "less_eq_consumer_key a b \<longleftrightarrow> consumer_rank a \<le> consumer_rank b"

definition less_consumer_key :: "consumer_key \<Rightarrow> consumer_key \<Rightarrow> bool" where
  "less_consumer_key a b \<longleftrightarrow> consumer_rank a < consumer_rank b"

instance
proof
  fix a b :: consumer_key
  show "(a < b) = (a \<le> b \<and> \<not> b \<le> a)" by (simp add: less_eq_consumer_key_def less_consumer_key_def less_le_not_le)
qed (auto simp: less_eq_consumer_key_def intro: order_trans consumer_rank_inj)

end

datatype surface_resolution =
    SurfaceBinds "endpoint_id list" edge_provenance
  | SurfaceExternal string
  | SurfaceUnresolved unresolved_reason "string option"

record consumer_def =
  cd_call :: string
  cd_resolution :: surface_resolution
  cd_reads :: "json_path bset"
  cd_reads_complete :: bool

record contract_surface =
  su_endpoints :: "(endpoint_id, endpoint_def) btree"
  su_consumers :: "(consumer_key, consumer_def) btree"

definition provider_file :: "endpoint_provider \<Rightarrow> string option" where
  "provider_file p = (case ep_handler p of Some h \<Rightarrow> Some (sk_path h) | None \<Rightarrow> gid_path (ep_node_id p))"

definition endpoint_to_def :: "contract_endpoint \<Rightarrow> endpoint_def" where
  "endpoint_to_def e =
     (let schemas = fold (\<lambda>(k, v). bt_insert k v) (map (\<lambda>(dir, s). (dir, sm_fields s)) (en_schemas e)) [] in
      \<lparr>ed_providers = map (\<lambda>p. \<lparr>pr_node_id = ep_node_id p, pr_handler = ep_handler p, pr_operation_id = ep_operation_id p\<rparr>)
         (en_providers e),
       ed_schemas = schemas,
       ed_has_schema = (schemas \<noteq> [] \<and> list_ex (\<lambda>f. f \<noteq> []) (bt_vals schemas)),
       ed_source_files = set (List.map_filter provider_file (en_providers e))
         \<union> set (List.map_filter (\<lambda>s. gid_path (sm_node_id s)) (bt_vals (en_schemas e)))\<rparr>)"

definition surface_resolution_of :: "consumer_resolution \<Rightarrow> surface_resolution" where
  "surface_resolution_of r =
     (case cr_target r of
        Some (Binds prov conf kind stripped) \<Rightarrow> SurfaceBinds (cr_bound_endpoints r) prov
      | Some Internal \<Rightarrow> SurfaceBinds (cr_bound_endpoints r) (Static Regex)
      | Some (External host) \<Rightarrow> SurfaceExternal host
      | Some (Unresolved reason svc) \<Rightarrow> SurfaceUnresolved reason svc
      | None \<Rightarrow> SurfaceUnresolved NoMatchingService None)"

definition consumer_to_def :: "string \<Rightarrow> consumer_resolution \<Rightarrow> (string, json_path bset) btree \<Rightarrow> consumer_def" where
  "consumer_to_def call r reads =
     \<lparr>cd_call = call, cd_resolution = surface_resolution_of r,
      cd_reads = (case bt_get reads call of Some s \<Rightarrow> s | None \<Rightarrow> []), cd_reads_complete = cr_reads_complete r\<rparr>"

definition or_text :: "string option \<Rightarrow> string" where
  "or_text x = (case x of Some s \<Rightarrow> s | None \<Rightarrow> [])"

definition consumer_key_of :: "string \<Rightarrow> consumer_resolution \<Rightarrow> consumer_key" where
  "consumer_key_of call r =
     ConsumerKey
       \<lparr>sk_repo = repo_or_unknown (gid_repo_id call), sk_path = or_text (gid_path call), sk_container = None,
        sk_name = or_text (gid_name call)\<rparr>
       (let by_name = UrlExpr (or_text (gid_name call)) in
        case cr_target r of
          Some (Binds prov conf kind stripped) \<Rightarrow> (case cr_bound_endpoints r of e # _ \<Rightarrow> TargetContract (snd e) | [] \<Rightarrow> by_name)
        | Some Internal \<Rightarrow> (case cr_bound_endpoints r of e # _ \<Rightarrow> TargetContract (snd e) | [] \<Rightarrow> by_name)
        | Some (External host) \<Rightarrow> UrlExpr host
        | _ \<Rightarrow> by_name)"

definition add_read :: "string \<times> field_ref_resolution \<Rightarrow> (string, json_path bset) btree \<Rightarrow> (string, json_path bset) btree" where
  "add_read entry m =
     (case entry of (fid, fr) \<Rightarrow>
        if fx_call fr = [] then m
        else case (gid_parse (fx_call fr), map_option parse_path (gid_name fid)) of
               (Inr call, Some (Inr path)) \<Rightarrow> bt_update call (\<lambda>old. bs_insert path (or_empty old)) m
             | _ \<Rightarrow> m)"

definition surface_of :: "contract_index \<Rightarrow> contract_surface" where
  "surface_of ix =
     (let reads = fold add_read (ix_field_refs ix) [] in
      \<lparr>su_endpoints = fold (\<lambda>(k, v). bt_insert k v) (map (\<lambda>(i, e). (i, endpoint_to_def e)) (ix_endpoints ix)) [],
       su_consumers = fold (\<lambda>(k, v). bt_insert k v)
         (map (\<lambda>(call, r). (consumer_key_of call r, consumer_to_def call r reads)) (consumer_resolutions ix)) []\<rparr>)"

section \<open>Changes\<close>

datatype change_kind =
    PathChanged contract_key contract_key
  | MethodChanged contract_key contract_key
  | EndpointRemoved contract_key
  | EndpointAdded contract_key
  | FieldRemoved endpoint_id payload_direction json_path
  | FieldAdded endpoint_id payload_direction json_path bool
  | FieldRenamed endpoint_id payload_direction json_path json_path bool
  | FieldTypeChanged endpoint_id payload_direction json_path type_desc type_desc bool
  | RequirednessChanged endpoint_id payload_direction json_path bool
  | NullabilityChanged endpoint_id payload_direction json_path bool
  | EnumValueRemoved endpoint_id payload_direction json_path string
  | EnumValueAdded endpoint_id payload_direction json_path string
  | ChangedWithoutSchema endpoint_id
  | HandlerChanged endpoint_id
  | ConsumerEndpointUnmatched consumer_key
  | ConsumerFieldUnmatched consumer_key json_path
  | ConsumerRebound consumer_key endpoint_id endpoint_id

record contract_change =
  cc_service :: string
  cc_kind :: change_kind

definition change :: "string \<Rightarrow> change_kind \<Rightarrow> contract_change" where
  "change svc k = \<lparr>cc_service = svc, cc_kind = k\<rparr>"

fun direction_label :: "payload_direction \<Rightarrow> string" where
  "direction_label Request = ''request''"
| "direction_label Response = ''response''"
| "direction_label Payload = ''payload''"

definition consumer_label :: "consumer_key \<Rightarrow> string" where
  "consumer_label c = sk_path (ck_caller c) @ '':'' @ sk_name (ck_caller c)"

definition field_label :: "string \<Rightarrow> endpoint_id \<Rightarrow> payload_direction \<Rightarrow> json_path \<Rightarrow> string" where
  "field_label what e d p = what @ '':'' @ wire_form (snd e) @ '':'' @ direction_label d @ '':'' @ show_path p"

fun kind_label :: "change_kind \<Rightarrow> string" where
  "kind_label (PathChanged a b) = ''path:'' @ wire_form a @ ''->'' @ wire_form b"
| "kind_label (MethodChanged a b) = ''method:'' @ wire_form a @ ''->'' @ wire_form b"
| "kind_label (EndpointRemoved k) = ''removed:'' @ wire_form k"
| "kind_label (EndpointAdded k) = ''added:'' @ wire_form k"
| "kind_label (FieldRemoved e d p) = field_label ''field-removed'' e d p"
| "kind_label (FieldAdded e d p req) = field_label ''field-added'' e d p"
| "kind_label (FieldRenamed e d a b req) = field_label ''field-renamed'' e d a @ ''->'' @ show_path b"
| "kind_label (FieldTypeChanged e d p a b req) = field_label ''field-type'' e d p"
| "kind_label (RequirednessChanged e d p b) = field_label ''requiredness'' e d p"
| "kind_label (NullabilityChanged e d p b) = field_label ''nullability'' e d p"
| "kind_label (EnumValueRemoved e d p v) = field_label ''enum-removed'' e d p @ '':'' @ v"
| "kind_label (EnumValueAdded e d p v) = field_label ''enum-added'' e d p @ '':'' @ v"
| "kind_label (ChangedWithoutSchema e) = ''changed-no-schema:'' @ wire_form (snd e)"
| "kind_label (HandlerChanged e) = ''handler-changed:'' @ wire_form (snd e)"
| "kind_label (ConsumerEndpointUnmatched c) = ''consumer-unmatched:'' @ consumer_label c"
| "kind_label (ConsumerFieldUnmatched c p) = ''consumer-field-unmatched:'' @ consumer_label c @ '':'' @ show_path p"
| "kind_label (ConsumerRebound c a b) =
     ''consumer-rebound:'' @ consumer_label c @ '':'' @ wire_form (snd a) @ ''->'' @ wire_form (snd b)"

definition change_sort_key :: "contract_change \<Rightarrow> string" where
  "change_sort_key c = cc_service c @ ''|'' @ kind_label (cc_kind c)"

section \<open>Fields\<close>

type_synonym fields_map = "(json_path, field_meta) btree"

definition has_ancestor_only_in :: "json_path \<Rightarrow> fields_map \<Rightarrow> fields_map \<Rightarrow> bool" where
  "has_ancestor_only_in path here there \<longleftrightarrow>
     list_ex (\<lambda>i. bt_has here (take i path) \<and> \<not> bt_has there (take i path)) [1..<length path]"

definition only_in :: "fields_map \<Rightarrow> fields_map \<Rightarrow> json_path list" where
  "only_in here there = filter (\<lambda>p. \<not> (bt_has there p \<or> has_ancestor_only_in p here there)) (bt_keys here)"

definition parent_of :: "json_path \<Rightarrow> json_path" where
  "parent_of p = (if length p \<le> 1 then [] else take (length p - 1) p)"

definition renames_to :: "fields_map \<Rightarrow> fields_map \<Rightarrow> json_path bset \<Rightarrow> json_path \<Rightarrow> json_path \<Rightarrow> bool" where
  "renames_to base head taken r a \<longleftrightarrow>
     parent_of r = parent_of a
     \<and> (case (bt_get base r, bt_get head a) of
          (Some b, Some h) \<Rightarrow> fm_ty b = fm_ty h \<and> \<not> bt_has taken a
        | _ \<Rightarrow> False)"

definition rename_step ::
    "fields_map \<Rightarrow> fields_map \<Rightarrow> json_path list \<Rightarrow> json_path \<Rightarrow> json_path bset \<times> json_path bset \<Rightarrow> json_path bset \<times> json_path bset" where
  "rename_step base head added r st =
     (case st of (from, to) \<Rightarrow>
        if bt_has from r then (from, to)
        else case find (renames_to base head to r) added of
               Some a \<Rightarrow> (bs_insert r from, bs_insert a to)
             | None \<Rightarrow> (from, to))"

definition find_renames :: "fields_map \<Rightarrow> fields_map \<Rightarrow> json_path bset \<times> json_path bset" where
  "find_renames base head = fold (rename_step base head (only_in head base)) (only_in base head) ([], [])"

definition field_required :: "fields_map \<Rightarrow> json_path \<Rightarrow> bool" where
  "field_required m p = (case bt_get m p of Some f \<Rightarrow> fm_required f | None \<Rightarrow> False)"

definition enum_only_in :: "string list \<Rightarrow> string list \<Rightarrow> string list" where
  "enum_only_in here there = filter (\<lambda>v. v \<notin> set there) (remdups_adj (sort here))"

definition attribute_changes :: "endpoint_id \<Rightarrow> payload_direction \<Rightarrow> json_path \<Rightarrow> field_meta \<Rightarrow> field_meta \<Rightarrow> change_kind list" where
  "attribute_changes e d p b h =
     (if fm_ty b \<noteq> fm_ty h then [FieldTypeChanged e d p (fm_ty b) (fm_ty h) (fm_required h)] else [])
     @ (if fm_required b \<noteq> fm_required h then [RequirednessChanged e d p (fm_required h)] else [])
     @ (if fm_nullable b \<noteq> fm_nullable h then [NullabilityChanged e d p (fm_nullable h)] else [])
     @ (case (fm_enum_values b, fm_enum_values h) of
          (Some bev, Some hev) \<Rightarrow>
            map (EnumValueRemoved e d p) (enum_only_in bev hev) @ map (EnumValueAdded e d p) (enum_only_in hev bev)
        | (None, None) \<Rightarrow> []
        | _ \<Rightarrow> [FieldTypeChanged e d p (fm_ty b) (fm_ty h) (fm_required h)])"

definition common_changes :: "endpoint_id \<Rightarrow> payload_direction \<Rightarrow> fields_map \<Rightarrow> fields_map \<Rightarrow> change_kind list" where
  "common_changes e d base head =
     concat (map (\<lambda>(p, b). case bt_get head p of None \<Rightarrow> [] | Some h \<Rightarrow> attribute_changes e d p b h) base)"

definition is_renamed :: "endpoint_id \<Rightarrow> payload_direction \<Rightarrow> json_path bset \<Rightarrow> json_path bset \<Rightarrow> contract_change \<Rightarrow> bool" where
  "is_renamed e d from to c \<longleftrightarrow>
     (case cc_kind c of
        FieldRemoved e' d' p \<Rightarrow> e' = e \<and> d' = d \<and> bt_has from p
      | FieldAdded e' d' p req \<Rightarrow> e' = e \<and> d' = d \<and> bt_has to p
      | _ \<Rightarrow> False)"

definition diff_fields ::
    "endpoint_id \<Rightarrow> payload_direction \<Rightarrow> fields_map option \<Rightarrow> fields_map option \<Rightarrow> contract_change list \<Rightarrow> contract_change list" where
  "diff_fields e d base head out =
     (let base = or_empty base; head = or_empty head; chg = change (fst e);
          removed = map (\<lambda>p. chg (FieldRemoved e d p)) (only_in base head);
          added = map (\<lambda>p. chg (FieldAdded e d p (field_required head p))) (only_in head base) in
      case find_renames base head of (from, to) \<Rightarrow>
        filter (\<lambda>c. \<not> is_renamed e d from to c) (out @ removed @ added)
        @ map (\<lambda>(r, a). chg (FieldRenamed e d r a (field_required head a))) (zip (bt_keys from) (bt_keys to))
        @ map chg (common_changes e d base head))"

section \<open>Endpoints\<close>

datatype repo_diff_result = FilesChanged "string set" | FilesUnchanged | DiffUnavailable string

record changed_files_source =
  cf_changed_files :: "string set"
  cf_changed_files_for_repo :: "string \<Rightarrow> repo_diff_result"
  cf_changed_line_ranges :: "string \<Rightarrow> (string \<Rightarrow> (nat \<times> nat) list option) option"

definition static_changed_files :: "string set \<Rightarrow> changed_files_source" where
  "static_changed_files files =
     \<lparr>cf_changed_files = files,
      cf_changed_files_for_repo = (\<lambda>_. if files = {} then FilesUnchanged else FilesChanged files),
      cf_changed_line_ranges = (\<lambda>_. None)\<rparr>"

definition static_repo_changed_files :: "(string \<Rightarrow> string set option) \<Rightarrow> string list \<Rightarrow> changed_files_source" where
  "static_repo_changed_files by_repo repos =
     \<lparr>cf_changed_files = \<Union> (set (List.map_filter by_repo repos)),
      cf_changed_files_for_repo =
        (\<lambda>r. case by_repo r of Some files \<Rightarrow> if files \<noteq> {} then FilesChanged files else FilesUnchanged | None \<Rightarrow> FilesUnchanged),
      cf_changed_line_ranges = (\<lambda>_. None)\<rparr>"

fun method_of :: "endpoint_id \<Rightarrow> http_method option" where
  "method_of (svc, KHttp (Known m) t) = Some m"
| "method_of _ = None"

definition shares_provider :: "provider_ref \<Rightarrow> provider_ref \<Rightarrow> bool" where
  "shares_provider a b \<longleftrightarrow>
     (case (pr_handler a, pr_handler b) of (Some x, Some y) \<Rightarrow> x = y | _ \<Rightarrow> False)
     \<or> (case (pr_operation_id a, pr_operation_id b) of (Some x, Some y) \<Rightarrow> x = y \<and> x \<noteq> [] | _ \<Rightarrow> False)"

definition shares_handler_or_operation_id :: "endpoint_def \<Rightarrow> endpoint_def \<Rightarrow> bool" where
  "shares_handler_or_operation_id a b \<longleftrightarrow>
     list_ex (\<lambda>pa. list_ex (shares_provider pa) (ed_providers b)) (ed_providers a)"

definition partner ::
    "contract_surface \<Rightarrow> endpoint_id list \<Rightarrow> endpoint_id \<times> endpoint_def \<Rightarrow> endpoint_id option" where
  "partner head remaining entry =
     (case entry of (base_id, base_def) \<Rightarrow>
        if base_id \<in> set remaining then Some base_id
        else map_option fst
               (find (\<lambda>(h, def). fst h = fst base_id \<and> h \<in> set remaining \<and> shares_handler_or_operation_id base_def def)
                 (su_endpoints head)))"

record pairing_state =
  ps_base :: "endpoint_id list"
  ps_head :: "endpoint_id list"
  ps_pairs :: "(endpoint_id \<times> endpoint_id) list"

definition pair_step :: "contract_surface \<Rightarrow> endpoint_id \<times> endpoint_def \<Rightarrow> pairing_state \<Rightarrow> pairing_state" where
  "pair_step head entry st =
     (if fst entry \<notin> set (ps_base st) then st
      else case partner head (ps_head st) entry of
             None \<Rightarrow> st
           | Some h \<Rightarrow>
               \<lparr>ps_base = filter (\<lambda>i. i \<noteq> fst entry) (ps_base st), ps_head = filter (\<lambda>i. i \<noteq> h) (ps_head st),
                ps_pairs = ps_pairs st @ [(fst entry, h)]\<rparr>)"

definition pair_endpoints :: "contract_surface \<Rightarrow> contract_surface \<Rightarrow> pairing_state" where
  "pair_endpoints base head =
     fold (pair_step head) (su_endpoints base)
       \<lparr>ps_base = bt_keys (su_endpoints base), ps_head = bt_keys (su_endpoints head), ps_pairs = []\<rparr>"

text \<open>A route node in its handler's own file anchors the endpoint at its line.\<close>

definition provider_anchor :: "provider_ref \<Rightarrow> ((string \<times> string) \<times> nat) option" where
  "provider_anchor p =
     (case pr_handler p of
        None \<Rightarrow> None
      | Some h \<Rightarrow>
          if gid_path (pr_node_id p) \<noteq> Some (sk_path h) then None
          else case gid_line_start (pr_node_id p) of
                 Some line \<Rightarrow> if line = 0 then None else Some ((gid_repo_id (pr_node_id p), sk_path h), line)
               | None \<Rightarrow> None)"

definition handler_anchors :: "contract_surface \<Rightarrow> contract_surface \<Rightarrow> ((string \<times> string) \<times> endpoint_id \<times> nat) list" where
  "handler_anchors base head =
     concat (map (\<lambda>(i, def). List.map_filter (\<lambda>p. map_option (\<lambda>(file, line). (file, i, line)) (provider_anchor p)) (ed_providers def))
       (su_endpoints base @ su_endpoints head))"

definition endpoint_provider_repos :: "endpoint_def \<Rightarrow> endpoint_def \<Rightarrow> string bset" where
  "endpoint_provider_repos base head =
     fold (\<lambda>p repos.
         let node_repo = gid_repo_id (pr_node_id p);
             repos = (if node_repo \<noteq> [] then bs_insert node_repo repos else repos) in
         case pr_handler p of
           Some h \<Rightarrow> if repo_str (sk_repo h) \<noteq> [] then bs_insert (repo_str (sk_repo h)) repos else repos
         | None \<Rightarrow> repos)
       (ed_providers base @ ed_providers head) []"

definition handler_files :: "endpoint_def \<Rightarrow> endpoint_def \<Rightarrow> (string \<times> string) list" where
  "handler_files base head =
     List.map_filter (\<lambda>p. map_option (\<lambda>h. (gid_repo_id (pr_node_id p), sk_path h)) (pr_handler p))
       (ed_providers base @ ed_providers head)"

text \<open>The files known to have changed, by repository.\<close>

definition noted_changes :: "changed_files_source \<Rightarrow> endpoint_def \<Rightarrow> endpoint_def \<Rightarrow> (string \<times> string set) list" where
  "noted_changes src base head =
     (case bt_keys (endpoint_provider_repos base head) of
        [] \<Rightarrow> [([], cf_changed_files src)]
      | repos \<Rightarrow>
          List.map_filter (\<lambda>r. case cf_changed_files_for_repo src r of FilesChanged files \<Rightarrow> Some (r, files) | _ \<Rightarrow> None) repos)"

definition source_changed :: "changed_files_source \<Rightarrow> endpoint_def \<Rightarrow> endpoint_def \<Rightarrow> bool" where
  "source_changed src base head \<longleftrightarrow>
     list_ex (\<lambda>(r, files). (ed_source_files base \<union> ed_source_files head) \<inter> files \<noteq> {}) (noted_changes src base head)"

definition span_lines :: "nat \<times> nat \<Rightarrow> nat list" where
  "span_lines s = [fst s..<Suc (snd s)]"

text \<open>A span's end is not before its start: git reports them so, and the subtraction would overflow.\<close>

definition site_touched :: "nat list \<Rightarrow> nat list \<Rightarrow> (nat \<times> nat) list \<Rightarrow> bool" where
  "site_touched mine anchors spans \<longleftrightarrow>
     mine = []
     \<or> card (set anchors) < sum_list (map (\<lambda>(s, e). e - s + 1) spans)
     \<or> \<not> list_all (\<lambda>s. list_all (\<lambda>l. l \<in> set anchors) (span_lines s)) spans
     \<or> list_ex (\<lambda>l. list_ex (\<lambda>(s, e). s \<le> l \<and> l \<le> e) spans) mine"

definition handler_changed ::
    "changed_files_source \<Rightarrow> ((string \<times> string) \<times> endpoint_id \<times> nat) list \<Rightarrow> endpoint_id \<Rightarrow> endpoint_def \<Rightarrow> endpoint_def \<Rightarrow> bool" where
  "handler_changed src anchors head_id base head \<longleftrightarrow>
     list_ex (\<lambda>(repo, file).
         list_ex (\<lambda>(r, files). r = repo \<and> file \<in> files) (noted_changes src base head)
         \<and> (case Option.bind (cf_changed_line_ranges src repo) (\<lambda>m. m file) of
              None \<Rightarrow> True
            | Some spans \<Rightarrow>
                let here = filter (\<lambda>a. fst a = (repo, file)) anchors in
                site_touched (map (snd \<circ> snd) (filter (\<lambda>a. fst (snd a) = head_id) here)) (map (snd \<circ> snd) here) spans))
       (handler_files base head)"

definition moved_changes :: "endpoint_id \<Rightarrow> endpoint_id \<Rightarrow> contract_change list" where
  "moved_changes base_id head_id =
     (if snd base_id \<noteq> snd head_id then [change (fst head_id) (PathChanged (snd base_id) (snd head_id))]
      else if method_of base_id \<noteq> method_of head_id then [change (fst head_id) (MethodChanged (snd base_id) (snd head_id))]
      else [])"

definition empty_def :: endpoint_def where
  "empty_def = \<lparr>ed_providers = [], ed_schemas = [], ed_has_schema = False, ed_source_files = {}\<rparr>"

definition def_of :: "contract_surface \<Rightarrow> endpoint_id \<Rightarrow> endpoint_def" where
  "def_of s i = (case bt_get (su_endpoints s) i of Some d \<Rightarrow> d | None \<Rightarrow> empty_def)"

definition diff_pair ::
    "contract_surface \<Rightarrow> contract_surface \<Rightarrow> changed_files_source \<Rightarrow> ((string \<times> string) \<times> endpoint_id \<times> nat) list
     \<Rightarrow> endpoint_id \<times> endpoint_id \<Rightarrow> contract_change list \<Rightarrow> contract_change list" where
  "diff_pair base head src anchors pair out =
     (case pair of (base_id, head_id) \<Rightarrow>
        let base_def = def_of base base_id; head_def = def_of head head_id;
            after = fold (\<lambda>d. diff_fields head_id d (bt_get (ed_schemas base_def) d) (bt_get (ed_schemas head_def) d))
                      [Request, Response, Payload] (out @ moved_changes base_id head_id);
            explained = (length out < length after) in
        after @
        (if source_changed src base_def head_def \<and> \<not> ed_has_schema base_def \<and> \<not> ed_has_schema head_def
         then [change (fst head_id) (ChangedWithoutSchema head_id)]
         else if handler_changed src anchors head_id base_def head_def \<and> ed_has_schema base_def \<and> ed_has_schema head_def
              \<and> \<not> explained
         then [change (fst head_id) (HandlerChanged head_id)]
         else []))"

definition diff_contracts :: "contract_surface \<Rightarrow> contract_surface \<Rightarrow> changed_files_source \<Rightarrow> contract_change list" where
  "diff_contracts base head src =
     (let st = pair_endpoints base head;
          unpaired = map (\<lambda>i. change (fst i) (EndpointRemoved (snd i))) (ps_base st)
                     @ map (\<lambda>i. change (fst i) (EndpointAdded (snd i))) (ps_head st) in
      sort_key change_sort_key
        (fold (diff_pair base head src (handler_anchors base head)) (ps_pairs st) unpaired))"

section \<open>Consumers\<close>

definition consumer_service :: "consumer_key \<Rightarrow> string" where
  "consumer_service k = repo_str (sk_repo (ck_caller k))"

definition in_schemas :: "endpoint_def \<Rightarrow> json_path \<Rightarrow> bool" where
  "in_schemas e p \<longleftrightarrow> list_ex (\<lambda>m. bt_has m p) (bt_vals (ed_schemas e))"

definition unmatched_reads ::
    "contract_surface \<Rightarrow> contract_surface \<Rightarrow> json_path bset \<Rightarrow> json_path bset \<Rightarrow> endpoint_id \<Rightarrow> json_path list" where
  "unmatched_reads base head base_reads reads e =
     (case bt_get (su_endpoints head) e of
        None \<Rightarrow> []
      | Some def \<Rightarrow>
          if \<not> ed_has_schema def then []
          else filter (\<lambda>p. \<not> bt_has base_reads p \<and> \<not> in_schemas def p
                   \<and> \<not> (case bt_get (su_endpoints base) e of Some b \<Rightarrow> in_schemas b p | None \<Rightarrow> False)) (bt_keys reads))"

definition consumer_changes ::
    "contract_surface \<Rightarrow> contract_surface \<Rightarrow> consumer_key \<times> consumer_def \<Rightarrow> contract_change list" where
  "consumer_changes base head entry =
     (case entry of (key, def) \<Rightarrow>
        let base_def = bt_get (su_consumers base) key; chg = change (consumer_service key) in
        (case cd_resolution def of
           SurfaceUnresolved reason svc \<Rightarrow>
             if (reason = NoRouteInService \<or> reason = NoMatchingService) \<and> base_def = None
             then [chg (ConsumerEndpointUnmatched key)] else []
         | SurfaceBinds endpoints prov \<Rightarrow>
             (case map_option cd_resolution base_def of
                Some (SurfaceBinds base_endpoints base_prov) \<Rightarrow>
                  (case (base_endpoints, endpoints) of
                     (from # _, to # _) \<Rightarrow> if from \<noteq> to then [chg (ConsumerRebound key from to)] else []
                   | _ \<Rightarrow> [])
              | _ \<Rightarrow> [])
             @ concat (map (\<lambda>e. map (\<lambda>p. chg (ConsumerFieldUnmatched key p))
                 (unmatched_reads base head (case base_def of Some b \<Rightarrow> cd_reads b | None \<Rightarrow> []) (cd_reads def) e)) endpoints)
         | SurfaceExternal host \<Rightarrow> []))"

definition diff_consumers :: "contract_surface \<Rightarrow> contract_surface \<Rightarrow> contract_change list" where
  "diff_consumers base head =
     sort_key change_sort_key (concat (map (consumer_changes base head) (su_consumers head)))"

end
