(* ===== verification/Coverage.thy ===== *)
theory Coverage
  imports Key_Order Join_Http
begin

text \<open>
  What an analysis covered, \<^verbatim>\<open>federation/contracts/coverage.rs\<close>: the ledger of each sensor and
  language, when a repository counts as covered, and the ledger a scan produces. The files found in
  the workspace and the sensors' own reports are arguments.
\<close>

datatype lang = Python | TsJs | LangTs | LangTsx | LangRust | LangGo | LangJava | LangCSharp | LangRuby | LangKotlin

fun lang_label :: "lang \<Rightarrow> string" where
  "lang_label Python = ''python''"
| "lang_label TsJs = ''tsjs''"
| "lang_label LangTs = ''ts''"
| "lang_label LangTsx = ''tsx''"
| "lang_label LangRust = ''rust''"
| "lang_label LangGo = ''go''"
| "lang_label LangJava = ''java''"
| "lang_label LangCSharp = ''csharp''"
| "lang_label LangRuby = ''ruby''"
| "lang_label LangKotlin = ''kotlin''"

definition consumer_capable_langs :: "lang list" where
  "consumer_capable_langs =
     [Python, TsJs, LangTs, LangTsx, LangRust, LangGo, LangJava, LangCSharp, LangRuby, LangKotlin]"

definition lang_for_label :: "string \<Rightarrow> lang option" where
  "lang_for_label s = find (\<lambda>l. lang_label l = s) consumer_capable_langs"

lemma all_langs: "l \<in> set consumer_capable_langs"
  by (cases l) (simp_all add: consumer_capable_langs_def)

lemma lang_label_inj: "lang_label a = lang_label b \<Longrightarrow> a = b"
  by (cases a; cases b) simp_all

section \<open>Ledgers\<close>

datatype skip_reason = UnsupportedLanguage | Unreadable | ParseError | SizeCap

record skip_record =
  sp_reason :: skip_reason
  sp_count :: nat
  sp_sample_paths :: "string list"

record unresolved_record =
  ur_reason :: unresolved_reason
  ur_count :: nat
  ur_sample_ids :: "string list"

record sensor_ledger =
  sl_files_seen :: nat
  sl_files_analyzed :: nat
  sl_files_skipped :: "skip_record list"
  sl_emitted :: nat
  sl_unresolved :: "unresolved_record list"
  sl_error :: "string option"

definition ledger_new :: sensor_ledger where
  "ledger_new =
     \<lparr>sl_files_seen = 0, sl_files_analyzed = 0, sl_files_skipped = [], sl_emitted = 0, sl_unresolved = [], sl_error = None\<rparr>"

record cache_key =
  ch_repo :: string
  ch_sha :: string
  ch_analyzer_version :: string

type_synonym ledger_map = "(string, (string, sensor_ledger) btree) btree"

record ledger_coverage =
  lc_ledger :: ledger_map
  lc_languages_present :: "string set"
  lc_sensor_counts :: "(string, nat) btree"
  lc_cache_key :: cache_key
  lc_error :: "string option"

definition ledger_entries :: "ledger_coverage \<Rightarrow> (string \<times> sensor_ledger) list" where
  "ledger_entries c = concat (map snd (lc_ledger c))"

definition lang_covered :: "ledger_coverage \<Rightarrow> lang \<Rightarrow> bool" where
  "lang_covered c l \<longleftrightarrow>
     list_ex (\<lambda>(sensor, by_lang). case bt_get by_lang (lang_label l) of Some e \<Rightarrow> 0 < sl_files_analyzed e | None \<Rightarrow> False)
       (lc_ledger c)"

definition is_complete :: "ledger_coverage \<Rightarrow> lang list \<Rightarrow> string \<Rightarrow> bool" where
  "is_complete c capable version \<longleftrightarrow>
     lc_error c = None
     \<and> ch_analyzer_version (lc_cache_key c) = version
     \<and> list_all (\<lambda>(label, e). sl_error e = None \<and> sl_unresolved e = []) (ledger_entries c)
     \<and> list_all (\<lambda>l. lang_label l \<in> lc_languages_present c \<longrightarrow> lang_covered c l) capable"

type_synonym coverage_ledger = "(string, ledger_coverage) btree"

definition scope_is_complete :: "coverage_ledger \<Rightarrow> string list \<Rightarrow> string \<Rightarrow> bool" where
  "scope_is_complete ledger in_scope version \<longleftrightarrow>
     list_all (\<lambda>r. case bt_get ledger r of Some c \<Rightarrow> is_complete c consumer_capable_langs version | None \<Rightarrow> False) in_scope"

definition reasons_for :: "ledger_coverage \<Rightarrow> unresolved_reason list" where
  "reasons_for c = concat (map (\<lambda>(label, e). map ur_reason (sl_unresolved e)) (ledger_entries c))"

section \<open>A scan's ledger\<close>

record file_record =
  fl_path :: string
  fl_lang :: "lang option"
  fl_ignored :: bool
  fl_size_capped :: bool

record scan_report =
  sr_analyzed :: nat
  sr_skipped :: "skip_record list"
  sr_emitted :: nat
  sr_unresolved :: "unresolved_record list"
  sr_error :: "string option"

definition ledger_or_new :: "sensor_ledger option \<Rightarrow> sensor_ledger" where
  "ledger_or_new old = (case old of Some e \<Rightarrow> e | None \<Rightarrow> ledger_new)"

definition count_lang :: "lang \<Rightarrow> file_record list \<Rightarrow> nat" where
  "count_lang l files = length (filter (\<lambda>f. fl_lang f = Some l) files)"

definition add_report :: "file_record list \<Rightarrow> string \<times> scan_report \<Rightarrow> ledger_map \<Rightarrow> ledger_map" where
  "add_report files entry m =
     (case entry of (sensor, report) \<Rightarrow>
        bt_update sensor
          (\<lambda>old.
             let bucket = (case old of Some b \<Rightarrow> b | None \<Rightarrow> []);
                 rust_seen = count_lang LangRust files;
                 bucket =
                   (if sensor = ''grpc_consumer'' \<and> 0 < rust_seen
                    then bt_update (lang_label LangRust)
                           (\<lambda>o1. let e = ledger_or_new o1 in
                              e\<lparr>sl_files_seen := sl_files_seen e + rust_seen,
                                sl_unresolved := sl_unresolved e @ sr_unresolved report, sl_error := sr_error report\<rparr>) bucket
                    else bucket) in
             bt_update (lang_label Python)
               (\<lambda>o1. let e = ledger_or_new o1 in
                  e\<lparr>sl_files_seen := sl_files_seen e + count_lang Python files,
                    sl_emitted := sl_emitted e + sr_emitted report,
                    sl_unresolved := (if sensor \<noteq> ''grpc_consumer'' then sl_unresolved e @ sr_unresolved report else sl_unresolved e),
                    sl_error := (case sr_error report of Some err \<Rightarrow> Some err | None \<Rightarrow> sl_error e)\<rparr>) bucket) m)"

definition files_by_lang :: "file_record list \<Rightarrow> (string, string list) btree" where
  "files_by_lang files =
     fold (\<lambda>f m. case fl_lang f of Some l \<Rightarrow> bt_push (lang_label l) (fl_path f) m | None \<Rightarrow> m) files []"

definition any_analyzed :: "ledger_map \<Rightarrow> string \<Rightarrow> bool" where
  "any_analyzed m label \<longleftrightarrow>
     list_ex (\<lambda>(sensor, by_lang). case bt_get by_lang label of Some e \<Rightarrow> 0 < sl_files_analyzed e | None \<Rightarrow> False) m"

definition add_unsupported :: "string \<times> string list \<Rightarrow> ledger_map \<Rightarrow> ledger_map" where
  "add_unsupported entry m =
     (case entry of (label, paths) \<Rightarrow>
        if any_analyzed m label then m
        else bt_update ''classifier''
               (\<lambda>old. bt_update label
                  (\<lambda>o1. let e = ledger_or_new o1 in
                     e\<lparr>sl_files_skipped := sl_files_skipped e @
                         [\<lparr>sp_reason = UnsupportedLanguage, sp_count = length paths, sp_sample_paths = take 5 paths\<rparr>]\<rparr>)
                  (case old of Some b \<Rightarrow> b | None \<Rightarrow> [])) m)"

definition coverage_from_reports ::
    "file_record list \<Rightarrow> cache_key \<Rightarrow> (string, nat) btree \<Rightarrow> (string \<times> scan_report) list \<Rightarrow> ledger_coverage" where
  "coverage_from_reports files key counts reports =
     \<lparr>lc_ledger = fold add_unsupported (files_by_lang files) (fold (add_report files) reports []),
      lc_languages_present = set (List.map_filter (\<lambda>f. map_option lang_label (fl_lang f)) files),
      lc_sensor_counts = counts, lc_cache_key = key, lc_error = None\<rparr>"

section \<open>What a scan's ledger says\<close>

lemma lang_for_label_label: "lang_for_label (lang_label l) = Some l"
proof -
  have "find (\<lambda>x. lang_label x = lang_label l) consumer_capable_langs \<noteq> None"
    using all_langs [of l] by (auto simp: find_None_iff)
  then obtain x where x: "find (\<lambda>x. lang_label x = lang_label l) consumer_capable_langs = Some x" by blast
  then have "lang_label x = lang_label l" by (auto simp: find_Some_iff)
  then show ?thesis using x lang_label_inj by (auto simp: lang_for_label_def)
qed

definition nothing_analyzed :: "ledger_map \<Rightarrow> bool" where
  "nothing_analyzed m \<longleftrightarrow> list_all (\<lambda>(sensor, by_lang). list_all (\<lambda>(label, e). sl_files_analyzed e = 0) by_lang) m"

lemma ledger_update_zero:
  assumes "list_all (\<lambda>(label, e). sl_files_analyzed e = 0) m"
    and "\<And>e. sl_files_analyzed e = 0 \<Longrightarrow> sl_files_analyzed (g e) = 0"
  shows "list_all (\<lambda>(label, e). sl_files_analyzed e = 0) (bt_update k (\<lambda>o1. g (ledger_or_new o1)) m)"
  using assms(1)
proof (induction m)
  case Nil
  then show ?case using assms(2) by (simp add: ledger_or_new_def ledger_new_def)
next
  case (Cons a m)
  then show ?case using assms(2) by (cases a) (auto simp: ledger_or_new_def ledger_new_def)
qed

lemma bucket_update_zero:
  assumes "nothing_analyzed m"
    and "\<And>b. list_all (\<lambda>(label, e). sl_files_analyzed e = 0) b \<Longrightarrow> list_all (\<lambda>(label, e). sl_files_analyzed e = 0) (g b)"
  shows "nothing_analyzed (bt_update k (\<lambda>old. g (case old of Some b \<Rightarrow> b | None \<Rightarrow> [])) m)"
  using assms(1) unfolding nothing_analyzed_def
proof (induction m)
  case Nil
  then show ?case using assms(2) [of "[]"] by simp
next
  case (Cons a m)
  then show ?case using assms(2) [of "[]"] assms(2) [of "snd a"] by (cases a) auto
qed

lemma add_report_zero: "nothing_analyzed m \<Longrightarrow> nothing_analyzed (add_report files entry m)"
  unfolding add_report_def Let_def
  by (cases entry, simp only: split_conv) (rule bucket_update_zero, assumption, auto intro!: ledger_update_zero)

lemma add_unsupported_zero: "nothing_analyzed m \<Longrightarrow> nothing_analyzed (add_unsupported entry m)"
proof -
  assume m: "nothing_analyzed m"
  obtain label paths where entry: "entry = (label, paths)" by (cases entry)
  let ?g = "\<lambda>e. e\<lparr>sl_files_skipped := sl_files_skipped e @
      [\<lparr>sp_reason = UnsupportedLanguage, sp_count = length paths, sp_sample_paths = take 5 paths\<rparr>]\<rparr>"
  have "nothing_analyzed (bt_update ''classifier''
      (\<lambda>old. (\<lambda>b. bt_update label (\<lambda>o1. ?g (ledger_or_new o1)) b) (case old of Some b \<Rightarrow> b | None \<Rightarrow> [])) m)"
    by (rule bucket_update_zero [OF m], rule ledger_update_zero [where g = ?g]) simp_all
  then show ?thesis using m by (simp add: add_unsupported_def entry Let_def)
qed

lemma scan_analyzes_nothing: "nothing_analyzed (lc_ledger (coverage_from_reports files key counts reports))"
proof -
  have "nothing_analyzed (fold (add_report files) reports [])"
    by (rule fold_invariant [where P = nothing_analyzed and Q = "\<lambda>_. True"]) (auto simp: nothing_analyzed_def intro: add_report_zero [unfolded nothing_analyzed_def])
  then have "nothing_analyzed (fold add_unsupported es (fold (add_report files) reports []))" for es
    by (rule fold_invariant [where P = nothing_analyzed and Q = "\<lambda>_. True", rotated]) (auto intro: add_unsupported_zero)
  then show ?thesis by (simp add: coverage_from_reports_def)
qed

text \<open>the ledger a scan produces counts as complete only for a repository without a single source file in
  a known language: no step of it records that a file was analysed.\<close>

lemma scan_complete_only_without_sources:
  "is_complete (coverage_from_reports files key counts reports) consumer_capable_langs version \<longleftrightarrow>
     list_all (\<lambda>f. fl_lang f = None) files \<and> ch_analyzer_version key = version
     \<and> list_all (\<lambda>(label, e). sl_error e = None \<and> sl_unresolved e = [])
         (ledger_entries (coverage_from_reports files key counts reports))"
proof -
  let ?c = "coverage_from_reports files key counts reports"
  have "\<not> lang_covered ?c l" for l
    using scan_analyzes_nothing [of files key counts reports]
    by (fastforce simp: lang_covered_def nothing_analyzed_def list_all_iff list_ex_iff bt_get_def split: option.splits dest: map_of_SomeD)
  then have "list_all (\<lambda>l. lang_label l \<in> lc_languages_present ?c \<longrightarrow> lang_covered ?c l) consumer_capable_langs
      \<longleftrightarrow> (\<forall>l. lang_label l \<notin> lc_languages_present ?c)"
    using all_langs by (auto simp: list_all_iff)
  also have "\<dots> \<longleftrightarrow> list_all (\<lambda>f. fl_lang f = None) files"
  proof
    assume none: "\<forall>l. lang_label l \<notin> lc_languages_present ?c"
    show "list_all (\<lambda>f. fl_lang f = None) files"
      unfolding list_all_iff
    proof
      fix f assume f: "f \<in> set files"
      show "fl_lang f = None"
      proof (cases "fl_lang f")
        case (Some l)
        then have "lang_label l \<in> lc_languages_present ?c"
          using f by (force simp: coverage_from_reports_def List.map_filter_def)
        then show ?thesis using none by blast
      qed
    qed
  qed (auto simp: coverage_from_reports_def list_all_iff List.map_filter_def)
  finally show ?thesis by (auto simp: is_complete_def coverage_from_reports_def)
qed

end
