(* ===== verification/Impact.thy ===== *)
theory Impact
  imports Contract_Diff Coverage
begin

text \<open>
  The verdict on a change, the second half of \<^verbatim>\<open>federation/contracts/diff.rs\<close>: how a change is
  classified, who is affected and how surely, and what the analysis did not see. The version of the
  analyser is an argument. Counts are natural numbers; the code keeps them in 32 bits.
\<close>

section \<open>Classification\<close>

datatype compat = Compatible | Breaking | BreakingIfRead | BreakingIfSent | NeedsReview

fun is_schema_change :: "change_kind \<Rightarrow> bool" where
  "is_schema_change (FieldRemoved e d p) \<longleftrightarrow> True"
| "is_schema_change (FieldAdded e d p req) \<longleftrightarrow> True"
| "is_schema_change (RequirednessChanged e d p b) \<longleftrightarrow> True"
| "is_schema_change (NullabilityChanged e d p b) \<longleftrightarrow> True"
| "is_schema_change (EnumValueAdded e d p v) \<longleftrightarrow> True"
| "is_schema_change (EnumValueRemoved e d p v) \<longleftrightarrow> True"
| "is_schema_change _ \<longleftrightarrow> False"

definition is_schema_compatible_change :: "change_kind \<Rightarrow> compat \<Rightarrow> bool" where
  "is_schema_compatible_change k c \<longleftrightarrow> c = Compatible \<and> is_schema_change k"

fun classify :: "change_kind \<Rightarrow> payload_direction \<Rightarrow> compat" where
  "classify (FieldRemoved e d' p) d = (if d = Request then Compatible else BreakingIfRead)"
| "classify (FieldAdded e d' p required) d = (if d = Request then (if required then Breaking else Compatible) else Compatible)"
| "classify (FieldRenamed e d' a b required) d =
     (if d = Request then (if required then Breaking else NeedsReview) else BreakingIfRead)"
| "classify (FieldTypeChanged e d' p a b required) d =
     (if d = Request then (if required then Breaking else BreakingIfSent) else BreakingIfRead)"
| "classify (RequirednessChanged e d' p now) d =
     (if d = Request then (if now then Breaking else Compatible) else (if now then Compatible else BreakingIfRead))"
| "classify (NullabilityChanged e d' p now) d =
     (if d = Request then (if now then Compatible else BreakingIfSent) else (if now then BreakingIfRead else Compatible))"
| "classify (EnumValueRemoved e d' p v) d = (if d = Request then BreakingIfSent else Compatible)"
| "classify (EnumValueAdded e d' p v) d = (if d = Request then Compatible else NeedsReview)"
| "classify (EndpointRemoved k) d = Breaking"
| "classify (PathChanged a b) d = Breaking"
| "classify (MethodChanged a b) d = Breaking"
| "classify (EndpointAdded k) d = Compatible"
| "classify (ChangedWithoutSchema e) d = NeedsReview"
| "classify (HandlerChanged e) d = NeedsReview"
| "classify (ConsumerEndpointUnmatched c) d = Breaking"
| "classify (ConsumerFieldUnmatched c p) d = Breaking"
| "classify (ConsumerRebound c a b) d = Compatible"

fun kind_direction :: "change_kind \<Rightarrow> payload_direction option" where
  "kind_direction (FieldRemoved e d p) = Some d"
| "kind_direction (FieldAdded e d p req) = Some d"
| "kind_direction (FieldRenamed e d a b req) = Some d"
| "kind_direction (FieldTypeChanged e d p a b req) = Some d"
| "kind_direction (RequirednessChanged e d p b) = Some d"
| "kind_direction (NullabilityChanged e d p b) = Some d"
| "kind_direction (EnumValueRemoved e d p v) = Some d"
| "kind_direction (EnumValueAdded e d p v) = Some d"
| "kind_direction _ = None"

definition change_compat :: "contract_change \<Rightarrow> compat" where
  "change_compat c = classify (cc_kind c) (case kind_direction (cc_kind c) of Some d \<Rightarrow> d | None \<Rightarrow> Response)"

section \<open>Impact and coverage\<close>

datatype impact_class = NoKnownImpact | NeedsInvestigation | Verified

fun class_rank :: "impact_class \<Rightarrow> nat" where
  "class_rank NoKnownImpact = 0" | "class_rank NeedsInvestigation = 1" | "class_rank Verified = 2"

lemma class_rank_inj: "class_rank a = class_rank b \<Longrightarrow> a = b"
  by (cases a; cases b) simp_all

instantiation impact_class :: linorder
begin

definition less_eq_impact_class :: "impact_class \<Rightarrow> impact_class \<Rightarrow> bool" where
  "less_eq_impact_class a b \<longleftrightarrow> class_rank a \<le> class_rank b"

definition less_impact_class :: "impact_class \<Rightarrow> impact_class \<Rightarrow> bool" where
  "less_impact_class a b \<longleftrightarrow> class_rank a < class_rank b"

instance
  by standard (auto simp: less_eq_impact_class_def less_impact_class_def dest: class_rank_inj)

end

datatype impact_reason =
    StaticBinding | ConfirmedBinding | HeuristicBinding | SendsNotModeled | ReadsNotFullyTraced
  | ReviewNeeded | NoSchema | UnresolvedCandidates

record affected_consumer =
  af_service :: string
  af_consumer :: consumer_key
  af_class :: impact_class
  af_reason :: impact_reason

record reviewed_repo =
  rr_repo :: string
  rr_commit :: "string option"
  rr_dirty :: bool

record unreviewed_repo =
  un_repo :: string
  un_reason :: string
  un_error :: "string option"

record impact_scope =
  sc_reviewed :: "reviewed_repo list"
  sc_unreviewed :: "unreviewed_repo list"
  sc_configured_only :: bool

record external_ref =
  uf_repo :: string
  uf_url :: string
  uf_count :: nat
  uf_sample_paths :: "string list"

record repo_summary =
  rs_repo :: string
  rs_commit :: "string option"
  rs_state :: string
  rs_sensor_counts :: "(string, nat) btree"
  rs_error :: "string option"
  rs_languages :: "string set"
  rs_skips :: "skip_record list"
  rs_unresolved :: "unresolved_record list"
  rs_analyzer_version :: "string option"

record coverage_report =
  cv_repos :: "repo_summary list"
  cv_unresolved_consumers :: "consumer_key list"
  cv_ambiguous :: "consumer_key list"
  cv_unnormalized :: "consumer_key list"
  cv_external :: "(string \<times> nat) list"
  cv_stale_bindings :: nat
  cv_schemaless_endpoints :: "endpoint_id list"
  cv_scope :: impact_scope
  cv_complete :: bool
  cv_unresolved_refs :: "external_ref list"
  cv_repo_coverages :: coverage_ledger

record impact =
  im_service :: string
  im_kind :: change_kind
  im_class :: impact_class
  im_reason :: "impact_reason option"
  im_affected :: "affected_consumer list"
  im_scope :: impact_scope
  im_coverage :: coverage_report
  im_compatible_changes :: nat

section \<open>The verdict on one consumer\<close>

definition provider_target_endpoint :: "contract_change \<Rightarrow> endpoint_id option" where
  "provider_target_endpoint c =
     (case cc_kind c of
        PathChanged a b \<Rightarrow> Some (cc_service c, b)
      | MethodChanged a b \<Rightarrow> Some (cc_service c, b)
      | EndpointAdded k \<Rightarrow> Some (cc_service c, k)
      | FieldRemoved e d p \<Rightarrow> Some e
      | FieldAdded e d p req \<Rightarrow> Some e
      | FieldRenamed e d a b req \<Rightarrow> Some e
      | FieldTypeChanged e d p a b req \<Rightarrow> Some e
      | RequirednessChanged e d p b \<Rightarrow> Some e
      | NullabilityChanged e d p b \<Rightarrow> Some e
      | EnumValueRemoved e d p v \<Rightarrow> Some e
      | EnumValueAdded e d p v \<Rightarrow> Some e
      | ChangedWithoutSchema e \<Rightarrow> Some e
      | HandlerChanged e \<Rightarrow> Some e
      | EndpointRemoved k \<Rightarrow> Some (cc_service c, k)
      | _ \<Rightarrow> None)"

definition base_target_keys :: "contract_change \<Rightarrow> endpoint_id list" where
  "base_target_keys c =
     (let target = provider_target_endpoint c; own = (case target of Some t \<Rightarrow> [t] | None \<Rightarrow> []) in
      case cc_kind c of
        PathChanged a b \<Rightarrow> remdups_adj (own @ [(cc_service c, a)])
      | MethodChanged a b \<Rightarrow> remdups_adj (own @ [(cc_service c, a)])
      | EndpointRemoved k \<Rightarrow> [(cc_service c, k)]
      | _ \<Rightarrow> own)"

definition path_is_ancestor :: "json_path \<Rightarrow> json_path \<Rightarrow> bool" where
  "path_is_ancestor parent p \<longleftrightarrow> length parent < length p \<and> take (length parent) p = parent"

definition reads_at_or_under :: "json_path \<Rightarrow> consumer_def \<Rightarrow> bool" where
  "reads_at_or_under p c \<longleftrightarrow> list_ex (\<lambda>r. path_is_ancestor p r \<or> r = p) (bt_keys (cd_reads c))"

definition reads_field_for :: "contract_change \<Rightarrow> consumer_def \<Rightarrow> consumer_def \<Rightarrow> bool" where
  "reads_field_for c head base \<longleftrightarrow>
     (case cc_kind c of
        FieldRenamed e d from to req \<Rightarrow> reads_at_or_under to head \<or> reads_at_or_under from base
      | FieldRemoved e d p \<Rightarrow> reads_at_or_under p head
      | FieldAdded e d p req \<Rightarrow> reads_at_or_under p head
      | FieldTypeChanged e d p a b req \<Rightarrow> reads_at_or_under p head
      | RequirednessChanged e d p b \<Rightarrow> reads_at_or_under p head
      | NullabilityChanged e d p b \<Rightarrow> reads_at_or_under p head
      | EnumValueRemoved e d p v \<Rightarrow> reads_at_or_under p head
      | EnumValueAdded e d p v \<Rightarrow> reads_at_or_under p head
      | _ \<Rightarrow> False)"

definition binding_reason :: "consumer_def \<Rightarrow> impact_reason" where
  "binding_reason c =
     (case cd_resolution c of
        SurfaceBinds es (Static s) \<Rightarrow> StaticBinding
      | SurfaceBinds es (Confirmed s) \<Rightarrow> ConfirmedBinding
      | _ \<Rightarrow> HeuristicBinding)"

definition is_certain :: "consumer_def \<Rightarrow> bool" where
  "is_certain c \<longleftrightarrow>
     (case cd_resolution c of
        SurfaceBinds es (Static s) \<Rightarrow> True
      | SurfaceBinds es (Confirmed s) \<Rightarrow> True
      | _ \<Rightarrow> False)"

definition per_consumer_verdict ::
    "compat \<Rightarrow> contract_change \<Rightarrow> bool \<Rightarrow> bool \<Rightarrow> consumer_def \<Rightarrow> impact_class \<times> impact_reason" where
  "per_consumer_verdict how c reads traced consumer =
     (let sure = (if is_certain consumer then Verified else NeedsInvestigation); reason = binding_reason consumer in
      case how of
        Breaking \<Rightarrow> (sure, reason)
      | BreakingIfRead \<Rightarrow>
          if reads then (if \<not> traced then (NeedsInvestigation, ReadsNotFullyTraced) else (sure, reason))
          else if traced then (NoKnownImpact, reason)
          else (NeedsInvestigation, ReadsNotFullyTraced)
      | BreakingIfSent \<Rightarrow> (NeedsInvestigation, SendsNotModeled)
      | NeedsReview \<Rightarrow>
          (case cc_kind c of
             EnumValueAdded e d p v \<Rightarrow>
               if reads then (NeedsInvestigation, ReviewNeeded)
               else if traced then (NoKnownImpact, reason)
               else (NeedsInvestigation, ReadsNotFullyTraced)
           | ChangedWithoutSchema e \<Rightarrow> (NeedsInvestigation, NoSchema)
           | _ \<Rightarrow> (NeedsInvestigation, ReviewNeeded))
      | Compatible \<Rightarrow> (NoKnownImpact, reason))"

definition consumer_side_class :: "consumer_def option \<Rightarrow> coverage_report \<Rightarrow> impact_class" where
  "consumer_side_class consumer cov =
     (case consumer of
        None \<Rightarrow> NeedsInvestigation
      | Some c \<Rightarrow>
          (case cd_resolution c of
             SurfaceBinds ((svc, k) # es) prov \<Rightarrow>
               if list_ex (\<lambda>r. rr_repo r = svc) (sc_reviewed (cv_scope cov)) \<and> is_certain c then Verified
               else NeedsInvestigation
           | _ \<Rightarrow> NeedsInvestigation))"

definition strongest_class :: "affected_consumer list \<Rightarrow> impact_class" where
  "strongest_class xs = fold (\<lambda>a c. if c < af_class a then af_class a else c) xs NoKnownImpact"

section \<open>Who could be affected\<close>

definition template_matches :: "string \<Rightarrow> string \<Rightarrow> bool" where
  "template_matches consumer provider \<longleftrightarrow>
     is_match (match_route Unknown consumer Any provider)
     \<or> (let segs = split_on (CHR ''/'') consumer in
        list_ex (\<lambda>k. k + 1 \<le> length segs - 1
            \<and> is_match (match_route Unknown (''/'' @ join ''/'' (drop (k + 1) segs)) Any provider)) [1, 2, 3])"

fun non_http_could_match :: "consumer_target_key \<Rightarrow> contract_key \<Rightarrow> bool" where
  "non_http_could_match (TargetContract (KTopic cb cn)) (KTopic eb en) \<longleftrightarrow> cn = en \<and> (cb = eb \<or> cb = [] \<or> eb = [])"
| "non_http_could_match (TargetContract (KRpc cy cs cm)) (KRpc ey es em) \<longleftrightarrow>
     cm = em \<and> (cs = es \<or> ends_with es cs \<or> ends_with cs es)"
| "non_http_could_match (TargetContract (KGraphql co cf)) (KGraphql eo ef) \<longleftrightarrow> cf = ef"
| "non_http_could_match (TargetContract (KTable c)) (KTable e) \<longleftrightarrow> True"
| "non_http_could_match (UrlExpr s) k \<longleftrightarrow> True"
| "non_http_could_match _ _ \<longleftrightarrow> False"

definition target_service_ok :: "surface_resolution \<Rightarrow> string \<Rightarrow> bool" where
  "target_service_ok r svc \<longleftrightarrow>
     (case r of
        SurfaceBinds es prov \<Rightarrow> (case es of e # _ \<Rightarrow> fst e = svc | [] \<Rightarrow> False)
      | SurfaceUnresolved reason target \<Rightarrow> (case target of Some s \<Rightarrow> s = svc | None \<Rightarrow> True)
      | SurfaceExternal host \<Rightarrow> False)"

fun web_axis :: "consumer_target_key \<Rightarrow> (method_spec \<times> string option) option" where
  "web_axis (TargetContract (KHttp m t)) = Some (m, Some t)"
| "web_axis (TargetContract (KWebSocket r)) = Some (Known Any, Some r)"
| "web_axis (UrlExpr s) = Some (Unknown, None)"
| "web_axis _ = None"

fun web_method :: "contract_key \<Rightarrow> method_spec option" where
  "web_method (KHttp m t) = Some m"
| "web_method (KWebSocket r) = Some (Known Any)"
| "web_method _ = None"

definition method_could_match :: "method_spec \<Rightarrow> method_spec \<Rightarrow> bool" where
  "method_could_match c e \<longleftrightarrow> (case (c, e) of (Known cm, Known em) \<Rightarrow> cm = em \<or> em = Any | _ \<Rightarrow> True)"

definition could_match :: "consumer_key \<Rightarrow> endpoint_id \<Rightarrow> contract_surface \<Rightarrow> bool" where
  "could_match k e head \<longleftrightarrow>
     (case bt_get (su_consumers head) k of
        None \<Rightarrow> False
      | Some c \<Rightarrow>
          target_service_ok (cd_resolution c) (fst e)
          \<and> (case (web_axis (ck_target k), web_method (snd e)) of
               (Some (cm, ct), Some em) \<Rightarrow>
                 method_could_match cm em
                 \<and> (case (ct, snd e) of (Some t, KHttp m et) \<Rightarrow> template_matches t et | _ \<Rightarrow> True)
             | _ \<Rightarrow> non_http_could_match (ck_target k) (snd e)))"

text \<open>The code ends with a look for the consumer's name among the endpoint's operation ids; both outcomes return true.\<close>

section \<open>The verdict on a change\<close>

definition scope_repo_names :: "coverage_report \<Rightarrow> string list" where
  "scope_repo_names cov =
     remdups_adj (sort (map rr_repo (sc_reviewed (cv_scope cov)) @ map un_repo (sc_unreviewed (cv_scope cov))))"

definition incomplete_repos :: "string \<Rightarrow> coverage_report \<Rightarrow> string list" where
  "incomplete_repos version cov =
     (let in_scope = scope_repo_names cov in
      if in_scope = [] \<or> cv_repo_coverages cov = [] then [''<uncovered_scope>'']
      else filter (\<lambda>r. case bt_get (cv_repo_coverages cov) r of
                         None \<Rightarrow> True
                       | Some c \<Rightarrow> \<not> is_complete c consumer_capable_langs version) in_scope)"

definition incomplete_entry :: "contract_change \<Rightarrow> string list \<Rightarrow> affected_consumer" where
  "incomplete_entry c repos =
     \<lparr>af_service = cc_service c,
      af_consumer = ConsumerKey
        \<lparr>sk_repo = RepoId ''coverage'', sk_path = ''<coverage>'', sk_container = None, sk_name = ''<incomplete_repo>''\<rparr>
        (UrlExpr (''incomplete:'' @ join '','' repos)),
      af_class = NeedsInvestigation, af_reason = UnresolvedCandidates\<rparr>"

definition base_consumers :: "contract_change \<Rightarrow> contract_surface \<Rightarrow> (consumer_key \<times> consumer_def) list" where
  "base_consumers c base =
     filter (\<lambda>(k, d). case cd_resolution d of
         SurfaceBinds es prov \<Rightarrow> list_ex (\<lambda>t. t \<in> set es) (base_target_keys c)
       | _ \<Rightarrow> False) (su_consumers base)"

definition consumer_verdict ::
    "contract_change \<Rightarrow> contract_surface \<Rightarrow> consumer_key \<times> consumer_def \<Rightarrow> impact_class \<times> impact_reason" where
  "consumer_verdict c head entry =
     (let now = (case bt_get (su_consumers head) (fst entry) of Some d \<Rightarrow> d | None \<Rightarrow> snd entry) in
      per_consumer_verdict (change_compat c) c (reads_field_for c now (snd entry)) (cd_reads_complete now) now)"

record verdict_state =
  vs_class :: impact_class
  vs_reason :: "impact_reason option"
  vs_any :: bool
  vs_affected :: "affected_consumer list"

definition verdict_step ::
    "contract_change \<Rightarrow> contract_surface \<Rightarrow> consumer_key \<times> consumer_def \<Rightarrow> verdict_state \<Rightarrow> verdict_state" where
  "verdict_step c head entry st =
     (case consumer_verdict c head entry of (cls, reason) \<Rightarrow>
        if cls = NoKnownImpact then st
        else \<lparr>vs_class = (if vs_class st \<le> cls then cls else vs_class st),
              vs_reason = (if vs_class st \<le> cls then Some reason else vs_reason st),
              vs_any = True,
              vs_affected = vs_affected st @
                [\<lparr>af_service = consumer_service (fst entry), af_consumer = fst entry, af_class = cls, af_reason = reason\<rparr>]\<rparr>)"

text \<open>What is said when no bound consumer is affected: the class, the reason, the leads and the count of compatible changes.\<close>

definition unaffected_verdict ::
    "contract_change \<Rightarrow> contract_surface \<Rightarrow> coverage_report
     \<Rightarrow> impact_class \<times> impact_reason option \<times> affected_consumer list \<times> nat" where
  "unaffected_verdict c head cov =
     (let how = change_compat c in
      case provider_target_endpoint c of
        Some target \<Rightarrow>
          (let candidates = filter (\<lambda>u. could_match u target head) (cv_unresolved_consumers cov) in
           if candidates \<noteq> [] \<and> \<not> is_schema_compatible_change (cc_kind c) how
           then (NeedsInvestigation, Some UnresolvedCandidates,
                 map (\<lambda>k. \<lparr>af_service = consumer_service k, af_consumer = k, af_class = NeedsInvestigation,
                            af_reason = UnresolvedCandidates\<rparr>) candidates, 0)
           else if how = Compatible then (NoKnownImpact, None, [], 1)
           else if how = BreakingIfSent then (NeedsInvestigation, Some SendsNotModeled, [], 0)
           else (case cc_kind c of
                   ChangedWithoutSchema e \<Rightarrow> (NeedsInvestigation, Some NoSchema, [], 0)
                 | HandlerChanged e \<Rightarrow> (NeedsInvestigation, Some ReviewNeeded, [], 0)
                 | _ \<Rightarrow> (NoKnownImpact, None, [], 0)))
      | None \<Rightarrow>
          if how = Compatible then (NoKnownImpact, None, [], 1)
          else if how = BreakingIfSent then (NeedsInvestigation, Some SendsNotModeled, [], 0)
          else (NoKnownImpact, None, [], 0))"

fun changed_consumer :: "change_kind \<Rightarrow> consumer_key option" where
  "changed_consumer (ConsumerEndpointUnmatched k) = Some k"
| "changed_consumer (ConsumerFieldUnmatched k p) = Some k"
| "changed_consumer (ConsumerRebound k a b) = Some k"
| "changed_consumer _ = None"

definition finalize_impact ::
    "contract_change \<Rightarrow> impact_class \<Rightarrow> impact_reason option \<Rightarrow> affected_consumer list \<Rightarrow> coverage_report \<Rightarrow> nat \<Rightarrow> impact" where
  "finalize_impact c cls reason affected cov n =
     \<lparr>im_service = cc_service c, im_kind = cc_kind c, im_class = cls, im_reason = reason, im_affected = affected,
      im_scope = cv_scope cov, im_coverage = cov, im_compatible_changes = n\<rparr>"

definition evaluate ::
    "string \<Rightarrow> contract_change \<Rightarrow> contract_surface \<Rightarrow> contract_surface \<Rightarrow> coverage_report \<Rightarrow> impact" where
  "evaluate version c base head cov =
     (case changed_consumer (cc_kind c) of
        Some k \<Rightarrow>
          (let affected = [\<lparr>af_service = consumer_service k, af_consumer = k,
                            af_class = consumer_side_class (bt_get (su_consumers head) k) cov,
                            af_reason = HeuristicBinding\<rparr>] in
           finalize_impact c (strongest_class affected) (Some HeuristicBinding) affected cov 0)
      | None \<Rightarrow>
          (let st = fold (verdict_step c head) (base_consumers c base)
                      \<lparr>vs_class = NoKnownImpact, vs_reason = None, vs_any = False, vs_affected = []\<rparr> in
           case (if vs_any st then (vs_class st, vs_reason st, vs_affected st, 0) else unaffected_verdict c head cov) of
             (cls, reason, affected, n) \<Rightarrow>
               if cls = NoKnownImpact \<and> \<not> is_schema_compatible_change (cc_kind c) (change_compat c)
                  \<and> incomplete_repos version cov \<noteq> []
               then finalize_impact c NeedsInvestigation (Some UnresolvedCandidates)
                      (affected @ [incomplete_entry c (incomplete_repos version cov)]) cov n
               else finalize_impact c cls reason affected cov n))"

section \<open>Building the coverage\<close>

definition add_ref :: "repo_summary \<Rightarrow> unresolved_record \<Rightarrow> (string, external_ref) btree \<Rightarrow> (string, external_ref) btree" where
  "add_ref r u m =
     (if ur_reason u \<noteq> ExternalSchemaRef then m
      else case ur_sample_ids u of
             [] \<Rightarrow> m
           | url # _ \<Rightarrow>
               bt_update url
                 (\<lambda>old. let e = (case old of Some e \<Rightarrow> e
                                 | None \<Rightarrow> \<lparr>uf_repo = rs_repo r, uf_url = url, uf_count = 0, uf_sample_paths = []\<rparr>) in
                        e\<lparr>uf_count := uf_count e + ur_count u\<rparr>) m)"

definition aggregate_unresolved_refs :: "repo_summary list \<Rightarrow> external_ref list" where
  "aggregate_unresolved_refs repos = bt_vals (fold (\<lambda>r m. fold (add_ref r) (rs_unresolved r) m) repos [])"

definition build_coverage :: "contract_index \<Rightarrow> repo_summary list \<Rightarrow> impact_scope \<Rightarrow> coverage_report" where
  "build_coverage ix repos scope =
     (let rs = consumer_resolutions ix in
      \<lparr>cv_repos = repos,
       cv_unresolved_consumers = map (\<lambda>(i, r). consumer_key_of i r)
         (filter (\<lambda>(i, r). case cr_target r of Some (Unresolved reason svc) \<Rightarrow> True | _ \<Rightarrow> False) rs),
       cv_ambiguous = map (\<lambda>(i, r). consumer_key_of i r) (filter (\<lambda>(i, r). 1 < length (cr_bound_endpoints r)) rs),
       cv_unnormalized = concat (map (\<lambda>i. map (consumer_key_of i)
         (case bt_get (ix_consumers ix) i of Some l \<Rightarrow> l | None \<Rightarrow> [])) (ix_unnormalized ix)),
       cv_external = sort_key fst (ix_external ix),
       cv_stale_bindings = length (ix_stale_bindings ix),
       cv_schemaless_endpoints = map fst
         (filter (\<lambda>(i, e). en_schemas e = [] \<or> list_all (\<lambda>s. sm_fields s = []) (bt_vals (en_schemas e))) (ix_endpoints ix)),
       cv_scope = scope, cv_complete = (sc_unreviewed scope = []),
       cv_unresolved_refs = aggregate_unresolved_refs repos, cv_repo_coverages = []\<rparr>)"

definition coverage_complete :: "string \<Rightarrow> coverage_report \<Rightarrow> endpoint_id option \<Rightarrow> contract_index \<Rightarrow> bool" where
  "coverage_complete version cov endpoint ix \<longleftrightarrow>
     sc_unreviewed (cv_scope cov) = []
     \<and> (cv_repo_coverages cov \<noteq> [] \<longrightarrow>
          list_all (\<lambda>r. case bt_get (cv_repo_coverages cov) (rr_repo r) of
              None \<Rightarrow> False
            | Some c \<Rightarrow> is_complete c consumer_capable_langs version) (sc_reviewed (cv_scope cov)))
     \<and> (case endpoint of
          Some target \<Rightarrow> \<not> list_ex (\<lambda>u. could_match u target (surface_of ix)) (cv_unresolved_consumers cov)
        | None \<Rightarrow> True)"

end
