(* ===== verification/Impact_Props.thy ===== *)
theory Impact_Props
  imports Impact Route_Props
begin

text \<open>
  What a verdict promises: when a change is said to have no known impact, when its impact is said
  to be verified, and that a route the join would match is never ruled out.
\<close>

section \<open>The verdicts on the bound consumers\<close>

lemma class_least [simp]: "NoKnownImpact \<le> x" "x \<le> Verified" "x \<le> NoKnownImpact \<longleftrightarrow> x = NoKnownImpact" "Verified \<le> x \<longleftrightarrow> x = Verified"
  by (cases x; simp add: less_eq_impact_class_def)+

definition any_tracked :: "verdict_state \<Rightarrow> bool" where
  "any_tracked st \<longleftrightarrow> (vs_any st \<longleftrightarrow> vs_class st \<noteq> NoKnownImpact)"

lemma verdict_step_class:
  "vs_class (verdict_step c head e st) =
     (if vs_class st \<le> fst (consumer_verdict c head e) then fst (consumer_verdict c head e) else vs_class st)"
  by (cases "vs_class st") (auto simp: verdict_step_def split: prod.split)

lemma verdict_step_any: "any_tracked st \<Longrightarrow> any_tracked (verdict_step c head e st)"
  by (auto simp: verdict_step_def any_tracked_def split: prod.split if_splits)

lemma verdict_fold_any: "any_tracked st \<Longrightarrow> any_tracked (fold (verdict_step c head) es st)"
  by (induction es arbitrary: st) (simp_all add: verdict_step_any)

lemma verdict_step_none:
  "vs_class (verdict_step c head e st) = NoKnownImpact \<longleftrightarrow>
     vs_class st = NoKnownImpact \<and> fst (consumer_verdict c head e) = NoKnownImpact"
  unfolding verdict_step_class by (cases "vs_class st"; cases "fst (consumer_verdict c head e)") simp_all

lemma verdict_step_verified:
  "vs_class (verdict_step c head e st) = Verified \<longleftrightarrow>
     vs_class st = Verified \<or> fst (consumer_verdict c head e) = Verified"
  unfolding verdict_step_class
  by (cases "vs_class st"; cases "fst (consumer_verdict c head e)") (simp_all add: less_eq_impact_class_def)

lemma verdict_fold_none:
  "vs_class (fold (verdict_step c head) es st) = NoKnownImpact \<longleftrightarrow>
     vs_class st = NoKnownImpact \<and> list_all (\<lambda>e. fst (consumer_verdict c head e) = NoKnownImpact) es"
  by (induction es arbitrary: st) (simp_all add: verdict_step_none conj_assoc)

lemma verdict_fold_verified:
  "vs_class (fold (verdict_step c head) es st) = Verified \<longleftrightarrow>
     vs_class st = Verified \<or> list_ex (\<lambda>e. fst (consumer_verdict c head e) = Verified) es"
  by (induction es arbitrary: st) (simp_all add: verdict_step_verified disj_assoc)

abbreviation verdict_start :: verdict_state where
  "verdict_start \<equiv> \<lparr>vs_class = NoKnownImpact, vs_reason = None, vs_any = False, vs_affected = []\<rparr>"

lemma verdict_any:
  "vs_any (fold (verdict_step c head) es verdict_start) \<longleftrightarrow>
     \<not> list_all (\<lambda>e. fst (consumer_verdict c head e) = NoKnownImpact) es"
  using verdict_fold_any [of verdict_start c head es] verdict_fold_none [of c head es verdict_start]
  by (simp add: any_tracked_def)

section \<open>The class of an impact\<close>

lemma provider_or_consumer: "provider_target_endpoint c = None \<longleftrightarrow> changed_consumer (cc_kind c) \<noteq> None"
  by (cases "cc_kind c") (simp_all add: provider_target_endpoint_def)

lemma consumer_side_never_none: "consumer_side_class d cov \<noteq> NoKnownImpact"
  by (auto simp: consumer_side_class_def split: option.split surface_resolution.split list.split)

lemma finalize_simps [simp]:
  "im_class (finalize_impact c cls reason affected cov n) = cls"
  "im_affected (finalize_impact c cls reason affected cov n) = affected"
  by (simp_all add: finalize_impact_def)

lemma consumer_side_impact:
  "changed_consumer (cc_kind c) = Some k \<Longrightarrow>
   im_class (evaluate version c base head cov) = consumer_side_class (bt_get (su_consumers head) k) cov"
  by (simp add: evaluate_def Let_def strongest_class_def) (use class_least in \<open>fastforce simp: not_less\<close>)

definition bound_unaffected :: "contract_change \<Rightarrow> contract_surface \<Rightarrow> contract_surface \<Rightarrow> bool" where
  "bound_unaffected c base head \<longleftrightarrow>
     list_all (\<lambda>e. fst (consumer_verdict c head e) = NoKnownImpact) (base_consumers c base)"

lemma provider_side_class:
  assumes "changed_consumer (cc_kind c) = None"
  shows "im_class (evaluate version c base head cov) =
    (if bound_unaffected c base head then
       (if fst (unaffected_verdict c head cov) = NoKnownImpact
           \<and> \<not> is_schema_compatible_change (cc_kind c) (change_compat c) \<and> incomplete_repos version cov \<noteq> []
        then NeedsInvestigation else fst (unaffected_verdict c head cov))
     else vs_class (fold (verdict_step c head) (base_consumers c base) verdict_start))"
proof -
  let ?st = "fold (verdict_step c head) (base_consumers c base) verdict_start"
  have any: "vs_any ?st \<longleftrightarrow> \<not> bound_unaffected c base head" by (simp add: verdict_any bound_unaffected_def)
  have cls: "vs_class ?st = NoKnownImpact \<longleftrightarrow> bound_unaffected c base head"
    by (simp add: verdict_fold_none bound_unaffected_def)
  obtain cls reason affected n where u: "unaffected_verdict c head cov = (cls, reason, affected, n)"
    by (cases "unaffected_verdict c head cov")
  show ?thesis
    using any cls by (simp add: evaluate_def assms u Let_def)
qed

text \<open>Some changes are a lead even when nobody is known to be affected.\<close>

fun always_a_lead :: "change_kind \<Rightarrow> compat \<Rightarrow> bool" where
  "always_a_lead (ChangedWithoutSchema e) how \<longleftrightarrow> True"
| "always_a_lead (HandlerChanged e) how \<longleftrightarrow> True"
| "always_a_lead k how \<longleftrightarrow> how = BreakingIfSent"

lemma incomplete_repos_none:
  "incomplete_repos version cov = [] \<longleftrightarrow>
     scope_repo_names cov \<noteq> [] \<and> scope_is_complete (cv_repo_coverages cov) (scope_repo_names cov) version"
proof (cases "cv_repo_coverages cov = []")
  case True
  then show ?thesis
    by (cases "scope_repo_names cov") (simp_all add: incomplete_repos_def Let_def scope_is_complete_def bt_get_def)
next
  case False
  then show ?thesis
    by (auto simp: incomplete_repos_def Let_def scope_is_complete_def list_all_iff filter_empty_conv split: option.splits)
qed

lemma unaffected_none:
  assumes "provider_target_endpoint c = Some target"
  shows "fst (unaffected_verdict c head cov) = NoKnownImpact \<longleftrightarrow>
    is_schema_compatible_change (cc_kind c) (change_compat c)
    \<or> list_all (\<lambda>u. \<not> could_match u target head) (cv_unresolved_consumers cov)
      \<and> \<not> always_a_lead (cc_kind c) (change_compat c)"
proof -
  have "filter (\<lambda>u. could_match u target head) (cv_unresolved_consumers cov) = []
      \<longleftrightarrow> list_all (\<lambda>u. \<not> could_match u target head) (cv_unresolved_consumers cov)"
    by (simp add: filter_empty_conv list_all_iff)
  then show ?thesis
    using assms unfolding unaffected_verdict_def Let_def
    by (cases "cc_kind c")
       (simp_all add: is_schema_compatible_change_def change_compat_def split: if_splits)
qed

lemma unaffected_not_verified: "fst (unaffected_verdict c head cov) \<noteq> Verified"
  by (auto simp: unaffected_verdict_def Let_def split: option.split change_kind.split)

lemma no_known_impact_iff:
  "im_class (evaluate version c base head cov) = NoKnownImpact \<longleftrightarrow>
     (case provider_target_endpoint c of
        None \<Rightarrow> False
      | Some target \<Rightarrow>
          list_all (\<lambda>e. fst (consumer_verdict c head e) = NoKnownImpact) (base_consumers c base)
          \<and> (is_schema_compatible_change (cc_kind c) (change_compat c)
             \<or> always_a_lead (cc_kind c) (change_compat c) = False
               \<and> list_all (\<lambda>u. \<not> could_match u target head) (cv_unresolved_consumers cov)
               \<and> scope_repo_names cov \<noteq> []
               \<and> scope_is_complete (cv_repo_coverages cov) (scope_repo_names cov) version))"
proof (cases "provider_target_endpoint c")
  case None
  then obtain k where "changed_consumer (cc_kind c) = Some k" using provider_or_consumer by auto
  then show ?thesis using None by (simp add: consumer_side_impact consumer_side_never_none)
next
  case (Some target)
  then have none: "changed_consumer (cc_kind c) = None" using provider_or_consumer [of c] by (metis option.distinct(1))
  have "vs_class (fold (verdict_step c head) (base_consumers c base) verdict_start) = NoKnownImpact \<longleftrightarrow> bound_unaffected c base head"
    by (simp add: verdict_fold_none bound_unaffected_def)
  then show ?thesis
    unfolding provider_side_class [OF none] bound_unaffected_def
    using unaffected_none [OF Some, of head cov] incomplete_repos_none [of version cov]
    by (simp add: Some split: if_splits) blast
qed

text \<open>
  C26: A change is said to have no known impact exactly when it is a change of an endpoint, every
  consumer bound to the endpoint before is judged unaffected, and either the change of schema is compatible
  in itself, or the change is not of a kind that is always a lead (a changed handler, a change
  without a schema, one that breaks whoever sends), no unresolved call could match the endpoint, and every repository in
  a non-empty scope has a complete ledger written by this version of the analyser. A change of a consumer, its
  rebinding included, never is.
\<close>

theorem no_known_impact_is_earned:
  "im_class (evaluate version c base head cov) = NoKnownImpact \<longleftrightarrow>
     (case provider_target_endpoint c of
        None \<Rightarrow> False
      | Some target \<Rightarrow>
          list_all (\<lambda>e. fst (consumer_verdict c head e) = NoKnownImpact) (base_consumers c base)
          \<and> (is_schema_compatible_change (cc_kind c) (change_compat c)
             \<or> always_a_lead (cc_kind c) (change_compat c) = False
               \<and> list_all (\<lambda>u. \<not> could_match u target head) (cv_unresolved_consumers cov)
               \<and> scope_repo_names cov \<noteq> []
               \<and> scope_is_complete (cv_repo_coverages cov) (scope_repo_names cov) version))"
  by (rule no_known_impact_iff)

lemma verdict_verified:
  "fst (per_consumer_verdict how c reads traced d) = Verified \<longleftrightarrow>
     is_certain d \<and> (how = Breaking \<or> how = BreakingIfRead \<and> reads \<and> traced)"
  by (cases how) (auto simp: per_consumer_verdict_def Let_def split: change_kind.split)

text \<open>
  C27: The impact of a change is verified exactly in two cases. The change is one of an endpoint, and
  some consumer bound to the endpoint before the change is, as it is now, bound with certainty and the change breaks
  it outright, or breaks whoever reads the field and this consumer reads it with all its reads traced. Or the change is one of a
  consumer, broken or not: then the consumer is bound with certainty and the service of the first endpoint it
  is bound to has the name of a repository that was reviewed.
\<close>

theorem verified_impact_has_a_certain_consumer:
  "im_class (evaluate version c base head cov) = Verified \<longleftrightarrow>
     (case changed_consumer (cc_kind c) of
        Some k \<Rightarrow>
          (\<exists>d svc key es prov. bt_get (su_consumers head) k = Some d \<and> cd_resolution d = SurfaceBinds ((svc, key) # es) prov
             \<and> is_certain d \<and> list_ex (\<lambda>r. rr_repo r = svc) (sc_reviewed (cv_scope cov)))
      | None \<Rightarrow>
          list_ex (\<lambda>(k, d). let now = (case bt_get (su_consumers head) k of Some d' \<Rightarrow> d' | None \<Rightarrow> d) in
              is_certain now
              \<and> (change_compat c = Breaking
                 \<or> change_compat c = BreakingIfRead \<and> reads_field_for c now d \<and> cd_reads_complete now))
            (base_consumers c base))"
proof (cases "changed_consumer (cc_kind c)")
  case (Some k)
  then show ?thesis by (auto simp: consumer_side_impact consumer_side_class_def split: option.split surface_resolution.split list.split)
next
  case None
  have "(\<lambda>e. fst (consumer_verdict c head e) = Verified) =
      (\<lambda>(k, d). let now = (case bt_get (su_consumers head) k of Some d' \<Rightarrow> d' | None \<Rightarrow> d) in
          is_certain now \<and> (change_compat c = Breaking \<or> change_compat c = BreakingIfRead \<and> reads_field_for c now d \<and> cd_reads_complete now))"
    by (rule ext) (simp add: consumer_verdict_def verdict_verified Let_def split_beta)
  moreover have "bound_unaffected c base head \<Longrightarrow> \<not> list_ex (\<lambda>e. fst (consumer_verdict c head e) = Verified) (base_consumers c base)"
    by (auto simp: bound_unaffected_def list_all_iff list_ex_iff)
  ultimately show ?thesis
    unfolding provider_side_class [OF None]
    using unaffected_not_verified [of c head cov]
    by (simp add: None verdict_fold_verified)
qed

section \<open>Routes the join would match\<close>

text \<open>a consumer whose call the join would match to a route is never ruled out as a match of that route's
  endpoint: an unresolved consumer is only discounted where the matcher finds no way to join them.\<close>

lemma matching_route_is_never_ruled_out:
  assumes "bt_get (su_consumers head) (ConsumerKey caller (TargetContract (KHttp cm ct))) = Some d"
    and "target_service_ok (cd_resolution d) svc"
    and "is_match (match_route cm ct em et)"
  shows "could_match (ConsumerKey caller (TargetContract (KHttp cm ct))) (svc, KHttp (Known em) et) head"
proof -
  have m: "match_route cm ct em et \<noteq> NoMatch" using assms(3) by (simp add: is_match_iff)
  then have "match_route Unknown ct Any et \<noteq> NoMatch"
    unfolding match_route_matches by (simp add: method_confidence_def)
  then have t: "template_matches ct et" by (simp add: template_matches_def is_match_iff)
  have "method_confidence cm em \<noteq> None" using m unfolding match_route_matches by simp
  then have "method_could_match cm (Known em)"
    by (cases cm) (auto simp: method_could_match_def method_confidence_def split: if_splits)
  then show ?thesis using assms(1, 2) t by (simp add: could_match_def)
qed

lemma matching_route_is_never_ruled_out_witness:
  "could_match
     (ConsumerKey \<lparr>sk_repo = RepoId ''web'', sk_path = ''api.ts'', sk_container = None, sk_name = ''load''\<rparr>
       (TargetContract (KHttp Unknown ''/api/orders/{}'')))
     (''orders'', KHttp (Known Get) ''/orders/{}'')
     \<lparr>su_endpoints = [],
      su_consumers = [(ConsumerKey \<lparr>sk_repo = RepoId ''web'', sk_path = ''api.ts'', sk_container = None, sk_name = ''load''\<rparr>
          (TargetContract (KHttp Unknown ''/api/orders/{}'')),
        \<lparr>cd_call = ''1'', cd_resolution = SurfaceUnresolved NoRouteInService None, cd_reads = [], cd_reads_complete = True\<rparr>)]\<rparr>"
  by (rule matching_route_is_never_ruled_out) (simp add: bt_get_def, simp add: target_service_ok_def, code_simp)

text \<open>A call with any method is discounted for an endpoint with one, though a binding by hand would accept it.\<close>

lemma any_method_is_ruled_out:
  "could_match (ConsumerKey caller (TargetContract (KHttp (Known Any) ct))) (svc, KHttp (Known Get) et) head = False"
  by (simp add: could_match_def method_could_match_def split: option.split)

end
