(* ===== verification/Diff_Props.thy ===== *)
theory Diff_Props
  imports Impact_Props "HOL-Library.Multiset"
begin

text \<open>
  What the comparison of two surfaces guarantees: every endpoint is accounted for once, two states
  that agree give no change and no change is missed between two schemas that differ.
\<close>

section \<open>Surfaces are ordered maps\<close>

lemma surface_ok: "bt_ok (su_endpoints (surface_of ix))" "bt_ok (su_consumers (surface_of ix))"
  unfolding surface_of_def Let_def by (simp_all add: bt_ok_inserts)

section \<open>Pairing\<close>

lemma mset_filter_out:
  "distinct xs \<Longrightarrow> x \<in> set xs \<Longrightarrow> add_mset x (filter_mset (\<lambda>i. i \<noteq> x) (mset xs) + M) = mset xs + M"
  by (rule multiset_eqI) (auto simp: distinct_count_atmost_1)

lemma find_holds: "find P xs = Some x \<Longrightarrow> P x \<and> x \<in> set xs"
  by (auto simp: find_Some_iff)

definition pairing_ok :: "endpoint_id list \<Rightarrow> endpoint_id list \<Rightarrow> pairing_state \<Rightarrow> bool" where
  "pairing_ok bs hs st \<longleftrightarrow>
     distinct (ps_base st) \<and> distinct (ps_head st)
     \<and> mset (ps_base st @ map fst (ps_pairs st)) = mset bs
     \<and> mset (ps_head st @ map snd (ps_pairs st)) = mset hs
     \<and> list_all (\<lambda>(b, h). fst h = fst b) (ps_pairs st)"

lemma partner_remaining:
  "partner head remaining entry = Some h \<Longrightarrow> h \<in> set remaining \<and> fst h = fst (fst entry)"
  by (cases entry) (auto simp: partner_def dest!: find_holds split: if_splits)

lemma pair_step_ok: "pairing_ok bs hs st \<Longrightarrow> pairing_ok bs hs (pair_step head entry st)"
  using partner_remaining [of head "ps_head st" entry]
  by (auto simp: pairing_ok_def pair_step_def mset_filter_out list_all_iff split: option.split)

lemma pair_fold_ok: "pairing_ok bs hs st \<Longrightarrow> pairing_ok bs hs (fold (pair_step head) es st)"
  by (induction es arbitrary: st) (simp_all add: pair_step_ok)

text \<open>C28: the pairing of two surfaces accounts for every endpoint once: each endpoint of the base is either paired
  with one endpoint of the head or reported removed, each of the head is either paired with one of the base or
  reported added, and a pair never crosses a service.\<close>

lemma every_endpoint_is_accounted_once:
  "let base = surface_of b; head = surface_of h; st = pair_endpoints base head in
     mset (ps_base st @ map fst (ps_pairs st)) = mset (bt_keys (su_endpoints base))
     \<and> mset (ps_head st @ map snd (ps_pairs st)) = mset (bt_keys (su_endpoints head))
     \<and> distinct (bt_keys (su_endpoints base)) \<and> distinct (bt_keys (su_endpoints head))
     \<and> list_all (\<lambda>(i, j). fst j = fst i) (ps_pairs st)"
proof -
  have start: "pairing_ok bs hs \<lparr>ps_base = bs, ps_head = hs, ps_pairs = []\<rparr>" if "distinct bs" "distinct hs" for bs hs
    using that by (simp add: pairing_ok_def)
  show ?thesis
    using pair_fold_ok [OF start [OF bt_ok_distinct [OF surface_ok(1) [of b]] bt_ok_distinct [OF surface_ok(1) [of h]]],
        of "surface_of h" "su_endpoints (surface_of b)"] bt_ok_distinct [OF surface_ok(1)]
    unfolding Let_def pair_endpoints_def pairing_ok_def by blast
qed

section \<open>Fields\<close>

text \<open>Two descriptions of a field agree up to the order and repetition of its values.\<close>

definition same_meta :: "field_meta \<Rightarrow> field_meta \<Rightarrow> bool" where
  "same_meta a b \<longleftrightarrow>
     fm_ty a = fm_ty b \<and> fm_required a = fm_required b \<and> fm_nullable a = fm_nullable b
     \<and> map_option set (fm_enum_values a) = map_option set (fm_enum_values b)"

definition same_schema :: "fields_map \<Rightarrow> fields_map \<Rightarrow> bool" where
  "same_schema m n \<longleftrightarrow> (\<forall>p. rel_option same_meta (bt_get m p) (bt_get n p))"

lemma enum_only_in_none: "enum_only_in xs ys = [] \<longleftrightarrow> set xs \<subseteq> set ys"
  by (auto simp: enum_only_in_def filter_empty_conv)

lemma attribute_changes_none: "attribute_changes e d p a b = [] \<longleftrightarrow> same_meta a b"
  by (auto simp: attribute_changes_def same_meta_def enum_only_in_none split: option.splits)

lemma only_in_none:
  "only_in m n = [] \<longleftrightarrow> set (bt_keys m) \<subseteq> set (bt_keys n)"
proof
  assume "set (bt_keys m) \<subseteq> set (bt_keys n)"
  then show "only_in m n = []" by (auto simp: only_in_def filter_empty_conv bt_has_def bt_keys_iff)
next
  assume none: "only_in m n = []"
  have "p \<in> set (bt_keys m) \<Longrightarrow> p \<in> set (bt_keys n)" for p
  proof (induction "length p" arbitrary: p rule: less_induct)
    case less
    show ?case
    proof (rule ccontr)
      assume missing: "p \<notin> set (bt_keys n)"
      have "\<forall>q\<in>set (bt_keys m). bt_has n q \<or> has_ancestor_only_in q m n"
        using none by (simp add: only_in_def filter_empty_conv)
      with missing less.prems have "has_ancestor_only_in p m n" by (metis bt_has_def bt_keys_iff)
      then obtain i where i: "1 \<le> i" "i < length p" "bt_has m (take i p)" "\<not> bt_has n (take i p)"
        by (auto simp: has_ancestor_only_in_def list_ex_iff)
      then show False using less.hyps [of "take i p"] by (auto simp: bt_has_def bt_keys_iff)
    qed
  qed
  then show "set (bt_keys m) \<subseteq> set (bt_keys n)" by blast
qed

lemma bs_insert_nonempty [simp]: "bs_insert x s \<noteq> []"
  using bt_keys_insert [of x "()" s] by (auto simp: bs_insert_def bt_keys_def)

lemma rename_fold_empty:
  "fold (rename_step base head added) rs st = ([], []) \<Longrightarrow> st = ([], [])"
proof (induction rs arbitrary: st)
  case (Cons r rs)
  then have "rename_step base head added r st = ([], [])" by simp
  then show ?case by (auto simp: rename_step_def split: prod.splits if_splits option.splits)
qed simp

lemma rename_sizes:
  assumes "bt_ok from" "bt_ok to" "length from = length to"
  shows "case fold (rename_step base head added) rs (from, to) of (f, t) \<Rightarrow> bt_ok f \<and> bt_ok t \<and> length f = length t"
proof -
  have size: "length (bs_insert x s) = Suc (length s)" if "bt_ok s" "\<not> bt_has s x" for x :: json_path and s
  proof -
    have "length (bt_keys (bs_insert x s)) = card (insert x (set (bt_keys s)))"
      using that bt_ok_distinct [OF bt_ok_insert [OF that(1)], of x "()"]
      by (metis bs_insert_def bt_keys_insert distinct_card)
    then show ?thesis using that bt_ok_distinct [OF that(1)]
      by (simp add: bt_keys_iff bt_has_def distinct_card) (simp add: bt_keys_def)
  qed
  show ?thesis
    using assms
  proof (induction rs arbitrary: "from" to)
    case (Cons r rs)
    show ?case
    proof (cases "bt_has from r \<or> find (renames_to base head to r) added = None")
      case True
      then show ?thesis using Cons.IH [OF Cons.prems] by (auto simp: rename_step_def)
    next
      case False
      then obtain a where a: "find (renames_to base head to r) added = Some a" by blast
      then have "renames_to base head to r a" by (auto simp: find_Some_iff)
      then have "\<not> bt_has to a" by (auto simp: renames_to_def split: option.splits)
      then have "length (bs_insert r from) = length (bs_insert a to)" using size Cons.prems False by simp
      then show ?thesis
        using Cons.IH [of "bs_insert r from" "bs_insert a to"] Cons.prems False a
        by (simp add: rename_step_def bs_insert_def)
    qed
  qed simp
qed

lemma common_changes_none:
  assumes "bt_ok m"
  shows "common_changes e d m n = [] \<longleftrightarrow>
    (\<forall>p a b. bt_get m p = Some a \<longrightarrow> bt_get n p = Some b \<longrightarrow> same_meta a b)"
proof -
  have "common_changes e d m n = [] \<longleftrightarrow>
      (\<forall>p a. (p, a) \<in> set m \<longrightarrow> (case bt_get n p of None \<Rightarrow> True | Some b \<Rightarrow> same_meta a b))"
    unfolding common_changes_def concat_eq_Nil_conv set_map ball_simps Ball_def split_paired_All
    by (auto simp: attribute_changes_none split: option.splits)
  then show ?thesis by (auto simp: bt_mem [OF assms] split: option.splits)
qed

lemma diff_fields_none:
  assumes "bt_ok m" "bt_ok n"
  shows "diff_fields e d (Some m) (Some n) [] = [] \<longleftrightarrow> same_schema m n"
proof -
  obtain from' to' where rn: "find_renames m n = (from', to')" by (cases "find_renames m n")
  have len: "length from' = length to'"
    using rename_sizes [of "[]" "[]" m n "only_in n m" "only_in m n"] rn by (simp add: find_renames_def)
  have idle: "only_in m n = [] \<Longrightarrow> from' = [] \<and> to' = []"
    using rn by (simp add: find_renames_def)
  have no_rename: "filter (\<lambda>c. \<not> is_renamed e d [] [] c) xs = xs" for xs
    by (auto simp: is_renamed_def bt_has_def filter_id_conv split: change_kind.split)
  have "diff_fields e d (Some m) (Some n) [] = [] \<longleftrightarrow>
      only_in m n = [] \<and> only_in n m = [] \<and> common_changes e d m n = []"
  proof (cases "from' = []")
    case True
    then have "to' = []" using len by simp
    with True show ?thesis
      by (simp add: diff_fields_def or_empty_def rn Let_def no_rename bt_keys_def)
  next
    case False
    then have to: "to' \<noteq> []" using len by auto
    with False have "zip (bt_keys from') (bt_keys to') \<noteq> []" by (simp add: bt_keys_def)
    moreover note to
    ultimately show ?thesis using False idle
      by (auto simp: diff_fields_def or_empty_def rn Let_def simp del: zip_eq_Nil_iff)
  qed
  also have "\<dots> \<longleftrightarrow> same_schema m n"
    unfolding only_in_none common_changes_none [OF assms(1)] same_schema_def
    by (auto simp: bt_keys_iff option.rel_sel subset_iff) (metis option.exhaust_sel option.sel)+
  finally show ?thesis .
qed

lemma field_map_ok [simp]: "bt_ok (field_map fs)"
  unfolding field_map_def by (rule bt_ok_inserts) simp

text \<open>C29: the comparison of two schemas reports nothing exactly when they declare the same paths with the same
  type, requiredness and nullability and the same set of enumerated values: no difference is missed and
  none is made up.\<close>

lemma schema_diff_is_exact:
  "diff_fields e d (Some (field_map fs)) (Some (field_map gs)) [] = [] \<longleftrightarrow> same_schema (field_map fs) (field_map gs)"
  by (rule diff_fields_none) simp_all

text \<open>Two renames at once: the integer \<^verbatim>\<open>a\<close> becomes \<^verbatim>\<open>y\<close> and the string \<^verbatim>\<open>b\<close> becomes \<^verbatim>\<open>x\<close>, but the integer
  is reported as renamed to \<^verbatim>\<open>x\<close>.\<close>

lemma renames_mispaired:
  "let field = (\<lambda>t. \<lparr>fm_ty = t, fm_required = False, fm_nullable = False, fm_enum_values = None\<rparr>);
       e = (''s'', KHttp (Known Get) ''/o'') in
   map cc_kind (diff_fields e Response
     (Some [([Name ''a''], field TInteger), ([Name ''b''], field TString)])
     (Some [([Name ''x''], field TString), ([Name ''y''], field TInteger)]) [])
   = [FieldRenamed e Response [Name ''a''] [Name ''x''] False, FieldRenamed e Response [Name ''b''] [Name ''y''] False]"
  by code_simp

section \<open>Adding optional fields\<close>

definition adds_only_optional :: "fields_map \<Rightarrow> fields_map \<Rightarrow> bool" where
  "adds_only_optional m n \<longleftrightarrow>
     list_all (\<lambda>(p, a). case bt_get n p of Some b \<Rightarrow> same_meta a b | None \<Rightarrow> False) m
     \<and> list_all (\<lambda>(p, b). bt_has m p \<or> \<not> fm_required b) n"

lemma additive_changes:
  assumes "bt_ok m" "bt_ok n" "adds_only_optional m n" "c \<in> set (diff_fields e d (Some m) (Some n) [])"
  shows "\<exists>p. cc_kind c = FieldAdded e d p False"
proof -
  have kept: "\<exists>b. bt_get n p = Some b \<and> same_meta a b" if "bt_get m p = Some a" for p a
    using assms(3) that unfolding adds_only_optional_def list_all_iff
    by (auto simp: bt_mem [OF assms(1), symmetric] split: option.splits)
  have "p \<in> set (bt_keys m) \<Longrightarrow> p \<in> set (bt_keys n)" for p using kept [of p] by (auto simp: bt_keys_iff)
  then have none: "only_in m n = []" by (auto simp: only_in_none)
  have "common_changes e d m n = []" using kept by (force simp: common_changes_none [OF assms(1)])
  moreover have "find_renames m n = ([], [])" by (simp add: find_renames_def none)
  ultimately obtain p where p: "p \<in> set (only_in n m)" "cc_kind c = FieldAdded e d p (field_required n p)"
    using assms(4) none by (auto simp: diff_fields_def or_empty_def Let_def change_def bt_keys_def)
  then obtain b where b: "bt_get n p = Some b" "\<not> bt_has m p" by (auto simp: only_in_def bt_keys_iff)
  then have "\<not> fm_required b"
    using assms(3) bt_mem [OF assms(2), of p b] unfolding adds_only_optional_def list_all_iff by auto
  then have "\<not> field_required n p" by (simp add: field_required_def b(1))
  with p show ?thesis by simp
qed

lemma optional_addition_harmless:
  assumes "cc_kind c = FieldAdded e d p False"
  shows "im_class (evaluate version c base head cov) = NoKnownImpact"
proof -
  have compat: "change_compat c = Compatible" by (simp add: change_compat_def assms)
  then have "fst (consumer_verdict c head entry) = NoKnownImpact" for entry
    by (simp add: consumer_verdict_def per_consumer_verdict_def Let_def)
  then show ?thesis
    by (simp add: no_known_impact_iff provider_target_endpoint_def is_schema_compatible_change_def assms compat list_all_iff)
qed

text \<open>when a schema keeps every field as it was and only adds optional ones, no change reported for it has a known
  impact, in whichever direction, whoever consumes the endpoint and whatever the analysis did not cover.\<close>

lemma optional_additions_have_no_impact:
  assumes "adds_only_optional (field_map fs) (field_map gs)"
  shows "list_all (\<lambda>c. im_class (evaluate version c base head cov) = NoKnownImpact)
           (diff_fields e d (Some (field_map fs)) (Some (field_map gs)) [])"
  using additive_changes [OF field_map_ok field_map_ok assms] optional_addition_harmless
  unfolding list_all_iff by blast

lemma optional_additions_have_no_impact_witness:
  "list_all (\<lambda>c. im_class (evaluate ''1'' c \<lparr>su_endpoints = [], su_consumers = []\<rparr> \<lparr>su_endpoints = [], su_consumers = []\<rparr>
        \<lparr>cv_repos = [], cv_unresolved_consumers = [], cv_ambiguous = [], cv_unnormalized = [], cv_external = [],
         cv_stale_bindings = 0, cv_schemaless_endpoints = [],
         cv_scope = \<lparr>sc_reviewed = [], sc_unreviewed = [], sc_configured_only = False\<rparr>, cv_complete = False,
         cv_unresolved_refs = [], cv_repo_coverages = []\<rparr>) = NoKnownImpact)
     (diff_fields (''orders'', KHttp (Known Get) ''/orders'') Response (Some (field_map []))
       (Some (field_map [\<lparr>rf_node_id = ''n1'', rf_path = [Name ''note''], rf_meta = \<lparr>fm_ty = TString, fm_required = False, fm_nullable = True,
         fm_enum_values = None\<rparr>\<rparr>])) [])"
  by (rule optional_additions_have_no_impact) code_simp

section \<open>Two equal states\<close>

lemma diff_fields_self:
  assumes "bt_ok (or_empty x)"
  shows "diff_fields e d x x out = out"
proof -
  have "common_changes e d (or_empty x) (or_empty x) = []"
    by (simp add: common_changes_none [OF assms] same_meta_def)
  moreover have "only_in (or_empty x) (or_empty x) = []" by (simp add: only_in_none)
  ultimately show ?thesis
    by (auto simp: diff_fields_def find_renames_def Let_def is_renamed_def bt_has_def bt_keys_def filter_id_conv split: change_kind.split)
qed

lemma pair_self:
  "distinct (map fst es) \<Longrightarrow>
   fold (pair_step head) es \<lparr>ps_base = map fst es, ps_head = map fst es, ps_pairs = ps\<rparr> =
     \<lparr>ps_base = [], ps_head = [], ps_pairs = ps @ map (\<lambda>e. (fst e, fst e)) es\<rparr>"
proof (induction es arbitrary: ps)
  case (Cons a es)
  have "pair_step head a \<lparr>ps_base = map fst (a # es), ps_head = map fst (a # es), ps_pairs = ps\<rparr> =
      \<lparr>ps_base = map fst es, ps_head = map fst es, ps_pairs = ps @ [(fst a, fst a)]\<rparr>"
    using Cons.prems by (cases a) (force simp: pair_step_def partner_def filter_id_conv)
  then show ?case using Cons by simp
qed simp

lemma nothing_changed [simp]:
  "source_changed (static_changed_files {}) a b = False"
  "handler_changed (static_changed_files {}) anchors i a b = False"
  by (auto simp: source_changed_def handler_changed_def noted_changes_def static_changed_files_def list_ex_iff List.map_filter_def
      split: list.splits)

definition schemas_ok :: "contract_surface \<Rightarrow> bool" where
  "schemas_ok s \<longleftrightarrow> (\<forall>i d. bt_ok (or_empty (bt_get (ed_schemas (def_of s i)) d)))"

lemma diff_pair_self: "schemas_ok s \<Longrightarrow> diff_pair s s (static_changed_files {}) anchors (i, i) out = out"
proof -
  assume "schemas_ok s"
  then have "bt_ok (or_empty (bt_get (ed_schemas (def_of s i)) d))" for d unfolding schemas_ok_def by blast
  then show ?thesis by (simp add: diff_pair_def Let_def moved_changes_def diff_fields_self)
qed

lemma diff_self:
  assumes "schemas_ok s" "bt_ok (su_endpoints s)"
  shows "diff_contracts s s (static_changed_files {}) = []"
proof -
  have "distinct (map fst (su_endpoints s))" using bt_ok_distinct [OF assms(2)] by (simp add: bt_keys_def)
  then have pairs: "pair_endpoints s s = \<lparr>ps_base = [], ps_head = [], ps_pairs = map (\<lambda>e. (fst e, fst e)) (su_endpoints s)\<rparr>"
    by (simp add: pair_endpoints_def bt_keys_def pair_self)
  have "fold (diff_pair s s (static_changed_files {}) anchors) (map (\<lambda>e. (fst e, fst e)) es) out = out"
    for anchors out and es :: "(endpoint_id \<times> endpoint_def) list"
    by (induction es) (simp_all add: diff_pair_self [OF assms(1)])
  then show ?thesis by (simp add: diff_contracts_def pairs)
qed

lemma bt_inserts_value: "bt_get (fold (\<lambda>(k, v). bt_insert k v) es []) k = Some v \<Longrightarrow> (k, v) \<in> set es"
  by (auto simp: bt_inserts split: option.splits dest: map_of_SomeD)

lemma bt_inserts_member: "(k, v) \<in> set (fold (\<lambda>(k, v). bt_insert k v) es []) \<Longrightarrow> (k, v) \<in> set es"
  by (rule bt_inserts_value) (simp add: bt_mem [OF bt_ok_inserts [OF bt_empty(1)], symmetric])

lemma index_schemas_fields: "(d, s) \<in> set (index_schemas schemas i ps) \<Longrightarrow> bt_ok (sm_fields s)"
  by (auto simp: index_schemas_def split: option.splits dest!: bt_inserts_member)

lemma endpoint_to_def_ok:
  assumes "\<And>d s. (d, s) \<in> set (en_schemas e) \<Longrightarrow> bt_ok (sm_fields s)"
  shows "bt_ok (or_empty (bt_get (ed_schemas (endpoint_to_def e)) d))"
  using assms
  by (auto simp: endpoint_to_def_def Let_def or_empty_def split: option.split dest!: bt_inserts_value)

lemma index_surface_ok:
  assumes "ix_endpoints ix = index_endpoints schemas table"
  shows "schemas_ok (surface_of ix)"
  unfolding schemas_ok_def
proof (intro allI)
  fix i d
  show "bt_ok (or_empty (bt_get (ed_schemas (def_of (surface_of ix) i)) d))"
  proof (cases "bt_get (su_endpoints (surface_of ix)) i")
    case None
    then show ?thesis by (simp add: def_of_def empty_def_def or_empty_def)
  next
    case (Some def)
    then obtain e where e: "(i, e) \<in> set (ix_endpoints ix)" "def = endpoint_to_def e"
      unfolding surface_of_def Let_def by (auto dest!: bt_inserts_value)
    then obtain entry where "e = index_endpoint schemas entry"
      unfolding assms index_endpoints_def by (auto dest!: bt_inserts_member)
    then have "(d', s) \<in> set (en_schemas e) \<Longrightarrow> bt_ok (sm_fields s)" for d' s
      by (auto simp: index_endpoint_def Let_def dest: index_schemas_fields)
    then show ?thesis using Some e(2) endpoint_to_def_ok [of e] by (simp add: def_of_def)
  qed
qed

text \<open>C30: the contracts of a joined federation compared with themselves, no file having changed, give no change.\<close>

lemma unchanged_federation_has_no_change:
  "let s = surface_of (jo_index (join_all alnum debug nodes edges config registry env)) in
   diff_contracts s s (static_changed_files {}) = []"
  unfolding Let_def
  by (rule diff_self [OF index_surface_ok surface_ok(1)]) (simp add: join_all_def Let_def)

section \<open>Rebound consumers\<close>

definition key_matches_binding :: "consumer_key \<times> consumer_def \<Rightarrow> bool" where
  "key_matches_binding entry \<longleftrightarrow>
     (case cd_resolution (snd entry) of
        SurfaceBinds (e # es) prov \<Rightarrow> ck_target (fst entry) = TargetContract (snd e)
      | _ \<Rightarrow> True)"

lemma surface_keys_match: "entry \<in> set (su_consumers (surface_of ix)) \<Longrightarrow> key_matches_binding entry"
  unfolding surface_of_def Let_def
  by (cases entry)
     (auto simp: key_matches_binding_def consumer_key_of_def consumer_to_def_def surface_resolution_of_def Let_def
       split: option.splits consumer_target.splits list.splits dest!: bt_inserts_member)

definition rebind_ok :: "contract_change \<Rightarrow> bool" where
  "rebind_ok c \<longleftrightarrow>
     (case cc_kind c of
        ConsumerRebound k a b \<Rightarrow> snd a = snd b \<and> fst a \<noteq> fst b \<and> ck_target k = TargetContract (snd b)
      | _ \<Rightarrow> True)"

lemma consumer_changes_rebind:
  assumes "key_matches_binding (k, d)"
    and "\<And>b. bt_get (su_consumers base) k = Some b \<Longrightarrow> key_matches_binding (k, b)"
  shows "list_all rebind_ok (consumer_changes base head (k, d))"
  using assms
  by (auto simp: consumer_changes_def Let_def list_all_iff rebind_ok_def change_def key_matches_binding_def prod_eq_iff
      split: surface_resolution.splits option.splits list.splits if_splits)

text \<open>a consumer is reported as rebound only when the same route, with the same method, is now served by another
  service: a consumer whose route itself changed is never a rebinding.\<close>

lemma rebinding_changes_only_the_service:
  "list_all (\<lambda>c. case cc_kind c of
       ConsumerRebound k a b \<Rightarrow> snd a = snd b \<and> fst a \<noteq> fst b \<and> ck_target k = TargetContract (snd b)
     | _ \<Rightarrow> True) (diff_consumers (surface_of b) (surface_of h))"
proof -
  have "list_all rebind_ok (consumer_changes (surface_of b) (surface_of h) entry)"
    if "entry \<in> set (su_consumers (surface_of h))" for entry
  proof (cases entry)
    case (Pair k d)
    show ?thesis unfolding Pair
      by (rule consumer_changes_rebind)
         (use that Pair surface_keys_match bt_mem [OF surface_ok(2), of k] in \<open>auto\<close>)
  qed
  then show ?thesis
    unfolding rebind_ok_def [symmetric] diff_consumers_def by (auto simp: list_all_iff)
qed

end
