(* ===== verification/Presence.thy ===== *)
theory Presence
  imports Btree Revision_Log
begin

text \<open>
  Who is working in the code base: the sessions of \<^verbatim>\<open>presence.rs\<close> with their tokens, expiry and
  persistence, and the record of recent tool calls of \<^verbatim>\<open>activity.rs\<close>. Fresh identifiers, tokens and
  the clock are arguments; a time is a count of clock ticks since the epoch.
\<close>

section \<open>Sessions\<close>

datatype agent_kind = ClaudeCode | Kimi | Agy | Codex | OtherAgent string

fun agent_kind_str :: "agent_kind \<Rightarrow> string" where
  "agent_kind_str ClaudeCode = ''claude-code''"
| "agent_kind_str Kimi = ''kimi''"
| "agent_kind_str Agy = ''agy''"
| "agent_kind_str Codex = ''codex''"
| "agent_kind_str (OtherAgent s) = s"

definition agent_kind_parse :: "string \<Rightarrow> agent_kind" where
  "agent_kind_parse s =
     (if s = ''claude-code'' then ClaudeCode else if s = ''kimi'' then Kimi else if s = ''agy'' then Agy
      else if s = ''codex'' then Codex else OtherAgent s)"

datatype agent_mode = Interactive | Background

fun agent_mode_str :: "agent_mode \<Rightarrow> string" where
  "agent_mode_str Interactive = ''interactive''"
| "agent_mode_str Background = ''background''"

definition agent_mode_parse :: "string \<Rightarrow> agent_mode" where
  "agent_mode_parse s = (if s = ''background'' then Background else Interactive)"

record agent_session =
  as_id :: string
  as_name :: string
  as_kind :: agent_kind
  as_mode :: agent_mode
  as_pid :: "nat option"
  as_parent :: "string option"
  as_token :: string
  as_started_at :: nat
  as_last_heartbeat :: nat

definition agent_session_new ::
    "string \<Rightarrow> string \<Rightarrow> nat \<Rightarrow> string \<Rightarrow> agent_kind \<Rightarrow> agent_mode \<Rightarrow> nat option \<Rightarrow> string option \<Rightarrow> agent_session" where
  "agent_session_new i token now name kind mode pid parent =
     \<lparr>as_id = i, as_name = name, as_kind = kind, as_mode = mode, as_pid = pid, as_parent = parent, as_token = token,
      as_started_at = now, as_last_heartbeat = now\<rparr>"

record presence_state =
  pg_sessions :: "(string, agent_session) hmap"
  pg_by_token :: "(string, string) hmap"
  pg_expires_after :: nat
  pg_background_expires_after :: nat

datatype heartbeat_error = UnknownAgent | WrongToken

definition presence_new :: "nat \<Rightarrow> nat \<Rightarrow> presence_state" where
  "presence_new ttl background_ttl =
     \<lparr>pg_sessions = hm_empty, pg_by_token = hm_empty, pg_expires_after = ttl, pg_background_expires_after = background_ttl\<rparr>"

definition presence_register :: "agent_session \<Rightarrow> presence_state \<Rightarrow> presence_state" where
  "presence_register s st =
     st\<lparr>pg_by_token := hm_put (as_token s) (as_id s) (pg_by_token st), pg_sessions := hm_put (as_id s) s (pg_sessions st)\<rparr>"

definition presence_heartbeat :: "string \<Rightarrow> string \<Rightarrow> nat \<Rightarrow> presence_state \<Rightarrow> (heartbeat_error + unit) \<times> presence_state" where
  "presence_heartbeat i token now st =
     (case hm_get (pg_sessions st) i of
        None \<Rightarrow> (Inl UnknownAgent, st)
      | Some s \<Rightarrow>
          if as_token s \<noteq> token then (Inl WrongToken, st)
          else (Inr (), st\<lparr>pg_sessions := hm_put i (s\<lparr>as_last_heartbeat := now\<rparr>) (pg_sessions st)\<rparr>))"

definition expires_after_for :: "presence_state \<Rightarrow> agent_mode \<Rightarrow> nat" where
  "expires_after_for st mode = (case mode of Background \<Rightarrow> pg_background_expires_after st | Interactive \<Rightarrow> pg_expires_after st)"

definition session_stale :: "presence_state \<Rightarrow> nat \<Rightarrow> agent_session \<Rightarrow> bool" where
  "session_stale st now s \<longleftrightarrow> expires_after_for st (as_mode s) \<le> now - as_last_heartbeat s"

definition forget_session :: "agent_session \<Rightarrow> presence_state \<Rightarrow> presence_state" where
  "forget_session s st =
     st\<lparr>pg_sessions := hm_del (as_id s) (pg_sessions st), pg_by_token := hm_del (as_token s) (pg_by_token st)\<rparr>"

definition expire_stale :: "nat \<Rightarrow> presence_state \<Rightarrow> agent_session list \<times> presence_state" where
  "expire_stale now st =
     (let stale = filter (session_stale st now) (hm_vals (pg_sessions st)) in (stale, fold forget_session stale st))"

definition list_active :: "bool \<Rightarrow> presence_state \<Rightarrow> agent_session list" where
  "list_active include_background st =
     filter (\<lambda>s. include_background \<or> as_mode s = Interactive) (hm_vals (pg_sessions st))"

definition presence_get :: "string \<Rightarrow> presence_state \<Rightarrow> agent_session option" where
  "presence_get i st = hm_get (pg_sessions st) i"

definition presence_remove :: "string \<Rightarrow> presence_state \<Rightarrow> agent_session option \<times> presence_state" where
  "presence_remove i st =
     (case hm_get (pg_sessions st) i of
        None \<Rightarrow> (None, st)
      | Some s \<Rightarrow>
          (Some s, st\<lparr>pg_sessions := hm_del i (pg_sessions st), pg_by_token := hm_del (as_token s) (pg_by_token st)\<rparr>))"

definition presence_by_token :: "string \<Rightarrow> presence_state \<Rightarrow> agent_session option" where
  "presence_by_token token st = Option.bind (hm_get (pg_by_token st) token) (hm_get (pg_sessions st))"

section \<open>The state file\<close>

text \<open>Every change of the set of sessions writes them to the state file; a heartbeat does not.\<close>

type_synonym session_file = "(string \<times> agent_session) list option"

definition save_sessions :: "presence_state \<Rightarrow> session_file" where
  "save_sessions st = Some (pg_sessions st)"

definition load_session :: "string \<times> agent_session \<Rightarrow> presence_state \<Rightarrow> presence_state" where
  "load_session entry st =
     st\<lparr>pg_by_token := hm_put (as_token (snd entry)) (fst entry) (pg_by_token st),
        pg_sessions := hm_put (fst entry) (snd entry) (pg_sessions st)\<rparr>"

definition load_sessions :: "session_file \<Rightarrow> presence_state \<Rightarrow> presence_state" where
  "load_sessions file st =
     (case file of
        None \<Rightarrow> st
      | Some entries \<Rightarrow> fold load_session entries (st\<lparr>pg_sessions := hm_empty, pg_by_token := hm_empty\<rparr>))"

text \<open>
  Several server processes share the state file (\<^verbatim>\<open>ingest/handles/presence.rs\<close>): a call that goes through
  \<^verbatim>\<open>with_shared_presence\<close> takes the file's lock and reads the file when its modification time is not the one
  seen last. The modification time is a count of the writes.
\<close>

record presence_layer =
  pl_live :: presence_state
  pl_seen :: "nat option"

record presence_world =
  pw_layers :: "nat \<Rightarrow> presence_layer"
  pw_file :: session_file
  pw_writes :: nat

datatype coordination_error = LockUnavailable

definition put_live :: "nat \<Rightarrow> presence_state \<Rightarrow> presence_world \<Rightarrow> presence_world" where
  "put_live p live w = w\<lparr>pw_layers := (pw_layers w)(p := (pw_layers w p)\<lparr>pl_live := live\<rparr>)\<rparr>"

definition write_sessions :: "presence_state \<Rightarrow> presence_world \<Rightarrow> presence_world" where
  "write_sessions live w = w\<lparr>pw_file := save_sessions live, pw_writes := Suc (pw_writes w)\<rparr>"

definition modified_at :: "presence_world \<Rightarrow> nat option" where
  "modified_at w = map_option (\<lambda>_. pw_writes w) (pw_file w)"

definition refresh_shared_presence :: "nat \<Rightarrow> presence_world \<Rightarrow> presence_world" where
  "refresh_shared_presence p w =
     (let current = modified_at w; l = pw_layers w p in
      if current \<noteq> None \<and> pl_seen l = current then w
      else w\<lparr>pw_layers := (pw_layers w)(p := \<lparr>pl_live = load_sessions (pw_file w) (pl_live l), pl_seen = current\<rparr>)\<rparr>)"

text \<open>The call \<open>f\<close> tells whether it fired the persist callback.\<close>

definition with_shared_presence ::
    "bool \<Rightarrow> nat \<Rightarrow> (presence_state \<Rightarrow> 'r \<times> bool \<times> presence_state) \<Rightarrow> presence_world
     \<Rightarrow> (coordination_error + 'r) \<times> presence_world" where
  "with_shared_presence held p f w =
     (if \<not> held then (Inl LockUnavailable, w)
      else
        let w1 = refresh_shared_presence p w in
        case f (pl_live (pw_layers w1 p)) of
          (r, persisted, live) \<Rightarrow>
            (Inr r, if persisted then write_sessions live (put_live p live w1) else put_live p live w1))"

definition run_register :: "agent_session \<Rightarrow> presence_state \<Rightarrow> unit \<times> bool \<times> presence_state" where
  "run_register s st = ((), True, presence_register s st)"

definition run_heartbeat :: "string \<Rightarrow> string \<Rightarrow> nat \<Rightarrow> presence_state \<Rightarrow> (heartbeat_error + unit) \<times> bool \<times> presence_state" where
  "run_heartbeat i token now st = (case presence_heartbeat i token now st of (r, live) \<Rightarrow> (r, False, live))"

definition authenticate :: "string \<Rightarrow> nat \<Rightarrow> presence_state \<Rightarrow> agent_session option \<times> presence_state" where
  "authenticate token now st =
     (case presence_by_token token st of
        None \<Rightarrow> (None, st)
      | Some s \<Rightarrow> (Some s, snd (presence_heartbeat (as_id s) token now st)))"

definition handle_hook :: "string \<Rightarrow> string \<Rightarrow> nat \<Rightarrow> presence_state \<Rightarrow> bool \<times> bool \<times> presence_state" where
  "handle_hook i token now st =
     (case authenticate token now st of
        (None, live) \<Rightarrow> (False, False, live)
      | (Some s, live) \<Rightarrow> if as_id s \<noteq> i then (False, False, live) else (True, True, live))"

text \<open>The tracked activity of the agent is dropped first; that alone fires the callback too.\<close>

definition unregister_agent :: "bool \<Rightarrow> string \<Rightarrow> presence_state \<Rightarrow> agent_session option \<times> bool \<times> presence_state" where
  "unregister_agent tracked i st = (case presence_remove i st of (r, live) \<Rightarrow> (r, tracked \<or> r \<noteq> None, live))"

text \<open>The expiry loop writes what its own process holds; it neither takes the lock nor reads the file.\<close>

definition expiry_tick :: "nat \<Rightarrow> nat \<Rightarrow> presence_world \<Rightarrow> agent_session list \<times> presence_world" where
  "expiry_tick p now w =
     (case expire_stale now (pl_live (pw_layers w p)) of
        (stale, live) \<Rightarrow> (stale, if stale = [] then put_live p live w else write_sessions live (put_live p live w)))"

definition start_process :: "nat \<Rightarrow> nat \<Rightarrow> nat \<Rightarrow> presence_world \<Rightarrow> presence_world" where
  "start_process ttl bg p w =
     w\<lparr>pw_layers := (pw_layers w)(p := \<lparr>pl_live = load_sessions (pw_file w) (presence_new ttl bg), pl_seen = None\<rparr>)\<rparr>"

datatype presence_event =
    Registered nat agent_session
  | Beat nat string string nat
  | Authenticated nat string nat
  | Hooked nat string string nat
  | Unregistered nat bool string
  | Refreshed nat
  | Tick nat nat
  | Started nat

fun presence_step :: "nat \<Rightarrow> nat \<Rightarrow> presence_event \<Rightarrow> presence_world \<Rightarrow> presence_world" where
  "presence_step ttl bg (Registered p s) w = snd (with_shared_presence True p (run_register s) w)"
| "presence_step ttl bg (Beat p i token now) w = snd (with_shared_presence True p (run_heartbeat i token now) w)"
| "presence_step ttl bg (Authenticated p token now) w = put_live p (snd (authenticate token now (pl_live (pw_layers w p)))) w"
| "presence_step ttl bg (Hooked p i token now) w = snd (with_shared_presence True p (handle_hook i token now) w)"
| "presence_step ttl bg (Unregistered p tracked i) w = snd (with_shared_presence True p (unregister_agent tracked i) w)"
| "presence_step ttl bg (Refreshed p) w = refresh_shared_presence p w"
| "presence_step ttl bg (Tick p now) w = snd (expiry_tick p now w)"
| "presence_step ttl bg (Started p) w = start_process ttl bg p w"

definition presence_run :: "nat \<Rightarrow> nat \<Rightarrow> presence_event list \<Rightarrow> presence_world" where
  "presence_run ttl bg es =
     fold (presence_step ttl bg) es
       \<lparr>pw_layers = (\<lambda>_. \<lparr>pl_live = presence_new ttl bg, pl_seen = None\<rparr>), pw_file = None, pw_writes = 0\<rparr>"

section \<open>Changes since a plan\<close>

datatype changed_kind = Edited | Retracted | NotIndexed

record changed_symbol =
  cs_name :: string
  cs_change_kind :: changed_kind
  cs_at_revision :: nat

definition changed_symbols :: "overlay_diff list \<Rightarrow> changed_symbol list" where
  "changed_symbols ds =
     map (\<lambda>(name, revision). \<lparr>cs_name = name, cs_change_kind = Edited, cs_at_revision = revision\<rparr>)
       (fold (\<lambda>d m. fold (\<lambda>n. bt_insert (gn_name n) (od_revision d)) (od_added d @ od_updated d) m) ds
          ([] :: (string, nat) btree))"

section \<open>Activity\<close>

definition max_recent_tools :: nat where
  "max_recent_tools = 100"

record observed_tool =
  ot_tool :: string
  ot_target :: "string option"
  ot_at :: nat

record agent_activity =
  aa_agent_id :: string
  aa_recent_tools :: "observed_tool list"

type_synonym activity_state = "(string, agent_activity) hmap"

definition is_read_tool :: "string \<Rightarrow> bool" where
  "is_read_tool tool \<longleftrightarrow> to_ascii_lowercase tool \<in> {''read'', ''read_file'', ''open_file''}"

definition last_tool :: "agent_activity \<Rightarrow> observed_tool option" where
  "last_tool a = (case rev (aa_recent_tools a) of [] \<Rightarrow> None | t # _ \<Rightarrow> Some t)"

fun add_new :: "'a option \<Rightarrow> 'a list \<Rightarrow> 'a list" where
  "add_new None out = out"
| "add_new (Some x) out = (if x \<in> set out then out else out @ [x])"

definition observed_reads :: "agent_activity \<Rightarrow> string list" where
  "observed_reads a =
     fold (\<lambda>t out. if is_read_tool (ot_tool t) then add_new (ot_target t) out else out) (rev (aa_recent_tools a)) []"

definition activity_focus :: "agent_activity \<Rightarrow> string list" where
  "activity_focus a =
     (let out = (case last_tool a of Some t \<Rightarrow> add_new (ot_target t) [] | None \<Rightarrow> []) in
      case find (\<lambda>t. is_read_tool (ot_tool t)) (rev (aa_recent_tools a)) of
        None \<Rightarrow> out
      | Some t \<Rightarrow> add_new (ot_target t) out)"

definition record_tool :: "string \<Rightarrow> observed_tool \<Rightarrow> activity_state \<Rightarrow> activity_state" where
  "record_tool agent t st =
     (let a = (case hm_get st agent of Some a \<Rightarrow> a | None \<Rightarrow> \<lparr>aa_agent_id = agent, aa_recent_tools = []\<rparr>);
          kept = (if max_recent_tools \<le> length (aa_recent_tools a) then tl (aa_recent_tools a) else aa_recent_tools a) in
      hm_put agent (a\<lparr>aa_recent_tools := kept @ [t]\<rparr>) st)"

definition drop_agent :: "string \<Rightarrow> activity_state \<Rightarrow> activity_state" where
  "drop_agent agent st = hm_del agent st"

definition replace_activities :: "(string \<times> agent_activity) list \<Rightarrow> activity_state" where
  "replace_activities entries = fold (\<lambda>(i, a). hm_put i (a\<lparr>aa_agent_id := i\<rparr>)) entries hm_empty"

end
