(* ===== verification/Presence_Props.thy ===== *)
theory Presence_Props
  imports Presence
begin

text \<open>What sessions, tokens and the record of tool calls guarantee.\<close>

section \<open>Tokens\<close>

definition presence_ok :: "presence_state \<Rightarrow> bool" where
  "presence_ok st \<longleftrightarrow>
     hm_ok (pg_sessions st)
     \<and> (\<forall>i s. hm_get (pg_sessions st) i = Some s \<longrightarrow> as_id s = i \<and> hm_get (pg_by_token st) (as_token s) = Some i)
     \<and> (\<forall>t i. hm_get (pg_by_token st) t = Some i \<longrightarrow> (\<exists>s. hm_get (pg_sessions st) i = Some s \<and> as_token s = t))"

lemma presence_new_ok [simp]: "presence_ok (presence_new ttl bg)"
  by (simp add: presence_ok_def presence_new_def)

text \<open>The sessions of a state carry identifiers and tokens that were handed out together.\<close>

definition issued :: "(string \<times> string) set \<Rightarrow> presence_state \<Rightarrow> bool" where
  "issued R st \<longleftrightarrow> (\<forall>i s. hm_get (pg_sessions st) i = Some s \<longrightarrow> (i, as_token s) \<in> R)"

lemma presence_okI:
  assumes "hm_ok (pg_sessions st)"
    and "\<And>i s. hm_get (pg_sessions st) i = Some s \<Longrightarrow> as_id s = i \<and> hm_get (pg_by_token st) (as_token s) = Some i"
    and "\<And>t i. hm_get (pg_by_token st) t = Some i \<Longrightarrow> \<exists>s. hm_get (pg_sessions st) i = Some s \<and> as_token s = t"
  shows "presence_ok st"
  using assms unfolding presence_ok_def by blast

lemma presence_okD:
  assumes "presence_ok st"
  shows "hm_ok (pg_sessions st)"
    and "hm_get (pg_sessions st) i = Some s \<Longrightarrow> as_id s = i"
    and "hm_get (pg_sessions st) i = Some s \<Longrightarrow> hm_get (pg_by_token st) (as_token s) = Some i"
    and "hm_get (pg_by_token st) t = Some i \<Longrightarrow> \<exists>s. hm_get (pg_sessions st) i = Some s \<and> as_token s = t"
  using assms unfolding presence_ok_def by blast+

lemma token_session: "presence_ok st \<Longrightarrow> hm_get (pg_sessions st) i = Some s \<Longrightarrow> hm_get (pg_sessions st) j = Some x
    \<Longrightarrow> as_token s = as_token x \<Longrightarrow> i = j"
  by (metis presence_okD(3) option.inject)

lemma register_ok:
  assumes "presence_ok st" "issued R st" "as_id s \<notin> fst ` R" "as_token s \<notin> snd ` R"
  shows "presence_ok (presence_register s st)" "issued (insert (as_id s, as_token s) R) (presence_register s st)"
proof -
  have other_token: "as_token x \<noteq> as_token s" if "hm_get (pg_sessions st) i = Some x" for i x
    using that assms(2,4) unfolding issued_def by (metis image_eqI snd_conv)
  have free: "hm_get (pg_sessions st) (as_id s) = None"
    using assms(2,3) unfolding issued_def by (metis fst_conv image_eqI not_None_eq)
  show "presence_ok (presence_register s st)"
  proof (rule presence_okI)
    show "hm_ok (pg_sessions (presence_register s st))"
      using presence_okD(1) [OF assms(1)] by (simp add: presence_register_def)
  next
    fix i x assume "hm_get (pg_sessions (presence_register s st)) i = Some x"
    then show "as_id x = i \<and> hm_get (pg_by_token (presence_register s st)) (as_token x) = Some i"
      using presence_okD(2,3) [OF assms(1)] other_token by (simp add: presence_register_def split: if_splits)
  next
    fix t i assume "hm_get (pg_by_token (presence_register s st)) t = Some i"
    then show "\<exists>x. hm_get (pg_sessions (presence_register s st)) i = Some x \<and> as_token x = t"
      using presence_okD(4) [OF assms(1), of t i] free by (cases "t = as_token s") (auto simp: presence_register_def)
  qed
  show "issued (insert (as_id s, as_token s) R) (presence_register s st)"
    using assms(2) by (simp add: presence_register_def issued_def)
qed

lemma heartbeat_ok:
  assumes "presence_ok st"
  shows "presence_ok (snd (presence_heartbeat i token now st))"
proof (cases "hm_get (pg_sessions st) i")
  case None
  then show ?thesis using assms by (simp add: presence_heartbeat_def)
next
  case (Some s)
  let ?st = "st\<lparr>pg_sessions := hm_put i (s\<lparr>as_last_heartbeat := now\<rparr>) (pg_sessions st)\<rparr>"
  have "presence_ok ?st"
  proof (rule presence_okI)
    show "hm_ok (pg_sessions ?st)" using presence_okD(1) [OF assms] by simp
  next
    fix j x assume "hm_get (pg_sessions ?st) j = Some x"
    then show "as_id x = j \<and> hm_get (pg_by_token ?st) (as_token x) = Some j"
      using presence_okD(2,3) [OF assms Some] presence_okD(2,3) [OF assms, of j x] by (cases "j = i") auto
  next
    fix t j assume "hm_get (pg_by_token ?st) t = Some j"
    then obtain x where "hm_get (pg_sessions st) j = Some x" "as_token x = t" using presence_okD(4) [OF assms, of t j] by auto
    then show "\<exists>x. hm_get (pg_sessions ?st) j = Some x \<and> as_token x = t" using Some by (cases "j = i") auto
  qed
  then show ?thesis using assms Some by (simp add: presence_heartbeat_def)
qed

lemma heartbeat_issued: "issued R st \<Longrightarrow> issued R (snd (presence_heartbeat i token now st))"
proof (cases "hm_get (pg_sessions st) i")
  case (Some s)
  assume "issued R st"
  moreover then have "(i, as_token s) \<in> R" using Some unfolding issued_def by blast
  ultimately show ?thesis by (cases "as_token s = token") (simp_all add: issued_def presence_heartbeat_def Some)
qed (simp add: presence_heartbeat_def)

lemma forget_ok:
  assumes "presence_ok st" "hm_get (pg_sessions st) (as_id s) = Some s"
  shows "presence_ok (forget_session s st)"
proof (rule presence_okI)
  show "hm_ok (pg_sessions (forget_session s st))" using presence_okD(1) [OF assms(1)] by (simp add: forget_session_def)
next
  fix j x assume x: "hm_get (pg_sessions (forget_session s st)) j = Some x"
  then have "hm_get (pg_sessions st) j = Some x" "j \<noteq> as_id s" by (auto simp: forget_session_def split: if_splits)
  moreover then have "as_token x \<noteq> as_token s" using token_session [OF assms] by metis
  ultimately show "as_id x = j \<and> hm_get (pg_by_token (forget_session s st)) (as_token x) = Some j"
    using presence_okD(2,3) [OF assms(1), of j x] by (simp add: forget_session_def)
next
  fix t j assume "hm_get (pg_by_token (forget_session s st)) t = Some j"
  then have "hm_get (pg_by_token st) t = Some j" "t \<noteq> as_token s" by (auto simp: forget_session_def split: if_splits)
  moreover then obtain x where "hm_get (pg_sessions st) j = Some x" "as_token x = t" using presence_okD(4) [OF assms(1)] by blast
  ultimately show "\<exists>x. hm_get (pg_sessions (forget_session s st)) j = Some x \<and> as_token x = t"
    using assms(2) by (auto simp: forget_session_def)
qed

lemma forget_issued: "issued R st \<Longrightarrow> issued R (forget_session s st)"
  by (simp add: issued_def forget_session_def)

lemma forget_all_ok:
  assumes "presence_ok st" "distinct (map as_id ss)" "\<And>s. s \<in> set ss \<Longrightarrow> hm_get (pg_sessions st) (as_id s) = Some s"
  shows "presence_ok (fold forget_session ss st)"
  using assms
proof (induction ss arbitrary: st)
  case (Cons s ss)
  have "hm_get (pg_sessions st) (as_id s) = Some s" by (rule Cons.prems(3)) simp
  then have ok: "presence_ok (forget_session s st)" by (rule forget_ok [OF Cons.prems(1)])
  have rest: "hm_get (pg_sessions (forget_session s st)) (as_id x) = Some x" if "x \<in> set ss" for x
  proof -
    have "as_id s \<notin> as_id ` set ss" using Cons.prems(2) by simp
    then have "as_id x \<noteq> as_id s" using that by (metis image_eqI)
    moreover have "hm_get (pg_sessions st) (as_id x) = Some x" by (rule Cons.prems(3)) (simp add: that)
    ultimately show ?thesis by (simp add: forget_session_def)
  qed
  show ?case unfolding fold_simps o_apply
    by (rule Cons.IH [OF ok _ rest]) (use Cons.prems(2) in \<open>simp_all\<close>)
qed simp

lemma sessions_distinct: "presence_ok st \<Longrightarrow> distinct (map as_id (hm_vals (pg_sessions st)))"
proof -
  assume ok: "presence_ok st"
  then have "hm_ok (pg_sessions st)" by (simp add: presence_ok_def)
  then have "map as_id (hm_vals (pg_sessions st)) = hm_keys (pg_sessions st)"
    unfolding hm_vals_def hm_keys_def map_map
    by (intro map_cong refl) (metis comp_apply hm_mem_get prod.collapse presence_okD(2) [OF ok])
  then show ?thesis using \<open>hm_ok (pg_sessions st)\<close> by (simp add: hm_ok_def)
qed

lemma listed_session: "presence_ok st \<Longrightarrow> s \<in> set (hm_vals (pg_sessions st)) \<Longrightarrow> hm_get (pg_sessions st) (as_id s) = Some s"
  by (metis hm_vals_iff presence_okD(1,2))

lemma expire_ok:
  assumes "presence_ok st"
  shows "presence_ok (snd (expire_stale now st))"
proof -
  let ?stale = "filter (session_stale st now) (hm_vals (pg_sessions st))"
  have "presence_ok (fold forget_session ?stale st)"
    by (rule forget_all_ok [OF assms])
       (use sessions_distinct [OF assms] listed_session [OF assms] in \<open>auto simp: distinct_map_filter\<close>)
  then show ?thesis by (simp add: expire_stale_def Let_def)
qed

lemma expire_issued: "issued R st \<Longrightarrow> issued R (snd (expire_stale now st))"
proof -
  have "issued R st \<Longrightarrow> issued R (fold forget_session ss st)" for ss
    by (induction ss arbitrary: st) (simp_all add: forget_issued)
  then show "issued R st \<Longrightarrow> ?thesis" by (simp add: expire_stale_def Let_def)
qed

lemma remove_ok:
  assumes "presence_ok st"
  shows "presence_ok (snd (presence_remove i st))"
proof (cases "hm_get (pg_sessions st) i")
  case (Some s)
  then have "snd (presence_remove i st) = forget_session s st"
    using presence_okD(2) [OF assms Some] by (simp add: presence_remove_def forget_session_def)
  then show ?thesis using forget_ok [OF assms] Some presence_okD(2) [OF assms Some] by simp
qed (use assms in \<open>simp add: presence_remove_def\<close>)

lemma remove_issued: "issued R st \<Longrightarrow> issued R (snd (presence_remove i st))"
  unfolding issued_def presence_remove_def by (cases "hm_get (pg_sessions st) i") simp_all

text \<open>Loading what was saved gives the same lookups.\<close>

definition file_ok :: "session_file \<Rightarrow> bool" where
  "file_ok file \<longleftrightarrow> (case file of None \<Rightarrow> True | Some entries \<Rightarrow>
     distinct (map fst entries) \<and> distinct (map (as_token \<circ> snd) entries) \<and> (\<forall>e\<in>set entries. as_id (snd e) = fst e))"

definition file_within :: "(string \<times> string) set \<Rightarrow> session_file \<Rightarrow> bool" where
  "file_within R file \<longleftrightarrow> (case file of None \<Rightarrow> True | Some entries \<Rightarrow>
     (\<lambda>e. (fst e, as_token (snd e))) ` set entries \<subseteq> R)"

lemma save_ok:
  assumes "presence_ok st"
  shows "file_ok (save_sessions st)" "issued R st \<Longrightarrow> file_within R (save_sessions st)"
proof -
  have ok: "hm_ok (pg_sessions st)" using assms by (simp add: presence_ok_def)
  have mem: "(i, s) \<in> set (pg_sessions st) \<longleftrightarrow> hm_get (pg_sessions st) i = Some s" for i s by (rule hm_mem_get [OF ok])
  have keys: "distinct (map fst (pg_sessions st))" using ok by (simp add: hm_ok_def hm_keys_def)
  have "inj_on (as_token \<circ> snd) (set (pg_sessions st))"
  proof (rule inj_onI)
    fix x y assume *: "x \<in> set (pg_sessions st)" "y \<in> set (pg_sessions st)" "(as_token \<circ> snd) x = (as_token \<circ> snd) y"
    have "hm_get (pg_sessions st) (fst x) = Some (snd x)" "hm_get (pg_sessions st) (fst y) = Some (snd y)"
      using * mem [of "fst x" "snd x"] mem [of "fst y" "snd y"] by simp_all
    then have "hm_get (pg_by_token st) (as_token (snd x)) = Some (fst x)" "hm_get (pg_by_token st) (as_token (snd y)) = Some (fst y)"
      using assms unfolding presence_ok_def by blast+
    then have "fst x = fst y" using *(3) by simp
    then show "x = y" using \<open>hm_get (pg_sessions st) (fst x) = Some (snd x)\<close> \<open>hm_get (pg_sessions st) (fst y) = Some (snd y)\<close>
      by (simp add: prod_eq_iff)
  qed
  moreover have "distinct (pg_sessions st)" using keys by (simp add: distinct_map)
  ultimately have "distinct (map (as_token \<circ> snd) (pg_sessions st))" by (simp add: distinct_map)
  moreover have "\<forall>e\<in>set (pg_sessions st). as_id (snd e) = fst e"
    using assms mem unfolding presence_ok_def by (metis prod.collapse)
  ultimately show "file_ok (save_sessions st)" using keys by (simp add: file_ok_def save_sessions_def)
  show "issued R st \<Longrightarrow> file_within R (save_sessions st)"
    using mem by (fastforce simp: issued_def file_within_def save_sessions_def)
qed

abbreviation handed_out :: "string \<times> agent_session \<Rightarrow> string \<times> string" where
  "handed_out e \<equiv> (fst e, as_token (snd e))"

lemma load_fold:
  assumes "distinct (map fst es)" "distinct (map (as_token \<circ> snd) es)" "\<forall>e\<in>set es. as_id (snd e) = fst e"
    and "presence_ok st" "issued R st" "fst ` set es \<inter> fst ` R = {}" "(as_token \<circ> snd) ` set es \<inter> snd ` R = {}"
  shows "presence_ok (fold load_session es st) \<and> issued (R \<union> handed_out ` set es) (fold load_session es st)"
  using assms
proof (induction es arbitrary: st R)
  case (Cons e es)
  have load: "load_session e st = presence_register (snd e) st"
    using Cons.prems(3) by (simp add: load_session_def presence_register_def)
  have e: "as_id (snd e) = fst e" using Cons.prems(3) by simp
  have new: "as_id (snd e) \<notin> fst ` R" "as_token (snd e) \<notin> snd ` R" using Cons.prems(3,6,7) by auto
  have "presence_ok (fold load_session es (load_session e st))
    \<and> issued (insert (handed_out e) R \<union> handed_out ` set es) (fold load_session es (load_session e st))"
    by (rule Cons.IH)
       (use Cons.prems register_ok [OF Cons.prems(4,5) new] in \<open>auto simp: load e\<close>)
  then show ?case by (simp add: insert_commute)
qed simp

lemma load_ok:
  assumes "file_ok f" "file_within R f" "presence_ok st" "issued R st"
  shows "presence_ok (load_sessions f st) \<and> issued R (load_sessions f st)"
proof (cases f)
  case None
  then show ?thesis using assms(3,4) by (simp add: load_sessions_def)
next
  case (Some es)
  let ?st = "st\<lparr>pg_sessions := hm_empty, pg_by_token := hm_empty\<rparr>"
  have start: "presence_ok ?st" "issued {} ?st" by (simp_all add: presence_ok_def issued_def)
  have es: "distinct (map fst es)" "distinct (map (as_token \<circ> snd) es)" "\<forall>e\<in>set es. as_id (snd e) = fst e"
    "handed_out ` set es \<subseteq> R"
    using assms(1,2) Some by (simp_all add: file_ok_def file_within_def)
  have "presence_ok (load_sessions f st) \<and> issued (handed_out ` set es) (load_sessions f st)"
    using load_fold [OF es(1-3) start] by (simp add: load_sessions_def Some)
  then show ?thesis using es(4) unfolding issued_def by blast
qed

section \<open>Runs of several processes\<close>

definition live_ok :: "(string \<times> string) set \<Rightarrow> presence_state \<Rightarrow> bool" where
  "live_ok R st \<longleftrightarrow> presence_ok st \<and> issued R st"

definition world_ok :: "(string \<times> string) set \<Rightarrow> presence_world \<Rightarrow> bool" where
  "world_ok R w \<longleftrightarrow>
     (\<forall>p. live_ok R (pl_live (pw_layers w p))) \<and> file_ok (pw_file w) \<and> file_within R (pw_file w)"

text \<open>The identifiers and tokens of the registrations.\<close>

fun registrations :: "presence_event list \<Rightarrow> (string \<times> string) list" where
  "registrations [] = []"
| "registrations (Registered p s # es) = (as_id s, as_token s) # registrations es"
| "registrations (e # es) = registrations es"

lemma live_ok_new [simp]: "live_ok R (presence_new ttl bg)"
  by (simp add: live_ok_def) (simp add: issued_def presence_new_def)

lemma live_ok_mono: "live_ok R st \<Longrightarrow> R \<subseteq> R' \<Longrightarrow> live_ok R' st"
  unfolding live_ok_def issued_def by blast

lemma world_ok_mono:
  assumes "world_ok R w" "R \<subseteq> R'"
  shows "world_ok R' w"
proof -
  have "file_within R' (pw_file w)"
    using assms unfolding world_ok_def file_within_def by (cases "pw_file w") (simp_all, blast)
  moreover have "live_ok R' (pl_live (pw_layers w p))" for p
    using assms(1) by (intro live_ok_mono [OF _ assms(2)]) (simp add: world_ok_def)
  ultimately show ?thesis using assms(1) by (simp add: world_ok_def)
qed

lemma put_live_ok: "world_ok R w \<Longrightarrow> live_ok R live \<Longrightarrow> world_ok R (put_live p live w)"
  by (simp add: world_ok_def put_live_def)

lemma write_ok: "world_ok R w \<Longrightarrow> live_ok R live \<Longrightarrow> world_ok R (write_sessions live w)"
  by (simp add: world_ok_def write_sessions_def live_ok_def save_ok)

lemma load_live_ok:
  "world_ok R w \<Longrightarrow> live_ok R st \<Longrightarrow> live_ok R (load_sessions (pw_file w) st)"
  using load_ok [of "pw_file w" R st] by (simp add: world_ok_def live_ok_def)

lemma refresh_ok: "world_ok R w \<Longrightarrow> world_ok R (refresh_shared_presence p w)"
  using load_live_ok [of R w "pl_live (pw_layers w p)"]
  by (simp add: refresh_shared_presence_def Let_def world_ok_def)

lemma start_ok: "world_ok R w \<Longrightarrow> world_ok R (start_process ttl bg p w)"
  using load_live_ok [of R w "presence_new ttl bg"] by (simp add: start_process_def world_ok_def)

lemma authenticate_ok: "live_ok R st \<Longrightarrow> live_ok R (snd (authenticate token now st))"
  by (auto simp: authenticate_def live_ok_def heartbeat_ok heartbeat_issued split: option.split)

lemma handle_hook_ok: "live_ok R st \<Longrightarrow> live_ok R (snd (snd (handle_hook i token now st)))"
proof -
  have "snd (snd (handle_hook i token now st)) = snd (authenticate token now st)"
    by (simp add: handle_hook_def split: prod.split option.split)
  then show "live_ok R st \<Longrightarrow> ?thesis" by (simp add: authenticate_ok)
qed

lemma shared_ok:
  assumes "world_ok R w" "R \<subseteq> R'"
    and "\<And>st. live_ok R st \<Longrightarrow> live_ok R' (snd (snd (f st)))"
  shows "world_ok R' (snd (with_shared_presence held p f w))"
proof -
  have w: "world_ok R (refresh_shared_presence p w)" using assms(1) by (rule refresh_ok)
  then have "live_ok R' (snd (snd (f (pl_live (pw_layers (refresh_shared_presence p w) p)))))"
    by (intro assms(3)) (simp add: world_ok_def)
  moreover have "world_ok R' (refresh_shared_presence p w)" "world_ok R' w"
    using w assms(1,2) world_ok_mono by blast+
  ultimately show ?thesis
    by (simp add: with_shared_presence_def Let_def split_beta put_live_ok write_ok)
qed

lemma tick_ok:
  assumes "world_ok R w"
  shows "world_ok R (snd (expiry_tick p now w))"
proof -
  have "live_ok R (snd (expire_stale now (pl_live (pw_layers w p))))"
    using assms by (simp add: world_ok_def live_ok_def expire_ok expire_issued)
  then show ?thesis using assms by (simp add: expiry_tick_def split_beta put_live_ok write_ok)
qed

lemma quiet_step_ok:
  assumes "world_ok R w" "\<And>p s. e \<noteq> Registered p s"
  shows "world_ok R (presence_step ttl bg e w)"
proof (cases e)
  case (Beat p i token now)
  then show ?thesis
    using shared_ok [OF assms(1) order_refl, of "run_heartbeat i token now" True p]
    by (simp add: run_heartbeat_def live_ok_def heartbeat_ok heartbeat_issued split_beta)
next
  case (Authenticated p token now)
  have "live_ok R (pl_live (pw_layers w p))" using assms(1) by (simp add: world_ok_def)
  then show ?thesis using assms(1) Authenticated by (simp add: put_live_ok authenticate_ok)
next
  case (Hooked p i token now)
  then show ?thesis
    using shared_ok [where f = "handle_hook i token now", OF assms(1) order_refl handle_hook_ok] by simp
next
  case (Unregistered p tracked i)
  then show ?thesis
    using shared_ok [OF assms(1) order_refl, of "unregister_agent tracked i" True p]
    by (simp add: unregister_agent_def live_ok_def remove_ok remove_issued split_beta)
qed (use assms in \<open>simp_all add: refresh_ok tick_ok start_ok\<close>)

lemma register_step_ok:
  assumes "world_ok R w" "as_id s \<notin> fst ` R" "as_token s \<notin> snd ` R"
  shows "world_ok (insert (as_id s, as_token s) R) (presence_step ttl bg (Registered p s) w)"
  unfolding presence_step.simps
  by (rule shared_ok [OF assms(1)])
     (use register_ok assms(2,3) in \<open>auto simp: run_register_def live_ok_def\<close>)

lemma world_run_ok:
  assumes "world_ok R w" "distinct (map fst (registrations es))" "distinct (map snd (registrations es))"
    and "fst ` set (registrations es) \<inter> fst ` R = {}" "snd ` set (registrations es) \<inter> snd ` R = {}"
  shows "world_ok (R \<union> set (registrations es)) (fold (presence_step ttl bg) es w)"
  using assms
proof (induction es arbitrary: w R)
  case (Cons e es)
  show ?case
  proof (cases "\<exists>p s. e = Registered p s")
    case True
    then obtain p s where e: "e = Registered p s" by blast
    have "world_ok (insert (as_id s, as_token s) R) (presence_step ttl bg e w)"
      unfolding e by (rule register_step_ok [OF Cons.prems(1)]) (use Cons.prems e in auto)
    then have "world_ok (insert (as_id s, as_token s) R \<union> set (registrations es)) (fold (presence_step ttl bg) es (presence_step ttl bg e w))"
      by (rule Cons.IH) (use Cons.prems e in auto)
    then show ?thesis by (simp add: e)
  next
    case False
    then have "world_ok R (presence_step ttl bg e w)" using quiet_step_ok [OF Cons.prems(1)] by blast
    moreover have "registrations (e # es) = registrations es" using False by (cases e) simp_all
    ultimately show ?thesis using Cons.IH Cons.prems by simp
  qed
qed simp

lemma presence_run_ok:
  assumes "distinct (map fst (registrations es))" "distinct (map snd (registrations es))"
  shows "presence_ok (pl_live (pw_layers (presence_run ttl bg es) p))"
    and "issued (set (registrations es)) (pl_live (pw_layers (presence_run ttl bg es) p))"
proof -
  have "world_ok {} \<lparr>pw_layers = (\<lambda>_. \<lparr>pl_live = presence_new ttl bg, pl_seen = None\<rparr>), pw_file = None, pw_writes = 0\<rparr>"
    by (simp add: world_ok_def file_ok_def file_within_def)
  from world_run_ok [OF this assms, of ttl bg] have "world_ok (set (registrations es)) (presence_run ttl bg es)"
    by (simp add: presence_run_def)
  then show "presence_ok (pl_live (pw_layers (presence_run ttl bg es) p))"
    "issued (set (registrations es)) (pl_live (pw_layers (presence_run ttl bg es) p))"
    by (simp_all add: world_ok_def live_ok_def)
qed

lemma by_token_session:
  assumes "presence_ok st"
  shows "presence_by_token token st = find (\<lambda>s. as_token s = token) (list_active True st)"
proof (cases "find (\<lambda>s. as_token s = token) (list_active True st)")
  case None
  then have none: "s \<in> set (hm_vals (pg_sessions st)) \<Longrightarrow> as_token s \<noteq> token" for s
    by (auto simp: find_None_iff list_active_def)
  have "presence_by_token token st = None"
  proof (cases "hm_get (pg_by_token st) token")
    case (Some i)
    then obtain s where "hm_get (pg_sessions st) i = Some s" "as_token s = token"
      using assms unfolding presence_ok_def by blast
    then show ?thesis using none assms hm_vals_iff unfolding presence_ok_def by metis
  qed (simp add: presence_by_token_def)
  then show ?thesis using None by simp
next
  case (Some s)
  then have "s \<in> set (hm_vals (pg_sessions st))" "as_token s = token"
    by (auto simp: find_Some_iff list_active_def)
  moreover then have "hm_get (pg_sessions st) (as_id s) = Some s" using listed_session [OF assms] by blast
  ultimately have "hm_get (pg_by_token st) token = Some (as_id s)"
    using assms unfolding presence_ok_def by metis
  then show ?thesis using Some \<open>hm_get (pg_sessions st) (as_id s) = Some s\<close> by (simp add: presence_by_token_def)
qed

text \<open>
  C33: As long as identifiers and tokens are fresh, after any run of registrations, heartbeats,
  hooks, expiry, removals and restarts of processes that share the state file, in every process
  a token opens the one session there that carries it, and nothing when there is none; and it never
  opens a session but that of the agent it was registered with, in whichever process that was.
  Whether a session is still there is another matter: what one process writes after an expiry can
  lose a session that another registered meanwhile.
\<close>

theorem token_opens_its_session:
  assumes "distinct (map fst (registrations es))" "distinct (map snd (registrations es))"
  shows "presence_by_token token (pl_live (pw_layers (presence_run ttl bg es) p)) =
      find (\<lambda>s. as_token s = token) (list_active True (pl_live (pw_layers (presence_run ttl bg es) p)))
    \<and> (\<forall>s. presence_by_token token (pl_live (pw_layers (presence_run ttl bg es) p)) = Some s \<longrightarrow>
         (as_id s, token) \<in> set (registrations es))"
proof (intro conjI allI impI)
  let ?st = "pl_live (pw_layers (presence_run ttl bg es) p)"
  have ok: "presence_ok ?st" and given: "issued (set (registrations es)) ?st" using presence_run_ok [OF assms] by blast+
  show "presence_by_token token ?st = find (\<lambda>s. as_token s = token) (list_active True ?st)"
    by (rule by_token_session [OF ok])
  fix s assume "presence_by_token token ?st = Some s"
  then have "s \<in> set (list_active True ?st)" "as_token s = token"
    unfolding by_token_session [OF ok] by (auto simp: find_Some_iff)
  then have "hm_get (pg_sessions ?st) (as_id s) = Some s" using listed_session [OF ok] by (auto simp: list_active_def)
  then show "(as_id s, token) \<in> set (registrations es)"
    using given \<open>as_token s = token\<close> unfolding issued_def by blast
qed

lemma token_opens_its_session_witness:
  "let s = agent_session_new ''a1'' ''t1'' 0 ''ana'' Kimi Interactive None None;
       es = [Registered 1 s, Beat 1 ''a1'' ''t1'' 30, Refreshed 2, Tick 2 90];
       st = pl_live (pw_layers (presence_run 600 60 es) 2) in
   presence_by_token ''t1'' st = find (\<lambda>s. as_token s = ''t1'') (list_active True st)
   \<and> (\<forall>s. presence_by_token ''t1'' st = Some s \<longrightarrow> (as_id s, ''t1'') \<in> set (registrations es))"
  unfolding Let_def by (rule token_opens_its_session) code_simp+

text \<open>A heartbeat is not written to the state file. After a restart, or in another process that shares the file, an agent
  that has just checked in is expired, and the process it checked in with drops it when it next reads the file.\<close>

definition ana :: agent_session where
  "ana = agent_session_new ''a1'' ''t1'' 0 ''ana'' Kimi Interactive None None"

definition ben :: agent_session where
  "ben = agent_session_new ''b1'' ''t2'' 500 ''ben'' Kimi Interactive None None"

definition names_at :: "nat \<Rightarrow> presence_event list \<Rightarrow> string list" where
  "names_at p es = map as_name (list_active True (pl_live (pw_layers (presence_run 600 60 es) p)))"

lemma restart_forgets_heartbeats:
  "names_at 1 [Registered 1 ana, Beat 1 ''a1'' ''t1'' 590, Tick 1 600] = [''ana'']"
  "names_at 1 [Registered 1 ana, Beat 1 ''a1'' ''t1'' 590, Started 1, Tick 1 600] = []"
  by code_simp+

lemma peer_expires_a_live_agent:
  "names_at 1 [Registered 1 ana, Refreshed 2, Beat 1 ''a1'' ''t1'' 590, Tick 1 600] = [''ana'']"
  "names_at 1 [Registered 1 ana, Refreshed 2, Beat 1 ''a1'' ''t1'' 590, Tick 2 600, Refreshed 1] = []"
  by code_simp+

text \<open>The expiry loop of one process writes its own view over a registration of another process.\<close>

lemma expiry_overwrites_a_registration:
  "names_at 2 [Registered 1 ana, Registered 2 ben, Refreshed 2] = [''ana'', ''ben'']"
  "names_at 2 [Registered 1 ana, Registered 2 ben, Tick 1 600, Refreshed 2] = []"
  by code_simp+

section \<open>Recent tools\<close>

text \<open>A reload of the shared file replaces everything by what another process wrote there.\<close>

datatype activity_event =
    ToolCall string observed_tool
  | AgentDropped string
  | Reloaded "(string \<times> agent_activity) list"

fun activity_step :: "activity_event \<Rightarrow> activity_state \<Rightarrow> activity_state" where
  "activity_step (ToolCall agent t) st = record_tool agent t st"
| "activity_step (AgentDropped agent) st = drop_agent agent st"
| "activity_step (Reloaded entries) st = replace_activities entries"

text \<open>
  All the calls of an agent since it was last dropped, those a reload brought first; none when the
  tracker does not know the agent. What is written to the file is never longer than what is kept.
\<close>

fun calls_of :: "string \<Rightarrow> activity_event list \<Rightarrow> observed_tool list option \<Rightarrow> observed_tool list option" where
  "calls_of agent [] acc = acc"
| "calls_of agent (ToolCall a t # es) acc =
     calls_of agent es (if a = agent then Some ((case acc of Some ts \<Rightarrow> ts | None \<Rightarrow> []) @ [t]) else acc)"
| "calls_of agent (AgentDropped a # es) acc = calls_of agent es (if a = agent then None else acc)"
| "calls_of agent (Reloaded entries # es) acc = calls_of agent es (map_option aa_recent_tools (map_of (rev entries) agent))"

fun within_cap :: "activity_event \<Rightarrow> bool" where
  "within_cap (Reloaded entries) \<longleftrightarrow> list_all (\<lambda>(i, a). length (aa_recent_tools a) \<le> max_recent_tools) entries"
| "within_cap _ \<longleftrightarrow> True"

definition newest :: "observed_tool list \<Rightarrow> observed_tool list" where
  "newest ts = drop (length ts - max_recent_tools) ts"

definition activity_of :: "string \<Rightarrow> observed_tool list option \<Rightarrow> agent_activity option" where
  "activity_of agent acc = map_option (\<lambda>ts. \<lparr>aa_agent_id = agent, aa_recent_tools = newest ts\<rparr>) acc"

lemma newest_snoc:
  "newest (ts @ [t]) =
     (if max_recent_tools \<le> length (newest ts) then tl (newest ts) else newest ts) @ [t]"
proof (cases "max_recent_tools \<le> length ts")
  case True
  then have "newest (ts @ [t]) = drop (Suc (length ts - max_recent_tools)) ts @ [t]"
    using True by (simp add: newest_def max_recent_tools_def Suc_diff_le [symmetric])
  also have "\<dots> = tl (newest ts) @ [t]" by (simp add: newest_def drop_Suc tl_drop)
  finally show ?thesis using True by (simp add: newest_def [of ts])
qed (simp add: newest_def)

lemma record_tool_get:
  assumes "hm_get st agent = activity_of agent acc"
  shows "hm_get (record_tool agent t st) agent = activity_of agent (Some ((case acc of Some ts \<Rightarrow> ts | None \<Rightarrow> []) @ [t]))"
proof (cases acc)
  case None
  then show ?thesis using assms by (simp add: record_tool_def activity_of_def Let_def newest_def max_recent_tools_def)
next
  case (Some ts)
  then show ?thesis using assms newest_snoc [of ts t] by (simp add: record_tool_def activity_of_def Let_def)
qed

lemma record_tool_other: "a \<noteq> agent \<Longrightarrow> hm_get (record_tool a t st) agent = hm_get st agent"
  by (simp add: record_tool_def Let_def)

lemma replace_get:
  "hm_get (fold (\<lambda>(i, a). hm_put i (a\<lparr>aa_agent_id := i\<rparr>)) entries st) agent =
    (case map_of (rev entries) agent of Some a \<Rightarrow> Some (a\<lparr>aa_agent_id := agent\<rparr>) | None \<Rightarrow> hm_get st agent)"
  by (induction entries rule: rev_induct) (auto split: option.split)

lemma replace_activities_get:
  assumes "within_cap (Reloaded entries)"
  shows "hm_get (replace_activities entries) agent = activity_of agent (map_option aa_recent_tools (map_of (rev entries) agent))"
proof (cases "map_of (rev entries) agent")
  case (Some a)
  then have "(agent, a) \<in> set entries" using map_of_SomeD [OF Some] by simp
  then have "length (aa_recent_tools a) \<le> max_recent_tools" using assms by (auto simp: list_all_iff)
  then show ?thesis by (simp add: replace_activities_def replace_get Some activity_of_def newest_def)
qed (simp add: replace_activities_def replace_get activity_of_def)

lemma activity_run:
  "hm_get st agent = activity_of agent acc \<Longrightarrow> list_all within_cap es \<Longrightarrow>
   hm_get (fold activity_step es st) agent = activity_of agent (calls_of agent es acc)"
proof (induction agent es acc arbitrary: st rule: calls_of.induct)
  case (2 agent a t es acc)
  then show ?case by (cases "a = agent") (simp_all add: record_tool_get record_tool_other)
next
  case (3 agent a es acc)
  then show ?case by (cases "a = agent") (simp_all add: drop_agent_def activity_of_def)
next
  case (4 agent entries es acc)
  have "hm_get (replace_activities entries) agent = activity_of agent (map_option aa_recent_tools (map_of (rev entries) agent))"
    using 4 by (intro replace_activities_get) simp
  then show ?case using 4 by simp
qed simp

text \<open>
  C34: What is kept of an agent is exactly the newest hundred of the tool calls it made since it
  was last dropped, in order, whatever the other agents did; a reload of the shared file starts the
  list anew with what the file has of the agent, at most a hundred calls as this code writes it.
\<close>

theorem recent_tools_are_the_newest:
  assumes "list_all within_cap es"
  shows "hm_get (fold activity_step es hm_empty) agent =
    map_option (\<lambda>ts. \<lparr>aa_agent_id = agent, aa_recent_tools = drop (length ts - 100) ts\<rparr>) (calls_of agent es None)"
proof -
  have "hm_get (fold activity_step es hm_empty) agent = activity_of agent (calls_of agent es None)"
    by (rule activity_run [OF _ assms]) (simp add: activity_of_def)
  then show ?thesis by (simp add: activity_of_def newest_def max_recent_tools_def)
qed

definition sample_tool :: observed_tool where
  "sample_tool = \<lparr>ot_tool = ''get_context'', ot_target = None, ot_at = 7\<rparr>"

lemma recent_tools_are_the_newest_witness:
  "hm_get (fold activity_step [Reloaded [(''a'', \<lparr>aa_agent_id = ''x'', aa_recent_tools = [sample_tool]\<rparr>)],
      ToolCall ''a'' sample_tool, ToolCall ''b'' sample_tool] hm_empty) ''a''
    = Some \<lparr>aa_agent_id = ''a'', aa_recent_tools = [sample_tool, sample_tool]\<rparr>"
  using recent_tools_are_the_newest
      [of "[Reloaded [(''a'', \<lparr>aa_agent_id = ''x'', aa_recent_tools = [sample_tool]\<rparr>)],
        ToolCall ''a'' sample_tool, ToolCall ''b'' sample_tool]" "''a''"]
  by (simp add: max_recent_tools_def)

lemma observed_reads_distinct: "distinct (observed_reads a)"
proof -
  have "distinct out \<Longrightarrow> distinct (fold (\<lambda>t out. if is_read_tool (ot_tool t) then add_new (ot_target t) out else out) ts out)" for ts :: "observed_tool list" and out
  proof (induction ts arbitrary: out)
    case (Cons t ts)
    then show ?case by (cases "ot_target t") auto
  qed simp
  then show ?thesis by (simp add: observed_reads_def)
qed

end
