(* ===== verification/Config_Check.thy ===== *)
theory Config_Check
  imports Endpoint_Table Url_Normalize Route_Match
begin

text \<open>
  The validation of a federation's contract configuration, \<^verbatim>\<open>federation/contracts/config.rs\<close>. The
  parameters of an error message are the arguments of its constructor. The Unicode test for
  alphanumeric characters the URL normaliser needs is an argument.
\<close>

section \<open>Errors\<close>

datatype config_error =
    DuplicateService string
  | InvalidServiceName string
  | UnknownRepo string string
  | ServiceIsRepo string
  | OverlappingPaths string string string
  | OverlappingServices string string string string string
  | UpperCaseHost string string
  | EnvTwice string string string
  | HostTwice string string string
  | ProvidesUnknownService nat string
  | AliasEmpty nat
  | AliasUnknownService nat string
  | PathArgTooLarge string nat
  | ClientUnknownService string string
  | KeyNotGraphql string string
  | KeyUnparsed string string key_error
  | KeyMissingSpace string string
  | KeyEmptyPart string string
  | KeyNormalizedTo string string string
  | KeyDynamic string string
  | SiteUnparsed id_error
  | SiteElsewhere
  | BindingKeyUnparsed nat string key_error
  | BindingIncompatible nat string string
  | BindingUnknownService string
  | BindingUnknownRepo string
  | SchemaUnknownRepo string string
  | SchemaRepoWithoutService string string
  | DatabaseUnnamed
  | DuplicateDatabase string
  | DatabaseUnknownService string string
  | DatabaseSharedUnknown string string
  | TableListedTwice string string
  | TableTwice string string string

section \<open>Scans\<close>

fun first_some :: "('a \<Rightarrow> 'b option) \<Rightarrow> 'a list \<Rightarrow> 'b option" where
  "first_some f [] = None"
| "first_some f (x # xs) = (case f x of Some e \<Rightarrow> Some e | None \<Rightarrow> first_some f xs)"

text \<open>The first element already inserted into a set, and the first key already owned in a map.\<close>

fun repeated :: "'a list \<Rightarrow> 'a list \<Rightarrow> 'a option" where
  "repeated seen [] = None"
| "repeated seen (x # xs) = (if x \<in> set seen then Some x else repeated (x # seen) xs)"

fun owned_twice :: "(string \<times> string) list \<Rightarrow> (string \<times> string) list \<Rightarrow> (string \<times> string \<times> string) option" where
  "owned_twice owners [] = None"
| "owned_twice owners ((k, w) # es) =
     (case map_of owners k of Some prev \<Rightarrow> Some (k, prev, w) | None \<Rightarrow> owned_twice ((k, w) # owners) es)"

fun ordered_pairs :: "'a list \<Rightarrow> ('a \<times> 'a) list" where
  "ordered_pairs [] = []"
| "ordered_pairs (x # xs) = map (Pair x) xs @ ordered_pairs xs"

definition numbered :: "'a list \<Rightarrow> (nat \<times> 'a) list" where
  "numbered xs = zip [0..<length xs] xs"

section \<open>Keys\<close>

definition validate_http_key :: "(string \<Rightarrow> bool) \<Rightarrow> string \<Rightarrow> string \<Rightarrow> config_error option" where
  "validate_http_key alnum field key =
     (let body = (case strip_prefix ''http:'' key of Some b \<Rightarrow> b | None \<Rightarrow> key) in
      case split_once (CHR '' '') body of
        None \<Rightarrow> Some (KeyMissingSpace field key)
      | Some (m, template) \<Rightarrow>
          if m = [] \<or> template = [] then Some (KeyEmptyPart field key)
          else case parse_key (''http:'' @ body) of
                 Inl e \<Rightarrow> Some (KeyUnparsed field key e)
               | Inr k \<Rightarrow>
                   (case nu_template (normalize_url alnum [LitPart template]) of
                      Some t \<Rightarrow> if t = template then None else Some (KeyNormalizedTo field key t)
                    | None \<Rightarrow> Some (KeyDynamic field key)))"

definition validate_key :: "(string \<Rightarrow> bool) \<Rightarrow> string \<Rightarrow> string \<Rightarrow> config_error option" where
  "validate_key alnum field key =
     (if starts_with ''graphql:'' key then
        (case parse_key key of
           Inr (KGraphql oper f) \<Rightarrow> if f \<noteq> [] then None else Some (KeyNotGraphql field key)
         | Inr k \<Rightarrow> Some (KeyNotGraphql field key)
         | Inl e \<Rightarrow> Some (KeyUnparsed field key e))
      else if list_ex (\<lambda>p. starts_with p key) [''topic:'', ''rpc:'', ''ws:'', ''websocket:'', ''table:''] then
        (case parse_key key of Inr k \<Rightarrow> None | Inl e \<Rightarrow> Some (KeyUnparsed field key e))
      else validate_http_key alnum field key)"

section \<open>The checks, in order\<close>

definition max_path_arg :: nat where
  "max_path_arg = 5"

definition is_ascii_uppercase :: "char \<Rightarrow> bool" where
  "is_ascii_uppercase c \<longleftrightarrow> 65 \<le> (of_char c :: nat) \<and> (of_char c :: nat) \<le> 90"

definition known_services :: "string list \<Rightarrow> contract_config \<Rightarrow> string set" where
  "known_services repo_ids config = set (map sd_name (cg_services config)) \<union> set repo_ids"

definition check_service_names :: "string list \<Rightarrow> contract_config \<Rightarrow> config_error option list" where
  "check_service_names repo_ids config =
     [map_option DuplicateService (repeated [] (map sd_name (cg_services config))),
      first_some (\<lambda>s. if service_name_is_valid (sd_name s) then None else Some (InvalidServiceName (sd_name s))) (cg_services config),
      first_some (\<lambda>s. if sd_repo s \<in> set repo_ids then None else Some (UnknownRepo (sd_name s) (sd_repo s))) (cg_services config),
      first_some (\<lambda>s. if list_ex (\<lambda>r. r = sd_name s \<and> r \<noteq> sd_repo s) repo_ids then Some (ServiceIsRepo (sd_name s)) else None)
        (cg_services config)]"

definition check_paths :: "contract_config \<Rightarrow> config_error option list" where
  "check_paths config =
     [first_some (\<lambda>s. first_some (\<lambda>(a, b). if path_prefixes_overlap a b then Some (OverlappingPaths (sd_name s) a b) else None)
          (ordered_pairs (sd_paths s))) (cg_services config),
      first_some (\<lambda>(s1, s2).
          if sd_repo s1 = sd_repo s2
          then first_some (\<lambda>(a, b). if path_prefixes_overlap a b
                   then Some (OverlappingServices (sd_name s1) (sd_name s2) (sd_repo s1) a b) else None)
                 (List.product (sd_paths s1) (sd_paths s2))
          else None) (ordered_pairs (cg_services config))]"

definition owners :: "(service_decl \<Rightarrow> string list) \<Rightarrow> contract_config \<Rightarrow> (string \<times> string) list" where
  "owners f config = concat (map (\<lambda>s. map (\<lambda>x. (x, sd_name s)) (f s)) (cg_services config))"

definition check_hosts_and_env :: "contract_config \<Rightarrow> config_error option list" where
  "check_hosts_and_env config =
     [first_some (\<lambda>s. first_some (\<lambda>h. if list_ex is_ascii_uppercase h then Some (UpperCaseHost (sd_name s) h) else None) (sd_hosts s))
        (cg_services config),
      map_option (\<lambda>(k, prev, w). EnvTwice k prev w) (owned_twice [] (owners sd_env config)),
      map_option (\<lambda>(k, prev, w). HostTwice k prev w) (owned_twice [] (owners sd_hosts config))]"

definition check_provides :: "(string \<Rightarrow> bool) \<Rightarrow> string list \<Rightarrow> contract_config \<Rightarrow> config_error option list" where
  "check_provides alnum repo_ids config =
     [first_some (\<lambda>(i, p).
          if pd_service p \<notin> known_services repo_ids config then Some (ProvidesUnknownService i (pd_service p))
          else validate_key alnum (''provides['' @ show_nat i @ '']'') (pd_key p)) (numbered (cg_provides config)),
      first_some (\<lambda>(i, a).
          if ha_host a = None \<and> ha_file a = None then Some (AliasEmpty i)
          else if ha_service a \<notin> known_services repo_ids config then Some (AliasUnknownService i (ha_service a))
          else None) (numbered (cg_host_aliases config))]"

definition check_clients :: "string list \<Rightarrow> contract_config \<Rightarrow> config_error option list" where
  "check_clients repo_ids config =
     [first_some (\<lambda>c. case hd_path_arg c of Some p \<Rightarrow> if max_path_arg < p then Some (PathArgTooLarge (hd_call c) p) else None | None \<Rightarrow> None)
        (cg_http_clients config),
      first_some (\<lambda>c. if hd_service c \<notin> known_services repo_ids config then Some (ClientUnknownService (hd_call c) (hd_service c)) else None)
        (cg_http_clients config)]"

definition check_site :: "confirmed_consumer \<Rightarrow> config_error option" where
  "check_site c =
     (case cc_site c of
        None \<Rightarrow> None
      | Some site \<Rightarrow>
          (case gid_parse site of
             Inl e \<Rightarrow> Some (SiteUnparsed e)
           | Inr g \<Rightarrow> if gid_repo_id g \<noteq> cc_repo c \<or> gid_path g \<noteq> Some (cc_path c) then Some SiteElsewhere else None))"

definition check_binding_pair :: "nat \<times> confirmed_binding \<Rightarrow> config_error option" where
  "check_binding_pair entry =
     (case entry of (i, b) \<Rightarrow>
        (case parse_contract_key (cc_key (cb_consumer b)) of
           Inl e \<Rightarrow> Some (BindingKeyUnparsed i (cc_key (cb_consumer b)) e)
         | Inr consumer \<Rightarrow>
             (case parse_contract_key (cp_key (cb_provider b)) of
                Inl e \<Rightarrow> Some (BindingKeyUnparsed i (cp_key (cb_provider b)) e)
              | Inr provider \<Rightarrow>
                  if keys_compatible consumer provider then None
                  else Some (BindingIncompatible i (cc_key (cb_consumer b)) (cp_key (cb_provider b))))))"

definition check_bindings :: "(string \<Rightarrow> bool) \<Rightarrow> string list \<Rightarrow> contract_config \<Rightarrow> config_error option list" where
  "check_bindings alnum repo_ids config =
     [first_some (\<lambda>b. first_some id
          [validate_key alnum ''bindings.consumer.key'' (cc_key (cb_consumer b)), check_site (cb_consumer b),
           validate_key alnum ''bindings.provider.key'' (cp_key (cb_provider b))]) (cg_bindings config),
      first_some check_binding_pair (numbered (cg_bindings config)),
      first_some (validate_key alnum ''generic_keys'') (cg_generic_keys config),
      first_some (\<lambda>b. if cp_service (cb_provider b) \<notin> known_services repo_ids config
          then Some (BindingUnknownService (cp_service (cb_provider b))) else None) (cg_bindings config),
      first_some (\<lambda>b. if cc_repo (cb_consumer b) \<notin> set repo_ids
          then Some (BindingUnknownRepo (cc_repo (cb_consumer b))) else None) (cg_bindings config)]"

definition check_schemas :: "string list \<Rightarrow> contract_config \<Rightarrow> config_error option list" where
  "check_schemas repo_ids config =
     [first_some (\<lambda>s.
          if sc_repo s \<notin> set repo_ids then Some (SchemaUnknownRepo (sc_topic s) (sc_repo s))
          else if \<not> list_ex (\<lambda>svc. sd_repo svc = sc_repo s) (cg_services config)
          then Some (SchemaRepoWithoutService (sc_topic s) (sc_repo s)) else None) (cg_schemas config)]"

fun check_database_list :: "string set \<Rightarrow> string list \<Rightarrow> database_decl list \<Rightarrow> config_error option" where
  "check_database_list known seen [] = None"
| "check_database_list known seen (db # dbs) =
     (if dd_name db = [] then Some DatabaseUnnamed
      else if dd_name db \<in> set seen then Some (DuplicateDatabase (dd_name db))
      else if dd_service db \<notin> known then Some (DatabaseUnknownService (dd_name db) (dd_service db))
      else case find (\<lambda>s. s \<notin> known) (dd_shared_with db) of
             Some s \<Rightarrow> Some (DatabaseSharedUnknown (dd_name db) s)
           | None \<Rightarrow>
               (case repeated [] (dd_tables db) of
                  Some t \<Rightarrow> Some (TableListedTwice t (dd_name db))
                | None \<Rightarrow> check_database_list known (dd_name db # seen) dbs))"

definition check_databases :: "string list \<Rightarrow> contract_config \<Rightarrow> config_error option list" where
  "check_databases repo_ids config =
     [check_database_list (known_services repo_ids config) [] (cg_databases config),
      map_option (\<lambda>(k, prev, w). TableTwice k prev w)
        (owned_twice [] (concat (map (\<lambda>db. map (\<lambda>t. (t, dd_name db)) (dd_tables db)) (cg_databases config))))]"

definition validate_config :: "(string \<Rightarrow> bool) \<Rightarrow> string list \<Rightarrow> contract_config \<Rightarrow> config_error + unit" where
  "validate_config alnum repo_ids config =
     (case first_some id
          (check_service_names repo_ids config @ check_paths config @ check_hosts_and_env config
           @ check_provides alnum repo_ids config @ check_clients repo_ids config
           @ check_bindings alnum repo_ids config @ check_schemas repo_ids config @ check_databases repo_ids config) of
        Some e \<Rightarrow> Inl e
      | None \<Rightarrow> Inr ())"

section \<open>What a valid configuration promises\<close>

lemma first_some_None: "first_some f xs = None \<longleftrightarrow> list_all (\<lambda>x. f x = None) xs"
  by (induction xs) (auto split: option.split)

lemma first_some_if:
  "first_some (\<lambda>(a, b). if P a b then Some (g a b) else None) xs = None \<longleftrightarrow> list_all (\<lambda>(a, b). \<not> P a b) xs"
  unfolding first_some_None by (auto simp: list_all_iff split: if_splits)

lemma repeated_None: "repeated seen xs = None \<longleftrightarrow> distinct xs \<and> set xs \<inter> set seen = {}"
  by (induction seen xs rule: repeated.induct) auto

lemma owned_twice_None: "owned_twice ws es = None \<longleftrightarrow> distinct (map fst es) \<and> fst ` set es \<inter> fst ` set ws = {}"
proof (induction ws es rule: owned_twice.induct)
  case (2 ws k w es)
  show ?case
  proof (cases "map_of ws k")
    case None
    then have "k \<notin> fst ` set ws" by (simp add: map_of_eq_None_iff)
    then show ?thesis using 2 None by auto
  next
    case (Some prev)
    then have "k \<in> fst ` set ws" by (metis map_of_eq_None_iff option.distinct(1))
    then show ?thesis using Some by auto
  qed
qed simp

lemma owners_keys: "map fst (owners f config) = concat (map f (cg_services config))"
  by (simp add: owners_def map_concat comp_def)

text \<open>A declared path covers itself and what lies under it.\<close>

definition covers :: "string \<Rightarrow> string \<Rightarrow> bool" where
  "covers a p \<longleftrightarrow> a = p \<or> length a < length p \<and> starts_with a p \<and> (ends_with ''/'' a \<or> p ! length a = CHR ''/'')"

lemma covers_shorter:
  assumes "covers a p" "covers b p" "length a \<le> length b"
  shows "path_prefixes_overlap a b"
proof (cases "a = b")
  case True
  then show ?thesis by (simp add: path_prefixes_overlap_def)
next
  case False
  have pre: "prefix a p" "prefix b p" using assms(1,2) by (auto simp: covers_def starts_with_def)
  then have ab: "prefix a b" using assms(3) by (metis prefix_length_prefix)
  then have less: "length a < length b" using False by (metis prefix_length_le le_neq_implies_less prefix_order.antisym prefix_length_prefix prefix_order.refl)
  then have "a \<noteq> p" using pre(2) prefix_length_le by fastforce
  then have "ends_with ''/'' a \<or> p ! length a = CHR ''/''" using assms(1) by (simp add: covers_def)
  moreover have "p ! length a = b ! length a" using pre(2) less by (auto simp: prefix_def nth_append)
  ultimately show ?thesis using ab less False by (simp add: path_prefixes_overlap_def starts_with_def)
qed

lemma overlap_sym: "path_prefixes_overlap a b = path_prefixes_overlap b a"
  by (auto simp: path_prefixes_overlap_def)

lemma overlap_iff: "path_prefixes_overlap a b \<longleftrightarrow> (\<exists>p. covers a p \<and> covers b p)"
proof
  assume "path_prefixes_overlap a b"
  then show "\<exists>p. covers a p \<and> covers b p"
    by (intro exI [of _ "if length a < length b then b else a"])
       (auto simp: path_prefixes_overlap_def covers_def split: if_splits)
next
  assume "\<exists>p. covers a p \<and> covers b p"
  then show "path_prefixes_overlap a b"
    using covers_shorter overlap_sym by (metis linorder_le_cases)
qed

lemma ordered_pairs_all: "list_all (\<lambda>(x, y). P x y) (ordered_pairs xs) \<longleftrightarrow> sorted_wrt P xs"
  by (induction xs) (auto simp: list_all_iff)

definition apart :: "string \<Rightarrow> string \<Rightarrow> bool" where
  "apart a b \<longleftrightarrow> \<not> path_prefixes_overlap a b"

lemma at_most_one_covers:
  "sorted_wrt apart ps \<Longrightarrow> length (filter (\<lambda>a. covers a path) ps) \<le> 1"
proof (induction ps)
  case (Cons a ps)
  show ?case
  proof (cases "covers a path")
    case True
    then have "filter (\<lambda>b. covers b path) ps = []"
      using Cons.prems by (auto simp: filter_empty_conv apart_def overlap_iff)
    then show ?thesis using True by simp
  qed (use Cons in simp)
qed simp

definition repo_paths :: "string \<Rightarrow> contract_config \<Rightarrow> string list" where
  "repo_paths repo config = concat (map sd_paths (filter (\<lambda>s. sd_repo s = repo) (cg_services config)))"

lemma concat_apart:
  "list_all (\<lambda>s. sorted_wrt apart (sd_paths s)) ss
   \<Longrightarrow> sorted_wrt (\<lambda>s t. sd_repo s = sd_repo t \<longrightarrow> (\<forall>a\<in>set (sd_paths s). \<forall>b\<in>set (sd_paths t). apart a b)) ss
   \<Longrightarrow> sorted_wrt apart (concat (map sd_paths (filter (\<lambda>s. sd_repo s = repo) ss)))"
  by (induction ss) (auto simp: sorted_wrt_append)

lemma check_paths_apart:
  assumes "list_all (\<lambda>c. c = None) (check_paths config)"
  shows "sorted_wrt apart (repo_paths repo config)"
  unfolding repo_paths_def
proof (rule concat_apart)
  have "list_all (\<lambda>s. first_some (\<lambda>(a, b). if path_prefixes_overlap a b then Some (OverlappingPaths (sd_name s) a b) else None)
      (ordered_pairs (sd_paths s)) = None) (cg_services config)"
    using assms unfolding check_paths_def by (simp add: first_some_None [of _ "cg_services config"])
  then have "list_all (\<lambda>s. list_all (\<lambda>(a, b). apart a b) (ordered_pairs (sd_paths s))) (cg_services config)"
    unfolding first_some_if apart_def .
  then show "list_all (\<lambda>s. sorted_wrt apart (sd_paths s)) (cg_services config)"
    unfolding ordered_pairs_all .
  have pairs: "list_all (\<lambda>e. (case e of (s, t) \<Rightarrow>
      if sd_repo s = sd_repo t
      then first_some (\<lambda>(a, b). if path_prefixes_overlap a b
               then Some (OverlappingServices (sd_name s) (sd_name t) (sd_repo s) a b) else None)
             (List.product (sd_paths s) (sd_paths t))
      else None) = None) (ordered_pairs (cg_services config))"
    using assms unfolding check_paths_def by (simp add: first_some_None [of _ "ordered_pairs (cg_services config)"])
  have "list_all (\<lambda>(s, t). sd_repo s = sd_repo t \<longrightarrow> (\<forall>a\<in>set (sd_paths s). \<forall>b\<in>set (sd_paths t). apart a b))
      (ordered_pairs (cg_services config))"
  proof (rule list.pred_mono_strong [OF pairs], clarify)
    fix s t a b
    assume same: "(if sd_repo s = sd_repo t
        then first_some (\<lambda>(a, b). if path_prefixes_overlap a b
                 then Some (OverlappingServices (sd_name s) (sd_name t) (sd_repo s) a b) else None)
               (List.product (sd_paths s) (sd_paths t))
        else None) = None" "sd_repo s = sd_repo t" and ab: "a \<in> set (sd_paths s)" "b \<in> set (sd_paths t)"
    have "list_all (\<lambda>(a, b). \<not> path_prefixes_overlap a b) (List.product (sd_paths s) (sd_paths t))"
      using same(1) by (simp only: same(2) simp_thms if_True first_some_if)
    then show "apart a b" using ab by (auto simp: list_all_iff apart_def)
  qed
  then show "sorted_wrt (\<lambda>s t. sd_repo s = sd_repo t \<longrightarrow> (\<forall>a\<in>set (sd_paths s). \<forall>b\<in>set (sd_paths t). apart a b)) (cg_services config)"
    unfolding ordered_pairs_all .
qed

lemma valid_checks:
  assumes "validate_config alnum repo_ids config = Inr ()"
  shows "list_all (\<lambda>c. c = None) (check_service_names repo_ids config)"
    and "list_all (\<lambda>c. c = None) (check_paths config)"
    and "list_all (\<lambda>c. c = None) (check_hosts_and_env config)"
    and "list_all (\<lambda>c. c = None) (check_bindings alnum repo_ids config)"
    and "list_all (\<lambda>c. c = None) (check_databases repo_ids config)"
  using assms unfolding validate_config_def
  by (simp_all add: first_some_None id_def split: option.splits)

lemma binding_pair_None:
  "check_binding_pair (i, b) = None \<Longrightarrow>
   case (parse_contract_key (cc_key (cb_consumer b)), parse_contract_key (cp_key (cb_provider b))) of
     (Inr ck, Inr pk) \<Rightarrow> keys_compatible ck pk | _ \<Rightarrow> False"
  by (auto simp: check_binding_pair_def split: sum.splits if_splits)

lemma numbered_snd: "list_all (\<lambda>(i, x). P x) (numbered xs) \<longleftrightarrow> list_all P xs"
proof -
  have "list_all (\<lambda>(i, x). P x) (zip is xs) \<longleftrightarrow> list_all P xs" if "length is = length xs" for "is" :: "nat list"
    using that by (induction "is" xs rule: list_induct2) simp_all
  then show ?thesis by (simp add: numbered_def)
qed

text \<open>C32: a configuration that passes the validation is unambiguous: no path of a repository lies under two declared
  paths, service names differ and are well formed, no host, no environment variable and no table is listed
  twice, and every confirmed binding joins two keys that parse and fit.\<close>

lemma valid_config_is_unambiguous:
  assumes "validate_config alnum repo_ids config = Inr ()"
  shows "length (filter (\<lambda>a. covers a path) (repo_paths repo config)) \<le> 1
    \<and> distinct (map sd_name (cg_services config))
    \<and> list_all (\<lambda>s. service_name_is_valid (sd_name s) \<and> sd_repo s \<in> set repo_ids) (cg_services config)
    \<and> distinct (concat (map sd_hosts (cg_services config)))
    \<and> distinct (concat (map sd_env (cg_services config)))
    \<and> distinct (concat (map dd_tables (cg_databases config)))
    \<and> list_all (\<lambda>b. case (parse_contract_key (cc_key (cb_consumer b)), parse_contract_key (cp_key (cb_provider b))) of
          (Inr ck, Inr pk) \<Rightarrow> keys_compatible ck pk | _ \<Rightarrow> False) (cg_bindings config)"
proof (intro conjI)
  note checks = valid_checks [OF assms]
  show "length (filter (\<lambda>a. covers a path) (repo_paths repo config)) \<le> 1"
    by (rule at_most_one_covers [OF check_paths_apart [OF checks(2)]])
  show "distinct (map sd_name (cg_services config))"
    using checks(1) by (simp add: check_service_names_def repeated_None)
  show "list_all (\<lambda>s. service_name_is_valid (sd_name s) \<and> sd_repo s \<in> set repo_ids) (cg_services config)"
    using checks(1) by (auto simp: check_service_names_def first_some_None list_all_iff split: if_splits)
  show "distinct (concat (map sd_hosts (cg_services config)))" "distinct (concat (map sd_env (cg_services config)))"
    using checks(3) by (simp_all add: check_hosts_and_env_def owned_twice_None owners_keys)
  show "distinct (concat (map dd_tables (cg_databases config)))"
    using checks(5) by (simp add: check_databases_def owned_twice_None map_concat comp_def)
  have "list_all (\<lambda>e. check_binding_pair e = None) (numbered (cg_bindings config))"
    using checks(4) by (simp add: check_bindings_def first_some_None)
  then have "list_all (\<lambda>(i, b). case (parse_contract_key (cc_key (cb_consumer b)), parse_contract_key (cp_key (cb_provider b))) of
      (Inr ck, Inr pk) \<Rightarrow> keys_compatible ck pk | _ \<Rightarrow> False) (numbered (cg_bindings config))"
    unfolding list_all_iff using binding_pair_None by (metis (no_types, lifting) case_prodI2)
  then show "list_all (\<lambda>b. case (parse_contract_key (cc_key (cb_consumer b)), parse_contract_key (cp_key (cb_provider b))) of
      (Inr ck, Inr pk) \<Rightarrow> keys_compatible ck pk | _ \<Rightarrow> False) (cg_bindings config)"
    unfolding numbered_snd .
qed

text \<open>Two services of one repository: the web front calls the orders service on a confirmed binding.\<close>

definition shop_config :: contract_config where
  "shop_config =
     \<lparr>cg_services =
        [(service_default ''web'')\<lparr>sd_repo := ''shop'', sd_paths := [''web'']\<rparr>,
         (service_default ''orders'')\<lparr>sd_repo := ''shop'', sd_paths := [''orders''], sd_hosts := [''orders.local''], sd_env := [''ORDERS_URL'']\<rparr>],
      cg_http_clients = [], cg_generic_keys = [], cg_schemas = [],
      cg_bindings =
        [\<lparr>cb_consumer = \<lparr>cc_repo = ''shop'', cc_path = ''web/a.ts'', cc_symbol = ''list'', cc_key = ''GET /orders'', cc_site = None\<rparr>,
          cb_provider = \<lparr>cp_service = ''orders'', cp_key = ''GET /orders''\<rparr>\<rparr>],
      cg_databases = [\<lparr>dd_name = ''main'', dd_service = ''orders'', dd_tables = [''orders''], dd_shared_with = []\<rparr>],
      cg_provides = [], cg_host_aliases = []\<rparr>"

lemma valid_config_is_unambiguous_witness:
  "length (filter (\<lambda>a. covers a ''web/a.ts'') (repo_paths ''shop'' shop_config)) \<le> 1"
proof -
  have "validate_config (\<lambda>c. False) [''shop''] shop_config = Inr ()" by code_simp
  from valid_config_is_unambiguous [OF this, of "''web/a.ts''" "''shop''"]
  show ?thesis by (rule conjunct1)
qed

end
