(* ===== verification/Cross_Repo.thy ===== *)
theory Cross_Repo
  imports Global_Id Schema "HOL-Library.Product_Lexorder"
begin

text \<open>
  Which symbols of other repositories look like one of ours, \<^verbatim>\<open>federation/matching.rs\<close>: the
  direct comparison of all signatures and the inverted index that replaces it. A similarity is the
  cosine of two token counts and never negative; it is kept as its square, an exact rational, so
  that no root is taken. Unicode's alphanumeric characters and case mapping are arguments.
\<close>

section \<open>Tokens\<close>

definition signature_stop_words :: "string list" where
  "signature_stop_words =
     [''pub'', ''private'', ''protected'', ''public'', ''export'', ''default'', ''static'', ''async'', ''const'',
      ''let'', ''var'', ''final'', ''abstract'', ''override'', ''virtual'', ''unsafe'', ''fn'', ''def'', ''function'',
      ''class'', ''struct'', ''enum'', ''interface'', ''trait'', ''impl'', ''type'', ''record'', ''data'', ''use'',
      ''import'', ''from'', ''module'', ''namespace'', ''extern'', ''crate'', ''self'', ''cls'', ''func'', ''method'',
      ''new'']"

datatype match_confidence = SignatureMatch | NameOnly

fun split_runs :: "(string \<Rightarrow> bool) \<Rightarrow> string list \<Rightarrow> string \<Rightarrow> string list" where
  "split_runs keep [] w = [w]"
| "split_runs keep (c # cs) w = (if keep c then split_runs keep cs (w @ c) else w # split_runs keep cs [])"

definition non_stop_tokens :: "string list \<Rightarrow> string list" where
  "non_stop_tokens ts = filter (\<lambda>t. t \<notin> set signature_stop_words) ts"

definition signature_tokens :: "(string \<Rightarrow> bool) \<Rightarrow> (string \<Rightarrow> string) \<Rightarrow> string \<Rightarrow> string list" where
  "signature_tokens alnum lower sig =
     non_stop_tokens (map lower (filter (\<lambda>w. w \<noteq> []) (split_runs (\<lambda>c. alnum c \<or> c = ''_'') (utf8_chars sig) [])))"

definition usable_signature :: "graph_node \<Rightarrow> string option" where
  "usable_signature n = (case gn_signature n of Some sig \<Rightarrow> if sig = [] then None else Some sig | None \<Rightarrow> None)"

definition repo_of_id :: "string \<Rightarrow> string option" where
  "repo_of_id i = (case gid_parse i of Inr g \<Rightarrow> Some (gid_repo_id g) | Inl _ \<Rightarrow> None)"

section \<open>The direct comparison\<close>

definition bump_left :: "string \<Rightarrow> (string, nat \<times> nat) hmap \<Rightarrow> (string, nat \<times> nat) hmap" where
  "bump_left t m = (case hm_get m t of Some (a, b) \<Rightarrow> hm_put t (Suc a, b) m | None \<Rightarrow> hm_put t (1, 0) m)"

definition bump_right :: "string \<Rightarrow> (string, nat \<times> nat) hmap \<Rightarrow> (string, nat \<times> nat) hmap" where
  "bump_right t m = (case hm_get m t of Some (a, b) \<Rightarrow> hm_put t (a, Suc b) m | None \<Rightarrow> hm_put t (0, 1) m)"

definition cosine_sq :: "nat \<Rightarrow> nat \<Rightarrow> nat \<Rightarrow> rat" where
  "cosine_sq dot norm_a norm_b = of_nat (dot * dot) / of_nat (norm_a * norm_b)"

definition signature_similarity :: "string list \<Rightarrow> string list \<Rightarrow> rat" where
  "signature_similarity a b =
     (if a = [] \<or> b = [] then 0
      else
        let counts = hm_vals (fold bump_right b (fold bump_left a hm_empty));
            dot = sum_list (map (\<lambda>(x, y). x * y) counts);
            norm_a = sum_list (map (\<lambda>(x, y). x * x) counts);
            norm_b = sum_list (map (\<lambda>(x, y). y * y) counts) in
        if norm_a * norm_b = 0 then 0 else cosine_sq dot norm_a norm_b)"

definition reaches_threshold :: "rat \<Rightarrow> rat \<Rightarrow> bool" where
  "reaches_threshold threshold sim_sq \<longleftrightarrow> threshold \<le> 0 \<or> threshold * threshold \<le> sim_sq"

type_synonym repo_match = "string \<times> rat \<times> match_confidence"

definition best_matches :: "nat \<Rightarrow> repo_match list \<Rightarrow> repo_match list" where
  "best_matches top_k scored = take top_k (sort_key (\<lambda>(i, s, _). (- s, i)) scored)"

definition tokens_or_name ::
    "(string \<Rightarrow> bool) \<Rightarrow> (string \<Rightarrow> string) \<Rightarrow> bool \<Rightarrow> graph_node \<Rightarrow> string list option" where
  "tokens_or_name alnum lower allow_name_only n =
     (case usable_signature n of
        Some sig \<Rightarrow> Some (signature_tokens alnum lower sig)
      | None \<Rightarrow> if allow_name_only then Some [lower (gn_name n)] else None)"

definition match_confidence_of ::
    "bool \<Rightarrow> graph_node \<Rightarrow> graph_node \<Rightarrow> string list \<Rightarrow> string list \<Rightarrow> match_confidence option" where
  "match_confidence_of allow_name_only n c new_tokens tokens =
     (if usable_signature n \<noteq> None \<and> usable_signature c \<noteq> None
         \<and> list_ex (\<lambda>t. t \<in> set (non_stop_tokens tokens)) (non_stop_tokens new_tokens)
      then Some SignatureMatch
      else if allow_name_only then Some NameOnly else None)"

definition score_candidate ::
    "(string \<Rightarrow> bool) \<Rightarrow> (string \<Rightarrow> string) \<Rightarrow> bool \<Rightarrow> rat \<Rightarrow> graph_node \<Rightarrow> string list \<Rightarrow> graph_node \<Rightarrow> repo_match option" where
  "score_candidate alnum lower allow_name_only threshold n new_tokens c =
     (case repo_of_id (gn_id c) of
        None \<Rightarrow> None
      | Some repo \<Rightarrow>
          if Some repo = repo_of_id (gn_id n) then None
          else (case tokens_or_name alnum lower allow_name_only c of
                  None \<Rightarrow> None
                | Some tokens \<Rightarrow>
                    (case match_confidence_of allow_name_only n c new_tokens tokens of
                       None \<Rightarrow> None
                     | Some confidence \<Rightarrow>
                         let similarity = signature_similarity new_tokens tokens in
                         if reaches_threshold threshold similarity then Some (gn_id c, similarity, confidence) else None)))"

definition find_cross_repo_matches ::
    "(string \<Rightarrow> bool) \<Rightarrow> (string \<Rightarrow> string) \<Rightarrow> graph_node \<Rightarrow> graph_node list \<Rightarrow> nat \<Rightarrow> rat \<Rightarrow> bool \<Rightarrow> repo_match list" where
  "find_cross_repo_matches alnum lower n candidates top_k threshold allow_name_only =
     (if gn_type n \<notin> set (edge_source_types ET_CrossRepoSameSymbol) then []
      else
        let symbols = filter (\<lambda>c. gn_type c \<in> set (edge_target_types ET_CrossRepoSameSymbol)) candidates in
        case tokens_or_name alnum lower allow_name_only n of
          None \<Rightarrow> []
        | Some new_tokens \<Rightarrow>
            best_matches top_k
              (List.map_filter (score_candidate alnum lower allow_name_only threshold n new_tokens) symbols))"

section \<open>The inverted index\<close>

record indexed_candidate =
  ic_node :: graph_node
  ic_repo :: string
  ic_norm_sq :: nat

record cross_repo_matcher =
  cm_candidates :: "indexed_candidate list"
  cm_token_to_id :: "(string, nat) hmap"
  cm_postings :: "(nat \<times> nat) list list"
  cm_by_id :: "(string, graph_node) hmap"

definition bump :: "nat \<Rightarrow> 'k \<Rightarrow> ('k, nat) hmap \<Rightarrow> ('k, nat) hmap" where
  "bump amount k m = hm_put k ((case hm_get m k of Some c \<Rightarrow> c | None \<Rightarrow> 0) + amount) m"

definition count_tokens :: "string list \<Rightarrow> (string, nat) hmap" where
  "count_tokens ts = fold (bump 1) ts hm_empty"

definition norm_sq :: "(string, nat) hmap \<Rightarrow> nat" where
  "norm_sq counts = sum_list (map (\<lambda>c. c * c) (hm_vals counts))"

definition add_posting :: "nat \<Rightarrow> string \<times> nat \<Rightarrow> cross_repo_matcher \<Rightarrow> cross_repo_matcher" where
  "add_posting idx entry m =
     (case entry of (tok, count) \<Rightarrow>
        (case hm_get (cm_token_to_id m) tok of
           Some tid \<Rightarrow> m\<lparr>cm_postings := (cm_postings m)[tid := cm_postings m ! tid @ [(idx, count)]]\<rparr>
         | None \<Rightarrow> m\<lparr>cm_token_to_id := hm_put tok (length (cm_postings m)) (cm_token_to_id m),
                     cm_postings := cm_postings m @ [[(idx, count)]]\<rparr>))"

definition index_tokens :: "graph_node \<Rightarrow> string \<Rightarrow> string list \<Rightarrow> cross_repo_matcher \<Rightarrow> cross_repo_matcher" where
  "index_tokens c repo tokens m =
     (let counts = count_tokens tokens in
      if norm_sq counts = 0 then m
      else (fold (add_posting (length (cm_candidates m))) counts m)
             \<lparr>cm_candidates := cm_candidates m @ [\<lparr>ic_node = c, ic_repo = repo, ic_norm_sq = norm_sq counts\<rparr>]\<rparr>)"

definition index_candidate ::
    "(string \<Rightarrow> bool) \<Rightarrow> (string \<Rightarrow> string) \<Rightarrow> graph_node \<Rightarrow> cross_repo_matcher \<Rightarrow> cross_repo_matcher" where
  "index_candidate alnum lower c m0 =
     (let m = m0\<lparr>cm_by_id := hm_put (gn_id c) c (cm_by_id m0)\<rparr> in
      if gn_type c \<notin> set (edge_target_types ET_CrossRepoSameSymbol) then m
      else case usable_signature c of
             None \<Rightarrow> m
           | Some sig \<Rightarrow>
               (case repo_of_id (gn_id c) of
                  None \<Rightarrow> m
                | Some repo \<Rightarrow>
                    let tokens = signature_tokens alnum lower sig in
                    if tokens = [] then m else index_tokens c repo tokens m))"

definition matcher_new :: "(string \<Rightarrow> bool) \<Rightarrow> (string \<Rightarrow> string) \<Rightarrow> graph_node list \<Rightarrow> cross_repo_matcher" where
  "matcher_new alnum lower candidates =
     fold (index_candidate alnum lower) candidates
       \<lparr>cm_candidates = [], cm_token_to_id = hm_empty, cm_postings = [], cm_by_id = hm_empty\<rparr>"

definition node_by_id :: "cross_repo_matcher \<Rightarrow> string \<Rightarrow> graph_node option" where
  "node_by_id m i = hm_get (cm_by_id m) i"

definition token_dots :: "cross_repo_matcher \<Rightarrow> string \<times> nat \<Rightarrow> (nat, nat) hmap \<Rightarrow> (nat, nat) hmap" where
  "token_dots m entry dots =
     (case entry of (tok, count_a) \<Rightarrow>
        (case hm_get (cm_token_to_id m) tok of
           Some tid \<Rightarrow> fold (\<lambda>(idx, count_b). bump (count_a * count_b) idx) (cm_postings m ! tid) dots
         | None \<Rightarrow> dots))"

definition score_indexed :: "cross_repo_matcher \<Rightarrow> rat \<Rightarrow> graph_node \<Rightarrow> nat \<Rightarrow> nat \<times> nat \<Rightarrow> repo_match option" where
  "score_indexed m threshold n norm_a entry =
     (case entry of (idx, dot) \<Rightarrow>
        let c = cm_candidates m ! idx in
        if Some (ic_repo c) = repo_of_id (gn_id n) then None
        else if norm_a * ic_norm_sq c = 0 then None
        else
          let similarity = cosine_sq dot norm_a (ic_norm_sq c) in
          if reaches_threshold threshold similarity then Some (gn_id (ic_node c), similarity, SignatureMatch) else None)"

definition find_matches ::
    "(string \<Rightarrow> bool) \<Rightarrow> (string \<Rightarrow> string) \<Rightarrow> cross_repo_matcher \<Rightarrow> graph_node \<Rightarrow> nat \<Rightarrow> rat \<Rightarrow> repo_match list" where
  "find_matches alnum lower m n top_k threshold =
     (if gn_type n \<notin> set (edge_source_types ET_CrossRepoSameSymbol) then []
      else case usable_signature n of
             None \<Rightarrow> []
           | Some sig \<Rightarrow>
               let new_tokens = signature_tokens alnum lower sig in
               if new_tokens = [] then []
               else
                 let counts = count_tokens new_tokens; norm_a = norm_sq counts in
                 if norm_a = 0 then []
                 else best_matches top_k
                        (List.map_filter (score_indexed m threshold n norm_a) (fold (token_dots m) counts hm_empty)))"

end
