(* ===== verification/Cross_Repo_Props.thy ===== *)
theory Cross_Repo_Props
  imports Cross_Repo "HOL-Library.Multiset"
begin

text \<open>The inverted index answers what the direct comparison of all signatures answers.\<close>

section \<open>Counts\<close>

lemma hm_sum:
  "hm_ok m \<Longrightarrow> sum_list (map f (hm_vals m)) = (\<Sum>k\<in>set (hm_keys m). f (the (hm_get m k)))"
  for f :: "'v \<Rightarrow> nat"
proof (induction m)
  case Nil
  then show ?case by (simp add: hm_vals_def hm_keys_def)
next
  case (Cons e m)
  obtain k v where e: "e = (k, v)" by (cases e)
  have ok: "hm_ok m" "k \<notin> set (hm_keys m)" using Cons.prems by (simp_all add: hm_ok_def hm_keys_def e)
  have "(\<Sum>j\<in>set (hm_keys m). f (the (hm_get (e # m) j))) = (\<Sum>j\<in>set (hm_keys m). f (the (hm_get m j)))"
    by (rule sum.cong) (use ok(2) in \<open>auto simp: hm_get_def e\<close>)
  then show ?case using Cons.IH [OF ok(1)] ok(2) by (simp add: hm_vals_def hm_keys_def hm_get_def e)
qed

lemma bump_get [simp]:
  "hm_get (bump v i m) k = (if k = i then Some ((case hm_get m i of Some c \<Rightarrow> c | None \<Rightarrow> 0) + v) else hm_get m k)"
  by (simp add: bump_def)

lemma bump_ok [simp]: "hm_ok m \<Longrightarrow> hm_ok (bump v i m)"
  by (simp add: bump_def)

lemma bump_run:
  "hm_get (fold (\<lambda>(i, v). bump v i) xs m) k =
     (if k \<in> fst ` set xs
      then Some ((case hm_get m k of Some c \<Rightarrow> c | None \<Rightarrow> 0) + sum_list (map snd (filter (\<lambda>e. fst e = k) xs)))
      else hm_get m k)"
proof (induction xs arbitrary: m)
  case (Cons e xs)
  have "sum_list (map snd (filter (\<lambda>e. fst e = k) xs)) = 0" if "k \<notin> fst ` set xs"
  proof -
    have none: "filter (\<lambda>e. fst e = k) xs = []" using that by (auto simp: filter_empty_conv)
    show ?thesis unfolding none by simp
  qed
  then show ?case
    by (cases e; cases "k \<in> fst ` set xs") (auto simp: Cons.IH simp del: sum_list_eq_0_iff split: option.split)
qed simp

lemma bump_run_ok: "hm_ok m \<Longrightarrow> hm_ok (fold (\<lambda>(i, v). bump v i) xs m)"
  by (induction xs arbitrary: m) auto

lemma count_tokens_get: "hm_get (count_tokens ts) t = (if t \<in> set ts then Some (count_list ts t) else None)"
proof -
  have run: "hm_get (fold (bump 1) ts m) t =
      (if t \<in> set ts then Some ((case hm_get m t of Some c \<Rightarrow> c | None \<Rightarrow> 0) + count_list ts t) else hm_get m t)" for m
  proof (induction ts arbitrary: m)
    case (Cons x ts)
    show ?case by (cases "x = t") (auto simp: Cons.IH simp del: One_nat_def split: option.splits)
  qed simp
  show ?thesis by (simp add: count_tokens_def run del: One_nat_def)
qed

lemma count_tokens_ok: "hm_ok (count_tokens ts)"
proof -
  have "hm_ok m \<Longrightarrow> hm_ok (fold (bump 1) ts m)" for m
    by (induction ts arbitrary: m) auto
  then show ?thesis by (simp add: count_tokens_def)
qed

lemma count_tokens_keys: "set (hm_keys (count_tokens ts)) = set ts"
  using hm_keys_iff [of _ "count_tokens ts"] by (auto simp: count_tokens_get split: if_splits)

definition dot_product :: "string list \<Rightarrow> string list \<Rightarrow> nat" where
  "dot_product a b = (\<Sum>t\<in>set a. count_list a t * count_list b t)"

lemma dot_product_superset:
  assumes "finite S" "set a \<subseteq> S"
  shows "(\<Sum>t\<in>S. count_list a t * count_list b t) = dot_product a b"
  unfolding dot_product_def using assms by (intro sum.mono_neutral_right) (auto simp: count_list_0_iff)

lemma dot_product_commute: "dot_product a b = dot_product b a"
  using dot_product_superset [of "set a \<union> set b" a b] dot_product_superset [of "set a \<union> set b" b a]
  by (simp add: mult.commute)

lemma norm_pos: "a \<noteq> [] \<Longrightarrow> 0 < dot_product a a"
proof -
  assume "a \<noteq> []"
  then obtain t where "t \<in> set a" by (cases a) auto
  then have "count_list a t * count_list a t \<noteq> 0" by (simp add: count_list_0_iff)
  then show ?thesis using \<open>t \<in> set a\<close> unfolding dot_product_def by (metis finite_set gr0I sum_eq_0_iff)
qed

lemma norm_sq_count: "norm_sq (count_tokens ts) = dot_product ts ts"
  unfolding norm_sq_def hm_sum [OF count_tokens_ok] count_tokens_keys dot_product_def
  by (rule sum.cong) (simp_all add: count_tokens_get)

lemma bump_side_get [simp]:
  "hm_get (bump_left x m) t =
     (if t = x then Some (case hm_get m x of Some (a, b) \<Rightarrow> (Suc a, b) | None \<Rightarrow> (1, 0)) else hm_get m t)"
  "hm_get (bump_right x m) t =
     (if t = x then Some (case hm_get m x of Some (a, b) \<Rightarrow> (a, Suc b) | None \<Rightarrow> (0, 1)) else hm_get m t)"
  by (simp_all add: bump_left_def bump_right_def split: option.split prod.split)

lemma bump_side_ok [simp]: "hm_ok m \<Longrightarrow> hm_ok (bump_left x m)" "hm_ok m \<Longrightarrow> hm_ok (bump_right x m)"
  by (simp_all add: bump_left_def bump_right_def split: option.split prod.split)

lemma pair_counts:
  "hm_get (fold bump_left a m) t =
     (if t \<in> set a then Some (case hm_get m t of Some (x, y) \<Rightarrow> (x + count_list a t, y) | None \<Rightarrow> (count_list a t, 0)) else hm_get m t)"
  "hm_get (fold bump_right a m) t =
     (if t \<in> set a then Some (case hm_get m t of Some (x, y) \<Rightarrow> (x, y + count_list a t) | None \<Rightarrow> (0, count_list a t)) else hm_get m t)"
proof -
  show "hm_get (fold bump_left a m) t =
     (if t \<in> set a then Some (case hm_get m t of Some (x, y) \<Rightarrow> (x + count_list a t, y) | None \<Rightarrow> (count_list a t, 0)) else hm_get m t)"
  proof (induction a arbitrary: m)
    case (Cons x a)
    show ?case by (cases "x = t") (auto simp: Cons.IH split: option.splits)
  qed simp
  show "hm_get (fold bump_right a m) t =
     (if t \<in> set a then Some (case hm_get m t of Some (x, y) \<Rightarrow> (x, y + count_list a t) | None \<Rightarrow> (0, count_list a t)) else hm_get m t)"
  proof (induction a arbitrary: m)
    case (Cons x a)
    show ?case by (cases "x = t") (auto simp: Cons.IH split: option.splits)
  qed simp
qed

lemma pair_counts_ok: "hm_ok m \<Longrightarrow> hm_ok (fold bump_left a m)" "hm_ok m \<Longrightarrow> hm_ok (fold bump_right a m)"
  by (induction a arbitrary: m) auto

lemma similarity_is_cosine:
  "signature_similarity a b =
     (if a = [] \<or> b = [] then 0 else cosine_sq (dot_product a b) (dot_product a a) (dot_product b b))"
proof (cases "a = [] \<or> b = []")
  case False
  let ?m = "fold bump_right b (fold bump_left a hm_empty)"
  have get: "hm_get ?m t = (if t \<in> set a \<union> set b then Some (count_list a t, count_list b t) else None)" for t
    by (auto simp: pair_counts)
  have keys: "set (hm_keys ?m) = set a \<union> set b"
    using hm_keys_iff [of _ ?m] by (auto simp: get split: if_splits)
  have ok: "hm_ok ?m" by (simp add: pair_counts_ok)
  have sums: "sum_list (map f (hm_vals ?m)) = (\<Sum>t\<in>set a \<union> set b. f (count_list a t, count_list b t))" for f :: "nat \<times> nat \<Rightarrow> nat"
    unfolding hm_sum [OF ok] keys by (rule sum.cong) (simp_all add: get)
  have eqs: "sum_list (map (\<lambda>(x, y). x * y) (hm_vals ?m)) = dot_product a b"
    "sum_list (map (\<lambda>(x, y). x * x) (hm_vals ?m)) = dot_product a a"
    "sum_list (map (\<lambda>(x, y). y * y) (hm_vals ?m)) = dot_product b b"
    unfolding sums by (simp_all add: dot_product_superset)
  have "dot_product a a * dot_product b b \<noteq> 0" using False norm_pos by (metis mult_is_0 neq0_conv)
  then show ?thesis using False unfolding signature_similarity_def Let_def eqs by simp
qed (auto simp: signature_similarity_def)

section \<open>The postings\<close>

definition posting :: "cross_repo_matcher \<Rightarrow> string \<Rightarrow> (nat \<times> nat) list" where
  "posting m t = (case hm_get (cm_token_to_id m) t of Some tid \<Rightarrow> cm_postings m ! tid | None \<Rightarrow> [])"

definition ids_ok :: "cross_repo_matcher \<Rightarrow> bool" where
  "ids_ok m \<longleftrightarrow>
     (\<forall>t i. hm_get (cm_token_to_id m) t = Some i \<longrightarrow> i < length (cm_postings m))
     \<and> (\<forall>t u i. hm_get (cm_token_to_id m) t = Some i \<longrightarrow> hm_get (cm_token_to_id m) u = Some i \<longrightarrow> t = u)"

lemma posting_update [simp]:
  "posting (m\<lparr>cm_candidates := xs\<rparr>) t = posting m t" "ids_ok (m\<lparr>cm_candidates := xs\<rparr>) = ids_ok m"
  "posting (m\<lparr>cm_by_id := x\<rparr>) t = posting m t" "ids_ok (m\<lparr>cm_by_id := x\<rparr>) = ids_ok m"
  by (simp_all add: posting_def ids_ok_def cong: option.case_cong)

lemma add_posting_post:
  assumes "ids_ok m"
  shows "ids_ok (add_posting idx (tok, c) m)"
    and "posting (add_posting idx (tok, c) m) t = posting m t @ (if t = tok then [(idx, c)] else [])"
    and "cm_candidates (add_posting idx (tok, c) m) = cm_candidates m"
proof -
  show "ids_ok (add_posting idx (tok, c) m)"
    using assms by (fastforce simp: ids_ok_def add_posting_def split: option.split)
  show "posting (add_posting idx (tok, c) m) t = posting m t @ (if t = tok then [(idx, c)] else [])"
  proof (cases "hm_get (cm_token_to_id m) tok")
    case None
    have "i < length (cm_postings m)" if "hm_get (cm_token_to_id m) t = Some i" for i
      using assms that unfolding ids_ok_def by blast
    then show ?thesis using None by (auto simp: posting_def add_posting_def nth_append split: option.split)
  next
    case (Some tid)
    have "tid < length (cm_postings m)" "\<And>i. hm_get (cm_token_to_id m) t = Some i \<Longrightarrow> t \<noteq> tok \<Longrightarrow> i \<noteq> tid"
      using assms Some unfolding ids_ok_def by blast+
    then show ?thesis using Some by (auto simp: posting_def add_posting_def split: option.split)
  qed
  show "cm_candidates (add_posting idx (tok, c) m) = cm_candidates m"
    by (simp add: add_posting_def split: option.split)
qed

lemma add_postings:
  assumes "ids_ok m" "distinct (map fst counts)"
  shows "ids_ok (fold (add_posting idx) counts m)
    \<and> posting (fold (add_posting idx) counts m) t
        = posting m t @ (case map_of counts t of Some c \<Rightarrow> [(idx, c)] | None \<Rightarrow> [])
    \<and> cm_candidates (fold (add_posting idx) counts m) = cm_candidates m"
  using assms
proof (induction counts arbitrary: m)
  case (Cons e counts)
  obtain tok c where e: "e = (tok, c)" by (cases e)
  have "tok \<notin> fst ` set counts" using Cons.prems(2) e by simp
  then have "map_of counts tok = None" by (simp add: map_of_eq_None_iff)
  then show ?case
    using Cons.IH [OF add_posting_post(1) [OF Cons.prems(1), of idx tok c]] Cons.prems(2)
      add_posting_post(2,3) [OF Cons.prems(1), of idx tok c] e
    by (auto split: option.split)
qed simp

type_synonym indexed_entry = "graph_node \<times> string \<times> string list"

definition occurrences :: "string \<Rightarrow> nat \<Rightarrow> indexed_entry list \<Rightarrow> (nat \<times> nat) list" where
  "occurrences t n es =
     concat (map (\<lambda>(i, c, r, ts). if t \<in> set ts then [(i, count_list ts t)] else []) (List.enumerate n es))"

definition matcher_ok :: "indexed_entry list \<Rightarrow> cross_repo_matcher \<Rightarrow> bool" where
  "matcher_ok es m \<longleftrightarrow>
     ids_ok m
     \<and> cm_candidates m = map (\<lambda>(c, r, ts). \<lparr>ic_node = c, ic_repo = r, ic_norm_sq = dot_product ts ts\<rparr>) es
     \<and> (\<forall>t. posting m t = occurrences t 0 es)"

lemma index_tokens_ok:
  assumes "matcher_ok es m" "ts \<noteq> []"
  shows "matcher_ok (es @ [(c, r, ts)]) (index_tokens c r ts m)"
proof -
  let ?m = "fold (add_posting (length (cm_candidates m))) (count_tokens ts) m"
  have m: "ids_ok m" "posting m t = occurrences t 0 es" "length (cm_candidates m) = length es"
    "cm_candidates m = map (\<lambda>(c, r, ts). \<lparr>ic_node = c, ic_repo = r, ic_norm_sq = dot_product ts ts\<rparr>) es" for t
    using assms(1) by (simp_all add: matcher_ok_def)
  have keys: "distinct (map fst (count_tokens ts))"
    using count_tokens_ok [of ts] by (simp add: hm_ok_def hm_keys_def)
  have post: "ids_ok ?m" "cm_candidates ?m = cm_candidates m"
    "posting ?m t = posting m t @ (if t \<in> set ts then [(length es, count_list ts t)] else [])" for t
    using add_postings [OF m(1) keys, of "length (cm_candidates m)" t] count_tokens_get [of ts t]
    by (simp_all add: m(3) hm_get_def)
  have "norm_sq (count_tokens ts) \<noteq> 0" using norm_pos [OF assms(2)] by (simp add: norm_sq_count)
  then show ?thesis
    using post m by (simp add: matcher_ok_def index_tokens_def Let_def norm_sq_count occurrences_def enumerate_append_eq)
qed

definition eligible :: "(string \<Rightarrow> bool) \<Rightarrow> (string \<Rightarrow> string) \<Rightarrow> graph_node \<Rightarrow> indexed_entry option" where
  "eligible alnum lower c =
     (if gn_type c \<in> set (edge_target_types ET_CrossRepoSameSymbol) then
        case (usable_signature c, repo_of_id (gn_id c)) of
          (Some sig, Some r) \<Rightarrow>
            if signature_tokens alnum lower sig = [] then None else Some (c, r, signature_tokens alnum lower sig)
        | _ \<Rightarrow> None
      else None)"

lemma index_candidate_ok:
  assumes "matcher_ok es m"
  shows "matcher_ok (es @ (case eligible alnum lower c of Some e \<Rightarrow> [e] | None \<Rightarrow> [])) (index_candidate alnum lower c m)"
proof -
  have "matcher_ok es (m\<lparr>cm_by_id := x\<rparr>)" for x
    using assms by (simp add: matcher_ok_def)
  then show ?thesis
    by (auto simp: index_candidate_def eligible_def Let_def index_tokens_ok split: option.split)
qed

lemma matcher_new_ok: "matcher_ok (List.map_filter (eligible alnum lower) cands) (matcher_new alnum lower cands)"
proof -
  have run: "matcher_ok es m \<Longrightarrow>
      matcher_ok (es @ List.map_filter (eligible alnum lower) cands) (fold (index_candidate alnum lower) cands m)" for es m
  proof (induction cands arbitrary: es m)
    case (Cons c cands)
    from Cons.IH [OF index_candidate_ok [OF Cons.prems, of alnum lower c]]
    show ?case by (cases "eligible alnum lower c") (simp_all add: map_filter_simps)
  qed (simp add: map_filter_simps)
  show ?thesis unfolding matcher_new_def
    using run [of "[]" "\<lparr>cm_candidates = [], cm_token_to_id = hm_empty, cm_postings = [], cm_by_id = hm_empty\<rparr>"]
    by (simp add: matcher_ok_def ids_ok_def posting_def occurrences_def)
qed

section \<open>The dot products\<close>

lemma token_dots_posting:
  "token_dots m (t, a) dots = fold (\<lambda>(i, v). bump v i) (map (\<lambda>(i, b). (i, a * b)) (posting m t)) dots"
  by (simp add: token_dots_def posting_def fold_map comp_def split_beta' split: option.split)

definition products :: "cross_repo_matcher \<Rightarrow> (string, nat) hmap \<Rightarrow> (nat \<times> nat) list" where
  "products m counts = concat (map (\<lambda>(t, a). map (\<lambda>(i, b). (i, a * b)) (posting m t)) counts)"

lemma token_dots_products:
  "fold (token_dots m) counts dots = fold (\<lambda>(i, v). bump v i) (products m counts) dots"
  by (induction counts arbitrary: dots) (auto simp: products_def token_dots_posting simp del: fold_map)

lemma occurrences_filter:
  "filter (\<lambda>e. fst e = i) (occurrences t n es) =
     (if n \<le> i \<and> i < n + length es \<and> t \<in> set (snd (snd (es ! (i - n))))
      then [(i, count_list (snd (snd (es ! (i - n)))) t)] else [])"
proof (induction es arbitrary: n)
  case (Cons e es)
  obtain c r ts where e: "e = (c, r, ts)" by (cases e)
  have step: "occurrences t n (e # es) = (if t \<in> set ts then [(n, count_list ts t)] else []) @ occurrences t (Suc n) es"
    by (simp add: occurrences_def e)
  show ?case
  proof (cases "i = n")
    case True
    then show ?thesis unfolding step filter_append Cons.IH by (simp add: e)
  next
    case False
    then show ?thesis unfolding step filter_append Cons.IH by (cases "n < i") (auto simp: e nth_Cons' Suc_le_eq)
  qed
qed (simp add: occurrences_def)

lemma products_filter_sum:
  assumes "matcher_ok es m" "i < length es"
  shows "sum_list (map snd (filter (\<lambda>e. fst e = i) (products m counts)))
    = sum_list (map (\<lambda>(t, a). a * count_list (snd (snd (es ! i))) t) counts)"
proof -
  have one: "sum_list (map snd (filter (\<lambda>e. fst e = i) (map (\<lambda>(i, b). (i, a * b)) (posting m t))))
      = a * count_list (snd (snd (es ! i))) t" for t a
  proof -
    have "filter (\<lambda>e. fst e = i) (map (\<lambda>(i, b). (i, a * b)) (posting m t))
        = map (\<lambda>(i, b). (i, a * b)) (filter (\<lambda>e. fst e = i) (posting m t))"
      by (simp add: filter_map comp_def case_prod_beta)
    also have "\<dots> = (if t \<in> set (snd (snd (es ! i))) then [(i, a * count_list (snd (snd (es ! i))) t)] else [])"
      using assms by (simp add: matcher_ok_def occurrences_filter)
    finally show ?thesis by (auto simp: count_list_0_iff)
  qed
  show ?thesis
    by (induction counts) (simp_all add: products_def one case_prod_beta)
qed

lemma products_index:
  assumes "matcher_ok es m"
  shows "i \<in> fst ` set (products m (count_tokens a)) \<longleftrightarrow> i < length es \<and> set a \<inter> set (snd (snd (es ! i))) \<noteq> {}"
proof -
  have mem: "i \<in> fst ` set (posting m t) \<longleftrightarrow> i < length es \<and> t \<in> set (snd (snd (es ! i)))" for t
  proof -
    have "i \<in> fst ` set (posting m t) \<longleftrightarrow> filter (\<lambda>e. fst e = i) (posting m t) \<noteq> []"
      by (auto simp: filter_empty_conv)
    then show ?thesis using assms by (simp add: matcher_ok_def occurrences_filter)
  qed
  have "i \<in> fst ` set (products m counts) \<longleftrightarrow> (\<exists>t\<in>fst ` set counts. i \<in> fst ` set (posting m t))" for counts
    by (induction counts) (auto simp: products_def image_Un image_image case_prod_beta)
  moreover have "fst ` set (count_tokens a) = set a" using count_tokens_keys [of a] by (simp add: hm_keys_def)
  ultimately have "i \<in> fst ` set (products m (count_tokens a)) \<longleftrightarrow> (\<exists>t\<in>set a. i \<in> fst ` set (posting m t))" by metis
  then show ?thesis by (auto simp: mem)
qed

lemma count_tokens_sum: "sum_list (map (\<lambda>(t, a). a * f t) (count_tokens ts)) = (\<Sum>t\<in>set ts. count_list ts t * f t)" for f :: "string \<Rightarrow> nat"
proof -
  let ?m = "count_tokens ts"
  have d: "distinct (map fst ?m)" using count_tokens_ok [of ts] by (simp add: hm_ok_def hm_keys_def)
  have "map (\<lambda>(t, a). a * f t) ?m = map ((\<lambda>t. count_list ts t * f t) \<circ> fst) ?m"
  proof (rule map_cong [OF refl])
    fix e assume "e \<in> set ?m"
    then have "hm_get ?m (fst e) = Some (snd e)" using hm_mem_get [OF count_tokens_ok [of ts], of "fst e" "snd e"] by simp
    then show "(case e of (t, a) \<Rightarrow> a * f t) = ((\<lambda>t. count_list ts t * f t) \<circ> fst) e"
      by (simp add: count_tokens_get case_prod_beta split: if_splits)
  qed
  then have "sum_list (map (\<lambda>(t, a). a * f t) ?m) = sum_list (map (\<lambda>t. count_list ts t * f t) (map fst ?m))"
    by (simp only: map_map)
  also have "\<dots> = (\<Sum>t\<in>set (map fst ?m). count_list ts t * f t)" by (rule sum_list_distinct_conv_sum_set [OF d])
  finally show ?thesis using count_tokens_keys [of ts] by (simp add: hm_keys_def)
qed

definition shared_dots :: "string list \<Rightarrow> indexed_entry list \<Rightarrow> (nat \<times> nat) list" where
  "shared_dots a es =
     map (\<lambda>(i, c, r, ts). (i, dot_product a ts))
       (filter (\<lambda>(i, c, r, ts). set a \<inter> set ts \<noteq> {}) (List.enumerate 0 es))"

lemma dots_are_shared:
  assumes "matcher_ok es m"
  shows "mset (fold (token_dots m) (count_tokens a) hm_empty) = mset (shared_dots a es)"
proof -
  let ?dots = "fold (token_dots m) (count_tokens a) hm_empty"
  have ok: "hm_ok ?dots" unfolding token_dots_products by (rule bump_run_ok) simp
  have get: "hm_get ?dots i =
      (if i < length es \<and> set a \<inter> set (snd (snd (es ! i))) \<noteq> {} then Some (dot_product a (snd (snd (es ! i)))) else None)" for i
    unfolding token_dots_products bump_run products_index [OF assms]
    by (simp add: products_filter_sum [OF assms] count_tokens_sum dot_product_def)
  have "set ?dots = set (shared_dots a es)"
  proof (intro set_eqI)
    fix e :: "nat \<times> nat"
    have "e \<in> set ?dots \<longleftrightarrow> hm_get ?dots (fst e) = Some (snd e)" using hm_mem_get [OF ok, of "fst e" "snd e"] by simp
    also have "\<dots> \<longleftrightarrow> e \<in> set (shared_dots a es)"
      unfolding get shared_dots_def
      by (cases e) (auto simp: in_set_enumerate_eq image_iff case_prod_beta split: if_splits)
    finally show "e \<in> set ?dots \<longleftrightarrow> e \<in> set (shared_dots a es)" .
  qed
  moreover have "distinct ?dots" using ok by (simp add: hm_ok_def hm_keys_def distinct_map)
  moreover have "distinct (map fst (shared_dots a es))"
    unfolding shared_dots_def map_map comp_def case_prod_beta fst_conv
    by (rule distinct_map_filter) (simp add: case_prod_beta)
  ultimately show ?thesis by (metis distinct_map set_eq_iff_mset_eq_distinct)
qed

section \<open>Equivalence\<close>

definition score_entry :: "rat \<Rightarrow> graph_node \<Rightarrow> string list \<Rightarrow> indexed_entry \<Rightarrow> repo_match option" where
  "score_entry threshold n a e =
     (case e of (c, r, ts) \<Rightarrow>
        if set a \<inter> set ts = {} \<or> Some r = repo_of_id (gn_id n) then None
        else
          let s = cosine_sq (dot_product a ts) (dot_product a a) (dot_product ts ts) in
          if reaches_threshold threshold s then Some (gn_id c, s, SignatureMatch) else None)"

lemma map_filter_enumerate:
  "(\<And>i. i < length es \<Longrightarrow> f (n + i, es ! i) = g (es ! i)) \<Longrightarrow>
   List.map_filter f (List.enumerate n es) = List.map_filter g es"
proof (induction es arbitrary: n)
  case (Cons e es)
  have "List.map_filter f (List.enumerate (Suc n) es) = List.map_filter g es"
    by (rule Cons.IH) (use Cons.prems [of "Suc i" for i] in simp)
  then show ?case using Cons.prems [of 0] by (simp add: map_filter_simps split: option.split)
qed (simp add: map_filter_simps)

lemma map_filter_map_filter:
  "List.map_filter f (map g (filter P xs)) = List.map_filter (\<lambda>x. if P x then f (g x) else None) xs"
  by (induction xs) (simp_all add: map_filter_simps split: option.split)

lemma mset_map_filter: "mset xs = mset ys \<Longrightarrow> mset (List.map_filter f xs) = mset (List.map_filter f ys)"
  by (simp add: map_filter_def mset_map mset_filter)

lemma scores_of_dots:
  assumes "matcher_ok es m" "\<And>c r ts. (c, r, ts) \<in> set es \<Longrightarrow> ts \<noteq> []" "a \<noteq> []"
  shows "List.map_filter (score_indexed m threshold n (dot_product a a)) (shared_dots a es) =
    List.map_filter (score_entry threshold n a) es"
  unfolding shared_dots_def map_filter_map_filter
proof (rule map_filter_enumerate)
  fix i assume i: "i < length es"
  obtain c r ts where e: "es ! i = (c, r, ts)" by (cases "es ! i")
  then have "ts \<noteq> []" using assms(2) i by (metis nth_mem)
  then have "dot_product a a * dot_product ts ts \<noteq> 0" using norm_pos assms(3) by (metis mult_is_0 neq0_conv)
  then show "(if (case (0 + i, es ! i) of (i, c, r, ts) \<Rightarrow> set a \<inter> set ts \<noteq> {})
      then score_indexed m threshold n (dot_product a a) (case (0 + i, es ! i) of (i, c, r, ts) \<Rightarrow> (i, dot_product a ts)) else None)
    = score_entry threshold n a (es ! i)"
    using assms(1) i by (simp add: e matcher_ok_def score_indexed_def score_entry_def Let_def)
qed

lemma best_matches_mset:
  assumes "mset xs = mset ys" "\<And>x. x \<in> set xs \<Longrightarrow> snd (snd x) = SignatureMatch"
  shows "best_matches k xs = best_matches k ys"
proof -
  have "inj_on (\<lambda>(i, s, _). (- s, i)) (set xs)"
    using assms(2) by (auto simp: inj_on_def) (metis snd_conv)+
  then have "sort_key (\<lambda>(i, s, _). (- s, i)) xs = sort_key (\<lambda>(i, s, _). (- s, i)) ys"
    using assms(1) by (intro sort_key_inj_key_eq) simp_all
  then show ?thesis by (simp add: best_matches_def)
qed

lemma score_candidate_entry:
  assumes "usable_signature n = Some sig" "a = signature_tokens alnum lower sig"
    and "gn_type c \<in> set (edge_target_types ET_CrossRepoSameSymbol)"
  shows "score_candidate alnum lower False threshold n a c =
    (case eligible alnum lower c of None \<Rightarrow> None | Some e \<Rightarrow> score_entry threshold n a e)"
proof -
  have stop: "non_stop_tokens (signature_tokens alnum lower s) = signature_tokens alnum lower s" for s
    by (simp add: signature_tokens_def non_stop_tokens_def)
  have shares: "list_ex (\<lambda>t. t \<in> set ts) a \<longleftrightarrow> set a \<inter> set ts \<noteq> {}" for ts by (auto simp: list_ex_iff)
  show ?thesis
  proof (cases "repo_of_id (gn_id c)")
    case repo: (Some r)
    show ?thesis
    proof (cases "usable_signature c")
      case sig: (Some s)
      have tokens: "tokens_or_name alnum lower False c = Some (signature_tokens alnum lower s)"
        by (simp add: tokens_or_name_def sig)
      have confidence: "match_confidence_of False n c a (signature_tokens alnum lower s) =
          (if set a \<inter> set (signature_tokens alnum lower s) \<noteq> {} then Some SignatureMatch else None)"
        using assms(1,2) by (simp add: match_confidence_of_def sig stop shares [unfolded assms(2)])
      show ?thesis using assms(3)
        by (auto simp: score_candidate_def eligible_def score_entry_def repo sig tokens confidence similarity_is_cosine Let_def)
    qed (simp add: score_candidate_def eligible_def tokens_or_name_def repo)
  qed (simp add: score_candidate_def eligible_def split: option.split)
qed

lemma scores_are_signature: "x \<in> set (List.map_filter (score_entry threshold n a) es) \<Longrightarrow> snd (snd x) = SignatureMatch"
proof -
  have "score_entry threshold n a e = Some x \<Longrightarrow> snd (snd x) = SignatureMatch" for e
    by (auto simp: score_entry_def Let_def split: if_splits prod.splits)
  moreover assume "x \<in> set (List.map_filter (score_entry threshold n a) es)"
  ultimately show ?thesis by (force simp: map_filter_def)
qed

text \<open>C35: the index finds exactly the matches of the direct comparison, with the same similarities in the same order.\<close>

theorem index_finds_the_matches:
  "find_matches alnum lower (matcher_new alnum lower candidates) n top_k threshold =
   find_cross_repo_matches alnum lower n candidates top_k threshold False"
proof (cases "usable_signature n")
  case None
  then show ?thesis by (simp add: find_matches_def find_cross_repo_matches_def tokens_or_name_def)
next
  case (Some sig)
  let ?a = "signature_tokens alnum lower sig" and ?m = "matcher_new alnum lower candidates"
  let ?es = "List.map_filter (eligible alnum lower) candidates"
  let ?scored = "List.map_filter (score_entry threshold n ?a) ?es"
  have nonempty: "ts \<noteq> []" if "(c, r, ts) \<in> set ?es" for c r ts
    using that by (auto simp: map_filter_def eligible_def split: option.splits if_splits)
  have direct: "List.map_filter (score_candidate alnum lower False threshold n ?a)
      (filter (\<lambda>c. gn_type c \<in> set (edge_target_types ET_CrossRepoSameSymbol)) candidates) = ?scored"
  proof (induction candidates)
    case (Cons c cs)
    then show ?case
      using score_candidate_entry [OF Some refl, where c = c and alnum = alnum and lower = lower and threshold = threshold]
      by (cases "gn_type c \<in> set (edge_target_types ET_CrossRepoSameSymbol)"; cases "eligible alnum lower c")
         (auto simp: map_filter_simps eligible_def split: option.splits)
  qed (simp add: map_filter_simps)
  show ?thesis
  proof (cases "?a = []")
    case True
    then have "?scored = []" by (auto simp: map_filter_def filter_empty_conv score_entry_def case_prod_beta)
    then show ?thesis using True Some direct
      by (simp add: find_matches_def find_cross_repo_matches_def tokens_or_name_def best_matches_def)
  next
    case False
    have scored: "List.map_filter (score_indexed ?m threshold n (dot_product ?a ?a)) (shared_dots ?a ?es) = ?scored"
      by (rule scores_of_dots [OF matcher_new_ok]) (use nonempty False in auto)
    have "mset (List.map_filter (score_indexed ?m threshold n (dot_product ?a ?a)) (fold (token_dots ?m) (count_tokens ?a) hm_empty)) = mset ?scored"
      unfolding scored [symmetric] by (rule mset_map_filter [OF dots_are_shared [OF matcher_new_ok]])
    then have "best_matches top_k ?scored = best_matches top_k
        (List.map_filter (score_indexed ?m threshold n (dot_product ?a ?a)) (fold (token_dots ?m) (count_tokens ?a) hm_empty))"
      by (intro best_matches_mset scores_are_signature) simp_all
    moreover have "dot_product ?a ?a \<noteq> 0" using norm_pos [OF False] by simp
    ultimately show ?thesis using False Some direct
      by (simp add: find_matches_def find_cross_repo_matches_def tokens_or_name_def Let_def norm_sq_count)
  qed
qed

end
