(* ===== verification/Events_Log.thy ===== *)
theory Events_Log
  imports Rust_Text "HOL-Library.Multiset"
begin

text \<open>
  The durable log of presence events, \<^verbatim>\<open>events_log.rs\<close>: numbered lines in two files of bounded
  size, from which a subscriber that reconnects is brought up to date. A file is the list of its
  lines; the JSON text of an event, which holds no line break, and its decoding are arguments.
  Failing to rename or reopen a file is not modelled.
\<close>

section \<open>Files\<close>

definition events_log_max_bytes :: nat where
  "events_log_max_bytes = 50 * 1024 * 1024"

record events_log =
  ev_current :: "string list"
  ev_rotated :: "string list option"
  ev_next_id :: nat

definition tab :: char where
  "tab = CHR 0x09"

definition log_line :: "nat \<Rightarrow> string \<Rightarrow> string" where
  "log_line i payload = show_nat i @ tab # payload"

definition read_log_line :: "string \<Rightarrow> (nat \<times> string) option" where
  "read_log_line line =
     (case split_once tab line of
        None \<Rightarrow> None
      | Some (i, rest) \<Rightarrow> map_option (\<lambda>n. (n, rest)) (parse_unsigned (2 ^ 64) i))"

definition file_bytes :: "string list \<Rightarrow> nat" where
  "file_bytes lines = sum_list (map (\<lambda>l. Suc (length l)) lines)"

definition read_max_event_id :: "string list \<Rightarrow> nat" where
  "read_max_event_id lines =
     fold (\<lambda>l m. case read_log_line l of Some (n, _) \<Rightarrow> if m < n then n else m | None \<Rightarrow> m) lines 0"

definition events_open :: "string list \<Rightarrow> string list option \<Rightarrow> events_log" where
  "events_open current rotated =
     \<lparr>ev_current = current, ev_rotated = rotated, ev_next_id = read_max_event_id current + 1\<rparr>"

text \<open>The payload is missing when the event cannot be serialised, \<open>written\<close> tells whether the write succeeds.\<close>

definition events_append :: "string option \<Rightarrow> bool \<Rightarrow> events_log \<Rightarrow> nat \<times> events_log" where
  "events_append payload written lg =
     (let i = ev_next_id lg; lg1 = lg\<lparr>ev_next_id := Suc i\<rparr> in
      case payload of
        None \<Rightarrow> (i, lg1)
      | Some p \<Rightarrow>
          let lg2 = (if events_log_max_bytes \<le> file_bytes (ev_current lg1)
                     then lg1\<lparr>ev_rotated := Some (ev_current lg1), ev_current := []\<rparr> else lg1) in
          (i, if written then lg2\<lparr>ev_current := ev_current lg2 @ [log_line i p]\<rparr> else lg2))"

definition entries_after :: "nat \<Rightarrow> string list \<Rightarrow> (nat \<times> string) list" where
  "entries_after last_id lines =
     List.map_filter (\<lambda>l. case read_log_line l of Some (n, p) \<Rightarrow> if n \<le> last_id then None else Some (n, p) | None \<Rightarrow> None) lines"

definition replay_after :: "(string \<Rightarrow> 'e option) \<Rightarrow> nat \<Rightarrow> events_log \<Rightarrow> (nat \<times> 'e) list" where
  "replay_after decode last_id lg =
     (let files = entries_after last_id (ev_current lg)
                    @ (case ev_rotated lg of Some lines \<Rightarrow> entries_after last_id lines | None \<Rightarrow> []) in
      sort_key fst (List.map_filter (\<lambda>(n, p). map_option (Pair n) (decode p)) files))"

section \<open>A log that keeps everything\<close>

datatype log_event = Appended "string option" | Reopened

fun log_step :: "log_event \<Rightarrow> events_log \<Rightarrow> events_log" where
  "log_step (Appended payload) lg = snd (events_append payload True lg)"
| "log_step Reopened lg = events_open (ev_current lg) (ev_rotated lg)"

definition log_run :: "log_event list \<Rightarrow> events_log" where
  "log_run es = fold log_step es (events_open [] None)"

text \<open>The number of the next event and all events so far.\<close>

fun full_step :: "log_event \<Rightarrow> nat \<times> (nat \<times> string) list \<Rightarrow> nat \<times> (nat \<times> string) list" where
  "full_step (Appended None) (n, h) = (Suc n, h)"
| "full_step (Appended (Some p)) (n, h) = (Suc n, h @ [(n, p)])"
| "full_step Reopened (n, h) = ((if h = [] then 1 else Suc (fst (last h))), h)"

definition full_run :: "log_event list \<Rightarrow> nat \<times> (nat \<times> string) list" where
  "full_run es = fold full_step es (1, [])"

lemma tab_notin_show_nat: "tab \<notin> set (show_nat n)"
  using show_nat_digits [of n] by (auto simp: list_all_iff is_digit_def tab_def)

lemma read_log_line_line: "i < 2 ^ 64 \<Longrightarrow> read_log_line (log_line i p) = Some (i, p)"
  by (simp add: read_log_line_def log_line_def tab_notin_show_nat parse_show_nat)

lemma max_event_id_lines:
  assumes "list_all (\<lambda>(i, _). i < 2 ^ 64) h"
  shows "read_max_event_id (map (\<lambda>(i, p). log_line i p) h) = fold (\<lambda>(i, _) m. if m < i then i else m) h 0"
proof -
  have "fold (\<lambda>l m. case read_log_line l of Some (n, _) \<Rightarrow> if m < n then n else m | None \<Rightarrow> m) (map (\<lambda>(i, p). log_line i p) h) m
      = fold (\<lambda>(i, _) m. if m < i then i else m) h m" for m
    using assms by (induction h arbitrary: m) (auto simp: read_log_line_line)
  then show ?thesis by (simp add: read_max_event_id_def)
qed

lemma fold_max_snoc:
  "sorted_wrt (<) (map fst (h @ [e])) \<Longrightarrow> fold (\<lambda>(i, _) m. if m < i then i else m) h m \<le> max m (fst e)" for m :: nat
proof (induction h arbitrary: m)
  case (Cons x h)
  obtain i y where x: "x = (i, y)" by (cases x)
  have "i < fst e" "sorted_wrt (<) (map fst (h @ [e]))" using Cons.prems x by auto
  then show ?case using Cons.IH [of "if m < i then i else m"] x by (auto split: if_splits)
qed simp

lemma max_event_id_last:
  assumes "h \<noteq> []" "sorted_wrt (<) (map fst h)" "list_all (\<lambda>(i, _). i < 2 ^ 64) h"
  shows "read_max_event_id (map (\<lambda>(i, p). log_line i p) h) = fst (last h)"
proof -
  obtain g e where h: "h = g @ [e]" using assms(1) by (metis append_butlast_last_id)
  have "fold (\<lambda>(i, _) m. if m < i then i else m) g 0 \<le> fst e"
    using fold_max_snoc [of g e 0] assms(2) unfolding h by simp
  then show ?thesis unfolding max_event_id_lines [OF assms(3)] by (cases e) (auto simp: h)
qed

definition lines_of :: "(nat \<times> string) list \<Rightarrow> string list" where
  "lines_of h = map (\<lambda>(i, p). log_line i p) h"

text \<open>The files hold the end of the history; the part before it is only dropped when the rest fills a file.\<close>

definition keeps_end :: "nat \<times> (nat \<times> string) list \<Rightarrow> events_log \<Rightarrow> bool" where
  "keeps_end a lg \<longleftrightarrow>
     (case a of (n, h) \<Rightarrow>
        ev_next_id lg = n \<and> 0 < n \<and> sorted_wrt (<) (map fst h) \<and> (\<forall>e\<in>set h. fst e < n)
        \<and> (\<exists>old rot cur. h = old @ rot @ cur \<and> ev_current lg = lines_of cur
             \<and> (cur = [] \<longrightarrow> h = [])
             \<and> (case ev_rotated lg of None \<Rightarrow> rot = [] \<and> old = [] | Some ls \<Rightarrow> ls = lines_of rot)
             \<and> (old = [] \<or> events_log_max_bytes \<le> file_bytes (lines_of rot))))"

lemma append_keeps_end:
  assumes "keeps_end (n, h) lg"
  shows "keeps_end (Suc n, h @ [(n, p)]) (snd (events_append (Some p) True lg))"
proof -
  obtain old rot cur where h: "h = old @ rot @ cur" and cur: "ev_current lg = lines_of cur"
    and rot: "case ev_rotated lg of None \<Rightarrow> rot = [] \<and> old = [] | Some ls \<Rightarrow> ls = lines_of rot"
    and kept: "old = [] \<or> events_log_max_bytes \<le> file_bytes (lines_of rot)"
    and n: "ev_next_id lg = n" "0 < n" "sorted_wrt (<) (map fst h)" "\<forall>e\<in>set h. fst e < n"
    using assms unfolding keeps_end_def prod.case by (elim conjE exE) blast
  have sorted: "sorted_wrt (<) (map fst (h @ [(n, p)]))" "\<forall>e\<in>set (h @ [(n, p)]). fst e < Suc n"
    using n(3,4) by (auto simp: sorted_wrt_append)
  show ?thesis
  proof (cases "events_log_max_bytes \<le> file_bytes (lines_of cur)")
    case True
    have "h @ [(n, p)] = (old @ rot) @ cur @ [(n, p)]" by (simp add: h)
    then show ?thesis
      unfolding keeps_end_def prod.case using sorted n True
      by (intro conjI exI [of _ "old @ rot"] exI [of _ cur] exI [of _ "[(n, p)]"])
         (simp_all add: events_append_def Let_def cur lines_of_def)
  next
    case False
    have "h @ [(n, p)] = old @ rot @ cur @ [(n, p)]" by (simp add: h)
    then show ?thesis
      unfolding keeps_end_def prod.case using sorted n False rot kept
      by (intro conjI exI [of _ old] exI [of _ rot] exI [of _ "cur @ [(n, p)]"])
         (simp_all add: events_append_def Let_def cur lines_of_def)
  qed
qed

lemma below_all: "\<forall>e\<in>set xs. fst e < n \<Longrightarrow> n \<le> b \<Longrightarrow> \<forall>e\<in>set xs. fst e < b" for n b :: nat
  by (meson order_less_le_trans)

lemma reopen_keeps_end:
  assumes "keeps_end (n, h) lg" "n \<le> 2 ^ 64"
  shows "keeps_end (full_step Reopened (n, h)) (log_step Reopened lg)"
proof -
  obtain old rot cur where h: "h = old @ rot @ cur" and cur: "ev_current lg = lines_of cur" "cur = [] \<longrightarrow> h = []"
    and rest: "case ev_rotated lg of None \<Rightarrow> rot = [] \<and> old = [] | Some ls \<Rightarrow> ls = lines_of rot"
      "old = [] \<or> events_log_max_bytes \<le> file_bytes (lines_of rot)"
    and n: "sorted_wrt (<) (map fst h)" "\<forall>e\<in>set h. fst e < n"
    using assms(1) unfolding keeps_end_def prod.case by (elim conjE exE) blast
  have next_id: "read_max_event_id (ev_current lg) + 1 = (if h = [] then 1 else Suc (fst (last h)))"
  proof (cases "h = []")
    case True
    then show ?thesis using h cur by (simp add: lines_of_def read_max_event_id_def)
  next
    case False
    have "sorted_wrt (<) (map fst cur)" using n(1) by (simp add: h sorted_wrt_append)
    moreover have "cur \<noteq> []" using False cur(2) by blast
    moreover have "list_all (\<lambda>(i, _). i < 2 ^ 64) cur"
      unfolding list_all_iff split_beta by (rule below_all [OF _ assms(2)]) (use n(2) in \<open>simp add: h\<close>)
    ultimately have "read_max_event_id (ev_current lg) = fst (last cur)"
      unfolding cur(1) lines_of_def by (intro max_event_id_last)
    then show ?thesis using False \<open>cur \<noteq> []\<close> by (simp add: h)
  qed
  have le: "\<forall>e\<in>set h. fst e \<le> fst (last h)" if "h \<noteq> []"
  proof -
    obtain g e where "h = g @ [e]" using \<open>h \<noteq> []\<close> by (metis append_butlast_last_id)
    then show ?thesis using n(1) by (auto simp: sorted_wrt_append)
  qed
  show ?thesis unfolding full_step.simps keeps_end_def prod.case
  proof (intro conjI)
    show "ev_next_id (log_step Reopened lg) = (if h = [] then 1 else Suc (fst (last h)))"
      using next_id by (simp only: log_step.simps events_open_def events_log.simps)
    show "\<forall>e\<in>set h. fst e < (if h = [] then 1 else Suc (fst (last h)))"
      using le by (cases "h = []") (simp_all add: less_Suc_eq_le)
    have same: "ev_current (log_step Reopened lg) = ev_current lg" "ev_rotated (log_step Reopened lg) = ev_rotated lg"
      by (simp_all add: events_open_def)
    show "\<exists>old rot cur. h = old @ rot @ cur \<and> ev_current (log_step Reopened lg) = lines_of cur \<and> (cur = [] \<longrightarrow> h = [])
        \<and> (case ev_rotated (log_step Reopened lg) of None \<Rightarrow> rot = [] \<and> old = [] | Some ls \<Rightarrow> ls = lines_of rot)
        \<and> (old = [] \<or> events_log_max_bytes \<le> file_bytes (lines_of rot))"
      using assms(1) unfolding keeps_end_def prod.case same by blast
  qed (use n(1) in simp_all)
qed

lemma step_keeps_end:
  assumes "keeps_end a lg" "fst a \<le> 2 ^ 64"
  shows "keeps_end (full_step e a) (log_step e lg)"
proof -
  obtain n h where a: "a = (n, h)" by (cases a)
  show ?thesis
  proof (cases e)
    case (Appended payload)
    show ?thesis
    proof (cases payload)
      case None
      then show ?thesis using assms(1) Appended a
        unfolding keeps_end_def by (auto simp: events_append_def less_Suc_eq)
    next
      case (Some p)
      then show ?thesis using append_keeps_end [of n h lg p] assms(1) Appended a by simp
    qed
  next
    case Reopened
    then show ?thesis using reopen_keeps_end [of n h lg] assms a by simp
  qed
qed

lemma step_next_le:
  assumes "keeps_end a lg"
  shows "fst (full_step e a) \<le> Suc (fst a)"
proof -
  obtain n h where a: "a = (n, h)" by (cases a)
  have "0 < n" "\<forall>x\<in>set h. fst x < n" using assms by (auto simp: keeps_end_def a)
  moreover then have "h \<noteq> [] \<Longrightarrow> fst (last h) \<le> n" by (simp add: less_imp_le)
  ultimately show ?thesis unfolding a by (cases "(e, (n, h))" rule: full_step.cases) auto
qed

lemma run_keeps_end:
  "length es < 2 ^ 64 \<Longrightarrow> keeps_end (full_run es) (log_run es) \<and> fst (full_run es) \<le> Suc (length es)"
proof (induction es rule: rev_induct)
  case Nil
  show ?case by (simp add: full_run_def log_run_def keeps_end_def events_open_def read_max_event_id_def lines_of_def)
next
  case (snoc e es)
  have IH: "keeps_end (full_run es) (log_run es)" "fst (full_run es) \<le> Suc (length es)" using snoc by auto
  have "keeps_end (full_step e (full_run es)) (log_step e (log_run es))"
    by (rule step_keeps_end [OF IH(1)]) (use IH(2) snoc.prems in simp)
  moreover have "fst (full_step e (full_run es)) \<le> Suc (Suc (length es))"
    using step_next_le [OF IH(1), of e] IH(2) by simp
  ultimately show ?case by (simp add: full_run_def log_run_def)
qed

lemma entries_after_lines:
  "\<forall>e\<in>set h. fst e < 2 ^ 64 \<Longrightarrow> entries_after k (lines_of h) = filter (\<lambda>(n, _). k < n) h"
  by (induction h) (auto simp: entries_after_def lines_of_def map_filter_simps read_log_line_line)

lemma map_filter_append: "List.map_filter f (xs @ ys) = List.map_filter f xs @ List.map_filter f ys"
  by (simp add: map_filter_def)

lemma map_filter_keys_subset: "sorted_wrt (<) (map fst xs) \<Longrightarrow> (\<And>e y. f e = Some y \<Longrightarrow> fst y = fst e)
    \<Longrightarrow> sorted_wrt (<) (map fst (List.map_filter f xs))" for xs :: "(nat \<times> 'a) list"
  by (induction xs) (auto simp: map_filter_simps map_filter_def split: option.split)

lemma replay_sorts:
  fixes rot :: "(nat \<times> string) list"
  assumes "sorted_wrt (<) (map fst (rot @ cur))"
  shows "sort_key fst (List.map_filter (\<lambda>(n, p). map_option (Pair n) (decode p)) (filter (\<lambda>(n, _). k < n) (cur @ rot))) =
    List.map_filter (\<lambda>(n, p). map_option (Pair n) (decode p)) (filter (\<lambda>(n, _). k < n) (rot @ cur))" (is "sort_key fst ?xs = ?ys")
proof -
  have later: "sorted_wrt (<) (map fst (filter (\<lambda>(n, _). k < n) (rot @ cur)))"
    using assms by (metis (no_types, lifting) sorted_wrt_filter sorted_wrt_map)
  have sorted: "sorted_wrt (<) (map fst ?ys)"
    by (rule map_filter_keys_subset [OF later]) auto
  have "mset ?xs = mset ?ys" by (simp add: map_filter_append)
  moreover have "distinct (map fst ?ys)" "sorted (map fst ?ys)" using sorted strict_sorted_iff by auto
  moreover then have "inj_on fst (set ?xs)" using \<open>mset ?xs = mset ?ys\<close> by (metis distinct_map set_mset_mset)
  ultimately show ?thesis by (intro sort_key_inj_key_eq) simp_all
qed

text \<open>
  C36: As long as every write succeeds, whatever was appended and however often the log was
  reopened, a subscriber that reconnects is sent every later event it can read, once and in order,
  except those that lie behind at least fifty megabytes of later ones. After a failed write the
  event is lost, and the numbers may start over.
\<close>

theorem replay_sends_the_later_events:
  assumes "length es < 2 ^ 64"
  shows "\<exists>lost kept. snd (full_run es) = lost @ kept
    \<and> (lost = [] \<or> events_log_max_bytes \<le> file_bytes (lines_of kept))
    \<and> (\<forall>k. replay_after decode k (log_run es) =
          List.map_filter (\<lambda>(n, p). map_option (Pair n) (decode p)) (filter (\<lambda>(n, _). k < n) kept))"
proof -
  obtain n h where a: "full_run es = (n, h)" by (cases "full_run es")
  have "keeps_end (n, h) (log_run es)" "n \<le> 2 ^ 64" using run_keeps_end [OF assms] a assms by auto
  then obtain old rot cur where h: "h = old @ rot @ cur" and cur: "ev_current (log_run es) = lines_of cur"
    and rot: "case ev_rotated (log_run es) of None \<Rightarrow> rot = [] \<and> old = [] | Some ls \<Rightarrow> ls = lines_of rot"
    and kept: "old = [] \<or> events_log_max_bytes \<le> file_bytes (lines_of rot)"
    and sorted: "sorted_wrt (<) (map fst h)" and less: "\<forall>e\<in>set h. fst e < n"
    unfolding keeps_end_def prod.case by (elim conjE exE) blast
  have bound: "\<forall>e\<in>set rot. fst e < 2 ^ 64" "\<forall>e\<in>set cur. fst e < 2 ^ 64"
    by (rule below_all [OF _ \<open>n \<le> 2 ^ 64\<close>]; use less in \<open>simp add: h\<close>)+
  note entries = entries_after_lines [OF bound(1)]
  let ?dec = "\<lambda>(n, p). map_option (Pair n) (decode p)"
  have "replay_after decode k (log_run es) = List.map_filter ?dec (filter (\<lambda>(n, _). k < n) (rot @ cur))" for k
  proof -
    have "replay_after decode k (log_run es) =
        sort_key fst (List.map_filter ?dec (filter (\<lambda>(n, _). k < n) (cur @ rot)))"
      using rot unfolding replay_after_def Let_def cur entries_after_lines [OF bound(2)]
      by (auto simp: entries [where k = k] split: option.splits)
    also have "\<dots> = List.map_filter ?dec (filter (\<lambda>(n, _). k < n) (rot @ cur))"
      by (rule replay_sorts) (use sorted in \<open>simp add: h sorted_wrt_append\<close>)
    finally show ?thesis .
  qed
  moreover have "old = [] \<or> events_log_max_bytes \<le> file_bytes (lines_of (rot @ cur))"
    using kept by (auto simp: file_bytes_def lines_of_def)
  ultimately show ?thesis using a h by (intro exI [of _ old] exI [of _ "rot @ cur"]) simp
qed

lemma replay_sends_the_later_events_witness:
  "\<exists>lost kept. snd (full_run [Appended (Some ''a''), Reopened, Appended (Some ''b'')]) = lost @ kept
    \<and> (lost = [] \<or> events_log_max_bytes \<le> file_bytes (lines_of kept))
    \<and> (\<forall>k. replay_after Some k (log_run [Appended (Some ''a''), Reopened, Appended (Some ''b'')]) =
          List.map_filter (\<lambda>(n, p). map_option (Pair n) (Some p)) (filter (\<lambda>(n, _). k < n) kept))"
  by (rule replay_sends_the_later_events) simp

text \<open>A rotation whose write fails or that is cut off by a crash leaves an empty file behind; only that file is read at
  the next start, so the numbers start over while subscribers hold larger ones.\<close>

lemma numbers_restart_after_failed_rotation:
  "events_log_max_bytes \<le> file_bytes (ev_current lg) \<Longrightarrow>
   ev_next_id (log_step Reopened (snd (events_append (Some p) False lg))) = 1"
  by (simp add: events_append_def Let_def events_open_def read_max_event_id_def)

end
