(* ===== verification/Annotations.thy ===== *)
theory Annotations
  imports Rust_Text "HOL-Library.Product_Lexorder"
begin

text \<open>
  Notes that agents leave on symbols, files, edges and repositories, \<^verbatim>\<open>annotations.rs\<close>. A SQLite
  table with a primary key is a map from keys to rows, a query is the selection, order and limit its text
  asks for. Fresh ids, the clock and whether a target still exists are arguments; the JSON column of
  references is the list it encodes. Failures of the database are not modelled.
\<close>

section \<open>Annotations\<close>

datatype annotation_target =
    SymbolTarget string
  | EdgeTarget string string
  | FileTarget string
  | RepoTarget string

fun target_kind_str :: "annotation_target \<Rightarrow> string" where
  "target_kind_str (SymbolTarget s) = ''symbol''"
| "target_kind_str (EdgeTarget a b) = ''edge''"
| "target_kind_str (FileTarget f) = ''file''"
| "target_kind_str (RepoTarget r) = ''repo''"

definition is_drive_absolute :: "string \<Rightarrow> bool" where
  "is_drive_absolute p =
     (case p of
        c # d # _ \<Rightarrow> (let n = (of_char (ascii_lower c) :: nat) in 97 \<le> n \<and> n \<le> 122) \<and> d = CHR '':''
      | _ \<Rightarrow> False)"

definition canonical_file :: "string \<Rightarrow> string" where
  "canonical_file p =
     (if str_contains ''..'' p \<or> starts_with ''/'' p \<or> starts_with [CHR 0x5C] p \<or> is_drive_absolute p then [] else p)"

fun canonical_target_id :: "annotation_target \<Rightarrow> string" where
  "canonical_target_id (SymbolTarget s) = ''symbol:'' @ s"
| "canonical_target_id (FileTarget f) = ''file:'' @ canonical_file f"
| "canonical_target_id (RepoTarget r) = ''repo:'' @ r"
| "canonical_target_id (EdgeTarget a b) = ''edge:'' @ a @ '' -> '' @ b"

datatype annotation_kind = NoteKind | WarningKind | TodoKind | InvestigationKind | FixKind

fun annotation_kind_str :: "annotation_kind \<Rightarrow> string" where
  "annotation_kind_str NoteKind = ''note''"
| "annotation_kind_str WarningKind = ''warning''"
| "annotation_kind_str TodoKind = ''todo''"
| "annotation_kind_str InvestigationKind = ''investigation''"
| "annotation_kind_str FixKind = ''fix''"

definition annotation_kind_parse :: "string \<Rightarrow> annotation_kind option" where
  "annotation_kind_parse s =
     (if s = ''note'' then Some NoteKind else if s = ''warning'' then Some WarningKind
      else if s = ''todo'' then Some TodoKind else if s = ''investigation'' then Some InvestigationKind
      else if s = ''fix'' then Some FixKind else None)"

datatype annotation_status = OpenStatus | ResolvedStatus | StaleStatus

fun annotation_status_str :: "annotation_status \<Rightarrow> string" where
  "annotation_status_str OpenStatus = ''open''"
| "annotation_status_str ResolvedStatus = ''resolved''"
| "annotation_status_str StaleStatus = ''stale''"

definition annotation_status_parse :: "string \<Rightarrow> annotation_status option" where
  "annotation_status_parse s =
     (if s = ''open'' then Some OpenStatus else if s = ''resolved'' then Some ResolvedStatus
      else if s = ''stale'' then Some StaleStatus else None)"

record annotation =
  an_id :: string
  an_target_kind :: string
  an_target_id :: string
  an_kind :: string
  an_body :: string
  an_author :: string
  an_created_at :: nat
  an_updated_at :: nat
  an_status :: string
  an_resolved_by :: "string option"
  an_resolved_at :: "nat option"
  an_refs :: "annotation_target list"

record add_inputs =
  ai_target :: annotation_target
  ai_kind :: annotation_kind
  ai_body :: string
  ai_author :: string
  ai_refs :: "annotation_target list"

definition into_annotation :: "string \<Rightarrow> nat \<Rightarrow> add_inputs \<Rightarrow> annotation" where
  "into_annotation i now inp =
     \<lparr>an_id = i, an_target_kind = target_kind_str (ai_target inp), an_target_id = canonical_target_id (ai_target inp),
      an_kind = annotation_kind_str (ai_kind inp), an_body = ai_body inp, an_author = ai_author inp,
      an_created_at = now, an_updated_at = now, an_status = annotation_status_str OpenStatus,
      an_resolved_by = None, an_resolved_at = None, an_refs = ai_refs inp\<rparr>"

text \<open>\<open>str::split_once\<close> with a string.\<close>

fun split_once_str :: "string \<Rightarrow> string \<Rightarrow> (string \<times> string) option" where
  "split_once_str sep [] = (if sep = [] then Some ([], []) else None)"
| "split_once_str sep (c # cs) =
     (if prefix sep (c # cs) then Some ([], drop (length sep) (c # cs))
      else map_option (\<lambda>(a, b). (c # a, b)) (split_once_str sep cs))"

definition annotation_target_from_row :: "annotation \<Rightarrow> annotation_target option" where
  "annotation_target_from_row a =
     (case strip_prefix (an_target_kind a @ '':'') (an_target_id a) of
        None \<Rightarrow> None
      | Some stripped \<Rightarrow>
          if an_target_kind a = ''symbol'' then Some (SymbolTarget stripped)
          else if an_target_kind a = ''file'' then Some (FileTarget stripped)
          else if an_target_kind a = ''repo'' then Some (RepoTarget stripped)
          else if an_target_kind a = ''edge'' then
            (let payload = (case strip_prefix ''edge:'' stripped of Some p \<Rightarrow> p | None \<Rightarrow> stripped) in
             map_option (\<lambda>(a, b). EdgeTarget a b) (split_once_str '' -> '' payload))
          else None)"

definition body_excerpt :: "string \<Rightarrow> string" where
  "body_excerpt body =
     (let limit = 240 in
      if length body \<le> limit then body
      else
        let cut = last (0 # filter (\<lambda>i. i = 0 \<or> \<not> is_cont_byte (body ! i)) [0..<Suc limit]) in
        take cut body @ [byte 226, byte 128, byte 166])"

section \<open>The table\<close>

text \<open>The columns of times are signed.\<close>

record annotation_row =
  rw_annotation :: annotation
  rw_created :: int
  rw_updated :: int
  rw_resolved :: "int option"

definition as_i64 :: "nat \<Rightarrow> int" where
  "as_i64 n = (if n < 2 ^ 63 then int n else int n - 2 ^ 64)"

definition to_row :: "annotation \<Rightarrow> annotation_row" where
  "to_row a =
     \<lparr>rw_annotation = a, rw_created = as_i64 (an_created_at a), rw_updated = as_i64 (an_updated_at a),
      rw_resolved = map_option as_i64 (an_resolved_at a)\<rparr>"

definition row_to_annotation :: "annotation_row \<Rightarrow> annotation" where
  "row_to_annotation r =
     (rw_annotation r)\<lparr>an_created_at := nat (max 0 (rw_created r)), an_updated_at := nat (max 0 (rw_updated r)),
        an_resolved_at := map_option (\<lambda>v. nat (max 0 v)) (rw_resolved r)\<rparr>"

type_synonym annotation_store = "(string, annotation_row) hmap"

definition max_body_bytes :: nat where "max_body_bytes = 4096"

definition max_refs :: nat where "max_refs = 256"

datatype annotation_error = BodyEmpty | BodyTooLong | TooManyRefs | AnnotationNotFound string

definition annotation_add :: "annotation \<Rightarrow> annotation_store \<Rightarrow> (annotation_error + unit) \<times> annotation_store" where
  "annotation_add a st =
     (if an_body a = [] then (Inl BodyEmpty, st)
      else if max_body_bytes < length (an_body a) then (Inl BodyTooLong, st)
      else if max_refs < length (an_refs a) then (Inl TooManyRefs, st)
      else (Inr (), hm_put (an_id a) (to_row a) st))"

definition annotation_get :: "string \<Rightarrow> annotation_store \<Rightarrow> annotation option" where
  "annotation_get i st = map_option row_to_annotation (hm_get st i)"

definition annotation_resolve ::
    "string \<Rightarrow> string \<Rightarrow> nat \<Rightarrow> annotation_store \<Rightarrow> (annotation_error + annotation) \<times> annotation_store" where
  "annotation_resolve i who now st =
     (case hm_get st i of
        None \<Rightarrow> (Inl (AnnotationNotFound i), st)
      | Some r \<Rightarrow>
          if an_status (rw_annotation r) \<noteq> ''open'' then (Inl (AnnotationNotFound i), st)
          else
            let r' = r\<lparr>rw_annotation := (rw_annotation r)\<lparr>an_status := ''resolved'', an_resolved_by := Some who\<rparr>,
                       rw_resolved := Some (as_i64 now), rw_updated := as_i64 now\<rparr> in
            (Inr (row_to_annotation r'), hm_put i r' st))"

section \<open>Listing\<close>

record list_filter =
  lf_target :: "annotation_target option"
  lf_author :: "string option"
  lf_kind :: "annotation_kind option"
  lf_status :: "annotation_status option"
  lf_limit :: "nat option"

definition sql_where :: "list_filter \<Rightarrow> annotation_row \<Rightarrow> bool" where
  "sql_where f r \<longleftrightarrow>
     (case lf_target f of
        Some t \<Rightarrow> an_target_kind (rw_annotation r) = target_kind_str t \<and> an_target_id (rw_annotation r) = canonical_target_id t
      | None \<Rightarrow> True)
     \<and> (case lf_author f of Some who \<Rightarrow> an_author (rw_annotation r) = who | None \<Rightarrow> True)
     \<and> (case lf_kind f of Some k \<Rightarrow> an_kind (rw_annotation r) = annotation_kind_str k | None \<Rightarrow> True)
     \<and> (case lf_status f of
          Some ResolvedStatus \<Rightarrow> an_status (rw_annotation r) = ''resolved''
        | Some _ \<Rightarrow> an_status (rw_annotation r) \<noteq> ''resolved''
        | None \<Rightarrow> True)"

definition post_filtered :: "list_filter \<Rightarrow> bool" where
  "post_filtered f \<longleftrightarrow> lf_status f = Some OpenStatus \<or> lf_status f = Some StaleStatus"

definition page_limit :: "list_filter \<Rightarrow> nat" where
  "page_limit f = min (case lf_limit f of Some l \<Rightarrow> l | None \<Rightarrow> 100) 1000"

definition reclassify :: "(annotation_target \<Rightarrow> bool) \<Rightarrow> annotation \<Rightarrow> annotation" where
  "reclassify exists a =
     (if an_status a = ''open'' then
        (case annotation_target_from_row a of
           Some t \<Rightarrow> if exists t then a else a\<lparr>an_status := ''stale''\<rparr>
         | None \<Rightarrow> a\<lparr>an_status := ''stale''\<rparr>)
      else a)"

definition status_matches :: "list_filter \<Rightarrow> annotation \<Rightarrow> bool" where
  "status_matches f a = (case lf_status f of Some s \<Rightarrow> an_status a = annotation_status_str s | None \<Rightarrow> True)"

fun list_rows :: "list_filter \<Rightarrow> (annotation_target \<Rightarrow> bool) \<Rightarrow> annotation list \<Rightarrow> annotation_row list \<Rightarrow> annotation list" where
  "list_rows f exists out [] = out"
| "list_rows f exists out (r # rs) =
     (let a = reclassify exists (row_to_annotation r) in
      if \<not> status_matches f a then list_rows f exists out rs
      else
        let out' = out @ [a] in
        if post_filtered f \<and> page_limit f \<le> length out' then out' else list_rows f exists out' rs)"

definition newest_first :: "annotation_row list \<Rightarrow> annotation_row list" where
  "newest_first rs = sort_key (\<lambda>r. (- rw_created r, an_id (rw_annotation r))) rs"

definition list_with_staleness :: "list_filter \<Rightarrow> (annotation_target \<Rightarrow> bool) \<Rightarrow> annotation_store \<Rightarrow> annotation list" where
  "list_with_staleness f exists st =
     (let rows = newest_first (filter (sql_where f) (hm_vals st)) in
      list_rows f exists [] (if post_filtered f then rows else take (page_limit f) rows))"

text \<open>All stores of a federation, in the order of the repositories.\<close>

definition annotation_list_all ::
    "annotation_store list \<Rightarrow> list_filter \<Rightarrow> (annotation_target \<Rightarrow> bool) \<Rightarrow> annotation list" where
  "annotation_list_all stores f exists =
     (let out = sort_key (\<lambda>a. - int (an_created_at a)) (concat (map (list_with_staleness f exists) stores)) in
      case lf_limit f of Some l \<Rightarrow> take l out | None \<Rightarrow> out)"

end
