(* ===== verification/Annotation_Props.thy ===== *)
theory Annotation_Props
  imports Annotations "HOL-Library.Multiset"
begin

text \<open>What a listing shows, and what is kept of a target.\<close>

section \<open>Listings\<close>

definition passes :: "list_filter \<Rightarrow> (annotation_target \<Rightarrow> bool) \<Rightarrow> annotation_row \<Rightarrow> bool" where
  "passes f exists r \<longleftrightarrow>
     sql_where (f\<lparr>lf_status := None\<rparr>) r \<and> status_matches f (reclassify exists (row_to_annotation r))"

definition shown :: "(annotation_target \<Rightarrow> bool) \<Rightarrow> annotation_row \<Rightarrow> annotation" where
  "shown exists r = reclassify exists (row_to_annotation r)"

lemma status_of_row [simp]: "an_status (row_to_annotation r) = an_status (rw_annotation r)"
  by (simp add: row_to_annotation_def)

lemma reclassify_status:
  "an_status (reclassify exists a) = an_status a \<or> an_status a = ''open'' \<and> an_status (reclassify exists a) = ''stale''"
  by (simp add: reclassify_def split: option.split)

lemma passes_where: "passes f exists r \<Longrightarrow> sql_where f r"
  using reclassify_status [of exists "row_to_annotation r"]
  by (auto simp: passes_def sql_where_def status_matches_def split: option.splits annotation_status.splits)

lemma where_passes: "\<not> post_filtered f \<Longrightarrow> sql_where f r \<Longrightarrow> passes f exists r"
  by (cases "lf_status f") (auto simp: passes_def sql_where_def status_matches_def post_filtered_def reclassify_def
      split: annotation_status.splits)

lemma list_rows_all: "\<not> post_filtered f \<Longrightarrow> list_rows f exists out rs = out @ map (shown exists) (filter (\<lambda>r. status_matches f (shown exists r)) rs)"
  by (induction rs arbitrary: out) (simp_all add: shown_def Let_def)

lemma list_rows_page:
  assumes "post_filtered f" "length out < page_limit f"
  shows "list_rows f exists out rs =
    take (page_limit f) (out @ map (shown exists) (filter (\<lambda>r. status_matches f (shown exists r)) rs))"
  using assms(2)
proof (induction rs arbitrary: out)
  case (Cons r rs)
  show ?case
  proof (cases "status_matches f (shown exists r) \<and> page_limit f \<le> Suc (length out)")
    case True
    then have "page_limit f = Suc (length out)" using Cons.prems by simp
    then show ?thesis using True assms(1) by (simp add: shown_def Let_def)
  next
    case False
    then show ?thesis using assms(1) Cons by (auto simp: shown_def Let_def take_Cons')
  qed
qed simp

lemma newest_first_filter: "filter P (newest_first rs) = newest_first (filter P rs)"
  by (simp add: newest_first_def filter_sort)

lemma listing_eq:
  assumes "page_limit f \<noteq> 0"
  shows "list_with_staleness f exists st =
    map (shown exists) (take (page_limit f) (newest_first (filter (passes f exists) (hm_vals st))))"
proof (cases "post_filtered f")
  case True
  have both: "sql_where f r \<and> status_matches f (shown exists r) \<longleftrightarrow> passes f exists r" for r
    using passes_where [of f exists r]
    by (auto simp: passes_def sql_where_def status_matches_def shown_def split: option.splits)
  show ?thesis
    using True both assms
    by (simp add: list_with_staleness_def list_rows_page newest_first_filter conj_commute take_map)
next
  case False
  have "filter (\<lambda>r. status_matches f (shown exists r)) (take n (newest_first (filter (sql_where f) rs)))
      = take n (newest_first (filter (sql_where f) rs))" for n rs
    using where_passes [OF False]
    by (intro filter_True) (auto simp: newest_first_def passes_def status_matches_def shown_def dest: in_set_takeD)
  moreover have "filter (sql_where f) rs = filter (passes f exists) rs" for rs
    using where_passes [OF False] passes_where by (metis (mono_tags, lifting) filter_cong)
  ultimately show ?thesis using False by (simp add: list_with_staleness_def list_rows_all)
qed

text \<open>
  What a caller may expect of a listing, without the query: an open annotation is stale once its
  target cannot be read or is gone, and an annotation is asked for when it has the target, the
  author, the kind and the current status of the filter, each if the filter names it.
\<close>

definition current_status :: "(annotation_target \<Rightarrow> bool) \<Rightarrow> annotation \<Rightarrow> string" where
  "current_status exists a =
     (if an_status a = ''open'' \<and> \<not> (\<exists>t. annotation_target_from_row a = Some t \<and> exists t) then ''stale'' else an_status a)"

definition asked_for :: "list_filter \<Rightarrow> (annotation_target \<Rightarrow> bool) \<Rightarrow> annotation \<Rightarrow> bool" where
  "asked_for f exists a \<longleftrightarrow>
     (\<forall>t. lf_target f = Some t \<longrightarrow> an_target_kind a = target_kind_str t \<and> an_target_id a = canonical_target_id t)
     \<and> (\<forall>who. lf_author f = Some who \<longrightarrow> an_author a = who)
     \<and> (\<forall>k. lf_kind f = Some k \<longrightarrow> an_kind a = annotation_kind_str k)
     \<and> (lf_status f = Some OpenStatus \<longrightarrow> current_status exists a = ''open'')
     \<and> (lf_status f = Some ResolvedStatus \<longrightarrow> current_status exists a = ''resolved'')
     \<and> (lf_status f = Some StaleStatus \<longrightarrow> current_status exists a = ''stale'')"

lemma row_to_annotation_sel [simp]:
  "an_target_kind (row_to_annotation r) = an_target_kind (rw_annotation r)" "an_target_id (row_to_annotation r) = an_target_id (rw_annotation r)"
  "an_author (row_to_annotation r) = an_author (rw_annotation r)" "an_kind (row_to_annotation r) = an_kind (rw_annotation r)"
  "an_id (row_to_annotation r) = an_id (rw_annotation r)"
  by (simp_all add: row_to_annotation_def)

lemma shown_eq: "shown exists r = (row_to_annotation r)\<lparr>an_status := current_status exists (row_to_annotation r)\<rparr>"
  by (auto simp: shown_def reclassify_def current_status_def split: option.split)

lemma passes_eq: "passes f exists r = asked_for f exists (row_to_annotation r)"
proof -
  have "status_matches f (shown exists r) \<longleftrightarrow>
      (lf_status f = Some OpenStatus \<longrightarrow> current_status exists (row_to_annotation r) = ''open'')
      \<and> (lf_status f = Some ResolvedStatus \<longrightarrow> current_status exists (row_to_annotation r) = ''resolved'')
      \<and> (lf_status f = Some StaleStatus \<longrightarrow> current_status exists (row_to_annotation r) = ''stale'')"
    unfolding shown_eq by (cases "lf_status f"; cases "the (lf_status f)") (auto simp: status_matches_def)
  then show ?thesis
    unfolding passes_def asked_for_def shown_def [symmetric] by (auto simp: sql_where_def split: option.splits)
qed

text \<open>
  C37: With a limit other than 0, a page of a listing is the first so many, the limit or 100 and
  at most 1000, of all the annotations that were asked for, the latest written first and those
  written at the same time by their ids; each is shown with its current status. So none that
  was asked for is left out in favour of an older one.
\<close>

theorem listing_is_the_newest:
  assumes "lf_limit f \<noteq> Some 0"
  shows "\<exists>rows. list_with_staleness f exists st =
      map (\<lambda>r. (row_to_annotation r)\<lparr>an_status := current_status exists (row_to_annotation r)\<rparr>)
        (take (min (case lf_limit f of Some l \<Rightarrow> l | None \<Rightarrow> 100) 1000) rows)
    \<and> mset rows = mset (filter (\<lambda>r. asked_for f exists (row_to_annotation r)) (hm_vals st))
    \<and> sorted_wrt (\<lambda>r s. rw_created s < rw_created r
        \<or> rw_created r = rw_created s \<and> an_id (rw_annotation r) \<le> an_id (rw_annotation s)) rows"
proof (intro exI [of _ "newest_first (filter (passes f exists) (hm_vals st))"] conjI)
  have "page_limit f \<noteq> 0" using assms by (auto simp: page_limit_def split: option.split)
  from listing_eq [OF this] show "list_with_staleness f exists st =
      map (\<lambda>r. (row_to_annotation r)\<lparr>an_status := current_status exists (row_to_annotation r)\<rparr>)
        (take (min (case lf_limit f of Some l \<Rightarrow> l | None \<Rightarrow> 100) 1000) (newest_first (filter (passes f exists) (hm_vals st))))"
    by (simp add: page_limit_def shown_eq)
  have "sorted (map (\<lambda>r. (- rw_created r, an_id (rw_annotation r))) (newest_first rs))" for rs
    by (simp add: newest_first_def)
  then show "sorted_wrt (\<lambda>r s. rw_created s < rw_created r
      \<or> rw_created r = rw_created s \<and> an_id (rw_annotation r) \<le> an_id (rw_annotation s))
      (newest_first (filter (passes f exists) (hm_vals st)))"
    unfolding sorted_map by (rule sorted_wrt_mono_rel [rotated]) (auto simp: less_eq_prod_def)
qed (simp add: newest_first_def passes_eq)

lemma listing_is_the_newest_witness:
  "\<exists>rows. list_with_staleness \<lparr>lf_target = None, lf_author = None, lf_kind = None, lf_status = Some StaleStatus, lf_limit = Some 1\<rparr>
      (\<lambda>_. False) hm_empty
    = map (\<lambda>r. (row_to_annotation r)\<lparr>an_status := current_status (\<lambda>_. False) (row_to_annotation r)\<rparr>) (take 1 rows)"
  using listing_is_the_newest [of "\<lparr>lf_target = None, lf_author = None, lf_kind = None, lf_status = Some StaleStatus, lf_limit = Some 1\<rparr>"
      "\<lambda>_. False" hm_empty]
  by auto

text \<open>A limit of zero still shows one open annotation.\<close>

lemma zero_limit_shows_one:
  "list_with_staleness \<lparr>lf_target = None, lf_author = None, lf_kind = None, lf_status = Some OpenStatus, lf_limit = Some 0\<rparr>
     (\<lambda>_. True) [(''a'', to_row (into_annotation ''a'' 1 \<lparr>ai_target = RepoTarget ''r'', ai_kind = NoteKind, ai_body = ''x'', ai_author = ''ana'', ai_refs = []\<rparr>))]
   \<noteq> []"
  by (simp add: list_with_staleness_def newest_first_def sql_where_def post_filtered_def page_limit_def hm_vals_def
      to_row_def into_annotation_def status_matches_def reclassify_def annotation_target_from_row_def row_to_annotation_def Let_def
      strip_prefix_def)

section \<open>Targets\<close>

fun canonical_target :: "annotation_target \<Rightarrow> annotation_target" where
  "canonical_target (FileTarget f) = FileTarget (canonical_file f)"
| "canonical_target t = t"

fun edge_readable :: "annotation_target \<Rightarrow> bool" where
  "edge_readable (EdgeTarget a b) \<longleftrightarrow> \<not> prefix ''edge:'' (a @ '' -> '' @ b) \<and> \<not> sublist '' -> '' (a @ '' ->'')"
| "edge_readable t = True"

lemma split_once_str_first:
  "\<not> sublist sep (a @ butlast sep) \<Longrightarrow> sep \<noteq> [] \<Longrightarrow> split_once_str sep (a @ sep @ b) = Some (a, b)"
proof (induction a)
  case Nil
  then show ?case by (cases sep) simp_all
next
  case (Cons c a)
  have "\<not> prefix sep (c # a @ sep @ b)"
  proof
    assume "prefix sep (c # a @ sep @ b)"
    moreover have "sep @ b = butlast sep @ last sep # b"
      using Cons.prems(2) by (metis append_butlast_last_id append.assoc append_Cons append_Nil)
    ultimately have "prefix sep (c # a @ butlast sep @ [last sep] @ b)" by simp
    moreover have "length sep \<le> length (c # a @ butlast sep)" using Cons.prems(2) by (simp add: Suc_leI)
    ultimately have "prefix sep (c # a @ butlast sep)"
      by (metis append.assoc append_Cons prefix_length_prefix prefixI)
    then show False using Cons.prems(1) by (simp add: prefix_imp_sublist)
  qed
  moreover have "\<not> sublist sep (a @ butlast sep)" using Cons.prems(1) by (auto simp: sublist_Cons_right)
  ultimately show ?case using Cons by simp
qed

lemma target_round_trip:
  assumes "edge_readable (ai_target inp)"
  shows "annotation_target_from_row (into_annotation i now inp) = Some (canonical_target (ai_target inp))"
proof (cases "ai_target inp")
  case (EdgeTarget a b)
  then have "split_once_str '' -> '' (a @ '' -> '' @ b) = Some (a, b)"
    using assms split_once_str_first [of "'' -> ''" a b] by simp
  moreover have "strip_prefix ''edge:'' (a @ '' -> '' @ b) = None" using assms EdgeTarget by (simp add: strip_prefix_def)
  ultimately show ?thesis using EdgeTarget by (simp add: annotation_target_from_row_def into_annotation_def strip_prefix_def)
qed (simp_all add: annotation_target_from_row_def into_annotation_def strip_prefix_def)

text \<open>The prefix of the kind is taken off twice, and the first arrow ends the source.\<close>

lemma edge_target_misread:
  "annotation_target_from_row (into_annotation i now \<lparr>ai_target = EdgeTarget ''edge:x'' ''y'', ai_kind = NoteKind, ai_body = b, ai_author = w, ai_refs = []\<rparr>)
     = Some (EdgeTarget ''x'' ''y'')"
  "annotation_target_from_row (into_annotation i now \<lparr>ai_target = EdgeTarget ''a -> b'' ''c'', ai_kind = NoteKind, ai_body = b, ai_author = w, ai_refs = []\<rparr>)
     = Some (EdgeTarget ''a'' ''b -> c'')"
  by (simp_all add: annotation_target_from_row_def into_annotation_def strip_prefix_def)

text \<open>Paths that are refused all become the empty path, so their annotations share one target.\<close>

lemma refused_files_share_a_target:
  "canonical_target_id (FileTarget ''/etc/passwd'') = canonical_target_id (FileTarget ''notes..txt'')"
  by code_simp

section \<open>Resolving\<close>

lemma resolved_once:
  "fst (annotation_resolve i who now st) = Inr a \<Longrightarrow>
   annotation_get i (snd (annotation_resolve i who now st)) = Some a
   \<and> an_status a = ''resolved'' \<and> an_resolved_by a = Some who
   \<and> fst (annotation_resolve i who' now' (snd (annotation_resolve i who now st))) = Inl (AnnotationNotFound i)"
  by (auto simp: annotation_resolve_def annotation_get_def Let_def row_to_annotation_def split: option.splits if_splits)

lemma add_get:
  "fst (annotation_add a st) = Inr () \<Longrightarrow> an_created_at a < 2 ^ 63 \<Longrightarrow> an_updated_at a < 2 ^ 63
   \<Longrightarrow> (\<forall>t. an_resolved_at a = Some t \<longrightarrow> t < 2 ^ 63) \<Longrightarrow> annotation_get (an_id a) (snd (annotation_add a st)) = Some a"
  by (cases "an_resolved_at a")
     (auto simp: annotation_add_def annotation_get_def to_row_def row_to_annotation_def as_i64_def split: if_splits)

end
