(* ===== verification/Index_Cache.thy ===== *)
theory Index_Cache
  imports Coverage
begin

text \<open>
  The cache of finished indexes, \<^verbatim>\<open>federation/contracts/index_cache.rs\<close>: one directory per repository,
  commit and version of the analyser, with the counts of who holds it. The directories are a map from
  the repository and the directory's name to a manifest and the size of the graph file; the clock and
  Unicode's lower case are arguments, failing file operations are not modelled.
\<close>

record cache_manifest =
  mf_repo :: string
  mf_commit :: string
  mf_analyzer_version :: string
  mf_files :: "string list"
  mf_sensor_counts :: "(string, nat) btree"
  mf_bytes :: nat
  mf_created :: int
  mf_last_used :: int

definition cache_key_new :: "string \<Rightarrow> string \<Rightarrow> string \<Rightarrow> cache_key" where
  "cache_key_new repo sha version = \<lparr>ch_repo = repo, ch_sha = sha, ch_analyzer_version = version\<rparr>"

definition dir_name :: "(string \<Rightarrow> string) \<Rightarrow> cache_key \<Rightarrow> string" where
  "dir_name lower k = lower (ch_sha k) @ ''-'' @ ch_analyzer_version k"

definition entry_dir :: "(string \<Rightarrow> string) \<Rightarrow> cache_key \<Rightarrow> string \<times> string" where
  "entry_dir lower k = (ch_repo k, dir_name lower k)"

definition is_hex_digit :: "char \<Rightarrow> bool" where
  "is_hex_digit c \<longleftrightarrow>
     (let n = (of_char c :: nat) in 48 \<le> n \<and> n \<le> 57 \<or> 65 \<le> n \<and> n \<le> 70 \<or> 97 \<le> n \<and> n \<le> 102)"

definition looks_like_full_sha :: "string \<Rightarrow> bool" where
  "looks_like_full_sha s \<longleftrightarrow> length s = 40 \<and> list_all is_hex_digit s"

record cache_entry =
  ce_manifest :: cache_manifest
  ce_bytes :: nat

record index_cache =
  xc_entries :: "(string \<times> string, cache_entry) hmap"
  xc_holds :: "(cache_key, nat) hmap"

definition index_cache_new :: index_cache where
  "index_cache_new = \<lparr>xc_entries = hm_empty, xc_holds = hm_empty\<rparr>"

section \<open>Holds\<close>

definition acquire_hold :: "cache_key \<Rightarrow> index_cache \<Rightarrow> index_cache" where
  "acquire_hold k c =
     c\<lparr>xc_holds := hm_put k ((case hm_get (xc_holds c) k of Some n \<Rightarrow> n | None \<Rightarrow> 0) + 1) (xc_holds c)\<rparr>"

definition release_hold :: "cache_key \<Rightarrow> index_cache \<Rightarrow> index_cache" where
  "release_hold k c =
     (case hm_get (xc_holds c) k of
        None \<Rightarrow> c
      | Some n \<Rightarrow> if n \<le> 1 then c\<lparr>xc_holds := hm_del k (xc_holds c)\<rparr> else c\<lparr>xc_holds := hm_put k (n - 1) (xc_holds c)\<rparr>)"

definition is_held :: "cache_key \<Rightarrow> index_cache \<Rightarrow> bool" where
  "is_held k c \<longleftrightarrow> hm_get (xc_holds c) k \<noteq> None"

section \<open>Entries\<close>

definition has_entry :: "(string \<Rightarrow> string) \<Rightarrow> cache_key \<Rightarrow> index_cache \<Rightarrow> bool" where
  "has_entry lower k c \<longleftrightarrow> hm_get (xc_entries c) (entry_dir lower k) \<noteq> None"

definition read_manifest :: "(string \<Rightarrow> string) \<Rightarrow> cache_key \<Rightarrow> index_cache \<Rightarrow> cache_manifest option" where
  "read_manifest lower k c = map_option ce_manifest (hm_get (xc_entries c) (entry_dir lower k))"

definition remove_entry :: "(string \<Rightarrow> string) \<Rightarrow> cache_key \<Rightarrow> index_cache \<Rightarrow> index_cache option" where
  "remove_entry lower k c =
     (if is_held k c then None else Some (c\<lparr>xc_entries := hm_del (entry_dir lower k) (xc_entries c)\<rparr>))"

definition write_entry :: "(string \<Rightarrow> string) \<Rightarrow> cache_key \<Rightarrow> nat \<Rightarrow> cache_manifest \<Rightarrow> index_cache \<Rightarrow> index_cache option" where
  "write_entry lower k bytes m c =
     map_option (\<lambda>c1. c1\<lparr>xc_entries := hm_put (entry_dir lower k) \<lparr>ce_manifest = m, ce_bytes = bytes\<rparr> (xc_entries c1)\<rparr>)
       (if has_entry lower k c then remove_entry lower k c else Some c)"

definition cache_touch :: "(string \<Rightarrow> string) \<Rightarrow> int \<Rightarrow> cache_key \<Rightarrow> index_cache \<Rightarrow> index_cache" where
  "cache_touch lower now k c =
     (case hm_get (xc_entries c) (entry_dir lower k) of
        None \<Rightarrow> c
      | Some e \<Rightarrow>
          c\<lparr>xc_entries := hm_put (entry_dir lower k) (e\<lparr>ce_manifest := (ce_manifest e)\<lparr>mf_last_used := now\<rparr>\<rparr>) (xc_entries c)\<rparr>)"

definition build_manifest :: "string \<Rightarrow> string \<Rightarrow> string \<Rightarrow> string list \<Rightarrow> (string, nat) btree \<Rightarrow> nat \<Rightarrow> int \<Rightarrow> cache_manifest" where
  "build_manifest repo commit version files counts bytes now =
     \<lparr>mf_repo = repo, mf_commit = commit, mf_analyzer_version = version, mf_files = files, mf_sensor_counts = counts,
      mf_bytes = bytes, mf_created = now, mf_last_used = now\<rparr>"

text \<open>The entry a branch or tag may stand for: the one used last, the first of the directory among equals.\<close>

definition discover :: "(string \<Rightarrow> string) \<Rightarrow> string \<Rightarrow> string \<Rightarrow> string \<Rightarrow> index_cache \<Rightarrow> cache_key option" where
  "discover lower repo version ref_hint c =
     (let candidate = (\<lambda>((r, dir), e).
            if r \<noteq> repo then None
            else case strip_suffix (''-'' @ version) dir of
                   None \<Rightarrow> None
                 | Some sha \<Rightarrow>
                     (case read_manifest lower (cache_key_new repo sha version) c of
                        None \<Rightarrow> None
                      | Some m \<Rightarrow>
                          if looks_like_full_sha ref_hint \<and> sha \<noteq> ref_hint then None else Some (sha, mf_last_used m)));
          found = sort_key (\<lambda>(_, used). - used) (List.map_filter candidate (xc_entries c)) in
      case found of [] \<Rightarrow> None | (sha, _) # _ \<Rightarrow> Some (cache_key_new repo sha version))"

definition key_of_entry :: "(string \<times> string) \<times> cache_entry \<Rightarrow> cache_key" where
  "key_of_entry e = (case e of ((repo, _), x) \<Rightarrow> cache_key_new repo (mf_commit (ce_manifest x)) (mf_analyzer_version (ce_manifest x)))"

section \<open>Eviction\<close>

fun evict_entries ::
    "(string \<Rightarrow> string) \<Rightarrow> nat \<Rightarrow> ((string \<times> string) \<times> cache_entry) list \<Rightarrow> nat \<Rightarrow> index_cache \<Rightarrow> index_cache" where
  "evict_entries lower budget [] current c = c"
| "evict_entries lower budget (e # es) current c =
     (if current \<le> budget then c
      else case remove_entry lower (key_of_entry e) c of
             None \<Rightarrow> evict_entries lower budget es current c
           | Some c1 \<Rightarrow> evict_entries lower budget es (current - ce_bytes (snd e)) c1)"

definition mib :: nat where "mib = 2 ^ 20"

definition total_bytes :: "index_cache \<Rightarrow> nat" where
  "total_bytes c = sum_list (map ce_bytes (hm_vals (xc_entries c)))"

definition evict_lru :: "(string \<Rightarrow> string) \<Rightarrow> nat \<Rightarrow> index_cache \<Rightarrow> index_cache" where
  "evict_lru lower budget_mb c =
     evict_entries lower (budget_mb * mib)
       (sort_key (\<lambda>e. mf_last_used (ce_manifest (snd e))) (xc_entries c)) (total_bytes c) c"

definition cache_purge :: "(string \<Rightarrow> string) \<Rightarrow> index_cache \<Rightarrow> index_cache" where
  "cache_purge lower c =
     fold (\<lambda>e c. case remove_entry lower (key_of_entry e) c of None \<Rightarrow> c | Some c1 \<Rightarrow> c1) (xc_entries c) c"

section \<open>What eviction guarantees\<close>

text \<open>Every directory carries the name its manifest gives it.\<close>

definition cache_ok :: "(string \<Rightarrow> string) \<Rightarrow> index_cache \<Rightarrow> bool" where
  "cache_ok lower c \<longleftrightarrow> hm_ok (xc_entries c) \<and> (\<forall>e\<in>set (xc_entries c). entry_dir lower (key_of_entry e) = fst e)"

datatype cache_event =
    Wrote string string string "string list" "(string, nat) btree" nat int
  | Touched int cache_key
  | HoldTaken cache_key
  | HoldReleased cache_key
  | Evicted nat
  | Purged

fun cache_step :: "(string \<Rightarrow> string) \<Rightarrow> cache_event \<Rightarrow> index_cache \<Rightarrow> index_cache" where
  "cache_step lower (Wrote repo sha version files counts bytes now) c =
     (case write_entry lower (cache_key_new repo sha version) bytes (build_manifest repo sha version files counts bytes now) c of
        Some c1 \<Rightarrow> c1 | None \<Rightarrow> c)"
| "cache_step lower (Touched now k) c = cache_touch lower now k c"
| "cache_step lower (HoldTaken k) c = acquire_hold k c"
| "cache_step lower (HoldReleased k) c = release_hold k c"
| "cache_step lower (Evicted budget) c = evict_lru lower budget c"
| "cache_step lower Purged c = cache_purge lower c"

definition cache_run :: "(string \<Rightarrow> string) \<Rightarrow> cache_event list \<Rightarrow> index_cache" where
  "cache_run lower es = fold (cache_step lower) es index_cache_new"

lemma cache_ok_holds [simp]: "cache_ok lower (c\<lparr>xc_holds := h\<rparr>) = cache_ok lower c"
  by (simp add: cache_ok_def)

lemma cache_okI:
  "hm_ok (xc_entries c) \<Longrightarrow> (\<And>d x. hm_get (xc_entries c) d = Some x \<Longrightarrow> entry_dir lower (key_of_entry (d, x)) = d) \<Longrightarrow> cache_ok lower c"
  unfolding cache_ok_def by (metis hm_mem_get prod.collapse)

lemma cache_okD:
  "cache_ok lower c \<Longrightarrow> hm_ok (xc_entries c)"
  "cache_ok lower c \<Longrightarrow> hm_get (xc_entries c) d = Some x \<Longrightarrow> entry_dir lower (key_of_entry (d, x)) = d"
  unfolding cache_ok_def by (simp, metis hm_mem_get fst_conv)

lemma cache_ok_dir:
  "cache_ok lower c \<Longrightarrow> hm_get (xc_entries c) (r, d) = Some x
   \<Longrightarrow> lower (mf_commit (ce_manifest x)) @ CHR ''-'' # mf_analyzer_version (ce_manifest x) = d"
  using cache_okD(2) [of lower c "(r, d)" x] by (simp add: key_of_entry_def entry_dir_def cache_key_new_def dir_name_def)

lemma remove_entry_ok: "cache_ok lower c \<Longrightarrow> remove_entry lower k c = Some c1 \<Longrightarrow> cache_ok lower c1"
  by (rule cache_okI) (auto simp: remove_entry_def cache_okD split: if_splits)

lemma evict_entries_ok: "cache_ok lower c \<Longrightarrow> cache_ok lower (evict_entries lower budget es current c)"
  by (induction es arbitrary: current c) (auto simp: remove_entry_ok split: option.split)

lemma purge_fold_ok:
  "cache_ok lower c \<Longrightarrow>
   cache_ok lower (fold (\<lambda>e c. case remove_entry lower (key_of_entry e) c of None \<Rightarrow> c | Some c1 \<Rightarrow> c1) es c)"
  by (induction es arbitrary: c) (auto simp: remove_entry_ok split: option.split)

lemma cache_step_ok:
  assumes "cache_ok lower c"
  shows "cache_ok lower (cache_step lower e c)"
proof (cases e)
  case (Wrote repo sha version files counts bytes now)
  have put: "cache_ok lower (c1\<lparr>xc_entries := hm_put (entry_dir lower (cache_key_new repo sha version))
      \<lparr>ce_manifest = build_manifest repo sha version files counts bytes now, ce_bytes = bytes\<rparr> (xc_entries c1)\<rparr>)"
    if "cache_ok lower c1" for c1
    using that
    by (intro cache_okI)
       (auto simp: cache_okD(1) cache_ok_dir key_of_entry_def entry_dir_def cache_key_new_def dir_name_def build_manifest_def split: if_splits)
  show ?thesis
    using assms put remove_entry_ok [OF assms]
    by (auto simp: Wrote write_entry_def split: option.split if_split)
next
  case (Touched now k)
  show ?thesis using assms
    by (auto simp: Touched cache_touch_def key_of_entry_def entry_dir_def cache_key_new_def dir_name_def cache_okD(1) cache_ok_dir
        split: option.split if_splits intro!: cache_okI)
next
  case (HoldReleased k)
  show ?thesis using assms by (simp add: HoldReleased release_hold_def split: option.split)
qed (use assms in \<open>simp_all add: acquire_hold_def evict_lru_def evict_entries_ok cache_purge_def purge_fold_ok\<close>)

interpretation cache: machine "cache_step lower" "\<lambda>_. True" "cache_ok lower" for lower
  by unfold_locales (rule cache_step_ok)

lemma cache_run_ok: "cache_ok lower (cache_run lower es)"
  unfolding cache_run_def
  by (rule cache.run_inv) (simp_all add: list_all_iff cache_ok_def index_cache_new_def, simp add: hm_empty_def)

section \<open>Bounds\<close>

lemma remove_entry_some: "remove_entry lower k c = Some c1 \<longleftrightarrow> \<not> is_held k c \<and> c1 = c\<lparr>xc_entries := hm_del (entry_dir lower k) (xc_entries c)\<rparr>"
  by (auto simp: remove_entry_def)

lemma total_bytes_del:
  assumes "hm_ok (xc_entries c)" "hm_get (xc_entries c) d = Some x"
  shows "total_bytes (c\<lparr>xc_entries := hm_del d (xc_entries c)\<rparr>) + ce_bytes x = total_bytes c"
proof -
  have "hm_ok m \<Longrightarrow> hm_get m d = Some x \<Longrightarrow>
      sum_list (map ce_bytes (hm_vals (hm_del d m))) + ce_bytes x = sum_list (map ce_bytes (hm_vals m))"
    for m :: "(string \<times> string, cache_entry) hmap"
  proof (induction m)
    case (Cons e m)
    show ?case
    proof (cases "fst e = d")
      case True
      have "hm_del d m = m" using Cons.prems(1) True by (auto simp: hm_del_def hm_ok_def hm_keys_def intro: delete_idem)
      then show ?thesis using Cons.prems True by (cases e) (simp add: hm_vals_def hm_del_def hm_get_def)
    next
      case False
      then show ?thesis using Cons by (cases e) (simp add: hm_vals_def hm_del_def hm_get_def hm_ok_def hm_keys_def)
    qed
  qed (simp add: hm_get_def)
  then show ?thesis using assms by (simp add: total_bytes_def)
qed

definition evictable :: "index_cache \<Rightarrow> (string \<times> string) \<times> cache_entry \<Rightarrow> bool" where
  "evictable c e \<longleftrightarrow> \<not> is_held (key_of_entry e) c"

text \<open>What the first \<open>m\<close> of a list of candidates give back.\<close>

definition freed :: "index_cache \<Rightarrow> nat \<Rightarrow> ((string \<times> string) \<times> cache_entry) list \<Rightarrow> nat" where
  "freed c m es = sum_list (map (\<lambda>e. ce_bytes (snd e)) (filter (evictable c) (take m es)))"

lemma all_less_Suc0: "(\<forall>m<Suc n. P m) \<longleftrightarrow> P 0 \<and> (\<forall>m<n. P (Suc m))"
  by (auto simp: less_Suc_eq_0_disj)

lemma evict_entries_result:
  assumes "cache_ok lower c" "set es \<subseteq> set (xc_entries c)" "distinct (map fst es)" "current = total_bytes c"
    and "\<forall>e\<in>set (xc_entries c) - set es. is_held (key_of_entry e) c"
  shows "\<exists>n. let c1 = evict_entries lower budget es current c in
    xc_holds c1 = xc_holds c
    \<and> set (xc_entries c1) = set (xc_entries c) - set (filter (evictable c) (take n es))
    \<and> (total_bytes c1 \<le> budget \<or> (\<forall>e\<in>set (xc_entries c1). is_held (key_of_entry e) c))
    \<and> (\<forall>m<n. budget + freed c m es < total_bytes c)"
  using assms
proof (induction es arbitrary: current c)
  case Nil
  then show ?case by (auto simp: Let_def)
next
  case (Cons e es)
  show ?case
  proof (cases "current \<le> budget")
    case True
    then show ?thesis using Cons.prems(4) by (auto simp: Let_def intro: exI [of _ 0])
  next
    case False
    show ?thesis
    proof (cases "is_held (key_of_entry e) c")
      case True
      have "\<exists>n. let c1 = evict_entries lower budget es current c in
          xc_holds c1 = xc_holds c \<and> set (xc_entries c1) = set (xc_entries c) - set (filter (evictable c) (take n es))
          \<and> (total_bytes c1 \<le> budget \<or> (\<forall>e\<in>set (xc_entries c1). is_held (key_of_entry e) c))
          \<and> (\<forall>m<n. budget + freed c m es < total_bytes c)"
        by (rule Cons.IH) (use Cons.prems True in auto)
      then obtain n where "let c1 = evict_entries lower budget es current c in
          xc_holds c1 = xc_holds c \<and> set (xc_entries c1) = set (xc_entries c) - set (filter (evictable c) (take n es))
          \<and> (total_bytes c1 \<le> budget \<or> (\<forall>e\<in>set (xc_entries c1). is_held (key_of_entry e) c))
          \<and> (\<forall>m<n. budget + freed c m es < total_bytes c)" by blast
      then show ?thesis using True False Cons.prems(4)
        by (intro exI [of _ "Suc n"]) (auto simp: remove_entry_def evictable_def freed_def Let_def all_less_Suc0)
    next
      case free: False
      let ?c = "c\<lparr>xc_entries := hm_del (fst e) (xc_entries c)\<rparr>"
      have e: "e \<in> set (xc_entries c)" using Cons.prems(2) by simp
      have dir: "entry_dir lower (key_of_entry e) = fst e" using Cons.prems(1) e by (simp add: cache_ok_def)
      have ok: "hm_ok (xc_entries c)" using Cons.prems(1) by (simp add: cache_ok_def)
      have get: "hm_get (xc_entries c) (fst e) = Some (snd e)" using hm_mem_get [OF ok, of "fst e" "snd e"] e by simp
      have removed: "remove_entry lower (key_of_entry e) c = Some ?c" using free dir by (simp add: remove_entry_def)
      have set_c: "set (xc_entries ?c) = set (xc_entries c) - {e}"
        using e hm_mem_get [OF ok] get by (auto simp: hm_set_del)
      have bytes: "current - ce_bytes (snd e) = total_bytes ?c" using total_bytes_del [OF ok get] Cons.prems(4) by simp
      have held: "is_held k ?c = is_held k c" for k by (simp add: is_held_def)
      have "\<exists>n. let c1 = evict_entries lower budget es (current - ce_bytes (snd e)) ?c in
          xc_holds c1 = xc_holds ?c \<and> set (xc_entries c1) = set (xc_entries ?c) - set (filter (evictable ?c) (take n es))
          \<and> (total_bytes c1 \<le> budget \<or> (\<forall>e\<in>set (xc_entries c1). is_held (key_of_entry e) ?c))
          \<and> (\<forall>m<n. budget + freed ?c m es < total_bytes ?c)"
      proof (rule Cons.IH [OF remove_entry_ok [OF Cons.prems(1) removed] _ _ bytes])
        show "set es \<subseteq> set (xc_entries ?c)" using Cons.prems(2,3) unfolding set_c by auto
        show "\<forall>e\<in>set (xc_entries ?c) - set es. is_held (key_of_entry e) ?c"
          using Cons.prems(5) unfolding set_c held by auto
      qed (use Cons.prems(3) in simp)
      then obtain n where n: "let c1 = evict_entries lower budget es (current - ce_bytes (snd e)) ?c in
          xc_holds c1 = xc_holds ?c \<and> set (xc_entries c1) = set (xc_entries ?c) - set (filter (evictable ?c) (take n es))
          \<and> (total_bytes c1 \<le> budget \<or> (\<forall>e\<in>set (xc_entries c1). is_held (key_of_entry e) ?c))
          \<and> (\<forall>m<n. budget + freed ?c m es < total_bytes ?c)" by blast
      have same: "evictable ?c = evictable c" by (simp add: evictable_def held fun_eq_iff)
      have step: "evict_entries lower budget (e # es) current c = evict_entries lower budget es (current - ce_bytes (snd e)) ?c"
        using False removed by simp
      have cut: "set (xc_entries c) - set (filter (evictable c) (take (Suc n) (e # es)))
          = set (xc_entries ?c) - set (filter (evictable c) (take n es))"
        using free unfolding set_c by (auto simp: evictable_def)
      have holds: "xc_holds ?c = xc_holds c" by simp
      have over: "\<forall>m<Suc n. budget + freed c m (e # es) < total_bytes c"
        if "\<forall>m<n. budget + freed ?c m es < total_bytes ?c"
        using that False free Cons.prems(4) unfolding bytes [symmetric]
        by (auto simp: all_less_Suc0 freed_def same evictable_def)
      show ?thesis
        using n over unfolding Let_def step same held holds cut [symmetric] by (intro exI [of _ "Suc n"]) blast
    qed
  qed
qed

definition oldest_first :: "index_cache \<Rightarrow> ((string \<times> string) \<times> cache_entry) list" where
  "oldest_first c = sort_key (\<lambda>e. mf_last_used (ce_manifest (snd e))) (xc_entries c)"

text \<open>
  C38: After any use of the cache, an eviction goes through the entries from the one used
  longest ago on and removes exactly those nobody holds among the first \<open>n\<close> of them, where
  \<open>n\<close> is as small as the budget allows: before each of the \<open>n\<close> steps what was still kept exceeded the
  budget, and after them the cache fits or only held entries are left.
\<close>

theorem eviction_fits_the_budget:
  "let c = cache_run lower es; c1 = evict_lru lower budget c in
   \<exists>n. set (xc_entries c1) = set (xc_entries c) - set (filter (\<lambda>e. \<not> is_held (key_of_entry e) c) (take n (oldest_first c)))
     \<and> (total_bytes c1 \<le> budget * mib \<or> list_all (\<lambda>e. is_held (key_of_entry e) c) (xc_entries c1))
     \<and> list_all (\<lambda>m. budget * mib
          + sum_list (map (\<lambda>e. ce_bytes (snd e)) (filter (\<lambda>e. \<not> is_held (key_of_entry e) c) (take m (oldest_first c))))
          < total_bytes c) [0..<n]"
proof -
  let ?c = "cache_run lower es"
  have ok: "cache_ok lower ?c" by (rule cache_run_ok)
  have "distinct (map fst (oldest_first ?c))"
    using ok unfolding cache_ok_def hm_ok_def hm_keys_def oldest_first_def
    by (metis distinct_map distinct_sort set_sort)
  then have "\<exists>n. let c1 = evict_entries lower (budget * mib) (oldest_first ?c) (total_bytes ?c) ?c in
      xc_holds c1 = xc_holds ?c \<and> set (xc_entries c1) = set (xc_entries ?c) - set (filter (evictable ?c) (take n (oldest_first ?c)))
      \<and> (total_bytes c1 \<le> budget * mib \<or> (\<forall>e\<in>set (xc_entries c1). is_held (key_of_entry e) ?c))
      \<and> (\<forall>m<n. budget * mib + freed ?c m (oldest_first ?c) < total_bytes ?c)"
    by (intro evict_entries_result [OF ok]) (simp_all add: oldest_first_def)
  then obtain n where n: "let c1 = evict_entries lower (budget * mib) (oldest_first ?c) (total_bytes ?c) ?c in
      xc_holds c1 = xc_holds ?c \<and> set (xc_entries c1) = set (xc_entries ?c) - set (filter (evictable ?c) (take n (oldest_first ?c)))
      \<and> (total_bytes c1 \<le> budget * mib \<or> (\<forall>e\<in>set (xc_entries c1). is_held (key_of_entry e) ?c))
      \<and> (\<forall>m<n. budget * mib + freed ?c m (oldest_first ?c) < total_bytes ?c)" by blast
  show ?thesis
    using n unfolding Let_def evict_lru_def oldest_first_def evictable_def [abs_def] freed_def list_all_iff set_upt
      atLeast0LessThan by (intro exI [of _ n]) blast
qed

end
