(* ===== verification/Snapshots.thy ===== *)
theory Snapshots
  imports Index_Cache
begin

text \<open>
  Snapshots of a federation at fixed commits, \<^verbatim>\<open>federation/contracts/snapshots\<close>: the record on disk
  (\<^verbatim>\<open>record.rs\<close>), the indexing jobs (\<^verbatim>\<open>jobs.rs\<close>), and the manager that prepares a snapshot and reports on it
  (\<^verbatim>\<open>manager.rs\<close>). What git and the indexer return, the hash that names a snapshot, the version of the
  analyser, the registered sources and the clock are arguments; a configuration is its JSON text.
  Failing file operations are not modelled.
\<close>

section \<open>Records\<close>

datatype snapshot_state = SnPending | SnIndexing | SnReady | SnFailed

datatype repo_snapshot_state =
    RsCached string
  | RsQueued string
  | RsIndexing string
  | RsFailed string string
  | RsExcluded

fun repo_state_commit :: "repo_snapshot_state \<Rightarrow> string option" where
  "repo_state_commit (RsCached c) = Some c"
| "repo_state_commit (RsQueued c) = Some c"
| "repo_state_commit (RsIndexing c) = Some c"
| "repo_state_commit (RsFailed c e) = Some c"
| "repo_state_commit RsExcluded = None"

record snapshot_record =
  sr_id :: string
  sr_repos :: "(string, string) btree"
  sr_excluded :: "string list"
  sr_refs :: "(string, string) btree"
  sr_join_config :: string
  sr_config_hash :: string
  sr_analyzer_version :: string
  sr_state :: snapshot_state
  sr_repo_states :: "(string, repo_snapshot_state) btree"
  sr_created :: int
  sr_last_access :: int

definition cache_key_for :: "snapshot_record \<Rightarrow> string \<Rightarrow> cache_key option" where
  "cache_key_for r repo = map_option (\<lambda>c. cache_key_new repo c (sr_analyzer_version r)) (bt_get (sr_repos r) repo)"

section \<open>Jobs\<close>

text \<open>Repository, commit, version of the analyser and source, compared in this order.\<close>

type_synonym job_spec = "string \<times> string \<times> string \<times> string"

datatype job_status = JobQueued | JobIndexing | JobDone nat "string list" | JobFailed string

record snap_job =
  js_status :: job_status
  js_revision :: nat
  js_bytes :: nat
  js_resolved_sha :: "string option"

definition snap_job_new :: snap_job where
  "snap_job_new = \<lparr>js_status = JobQueued, js_revision = 0, js_bytes = 0, js_resolved_sha = None\<rparr>"

type_synonym job_runner = "(job_spec, snap_job) btree"

definition job_submit :: "job_spec \<Rightarrow> job_runner \<Rightarrow> bool \<times> job_runner" where
  "job_submit spec jobs =
     (case bt_get jobs spec of Some _ \<Rightarrow> (False, jobs) | None \<Rightarrow> (True, bt_insert spec snap_job_new jobs))"

definition job_lookup :: "job_spec \<Rightarrow> job_runner \<Rightarrow> snap_job option" where
  "job_lookup spec jobs = bt_get jobs spec"

definition total_jobs :: "job_runner \<Rightarrow> nat" where
  "total_jobs jobs = length jobs"

definition jobs_for_repo :: "string \<Rightarrow> job_runner \<Rightarrow> snap_job list" where
  "jobs_for_repo repo jobs = map snd (filter (\<lambda>(s, _). fst s = repo) jobs)"

definition change_job :: "job_spec \<Rightarrow> (snap_job \<Rightarrow> snap_job) \<Rightarrow> job_runner \<Rightarrow> job_runner" where
  "change_job spec f jobs = (case bt_get jobs spec of Some j \<Rightarrow> bt_insert spec (f j) jobs | None \<Rightarrow> jobs)"

definition mark_indexing :: "job_spec \<Rightarrow> job_runner \<Rightarrow> job_runner" where
  "mark_indexing spec = change_job spec (\<lambda>j. j\<lparr>js_status := JobIndexing, js_revision := Suc (js_revision j)\<rparr>)"

definition mark_done :: "job_spec \<Rightarrow> nat \<Rightarrow> string list \<Rightarrow> job_runner \<Rightarrow> job_runner" where
  "mark_done spec bytes files =
     change_job spec (\<lambda>j. j\<lparr>js_bytes := bytes, js_status := JobDone bytes files, js_revision := Suc (js_revision j)\<rparr>)"

definition mark_failed :: "job_spec \<Rightarrow> string \<Rightarrow> job_runner \<Rightarrow> job_runner" where
  "mark_failed spec err = change_job spec (\<lambda>j. j\<lparr>js_status := JobFailed err, js_revision := Suc (js_revision j)\<rparr>)"

record job_counters =
  jc_queued :: nat
  jc_indexing :: nat
  jc_done :: nat
  jc_failed :: nat

fun count_job :: "job_status \<Rightarrow> job_counters \<Rightarrow> job_counters" where
  "count_job JobQueued c = c\<lparr>jc_queued := Suc (jc_queued c)\<rparr>"
| "count_job JobIndexing c = c\<lparr>jc_indexing := Suc (jc_indexing c)\<rparr>"
| "count_job (JobDone b fs) c = c\<lparr>jc_done := Suc (jc_done c)\<rparr>"
| "count_job (JobFailed e) c = c\<lparr>jc_failed := Suc (jc_failed c)\<rparr>"

definition job_counters_of :: "job_runner \<Rightarrow> job_counters" where
  "job_counters_of jobs =
     fold (\<lambda>(_, j). count_job (js_status j)) jobs \<lparr>jc_queued = 0, jc_indexing = 0, jc_done = 0, jc_failed = 0\<rparr>"

text \<open>The first queued job in the order of the map.\<close>

definition next_queued :: "job_runner \<Rightarrow> job_spec option" where
  "next_queued jobs = map_option fst (find (\<lambda>(_, j). js_status j = JobQueued) jobs)"

section \<open>The manager\<close>

record snapshot_manager =
  sm_records :: "(string, snapshot_record) hmap"
  sm_jobs :: job_runner
  sm_cache :: index_cache

text \<open>What running a job gives once the reference has a commit: the index with its files and counts, or an error.\<close>

datatype index_result = Indexed nat "string list" "(string, nat) btree" | IndexError string

text \<open>The error of a missing reference starts with the text \<^verbatim>\<open>Not found:\<close> that the error type adds.\<close>

definition ref_error :: "string \<Rightarrow> string \<Rightarrow> string" where
  "ref_error repo ref_str =
     ''Not found: snapshot job: ref '' @ [CHR 0x22] @ ref_str @ [CHR 0x22] @ '' not found in repo '' @ repo"

text \<open>What a worker does after it marked the job: \<open>resolved\<close> is the commit git finds, or the error of the lock or the mirror.\<close>

definition run_job ::
    "(string \<Rightarrow> string) \<Rightarrow> nat \<Rightarrow> int \<Rightarrow> string + string \<Rightarrow> index_result \<Rightarrow> job_spec \<Rightarrow> snapshot_manager \<Rightarrow> snapshot_manager" where
  "run_job lower budget now resolved result spec m =
     (case spec of (repo, _, version, _) \<Rightarrow>
        case resolved of
          Inl err \<Rightarrow> m\<lparr>sm_jobs := mark_failed spec err (sm_jobs m)\<rparr>
        | Inr sha \<Rightarrow>
            let m1 = m\<lparr>sm_jobs := change_job spec (\<lambda>j. j\<lparr>js_resolved_sha := Some sha\<rparr>) (sm_jobs m)\<rparr> in
            (case result of
               IndexError err \<Rightarrow> m1\<lparr>sm_jobs := mark_failed spec err (sm_jobs m1)\<rparr>
             | Indexed bytes files counts \<Rightarrow>
                 (case write_entry lower (cache_key_new repo sha version) bytes
                         (build_manifest repo sha version files counts bytes now) (sm_cache m1) of
                    None \<Rightarrow> m1\<lparr>sm_jobs := mark_failed spec ''cannot remove held cache entry'' (sm_jobs m1)\<rparr>
                  | Some c \<Rightarrow>
                      m1\<lparr>sm_cache := evict_lru lower budget c, sm_jobs := mark_done spec bytes files (sm_jobs m1)\<rparr>)))"

definition parse_ref_not_found :: "string \<Rightarrow> string option" where
  "parse_ref_not_found err =
     Option.bind (strip_prefix (''snapshot job: ref '' @ [CHR 0x22]) err) (\<lambda>rest. map_option fst (split_once (CHR 0x22) rest))"

record refresh_state =
  rf_states :: "(string, repo_snapshot_state) btree"
  rf_all_cached :: bool
  rf_any_failed :: bool
  rf_ref_not_found :: "(string \<times> string) list"

definition note_state :: "string \<Rightarrow> repo_snapshot_state \<Rightarrow> bool \<Rightarrow> refresh_state \<Rightarrow> refresh_state" where
  "note_state repo s cached st =
     st\<lparr>rf_states := bt_insert repo s (rf_states st), rf_all_cached := rf_all_cached st \<and> cached\<rparr>"

text \<open>The commit a repository's index is cached under.\<close>

definition effective_sha ::
    "(string \<Rightarrow> string) \<Rightarrow> index_cache \<Rightarrow> cache_key \<Rightarrow> snap_job option \<Rightarrow> string" where
  "effective_sha lower c key job =
     (case job of
        Some j \<Rightarrow> (case js_resolved_sha j of Some s \<Rightarrow> s | None \<Rightarrow> ch_sha key)
      | None \<Rightarrow>
          (case discover lower (ch_repo key) (ch_analyzer_version key) (ch_sha key) c of
             Some found \<Rightarrow> ch_sha found | None \<Rightarrow> ch_sha key))"

definition refresh_repo ::
    "(string \<Rightarrow> string) \<Rightarrow> (string \<Rightarrow> string option) \<Rightarrow> snapshot_manager \<Rightarrow> snapshot_record \<Rightarrow> string \<Rightarrow> refresh_state \<Rightarrow> refresh_state" where
  "refresh_repo lower source m r repo st =
     (case cache_key_for r repo of
        None \<Rightarrow> st
      | Some key \<Rightarrow>
          let src = (case source repo of Some s \<Rightarrow> s | None \<Rightarrow> []);
              job = job_lookup (repo, ch_sha key, ch_analyzer_version key, src) (sm_jobs m);
              sha = effective_sha lower (sm_cache m) key job in
          if has_entry lower (cache_key_new repo sha (ch_analyzer_version key)) (sm_cache m)
          then note_state repo (RsCached sha) True st
          else case job of
                 None \<Rightarrow> note_state repo (RsQueued (ch_sha key)) False st
               | Some j \<Rightarrow>
                   (case js_status j of
                      JobQueued \<Rightarrow> note_state repo (RsQueued (ch_sha key)) False st
                    | JobIndexing \<Rightarrow> note_state repo (RsIndexing (ch_sha key)) False st
                    | JobDone _ _ \<Rightarrow> note_state repo (RsCached sha) True st
                    | JobFailed err \<Rightarrow>
                        (note_state repo (RsFailed (ch_sha key) err) False st)
                          \<lparr>rf_any_failed := True,
                           rf_ref_not_found := rf_ref_not_found st
                             @ (case parse_ref_not_found err of Some n \<Rightarrow> [(repo, n)] | None \<Rightarrow> [])\<rparr>))"

definition mark_excluded :: "string \<Rightarrow> (string, repo_snapshot_state) btree \<Rightarrow> (string, repo_snapshot_state) btree" where
  "mark_excluded repo states = (case bt_get states repo of None \<Rightarrow> bt_insert repo RsExcluded states | Some _ \<Rightarrow> states)"

fun is_failed_state :: "repo_snapshot_state \<Rightarrow> bool" where
  "is_failed_state (RsFailed c e) = True"
| "is_failed_state s = False"

definition refresh_repo_states ::
    "(string \<Rightarrow> string) \<Rightarrow> (string \<Rightarrow> string option) \<Rightarrow> snapshot_manager \<Rightarrow> snapshot_record \<Rightarrow> snapshot_record \<times> (string \<times> string) list" where
  "refresh_repo_states lower source m r =
     (let st = fold (refresh_repo lower source m r) (map fst (sr_repos r))
                 \<lparr>rf_states = sr_repo_states r, rf_all_cached = True, rf_any_failed = False, rf_ref_not_found = []\<rparr>;
          states = fold mark_excluded (sr_excluded r) (rf_states st);
          only_missing = rf_any_failed st \<and> rf_ref_not_found st \<noteq> []
            \<and> length (rf_ref_not_found st) = length (filter is_failed_state (map snd states)) in
      (r\<lparr>sr_repo_states := states,
         sr_state := (if rf_any_failed st then SnFailed else if rf_all_cached st then SnReady else SnIndexing)\<rparr>,
       if only_missing then rf_ref_not_found st else []))"

section \<open>Preparing\<close>

datatype prepare_error =
    SnapshotNotFound string
  | RepoNotRegistered string
  | RefNotFound "(string \<times> string) list"
  | MaxBaseAgeWithFrom
  | NotASnapshot
  | PrepareBusy
  | PrepareOther string

record prepare_request =
  pr_repos :: "(string, string) btree"
  pr_refs :: "(string, string) btree"
  pr_excluded :: "string list"
  pr_from :: "string option"
  pr_max_base_age :: "nat option"
  pr_join_config :: string
  pr_config_hash :: string

definition max_queued_jobs :: nat where "max_queued_jobs = 64"

definition merge_btree :: "('k :: linorder, 'v) btree \<Rightarrow> ('k, 'v) btree \<Rightarrow> ('k, 'v) btree" where
  "merge_btree over base = fold (\<lambda>(k, v). bt_insert k v) over base"

definition inherit_btree :: "('k :: linorder, 'v) btree \<Rightarrow> ('k, 'v) btree \<Rightarrow> ('k, 'v) btree" where
  "inherit_btree inherited own =
     fold (\<lambda>(k, v) m. case bt_get m k of None \<Rightarrow> bt_insert k v m | Some _ \<Rightarrow> m) inherited own"

text \<open>The youngest ready record that fits; of several with the same time the first in the order of their ids.\<close>

definition apply_max_base_age ::
    "string \<Rightarrow> int \<Rightarrow> (string, snapshot_record) hmap \<Rightarrow> nat option \<Rightarrow> string \<Rightarrow> (string, string) btree \<Rightarrow> (string, string) btree" where
  "apply_max_base_age version now records max_age config_hash repos =
     (case max_age of
        None \<Rightarrow> repos
      | Some age \<Rightarrow>
          let fits = (\<lambda>r. sr_state r = SnReady \<and> sr_config_hash r = config_hash \<and> sr_analyzer_version r = version
                        \<and> sr_excluded r = [] \<and> now - int age \<le> sr_last_access r);
              best = fold (\<lambda>r b. if \<not> fits r then b else case b of
                         None \<Rightarrow> Some r | Some p \<Rightarrow> if sr_last_access p < sr_last_access r then Some r else Some p)
                       (map snd (sort_key fst records)) None in
          case best of None \<Rightarrow> repos | Some r \<Rightarrow> inherit_btree (sr_repos r) repos)"

record prepare_inputs =
  pi_repos :: "(string, string) btree"
  pi_excluded :: "string list"
  pi_join_config :: string
  pi_config_hash :: string

definition prepare_candidate ::
    "string \<Rightarrow> int \<Rightarrow> snapshot_manager \<Rightarrow> prepare_request \<Rightarrow> prepare_error + prepare_inputs" where
  "prepare_candidate version now m req =
     (case pr_from req of
        Some from_id \<Rightarrow>
          (case hm_get (sm_records m) from_id of
             None \<Rightarrow> Inl (SnapshotNotFound from_id)
           | Some base \<Rightarrow>
               Inr \<lparr>pi_repos = merge_btree (pr_repos req) (sr_repos base),
                    pi_excluded = sort (fold (\<lambda>e xs. if e \<in> set xs then xs else xs @ [e]) (pr_excluded req) (sr_excluded base)),
                    pi_join_config = sr_join_config base, pi_config_hash = sr_config_hash base\<rparr>)
      | None \<Rightarrow>
          if pr_max_base_age req \<noteq> None then Inl MaxBaseAgeWithFrom
          else Inr \<lparr>pi_repos = apply_max_base_age version now (sm_records m) (pr_max_base_age req) (pr_config_hash req) (pr_repos req),
                    pi_excluded = pr_excluded req, pi_join_config = pr_join_config req, pi_config_hash = pr_config_hash req\<rparr>)"

text \<open>Sources and commits of all repositories, in the order of the map; \<open>resolve\<close> is what git says.\<close>

fun resolve_repos ::
    "(string \<Rightarrow> string option) \<Rightarrow> (string \<Rightarrow> string \<Rightarrow> string \<Rightarrow> prepare_error + string) \<Rightarrow> (string \<times> string) list
     \<Rightarrow> (string, string) btree \<Rightarrow> (string, string) btree \<Rightarrow> prepare_error + (string, string) btree \<times> (string, string) btree" where
  "resolve_repos source resolve [] refs repos = Inr (refs, repos)"
| "resolve_repos source resolve ((repo, ref_str) # rest) refs repos =
     (case source repo of
        None \<Rightarrow> Inl (RepoNotRegistered repo)
      | Some src \<Rightarrow>
          let refs1 = (case bt_get refs repo of None \<Rightarrow> bt_insert repo ref_str refs | Some _ \<Rightarrow> refs) in
          case resolve repo (str_trim ref_str) src of
            Inl e \<Rightarrow> Inl e
          | Inr sha \<Rightarrow> resolve_repos source resolve rest refs1 (bt_insert repo sha repos))"

definition pending_repo_states :: "(string, string) btree \<Rightarrow> string list \<Rightarrow> (string, repo_snapshot_state) btree" where
  "pending_repo_states repos excluded =
     fold mark_excluded excluded (fold (\<lambda>(repo, commit). bt_insert repo (RsQueued commit)) repos [])"

definition write_record :: "snapshot_record \<Rightarrow> snapshot_manager \<Rightarrow> snapshot_manager" where
  "write_record r m = m\<lparr>sm_records := hm_put (sr_id r) r (sm_records m)\<rparr>"

definition touch_last_access :: "string \<Rightarrow> int \<Rightarrow> snapshot_manager \<Rightarrow> snapshot_manager" where
  "touch_last_access i now m =
     (case hm_get (sm_records m) i of Some r \<Rightarrow> write_record (r\<lparr>sr_last_access := now\<rparr>) m | None \<Rightarrow> m)"

fun submit_repos ::
    "(string \<Rightarrow> string option) \<Rightarrow> string \<Rightarrow> (string \<times> string) list \<Rightarrow> job_runner \<Rightarrow> (prepare_error + unit) \<times> job_runner" where
  "submit_repos source version [] jobs = (Inr (), jobs)"
| "submit_repos source version ((repo, commit) # rest) jobs =
     (case source repo of
        None \<Rightarrow> (Inl (RepoNotRegistered repo), jobs)
      | Some src \<Rightarrow> submit_repos source version rest (snd (job_submit (repo, commit, version, src) jobs)))"

datatype prepare_answer = Answered snapshot_record | Waiting string

text \<open>The part of \<^verbatim>\<open>prepare\<close> before it waits.\<close>

definition prepare_start ::
    "((string, string) btree \<Rightarrow> string list \<Rightarrow> string \<Rightarrow> string \<Rightarrow> string) \<Rightarrow> (string \<Rightarrow> string option)
     \<Rightarrow> (string \<Rightarrow> string \<Rightarrow> string \<Rightarrow> prepare_error + string) \<Rightarrow> string \<Rightarrow> int \<Rightarrow> prepare_request \<Rightarrow> snapshot_manager
     \<Rightarrow> (prepare_error + prepare_answer) \<times> snapshot_manager" where
  "prepare_start snapshot_id source resolve version now req m =
     (case prepare_candidate version now m req of
        Inl e \<Rightarrow> (Inl e, m)
      | Inr inp \<Rightarrow>
          (case resolve_repos source resolve (pi_repos inp) (pr_refs req) [] of
             Inl e \<Rightarrow> (Inl e, m)
           | Inr (refs, repos) \<Rightarrow>
               let i = snapshot_id repos (pi_excluded inp) (pi_config_hash inp) version;
                   proceed = (\<lambda>m1.
                     if max_queued_jobs \<le> total_jobs (sm_jobs m1) then (Inl PrepareBusy, m1)
                     else case submit_repos source version repos (sm_jobs m1) of
                            (Inl e, jobs) \<Rightarrow> (Inl e, m1\<lparr>sm_jobs := jobs\<rparr>)
                          | (Inr _, jobs) \<Rightarrow> (Inr (Waiting i), m1\<lparr>sm_jobs := jobs\<rparr>)) in
               (case hm_get (sm_records m) i of
                  Some r \<Rightarrow>
                    if sr_state r = SnReady \<or> sr_state r = SnFailed then (Inr (Answered r), touch_last_access i now m)
                    else proceed m
                | None \<Rightarrow>
                    proceed (write_record
                      \<lparr>sr_id = i, sr_repos = repos, sr_excluded = pi_excluded inp, sr_refs = refs,
                       sr_join_config = pi_join_config inp, sr_config_hash = pi_config_hash inp, sr_analyzer_version = version,
                       sr_state = SnPending, sr_repo_states = pending_repo_states repos (pi_excluded inp),
                       sr_created = now, sr_last_access = now\<rparr> m))))"

text \<open>One look at the jobs while waiting; \<open>None\<close> is the panic on a record that is gone, \<open>Waiting\<close> the next round.\<close>

definition prepare_poll ::
    "(string \<Rightarrow> string) \<Rightarrow> (string \<Rightarrow> string option) \<Rightarrow> int \<Rightarrow> bool \<Rightarrow> string \<Rightarrow> snapshot_manager
     \<Rightarrow> ((prepare_error + prepare_answer) \<times> snapshot_manager) option" where
  "prepare_poll lower source now expired i m =
     (case hm_get (sm_records m) i of
        None \<Rightarrow> None
      | Some r0 \<Rightarrow>
          (case refresh_repo_states lower source m r0 of
             (r, missing) \<Rightarrow>
               if missing \<noteq> [] \<and> sr_state r = SnFailed
               then Some (Inl (RefNotFound missing), touch_last_access i now (write_record r m))
               else if sr_state r = SnReady \<or> sr_state r = SnFailed
               then Some (Inr (Answered r), touch_last_access i now (write_record r m))
               else if expired then Some (Inr (Answered r), write_record r m)
               else Some (Inr (Waiting i), m)))"

definition snapshot_id_prefix :: string where "snapshot_id_prefix = ''snap_''"

definition get_poll ::
    "(string \<Rightarrow> string) \<Rightarrow> (string \<Rightarrow> string option) \<Rightarrow> int \<Rightarrow> bool \<Rightarrow> string \<Rightarrow> snapshot_manager
     \<Rightarrow> (prepare_error + prepare_answer) \<times> snapshot_manager" where
  "get_poll lower source now expired i m =
     (if i = ''live'' then (Inl NotASnapshot, m)
      else if \<not> starts_with snapshot_id_prefix i then (Inl (SnapshotNotFound i), m)
      else case hm_get (sm_records m) i of
             None \<Rightarrow> (Inl (SnapshotNotFound i), m)
           | Some r0 \<Rightarrow>
               (case refresh_repo_states lower source m r0 of
                  (r, missing) \<Rightarrow>
                    if missing \<noteq> [] \<and> sr_state r = SnFailed then (Inl (RefNotFound missing), touch_last_access i now m)
                    else if sr_state r = SnReady \<or> sr_state r = SnFailed then (Inr (Answered r), touch_last_access i now m)
                    else if expired then (Inr (Answered r), m)
                    else (Inr (Waiting i), m)))"

definition apply_retention :: "nat \<Rightarrow> int \<Rightarrow> snapshot_manager \<Rightarrow> nat \<times> snapshot_manager" where
  "apply_retention days now m =
     (let old = filter (\<lambda>(_, r). sr_last_access r < now - int days * 86400) (sm_records m) in
      (length old, m\<lparr>sm_records := fold (\<lambda>(i, _). hm_del i) old (sm_records m)\<rparr>))"

text \<open>After a restart the jobs of unfinished snapshots are submitted again.\<close>

definition recover_record :: "(string \<Rightarrow> string option) \<Rightarrow> snapshot_record \<Rightarrow> job_runner \<Rightarrow> job_runner" where
  "recover_record source r jobs =
     (if sr_state r = SnPending \<or> sr_state r = SnIndexing
      then fold (\<lambda>(repo, commit) js. case source repo of
             None \<Rightarrow> js | Some src \<Rightarrow> snd (job_submit (repo, commit, sr_analyzer_version r, src) js)) (sr_repos r) jobs
      else jobs)"

definition recover_from_disk :: "(string \<Rightarrow> string option) \<Rightarrow> snapshot_manager \<Rightarrow> snapshot_manager" where
  "recover_from_disk source m =
     m\<lparr>sm_jobs := fold (recover_record source) (map snd (sort_key fst (sm_records m))) (sm_jobs m)\<rparr>"

text \<open>A snapshot can be opened when every index is in the cache; the keys are held from then on.\<close>

definition open_snapshot :: "(string \<Rightarrow> string) \<Rightarrow> snapshot_record \<Rightarrow> snapshot_manager \<Rightarrow> bool \<times> snapshot_manager" where
  "open_snapshot lower r m =
     (let keys = map (\<lambda>(repo, commit). cache_key_new repo commit (sr_analyzer_version r)) (sr_repos r) in
      if list_all (\<lambda>k. has_entry lower k (sm_cache m)) keys
      then (True, m\<lparr>sm_cache := fold acquire_hold keys (sm_cache m)\<rparr>) else (False, m))"

text \<open>The readiness of the live graph in the shape of a snapshot; an excluded repository does not count.\<close>

fun is_cached_state :: "repo_snapshot_state \<Rightarrow> bool" where
  "is_cached_state (RsCached c) = True"
| "is_cached_state s = False"

definition live_readiness_view :: "string \<Rightarrow> int \<Rightarrow> (string \<times> repo_snapshot_state) list \<Rightarrow> snapshot_record" where
  "live_readiness_view version now per_repo =
     (let states = fold (\<lambda>(repo, s). bt_insert repo s) per_repo [];
          counted = filter (\<lambda>(_, s). s \<noteq> RsExcluded) per_repo;
          commits = fold (\<lambda>(repo, s) m. case repo_state_commit s of Some c \<Rightarrow> bt_insert repo c m | None \<Rightarrow> m) counted [] in
      \<lparr>sr_id = ''live'', sr_repos = commits, sr_excluded = [], sr_refs = [], sr_join_config = ''null'', sr_config_hash = [],
       sr_analyzer_version = version,
       sr_state = (if list_ex (\<lambda>(_, s). is_failed_state s) counted then SnFailed
                   else if list_ex (\<lambda>(_, s). \<not> is_cached_state s) counted then SnIndexing else SnReady),
       sr_repo_states = states, sr_created = now, sr_last_access = now\<rparr>)"

end
