(* ===== verification/Snapshot_Props.thy ===== *)
theory Snapshot_Props
  imports Snapshots
begin

text \<open>
  Properties of the snapshots: what a record reports of its repositories, what an open snapshot keeps in
  the cache, and the jobs that never leave the runner.
\<close>

section \<open>What a record reports\<close>

definition repo_source :: "(string \<Rightarrow> string option) \<Rightarrow> string \<Rightarrow> string" where
  "repo_source source repo = (case source repo of Some s \<Rightarrow> s | None \<Rightarrow> [])"

definition repo_job :: "(string \<Rightarrow> string option) \<Rightarrow> snapshot_manager \<Rightarrow> cache_key \<Rightarrow> snap_job option" where
  "repo_job source m key =
     job_lookup (ch_repo key, ch_sha key, ch_analyzer_version key, repo_source source (ch_repo key)) (sm_jobs m)"

definition repo_in_cache :: "(string \<Rightarrow> string) \<Rightarrow> (string \<Rightarrow> string option) \<Rightarrow> snapshot_manager \<Rightarrow> cache_key \<Rightarrow> bool" where
  "repo_in_cache lower source m key =
     has_entry lower
       (cache_key_new (ch_repo key) (effective_sha lower (sm_cache m) key (repo_job source m key)) (ch_analyzer_version key))
       (sm_cache m)"

text \<open>A repository is available when its index is in the cache or its job says that it is done.\<close>

definition repo_available :: "(string \<Rightarrow> string) \<Rightarrow> (string \<Rightarrow> string option) \<Rightarrow> snapshot_manager \<Rightarrow> cache_key \<Rightarrow> bool" where
  "repo_available lower source m key \<longleftrightarrow>
     repo_in_cache lower source m key
     \<or> (case repo_job source m key of Some j \<Rightarrow> (case js_status j of JobDone _ _ \<Rightarrow> True | _ \<Rightarrow> False) | None \<Rightarrow> False)"

definition repo_failed :: "(string \<Rightarrow> string) \<Rightarrow> (string \<Rightarrow> string option) \<Rightarrow> snapshot_manager \<Rightarrow> cache_key \<Rightarrow> bool" where
  "repo_failed lower source m key \<longleftrightarrow>
     \<not> repo_in_cache lower source m key
     \<and> (case repo_job source m key of Some j \<Rightarrow> (case js_status j of JobFailed _ \<Rightarrow> True | _ \<Rightarrow> False) | None \<Rightarrow> False)"

definition record_keys :: "snapshot_record \<Rightarrow> cache_key list" where
  "record_keys r = map (\<lambda>(repo, commit). cache_key_new repo commit (sr_analyzer_version r)) (sr_repos r)"

lemma cache_key_new_sel [simp]:
  "ch_repo (cache_key_new a b c) = a" "ch_sha (cache_key_new a b c) = b" "ch_analyzer_version (cache_key_new a b c) = c"
  by (simp_all add: cache_key_new_def)

lemma refresh_repo_flags:
  assumes "cache_key_for r repo = Some key"
  shows "rf_all_cached (refresh_repo lower source m r repo st) = (rf_all_cached st \<and> repo_available lower source m key)"
    and "rf_any_failed (refresh_repo lower source m r repo st) = (rf_any_failed st \<or> repo_failed lower source m key)"
proof -
  have "ch_repo key = repo" using assms by (auto simp: cache_key_for_def)
  then show "rf_all_cached (refresh_repo lower source m r repo st) = (rf_all_cached st \<and> repo_available lower source m key)"
    and "rf_any_failed (refresh_repo lower source m r repo st) = (rf_any_failed st \<or> repo_failed lower source m key)"
    using assms
    by (auto simp: refresh_repo_def Let_def note_state_def repo_available_def repo_failed_def repo_in_cache_def repo_job_def
        repo_source_def split: option.split job_status.split)
qed

lemma refresh_fold_flags:
  assumes "\<forall>e\<in>set es. cache_key_for r (fst e) = Some (key_of e)"
  shows "rf_all_cached (fold (refresh_repo lower source m r) (map fst es) st)
      = (rf_all_cached st \<and> (\<forall>e\<in>set es. repo_available lower source m (key_of e)))"
    and "rf_any_failed (fold (refresh_repo lower source m r) (map fst es) st)
      = (rf_any_failed st \<or> (\<exists>e\<in>set es. repo_failed lower source m (key_of e)))"
  using assms by (induction es arbitrary: st) (auto simp: refresh_repo_flags)

lemma record_key_for:
  assumes "bt_ok (sr_repos r)" "e \<in> set (sr_repos r)"
  shows "cache_key_for r (fst e) = Some (cache_key_new (fst e) (snd e) (sr_analyzer_version r))"
proof -
  have "(fst e, snd e) \<in> set (sr_repos r)" using assms(2) by simp
  then have "bt_get (sr_repos r) (fst e) = Some (snd e)" by (rule iffD1 [OF bt_mem [OF assms(1)]])
  then show ?thesis by (simp add: cache_key_for_def)
qed

lemma record_keys_eq: "record_keys r = map (\<lambda>e. cache_key_new (fst e) (snd e) (sr_analyzer_version r)) (sr_repos r)"
  by (simp add: record_keys_def case_prod_beta)

text \<open>the state a record reports is that of its jobs and of the cache: failed when some repository has a failed job
  and no index, ready when every repository has an index or a finished job, and indexing otherwise.\<close>

theorem refresh_reports_the_jobs:
  assumes "bt_ok (sr_repos r)"
  shows "sr_state (fst (refresh_repo_states lower source m r)) =
    (if \<exists>key\<in>set (record_keys r). repo_failed lower source m key then SnFailed
     else if \<forall>key\<in>set (record_keys r). repo_available lower source m key then SnReady
     else SnIndexing)"
proof -
  let ?key = "\<lambda>e. cache_key_new (fst e) (snd e) (sr_analyzer_version r)"
  have keys: "\<forall>e\<in>set (sr_repos r). cache_key_for r (fst e) = Some (?key e)"
    using record_key_for [OF assms] by blast
  show ?thesis
    by (simp add: refresh_repo_states_def Let_def refresh_fold_flags [OF keys] record_keys_eq)
qed

section \<open>Open snapshots and the cache\<close>

text \<open>A full commit in the spelling git prints, which folding the case leaves as it is.\<close>

definition git_sha :: "(string \<Rightarrow> string) \<Rightarrow> string \<Rightarrow> bool" where
  "git_sha lower sha \<longleftrightarrow> looks_like_full_sha sha \<and> lower sha = sha"

definition git_key :: "(string \<Rightarrow> string) \<Rightarrow> cache_key \<Rightarrow> bool" where
  "git_key lower k \<longleftrightarrow> git_sha lower (ch_sha k)"

text \<open>Indexes are written for full commits.\<close>

fun git_event :: "(string \<Rightarrow> string) \<Rightarrow> cache_event \<Rightarrow> bool" where
  "git_event lower (Wrote repo sha version files counts bytes now) = git_sha lower sha"
| "git_event lower _ = True"

text \<open>
  The holds other readers have on each key: those they had at first, those they take, less those
  they give back. On the keys in question nobody gives back a hold he has not.
\<close>

definition hold_count :: "cache_key \<Rightarrow> index_cache \<Rightarrow> nat" where
  "hold_count k c = (case hm_get (xc_holds c) k of Some n \<Rightarrow> n | None \<Rightarrow> 0)"

lemma hold_count_simps:
  "hm_get (xc_holds c) k = None \<Longrightarrow> hold_count k c = 0" "hm_get (xc_holds c) k = Some n \<Longrightarrow> hold_count k c = n"
  by (simp_all add: hold_count_def)

fun others_after :: "cache_event \<Rightarrow> (cache_key \<Rightarrow> nat) \<Rightarrow> cache_key \<Rightarrow> nat" where
  "others_after (HoldTaken k) others = others(k := Suc (others k))"
| "others_after (HoldReleased k) others = others(k := others k - 1)"
| "others_after _ others = others"

fun own_release :: "cache_key list \<Rightarrow> (cache_key \<Rightarrow> nat) \<Rightarrow> cache_event \<Rightarrow> bool" where
  "own_release keys others (HoldReleased k) \<longleftrightarrow> k \<notin> set keys \<or> 0 < others k"
| "own_release keys others _ \<longleftrightarrow> True"

primrec own_releases :: "cache_key list \<Rightarrow> (cache_key \<Rightarrow> nat) \<Rightarrow> cache_event list \<Rightarrow> bool" where
  "own_releases keys others [] \<longleftrightarrow> True"
| "own_releases keys others (e # es) \<longleftrightarrow> own_release keys others e \<and> own_releases keys (others_after e others) es"

definition commits_ok :: "(string \<Rightarrow> string) \<Rightarrow> index_cache \<Rightarrow> bool" where
  "commits_ok lower c \<longleftrightarrow> cache_ok lower c \<and> (\<forall>e\<in>set (xc_entries c). git_key lower (key_of_entry e))"

definition keeps :: "(string \<Rightarrow> string) \<Rightarrow> cache_key list \<Rightarrow> (cache_key \<Rightarrow> nat) \<Rightarrow> index_cache \<Rightarrow> bool" where
  "keeps lower keys others c \<longleftrightarrow>
     commits_ok lower c \<and> (\<forall>k\<in>set keys. git_key lower k \<and> others k < hold_count k c \<and> has_entry lower k c)"

lemma git_dir_inj:
  assumes "git_key lower k" "git_key lower l" "entry_dir lower k = entry_dir lower l"
  shows "k = l"
proof -
  have "ch_sha k = ch_sha l \<and> ch_analyzer_version k = ch_analyzer_version l"
    using assms by (simp add: git_key_def git_sha_def looks_like_full_sha_def entry_dir_def dir_name_def append_eq_append_conv)
  then show ?thesis using assms(3) by (simp add: entry_dir_def)
qed

lemma has_entry_put [simp]:
  "has_entry lower k (c\<lparr>xc_entries := hm_put d x (xc_entries c)\<rparr>) = (entry_dir lower k = d \<or> has_entry lower k c)"
  by (auto simp: has_entry_def)

lemma has_entry_del:
  "has_entry lower k (c\<lparr>xc_entries := hm_del d (xc_entries c)\<rparr>) = (entry_dir lower k \<noteq> d \<and> has_entry lower k c)"
  by (auto simp: has_entry_def)

lemma keepsD:
  assumes "keeps lower keys others c"
  shows "commits_ok lower c" "k \<in> set keys \<Longrightarrow> git_key lower k" "k \<in> set keys \<Longrightarrow> others k < hold_count k c" "k \<in> set keys \<Longrightarrow> is_held k c" "k \<in> set keys \<Longrightarrow> has_entry lower k c"
  using assms by (auto simp: keeps_def is_held_def) (metis hold_count_simps(1) not_less0 option.exhaust)

text \<open>Removing an entry nobody holds spares the keys that are held.\<close>

lemma keeps_remove:
  assumes "keeps lower keys others c" "git_key lower l" "remove_entry lower l c = Some c1"
  shows "keeps lower keys others c1"
proof -
  have c1: "c1 = c\<lparr>xc_entries := hm_del (entry_dir lower l) (xc_entries c)\<rparr>" and free: "\<not> is_held l c"
    using assms(3) by (simp_all add: remove_entry_some)
  have "commits_ok lower c1"
    using remove_entry_ok [OF _ assms(3)] keepsD(1) [OF assms(1)] by (auto simp: commits_ok_def c1 hm_set_del)
  moreover have "git_key lower k \<and> others k < hold_count k c1 \<and> has_entry lower k c1" if k: "k \<in> set keys" for k
  proof -
    have "entry_dir lower k \<noteq> entry_dir lower l"
      using git_dir_inj [OF keepsD(2) [OF assms(1) k] assms(2)] keepsD(4) [OF assms(1) k] free by auto
    then show ?thesis using keepsD [OF assms(1)] k by (simp add: c1 has_entry_del hold_count_def)
  qed
  ultimately show ?thesis by (simp add: keeps_def)
qed

lemma keeps_evict_entries:
  "keeps lower keys others c \<Longrightarrow> \<forall>e\<in>set es. git_key lower (key_of_entry e)
   \<Longrightarrow> keeps lower keys others (evict_entries lower budget es current c)"
  by (induction es arbitrary: current c) (auto split: option.split intro: keeps_remove)

lemma keeps_purge:
  "keeps lower keys others c \<Longrightarrow> \<forall>e\<in>set es. git_key lower (key_of_entry e) \<Longrightarrow>
   keeps lower keys others (fold (\<lambda>e c. case remove_entry lower (key_of_entry e) c of None \<Rightarrow> c | Some c1 \<Rightarrow> c1) es c)"
  by (induction es arbitrary: c) (auto split: option.split intro: keeps_remove)

lemma keeps_holds:
  assumes "keeps lower keys others c" "\<And>k. k \<in> set keys \<Longrightarrow> others' k < hold_count k (c\<lparr>xc_holds := h\<rparr>)"
  shows "keeps lower keys others' (c\<lparr>xc_holds := h\<rparr>)"
  using assms by (simp add: keeps_def commits_ok_def has_entry_def)

lemma commits_ok_put:
  assumes "cache_ok lower (c\<lparr>xc_entries := hm_put d x (xc_entries c)\<rparr>)" "commits_ok lower c" "git_key lower (key_of_entry (d, x))"
  shows "commits_ok lower (c\<lparr>xc_entries := hm_put d x (xc_entries c)\<rparr>)"
  unfolding commits_ok_def
proof (intro conjI ballI, rule assms(1))
  fix e assume "e \<in> set (xc_entries (c\<lparr>xc_entries := hm_put d x (xc_entries c)\<rparr>))"
  moreover have ok: "hm_ok (xc_entries c)" using assms(2) by (simp add: commits_ok_def cache_ok_def)
  ultimately have "hm_get (hm_put d x (xc_entries c)) (fst e) = Some (snd e)"
    using hm_mem_get [OF hm_ok_put [OF ok], of "fst e" "snd e"] by simp
  then have "e = (d, x) \<or> e \<in> set (xc_entries c)"
    using hm_mem_get [OF ok, of "fst e" "snd e"] by (cases e) (auto split: if_splits)
  then show "git_key lower (key_of_entry e)" using assms(2,3) by (auto simp: commits_ok_def)
qed


lemma keeps_put:
  assumes "keeps lower keys others c" "cache_ok lower (c\<lparr>xc_entries := hm_put d x (xc_entries c)\<rparr>)" "git_key lower (key_of_entry (d, x))"
  shows "keeps lower keys others (c\<lparr>xc_entries := hm_put d x (xc_entries c)\<rparr>)"
  using assms commits_ok_put [OF assms(2) keepsD(1) [OF assms(1)] assms(3)] by (simp add: keeps_def hold_count_def)

lemma keeps_step:
  assumes "keeps lower keys others c" "git_event lower e" "own_release keys others e"
  shows "keeps lower keys (others_after e others) (cache_step lower e c)"
proof (cases e)
  case (Wrote repo sha version files counts bytes now)
  then have same: "others_after e others = others" by simp
  let ?k = "cache_key_new repo sha version"
  let ?x = "\<lparr>ce_manifest = build_manifest repo sha version files counts bytes now, ce_bytes = bytes\<rparr>"
  have k: "git_key lower ?k" using assms(2) by (simp add: Wrote git_key_def)
  have x: "key_of_entry (entry_dir lower ?k, ?x) = ?k"
    by (simp add: key_of_entry_def entry_dir_def build_manifest_def)
  have step: "cache_ok lower (cache_step lower e c)" using cache_step_ok keepsD(1) [OF assms(1)] by (simp add: commits_ok_def)
  show ?thesis
  proof (cases "has_entry lower ?k c")
    case present: True
    show ?thesis
    proof (cases "remove_entry lower ?k c")
      case None
      then show ?thesis using assms(1) present by (simp add: Wrote write_entry_def)
    next
      case (Some c1)
      then have res: "cache_step lower e c = c1\<lparr>xc_entries := hm_put (entry_dir lower ?k) ?x (xc_entries c1)\<rparr>"
        using present by (simp add: Wrote write_entry_def)
      show ?thesis unfolding res same
        by (rule keeps_put [OF keeps_remove [OF assms(1) k Some]]) (use step k in \<open>simp_all add: res x\<close>)
    qed
  next
    case False
    then have res: "cache_step lower e c = c\<lparr>xc_entries := hm_put (entry_dir lower ?k) ?x (xc_entries c)\<rparr>"
      by (simp add: Wrote write_entry_def)
    show ?thesis unfolding res same by (rule keeps_put [OF assms(1)]) (use step k in \<open>simp_all add: res x\<close>)
  qed
next
  case (Touched now k)
  then have same: "others_after e others = others" by simp
  show ?thesis
  proof (cases "hm_get (xc_entries c) (entry_dir lower k)")
    case None
    then show ?thesis using assms(1) by (simp add: Touched cache_touch_def)
  next
    case (Some x)
    let ?x = "x\<lparr>ce_manifest := (ce_manifest x)\<lparr>mf_last_used := now\<rparr>\<rparr>"
    have res: "cache_step lower e c = c\<lparr>xc_entries := hm_put (entry_dir lower k) ?x (xc_entries c)\<rparr>"
      using Some by (simp add: Touched cache_touch_def)
    have step: "cache_ok lower (cache_step lower e c)" using cache_step_ok keepsD(1) [OF assms(1)] by (simp add: commits_ok_def)
    have ok: "hm_ok (xc_entries c)" using keepsD(1) [OF assms(1)] by (simp add: commits_ok_def cache_ok_def)
    have "(entry_dir lower k, x) \<in> set (xc_entries c)" using hm_mem_get [OF ok, of "entry_dir lower k" x] Some by simp
    then have "git_key lower (key_of_entry (entry_dir lower k, x))" using keepsD(1) [OF assms(1)] by (auto simp: commits_ok_def)
    then have "git_key lower (key_of_entry (entry_dir lower k, ?x))" by (simp add: key_of_entry_def entry_dir_def)
    then show ?thesis unfolding res same by (intro keeps_put [OF assms(1)]) (use step in \<open>simp_all add: res\<close>)
  qed
next
  case (HoldTaken k)
  have "others_after e others l < hold_count l (acquire_hold k c)" if "l \<in> set keys" for l
    using keepsD(3) [OF assms(1) that] by (auto simp: HoldTaken acquire_hold_def hold_count_def)
  then show ?thesis using keeps_holds [OF assms(1)] by (simp add: HoldTaken acquire_hold_def)
next
  case (HoldReleased k)
  have kept: "others_after e others l < hold_count l (release_hold k c)" if l: "l \<in> set keys" for l
  proof (cases "l = k")
    case True
    then have "0 < others k" "others k < hold_count k c"
      using assms(3) l keepsD(3) [OF assms(1) l] by (auto simp: HoldReleased)
    then show ?thesis
      by (cases "hm_get (xc_holds c) k") (auto simp: True HoldReleased release_hold_def hold_count_simps)
  next
    case False
    then have "hold_count l (release_hold k c) = hold_count l c"
      by (simp add: release_hold_def hold_count_def split: option.split)
    then show ?thesis using keepsD(3) [OF assms(1) l] False by (simp add: HoldReleased)
  qed
  have "\<exists>h. release_hold k c = c\<lparr>xc_holds := h\<rparr>"
  proof (cases "hm_get (xc_holds c) k")
    case None
    then have "release_hold k c = c\<lparr>xc_holds := xc_holds c\<rparr>" by (simp add: release_hold_def)
    then show ?thesis by blast
  qed (auto simp: release_hold_def)
  then obtain h where "release_hold k c = c\<lparr>xc_holds := h\<rparr>" by blast
  then show ?thesis using keeps_holds [OF assms(1)] kept by (simp add: HoldReleased)
next
  case (Evicted budget)
  show ?thesis using assms(1) keepsD(1) [OF assms(1)]
    by (simp add: Evicted evict_lru_def) (rule keeps_evict_entries, auto simp: commits_ok_def)
next
  case Purged
  show ?thesis using assms(1) keepsD(1) [OF assms(1)]
    by (simp add: Purged cache_purge_def) (rule keeps_purge, auto simp: commits_ok_def)
qed

lemma keeps_run:
  "keeps lower keys others c \<Longrightarrow> list_all (git_event lower) es \<Longrightarrow> own_releases keys others es \<Longrightarrow>
   \<exists>others'. keeps lower keys others' (fold (cache_step lower) es c)"
proof (induction es arbitrary: others c)
  case (Cons e es)
  then have "keeps lower keys (others_after e others) (cache_step lower e c)" by (intro keeps_step) simp_all
  from Cons.IH [OF this] Cons.prems show ?case by simp
qed auto

lemma commits_ok_step: "commits_ok lower c \<Longrightarrow> git_event lower e \<Longrightarrow> commits_ok lower (cache_step lower e c)"
  using keeps_step [of lower "[]" "\<lambda>_. 0" c e] by (cases e) (simp_all add: keeps_def)

interpretation commits: machine "cache_step lower" "git_event lower" "commits_ok lower" for lower
  by unfold_locales (rule commits_ok_step)

lemma cache_run_commits:
  assumes "list_all (git_event lower) es"
  shows "commits_ok lower (cache_run lower es)"
  unfolding cache_run_def
  by (rule commits.run_inv [OF assms]) (simp add: commits_ok_def cache_ok_def index_cache_new_def, simp add: hm_empty_def)

lemma hold_count_acquire: "hold_count l (fold acquire_hold keys c) = hold_count l c + count_list keys l"
  by (induction keys arbitrary: c) (auto simp: acquire_hold_def hold_count_def)

lemma entries_acquire [simp]: "xc_entries (fold acquire_hold keys c) = xc_entries c"
  by (induction keys arbitrary: c) (simp_all add: acquire_hold_def)

lemma open_snapshot_eq:
  "open_snapshot lower r m =
     (if list_all (\<lambda>k. has_entry lower k (sm_cache m)) (record_keys r)
      then (True, m\<lparr>sm_cache := fold acquire_hold (record_keys r) (sm_cache m)\<rparr>) else (False, m))"
  by (simp add: open_snapshot_def record_keys_def)

lemma open_keeps:
  assumes "commits_ok lower (sm_cache m)" "list_all (git_key lower) (record_keys r)" "fst (open_snapshot lower r m)"
  shows "keeps lower (record_keys r) (\<lambda>k. hold_count k (sm_cache m)) (sm_cache (snd (open_snapshot lower r m)))"
proof -
  have "0 < count_list (record_keys r) k" if "k \<in> set (record_keys r)" for k
    using that by (metis count_list_0_iff gr0I)
  then show ?thesis
    using assms
    by (auto simp: open_snapshot_eq keeps_def list_all_iff hold_count_acquire commits_ok_def cache_ok_def has_entry_def split: if_splits)
qed

text \<open>
  C39: A snapshot that was opened can be opened again after anything the cache did meanwhile:
  writing indexes, evicting to any budget, purging, and other readers taking and giving back holds
  on the same indexes, as long as they give back none but their own and the snapshot's own hold
  is not given back (the federation kept resident for it is what holds it).
\<close>

theorem open_snapshots_survive_eviction:
  assumes "list_all (git_event lower) before" "list_all (git_key lower) (record_keys r)"
    and "list_all (git_event lower) after" "own_releases (record_keys r) (\<lambda>k. hold_count k (cache_run lower before)) after"
    and "fst (open_snapshot lower r (m\<lparr>sm_cache := cache_run lower before\<rparr>))"
  shows "let m1 = snd (open_snapshot lower r (m\<lparr>sm_cache := cache_run lower before\<rparr>)) in
    fst (open_snapshot lower r (m1\<lparr>sm_cache := fold (cache_step lower) after (sm_cache m1)\<rparr>))"
proof -
  let ?m = "m\<lparr>sm_cache := cache_run lower before\<rparr>"
  let ?m1 = "snd (open_snapshot lower r ?m)"
  have "keeps lower (record_keys r) (\<lambda>k. hold_count k (cache_run lower before)) (sm_cache ?m1)"
    using open_keeps [OF _ assms(2,5)] by (simp add: cache_run_commits [OF assms(1)])
  then obtain others where "keeps lower (record_keys r) others (fold (cache_step lower) after (sm_cache ?m1))"
    using keeps_run assms(3,4) by blast
  then have "\<forall>k\<in>set (record_keys r). has_entry lower k (fold (cache_step lower) after (sm_cache ?m1))"
    using keepsD(5) by blast
  then show ?thesis
    by (simp add: Let_def open_snapshot_eq [of lower r "?m1\<lparr>sm_cache := fold (cache_step lower) after (sm_cache ?m1)\<rparr>"] list_all_iff)
qed

definition sample_sha :: string where "sample_sha = replicate 40 (CHR ''a'')"

definition sample_record :: snapshot_record where
  "sample_record = \<lparr>sr_id = ''snap_1'', sr_repos = [(''shop'', sample_sha)], sr_excluded = [], sr_refs = [(''shop'', ''main'')],
     sr_join_config = [], sr_config_hash = [], sr_analyzer_version = ''1'', sr_state = SnIndexing,
     sr_repo_states = [(''shop'', RsQueued sample_sha)], sr_created = 0, sr_last_access = 0\<rparr>"

definition empty_manager :: snapshot_manager where
  "empty_manager = \<lparr>sm_records = hm_empty, sm_jobs = [], sm_cache = index_cache_new\<rparr>"

lemma sample_git: "git_sha (\<lambda>s. s) sample_sha"
  by (simp add: git_sha_def looks_like_full_sha_def sample_sha_def is_hex_digit_def list_all_iff)

lemma refresh_reports_the_jobs_witness:
  "sr_state (fst (refresh_repo_states (\<lambda>s. s) (\<lambda>_. Some ''url'') empty_manager sample_record)) = SnIndexing"
  using refresh_reports_the_jobs [of sample_record "\<lambda>s. s" "\<lambda>_. Some ''url''" empty_manager]
  by (simp add: bt_ok_def sample_record_def record_keys_def repo_failed_def repo_available_def repo_in_cache_def repo_job_def
      empty_manager_def job_lookup_def has_entry_def index_cache_new_def)

definition sample_key :: cache_key where "sample_key = cache_key_new ''shop'' sample_sha ''1''"

lemma open_snapshots_survive_eviction_witness:
  "let m1 = snd (open_snapshot (\<lambda>s. s) sample_record
       (empty_manager\<lparr>sm_cache := cache_run (\<lambda>s. s) [Wrote ''shop'' sample_sha ''1'' [] [] 5 0]\<rparr>)) in
   fst (open_snapshot (\<lambda>s. s) sample_record (m1\<lparr>sm_cache := fold (cache_step (\<lambda>s. s))
     [HoldTaken sample_key, HoldReleased sample_key, Evicted 0, Purged] (sm_cache m1)\<rparr>))"
proof (rule open_snapshots_survive_eviction)
  show "list_all (git_key (\<lambda>s. s)) (record_keys sample_record)"
    using sample_git by (simp add: sample_record_def record_keys_def git_key_def)
qed (use sample_git in \<open>simp_all add: open_snapshot_eq record_keys_def sample_record_def cache_run_def write_entry_def has_entry_def
    index_cache_new_def\<close>)

section \<open>Jobs never leave\<close>

datatype snapshot_event =
    Asked "(string, string) btree \<Rightarrow> string list \<Rightarrow> string \<Rightarrow> string \<Rightarrow> string" "string \<Rightarrow> string \<Rightarrow> string \<Rightarrow> prepare_error + string"
      string int prepare_request
  | AskPolled int bool string
  | GetPolled int bool string
  | Taken
  | Ran nat int "string + string" index_result job_spec
  | Retained nat int
  | SnapOpened snapshot_record

fun snapshot_step :: "(string \<Rightarrow> string) \<Rightarrow> (string \<Rightarrow> string option) \<Rightarrow> snapshot_event \<Rightarrow> snapshot_manager \<Rightarrow> snapshot_manager" where
  "snapshot_step lower source (Asked snapshot_id resolve version now req) m =
     snd (prepare_start snapshot_id source resolve version now req m)"
| "snapshot_step lower source (AskPolled now expired i) m =
     (case prepare_poll lower source now expired i m of Some (_, m1) \<Rightarrow> m1 | None \<Rightarrow> m)"
| "snapshot_step lower source (GetPolled now expired i) m = snd (get_poll lower source now expired i m)"
| "snapshot_step lower source Taken m =
     (case next_queued (sm_jobs m) of Some spec \<Rightarrow> m\<lparr>sm_jobs := mark_indexing spec (sm_jobs m)\<rparr> | None \<Rightarrow> m)"
| "snapshot_step lower source (Ran budget now resolved result spec) m = run_job lower budget now resolved result spec m"
| "snapshot_step lower source (Retained days now) m = snd (apply_retention days now m)"
| "snapshot_step lower source (SnapOpened r) m = snd (open_snapshot lower r m)"

lemma bt_insert_grows: "length m \<le> length (bt_insert k v m)"
  by (induction m) (auto simp: bt_insert_def)

lemma change_job_grows: "length jobs \<le> length (change_job spec f jobs)"
  by (simp add: change_job_def bt_insert_grows split: option.split)

lemma submit_repos_grows: "length jobs \<le> length (snd (submit_repos source version es jobs))"
proof (induction source version es jobs rule: submit_repos.induct)
  case (2 source version repo commit rest jobs)
  have "length jobs \<le> length (snd (job_submit spec jobs))" for spec
    by (simp add: job_submit_def bt_insert_grows split: option.split)
  then show ?case using 2 by (auto split: option.split) (meson order_trans)
qed simp

lemma touch_jobs [simp]: "sm_jobs (touch_last_access i now m) = sm_jobs m" "sm_jobs (write_record r m) = sm_jobs m"
  by (simp_all add: touch_last_access_def write_record_def split: option.split)

lemma prepare_start_grows: "length (sm_jobs m) \<le> length (sm_jobs (snd (prepare_start snapshot_id source resolve version now req m)))"
  using submit_repos_grows [of "sm_jobs m"]
  by (auto simp: prepare_start_def Let_def split: sum.split option.split prod.split)
     (metis snd_conv)+

lemma poll_jobs [simp]:
  "prepare_poll lower source now expired i m = Some (a, m1) \<Longrightarrow> sm_jobs m1 = sm_jobs m"
  "sm_jobs (snd (get_poll lower source now expired i m)) = sm_jobs m"
  by (auto simp: prepare_poll_def get_poll_def split: option.splits prod.splits if_splits)

lemma run_job_grows: "length (sm_jobs m) \<le> length (sm_jobs (run_job lower budget now resolved result spec m))"
  unfolding run_job_def mark_failed_def mark_done_def
  by (auto simp: Let_def change_job_grows split: prod.split sum.split index_result.split option.split
      intro: order_trans [OF change_job_grows change_job_grows])

lemma snapshot_step_grows: "total_jobs (sm_jobs m) \<le> total_jobs (sm_jobs (snapshot_step lower source e m))"
  unfolding total_jobs_def
  by (cases e)
     (auto simp: prepare_start_grows run_job_grows mark_indexing_def change_job_grows apply_retention_def Let_def open_snapshot_def
      split: option.split)

interpretation snapshots: counting_machine "snapshot_step lower source" "\<lambda>_. True" "\<lambda>_. True" "\<lambda>m. total_jobs (sm_jobs m)"
  for lower source
  by unfold_locales (simp_all add: snapshot_step_grows)

lemma full_prepare:
  assumes "max_queued_jobs \<le> total_jobs (sm_jobs m)"
  shows "fst (prepare_start snapshot_id source resolve version now req m) \<noteq> Inr (Waiting i)
    \<and> sm_jobs (snd (prepare_start snapshot_id source resolve version now req m)) = sm_jobs m"
  using assms by (auto simp: prepare_start_def Let_def split: sum.split option.split)

text \<open>C40: once 64 jobs were submitted, no later request for a snapshot that is not finished is accepted, whatever the
  workers finish, clients read, or retention removes: the jobs stay in the runner.\<close>

theorem full_registry_stays_busy:
  assumes "max_queued_jobs \<le> total_jobs (sm_jobs m)"
  shows "let m1 = fold (snapshot_step lower source) es m; answer = prepare_start snapshot_id source resolve version now req m1 in
    (\<forall>i. fst answer \<noteq> Inr (Waiting i)) \<and> sm_jobs (snd answer) = sm_jobs m1"
proof -
  let ?m1 = "fold (snapshot_step lower source) es m"
  have "total_jobs (sm_jobs m) \<le> total_jobs (sm_jobs ?m1)"
    by (rule snapshots.run_clock) (simp_all add: list_all_iff)
  then have "max_queued_jobs \<le> total_jobs (sm_jobs ?m1)" using assms by simp
  then show ?thesis unfolding Let_def using full_prepare by blast
qed

definition finished_manager :: snapshot_manager where
  "finished_manager = empty_manager\<lparr>sm_jobs :=
     map (\<lambda>n. ((replicate n (CHR ''a''), sample_sha, ''1'', ''url''), snap_job_new\<lparr>js_status := JobDone 1 []\<rparr>)) [0..<64]\<rparr>"

definition sample_request :: prepare_request where
  "sample_request = \<lparr>pr_repos = [(''shop'', ''main'')], pr_refs = [], pr_excluded = [], pr_from = None, pr_max_base_age = None,
     pr_join_config = [], pr_config_hash = []\<rparr>"

lemma full_registry_stays_busy_witness:
  "let answer = prepare_start (\<lambda>_ _ _ _. ''snap_2'') (\<lambda>_. Some ''url'') (\<lambda>_ _ _. Inr sample_sha) ''1'' 9 sample_request
      (fold (snapshot_step (\<lambda>s. s) (\<lambda>_. Some ''url'')) [Retained 0 8, Taken] finished_manager) in
   (\<forall>i. fst answer \<noteq> Inr (Waiting i))
   \<and> sm_jobs (snd answer) = sm_jobs (fold (snapshot_step (\<lambda>s. s) (\<lambda>_. Some ''url'')) [Retained 0 8, Taken] finished_manager)"
  using full_registry_stays_busy [of finished_manager "\<lambda>s. s" "\<lambda>_. Some ''url''" "[Retained 0 8, Taken]" "\<lambda>_ _ _ _. ''snap_2''"
      "\<lambda>_ _ _. Inr sample_sha" "''1''" 9 sample_request]
  by (simp add: Let_def finished_manager_def max_queued_jobs_def total_jobs_def del: fold_simps fold.simps)

section \<open>Findings\<close>

text \<open>A repository whose job is done counts as cached when its index was evicted: the record reads ready
  and the snapshot cannot be opened.\<close>

lemma ready_but_not_openable:
  assumes "bt_ok (sr_repos r)" "sr_repos r = [(repo, sha)]"
    and "bt_get (sm_jobs m) (repo, sha, sr_analyzer_version r, repo_source source repo) = Some j" "js_status j = JobDone b fs"
    and "xc_entries (sm_cache m) = []"
  shows "sr_state (fst (refresh_repo_states lower source m r)) = SnReady \<and> \<not> fst (open_snapshot lower r m)"
  using assms
  by (simp add: refresh_repo_states_def Let_def cache_key_for_def bt_get_def refresh_repo_def note_state_def job_lookup_def
      open_snapshot_def has_entry_def hm_get_def repo_source_def split: option.split)

text \<open>The error of a missing reference is never recognised: its text starts with the prefix of the error type.\<close>

lemma missing_reference_not_recognised: "parse_ref_not_found (ref_error repo ref_str) = None"
  by (simp add: parse_ref_not_found_def ref_error_def strip_prefix_def)

text \<open>The age of a base can never be given: without \<^verbatim>\<open>from\<close> it is refused, with \<^verbatim>\<open>from\<close> it is ignored.\<close>

lemma base_age_is_useless:
  "pr_from req = None \<Longrightarrow> pr_max_base_age req \<noteq> None \<Longrightarrow> prepare_candidate version now m req = Inl MaxBaseAgeWithFrom"
  "pr_from req = Some f \<Longrightarrow> prepare_candidate version now m req = prepare_candidate version now m (req\<lparr>pr_max_base_age := a\<rparr>)"
  by (auto simp: prepare_candidate_def split: option.split)

end
