(* ===== verification/Spec2Isabelle.thy ===== *)
theory Spec2Isabelle
  imports Codec_Props Path_Length Read_Props Query_Run Claims_Props Readiness_Props Job_Store Auth Route_Props Join_Examples Join_All_Props Impact_Props Diff_Props Field_Props Presence_Props Config_Check Cross_Repo_Props Events_Log Annotation_Props Snapshot_Props
begin

text \<open>
  A verification library for the code-graph server in \<^verbatim>\<open>src/src/server\<close>. The server keeps a
  graph of the symbols of a code base, makes it durable with a write-ahead log and
  checkpoints, lays uncommitted edits over it, and answers queries and claims of impact.

  \<^bold>\<open>Parts and theories.\<close>
  \<^item> Text and data: \<^verbatim>\<open>Rust_Text\<close> (the string functions the code calls, on UTF-8 bytes),
    \<^verbatim>\<open>Schema\<close> (\<^verbatim>\<open>schema.rs\<close>), \<^verbatim>\<open>Contract_Model\<close> (\<^verbatim>\<open>federation/contracts/model.rs\<close>), \<^verbatim>\<open>Global_Id\<close>
    (\<^verbatim>\<open>federation/repo_id.rs\<close>), \<^verbatim>\<open>Sensor_Owner\<close> (who owns a sensor's nodes). Round trips and
    injectivity of the texts are in \<^verbatim>\<open>Codec_Props\<close>.
  \<^item> The graph database, \<^verbatim>\<open>graph/mod.rs\<close> and \<^verbatim>\<open>graph/persist.rs\<close>: \<^verbatim>\<open>Store\<close> holds the state (a petgraph,
    three indexes, two flags, the log) and every mutator; \<^verbatim>\<open>Store_Inv\<close> to \<^verbatim>\<open>Store_Run\<close> the
    coherence invariant and its preservation; \<^verbatim>\<open>Store_Effects\<close>, \<^verbatim>\<open>Store_Props\<close> what each mutator
    does. \<^verbatim>\<open>Traversal\<close>, \<^verbatim>\<open>Graph_Path\<close>, \<^verbatim>\<open>Graph_Read\<close> are the walks and lookups, proved against
    distances and scans in \<^verbatim>\<open>Graph_Props\<close>, \<^verbatim>\<open>Path_Length\<close>, \<^verbatim>\<open>Read_Props\<close>.
  \<^item> Durability: \<^verbatim>\<open>Wal\<close> (\<^verbatim>\<open>graph/wal.rs\<close>: frames, checksum, replay, rotation, the writer),
    \<^verbatim>\<open>Store_Spec\<close> and \<^verbatim>\<open>Store_Recovery\<close> (replaying operations), \<^verbatim>\<open>Checkpoint\<close> (the step relation
    of mutators, checkpoint stages and crashes, and what the files recover).
  \<^item> Queries, \<^verbatim>\<open>query/spec.rs\<close> and \<^verbatim>\<open>query/executor.rs\<close>: \<^verbatim>\<open>Query_Spec\<close> (selectors, globs, ranges),
    \<^verbatim>\<open>Query_Exec\<close> (the pipeline), \<^verbatim>\<open>Query_Props\<close> and \<^verbatim>\<open>Query_Run\<close> (its steps and whole queries).
  \<^item> Uncommitted edits: \<^verbatim>\<open>Revision_Log\<close> (\<^verbatim>\<open>revision_log.rs\<close>), \<^verbatim>\<open>Overlay\<close> (\<^verbatim>\<open>overlay.rs\<close>,
    \<^verbatim>\<open>overlay/stream.rs\<close>), \<^verbatim>\<open>Overlay_Inv\<close> and \<^verbatim>\<open>Overlay_Run\<close> (index invariant, refinement of a
    map with links, replay by a subscriber).
  \<^item> Claims: \<^verbatim>\<open>Resolve\<close> (\<^verbatim>\<open>tools/utils.rs\<close>: from a handle to a node) and \<^verbatim>\<open>Claims\<close> (\<^verbatim>\<open>claims.rs\<close>),
    with completeness and groundedness in \<^verbatim>\<open>Claims_Props\<close>.
  \<^item> Running the server: \<^verbatim>\<open>Readiness\<close> (\<^verbatim>\<open>readiness.rs\<close>, \<^verbatim>\<open>federation/readiness.rs\<close>,
    \<^verbatim>\<open>federation/health_gate.rs\<close>, the tool table of \<^verbatim>\<open>tools/definitions.rs\<close>) with the lifecycle and
    hold machines in \<^verbatim>\<open>Readiness_Props\<close>; \<^verbatim>\<open>Job_Store\<close> (\<^verbatim>\<open>job_store.rs\<close>); \<^verbatim>\<open>Auth\<close> (\<^verbatim>\<open>auth.rs\<close>:
    bearer keys and the token bucket); \<^verbatim>\<open>Presence\<close> (\<^verbatim>\<open>presence.rs\<close>, \<^verbatim>\<open>activity.rs\<close>,
    \<^verbatim>\<open>ingest/handles/presence.rs\<close>: sessions of agents in processes that share a state file, and
    the record of their tool calls), with the token invariant in \<^verbatim>\<open>Presence_Props\<close>.
  \<^item> The federation's contracts, \<^verbatim>\<open>federation/contracts\<close>: \<^verbatim>\<open>Url_Normalize\<close> (\<^verbatim>\<open>normalize.rs\<close>) and
    \<^verbatim>\<open>Route_Match\<close> (\<^verbatim>\<open>route_match.rs\<close>, \<^verbatim>\<open>key_compat.rs\<close>) with \<^verbatim>\<open>Route_Props\<close>; \<^verbatim>\<open>Btree\<close> (ordered maps, the
    order of keys), \<^verbatim>\<open>Endpoint_Table\<close> (\<^verbatim>\<open>config.rs\<close>, \<^verbatim>\<open>joiner/endpoints.rs\<close>) with \<^verbatim>\<open>Endpoint_Props\<close>,
    \<^verbatim>\<open>Config_Check\<close> (the validation in \<^verbatim>\<open>config.rs\<close> and what it promises);
    \<^verbatim>\<open>Join_Http\<close>, \<^verbatim>\<open>Join_Resolve\<close> (\<^verbatim>\<open>joiner/consumer_http.rs\<close>, \<^verbatim>\<open>url_resolution.rs\<close>, \<^verbatim>\<open>clients.rs\<close>),
    \<^verbatim>\<open>Join_Protocol\<close> (\<^verbatim>\<open>joiner/consumer_protocol.rs\<close>), \<^verbatim>\<open>Join_Run\<close> (\<^verbatim>\<open>joiner/mod.rs\<close>,
    \<^verbatim>\<open>joiner/confirmed.rs\<close>) from a call to the endpoint it reaches, proved in \<^verbatim>\<open>Join_Props\<close> and
    \<^verbatim>\<open>Join_Run_Props\<close>, evaluated in \<^verbatim>\<open>Join_Examples\<close>.
  \<^item> Change and impact: \<^verbatim>\<open>Key_Order\<close> (orders of keys, folds of insertions), \<^verbatim>\<open>Field_Join\<close>
    (\<^verbatim>\<open>field_join.rs\<close>: schemas and field reads) with \<^verbatim>\<open>Field_Props\<close>, \<^verbatim>\<open>Contract_Index\<close> (\<^verbatim>\<open>index.rs\<close> and
    the assembly in \<^verbatim>\<open>joiner/mod.rs\<close>) with \<^verbatim>\<open>Join_All_Props\<close> (what the whole join reports), \<^verbatim>\<open>Coverage\<close> (\<^verbatim>\<open>coverage.rs\<close>: what a scan saw), \<^verbatim>\<open>Contract_Diff\<close>
    and \<^verbatim>\<open>Impact\<close> (\<^verbatim>\<open>diff.rs\<close>: surfaces, changes, verdicts), with \<^verbatim>\<open>Impact_Props\<close> (when a verdict is
    earned) and \<^verbatim>\<open>Diff_Props\<close> (no endpoint or field is missed, equal states give no change).
  \<^item> Snapshots at fixed commits: \<^verbatim>\<open>Index_Cache\<close> (\<^verbatim>\<open>index_cache.rs\<close>: finished indexes, holds, eviction),
    \<^verbatim>\<open>Snapshots\<close> (\<^verbatim>\<open>snapshots/record.rs\<close>, \<^verbatim>\<open>jobs.rs\<close>, \<^verbatim>\<open>manager.rs\<close>: records, jobs, preparing and reporting)
    with \<^verbatim>\<open>Snapshot_Props\<close> (what a record reports, what an opened snapshot keeps, jobs that never leave).
  \<^item> Beside these: \<^verbatim>\<open>Cross_Repo\<close> (\<^verbatim>\<open>federation/matching.rs\<close>: the same symbol in other repositories) with
    \<^verbatim>\<open>Cross_Repo_Props\<close>; \<^verbatim>\<open>Events_Log\<close> (\<^verbatim>\<open>events_log.rs\<close>: numbered events and their replay);
    \<^verbatim>\<open>Annotations\<close> (\<^verbatim>\<open>annotations.rs\<close>: what agents write down about a target) with \<^verbatim>\<open>Annotation_Props\<close>.

  \<^bold>\<open>Correspondence.\<close> A struct is a record and an enum a datatype with the source's fields and
  constructors; an operation behind a lock is a function from state to result and state; a
  \<open>Result\<close> is a sum with the error on the left; a panic is \<open>None\<close> or an error of its own. Where the
  code drops a lock or goes key by key inside one operation (an overlay edge and its ends, pinning
  and removing cached indexes), the operation is one step here. Properties of runs name the operations they leave
  out: \<open>reset\<close>, mutators that do not log all they do, merging overlays, failed writes of the event log.
  Hash maps are association lists (\<^verbatim>\<open>Prelude\<close>), so that an order the code leaves open is an
  argument or immaterial. Floats are rationals: no rounding is claimed. Code outside
  \<^verbatim>\<open>src\<close> is a parameter: petgraph's index allocation and edge order, the UUID hash, bincode, the
  text embedder, Unicode case mapping and character classes, the file system's canonical paths;
  the environment index a join reads, the client registry, the files and reports of a scan, the
  debug text of a provenance, the version of the analyser and what git says about changed files
  are arguments too, and so are the fresh ids, tokens and clock readings of presence, the JSON text of an event,
  and what git and the indexer return for a snapshot; the table of annotations is a map, files are the lists of their lines; a deadline that cuts a comparison short is not modelled; what a theorem
  needs of one is a named hypothesis such as \<open>petgraph_ok\<close> or \<open>shuffle_ok\<close>.

  \<^bold>\<open>Lemma groups.\<close> The locales of \<^verbatim>\<open>Prelude\<close> state the interfaces: a keyed store, a state machine
  with an invariant, one with a clock; \<^verbatim>\<open>Rust_Text\<close> adds codecs of segments and
  \<^verbatim>\<open>Overlay_Run\<close> machines that refine an abstract one. Each is interpreted on the model's own
  operations, and the run-level properties rest on those facts.

  \<^bold>\<open>Loops.\<close> Walks terminate because each step marks a node of a finite graph or shortens the
  queue; \<open>walk_back\<close> and the glob matcher take fuel, with a proof that the fuel given is
  enough.

  \<^bold>\<open>Not modelled.\<close> Sensors, parsers and the language-server client scan source text through
  third-party libraries; ingestion, watching, the MCP surface, the command line and the trace
  listener are I/O and dispatch around the parts above; embeddings are a model runtime.
\<close>

end
